(* ===== verification/Kicad_Prelude.thy ===== *)
theory Kicad_Prelude
  imports Main "HOL-Library.Word"
begin

text \<open>
  What the component theories share: the collections the proofs are driven by, the reading of
  C++ containers as lists, and the generic facts about lists and words that more than one
  component needs.

  \<^item> A \<open>std::vector<T>\<close> is an \<open>'a list\<close>, a \<open>std::string\<close> or \<open>wxString\<close> a \<open>string\<close>.
  \<^item> A signed \<open>int\<close>, \<open>ssize_t\<close> or \<open>long long\<close> is an \<open>int\<close>; where a result must be shown to fit
    its C++ width the bound is a theorem.
  \<^item> Insertion and erasure at a position are the two functions below; out of range they do what
    \<open>take\<close> and \<open>drop\<close> do, and the operations that use them carry the guards of the source.
\<close>

named_theorems kicad_defs \<open>definitions unfolded when an operation is evaluated\<close>
named_theorems kicad_inv \<open>preservation lemmas of the component invariants\<close>

subsection \<open>Vectors\<close>

definition vec_insert :: "nat \<Rightarrow> 'a list \<Rightarrow> 'a list \<Rightarrow> 'a list" where
  "vec_insert i new xs = take i xs @ new @ drop i xs"

definition vec_erase :: "nat \<Rightarrow> nat \<Rightarrow> 'a list \<Rightarrow> 'a list" where
  "vec_erase i j xs = take i xs @ drop j xs"

lemma length_vec_insert [simp]: "length (vec_insert i new xs) = length xs + length new"
  by (simp add: vec_insert_def)

lemma length_vec_erase [simp]:
  "i \<le> j \<Longrightarrow> j \<le> length xs \<Longrightarrow> length (vec_erase i j xs) = length xs - (j - i)"
  by (simp add: vec_erase_def)

lemma nth_vec_insert:
  assumes "i \<le> length xs" "k < length xs + length new"
  shows "vec_insert i new xs ! k =
    (if k < i then xs ! k else if k < i + length new then new ! (k - i) else xs ! (k - length new))"
  using assms by (auto simp: vec_insert_def nth_append min_def)

lemma nth_vec_erase:
  assumes "i \<le> j" "j \<le> length xs" "k < length xs - (j - i)"
  shows "vec_erase i j xs ! k = (if k < i then xs ! k else xs ! (k + (j - i)))"
  using assms by (auto simp: vec_erase_def nth_append min_def intro!: arg_cong [where f = "(!) xs"])

lemma set_vec_insert: "set (vec_insert i new xs) = set xs \<union> set new"
proof -
  have "set xs = set (take i xs) \<union> set (drop i xs)"
    by (metis append_take_drop_id set_append)
  then show ?thesis by (auto simp: vec_insert_def)
qed

lemma set_vec_erase: "set (vec_erase i j xs) \<subseteq> set xs"
  by (auto simp: vec_erase_def dest: in_set_takeD in_set_dropD)

subsection \<open>Machine integers\<close>

text \<open>The value that is left of a number in a 32-bit \<open>int\<close>, in two's complement.\<close>

definition to_int32 :: "int \<Rightarrow> int" where
  "to_int32 x = (x + 2147483648) mod 4294967296 - 2147483648"

lemma to_int32_id: "- (2 ^ 31) \<le> x \<Longrightarrow> x < 2 ^ 31 \<Longrightarrow> to_int32 x = x"
  by (simp add: to_int32_def)

text \<open>
  The \<open>double\<close> nearest to a whole number, of two the one with the even significand. A significand has 53
  bits: \<open>ulp\<close> is the distance between neighbouring numbers of that size.
\<close>

function ulp :: "int \<Rightarrow> int" where
  "ulp x = (if x < 2 ^ 53 then 1 else 2 * ulp (x div 2))"
  by pat_completeness auto
termination
  by (relation "measure nat") auto

declare ulp.simps [simp del]

definition to_double :: "int \<Rightarrow> int" where
  "to_double x =
    (let m = ulp \<bar>x\<bar>; q = x div m; r = x mod m
     in m * (if 2 * r < m \<or> 2 * r = m \<and> even q then q else q + 1))"

lemma ulp_small: "x < 2 ^ 53 \<Longrightarrow> ulp x = 1"
  by (subst ulp.simps) simp

lemma ulp_step: "2 ^ 53 \<le> x \<Longrightarrow> ulp x = 2 * ulp (x div 2)"
  by (subst ulp.simps) simp

lemma ulp_pos: "1 \<le> ulp x"
proof (induction x rule: ulp.induct)
  case (1 x)
  then show ?case by (cases "x < 2 ^ 53") (simp_all add: ulp_small ulp_step)
qed

lemma ulp_le: "1 \<le> x \<Longrightarrow> ulp x \<le> x"
proof (induction x rule: ulp.induct)
  case (1 x)
  show ?case
  proof (cases "x < 2 ^ 53")
    case False
    then have "ulp (x div 2) \<le> x div 2" using 1 by auto
    with False show ?thesis by (simp add: ulp_step)
  qed (use 1 in \<open>simp add: ulp_small\<close>)
qed

lemma ulp_bound: "x < 2 ^ (53 + n) \<Longrightarrow> ulp x \<le> 2 ^ n"
proof (induction n arbitrary: x)
  case (Suc n)
  show ?case
  proof (cases "x < 2 ^ 53")
    case False
    have "x < 2 * 2 ^ (53 + n)" using Suc.prems by (simp only: add_Suc_right power_Suc)
    moreover have "2 * (x div 2) \<le> x" by simp
    ultimately have "x div 2 < 2 ^ (53 + n)" by linarith
    then have "ulp (x div 2) \<le> 2 ^ n" by (rule Suc.IH)
    moreover have "ulp x = 2 * ulp (x div 2)" by (rule ulp_step) (use False in simp)
    ultimately show ?thesis by simp
  next
    case True
    then show ?thesis using one_le_power [of "2 :: int" "Suc n"] by (simp only: ulp_small)
  qed
qed (simp add: ulp_small)

lemma to_double_error: "2 * \<bar>to_double x - x\<bar> \<le> ulp \<bar>x\<bar>"
proof -
  define m where "m = ulp \<bar>x\<bar>"
  have m: "1 \<le> m" by (simp add: m_def ulp_pos)
  have x: "x = m * (x div m) + x mod m" "0 \<le> x mod m" "x mod m < m" using m by simp_all
  have "to_double x - x = (if 2 * (x mod m) < m \<or> 2 * (x mod m) = m \<and> even (x div m) then - (x mod m) else m - x mod m)"
    using x(1) by (simp add: to_double_def m_def [symmetric] Let_def algebra_simps)
  with x(2,3) show ?thesis by (auto simp: m_def [symmetric])
qed

lemma to_double_id: "\<bar>x\<bar> < 2 ^ 53 \<Longrightarrow> to_double x = x"
  using to_double_error [of x] by (simp add: ulp_small) arith

lemma to_double_sign: "0 < to_double x \<longleftrightarrow> 0 < x" "to_double x = 0 \<longleftrightarrow> x = 0"
proof -
  have "2 * \<bar>to_double x - x\<bar> \<le> \<bar>x\<bar>" if "x \<noteq> 0"
    using to_double_error [of x] ulp_le [of "\<bar>x\<bar>"] that by linarith
  moreover have "to_double 0 = 0" by (simp add: to_double_id)
  ultimately show "0 < to_double x \<longleftrightarrow> 0 < x" "to_double x = 0 \<longleftrightarrow> x = 0"
    by (cases "x = 0"; fastforce simp: abs_if split: if_splits)+
qed

text \<open>A difference of two products in \<open>double\<close>: its sign is right when it is not too close to 0.\<close>

lemma to_double_diff:
  assumes "\<bar>a\<bar> < 2 ^ 62" "\<bar>b\<bar> < 2 ^ 62" "a = b \<or> 512 < \<bar>a - b\<bar> \<or> \<bar>a\<bar> < 2 ^ 53 \<and> \<bar>b\<bar> < 2 ^ 53"
  shows "0 < to_double (to_double a - to_double b) \<longleftrightarrow> 0 < a - b"
    "to_double (to_double a - to_double b) = 0 \<longleftrightarrow> a - b = 0"
proof -
  have e: "2 * \<bar>to_double x - x\<bar> \<le> 512" if "\<bar>x\<bar> < 2 ^ 62" for x
    using to_double_error [of x] ulp_bound [of "\<bar>x\<bar>" 9] that by simp
  consider "a = b" | "512 < \<bar>a - b\<bar>" | "to_double a = a" "to_double b = b"
    using assms(3) to_double_id by blast
  then have "(0 < to_double a - to_double b \<longleftrightarrow> 0 < a - b) \<and> (to_double a - to_double b = 0 \<longleftrightarrow> a - b = 0)"
  proof cases
    case 2
    with e [OF assms(1)] e [OF assms(2)] show ?thesis by (auto simp: abs_if split: if_splits)
  qed simp_all
  then show "0 < to_double (to_double a - to_double b) \<longleftrightarrow> 0 < a - b"
    "to_double (to_double a - to_double b) = 0 \<longleftrightarrow> a - b = 0" by (simp_all add: to_double_sign)
qed

subsection \<open>Interfaces shared by components\<close>

text \<open>
  Turning over: an operation that maps the well-formed values to themselves and undoes itself
  (a board side is flipped, a chain or a box is reversed, a direction is mirrored).
\<close>

locale involution_on =
  fixes f :: "'a \<Rightarrow> 'a" and P :: "'a \<Rightarrow> bool"
  assumes closed: "P x \<Longrightarrow> P (f x)"
    and twice: "P x \<Longrightarrow> f (f x) = x"
begin

lemma inj: "inj_on f {x. P x}"
  by (rule inj_on_inverseI [where g = f]) (simp add: twice)

lemma mem_image: "(\<And>x. x \<in> S \<Longrightarrow> P x) \<Longrightarrow> P y \<Longrightarrow> y \<in> f ` S \<longleftrightarrow> f y \<in> S"
  by (force simp: twice image_iff)

lemma image_twice: "(\<And>x. x \<in> S \<Longrightarrow> P x) \<Longrightarrow> f ` f ` S = S"
  by (force simp: twice image_iff)

lemma onto: "P y \<Longrightarrow> \<exists>x. P x \<and> f x = y"
  using closed twice by blast

end

text \<open>
  A text form that reads back: what every formatter/parser pair of the program promises.
\<close>

locale text_codec =
  fixes enc :: "'a \<Rightarrow> string" and dec :: "string \<Rightarrow> 'b" and ok :: "'a \<Rightarrow> 'b" and valid :: "'a \<Rightarrow> bool"
  assumes dec_enc: "valid x \<Longrightarrow> dec (enc x) = ok x"
    and ok_inj: "valid x \<Longrightarrow> valid y \<Longrightarrow> ok x = ok y \<Longrightarrow> x = y"
begin

lemma enc_inj: "valid x \<Longrightarrow> valid y \<Longrightarrow> enc x = enc y \<Longrightarrow> x = y"
  using dec_enc ok_inj by metis

lemma enc_inj_on: "inj_on enc {x. valid x}"
  using enc_inj by (auto intro: inj_onI)

lemma dec_on_image: "t \<in> enc ` {x. valid x} \<Longrightarrow> \<exists>x. valid x \<and> dec t = ok x"
  using dec_enc by auto

end

text \<open>
  Growing a region item by item: every step adds the item's points and nothing that is not forced.
\<close>

locale hull_accumulator =
  fixes pts :: "'s \<Rightarrow> 'p set" and add :: "'s \<Rightarrow> 'x \<Rightarrow> 's" and what :: "'x \<Rightarrow> 'p set" and ok :: "'s \<Rightarrow> bool"
  assumes add_ok: "ok s \<Longrightarrow> ok (add s x)"
    and upper: "ok s \<Longrightarrow> pts s \<union> what x \<subseteq> pts (add s x)"
    and least: "ok s \<Longrightarrow> pts s \<union> what x \<subseteq> pts c \<Longrightarrow> pts (add s x) \<subseteq> pts c"
begin

lemma foldl_ok: "ok s \<Longrightarrow> ok (foldl add s xs)"
  by (induction xs arbitrary: s) (simp_all add: add_ok)

lemma add_subset: "ok s \<Longrightarrow> pts (add s x) \<subseteq> pts c \<longleftrightarrow> pts s \<subseteq> pts c \<and> what x \<subseteq> pts c"
  using upper least by (meson le_sup_iff subset_trans)

lemma foldl_subset:
  "ok s \<Longrightarrow> pts (foldl add s xs) \<subseteq> pts c \<longleftrightarrow> pts s \<subseteq> pts c \<and> (\<forall>x\<in>set xs. what x \<subseteq> pts c)"
  by (induction xs arbitrary: s) (simp_all add: add_ok add_subset)

lemma foldl_upper: "ok s \<Longrightarrow> pts s \<union> \<Union> (what ` set xs) \<subseteq> pts (foldl add s xs)"
  using foldl_subset [of s xs "foldl add s xs"] by auto

lemma foldl_same_set: "ok s \<Longrightarrow> set xs = set ys \<Longrightarrow> pts (foldl add s xs) = pts (foldl add s ys)"
  using foldl_subset [of s xs] foldl_subset [of s ys] by (metis subset_antisym subset_refl)

end

end
