(* ===== verification/Layers.thy ===== *)
theory Layers
  imports Kicad_Prelude
begin

text \<open>
  Layer identifiers and layer sets: \<open>include/layer_ids.h\<close> and \<open>common/lset.cpp\<close>.

  A \<open>PCB_LAYER_ID\<close> is the C++ enum over \<open>int\<close>, and is an \<open>int\<close> here, since the code casts to and
  from it and calculates with it. \<open>LSET\<close> is a \<open>std::bitset<PCB_LAYER_ID_COUNT>\<close>, a 60-bit word:
  \<open>test\<close> reads a bit, \<open>set\<close> and \<open>reset\<close> write one. A bit index outside the set makes
  \<open>std::bitset\<close> throw \<open>std::out_of_range\<close>; the operations below only use indices of the enum.
\<close>

subsection \<open>The layer enum\<close>

type_synonym pcb_layer_id = int
type_synonym lset = "60 word"

abbreviation (input) UNDEFINED_LAYER :: pcb_layer_id where "UNDEFINED_LAYER \<equiv> - 1"
abbreviation (input) UNSELECTED_LAYER :: pcb_layer_id where "UNSELECTED_LAYER \<equiv> - 2"
abbreviation (input) F_Cu :: pcb_layer_id where "F_Cu \<equiv> 0"
abbreviation (input) In1_Cu :: pcb_layer_id where "In1_Cu \<equiv> 1"
abbreviation (input) In2_Cu :: pcb_layer_id where "In2_Cu \<equiv> 2"
abbreviation (input) In3_Cu :: pcb_layer_id where "In3_Cu \<equiv> 3"
abbreviation (input) In4_Cu :: pcb_layer_id where "In4_Cu \<equiv> 4"
abbreviation (input) In5_Cu :: pcb_layer_id where "In5_Cu \<equiv> 5"
abbreviation (input) In6_Cu :: pcb_layer_id where "In6_Cu \<equiv> 6"
abbreviation (input) In7_Cu :: pcb_layer_id where "In7_Cu \<equiv> 7"
abbreviation (input) In8_Cu :: pcb_layer_id where "In8_Cu \<equiv> 8"
abbreviation (input) In9_Cu :: pcb_layer_id where "In9_Cu \<equiv> 9"
abbreviation (input) In10_Cu :: pcb_layer_id where "In10_Cu \<equiv> 10"
abbreviation (input) In11_Cu :: pcb_layer_id where "In11_Cu \<equiv> 11"
abbreviation (input) In12_Cu :: pcb_layer_id where "In12_Cu \<equiv> 12"
abbreviation (input) In13_Cu :: pcb_layer_id where "In13_Cu \<equiv> 13"
abbreviation (input) In14_Cu :: pcb_layer_id where "In14_Cu \<equiv> 14"
abbreviation (input) In15_Cu :: pcb_layer_id where "In15_Cu \<equiv> 15"
abbreviation (input) In16_Cu :: pcb_layer_id where "In16_Cu \<equiv> 16"
abbreviation (input) In17_Cu :: pcb_layer_id where "In17_Cu \<equiv> 17"
abbreviation (input) In18_Cu :: pcb_layer_id where "In18_Cu \<equiv> 18"
abbreviation (input) In19_Cu :: pcb_layer_id where "In19_Cu \<equiv> 19"
abbreviation (input) In20_Cu :: pcb_layer_id where "In20_Cu \<equiv> 20"
abbreviation (input) In21_Cu :: pcb_layer_id where "In21_Cu \<equiv> 21"
abbreviation (input) In22_Cu :: pcb_layer_id where "In22_Cu \<equiv> 22"
abbreviation (input) In23_Cu :: pcb_layer_id where "In23_Cu \<equiv> 23"
abbreviation (input) In24_Cu :: pcb_layer_id where "In24_Cu \<equiv> 24"
abbreviation (input) In25_Cu :: pcb_layer_id where "In25_Cu \<equiv> 25"
abbreviation (input) In26_Cu :: pcb_layer_id where "In26_Cu \<equiv> 26"
abbreviation (input) In27_Cu :: pcb_layer_id where "In27_Cu \<equiv> 27"
abbreviation (input) In28_Cu :: pcb_layer_id where "In28_Cu \<equiv> 28"
abbreviation (input) In29_Cu :: pcb_layer_id where "In29_Cu \<equiv> 29"
abbreviation (input) In30_Cu :: pcb_layer_id where "In30_Cu \<equiv> 30"
abbreviation (input) B_Cu :: pcb_layer_id where "B_Cu \<equiv> 31"
abbreviation (input) B_Adhes :: pcb_layer_id where "B_Adhes \<equiv> 32"
abbreviation (input) F_Adhes :: pcb_layer_id where "F_Adhes \<equiv> 33"
abbreviation (input) B_Paste :: pcb_layer_id where "B_Paste \<equiv> 34"
abbreviation (input) F_Paste :: pcb_layer_id where "F_Paste \<equiv> 35"
abbreviation (input) B_SilkS :: pcb_layer_id where "B_SilkS \<equiv> 36"
abbreviation (input) F_SilkS :: pcb_layer_id where "F_SilkS \<equiv> 37"
abbreviation (input) B_Mask :: pcb_layer_id where "B_Mask \<equiv> 38"
abbreviation (input) F_Mask :: pcb_layer_id where "F_Mask \<equiv> 39"
abbreviation (input) Dwgs_User :: pcb_layer_id where "Dwgs_User \<equiv> 40"
abbreviation (input) Cmts_User :: pcb_layer_id where "Cmts_User \<equiv> 41"
abbreviation (input) Eco1_User :: pcb_layer_id where "Eco1_User \<equiv> 42"
abbreviation (input) Eco2_User :: pcb_layer_id where "Eco2_User \<equiv> 43"
abbreviation (input) Edge_Cuts :: pcb_layer_id where "Edge_Cuts \<equiv> 44"
abbreviation (input) Margin :: pcb_layer_id where "Margin \<equiv> 45"
abbreviation (input) B_CrtYd :: pcb_layer_id where "B_CrtYd \<equiv> 46"
abbreviation (input) F_CrtYd :: pcb_layer_id where "F_CrtYd \<equiv> 47"
abbreviation (input) B_Fab :: pcb_layer_id where "B_Fab \<equiv> 48"
abbreviation (input) F_Fab :: pcb_layer_id where "F_Fab \<equiv> 49"
abbreviation (input) User_1 :: pcb_layer_id where "User_1 \<equiv> 50"
abbreviation (input) User_2 :: pcb_layer_id where "User_2 \<equiv> 51"
abbreviation (input) User_3 :: pcb_layer_id where "User_3 \<equiv> 52"
abbreviation (input) User_4 :: pcb_layer_id where "User_4 \<equiv> 53"
abbreviation (input) User_5 :: pcb_layer_id where "User_5 \<equiv> 54"
abbreviation (input) User_6 :: pcb_layer_id where "User_6 \<equiv> 55"
abbreviation (input) User_7 :: pcb_layer_id where "User_7 \<equiv> 56"
abbreviation (input) User_8 :: pcb_layer_id where "User_8 \<equiv> 57"
abbreviation (input) User_9 :: pcb_layer_id where "User_9 \<equiv> 58"
abbreviation (input) Rescue :: pcb_layer_id where "Rescue \<equiv> 59"

text \<open>The enum as the compiler numbers it, and the constants the code derives from it.\<close>

definition layer_enum :: "pcb_layer_id list" where
  "layer_enum =
    [F_Cu, In1_Cu, In2_Cu, In3_Cu, In4_Cu, In5_Cu, In6_Cu, In7_Cu, In8_Cu, In9_Cu, In10_Cu,
     In11_Cu, In12_Cu, In13_Cu, In14_Cu, In15_Cu, In16_Cu, In17_Cu, In18_Cu, In19_Cu, In20_Cu,
     In21_Cu, In22_Cu, In23_Cu, In24_Cu, In25_Cu, In26_Cu, In27_Cu, In28_Cu, In29_Cu, In30_Cu,
     B_Cu, B_Adhes, F_Adhes, B_Paste, F_Paste, B_SilkS, F_SilkS, B_Mask, F_Mask,
     Dwgs_User, Cmts_User, Eco1_User, Eco2_User, Edge_Cuts, Margin,
     B_CrtYd, F_CrtYd, B_Fab, F_Fab,
     User_1, User_2, User_3, User_4, User_5, User_6, User_7, User_8, User_9, Rescue]"

definition PCB_LAYER_ID_COUNT :: nat where "PCB_LAYER_ID_COUNT = 60"

definition MAX_CU_LAYERS :: int where "MAX_CU_LAYERS = B_Cu - F_Cu + 1"

definition IsValidLayer :: "int \<Rightarrow> bool" where
  "IsValidLayer aLayerId \<longleftrightarrow> 0 \<le> aLayerId \<and> aLayerId < int PCB_LAYER_ID_COUNT"

definition IsCopperLayer :: "int \<Rightarrow> bool" where
  "IsCopperLayer aLayerId \<longleftrightarrow> F_Cu \<le> aLayerId \<and> aLayerId \<le> B_Cu"

definition IsNonCopperLayer :: "int \<Rightarrow> bool" where
  "IsNonCopperLayer aLayerId \<longleftrightarrow> B_Cu < aLayerId \<and> aLayerId \<le> int PCB_LAYER_ID_COUNT"

definition IsUserLayer :: "pcb_layer_id \<Rightarrow> bool" where
  "IsUserLayer aLayerId \<longleftrightarrow> Dwgs_User \<le> aLayerId \<and> aLayerId \<le> Eco2_User"

definition IsFrontLayer :: "pcb_layer_id \<Rightarrow> bool" where
  "IsFrontLayer aLayerId \<longleftrightarrow>
     aLayerId \<in> set [F_Cu, F_Adhes, F_Paste, F_SilkS, F_Mask, F_CrtYd, F_Fab]"

definition IsBackLayer :: "pcb_layer_id \<Rightarrow> bool" where
  "IsBackLayer aLayerId \<longleftrightarrow>
     aLayerId \<in> set [B_Cu, B_Adhes, B_Paste, B_SilkS, B_Mask, B_CrtYd, B_Fab]"

lemmas layer_class_defs [kicad_defs] =
  IsValidLayer_def IsCopperLayer_def IsNonCopperLayer_def IsUserLayer_def IsFrontLayer_def
  IsBackLayer_def PCB_LAYER_ID_COUNT_def MAX_CU_LAYERS_def

subsection \<open>Sets and sequences\<close>

text \<open>\<open>bitset::test\<close> throws outside the set (\<open>None\<close>); \<open>Contains\<close> catches that.\<close>

definition test :: "lset \<Rightarrow> pcb_layer_id \<Rightarrow> bool option" where
  "test s aLayer = (if IsValidLayer aLayer then Some (bit s (nat aLayer)) else None)"

definition Contains :: "lset \<Rightarrow> pcb_layer_id \<Rightarrow> bool" where
  "Contains s aLayer = (case test s aLayer of Some b \<Rightarrow> b | None \<Rightarrow> False)"

text \<open>The constructor from a literal list of layers of the enum.\<close>

definition lset_of :: "pcb_layer_id list \<Rightarrow> lset" where
  "lset_of ls = foldl (\<lambda>s l. set_bit (nat l) s) 0 ls"

text \<open>The constructor from an \<open>LSEQ\<close>, whose elements need not be valid indices.\<close>

definition LSET_of_LSEQ :: "pcb_layer_id list \<Rightarrow> lset option" where
  "LSET_of_LSEQ aSeq = (if list_all IsValidLayer aSeq then Some (lset_of aSeq) else None)"

fun Seq_wish :: "lset \<Rightarrow> pcb_layer_id list \<Rightarrow> pcb_layer_id list option" where
  "Seq_wish s [] = Some []"
| "Seq_wish s (aId # ids) =
    (case test s aId of
       None \<Rightarrow> None
     | Some b \<Rightarrow>
        (case Seq_wish s ids of
           None \<Rightarrow> None
         | Some ret \<Rightarrow> Some (if b then aId # ret else ret)))"

definition Seq :: "lset \<Rightarrow> pcb_layer_id list" where
  "Seq s = map int (filter (bit s) [0..<PCB_LAYER_ID_COUNT])"

definition ExtractLayer :: "lset \<Rightarrow> pcb_layer_id" where
  "ExtractLayer s =
    (let set_count = length (filter (bit s) [0..<PCB_LAYER_ID_COUNT]) in
     if set_count = 0 then UNSELECTED_LAYER
     else if set_count > 1 then UNDEFINED_LAYER
     else (case filter (bit s) [0..<PCB_LAYER_ID_COUNT] of
             i # _ \<Rightarrow> int i
           | [] \<Rightarrow> UNDEFINED_LAYER))"

definition CuStack_sequence :: "pcb_layer_id list" where
  "CuStack_sequence =
    [F_Cu, In1_Cu, In2_Cu, In3_Cu, In4_Cu, In5_Cu, In6_Cu, In7_Cu, In8_Cu, In9_Cu, In10_Cu,
     In11_Cu, In12_Cu, In13_Cu, In14_Cu, In15_Cu, In16_Cu, In17_Cu, In18_Cu, In19_Cu, In20_Cu,
     In21_Cu, In22_Cu, In23_Cu, In24_Cu, In25_Cu, In26_Cu, In27_Cu, In28_Cu, In29_Cu, In30_Cu,
     B_Cu]"

definition CuStack :: "lset \<Rightarrow> pcb_layer_id list option" where
  "CuStack s = Seq_wish s CuStack_sequence"

definition Technicals :: "lset \<Rightarrow> lset \<Rightarrow> pcb_layer_id list option" where
  "Technicals s aSetToOmit =
    Seq_wish (and (not aSetToOmit) s)
      [F_Adhes, B_Adhes, F_Paste, B_Paste, F_SilkS, B_SilkS, F_Mask, B_Mask, F_CrtYd, B_CrtYd,
       F_Fab, B_Fab]"

definition Users :: "lset \<Rightarrow> pcb_layer_id list option" where
  "Users s = Seq_wish s
    [Dwgs_User, Cmts_User, Eco1_User, Eco2_User, Edge_Cuts, Margin, User_1, User_2, User_3, User_4,
     User_5, User_6, User_7, User_8, User_9]"

definition TechAndUserUIOrder_sequence :: "pcb_layer_id list" where
  "TechAndUserUIOrder_sequence =
    [F_Adhes, B_Adhes, F_Paste, B_Paste, F_SilkS, B_SilkS, F_Mask, B_Mask, Dwgs_User, Cmts_User,
     Eco1_User, Eco2_User, Edge_Cuts, Margin, F_CrtYd, B_CrtYd, F_Fab, B_Fab, User_1, User_2,
     User_3, User_4, User_5, User_6, User_7, User_8, User_9]"

definition TechAndUserUIOrder :: "lset \<Rightarrow> pcb_layer_id list option" where
  "TechAndUserUIOrder s = Seq_wish s TechAndUserUIOrder_sequence"

definition UIOrder :: "lset \<Rightarrow> pcb_layer_id list option" where
  "UIOrder s =
    (case CuStack s of
       None \<Rightarrow> None
     | Some order \<Rightarrow>
        (case TechAndUserUIOrder s of
           None \<Rightarrow> None
         | Some techuser \<Rightarrow> Some (order @ techuser)))"

definition SeqStackupBottom2Top_sequence :: "pcb_layer_id list" where
  "SeqStackupBottom2Top_sequence =
    [B_Cu, B_Mask, B_Paste, B_SilkS, B_Adhes, B_CrtYd, B_Fab,
     In30_Cu, In29_Cu, In28_Cu, In27_Cu, In26_Cu, In25_Cu, In24_Cu, In23_Cu, In22_Cu, In21_Cu,
     In20_Cu, In19_Cu, In18_Cu, In17_Cu, In16_Cu, In15_Cu, In14_Cu, In13_Cu, In12_Cu, In11_Cu,
     In10_Cu, In9_Cu, In8_Cu, In7_Cu, In6_Cu, In5_Cu, In4_Cu, In3_Cu, In2_Cu, In1_Cu,
     F_Cu, F_Mask, F_Paste, F_SilkS, F_Adhes, F_CrtYd, F_Fab, Dwgs_User, Cmts_User, Eco1_User,
     Eco2_User, User_1, User_2, User_3, User_4, User_5, User_6, User_7, User_8, User_9, Margin,
     Edge_Cuts]"

definition SeqStackupBottom2Top :: "lset \<Rightarrow> pcb_layer_id list option" where
  "SeqStackupBottom2Top s = Seq_wish s SeqStackupBottom2Top_sequence"

subsection \<open>Layer names\<close>

text \<open>The tokens of the board file, one per layer, and the fallback of the \<open>switch\<close>.\<close>

definition layer_name_table :: "(pcb_layer_id \<times> string) list" where
  "layer_name_table =
    [(F_Cu, ''F.Cu''), (In1_Cu, ''In1.Cu''), (In2_Cu, ''In2.Cu''), (In3_Cu, ''In3.Cu''),
     (In4_Cu, ''In4.Cu''), (In5_Cu, ''In5.Cu''), (In6_Cu, ''In6.Cu''), (In7_Cu, ''In7.Cu''),
     (In8_Cu, ''In8.Cu''), (In9_Cu, ''In9.Cu''), (In10_Cu, ''In10.Cu''), (In11_Cu, ''In11.Cu''),
     (In12_Cu, ''In12.Cu''), (In13_Cu, ''In13.Cu''), (In14_Cu, ''In14.Cu''), (In15_Cu, ''In15.Cu''),
     (In16_Cu, ''In16.Cu''), (In17_Cu, ''In17.Cu''), (In18_Cu, ''In18.Cu''), (In19_Cu, ''In19.Cu''),
     (In20_Cu, ''In20.Cu''), (In21_Cu, ''In21.Cu''), (In22_Cu, ''In22.Cu''), (In23_Cu, ''In23.Cu''),
     (In24_Cu, ''In24.Cu''), (In25_Cu, ''In25.Cu''), (In26_Cu, ''In26.Cu''), (In27_Cu, ''In27.Cu''),
     (In28_Cu, ''In28.Cu''), (In29_Cu, ''In29.Cu''), (In30_Cu, ''In30.Cu''), (B_Cu, ''B.Cu''),
     (B_Adhes, ''B.Adhes''), (F_Adhes, ''F.Adhes''), (B_Paste, ''B.Paste''), (F_Paste, ''F.Paste''),
     (B_SilkS, ''B.SilkS''), (F_SilkS, ''F.SilkS''), (B_Mask, ''B.Mask''), (F_Mask, ''F.Mask''),
     (Dwgs_User, ''Dwgs.User''), (Cmts_User, ''Cmts.User''), (Eco1_User, ''Eco1.User''), (Eco2_User, ''Eco2.User''),
     (Edge_Cuts, ''Edge.Cuts''), (Margin, ''Margin''), (F_CrtYd, ''F.CrtYd''), (B_CrtYd, ''B.CrtYd''),
     (F_Fab, ''F.Fab''), (B_Fab, ''B.Fab''), (User_1, ''User.1''), (User_2, ''User.2''),
     (User_3, ''User.3''), (User_4, ''User.4''), (User_5, ''User.5''), (User_6, ''User.6''),
     (User_7, ''User.7''), (User_8, ''User.8''), (User_9, ''User.9''), (Rescue, ''Rescue'')]"

definition Name :: "pcb_layer_id \<Rightarrow> string" where
  "Name aLayerId =
    (case map_of layer_name_table aLayerId of Some txt \<Rightarrow> txt | None \<Rightarrow> ''BAD INDEX!'')"

subsection \<open>Masks\<close>

definition FrontAssembly :: lset where
  "FrontAssembly = lset_of [F_SilkS, F_Mask, F_Fab, F_CrtYd]"

definition BackAssembly :: lset where
  "BackAssembly = lset_of [B_SilkS, B_Mask, B_Fab, B_CrtYd]"

definition InternalCuMask :: lset where
  "InternalCuMask = lset_of
    [In1_Cu, In2_Cu, In3_Cu, In4_Cu, In5_Cu, In6_Cu, In7_Cu, In8_Cu, In9_Cu, In10_Cu,
     In11_Cu, In12_Cu, In13_Cu, In14_Cu, In15_Cu, In16_Cu, In17_Cu, In18_Cu, In19_Cu, In20_Cu,
     In21_Cu, In22_Cu, In23_Cu, In24_Cu, In25_Cu, In26_Cu, In27_Cu, In28_Cu, In29_Cu, In30_Cu]"

text \<open>\<open>clear_down\<close> is the loop of \<open>AllCuMask\<close>: it clears \<open>clear_count\<close> layers from \<open>elem\<close> down.\<close>

fun clear_down :: "nat \<Rightarrow> int \<Rightarrow> lset \<Rightarrow> lset" where
  "clear_down 0 elem ret = ret"
| "clear_down (Suc clear_count) elem ret =
     clear_down clear_count (elem - 1) (unset_bit (nat elem) ret)"

definition Clamp :: "int \<Rightarrow> int \<Rightarrow> int \<Rightarrow> int" where
  "Clamp lower val upper = (if val < lower then lower else if upper < val then upper else val)"

definition AllCuMask :: "int \<Rightarrow> lset" where
  "AllCuMask aCuLayerCount =
    (let all = set_bit (nat B_Cu) (set_bit (nat F_Cu) InternalCuMask) in
     if aCuLayerCount = MAX_CU_LAYERS then all
     else let clear_count = Clamp 0 (MAX_CU_LAYERS - aCuLayerCount) (MAX_CU_LAYERS - 2)
          in clear_down (nat clear_count) In30_Cu all)"

definition AllLayersMask :: lset where "AllLayersMask = - 1"

definition AllNonCuMask :: lset where
  "AllNonCuMask = and (- 1) (not (AllCuMask MAX_CU_LAYERS))"

definition ExternalCuMask :: lset where "ExternalCuMask = lset_of [F_Cu, B_Cu]"

definition BackTechMask :: lset where
  "BackTechMask = lset_of [B_SilkS, B_Mask, B_Adhes, B_Paste, B_CrtYd, B_Fab]"

definition BackBoardTechMask :: lset where
  "BackBoardTechMask = lset_of [B_SilkS, B_Mask, B_Adhes, B_Paste]"

definition FrontTechMask :: lset where
  "FrontTechMask = lset_of [F_SilkS, F_Mask, F_Adhes, F_Paste, F_CrtYd, F_Fab]"

definition FrontBoardTechMask :: lset where
  "FrontBoardTechMask = lset_of [F_SilkS, F_Mask, F_Adhes, F_Paste]"

definition AllTechMask :: lset where "AllTechMask = or BackTechMask FrontTechMask"

definition AllBoardTechMask :: lset where
  "AllBoardTechMask = or BackBoardTechMask FrontBoardTechMask"

definition UserMask :: lset where
  "UserMask = lset_of [Dwgs_User, Cmts_User, Eco1_User, Eco2_User, Edge_Cuts, Margin]"

definition PhysicalLayersMask :: lset where
  "PhysicalLayersMask = or AllBoardTechMask (AllCuMask MAX_CU_LAYERS)"

definition UserDefinedLayers :: lset where
  "UserDefinedLayers =
    lset_of [User_1, User_2, User_3, User_4, User_5, User_6, User_7, User_8, User_9]"

definition FrontMask :: lset where "FrontMask = set_bit (nat F_Cu) FrontTechMask"

definition BackMask :: lset where "BackMask = set_bit (nat B_Cu) BackTechMask"

definition SideSpecificMask :: lset where
  "SideSpecificMask = or (or BackTechMask FrontTechMask) (AllCuMask MAX_CU_LAYERS)"

definition ForbiddenFootprintLayers :: lset where
  "ForbiddenFootprintLayers = InternalCuMask"

subsection \<open>Flipping a board side\<close>

definition FlipLayer :: "pcb_layer_id \<Rightarrow> int \<Rightarrow> pcb_layer_id" where
  "FlipLayer aLayerId aCopperLayersCount =
    (if aLayerId = B_Cu then F_Cu
     else if aLayerId = F_Cu then B_Cu
     else if aLayerId = B_SilkS then F_SilkS
     else if aLayerId = F_SilkS then B_SilkS
     else if aLayerId = B_Adhes then F_Adhes
     else if aLayerId = F_Adhes then B_Adhes
     else if aLayerId = B_Mask then F_Mask
     else if aLayerId = F_Mask then B_Mask
     else if aLayerId = B_Paste then F_Paste
     else if aLayerId = F_Paste then B_Paste
     else if aLayerId = B_CrtYd then F_CrtYd
     else if aLayerId = F_CrtYd then B_CrtYd
     else if aLayerId = B_Fab then F_Fab
     else if aLayerId = F_Fab then B_Fab
     else if IsCopperLayer aLayerId \<and> aCopperLayersCount \<ge> 4 then
       (let fliplayer = aCopperLayersCount - 2 - (aLayerId - In1_Cu);
            fliplayer = (if fliplayer < F_Cu then F_Cu else fliplayer)
        in if fliplayer > B_Cu then B_Cu else fliplayer)
     else aLayerId)"

text \<open>
  The mask version: \<open>flip_pairs\<close> are the sixteen \<open>if( aMask[from] ) newMask.set( to )\<close> in order
  (the code lists the adhesive pair twice), \<open>flip_inner\<close> the loop over the inner layers. With an
  inner count of 60 or more the loop leaves the bit set (\<open>None\<close>).
\<close>

definition flip_and_mask :: lset where
  "flip_and_mask = lset_of
    [B_Cu, F_Cu, B_SilkS, F_SilkS, B_Adhes, F_Adhes, B_Mask, F_Mask, B_Paste, F_Paste, B_Adhes,
     F_Adhes, B_CrtYd, F_CrtYd, B_Fab, F_Fab]"

definition flip_pairs :: "(pcb_layer_id \<times> pcb_layer_id) list" where
  "flip_pairs =
    [(B_Cu, F_Cu), (F_Cu, B_Cu), (B_SilkS, F_SilkS), (F_SilkS, B_SilkS),
     (B_Adhes, F_Adhes), (F_Adhes, B_Adhes), (B_Mask, F_Mask), (F_Mask, B_Mask),
     (B_Paste, F_Paste), (F_Paste, B_Paste), (B_Adhes, F_Adhes), (F_Adhes, B_Adhes),
     (B_CrtYd, F_CrtYd), (F_CrtYd, B_CrtYd), (B_Fab, F_Fab), (F_Fab, B_Fab)]"

definition flip_inner :: "lset \<Rightarrow> nat \<Rightarrow> lset \<Rightarrow> lset" where
  "flip_inner internalMask innerLayerCnt newMask =
    foldl (\<lambda>m ii. if bit internalMask (innerLayerCnt - ii)
                  then set_bit (ii + nat In1_Cu) m else unset_bit (ii + nat In1_Cu) m)
      newMask [0..<innerLayerCnt]"

definition FlipLayerMask :: "lset \<Rightarrow> int \<Rightarrow> lset option" where
  "FlipLayerMask aMask aCopperLayersCount =
    (let newMask = and aMask (not flip_and_mask);
         newMask = foldl (\<lambda>m (l, l'). if bit aMask (nat l) then set_bit (nat l') m else m)
                     newMask flip_pairs
     in if aCopperLayersCount \<ge> 4 then
          (let internalMask = and aMask InternalCuMask in
           if internalMask \<noteq> InternalCuMask then
             (let innerLayerCnt = aCopperLayersCount - 2 in
              if innerLayerCnt \<ge> int PCB_LAYER_ID_COUNT then None
              else Some (flip_inner internalMask (nat innerLayerCnt) newMask))
           else Some newMask)
        else Some newMask)"

subsection \<open>Text forms\<close>

definition FmtBin :: "lset \<Rightarrow> string" where
  "FmtBin s = rev (concat (map (\<lambda>i.
     (if i \<noteq> 0 then (if i mod 8 = 0 then ''|'' else if i mod 4 = 0 then ''_'' else []) else [])
       @ [if bit s i then CHR ''1'' else CHR ''0'']) [0..<PCB_LAYER_ID_COUNT]))"

definition hex_digits :: string where "hex_digits = ''0123456789abcdef''"

definition nibble_at :: "lset \<Rightarrow> nat \<Rightarrow> nat" where
  "nibble_at s nibble =
    foldl (\<lambda>ndx nibble_bit.
       let nibble_pos = nibble_bit + nibble * 4 in
       if nibble_pos < PCB_LAYER_ID_COUNT \<and> bit s nibble_pos
       then or ndx (push_bit nibble_bit 1) else ndx) 0 [0..<4]"

definition FmtHex_rev :: "lset \<Rightarrow> nat \<Rightarrow> string" where
  "FmtHex_rev s nibble =
    (if nibble \<noteq> 0 \<and> nibble mod 8 = 0 then ''_'' else []) @ [hex_digits ! nibble_at s nibble]"

definition FmtHex :: "lset \<Rightarrow> string" where
  "FmtHex s = rev (concat (map (FmtHex_rev s) [0..<(PCB_LAYER_ID_COUNT + 3) div 4]))"

definition hex_nibble :: "char \<Rightarrow> nat option" where
  "hex_nibble cc =
    (let c = (of_char cc :: nat) in
     if 48 \<le> c \<and> c \<le> 57 then Some (c - 48)
     else if 97 \<le> c \<and> c \<le> 102 then Some (c - 97 + 10)
     else if 65 \<le> c \<and> c \<le> 70 then Some (c - 65 + 10)
     else None)"

definition set_nibble :: "lset \<Rightarrow> nat \<Rightarrow> nat \<Rightarrow> lset" where
  "set_nibble tmp nibble_ndx nibble =
    foldl (\<lambda>t ndx. if nibble_ndx * 4 + ndx < PCB_LAYER_ID_COUNT \<and> bit nibble ndx
                   then set_bit (nibble_ndx * 4 + ndx) t else t) tmp [0..<4]"

text \<open>
  \<open>ParseHex\<close> reads backwards: the second argument of the loop is the rest of the text, reversed;
  the last is the number of characters already taken from it. A character that stops the loop
  has been taken (\<open>*rstart--\<close>) before it is looked at.
\<close>

fun ParseHex_loop :: "nat \<Rightarrow> string \<Rightarrow> lset \<Rightarrow> nat \<Rightarrow> lset \<times> nat" where
  "ParseHex_loop nibble_ndx [] tmp taken = (tmp, taken)"
| "ParseHex_loop nibble_ndx (cc # rest) tmp taken =
    (if cc = CHR ''_'' then ParseHex_loop nibble_ndx rest tmp (taken + 1)
     else case hex_nibble cc of
       None \<Rightarrow> (tmp, taken + 1)
     | Some nibble \<Rightarrow>
        (let tmp = set_nibble tmp nibble_ndx nibble;
             endbit = min (nibble_ndx * 4 + 4) PCB_LAYER_ID_COUNT
         in if endbit \<ge> PCB_LAYER_ID_COUNT then (tmp, taken + 1)
            else ParseHex_loop (nibble_ndx + 1) rest tmp (taken + 1)))"

definition ParseHex :: "lset \<Rightarrow> string \<Rightarrow> lset \<times> nat" where
  "ParseHex self text =
    (let (tmp, byte_count) = ParseHex_loop 0 (rev text) 0 0
     in (if byte_count > 0 then tmp else self, byte_count))"

subsection \<open>Membership\<close>

lemma bit_foldl_set_bit:
  "bit (foldl (\<lambda>s l. set_bit (nat l) s) s0 ls) n \<longleftrightarrow> bit s0 n \<or> n < 60 \<and> n \<in> nat ` set ls"
  for s0 :: lset
  by (induction ls arbitrary: s0) (auto simp: bit_set_bit_iff)

lemma bit_lset_of [simp]: "bit (lset_of ls) n \<longleftrightarrow> n < 60 \<and> n \<in> nat ` set ls"
  by (simp add: lset_of_def bit_foldl_set_bit)

lemma Contains_iff: "Contains s l \<longleftrightarrow> 0 \<le> l \<and> bit s (nat l)"
  by (auto simp: Contains_def test_def IsValidLayer_def PCB_LAYER_ID_COUNT_def
      dest: bit_imp_le_length)

lemma Seq_wish_eq:
  "list_all IsValidLayer ls \<Longrightarrow> Seq_wish s ls = Some (filter (\<lambda>l. bit s (nat l)) ls)"
  by (induction ls) (auto simp: test_def)

lemma layer_enum_eq: "layer_enum = map int [0..<60]"
  by (simp add: layer_enum_def upt_conv_Cons)

lemma bit_InternalCuMask [simp]: "bit InternalCuMask l \<longleftrightarrow> 1 \<le> l \<and> l \<le> 30"
proof -
  have eq: "InternalCuMask = lset_of (map int [1..<31])"
    by (simp add: InternalCuMask_def upt_conv_Cons)
  show ?thesis unfolding eq by (auto simp: image_image)
qed

lemma bit_clear_down:
  "int k \<le> e \<Longrightarrow>
   bit (clear_down k e ret) l \<longleftrightarrow> bit ret l \<and> \<not> (e - int k < int l \<and> int l \<le> e)"
proof (induction k arbitrary: e ret)
  case (Suc k)
  from Suc.prems have "nat e = l \<longleftrightarrow> int l = e" by auto
  with Suc.IH [of "e - 1"] Suc.prems show ?case
    by (auto simp: bit_unset_bit_iff)
qed simp

lemma bit_AllCuMask [simp]:
  "bit (AllCuMask n) l \<longleftrightarrow> l = 0 \<or> l = 31 \<or> 1 \<le> l \<and> l \<le> 30 \<and> int l \<le> n - 2"
proof (cases "n = MAX_CU_LAYERS")
  case True
  then show ?thesis
    by (auto simp: AllCuMask_def MAX_CU_LAYERS_def bit_set_bit_iff)
next
  case False
  then show ?thesis
    by (auto simp: AllCuMask_def MAX_CU_LAYERS_def Clamp_def bit_clear_down bit_set_bit_iff Let_def)
qed

subsection \<open>Ordering\<close>

lemma all_valid_sequences:
  "list_all IsValidLayer CuStack_sequence"
  "list_all IsValidLayer TechAndUserUIOrder_sequence"
  "list_all IsValidLayer SeqStackupBottom2Top_sequence"
  by (simp_all add: CuStack_sequence_def TechAndUserUIOrder_sequence_def
      SeqStackupBottom2Top_sequence_def IsValidLayer_def PCB_LAYER_ID_COUNT_def)

lemma UIOrder_eq:
  "UIOrder s = Some (filter (\<lambda>l. bit s (nat l)) (CuStack_sequence @ TechAndUserUIOrder_sequence))"
  by (simp add: UIOrder_def CuStack_def TechAndUserUIOrder_def Seq_wish_eq all_valid_sequences)

lemma UI_sequence_distinct: "distinct (CuStack_sequence @ TechAndUserUIOrder_sequence)"
  by (simp add: CuStack_sequence_def TechAndUserUIOrder_sequence_def)

lemma UI_sequence_set: "set (CuStack_sequence @ TechAndUserUIOrder_sequence) = {0..<59}"
proof -
  have "sort (CuStack_sequence @ TechAndUserUIOrder_sequence) = map int [0..<59]"
    by (simp add: CuStack_sequence_def TechAndUserUIOrder_sequence_def upt_conv_Cons)
  then have "set (CuStack_sequence @ TechAndUserUIOrder_sequence) = set (map int [0..<59])"
    by (metis set_sort)
  then show ?thesis by (simp add: image_int_atLeastLessThan)
qed

lemma Stackup_sequence_mset:
  "sort SeqStackupBottom2Top_sequence = sort (CuStack_sequence @ TechAndUserUIOrder_sequence)"
  by (simp add: CuStack_sequence_def TechAndUserUIOrder_sequence_def SeqStackupBottom2Top_sequence_def)

subsection \<open>Flipping\<close>

lemma bit_fold_pairs:
  "bit (foldl (\<lambda>m (l, l'). if bit s (nat l) then set_bit (nat l') m else m) m0 ps) n \<longleftrightarrow>
     bit m0 n \<or> n < 60 \<and> (\<exists>(l, l') \<in> set ps. bit s (nat l) \<and> nat l' = n)"
  for m0 :: lset
proof (induction ps arbitrary: m0)
  case (Cons p ps)
  obtain a b where p: "p = (a, b)" by (cases p)
  show ?case
    by (cases "bit s (nat a)") (simp_all add: Cons.IH p bit_set_bit_iff, metis)
qed simp

definition flip_outer :: "lset \<Rightarrow> lset" where
  "flip_outer aMask =
     foldl (\<lambda>m (l, l'). if bit aMask (nat l) then set_bit (nat l') m else m)
       (and aMask (not flip_and_mask)) flip_pairs"

definition outer_layers :: "nat set" where
  "outer_layers = {0, 31, 32, 33, 34, 35, 36, 37, 38, 39, 46, 47, 48, 49}"

lemma outer_layers_eq: "fst ` set flip_pairs = int ` outer_layers" "snd ` set flip_pairs = int ` outer_layers"
    "bit flip_and_mask l \<longleftrightarrow> l \<in> outer_layers"
  by (auto simp: flip_pairs_def outer_layers_def flip_and_mask_def)

lemma flip_pairs_FlipLayer: "(a, b) \<in> set flip_pairs \<longleftrightarrow> b \<in> int ` outer_layers \<and> a = FlipLayer b 0"
proof
  assume "(a, b) \<in> set flip_pairs"
  then show "b \<in> int ` outer_layers \<and> a = FlipLayer b 0"
    by (simp add: flip_pairs_def) (elim disjE conjE; simp add: outer_layers_def FlipLayer_def)
next
  assume r: "b \<in> int ` outer_layers \<and> a = FlipLayer b 0"
  then have "b \<in> {0, 31, 32, 33, 34, 35, 36, 37, 38, 39, 46, 47, 48, 49}"
    by (auto simp: outer_layers_def)
  with r show "(a, b) \<in> set flip_pairs"
    by (elim insertE emptyE conjE) (simp_all add: flip_pairs_def FlipLayer_def)
qed

lemma FlipLayer_other: "l \<notin> int ` outer_layers \<Longrightarrow> FlipLayer l n = (if IsCopperLayer l \<and> n \<ge> 4 then Clamp 0 (n - 1 - l) 31 else l)"
  by (simp add: FlipLayer_def outer_layers_def Clamp_def)
lemma FlipLayer_outer: "l \<in> int ` outer_layers \<Longrightarrow> FlipLayer l n = FlipLayer l 0"
  by (auto simp: outer_layers_def FlipLayer_def)

lemma bit_flip_outer:
  assumes "l < 60"
  shows "bit (flip_outer m) l \<longleftrightarrow> bit m (nat (FlipLayer (int l) 0))"
proof -
  have *: "bit (flip_outer m) l \<longleftrightarrow>
      bit m l \<and> l \<notin> outer_layers \<or> (\<exists>(a, b) \<in> set flip_pairs. bit m (nat a) \<and> nat b = l)"
    using assms
    by (simp only: flip_outer_def bit_fold_pairs bit_and_iff bit_not_iff outer_layers_eq) simp
  show ?thesis
  proof (cases "l \<in> outer_layers")
    case True
    then show ?thesis unfolding * by (force simp: flip_pairs_FlipLayer)
  next
    case False
    then have "FlipLayer (int l) 0 = int l" by (subst FlipLayer_other) auto
    with False show ?thesis unfolding * by (auto simp: flip_pairs_FlipLayer)
  qed
qed

lemma bit_flip_inner_prefix:
  "j \<le> k \<Longrightarrow> k < 60 \<Longrightarrow>
   bit (foldl (\<lambda>m ii. if bit im (k - ii) then set_bit (ii + nat In1_Cu) m
                      else unset_bit (ii + nat In1_Cu) m) m0 [0..<j]) l \<longleftrightarrow>
   (if 1 \<le> l \<and> l \<le> j then bit im (k + 1 - l) else bit m0 l)"
  for m0 :: lset
  by (induction j) (auto simp: bit_set_bit_iff bit_unset_bit_iff le_Suc_eq)

lemma bit_flip_inner:
  "k < 60 \<Longrightarrow> bit (flip_inner im k m0) l \<longleftrightarrow> (if 1 \<le> l \<and> l \<le> k then bit im (k + 1 - l) else bit m0 l)"
  unfolding flip_inner_def by (rule bit_flip_inner_prefix) simp_all

lemma FlipLayerMask_eq:
  "n \<le> 32 \<Longrightarrow> FlipLayerMask m n =
    Some (if n \<ge> 4 \<and> and m InternalCuMask \<noteq> InternalCuMask
          then flip_inner (and m InternalCuMask) (nat (n - 2)) (flip_outer m) else flip_outer m)"
  by (simp add: FlipLayerMask_def flip_outer_def Let_def PCB_LAYER_ID_COUNT_def)


text \<open>
  The layers a board with \<open>n\<close> copper layers has: every layer, except the inner copper layers
  beyond its stack. On them \<open>FlipLayer\<close> is an involution.
\<close>

definition in_stack :: "int \<Rightarrow> pcb_layer_id \<Rightarrow> bool" where
  "in_stack n l \<longleftrightarrow> IsValidLayer l \<and> (n \<ge> 4 \<and> In1_Cu \<le> l \<and> l \<le> In30_Cu \<longrightarrow> l \<le> n - 2)"

lemma FlipLayer_inner:
  "In1_Cu \<le> l \<Longrightarrow> l \<le> In30_Cu \<Longrightarrow>
   FlipLayer l n = (if n < 4 then l else Clamp 0 (n - 1 - l) 31)"
  by (subst FlipLayer_other) (auto simp: outer_layers_def IsCopperLayer_def)

lemma IsCopperLayer_outer:
  assumes "l \<notin> int ` outer_layers" "\<not> (1 \<le> l \<and> l \<le> 30)"
  shows "\<not> IsCopperLayer l"
proof -
  have "0 \<in> int ` outer_layers" "31 \<in> int ` outer_layers" by (auto simp: outer_layers_def)
  with assms have "l \<noteq> 0" "l \<noteq> 31" by metis+
  with assms(2) show ?thesis by (auto simp: IsCopperLayer_def)
qed

lemma FlipLayer_not_inner:
  "\<not> (In1_Cu \<le> l \<and> l \<le> In30_Cu) \<Longrightarrow> FlipLayer l n = FlipLayer l 0"
  by (cases "l \<in> int ` outer_layers")
     (simp_all add: FlipLayer_outer [of l n] FlipLayer_other IsCopperLayer_outer)

lemma FlipLayer_outer_image: "l \<in> int ` outer_layers \<Longrightarrow> FlipLayer l n \<in> int ` outer_layers"
  using flip_pairs_FlipLayer [of "FlipLayer l 0" l] outer_layers_eq(1)
  by (metis FlipLayer_outer fst_conv image_eqI)

lemma outer_layers_bound: "l \<in> int ` outer_layers \<Longrightarrow> 0 \<le> l \<and> l < 60 \<and> \<not> (1 \<le> l \<and> l \<le> 30)"
  by (auto simp: outer_layers_def)

lemma FlipLayer_outer_twice:
  assumes "l \<in> int ` outer_layers"
  shows "FlipLayer (FlipLayer l n) n = l"
proof -
  from assms have "l \<in> {0, 31, 32, 33, 34, 35, 36, 37, 38, 39, 46, 47, 48, 49}"
    by (auto simp: outer_layers_def)
  then show ?thesis by (elim insertE emptyE) (simp_all add: FlipLayer_def)
qed

lemma in_stack_FlipLayer:
  assumes "in_stack n l" "n \<le> 32"
  shows "in_stack n (FlipLayer l n)" "FlipLayer (FlipLayer l n) n = l"
proof -
  consider (outer) "l \<in> int ` outer_layers" | (inner) "1 \<le> l" "l \<le> 30" "l \<notin> int ` outer_layers"
    | (other) "\<not> (1 \<le> l \<and> l \<le> 30)" "l \<notin> int ` outer_layers" by blast
  then have "in_stack n (FlipLayer l n) \<and> FlipLayer (FlipLayer l n) n = l"
  proof cases
    case outer
    then show ?thesis
      using FlipLayer_outer_image [OF outer, of n] FlipLayer_outer_twice [OF outer, of n]
        outer_layers_bound [of "FlipLayer l n"]
      by (auto simp: in_stack_def IsValidLayer_def PCB_LAYER_ID_COUNT_def)
  next
    case inner
    with assms have "FlipLayer l n = (if n < 4 then l else n - 1 - l)"
      by (auto simp: FlipLayer_inner Clamp_def in_stack_def)
    with inner assms show ?thesis
      by (auto simp: in_stack_def FlipLayer_inner Clamp_def IsValidLayer_def PCB_LAYER_ID_COUNT_def)
  next
    case other
    then have "FlipLayer l n = l"
      by (simp add: FlipLayer_other IsCopperLayer_outer)
    with assms show ?thesis by simp
  qed
  then show "in_stack n (FlipLayer l n)" "FlipLayer (FlipLayer l n) n = l" by simp_all
qed

lemma bit_FlipLayerMask:
  assumes "k < 60" "n \<le> 32" "FlipLayerMask m n = Some m'"
  shows "bit m' k \<longleftrightarrow>
      (if n \<ge> 4 \<and> and m InternalCuMask \<noteq> InternalCuMask \<and> 1 \<le> k \<and> int k \<le> n - 2
       then bit m (nat (n - 1 - int k)) else bit m (nat (FlipLayer (int k) 0)))"
proof (cases "n \<ge> 4 \<and> and m InternalCuMask \<noteq> InternalCuMask")
  case True
  let ?im = "and m InternalCuMask"
  from True assms have "m' = flip_inner ?im (nat (n - 2)) (flip_outer m)"
    by (simp add: FlipLayerMask_eq)
  moreover have "1 \<le> k \<and> k \<le> nat (n - 2) \<longleftrightarrow> 1 \<le> k \<and> int k \<le> n - 2"
    using True by auto
  ultimately have *: "bit m' k \<longleftrightarrow>
      (if 1 \<le> k \<and> int k \<le> n - 2 then bit ?im (nat (n - 2) + 1 - k) else bit (flip_outer m) k)"
    using assms bit_flip_inner [of "nat (n - 2)" ?im "flip_outer m" k] by simp
  have "bit ?im (nat (n - 2) + 1 - k) = bit m (nat (n - 1 - int k))"
    if "1 \<le> k \<and> int k \<le> n - 2"
  proof -
    have "nat (n - 2) + 1 - k = nat (n - 1 - int k)" "1 \<le> nat (n - 1 - int k)"
        "nat (n - 1 - int k) \<le> 30"
      using that True \<open>n \<le> 32\<close> by linarith+
    then show ?thesis by (simp add: bit_and_iff)
  qed
  with * True bit_flip_outer [OF assms(1), of m] show ?thesis by simp
next
  case False
  with assms have "m' = flip_outer m" by (auto simp: FlipLayerMask_eq)
  with False bit_flip_outer [OF assms(1), of m] show ?thesis by auto
qed

lemma FlipLayer_nonneg: "0 \<le> l \<Longrightarrow> 0 \<le> FlipLayer l n"
  using outer_layers_bound [OF FlipLayer_outer_image, of l n]
  by (cases "l \<in> int ` outer_layers") (auto simp: FlipLayer_other Clamp_def)

lemma Contains_FlipLayerMask:
  assumes n: "n \<le> 32" and m: "\<And>l. Contains m l \<Longrightarrow> in_stack n l"
    and m': "FlipLayerMask m n = Some m'"
  shows "Contains m' l \<longleftrightarrow> in_stack n l \<and> Contains m (FlipLayer l n)"
proof (cases "IsValidLayer l")
  case True
  define k where "k = nat l"
  have l: "l = int k" "k < 60"
    using True unfolding k_def IsValidLayer_def PCB_LAYER_ID_COUNT_def by linarith+
  have full: "and m InternalCuMask = InternalCuMask \<Longrightarrow> 1 \<le> k \<Longrightarrow> k \<le> 30 \<Longrightarrow> bit m k" for k
    by (metis bit_InternalCuMask bit_and_iff)
  note eq = bit_FlipLayerMask [OF l(2) n m']
  show ?thesis
  proof (cases "1 \<le> l \<and> l \<le> 30 \<and> n \<ge> 4")
    case True
    then have F0: "FlipLayer l 0 = l" by (simp add: FlipLayer_inner)
    show ?thesis
    proof (cases "l \<le> n - 2")
      case le: True
      then have Fn: "FlipLayer l n = n - 1 - l"
        using True n by (auto simp: FlipLayer_inner Clamp_def)
      have st: "in_stack n l" using le \<open>IsValidLayer l\<close> by (simp add: in_stack_def)
      show ?thesis
      proof (cases "and m InternalCuMask = InternalCuMask")
        case all: True
        then have "bit m k" "bit m (nat (n - 1 - l))" using full True le n l by auto
        then show ?thesis using st Fn F0 all l eq le by (simp add: Contains_iff)
      next
        case False
        then show ?thesis using st Fn F0 l eq le True by (simp add: Contains_iff)
      qed
    next
      case False
      then have "\<not> in_stack n l" using True by (simp add: in_stack_def)
      moreover from this m have "\<not> bit m k" using l by (auto simp: Contains_iff)
      ultimately show ?thesis using eq F0 False l by (simp add: Contains_iff)
    qed
  next
    case False
    then have Fn: "FlipLayer l n = FlipLayer l 0"
      using FlipLayer_not_inner [of l n] FlipLayer_inner [of l n] FlipLayer_inner [of l 0]
      by (cases "1 \<le> l \<and> l \<le> 30") simp_all
    have "\<not> (n \<ge> 4 \<and> 1 \<le> k \<and> int k \<le> n - 2)"
      using False l(1) n by auto
    then have "\<not> (n \<ge> 4 \<and> and m InternalCuMask \<noteq> InternalCuMask \<and> 1 \<le> k \<and> int k \<le> n - 2)"
      by blast
    then have "bit m' k \<longleftrightarrow> bit m (nat (FlipLayer l 0))"
      using eq l(1) by (simp only: if_False)
    moreover have "in_stack n l" using False \<open>IsValidLayer l\<close> by (auto simp: in_stack_def)
    ultimately show ?thesis using l FlipLayer_nonneg [of l 0] Fn by (simp add: Contains_iff)
  qed
next
  case False
  then show ?thesis
    by (auto simp: in_stack_def Contains_def test_def)
qed

lemma FlipLayerMask_total: "n \<le> 32 \<Longrightarrow> \<exists>m'. FlipLayerMask m n = Some m'"
  by (simp add: FlipLayerMask_eq)


subsection \<open>Hexadecimal text\<close>

lemma bit_nibble_prefix:
  "bit (foldl (\<lambda>ndx nibble_bit.
       let nibble_pos = nibble_bit + nibble * 4 in
       if nibble_pos < PCB_LAYER_ID_COUNT \<and> bit s nibble_pos
       then or ndx (push_bit nibble_bit 1) else ndx) (0 :: nat) [0..<j]) b \<longleftrightarrow>
   b < j \<and> b + nibble * 4 < 60 \<and> bit s (b + nibble * 4)"
  by (induction j) (auto simp: Let_def PCB_LAYER_ID_COUNT_def bit_or_iff bit_exp_iff less_Suc_eq)

lemma bit_nibble_at:
  "bit (nibble_at s nibble) b \<longleftrightarrow> b < 4 \<and> b + nibble * 4 < 60 \<and> bit s (b + nibble * 4)"
  unfolding nibble_at_def by (rule bit_nibble_prefix)

lemma nibble_at_less: "nibble_at s n < 16"
proof -
  have "take_bit 4 (nibble_at s n) = nibble_at s n"
    by (rule bit_eqI) (auto simp: bit_take_bit_iff bit_nibble_at)
  moreover have "take_bit 4 (nibble_at s n) < 2 ^ 4" by (rule take_bit_nat_less_exp)
  ultimately show ?thesis by simp
qed

lemma hex_nibble_digit:
  assumes "v < 16"
  shows "hex_nibble (hex_digits ! v) = Some v" "hex_digits ! v \<noteq> CHR ''_''"
proof -
  have "\<forall>v \<in> set [0..<16]. hex_nibble (hex_digits ! v) = Some v \<and> hex_digits ! v \<noteq> CHR ''_''"
    by (simp add: upt_conv_Cons hex_digits_def hex_nibble_def)
  with assms show "hex_nibble (hex_digits ! v) = Some v" "hex_digits ! v \<noteq> CHR ''_''"
    by simp_all
qed

lemma bit_set_nibble_prefix:
  "bit (foldl (\<lambda>t ndx. if k * 4 + ndx < PCB_LAYER_ID_COUNT \<and> bit v ndx
                       then set_bit (k * 4 + ndx) t else t) t [0..<j]) i \<longleftrightarrow>
   bit t i \<or> i < 60 \<and> k * 4 \<le> i \<and> i < k * 4 + j \<and> bit v (i - k * 4)"
  for t :: lset
  by (induction j) (auto simp: PCB_LAYER_ID_COUNT_def bit_set_bit_iff less_Suc_eq)

lemma bit_set_nibble:
  "bit (set_nibble t k v) i \<longleftrightarrow>
   bit t i \<or> i < 60 \<and> k * 4 \<le> i \<and> i < k * 4 + 4 \<and> bit v (i - k * 4)"
  unfolding set_nibble_def by (rule bit_set_nibble_prefix)

text \<open>One step of the parser over what the formatter wrote for one nibble.\<close>

lemma ParseHex_loop_nibble:
  assumes "k < 14"
  shows "ParseHex_loop k (FmtHex_rev s k @ rest) t taken =
    ParseHex_loop (k + 1) rest (set_nibble t k (nibble_at s k)) (taken + length (FmtHex_rev s k))"
  using assms hex_nibble_digit [OF nibble_at_less, of s k]
  by (simp add: FmtHex_rev_def PCB_LAYER_ID_COUNT_def Let_def)

lemma ParseHex_loop_last:
  "ParseHex_loop 14 (FmtHex_rev s 14 @ rest) t taken = (set_nibble t 14 (nibble_at s 14), taken + 1)"
  using hex_nibble_digit [OF nibble_at_less, of s 14]
  by (simp add: FmtHex_rev_def PCB_LAYER_ID_COUNT_def Let_def)

lemma ParseHex_loop_FmtHex:
  "k \<le> 14 \<Longrightarrow>
   \<exists>t'. ParseHex_loop k (concat (map (FmtHex_rev s) [k..<15])) t taken =
          (t', taken + length (concat (map (FmtHex_rev s) [k..<15])))
        \<and> (\<forall>i. bit t' i \<longleftrightarrow> bit t i \<or> k * 4 \<le> i \<and> bit s i)"
proof (induction "14 - k" arbitrary: k t taken)
  case 0
  then have k: "k = 14" by simp
  have b: "bit s i \<Longrightarrow> i < 60" for i using bit_imp_le_length [of s i] by simp
  have "bit (set_nibble t 14 (nibble_at s 14)) i \<longleftrightarrow> bit t i \<or> k * 4 \<le> i \<and> bit s i" for i
    using b [of i] by (auto simp: k bit_set_nibble bit_nibble_at)
  then show ?case
    using ParseHex_loop_last [of s "[]" t taken]
    by (intro exI [of _ "set_nibble t 14 (nibble_at s 14)"])
       (simp add: k upt_conv_Cons del: ParseHex_loop.simps, simp add: FmtHex_rev_def)
next
  case (Suc d)
  then have k: "k < 14" "d = 14 - (k + 1)" "k + 1 \<le> 14" by simp_all
  let ?t = "set_nibble t k (nibble_at s k)" and ?u = "taken + length (FmtHex_rev s k)"
  from Suc.hyps(1) [OF k(2,3), of ?t ?u] obtain t' where
    t': "ParseHex_loop (k + 1) (concat (map (FmtHex_rev s) [k + 1..<15])) ?t ?u =
          (t', ?u + length (concat (map (FmtHex_rev s) [k + 1..<15])))"
    and bits: "\<forall>i. bit t' i \<longleftrightarrow> bit ?t i \<or> (k + 1) * 4 \<le> i \<and> bit s i" by blast
  have upt: "[k..<15] = k # [k + 1..<15]" using k upt_conv_Cons [of k 15] by simp
  have b: "bit s i \<Longrightarrow> i < 60" for i using bit_imp_le_length [of s i] by simp
  have "bit t' i \<longleftrightarrow> bit t i \<or> k * 4 \<le> i \<and> bit s i" for i
  proof -
    have "bit ?t i \<longleftrightarrow> bit t i \<or> k * 4 \<le> i \<and> i < k * 4 + 4 \<and> bit s i"
      using b [of i] by (auto simp: bit_set_nibble bit_nibble_at)
    then show ?thesis using bits [rule_format, of i] by auto
  qed
  with t' ParseHex_loop_nibble [OF k(1)] show ?case
    by (intro exI [of _ t']) (simp add: upt add.assoc)
qed

subsection \<open>The interfaces the layer sets provide\<close>

interpretation flip_layer: involution_on "\<lambda>l. FlipLayer l n" "\<lambda>l. in_stack n l \<and> n \<le> 32" for n
  by unfold_locales (auto simp: in_stack_FlipLayer)

lemma ParseHex_FmtHex_lemma: "ParseHex self (FmtHex s) = (s, length (FmtHex s))"
proof -
  have "concat (map (FmtHex_rev s) [0..<15]) \<noteq> []" by (simp add: upt_conv_Cons FmtHex_rev_def)
  moreover obtain t' where
    "ParseHex_loop 0 (concat (map (FmtHex_rev s) [0..<15])) 0 0 =
      (t', length (concat (map (FmtHex_rev s) [0..<15])))" and "\<forall>i. bit t' i = bit s i"
    using ParseHex_loop_FmtHex [of 0 s 0 0] by auto
  moreover from this(2) have "t' = s" by (simp add: bit_eq_iff)
  ultimately show ?thesis
    by (auto simp: ParseHex_def FmtHex_def PCB_LAYER_ID_COUNT_def simp del: length_concat)
qed

interpretation layer_hex: text_codec FmtHex "\<lambda>t. fst (ParseHex self t)" "\<lambda>s. s" "\<lambda>_. True" for self
  by unfold_locales (simp_all add: ParseHex_FmtHex_lemma)

lemma LSET_of_Seq: "LSET_of_LSEQ (Seq s) = Some s"
proof -
  have b: "bit s i \<Longrightarrow> i < 60" for i using bit_imp_le_length [of s i] by simp
  have "list_all IsValidLayer (Seq s)"
    by (auto simp: Seq_def list_all_iff IsValidLayer_def PCB_LAYER_ID_COUNT_def)
  moreover have "lset_of (Seq s) = s"
    by (rule bit_eqI) (auto simp: Seq_def PCB_LAYER_ID_COUNT_def image_image dest: b)
  ultimately show ?thesis by (simp add: LSET_of_LSEQ_def)
qed

lemma Contains_bound: "Contains s l \<Longrightarrow> 0 \<le> l \<and> l < 60"
  by (auto simp: Contains_def test_def IsValidLayer_def PCB_LAYER_ID_COUNT_def split: if_splits)

lemma set_filter_Contains:
  "set ls = {0..<59} \<Longrightarrow> set (filter (\<lambda>l. bit s (nat l)) ls) = {l. Contains s l \<and> l \<noteq> Rescue}"
  using Contains_bound [of s] by (fastforce simp: Contains_iff)

subsection \<open>Properties\<close>

text \<open>
  C2: Flipping a layer mask is flipping each of its layers: on a board of at most 32 copper layers,
  if the mask holds no inner copper layer beyond the stack, \<open>FlipLayerMask\<close> succeeds and the
  layers of its result are exactly the \<open>FlipLayer\<close> images of the layers of the mask.
\<close>

theorem FlipLayerMask_image:
  assumes "n \<le> 32" and "\<And>l. Contains m l \<Longrightarrow> in_stack n l"
  shows "\<exists>m'. FlipLayerMask m n = Some m' \<and>
    {l. Contains m' l} = (\<lambda>l. FlipLayer l n) ` {l. Contains m l}"
proof -
  obtain m' where m': "FlipLayerMask m n = Some m'"
    using FlipLayerMask_total [OF assms(1)] by blast
  have "Contains m' l \<longleftrightarrow> l \<in> (\<lambda>l. FlipLayer l n) ` {l. Contains m l}" for l
    using Contains_FlipLayerMask [OF assms m'] flip_layer.mem_image [of "{l. Contains m l}" n l]
      assms in_stack_FlipLayer(1) [of n _] by auto
  with m' show ?thesis by auto
qed

theorem FlipLayerMask_image_witness:
  "\<exists>m'. FlipLayerMask (lset_of [F_Cu, In1_Cu, F_SilkS, Edge_Cuts]) 4 = Some m' \<and>
    {l. Contains m' l} =
      (\<lambda>l. FlipLayer l 4) ` {l. Contains (lset_of [F_Cu, In1_Cu, F_SilkS, Edge_Cuts]) l}"
  by (rule FlipLayerMask_image) (auto simp: Contains_iff in_stack_def IsValidLayer_def PCB_LAYER_ID_COUNT_def)

text \<open>
  C22: A layer set survives its text form: parsing the hexadecimal text of a set gives the set back,
  whatever the set parsed into held before, and reports every character as consumed.
\<close>

theorem ParseHex_FmtHex: "ParseHex self (FmtHex s) = (s, length (FmtHex s))"
  by (rule ParseHex_FmtHex_lemma)

text \<open>
  The layer widget order and the plot order of a set are both complete and free of duplicates:
  each lists exactly the layers of the set other than Rescue, once each, so one is a permutation
  of the other.
\<close>

theorem UIOrder_complete:
  "\<exists>ui st. UIOrder s = Some ui \<and> SeqStackupBottom2Top s = Some st \<and>
     distinct ui \<and> distinct st \<and>
     set ui = {l. Contains s l \<and> l \<noteq> Rescue} \<and> set st = set ui"
proof -
  let ?ui = "CuStack_sequence @ TechAndUserUIOrder_sequence"
  have st: "set SeqStackupBottom2Top_sequence = set ?ui"
    using Stackup_sequence_mset set_sort by metis
  have "length SeqStackupBottom2Top_sequence = length ?ui"
    using Stackup_sequence_mset length_sort by metis
  then have d: "distinct SeqStackupBottom2Top_sequence"
    using st UI_sequence_distinct by (metis card_distinct distinct_card)
  show ?thesis
    using UIOrder_eq [of s] UI_sequence_distinct d st UI_sequence_set
      set_filter_Contains [OF UI_sequence_set, of s]
      set_filter_Contains [OF trans [OF st UI_sequence_set], of s]
    by (auto simp: SeqStackupBottom2Top_def Seq_wish_eq all_valid_sequences)
qed

text \<open>
  The copper mask of a board holds both outer layers and the first \<open>n - 2\<close> inner ones, and so
  exactly \<open>n\<close> layers for every legal copper count; counts below two and above 32 are clamped.
\<close>

theorem AllCuMask_layers:
  "{l. Contains (AllCuMask n) l} = {F_Cu, B_Cu} \<union> {In1_Cu .. min In30_Cu (n - 2)} \<and>
   card {l. Contains (AllCuMask n) l} = nat (Clamp 2 n 32)"
proof -
  have eq: "{l. Contains (AllCuMask n) l} = {F_Cu, B_Cu} \<union> {In1_Cu .. min In30_Cu (n - 2)}"
    by (auto simp: Contains_iff)
  have "card ({F_Cu, B_Cu} \<union> {In1_Cu .. min In30_Cu (n - 2)}) =
      card {F_Cu, B_Cu} + card {In1_Cu .. min In30_Cu (n - 2)}"
    by (rule card_Un_disjoint) auto
  with eq show ?thesis by (auto simp: Clamp_def)
qed

text \<open>
  Enumerating a set and building a set from the sequence are inverse; the enumeration is
  ascending, and \<open>ExtractLayer\<close> is its only element, or the code for none or for several.
\<close>

theorem Seq_LSET:
  "LSET_of_LSEQ (Seq s) = Some s \<and> sorted_wrt (<) (Seq s) \<and>
   ExtractLayer s = (case Seq s of [] \<Rightarrow> UNSELECTED_LAYER | [l] \<Rightarrow> l | _ \<Rightarrow> UNDEFINED_LAYER)"
proof -
  have "sorted_wrt (<) (filter (bit s) [0..<PCB_LAYER_ID_COUNT])"
    by (rule sorted_wrt_filter) simp
  then have "sorted_wrt (<) (Seq s)" by (simp add: Seq_def sorted_wrt_map)
  moreover have "ExtractLayer s =
      (case Seq s of [] \<Rightarrow> UNSELECTED_LAYER | [l] \<Rightarrow> l | _ \<Rightarrow> UNDEFINED_LAYER)"
    by (auto simp: Seq_def ExtractLayer_def Let_def split: list.splits)
  ultimately show ?thesis using LSET_of_Seq [of s] by blast
qed

text \<open>The board-file tokens of the layers are pairwise distinct, and none is the error token.\<close>

theorem Name_distinct:
  "distinct (map Name layer_enum) \<and> ''BAD INDEX!'' \<notin> set (map Name layer_enum)"
  by code_simp

text \<open>
  A character that is no hex digit is counted as consumed, and since the count is then positive
  the set is overwritten by what was read so far: by the empty set, if it is the last character.
\<close>

lemma ParseHex_junk:
  assumes "hex_nibble c = None" "c \<noteq> CHR ''_''"
  shows "ParseHex self (t @ [c]) = (0, 1)"
  using assms by (simp add: ParseHex_def)

text \<open>
  Outside the stack the two flips disagree: \<open>FlipLayer\<close> sends In5.Cu of a four-layer board to
  F.Cu, \<open>FlipLayerMask\<close> leaves it where it is.
\<close>

lemma FlipLayer_outside_stack:
  "FlipLayer In5_Cu 4 = F_Cu"
  "FlipLayerMask (lset_of [In5_Cu]) 4 = Some m' \<Longrightarrow> Contains m' In5_Cu"
proof -
  show "FlipLayer In5_Cu 4 = F_Cu" by (simp add: FlipLayer_def IsCopperLayer_def)
  assume m': "FlipLayerMask (lset_of [In5_Cu]) 4 = Some m'"
  have "bit m' 5 \<longleftrightarrow> bit (lset_of [In5_Cu]) (nat (FlipLayer (int 5) 0))"
    using bit_FlipLayerMask [OF _ _ m', of 5] by simp
  then show "Contains m' In5_Cu" by (simp add: Contains_iff FlipLayer_def)
qed

end
