(* ===== verification/Geometry.thy ===== *)
theory Geometry
  imports Kicad_Prelude Complex_Main "HOL-Library.Signed_Division"
begin

text \<open>
  The integer geometry kernel of \<open>libs/kimath\<close>: vectors (\<open>math/vector2d.h\<close>), rounding division
  (\<open>math/util.cpp\<close>), segments (\<open>geometry/seg.h\<close>, \<open>geometry/seg.cpp\<close>), the two segment predicates of
  \<open>trigo.cpp\<close>.

  Coordinates are \<open>int\<close>s; \<open>C++\<close> computes them in 32 bits and products in 64. The bounds under
  which no product leaves 64 bits are a theorem. Division in the code truncates: it is \<open>sdiv\<close>.
  The one floating-point value the kernel uses, the first guess \<open>std::sqrt\<close> of \<open>isqrt\<close>, is a
  parameter \<open>guess\<close> of the functions that call it; the results are shown not to depend on it.
\<close>

subsection \<open>Vectors\<close>

record VECTOR2I =
  vx :: int
  vy :: int

abbreviation Vec :: "int \<Rightarrow> int \<Rightarrow> VECTOR2I" where
  "Vec a b \<equiv> \<lparr>vx = a, vy = b\<rparr>"

definition vadd :: "VECTOR2I \<Rightarrow> VECTOR2I \<Rightarrow> VECTOR2I" where
  "vadd a b = Vec (vx a + vx b) (vy a + vy b)"

definition vsub :: "VECTOR2I \<Rightarrow> VECTOR2I \<Rightarrow> VECTOR2I" where
  "vsub a b = Vec (vx a - vx b) (vy a - vy b)"

definition Cross :: "VECTOR2I \<Rightarrow> VECTOR2I \<Rightarrow> int" where
  "Cross v aVector = vx v * vy aVector - vy v * vx aVector"

definition Dot :: "VECTOR2I \<Rightarrow> VECTOR2I \<Rightarrow> int" where
  "Dot v aVector = vx v * vx aVector + vy v * vy aVector"

definition SquaredEuclideanNorm :: "VECTOR2I \<Rightarrow> int" where
  "SquaredEuclideanNorm v = vx v * vx v + vy v * vy v"

definition Perpendicular :: "VECTOR2I \<Rightarrow> VECTOR2I" where
  "Perpendicular v = Vec (- vy v) (vx v)"

text \<open>
  The difference of two vectors of \<open>int\<close> as the machine holds it, and the conversion from 64-bit
  coordinates, which cuts them to the range of \<open>int\<close>.
\<close>

definition vsub32 :: "VECTOR2I \<Rightarrow> VECTOR2I \<Rightarrow> VECTOR2I" where
  "vsub32 a b = Vec (to_int32 (vx a - vx b)) (to_int32 (vy a - vy b))"

definition clamp32 :: "VECTOR2I \<Rightarrow> VECTOR2I" where
  "clamp32 v = Vec (max (- (2 ^ 31)) (min (vx v) (2 ^ 31 - 1))) (max (- (2 ^ 31)) (min (vy v) (2 ^ 31 - 1)))"

lemmas vec_defs [kicad_defs] =
  vadd_def vsub_def Cross_def Dot_def SquaredEuclideanNorm_def Perpendicular_def

lemma VECTOR2I_eq_iff: "a = b \<longleftrightarrow> vx a = vx b \<and> vy a = vy b" for a b :: VECTOR2I
  by (cases a; cases b) simp

definition ECOORD_MAX :: int where "ECOORD_MAX = 2 ^ 63 - 1"

definition INT_MAX :: int where "INT_MAX = 2 ^ 31 - 1"

subsection \<open>Rounding division and square roots\<close>

text \<open>The specialisation for \<open>int64_t\<close> with a 128-bit numerator.\<close>

definition rescale :: "int \<Rightarrow> int \<Rightarrow> int \<Rightarrow> int" where
  "rescale aNumerator aValue aDenominator =
    (let numerator = aNumerator * aValue in
     if (numerator < 0) \<noteq> (aDenominator < 0)
     then (numerator - aDenominator sdiv 2) sdiv aDenominator
     else (numerator + aDenominator sdiv 2) sdiv aDenominator)"

text \<open>
  \<open>sqrt_helper\<close> is called with \<open>lo \<le> hi\<close> and keeps that, so that testing \<open>lo \<ge> hi\<close> here is the
  source's \<open>lo == hi\<close>.
\<close>

function sqrt_helper :: "int \<Rightarrow> int \<Rightarrow> int \<Rightarrow> int" where
  "sqrt_helper x lo hi =
    (if lo \<ge> hi then lo
     else let mid = (lo + hi + 1) div 2 in
          if x div mid < mid then sqrt_helper x lo (mid - 1) else sqrt_helper x mid hi)"
  by pat_completeness auto
termination
  by (relation "measure (\<lambda>(x, lo, hi). nat (hi - lo))") auto

declare sqrt_helper.simps [simp del]

definition ct_sqrt :: "int \<Rightarrow> int" where
  "ct_sqrt x = sqrt_helper x 0 (x div 2 + 1)"

function isqrt_up :: "int \<Rightarrow> int \<Rightarrow> int \<Rightarrow> int" where
  "isqrt_up sqrt_max x r =
    (if r < sqrt_max \<and> r * r < x then isqrt_up sqrt_max x (r + 1) else r)"
  by pat_completeness auto
termination
  by (relation "measure (\<lambda>(m, x, r). nat (m - r))") auto

declare isqrt_up.simps [simp del]

text \<open>
  The second loop; a negative \<open>r\<close> is not reached when \<open>x\<close> is not negative, and stopping there
  makes the function total.
\<close>

function isqrt_down :: "int \<Rightarrow> int \<Rightarrow> int \<Rightarrow> int" where
  "isqrt_down sqrt_max x r =
    (if r \<ge> 0 \<and> (r > sqrt_max \<or> r * r > x) then isqrt_down sqrt_max x (r - 1) else r)"
  by pat_completeness auto
termination
  by (relation "measure (\<lambda>(m, x, r). nat (r + 1))") auto

declare isqrt_down.simps [simp del]

definition isqrt :: "(int \<Rightarrow> int) \<Rightarrow> int \<Rightarrow> int" where
  "isqrt guess x =
    (let sqrt_max = ct_sqrt ECOORD_MAX in
     isqrt_down sqrt_max x (isqrt_up sqrt_max x (guess x)))"

subsection \<open>Segments\<close>

record SEG =
  segA :: VECTOR2I
  segB :: VECTOR2I

abbreviation Seg :: "VECTOR2I \<Rightarrow> VECTOR2I \<Rightarrow> SEG" where
  "Seg a b \<equiv> \<lparr>segA = a, segB = b\<rparr>"

text \<open>
  \<open>SEG::intersects\<close> without the point: \<open>e\<close>, \<open>f\<close> are the two directions, \<open>ac\<close> joins the starts.
\<close>

definition seg_d :: "SEG \<Rightarrow> SEG \<Rightarrow> int" where
  "seg_d s aSeg = Cross (vsub (segB aSeg) (segA aSeg)) (vsub (segB s) (segA s))"

definition seg_p :: "SEG \<Rightarrow> SEG \<Rightarrow> int" where
  "seg_p s aSeg = Cross (vsub (segB aSeg) (segA aSeg)) (vsub (segA aSeg) (segA s))"

definition seg_q :: "SEG \<Rightarrow> SEG \<Rightarrow> int" where
  "seg_q s aSeg = Cross (vsub (segB s) (segA s)) (vsub (segA aSeg) (segA s))"

definition intersects :: "SEG \<Rightarrow> SEG \<Rightarrow> bool \<Rightarrow> bool \<Rightarrow> bool" where
  "intersects s aSeg aIgnoreEndpoints aLines =
    (let d = seg_d s aSeg; p = seg_p s aSeg; q = seg_q s aSeg in
     if d = 0 then False
     else if \<not> aLines \<and> d > 0 \<and> (q < 0 \<or> q > d \<or> p < 0 \<or> p > d) then False
     else if \<not> aLines \<and> d < 0 \<and> (q < d \<or> p < d \<or> p > 0 \<or> q > 0) then False
     else if \<not> aLines \<and> aIgnoreEndpoints \<and> (q = 0 \<or> q = d) \<and> (p = 0 \<or> p = d) then False
     else True)"

text \<open>The same with the point requested: it must fit 32 bits.\<close>

definition Intersect :: "SEG \<Rightarrow> SEG \<Rightarrow> bool \<Rightarrow> bool \<Rightarrow> VECTOR2I option" where
  "Intersect s aSeg aIgnoreEndpoints aLines =
    (if \<not> intersects s aSeg aIgnoreEndpoints aLines then None
     else
       (let d = seg_d s aSeg; q = seg_q s aSeg; f = vsub (segB aSeg) (segA aSeg);
            x = vx (segA aSeg) + rescale q (vx f) d;
            y = vy (segA aSeg) + rescale q (vy f) d
        in if \<bar>x\<bar> > INT_MAX \<or> \<bar>y\<bar> > INT_MAX then None else Some (Vec x y)))"

definition Intersects :: "SEG \<Rightarrow> SEG \<Rightarrow> bool" where
  "Intersects s aSeg = intersects s aSeg False False"

definition IntersectLines :: "SEG \<Rightarrow> SEG \<Rightarrow> VECTOR2I option" where
  "IntersectLines s aSeg = Intersect s aSeg False True"

definition NearestPoint :: "SEG \<Rightarrow> VECTOR2I \<Rightarrow> VECTOR2I" where
  "NearestPoint s aP =
    (let d = vsub32 (segB s) (segA s); l_squared = Dot d d in
     if l_squared = 0 then segA s
     else
       (let t = Dot d (vsub32 aP (segA s)) in
        if t < 0 then segA s
        else if t > l_squared then segB s
        else clamp32 (Vec (vx (segA s) + rescale t (vx d) l_squared)
                          (vy (segA s) + rescale t (vy d) l_squared))))"

definition SquaredDistance_pt :: "SEG \<Rightarrow> VECTOR2I \<Rightarrow> int" where
  "SquaredDistance_pt s aP = SquaredEuclideanNorm (vsub (NearestPoint s aP) aP)"

definition SquaredDistance :: "SEG \<Rightarrow> SEG \<Rightarrow> int" where
  "SquaredDistance s aSeg =
    (if Intersects s aSeg then 0
     else foldl (\<lambda>m p. min m (SquaredEuclideanNorm p)) ECOORD_MAX
       [vsub (NearestPoint aSeg (segA s)) (segA s),
        vsub (NearestPoint aSeg (segB s)) (segB s),
        vsub (NearestPoint s (segA aSeg)) (segA aSeg),
        vsub (NearestPoint s (segB aSeg)) (segB aSeg)])"

definition NearestPoint_seg :: "SEG \<Rightarrow> SEG \<Rightarrow> VECTOR2I" where
  "NearestPoint_seg s aSeg =
    (case Intersect s aSeg False False of
       Some p \<Rightarrow> p
     | None \<Rightarrow>
        (let pts_origin = [NearestPoint aSeg (segA s), NearestPoint aSeg (segB s),
                           NearestPoint s (segA aSeg), NearestPoint s (segB aSeg)];
             pts_out = [segA s, segB s, pts_origin ! 2, pts_origin ! 3];
             pts_dist = [SquaredEuclideanNorm (vsub (pts_origin ! 0) (segA s)),
                         SquaredEuclideanNorm (vsub (pts_origin ! 1) (segB s)),
                         SquaredEuclideanNorm (vsub (pts_origin ! 2) (segA aSeg)),
                         SquaredEuclideanNorm (vsub (pts_origin ! 3) (segB aSeg))];
             min_i = foldl (\<lambda>min_i i. if pts_dist ! i < pts_dist ! min_i then i else min_i) 0 [0, 1, 2, 3]
         in pts_out ! min_i))"

definition ccw :: "VECTOR2I \<Rightarrow> VECTOR2I \<Rightarrow> VECTOR2I \<Rightarrow> bool" where
  "ccw aA aB aC \<longleftrightarrow>
     (vy aC - vy aA) * (vx aB - vx aA) > (vy aB - vy aA) * (vx aC - vx aA)"

text \<open>\<open>Collide\<close> returns the optional \<open>aActual\<close> with the answer.\<close>

definition Collide :: "(int \<Rightarrow> int) \<Rightarrow> SEG \<Rightarrow> SEG \<Rightarrow> int \<Rightarrow> int option" where
  "Collide guess s aSeg aClearance =
    (if ccw (segA s) (segA aSeg) (segB aSeg) \<noteq> ccw (segB s) (segA aSeg) (segB aSeg) \<and>
        ccw (segA s) (segB s) (segA aSeg) \<noteq> ccw (segA s) (segB s) (segB aSeg)
     then Some 0
     else
       (let dist_sq = ECOORD_MAX;
            dist_sq = min dist_sq (SquaredDistance_pt s (segA aSeg));
            dist_sq = min dist_sq (SquaredDistance_pt s (segB aSeg));
            dist_sq = min dist_sq (SquaredDistance_pt aSeg (segA s));
            dist_sq = min dist_sq (SquaredDistance_pt aSeg (segB s))
        in if dist_sq = 0 \<or> dist_sq < aClearance * aClearance
           then Some (isqrt guess dist_sq) else None))"

definition Distance_pt :: "(int \<Rightarrow> int) \<Rightarrow> SEG \<Rightarrow> VECTOR2I \<Rightarrow> int" where
  "Distance_pt guess s aP = isqrt guess (SquaredDistance_pt s aP)"

definition Distance :: "(int \<Rightarrow> int) \<Rightarrow> SEG \<Rightarrow> SEG \<Rightarrow> int" where
  "Distance guess s aSeg = isqrt guess (SquaredDistance s aSeg)"

definition Contains_pt :: "(int \<Rightarrow> int) \<Rightarrow> SEG \<Rightarrow> VECTOR2I \<Rightarrow> bool" where
  "Contains_pt guess s aP \<longleftrightarrow> Distance_pt guess s aP \<le> 1"

definition Side :: "SEG \<Rightarrow> VECTOR2I \<Rightarrow> int" where
  "Side s aP =
    (let det = Cross (vsub (segB s) (segA s)) (vsub aP (segA s)) in
     if det < 0 then - 1 else if det > 0 then 1 else 0)"

definition LineProject :: "SEG \<Rightarrow> VECTOR2I \<Rightarrow> VECTOR2I" where
  "LineProject s aP =
    (let d = vsub (segB s) (segA s); l_squared = Dot d d in
     if l_squared = 0 then segA s
     else (let t = Dot d (vsub aP (segA s)) in
           Vec (vx (segA s) + rescale t (vx d) l_squared)
               (vy (segA s) + rescale t (vy d) l_squared)))"

definition ReflectPoint :: "SEG \<Rightarrow> VECTOR2I \<Rightarrow> VECTOR2I" where
  "ReflectPoint s aP =
    (let d = vsub (segB s) (segA s); l_squared = Dot d d; t = Dot d (vsub aP (segA s));
         c = (if l_squared = 0 then aP
              else Vec (vx (segA s) + rescale t (vx d) l_squared)
                       (vy (segA s) + rescale t (vy d) l_squared))
     in Vec (2 * vx c - vx aP) (2 * vy c - vy aP))"

definition LineDistance :: "(int \<Rightarrow> int) \<Rightarrow> SEG \<Rightarrow> VECTOR2I \<Rightarrow> bool \<Rightarrow> int" where
  "LineDistance guess s aP aDetermineSide =
    (let p = vy (segA s) - vy (segB s); q = vx (segB s) - vx (segA s);
         r = - p * vx (segA s) - q * vy (segA s); l = p * p + q * q;
         det = p * vx aP + q * vy aP + r;
         dist_sq = (if l > 0 then rescale det det l else 0);
         dist = isqrt guess dist_sq
     in if aDetermineSide then dist else \<bar>dist\<bar>)"

definition SquaredLength :: "SEG \<Rightarrow> int" where
  "SquaredLength s = SquaredEuclideanNorm (vsub (segA s) (segB s))"

definition mutualDistance :: "(int \<Rightarrow> int) \<Rightarrow> SEG \<Rightarrow> SEG \<Rightarrow> (int \<times> int) option" where
  "mutualDistance guess s aSeg =
    (let (a, b) = (if SquaredLength s < SquaredLength aSeg then (aSeg, s) else (s, aSeg));
         p = vy (segA a) - vy (segB a); q = vx (segB a) - vx (segA a);
         r = - p * vx (segA a) - q * vy (segA a); l = p * p + q * q
     in if l = 0 then None
        else
          (let det1 = p * vx (segA b) + q * vy (segA b) + r;
               det2 = p * vx (segB b) + q * vy (segB b) + r;
               dsq1 = rescale det1 det1 l; dsq2 = rescale det2 det2 l
           in Some (sgn det1 * isqrt guess dsq1, sgn det2 * isqrt guess dsq2)))"

definition ApproxCollinear :: "(int \<Rightarrow> int) \<Rightarrow> SEG \<Rightarrow> SEG \<Rightarrow> int \<Rightarrow> bool" where
  "ApproxCollinear guess s aSeg aDistanceThreshold =
    (case mutualDistance guess s aSeg of
       None \<Rightarrow> False
     | Some (d1, d2) \<Rightarrow> \<bar>d1\<bar> \<le> aDistanceThreshold \<and> \<bar>d2\<bar> \<le> aDistanceThreshold)"

definition ApproxParallel :: "(int \<Rightarrow> int) \<Rightarrow> SEG \<Rightarrow> SEG \<Rightarrow> int \<Rightarrow> bool" where
  "ApproxParallel guess s aSeg aDistanceThreshold =
    (case mutualDistance guess s aSeg of
       None \<Rightarrow> False
     | Some (d1, d2) \<Rightarrow> \<bar>d1 - d2\<bar> \<le> aDistanceThreshold)"

definition PerpendicularSeg :: "SEG \<Rightarrow> VECTOR2I \<Rightarrow> SEG" where
  "PerpendicularSeg s aP = Seg aP (vadd (Perpendicular (vsub (segB s) (segA s))) aP)"

definition ParallelSeg :: "SEG \<Rightarrow> VECTOR2I \<Rightarrow> SEG" where
  "ParallelSeg s aP = Seg aP (vadd (vsub (segB s) (segA s)) aP)"

definition ApproxPerpendicular :: "(int \<Rightarrow> int) \<Rightarrow> SEG \<Rightarrow> SEG \<Rightarrow> bool" where
  "ApproxPerpendicular guess s aSeg =
     ApproxParallel guess aSeg (PerpendicularSeg s (segA s)) 1"

definition Collinear :: "SEG \<Rightarrow> SEG \<Rightarrow> bool" where
  "Collinear s aSeg =
    (let qa = vy (segA s) - vy (segB s); qb = vx (segB s) - vx (segA s);
         qc = - qa * vx (segA s) - qb * vy (segA s);
         d1 = \<bar>vx (segA aSeg) * qa + vy (segA aSeg) * qb + qc\<bar>;
         d2 = \<bar>vx (segB aSeg) * qa + vy (segB aSeg) * qb + qc\<bar>
     in d1 \<le> 1 \<and> d2 \<le> 1)"

definition Overlaps :: "(int \<Rightarrow> int) \<Rightarrow> SEG \<Rightarrow> SEG \<Rightarrow> bool" where
  "Overlaps guess s aSeg =
    (if segA aSeg = segB aSeg then
       (if segA s = segA aSeg \<or> segB s = segA aSeg then False
        else Contains_pt guess s (segA aSeg))
     else if \<not> Collinear s aSeg then False
     else if Contains_pt guess s (segA aSeg) \<or> Contains_pt guess s (segB aSeg) then True
     else if Contains_pt guess aSeg (segA s) \<or> Contains_pt guess aSeg (segB s) then True
     else False)"

definition Contains_seg :: "(int \<Rightarrow> int) \<Rightarrow> SEG \<Rightarrow> SEG \<Rightarrow> bool" where
  "Contains_seg guess s aSeg =
    (if segA aSeg = segB aSeg then Contains_pt guess s (segA aSeg)
     else if \<not> Collinear s aSeg then False
     else if Contains_pt guess s (segA aSeg) \<and> Contains_pt guess s (segB aSeg) then True
     else False)"

subsection \<open>The predicates of trigo.cpp\<close>

definition IsPointOnSegment :: "VECTOR2I \<Rightarrow> VECTOR2I \<Rightarrow> VECTOR2I \<Rightarrow> bool" where
  "IsPointOnSegment aSegStart aSegEnd aTestPoint =
    (let vectSeg = vsub aSegEnd aSegStart; vectPoint = vsub aTestPoint aSegStart in
     if vx vectSeg * vy vectPoint - vy vectSeg * vx vectPoint \<noteq> 0 then False
     else if vx vectSeg * vx vectPoint + vy vectSeg * vy vectPoint <
             vx vectPoint * vx vectPoint + vy vectPoint * vy vectPoint then False
     else True)"

definition SegmentIntersectsSegment ::
  "VECTOR2I \<Rightarrow> VECTOR2I \<Rightarrow> VECTOR2I \<Rightarrow> VECTOR2I \<Rightarrow> bool" where
  "SegmentIntersectsSegment a_p1_l1 a_p2_l1 a_p1_l2 a_p2_l2 =
    (let dX_a = vx a_p2_l1 - vx a_p1_l1; dY_a = vy a_p2_l1 - vy a_p1_l1;
         dX_b = vx a_p2_l2 - vx a_p1_l2; dY_b = vy a_p2_l2 - vy a_p1_l2;
         dX_ab = vx a_p1_l2 - vx a_p1_l1; dY_ab = vy a_p1_l2 - vy a_p1_l1;
         den = dY_a * dX_b - dY_b * dX_a
     in if den = 0 then False
        else
          (let num_a = dY_ab * dX_b - dY_b * dX_ab;
               num_b = dY_ab * dX_a - dY_a * dX_ab;
               (den, num_a, num_b) =
                 (if den < 0 then (- den, - num_a, - num_b) else (den, num_a, num_b))
           in if num_a < 0 then False
              else if num_b < 0 then False
              else if num_a > den then False
              else if num_b > den then False
              else True))"

subsection \<open>Rounding\<close>

lemma rescale_sign:
  assumes "d \<noteq> 0"
  shows "rescale n v d = sgn (n * v) * sgn d * ((\<bar>n * v\<bar> + \<bar>d\<bar> div 2) div \<bar>d\<bar>)"
proof -
  have half: "\<bar>d\<bar> div 2 \<ge> 0" "d sdiv 2 = sgn d * (\<bar>d\<bar> div 2)" by (simp_all add: signed_divide_int_def)
  have *: "(s * (a + h)) sdiv d = s * sgn d * ((a + h) div \<bar>d\<bar>)"
    if "s = 1 \<or> s = - 1" "0 \<le> a" "0 \<le> h" for s a h :: int
    using that by (cases "a + h = 0") (auto simp: signed_divide_int_def abs_mult sgn_mult)
  have z: "\<bar>d\<bar> div 2 div \<bar>d\<bar> = 0" using assms by (simp add: div_pos_pos_trivial)
  consider "n * v > 0" "d > 0" | "n * v > 0" "d < 0" | "n * v < 0" "d > 0" | "n * v < 0" "d < 0"
    | "n * v = 0" using assms by linarith
  then show ?thesis
  proof cases
    case 1 with half * [of 1 "n * v" "\<bar>d\<bar> div 2"] show ?thesis by (simp add: rescale_def)
  next
    case 2 with half * [of 1 "n * v" "\<bar>d\<bar> div 2"] show ?thesis by (simp add: rescale_def)
  next
    case 3 with half * [of "- 1" "- (n * v)" "\<bar>d\<bar> div 2"] show ?thesis by (simp add: rescale_def)
  next
    case 4 with half * [of "- 1" "- (n * v)" "\<bar>d\<bar> div 2"] show ?thesis by (simp add: rescale_def)
  next
    case 5
    with assms half z * [of 1 0 "\<bar>d\<bar> div 2"] show ?thesis
      by (cases "d < 0") (simp_all add: rescale_def del: mult_eq_0_iff)
  qed
qed

lemma div_nearest:
  assumes "0 \<le> a" "0 < b"
  shows "2 * \<bar>b * ((a + b div 2) div b) - a\<bar> \<le> (b::int)"
proof -
  define k where "k = (a + b div 2) div b"
  have *: "2 * \<bar>y - a\<bar> \<le> b"
    if "y + m = a + h" "0 \<le> m" "m < b" "2 * h \<le> b" "b \<le> 2 * h + 1" for y m h :: int
  proof -
    have "y - a = h - m" using that by simp
    with that show ?thesis by (cases "h \<ge> m") (simp_all add: abs_if)
  qed
  have "b * k + (a + b div 2) mod b = a + b div 2" by (simp add: k_def)
  then show ?thesis unfolding k_def [symmetric] by (rule *) (use assms in simp_all)
qed

lemma le_half_trans: "x \<le> y \<Longrightarrow> 2 * y \<le> z \<Longrightarrow> 2 * x \<le> z" for x y z :: int
  by simp

lemma rescale_nearest_lemma:
  assumes "d \<noteq> 0"
  shows "2 * \<bar>d * rescale n v d - n * v\<bar> \<le> \<bar>d\<bar>"
proof -
  define N where "N = n * v"
  define k where "k = (\<bar>N\<bar> + \<bar>d\<bar> div 2) div \<bar>d\<bar>"
  have "d * (sgn N * sgn d * k) = sgn N * ((d * sgn d) * k)"
    by (simp only: mult_ac)
  then have "d * (sgn N * sgn d * k) = sgn N * (\<bar>d\<bar> * k)"
    by (simp only: abs_sgn [symmetric])
  moreover have "sgn N * \<bar>N\<bar> = N" by (simp add: sgn_mult_abs)
  ultimately have "d * rescale n v d - N = sgn N * (\<bar>d\<bar> * k - \<bar>N\<bar>)"
    by (simp only: rescale_sign [OF assms] N_def [symmetric] k_def [symmetric] right_diff_distrib)
  moreover have "\<bar>sgn N * z\<bar> \<le> \<bar>z\<bar>" for z :: int
    by (cases "N = 0") (simp_all add: abs_mult)
  ultimately have "\<bar>d * rescale n v d - N\<bar> \<le> \<bar>\<bar>d\<bar> * k - \<bar>N\<bar>\<bar>" by metis
  moreover have "2 * \<bar>\<bar>d\<bar> * k - \<bar>N\<bar>\<bar> \<le> \<bar>d\<bar>"
    unfolding k_def by (rule div_nearest) (use assms in simp_all)
  ultimately have "2 * \<bar>d * rescale n v d - N\<bar> \<le> \<bar>d\<bar>" by (rule le_half_trans)
  then show ?thesis by (simp only: N_def)
qed

lemma rescale_real:
  assumes "d \<noteq> 0"
  shows "\<bar>real_of_int (rescale n v d) - real_of_int n * real_of_int v / real_of_int d\<bar> \<le> 1 / 2"
proof -
  let ?r = "real_of_int (rescale n v d)"
  have "real_of_int (2 * \<bar>d * rescale n v d - n * v\<bar>) \<le> real_of_int \<bar>d\<bar>"
    by (simp only: of_int_le_iff rescale_nearest_lemma [OF assms])
  then have "2 * \<bar>real_of_int d * ?r - real_of_int n * real_of_int v\<bar> \<le> \<bar>real_of_int d\<bar>" by simp
  moreover have "real_of_int d * ?r - real_of_int n * real_of_int v =
      real_of_int d * (?r - real_of_int n * real_of_int v / real_of_int d)"
    using assms by (simp add: field_simps)
  ultimately have "\<bar>real_of_int d\<bar> * (2 * \<bar>?r - real_of_int n * real_of_int v / real_of_int d\<bar>) \<le>
      \<bar>real_of_int d\<bar> * 1"
    by (simp add: abs_mult mult_ac)
  then show ?thesis using assms by (subst (asm) mult_le_cancel_left_pos) auto
qed

subsection \<open>Square roots\<close>

definition is_floor_sqrt :: "int \<Rightarrow> int \<Rightarrow> bool" where
  "is_floor_sqrt x r \<longleftrightarrow> 0 \<le> r \<and> r * r \<le> x \<and> x < (r + 1) * (r + 1)"

lemma is_floor_sqrt_unique:
  assumes "is_floor_sqrt x r" "is_floor_sqrt x s"
  shows "r = s"
proof (rule ccontr)
  assume "r \<noteq> s"
  then consider "r + 1 \<le> s" | "s + 1 \<le> r" by linarith
  then show False
  proof cases
    case 1
    then have "(r + 1) * (r + 1) \<le> s * s" using assms by (intro mult_mono) (auto simp: is_floor_sqrt_def)
    with assms show False by (simp add: is_floor_sqrt_def)
  next
    case 2
    then have "(s + 1) * (s + 1) \<le> r * r" using assms by (intro mult_mono) (auto simp: is_floor_sqrt_def)
    with assms show False by (simp add: is_floor_sqrt_def)
  qed
qed

lemma sqrt_helper_correct:
  "0 \<le> lo \<Longrightarrow> lo \<le> hi \<Longrightarrow> lo * lo \<le> x \<Longrightarrow> x < (hi + 1) * (hi + 1) \<Longrightarrow>
   is_floor_sqrt x (sqrt_helper x lo hi)"
proof (induction x lo hi rule: sqrt_helper.induct)
  case (1 x lo hi)
  show ?case
  proof (cases "lo \<ge> hi")
    case True
    with "1.prems" show ?thesis by (subst sqrt_helper.simps) (simp add: is_floor_sqrt_def)
  next
    case False
    define mid where "mid = (lo + hi + 1) div 2"
    have mid: "lo < mid" "mid \<le> hi" using False by (simp_all add: mid_def)
    show ?thesis
    proof (cases "x div mid < mid")
      case True
      have "x < mid * mid"
      proof (rule ccontr)
        assume "\<not> x < mid * mid"
        then have "mid * mid div mid \<le> x div mid" using mid "1.prems"(1) by (intro zdiv_mono1) auto
        with True mid "1.prems"(1) show False by simp
      qed
      then have "is_floor_sqrt x (sqrt_helper x lo (mid - 1))"
        using "1.IH"(1) [OF False mid_def True] "1.prems" mid by simp
      then show ?thesis using False True mid_def by (subst sqrt_helper.simps) (simp add: Let_def)
    next
      case ge: False
      then have "mid * mid \<le> mid * (x div mid)" using mid "1.prems"(1) by (intro mult_left_mono) auto
      moreover have "mid * (x div mid) + x mod mid = x" "0 \<le> x mod mid"
        using mid "1.prems"(1) by simp_all
      ultimately have "mid * mid \<le> x" by linarith
      then have "is_floor_sqrt x (sqrt_helper x mid hi)"
        using "1.IH"(2) [OF False mid_def ge] "1.prems" mid by simp
      then show ?thesis using False ge mid_def by (subst sqrt_helper.simps) (simp add: Let_def)
    qed
  qed
qed

lemma ct_sqrt_correct:
  assumes "0 \<le> x"
  shows "is_floor_sqrt x (ct_sqrt x)"
proof -
  define h where "h = x div 2"
  have "x \<le> 2 * h + 1" "0 \<le> h" using assms by (simp_all add: h_def)
  moreover have "(h + 1 + 1) * (h + 1 + 1) = h * h + 4 * h + 4" by (simp add: algebra_simps)
  moreover have "0 \<le> h * h" by simp
  ultimately have "x < (h + 1 + 1) * (h + 1 + 1)" by linarith
  then show ?thesis
    unfolding ct_sqrt_def h_def [symmetric] using \<open>0 \<le> h\<close> assms
    by (intro sqrt_helper_correct) simp_all
qed

lemma ct_sqrt_ECOORD_MAX: "ct_sqrt ECOORD_MAX = 3037000499"
  by (rule is_floor_sqrt_unique [OF ct_sqrt_correct])
     (simp_all add: ECOORD_MAX_def is_floor_sqrt_def)

lemma isqrt_up_correct:
  assumes "0 \<le> r" "x < (m + 1) * (m + 1)" "0 \<le> m"
  shows "let r' = isqrt_up m x r in 0 \<le> r' \<and> (r' \<ge> m \<or> r' * r' \<ge> x) \<and> x < (r' + 1) * (r' + 1)"
  using assms
proof (induction m x r rule: isqrt_up.induct)
  case (1 m x r)
  show ?case
  proof (cases "r < m \<and> r * r < x")
    case True
    then have "isqrt_up m x r = isqrt_up m x (r + 1)" by (subst isqrt_up.simps) simp
    with "1.IH" [OF True] "1.prems" show ?thesis by simp
  next
    case False
    have "x < (r + 1) * (r + 1)"
    proof (cases "m \<le> r")
      case True
      then have "(m + 1) * (m + 1) \<le> (r + 1) * (r + 1)" using 1 by (intro mult_mono) auto
      with 1 show ?thesis by simp
    next
      case lt: False
      with False have "x \<le> r * r" by simp
      moreover have "(r + 1) * (r + 1) = r * r + 2 * r + 1" by (simp add: algebra_simps)
      ultimately show ?thesis using "1.prems"(1) by linarith
    qed
    moreover have "isqrt_up m x r = r" by (subst isqrt_up.simps) (rule if_not_P [OF False])
    moreover have "r \<ge> m \<or> r * r \<ge> x" using False by (metis not_le)
    ultimately show ?thesis using "1.prems"(1) unfolding Let_def by metis
  qed
qed

lemma isqrt_down_correct:
  assumes "0 \<le> r" "x < (r + 1) * (r + 1)" "0 \<le> x" "x < (m + 1) * (m + 1)" "0 \<le> m"
  shows "is_floor_sqrt x (isqrt_down m x r)"
  using assms
proof (induction m x r rule: isqrt_down.induct)
  case (1 m x r)
  show ?case
  proof (cases "r > m \<or> r * r > x")
    case True
    have "x < (r - 1 + 1) * (r - 1 + 1)"
    proof (cases "r > m")
      case True
      then have "(m + 1) * (m + 1) \<le> r * r" using 1 by (intro mult_mono) auto
      with 1 show ?thesis by simp
    qed (use True in simp)
    moreover have "r \<noteq> 0" using True 1 by auto
    moreover have "isqrt_down m x r = isqrt_down m x (r - 1)"
      using True "1.prems"(1) by (subst isqrt_down.simps) simp
    ultimately show ?thesis
      using "1.IH" True "1.prems" by simp
  next
    case False
    then have "isqrt_down m x r = r" by (subst isqrt_down.simps) simp
    with False 1 show ?thesis by (simp add: is_floor_sqrt_def)
  qed
qed

lemma isqrt_lemma:
  assumes "0 \<le> x" "x \<le> ECOORD_MAX" "0 \<le> guess x"
  shows "is_floor_sqrt x (isqrt guess x)"
proof -
  have m: "0 \<le> ct_sqrt ECOORD_MAX" "x < (ct_sqrt ECOORD_MAX + 1) * (ct_sqrt ECOORD_MAX + 1)"
    unfolding ct_sqrt_ECOORD_MAX using assms(2) by (simp_all add: ECOORD_MAX_def)
  show ?thesis
    unfolding isqrt_def Let_def
    using isqrt_up_correct [OF assms(3) m(2,1)] assms m
    by (intro isqrt_down_correct) (auto simp: Let_def)
qed

subsection \<open>Segments as sets of real points\<close>

text \<open>
  The reference: the point at parameter \<open>u\<close> of the line through a segment, with real coordinates.
\<close>

definition seg_at :: "SEG \<Rightarrow> real \<Rightarrow> real \<times> real" where
  "seg_at s u =
    (of_int (vx (segA s)) + u * of_int (vx (segB s) - vx (segA s)),
     of_int (vy (segA s)) + u * of_int (vy (segB s) - vy (segA s)))"

definition seg_points :: "SEG \<Rightarrow> (real \<times> real) set" where
  "seg_points s = seg_at s ` {0..1}"

lemma cramer:
  fixes a b ex ey fx fy cx cy :: real
  assumes "fx * ey - fy * ex \<noteq> 0"
  shows "a * ex - b * fx = cx \<and> a * ey - b * fy = cy \<longleftrightarrow>
    a = (fx * cy - fy * cx) / (fx * ey - fy * ex) \<and> b = (ex * cy - ey * cx) / (fx * ey - fy * ex)"
proof -
  let ?d = "fx * ey - fy * ex"
  have "a * ex - b * fx = cx \<and> a * ey - b * fy = cy \<longleftrightarrow>
      a * ?d = fx * cy - fy * cx \<and> b * ?d = ex * cy - ey * cx"
  proof
    assume "a * ex - b * fx = cx \<and> a * ey - b * fy = cy"
    then have c: "cx = a * ex - b * fx" "cy = a * ey - b * fy" by auto
    show "a * ?d = fx * cy - fy * cx \<and> b * ?d = ex * cy - ey * cx"
      unfolding c by (simp add: algebra_simps)
  next
    assume r: "a * ?d = fx * cy - fy * cx \<and> b * ?d = ex * cy - ey * cx"
    have "?d * (a * ex - b * fx) = ex * (a * ?d) - fx * (b * ?d)" by (simp add: algebra_simps)
    also have "\<dots> = ex * (fx * cy - fy * cx) - fx * (ex * cy - ey * cx)" by (simp only: r)
    also have "\<dots> = ?d * cx" by (simp add: algebra_simps)
    finally have 1: "a * ex - b * fx = cx" using assms by simp
    have "?d * (a * ey - b * fy) = ey * (a * ?d) - fy * (b * ?d)" by (simp add: algebra_simps)
    also have "\<dots> = ey * (fx * cy - fy * cx) - fy * (ex * cy - ey * cx)" by (simp only: r)
    also have "\<dots> = ?d * cy" by (simp add: algebra_simps)
    finally have 2: "a * ey - b * fy = cy" using assms by simp
    from 1 2 show "a * ex - b * fx = cx \<and> a * ey - b * fy = cy" by blast
  qed
  also have "\<dots> \<longleftrightarrow> a = (fx * cy - fy * cx) / ?d \<and> b = (ex * cy - ey * cx) / ?d"
    using assms by (simp add: eq_divide_eq)
  finally show ?thesis .
qed

lemma seg_at_eq_iff:
  assumes "seg_d s t \<noteq> 0"
  shows "seg_at s a = seg_at t b \<longleftrightarrow>
    a = of_int (seg_p s t) / of_int (seg_d s t) \<and> b = of_int (seg_q s t) / of_int (seg_d s t)"
proof -
  let ?ex = "real_of_int (vx (segB s) - vx (segA s))" and ?ey = "real_of_int (vy (segB s) - vy (segA s))"
  let ?fx = "real_of_int (vx (segB t) - vx (segA t))" and ?fy = "real_of_int (vy (segB t) - vy (segA t))"
  let ?cx = "real_of_int (vx (segA t) - vx (segA s))" and ?cy = "real_of_int (vy (segA t) - vy (segA s))"
  have d: "?fx * ?ey - ?fy * ?ex = of_int (seg_d s t)"
      "?fx * ?cy - ?fy * ?cx = of_int (seg_p s t)" "?ex * ?cy - ?ey * ?cx = of_int (seg_q s t)"
    by (simp_all add: seg_d_def seg_p_def seg_q_def vec_defs flip: of_int_mult of_int_diff)
  have "seg_at s a = seg_at t b \<longleftrightarrow> a * ?ex - b * ?fx = ?cx \<and> a * ?ey - b * ?fy = ?cy"
    by (auto simp: seg_at_def algebra_simps)
  then show ?thesis
    using cramer [of ?fx ?ey ?fy ?ex a b ?cx ?cy] assms unfolding d by simp
qed

lemma between_frac:
  assumes "d \<noteq> 0"
  shows "0 \<le> of_int p / (of_int d :: real) \<and> of_int p / (of_int d :: real) \<le> 1 \<longleftrightarrow>
    (if d > 0 then 0 \<le> p \<and> p \<le> d else d \<le> p \<and> p \<le> 0)"
  using assms by (auto simp: zero_le_divide_iff divide_le_eq)

lemma intersects_iff:
  "Intersects s t \<longleftrightarrow> seg_d s t \<noteq> 0 \<and>
    (if seg_d s t > 0 then 0 \<le> seg_p s t \<and> seg_p s t \<le> seg_d s t \<and> 0 \<le> seg_q s t \<and> seg_q s t \<le> seg_d s t
     else seg_d s t \<le> seg_p s t \<and> seg_p s t \<le> 0 \<and> seg_d s t \<le> seg_q s t \<and> seg_q s t \<le> 0)"
  by (auto simp: Intersects_def intersects_def Let_def)

lemma intersects_params:
  "Intersects s t \<longleftrightarrow> seg_d s t \<noteq> 0 \<and>
    (let u = of_int (seg_p s t) / of_int (seg_d s t) :: real;
         v = of_int (seg_q s t) / of_int (seg_d s t) :: real in 0 \<le> u \<and> u \<le> 1 \<and> 0 \<le> v \<and> v \<le> 1)"
  using between_frac [of "seg_d s t" "seg_p s t"] between_frac [of "seg_d s t" "seg_q s t"]
  unfolding intersects_iff Let_def by (auto split: if_splits)

lemma image_Int_nonempty: "f ` A \<inter> g ` B \<noteq> {} \<longleftrightarrow> (\<exists>a\<in>A. \<exists>b\<in>B. f a = g b)"
  by (simp add: disjoint_iff image_iff) metis

lemma Intersects_points_lemma:
  "Intersects s t \<longleftrightarrow> seg_d s t \<noteq> 0 \<and> seg_points s \<inter> seg_points t \<noteq> {}"
proof (cases "seg_d s t = 0")
  case True
  then show ?thesis by (simp add: intersects_iff)
next
  case False
  have "seg_points s \<inter> seg_points t \<noteq> {} \<longleftrightarrow>
      (\<exists>a b. 0 \<le> a \<and> a \<le> 1 \<and> 0 \<le> b \<and> b \<le> 1 \<and> seg_at s a = seg_at t b)"
    unfolding seg_points_def image_Int_nonempty by (simp add: Bex_def)
  with False show ?thesis
    by (simp add: seg_at_eq_iff intersects_params Let_def)
qed

text \<open>The three quantities of the test under exchange of the two segments.\<close>

lemma seg_swap: "seg_d t s = - seg_d s t" "seg_p t s = - seg_q s t" "seg_q t s = - seg_p s t"
  by (simp_all add: seg_d_def seg_p_def seg_q_def vec_defs algebra_simps)

lemma Intersects_sym: "Intersects s t = Intersects t s"
  by (auto simp: intersects_iff seg_swap [of t s])

lemma foldl_min_swap:
  "foldl (\<lambda>m p. min m (f p)) e [a, b, c, d] = foldl (\<lambda>m p. min m (f p)) e [c, d, a, b]"
  for f :: "'a \<Rightarrow> int"
  by (simp add: min_def)

lemma SquaredDistance_sym_lemma: "SquaredDistance s t = SquaredDistance t s"
  unfolding SquaredDistance_def Intersects_sym [of s t]
  by (subst foldl_min_swap) (rule refl)

lemma min_swap: "min (min (min (min e a) b) c) d = min (min (min (min e c) d) a) b"
  for e :: int
  by (simp add: min_def)

lemma ccw_rotate: "ccw a b c = ccw b c a"
proof -
  have "((vy c - vy a) * (vx b - vx a) - (vy b - vy a) * (vx c - vx a)) =
      ((vy a - vy b) * (vx c - vx b) - (vy c - vy b) * (vx a - vx b))"
    by (simp add: algebra_simps)
  then show ?thesis unfolding ccw_def by linarith
qed

lemma Collide_sym_lemma: "Collide g s t c = Collide g t s c"
proof -
  let ?A = "segA s" and ?B = "segB s" and ?C = "segA t" and ?D = "segB t"
  have "ccw ?C ?A ?B = ccw ?A ?B ?C" "ccw ?D ?A ?B = ccw ?A ?B ?D"
      "ccw ?C ?D ?A = ccw ?A ?C ?D" "ccw ?C ?D ?B = ccw ?B ?C ?D"
    by (metis ccw_rotate)+
  then have eq: "(ccw ?C ?A ?B \<noteq> ccw ?D ?A ?B \<and> ccw ?C ?D ?A \<noteq> ccw ?C ?D ?B) =
      (ccw ?A ?C ?D \<noteq> ccw ?B ?C ?D \<and> ccw ?A ?B ?C \<noteq> ccw ?A ?B ?D)" by auto
  show ?thesis
    unfolding Collide_def Let_def eq
      min_swap [of ECOORD_MAX "SquaredDistance_pt s ?C" "SquaredDistance_pt s ?D"
        "SquaredDistance_pt t ?A" "SquaredDistance_pt t ?B"] by (rule refl)
qed

definition real_pt :: "VECTOR2I \<Rightarrow> real \<times> real" where
  "real_pt p = (of_int (vx p), of_int (vy p))"

definition dist2 :: "real \<times> real \<Rightarrow> real \<times> real \<Rightarrow> real" where
  "dist2 a b = (fst a - fst b)\<^sup>2 + (snd a - snd b)\<^sup>2"

lemma on_segment_real:
  fixes vx vy wx wy :: real
  shows "(vx * wy - vy * wx = 0 \<and> wx * wx + wy * wy \<le> vx * wx + vy * wy) \<longleftrightarrow>
    (\<exists>u. 0 \<le> u \<and> u \<le> 1 \<and> wx = u * vx \<and> wy = u * vy)"
proof
  assume l: "vx * wy - vy * wx = 0 \<and> wx * wx + wy * wy \<le> vx * wx + vy * wy"
  define n where "n = vx * vx + vy * vy"
  define t where "t = vx * wx + vy * wy"
  have n: "0 \<le> n" "n = 0 \<Longrightarrow> vx = 0 \<and> vy = 0"
    by (auto simp: n_def sum_squares_eq_zero_iff)
  show "\<exists>u. 0 \<le> u \<and> u \<le> 1 \<and> wx = u * vx \<and> wy = u * vy"
  proof (cases "n = 0")
    case True
    then have "wx * wx + wy * wy \<le> 0" using l n by simp
    then have "wx = 0 \<and> wy = 0" by (metis sum_squares_le_zero_iff)
    then show ?thesis by (intro exI [of _ 0]) simp
  next
    case False
    have "vx * wy = vy * wx" using l by simp
    have "n * wx = t * vx + vy * (vy * wx - vx * wy)" "n * wy = t * vy - vx * (vy * wx - vx * wy)"
      by (simp_all add: n_def t_def algebra_simps)
    then have w: "n * wx = t * vx" "n * wy = t * vy" using \<open>vx * wy = vy * wx\<close> by simp_all
    have ww: "wx * wx + wy * wy \<le> t" using l by (simp add: t_def)
    have t0: "0 \<le> t" using ww sum_squares_ge_zero [of wx wy] by linarith
    have "n * (wx * wx + wy * wy) = (n * wx) * wx + (n * wy) * wy" by (simp add: algebra_simps)
    also have "\<dots> = t * t" by (simp only: w t_def) (simp add: algebra_simps)
    finally have "t * t \<le> n * t" using ww n(1) by (metis mult_left_mono)
    then have "t \<le> n" using t0 n(1) False by (cases "t = 0") (auto simp: mult_le_cancel_right)
    then show ?thesis
      using False n w t0 by (intro exI [of _ "t / n"]) (auto simp: field_simps)
  qed
next
  assume "\<exists>u. 0 \<le> u \<and> u \<le> 1 \<and> wx = u * vx \<and> wy = u * vy"
  then obtain u where u: "0 \<le> u" "u \<le> 1" "wx = u * vx" "wy = u * vy" by blast
  have "u * u * (vx * vx + vy * vy) \<le> u * (vx * vx + vy * vy)"
    using u by (intro mult_right_mono) (auto simp: mult_left_le sum_squares_ge_zero)
  then show "vx * wy - vy * wx = 0 \<and> wx * wx + wy * wy \<le> vx * wx + vy * wy"
    by (simp add: u(3,4) algebra_simps)
qed

lemma IsPointOnSegment_lemma:
  "IsPointOnSegment a b p \<longleftrightarrow> real_pt p \<in> seg_points (Seg a b)"
proof -
  let ?V = "vsub b a" and ?W = "vsub p a"
  have "IsPointOnSegment a b p \<longleftrightarrow>
      real_of_int (vx ?V * vy ?W - vy ?V * vx ?W) = 0 \<and>
      real_of_int (vx ?W * vx ?W + vy ?W * vy ?W) \<le> real_of_int (vx ?V * vx ?W + vy ?V * vy ?W)"
    unfolding IsPointOnSegment_def Let_def of_int_eq_0_iff of_int_le_iff by auto
  also have "\<dots> \<longleftrightarrow> (\<exists>u. 0 \<le> u \<and> u \<le> 1 \<and> real_of_int (vx ?W) = u * real_of_int (vx ?V) \<and>
      real_of_int (vy ?W) = u * real_of_int (vy ?V))"
    using on_segment_real [of "real_of_int (vx ?V)" "real_of_int (vy ?W)" "real_of_int (vy ?V)"
        "real_of_int (vx ?W)"] by simp
  also have "\<dots> \<longleftrightarrow> real_pt p \<in> seg_points (Seg a b)"
    by (auto simp: seg_points_def seg_at_def real_pt_def image_iff vsub_def algebra_simps)
  finally show ?thesis .
qed

lemma SegmentIntersectsSegment_lemma:
  "SegmentIntersectsSegment a b c d = Intersects (Seg a b) (Seg c d)"
proof -
  let ?s = "Seg a b" and ?t = "Seg c d"
  have "(vy b - vy a) * (vx d - vx c) - (vy d - vy c) * (vx b - vx a) = seg_d ?s ?t"
    "(vy c - vy a) * (vx d - vx c) - (vy d - vy c) * (vx c - vx a) = seg_p ?s ?t"
    "(vy c - vy a) * (vx b - vx a) - (vy b - vy a) * (vx c - vx a) = seg_q ?s ?t"
    by (simp_all add: seg_d_def seg_p_def seg_q_def vec_defs)
  then show ?thesis
    unfolding SegmentIntersectsSegment_def Let_def intersects_iff by (simp add: not_less)
qed

subsection \<open>The closest point\<close>

definition is_closest_param :: "SEG \<Rightarrow> VECTOR2I \<Rightarrow> real \<Rightarrow> bool" where
  "is_closest_param s p u \<longleftrightarrow> 0 \<le> u \<and> u \<le> 1 \<and>
    (\<forall>w. 0 \<le> w \<and> w \<le> 1 \<longrightarrow> dist2 (seg_at s u) (real_pt p) \<le> dist2 (seg_at s w) (real_pt p))"

text \<open>\<open>p\<close> is a grid point nearest to the real point \<open>a\<close>, coordinate by coordinate.\<close>

definition rounds_to :: "real \<times> real \<Rightarrow> VECTOR2I \<Rightarrow> bool" where
  "rounds_to a p \<longleftrightarrow>
    \<bar>of_int (vx p) - fst a\<bar> \<le> 1 / 2 \<and> \<bar>of_int (vy p) - snd a\<bar> \<le> (1 / 2 :: real)"

lemma dist2_param:
  fixes l t n :: real
  assumes "l = of_int (Dot (vsub (segB s) (segA s)) (vsub (segB s) (segA s)))"
    and "t = of_int (Dot (vsub (segB s) (segA s)) (vsub p (segA s)))"
  shows "dist2 (seg_at s w) (real_pt p) - dist2 (seg_at s u) (real_pt p) =
    (w - u) * (l * (w + u) - 2 * t)"
  unfolding assms
  by (simp add: dist2_def seg_at_def real_pt_def vec_defs power2_eq_square algebra_simps)

lemma is_closest_paramI:
  fixes l t :: real
  assumes "l = of_int (Dot (vsub (segB s) (segA s)) (vsub (segB s) (segA s)))"
    and "t = of_int (Dot (vsub (segB s) (segA s)) (vsub p (segA s)))"
    and "0 \<le> u" "u \<le> 1"
    and "\<And>w. 0 \<le> w \<Longrightarrow> w \<le> 1 \<Longrightarrow> 0 \<le> (w - u) * (l * (w + u) - 2 * t)"
  shows "is_closest_param s p u"
  using assms(3-) dist2_param [OF assms(1,2)] unfolding is_closest_param_def
  by (metis diff_ge_0_iff_ge)

lemma Dot_self: "0 \<le> Dot d d" "Dot d d = 0 \<longleftrightarrow> vx d = 0 \<and> vy d = 0"
  by (simp_all add: Dot_def sum_squares_eq_zero_iff)

definition in_board :: "VECTOR2I \<Rightarrow> bool" where
  "in_board p \<longleftrightarrow> \<bar>vx p\<bar> < 2 ^ 30 \<and> \<bar>vy p\<bar> < 2 ^ 30"

lemma vsub_bound:
  "in_board a \<Longrightarrow> in_board b \<Longrightarrow> \<bar>vx (vsub a b)\<bar> \<le> 2 ^ 31 - 2 \<and> \<bar>vy (vsub a b)\<bar> \<le> 2 ^ 31 - 2"
  by (auto simp: in_board_def vsub_def)

lemma rescale_between:
  assumes "d \<noteq> 0" "0 \<le> q * d" "\<bar>q\<bar> \<le> \<bar>d\<bar>"
  shows "min 0 f \<le> rescale q f d \<and> rescale q f d \<le> max 0 f"
proof -
  define k where "k = (\<bar>q * f\<bar> + \<bar>d\<bar> div 2) div \<bar>d\<bar>"
  have "\<bar>q * f\<bar> \<le> \<bar>d\<bar> * \<bar>f\<bar>" unfolding abs_mult using assms(3) by (intro mult_right_mono) auto
  moreover have "\<bar>d\<bar> div 2 < \<bar>d\<bar>" using assms(1) by simp
  ultimately have "\<bar>q * f\<bar> + \<bar>d\<bar> div 2 < (\<bar>f\<bar> + 1) * \<bar>d\<bar>" by (simp add: algebra_simps)
  moreover have "k * \<bar>d\<bar> \<le> \<bar>q * f\<bar> + \<bar>d\<bar> div 2"
    unfolding k_def using pos_mod_sign [of "\<bar>d\<bar>" "\<bar>q * f\<bar> + \<bar>d\<bar> div 2"] assms(1)
      div_mult_mod_eq [of "\<bar>q * f\<bar> + \<bar>d\<bar> div 2" "\<bar>d\<bar>"] by linarith
  ultimately have "k * \<bar>d\<bar> < (\<bar>f\<bar> + 1) * \<bar>d\<bar>" by linarith
  then have "k < \<bar>f\<bar> + 1" using assms(1) by (simp add: mult_less_cancel_right)
  moreover have "0 \<le> k" unfolding k_def using assms(1) by (simp add: pos_imp_zdiv_nonneg_iff)
  ultimately have k: "0 \<le> k" "k \<le> \<bar>f\<bar>" by simp_all
  have "rescale q f d = sgn (q * f) * sgn d * k" by (simp add: rescale_sign [OF assms(1)] k_def)
  moreover have "sgn q * sgn d = (if q = 0 then 0 else 1)"
    using assms(1,2) by (auto simp: sgn_if zero_le_mult_iff)
  then have "sgn (q * f) * sgn d = (if q = 0 then 0 else sgn f)"
    by (metis (no_types, lifting) mult.assoc mult.commute mult_1 mult_zero_left sgn_mult)
  ultimately have "rescale q f d = (if q = 0 then 0 else sgn f) * k" by metis
  then show ?thesis using k by (auto simp: sgn_if)
qed

text \<open>The operation without widths, and that within the range of a board it is the same.\<close>

definition nearest_on :: "SEG \<Rightarrow> VECTOR2I \<Rightarrow> VECTOR2I" where
  "nearest_on s aP =
    (let d = vsub (segB s) (segA s); l = Dot d d; t = Dot d (vsub aP (segA s)) in
     if l = 0 then segA s else if t < 0 then segA s else if t > l then segB s
     else Vec (vx (segA s) + rescale t (vx d) l) (vy (segA s) + rescale t (vy d) l))"

lemma vsub32_board: "in_board a \<Longrightarrow> in_board b \<Longrightarrow> vsub32 a b = vsub a b"
  unfolding vsub32_def vsub_def in_board_def by (auto intro!: to_int32_id)

lemma clamp32_id: "\<bar>vx v\<bar> < 2 ^ 31 \<Longrightarrow> \<bar>vy v\<bar> < 2 ^ 31 \<Longrightarrow> clamp32 v = v"
  by (simp add: clamp32_def)

lemma NearestPoint_board:
  assumes "in_board (segA s)" "in_board (segB s)" "in_board p"
  shows "NearestPoint s p = nearest_on s p"
proof -
  define d where "d = vsub (segB s) (segA s)"
  define l where "l = Dot d d"
  define t where "t = Dot d (vsub p (segA s))"
  have d: "vsub32 (segB s) (segA s) = d" "vsub32 p (segA s) = vsub p (segA s)"
    using assms by (simp_all add: d_def vsub32_board)
  have c: "clamp32 (Vec (vx (segA s) + rescale t (vx d) l) (vy (segA s) + rescale t (vy d) l)) =
      Vec (vx (segA s) + rescale t (vx d) l) (vy (segA s) + rescale t (vy d) l)"
    if "l \<noteq> 0" "0 \<le> t" "t \<le> l"
  proof -
    have r: "\<bar>a + rescale t (b - a) l\<bar> < 2 ^ 31" if ab: "\<bar>a\<bar> < 2 ^ 30" "\<bar>b\<bar> < 2 ^ 30" for a b :: int
    proof -
      have "min 0 (b - a) \<le> rescale t (b - a) l \<and> rescale t (b - a) l \<le> max 0 (b - a)"
        by (rule rescale_between) (use \<open>l \<noteq> 0\<close> \<open>0 \<le> t\<close> \<open>t \<le> l\<close> in auto)
      then show ?thesis using ab by (auto simp: min_def max_def abs_less_iff split: if_splits)
    qed
    show ?thesis
      using assms r by (intro clamp32_id) (simp_all add: d_def vsub_def in_board_def)
  qed
  show ?thesis
    unfolding NearestPoint_def nearest_on_def Let_def d d_def [symmetric] l_def [symmetric] t_def [symmetric]
    using c by simp
qed

lemma nearest_on_lemma: "\<exists>u. is_closest_param s p u \<and> rounds_to (seg_at s u) (nearest_on s p)"
proof -
  define d where "d = vsub (segB s) (segA s)"
  define l where "l = Dot d d"
  define t where "t = Dot d (vsub p (segA s))"
  note I = is_closest_paramI [OF refl refl, of _ s p, folded d_def, folded l_def t_def]
  have l0: "0 \<le> l" by (simp add: l_def Dot_self)
  have ends: "rounds_to (seg_at s 0) (segA s)" "rounds_to (seg_at s 1) (segB s)"
    by (simp_all add: rounds_to_def seg_at_def)
  have N: "nearest_on s p =
      (if l = 0 then segA s else if t < 0 then segA s else if t > l then segB s
       else Vec (vx (segA s) + rescale t (vx d) l) (vy (segA s) + rescale t (vy d) l))"
    by (simp add: nearest_on_def Let_def d_def l_def t_def)
  consider (zero) "l = 0" | (low) "l > 0" "t < 0" | (high) "l > 0" "t > l" | (mid) "l > 0" "0 \<le> t" "t \<le> l"
    using l0 by linarith
  then show ?thesis
  proof cases
    case zero
    then have "t = 0" by (simp add: l_def t_def Dot_self) (simp add: Dot_def)
    with zero have "is_closest_param s p 0" by (intro I) auto
    with ends zero show ?thesis unfolding N by auto
  next
    case low
    then have "2 * real_of_int t \<le> real_of_int l * w" if "0 \<le> w" for w
      using that mult_nonneg_nonneg [of "real_of_int l" w] by linarith
    then have "is_closest_param s p 0" by (intro I) (auto intro!: mult_nonneg_nonneg)
    with ends low show ?thesis unfolding N by auto
  next
    case high
    have "l * (w + 1) - 2 * t \<le> 0" if "w \<le> 1" "0 \<le> w" for w :: real
    proof -
      have "real_of_int l * (w + 1) \<le> real_of_int l * 2" using that high by (intro mult_left_mono) auto
      with high show ?thesis by linarith
    qed
    then have "is_closest_param s p 1" by (intro I) (auto intro!: mult_nonpos_nonpos)
    with ends high show ?thesis unfolding N by auto
  next
    case mid
    let ?u = "real_of_int t / real_of_int l"
    have "real_of_int l * (w + ?u) - 2 * real_of_int t = real_of_int l * (w - ?u)" for w
      using mid by (simp add: field_simps)
    then have "is_closest_param s p ?u" using mid
      by (intro I) (auto simp: mult.left_commute [of _ "real_of_int l"])
    moreover have "rounds_to (seg_at s ?u) (nearest_on s p)"
      using mid rescale_real [of l t "vx d"] rescale_real [of l t "vy d"]
      unfolding N by (auto simp: rounds_to_def seg_at_def d_def vsub_def)
    ultimately show ?thesis by blast
  qed
qed


subsection \<open>Widths\<close>

lemma cross_bound:
  fixes a b c d K :: int
  assumes "\<bar>a\<bar> \<le> K" "\<bar>b\<bar> \<le> K" "\<bar>c\<bar> \<le> K" "\<bar>d\<bar> \<le> K"
  shows "\<bar>a * b - c * d\<bar> \<le> 2 * (K * K)"
proof -
  have "\<bar>a * b\<bar> \<le> K * K" "\<bar>c * d\<bar> \<le> K * K"
    unfolding abs_mult using assms by (auto intro!: mult_mono)
  then show ?thesis by linarith
qed

lemma Cross_bound:
  assumes "in_board a" "in_board b" "in_board c" "in_board d"
  shows "\<bar>Cross (vsub a b) (vsub c d)\<bar> \<le> ECOORD_MAX"
proof -
  have "\<bar>Cross (vsub a b) (vsub c d)\<bar> \<le> 2 * ((2 ^ 31 - 2) * (2 ^ 31 - 2))"
    unfolding Cross_def using vsub_bound [OF assms(1,2)] vsub_bound [OF assms(3,4)]
    by (intro cross_bound) auto
  then show ?thesis by (simp add: ECOORD_MAX_def)
qed

subsection \<open>Properties\<close>

text \<open>
  Two segments intersect, for \<open>SEG::Intersects\<close>, exactly when they are not parallel and the sets
  of real points they stand for meet; the end points count.
\<close>

theorem Intersects_points:
  "Intersects s t \<longleftrightarrow> seg_d s t \<noteq> 0 \<and> seg_points s \<inter> seg_points t \<noteq> {}"
  by (rule Intersects_points_lemma)



text \<open>
  C18: For a segment and a query within the range of a board (coordinates below \<open>2 ^ 30\<close>, so that no
  32-bit difference wraps) \<open>SEG::NearestPoint\<close> is the point of the segment closest to the query, among
  all its real points, rounded to the nearest grid point in each coordinate; degenerate segments
  included.
\<close>

theorem NearestPoint_closest:
  assumes "in_board (segA s)" "in_board (segB s)" "in_board p"
  shows "\<exists>u. is_closest_param s p u \<and> rounds_to (seg_at s u) (NearestPoint s p)"
  unfolding NearestPoint_board [OF assms] by (rule nearest_on_lemma)

theorem NearestPoint_closest_witness:
  "\<exists>u. is_closest_param (Seg (Vec 0 0) (Vec 7 3)) (Vec 5 0) u \<and>
     rounds_to (seg_at (Seg (Vec 0 0) (Vec 7 3)) u) (Vec 4 2)"
proof -
  have "NearestPoint (Seg (Vec 0 0) (Vec 7 3)) (Vec 5 0) = Vec 4 2" by code_simp
  then show ?thesis
    using NearestPoint_closest [of "Seg (Vec 0 0) (Vec 7 3)" "Vec 5 0"] by (simp add: in_board_def)
qed

text \<open>A segment longer than 32 bits: the difference wraps and the end of the segment is returned.\<close>

lemma NearestPoint_wraps:
  "NearestPoint (Seg (Vec (- 1500000000) 0) (Vec 1500000000 0)) (Vec 0 0) = Vec (- 1500000000) 0"
  by code_simp

text \<open>
  \<open>isqrt\<close> returns the floor of the square root of every 64-bit argument whatever non-negative
  first guess the floating-point square root provides, and so does the compile-time \<open>ct_sqrt\<close> the
  bound of its loops is made with.
\<close>

theorem isqrt_correct:
  assumes "0 \<le> x" "x \<le> ECOORD_MAX" "0 \<le> guess x"
  shows "is_floor_sqrt x (isqrt guess x) \<and> isqrt guess x = ct_sqrt x"
  using isqrt_lemma [of x guess] ct_sqrt_correct [of x] assms is_floor_sqrt_unique by blast

theorem isqrt_correct_witness:
  "is_floor_sqrt 17 (isqrt (\<lambda>x. x) 17) \<and> isqrt (\<lambda>x. x) 17 = ct_sqrt 17"
  by (rule isqrt_correct) (simp_all add: ECOORD_MAX_def)

text \<open>
  \<open>rescale\<close> rounds \<open>aNumerator * aValue / aDenominator\<close> to the nearest integer, with every
  combination of signs.
\<close>

theorem rescale_nearest:
  assumes "d \<noteq> 0"
  shows "\<bar>real_of_int (rescale n v d) - real_of_int n * real_of_int v / real_of_int d\<bar> \<le> 1 / 2"
  by (rule rescale_real [OF assms])

theorem rescale_nearest_witness:
  "\<bar>real_of_int (rescale (-5) 3 2) - real_of_int (-5) * real_of_int 3 / real_of_int 2\<bar> \<le> 1 / 2"
  by (rule rescale_nearest) simp

text \<open>
  The two segment predicates of \<open>trigo.cpp\<close> agree with the segment class: a point is on a
  segment exactly when it is one of its real points, and the intersection test decides the same as
  \<open>SEG::Intersects\<close>.
\<close>

theorem trigo_predicates:
  "(IsPointOnSegment a b p \<longleftrightarrow> real_pt p \<in> seg_points (Seg a b)) \<and>
   (SegmentIntersectsSegment a b c d \<longleftrightarrow> Intersects (Seg a b) (Seg c d))"
  by (simp add: IsPointOnSegment_lemma SegmentIntersectsSegment_lemma)

text \<open>
  Distances between segments, and the collision test built on them, do not depend on which
  segment is asked.
\<close>

theorem segment_distance_sym:
  "SquaredDistance s t = SquaredDistance t s \<and> Collide guess s t c = Collide guess t s c"
  using SquaredDistance_sym_lemma Collide_sym_lemma by blast

text \<open>
  With coordinates below \<open>2 ^ 30\<close> in magnitude (about one metre in the board's nanometres) none
  of the cross products of the intersection test leaves 64 bits.
\<close>

theorem intersects_no_overflow:
  assumes "in_board (segA s)" "in_board (segB s)" "in_board (segA t)" "in_board (segB t)"
  shows "\<bar>seg_d s t\<bar> \<le> ECOORD_MAX \<and> \<bar>seg_p s t\<bar> \<le> ECOORD_MAX \<and> \<bar>seg_q s t\<bar> \<le> ECOORD_MAX"
  using assms by (simp add: seg_d_def seg_p_def seg_q_def Cross_bound)

theorem intersects_no_overflow_witness:
  "let s = Seg (Vec 0 0) (Vec 1073741823 1073741823); t = Seg (Vec 0 (-1073741823)) (Vec 1 1) in
   \<bar>seg_d s t\<bar> \<le> ECOORD_MAX \<and> \<bar>seg_p s t\<bar> \<le> ECOORD_MAX \<and> \<bar>seg_q s t\<bar> \<le> ECOORD_MAX"
  unfolding Let_def by (rule intersects_no_overflow) (simp_all add: in_board_def)

end
