(* ===== verification/Boxes.thy ===== *)
theory Boxes
  imports Geometry
begin

text \<open>
  Bounding boxes, \<open>BOX2<VECTOR2I>\<close> of \<open>libs/kimath/include/math/box2.h\<close>: an origin, a size that may
  be negative, and a flag for boxes nothing was merged into yet. \<open>Normalize\<close> is called where the
  code calls it. The reference is the set \<open>box_pts\<close> of the grid points of a box, and \<open>box_real\<close>, the
  set of its real points. Coordinates are unbounded here.
\<close>

subsection \<open>State and accessors\<close>

record BOX2 =
  m_Pos :: VECTOR2I
  m_Size :: VECTOR2I
  m_init :: bool

definition BOX2_empty :: BOX2 where
  "BOX2_empty = \<lparr>m_Pos = Vec 0 0, m_Size = Vec 0 0, m_init = False\<rparr>"

definition Normalize_y :: "BOX2 \<Rightarrow> BOX2" where
  "Normalize_y b =
    (if vy (m_Size b) < 0
     then b\<lparr>m_Pos := Vec (vx (m_Pos b)) (vy (m_Pos b) + vy (m_Size b)),
            m_Size := Vec (vx (m_Size b)) (- vy (m_Size b))\<rparr>
     else b)"

definition Normalize_x :: "BOX2 \<Rightarrow> BOX2" where
  "Normalize_x b =
    (if vx (m_Size b) < 0
     then b\<lparr>m_Pos := Vec (vx (m_Pos b) + vx (m_Size b)) (vy (m_Pos b)),
            m_Size := Vec (- vx (m_Size b)) (vy (m_Size b))\<rparr>
     else b)"

definition Normalize :: "BOX2 \<Rightarrow> BOX2" where
  "Normalize b = Normalize_x (Normalize_y b)"

definition BOX2_of :: "VECTOR2I \<Rightarrow> VECTOR2I \<Rightarrow> BOX2" where
  "BOX2_of aPos aSize = Normalize \<lparr>m_Pos = aPos, m_Size = aSize, m_init = True\<rparr>"

definition GetRight :: "BOX2 \<Rightarrow> int" where "GetRight b = vx (m_Pos b) + vx (m_Size b)"
definition GetBottom :: "BOX2 \<Rightarrow> int" where "GetBottom b = vy (m_Pos b) + vy (m_Size b)"
definition GetEnd :: "BOX2 \<Rightarrow> VECTOR2I" where "GetEnd b = Vec (GetRight b) (GetBottom b)"

definition GetSizeMax :: "BOX2 \<Rightarrow> int" where
  "GetSizeMax b = (if vx (m_Size b) > vy (m_Size b) then vx (m_Size b) else vy (m_Size b))"

definition SetOrigin :: "BOX2 \<Rightarrow> VECTOR2I \<Rightarrow> BOX2" where
  "SetOrigin b pos = b\<lparr>m_Pos := pos, m_init := True\<rparr>"

definition SetSize :: "BOX2 \<Rightarrow> VECTOR2I \<Rightarrow> BOX2" where
  "SetSize b aSize = b\<lparr>m_Size := aSize, m_init := True\<rparr>"

definition SetEnd :: "BOX2 \<Rightarrow> VECTOR2I \<Rightarrow> BOX2" where
  "SetEnd b pos = SetSize b (vsub pos (m_Pos b))"

definition SetX :: "BOX2 \<Rightarrow> int \<Rightarrow> BOX2" where "SetX b val = SetOrigin b (Vec val (vy (m_Pos b)))"
definition SetY :: "BOX2 \<Rightarrow> int \<Rightarrow> BOX2" where "SetY b val = SetOrigin b (Vec (vx (m_Pos b)) val)"
definition SetWidth :: "BOX2 \<Rightarrow> int \<Rightarrow> BOX2" where "SetWidth b val = SetSize b (Vec val (vy (m_Size b)))"
definition SetHeight :: "BOX2 \<Rightarrow> int \<Rightarrow> BOX2" where "SetHeight b val = SetSize b (Vec (vx (m_Size b)) val)"

definition Move :: "BOX2 \<Rightarrow> VECTOR2I \<Rightarrow> BOX2" where
  "Move b aMoveVector = b\<lparr>m_Pos := vadd (m_Pos b) aMoveVector\<rparr>"

definition Offset :: "BOX2 \<Rightarrow> int \<Rightarrow> int \<Rightarrow> BOX2" where
  "Offset b dx dy = b\<lparr>m_Pos := Vec (vx (m_Pos b) + dx) (vy (m_Pos b) + dy)\<rparr>"

definition Centre :: "BOX2 \<Rightarrow> VECTOR2I" where
  "Centre b = Vec (vx (m_Pos b) + vx (m_Size b) sdiv 2) (vy (m_Pos b) + vy (m_Size b) sdiv 2)"

text \<open>\<open>Compute\<close>: the loop runs over all points, the first one again included.\<close>

definition Compute :: "BOX2 \<Rightarrow> VECTOR2I list \<Rightarrow> BOX2" where
  "Compute b aPointList =
    (case aPointList of
       [] \<Rightarrow> b
     | p0 # _ \<Rightarrow>
        (let (vmin, vmax) = foldl (\<lambda>(vmin, vmax) p.
               (Vec (min (vx vmin) (vx p)) (min (vy vmin) (vy p)),
                Vec (max (vx vmax) (vx p)) (max (vy vmax) (vy p)))) (p0, p0) aPointList
         in SetSize (SetOrigin b vmin) (vsub vmax vmin)))"

subsection \<open>Predicates\<close>

definition BOX2_Contains :: "BOX2 \<Rightarrow> VECTOR2I \<Rightarrow> bool" where
  "BOX2_Contains b aPoint =
    (let rel_pos = vsub aPoint (m_Pos b); size = m_Size b;
         (rel_pos, size) =
           (if vx size < 0 then (Vec (vx rel_pos + - vx size) (vy rel_pos), Vec (- vx size) (vy size))
            else (rel_pos, size));
         (rel_pos, size) =
           (if vy size < 0 then (Vec (vx rel_pos) (vy rel_pos + - vy size), Vec (vx size) (- vy size))
            else (rel_pos, size))
     in vx rel_pos \<ge> 0 \<and> vy rel_pos \<ge> 0 \<and> vy rel_pos \<le> vy size \<and> vx rel_pos \<le> vx size)"

definition BOX2_Contains_box :: "BOX2 \<Rightarrow> BOX2 \<Rightarrow> bool" where
  "BOX2_Contains_box b aRect \<longleftrightarrow> BOX2_Contains b (m_Pos aRect) \<and> BOX2_Contains b (GetEnd aRect)"

definition BOX2_Intersects :: "BOX2 \<Rightarrow> BOX2 \<Rightarrow> bool" where
  "BOX2_Intersects b aRect =
    (let me = Normalize b; rect = Normalize aRect;
         left = max (vx (m_Pos me)) (vx (m_Pos rect));
         right = min (vx (m_Pos me) + vx (m_Size me)) (vx (m_Pos rect) + vx (m_Size rect));
         top = max (vy (m_Pos me)) (vy (m_Pos rect));
         bottom = min (vy (m_Pos me) + vy (m_Size me)) (vy (m_Pos rect) + vy (m_Size rect))
     in if left \<le> right \<and> top \<le> bottom then True else False)"

definition BOX2_Intersect :: "BOX2 \<Rightarrow> BOX2 \<Rightarrow> BOX2" where
  "BOX2_Intersect b aRect =
    (let me = Normalize b; rect = Normalize aRect;
         topLeft = Vec (max (vx (m_Pos me)) (vx (m_Pos rect))) (max (vy (m_Pos me)) (vy (m_Pos rect)));
         bottomRight =
           Vec (min (vx (m_Pos me) + vx (m_Size me)) (vx (m_Pos rect) + vx (m_Size rect)))
               (min (vy (m_Pos me) + vy (m_Size me)) (vy (m_Pos rect) + vy (m_Size rect)))
     in if vx topLeft < vx bottomRight \<and> vy topLeft < vy bottomRight
        then BOX2_of topLeft (vsub bottomRight topLeft)
        else BOX2_of (Vec 0 0) (Vec 0 0))"

definition BOX2_Intersects_line :: "BOX2 \<Rightarrow> VECTOR2I \<Rightarrow> VECTOR2I \<Rightarrow> bool" where
  "BOX2_Intersects_line b aPoint1 aPoint2 =
    (if BOX2_Contains b aPoint1 \<or> BOX2_Contains b aPoint2 then True
     else
       (let point2 = Vec (GetRight b) (vy (m_Pos b)); point4 = Vec (vx (m_Pos b)) (GetBottom b) in
        if SegmentIntersectsSegment aPoint1 aPoint2 (m_Pos b) point2 then True
        else if SegmentIntersectsSegment aPoint1 aPoint2 point2 (GetEnd b) then True
        else if SegmentIntersectsSegment aPoint1 aPoint2 (GetEnd b) point4 then True
        else False))"

subsection \<open>Growing and merging\<close>

definition Inflate :: "BOX2 \<Rightarrow> int \<Rightarrow> int \<Rightarrow> BOX2" where
  "Inflate b dx dy =
    (let (px, sx) =
           (if vx (m_Size b) \<ge> 0 then
              (if vx (m_Size b) < - 2 * dx then (vx (m_Pos b) + vx (m_Size b) sdiv 2, 0)
               else (vx (m_Pos b) - dx, vx (m_Size b) + 2 * dx))
            else if vx (m_Size b) > 2 * dx then (vx (m_Pos b) - vx (m_Size b) sdiv 2, 0)
            else (vx (m_Pos b) + dx, vx (m_Size b) - 2 * dx));
         (py, sy) =
           (if vy (m_Size b) \<ge> 0 then
              (if vy (m_Size b) < - 2 * dy then (vy (m_Pos b) + vy (m_Size b) sdiv 2, 0)
               else (vy (m_Pos b) - dy, vy (m_Size b) + 2 * dy))
            else if vy (m_Size b) > 2 * dy then (vy (m_Pos b) - vy (m_Size b) sdiv 2, 0)
            else (vy (m_Pos b) + dy, vy (m_Size b) - 2 * dy))
     in b\<lparr>m_Pos := Vec px py, m_Size := Vec sx sy\<rparr>)"

definition Merge_box :: "BOX2 \<Rightarrow> BOX2 \<Rightarrow> BOX2" where
  "Merge_box b aRect =
    (if \<not> m_init b then
       (if m_init aRect then b\<lparr>m_Pos := m_Pos aRect, m_Size := m_Size aRect, m_init := True\<rparr> else b)
     else
       (let b = Normalize b; rect = Normalize aRect; end' = GetEnd b; rect_end = GetEnd rect;
            b = b\<lparr>m_Pos := Vec (min (vx (m_Pos b)) (vx (m_Pos rect))) (min (vy (m_Pos b)) (vy (m_Pos rect)))\<rparr>;
            end' = Vec (max (vx end') (vx rect_end)) (max (vy end') (vy rect_end))
        in SetEnd b end'))"

definition Merge_pt :: "BOX2 \<Rightarrow> VECTOR2I \<Rightarrow> BOX2" where
  "Merge_pt b aPoint =
    (if \<not> m_init b then b\<lparr>m_Pos := aPoint, m_Size := Vec 0 0, m_init := True\<rparr>
     else
       (let b = Normalize b; end' = GetEnd b;
            b = b\<lparr>m_Pos := Vec (min (vx (m_Pos b)) (vx aPoint)) (min (vy (m_Pos b)) (vy aPoint))\<rparr>;
            end' = Vec (max (vx end') (vx aPoint)) (max (vy end') (vy aPoint))
        in SetEnd b end'))"

definition RevertYAxis :: "BOX2 \<Rightarrow> BOX2" where
  "RevertYAxis b =
    Normalize (b\<lparr>m_Pos := Vec (vx (m_Pos b)) (- vy (m_Pos b)),
                 m_Size := Vec (vx (m_Size b)) (- vy (m_Size b))\<rparr>)"

text \<open>The corners after the rotation \<open>rot\<close> about the given centre, then their bounding box.\<close>

definition GetBoundingBoxRotated :: "(VECTOR2I \<Rightarrow> VECTOR2I) \<Rightarrow> BOX2 \<Rightarrow> BOX2" where
  "GetBoundingBoxRotated rot b =
    (let c0 = m_Pos b; c2 = GetEnd b; c1 = Vec (vx c0) (vy c2); c3 = Vec (vx c2) (vy c0);
         corners = map rot [c0, c1, c2, c3];
         (start, end') = foldl (\<lambda>(s, e) p.
               (Vec (min (vx s) (vx p)) (min (vy s) (vy p)), Vec (max (vx e) (vx p)) (max (vy e) (vy p))))
             (hd corners, hd corners) (tl corners)
     in SetEnd (SetOrigin BOX2_empty start) end')"

text \<open>
  \<open>Intersects\<close> with a rectangle turned by a multiple of 90 degrees that is not a half turn: the
  branch of the code that builds \<open>rotRect\<close>.
\<close>

definition rotRect_perpendicular :: "BOX2 \<Rightarrow> BOX2" where
  "rotRect_perpendicular aRect =
    Inflate (SetOrigin BOX2_empty (Centre aRect)) (vy (m_Size aRect)) (vx (m_Size aRect))"

subsection \<open>Distances\<close>

definition GetArea :: "BOX2 \<Rightarrow> int" where "GetArea b = vx (m_Size b) * vy (m_Size b)"

definition BOX2_SquaredDistance_pt :: "BOX2 \<Rightarrow> VECTOR2I \<Rightarrow> int" where
  "BOX2_SquaredDistance_pt b aP =
    (let x2 = vx (m_Pos b) + vx (m_Size b); y2 = vy (m_Pos b) + vy (m_Size b);
         xdiff = max (if vx aP < vx (m_Pos b) then vx (m_Pos b) - vx aP else vx (m_Pos b) - x2) 0;
         ydiff = max (if vy aP < vy (m_Pos b) then vy (m_Pos b) - vy aP else vy (m_Pos b) - y2) 0
     in xdiff * xdiff + ydiff * ydiff)"

definition BOX2_SquaredDistance :: "BOX2 \<Rightarrow> BOX2 \<Rightarrow> int" where
  "BOX2_SquaredDistance b aBox =
    (let s = 0;
         s = (if vx (m_Pos aBox) + vx (m_Size aBox) < vx (m_Pos b) then
                (let d = vx (m_Pos aBox) + vx (m_Size aBox) - vx (m_Pos b) in s + d * d)
              else if vx (m_Pos aBox) > vx (m_Pos b) + vx (m_Size b) then
                (let d = vx (m_Pos aBox) - vx (m_Size b) - vx (m_Pos b) in s + d * d)
              else s);
         s = (if vy (m_Pos aBox) + vy (m_Size aBox) < vy (m_Pos b) then
                (let d = vy (m_Pos aBox) + vy (m_Size aBox) - vy (m_Pos b) in s + d * d)
              else if vy (m_Pos aBox) > vy (m_Pos b) + vy (m_Size b) then
                (let d = vy (m_Pos aBox) - vy (m_Size b) - vy (m_Pos b) in s + d * d)
              else s)
     in s)"

definition clamp :: "int \<Rightarrow> int \<Rightarrow> int \<Rightarrow> int" where
  "clamp lower value upper = max lower (min value upper)"

definition ClosestPointTo :: "BOX2 \<Rightarrow> VECTOR2I \<Rightarrow> VECTOR2I" where
  "ClosestPointTo b aPoint =
    (let me = Normalize b in
     Vec (clamp (vx (m_Pos me)) (vx aPoint) (GetRight me))
         (clamp (vy (m_Pos me)) (vy aPoint) (GetBottom me)))"

definition FarthestPointTo :: "BOX2 \<Rightarrow> VECTOR2I \<Rightarrow> VECTOR2I" where
  "FarthestPointTo b aPoint =
    (let me = Normalize b; center = Centre me in
     Vec (if vx aPoint < vx center then GetRight me else vx (m_Pos me))
         (if vy aPoint < vy center then GetBottom me else vy (m_Pos me)))"

definition BOX2_eq :: "BOX2 \<Rightarrow> BOX2 \<Rightarrow> bool" where
  "BOX2_eq b aOther =
    (let t1 = Normalize b; t2 = Normalize aOther in m_Pos t1 = m_Pos t2 \<and> m_Size t1 = m_Size t2)"

text \<open>
  The circle tests compare squares of differences of coordinates in double precision, exact for the
  integers below \<open>2 ^ 26\<close>; here they are exact always.
\<close>

definition IntersectsCircle :: "BOX2 \<Rightarrow> VECTOR2I \<Rightarrow> int \<Rightarrow> bool" where
  "IntersectsCircle b aCenter aRadius =
    (if \<not> m_init b then False
     else
       (let closest = ClosestPointTo b aCenter; dx = vx aCenter - vx closest; dy = vy aCenter - vy closest
        in dx * dx + dy * dy \<le> aRadius * aRadius))"

text \<open>The inner radius \<open>aRadius - aWidth / 2\<close> is not rounded: both sides are doubled instead.\<close>

definition IntersectsCircleEdge :: "BOX2 \<Rightarrow> VECTOR2I \<Rightarrow> int \<Rightarrow> int \<Rightarrow> bool" where
  "IntersectsCircleEdge b aCenter aRadius aWidth =
    (if \<not> m_init b then False
     else if \<not> IntersectsCircle b aCenter (aRadius + aWidth sdiv 2) then False
     else
       (let farpt = FarthestPointTo b aCenter; fx = vx farpt - vx aCenter; fy = vy farpt - vy aCenter;
            r2 = 2 * aRadius - aWidth
        in 4 * (fx * fx + fy * fy) > r2 * r2))"

subsection \<open>Boxes as sets of points\<close>

definition box_pts :: "BOX2 \<Rightarrow> VECTOR2I set" where
  "box_pts b = {p. min (vx (m_Pos b)) (GetRight b) \<le> vx p \<and> vx p \<le> max (vx (m_Pos b)) (GetRight b) \<and>
                   min (vy (m_Pos b)) (GetBottom b) \<le> vy p \<and> vy p \<le> max (vy (m_Pos b)) (GetBottom b)}"

definition box_real :: "BOX2 \<Rightarrow> (real \<times> real) set" where
  "box_real b =
    {of_int (min (vx (m_Pos b)) (GetRight b))..of_int (max (vx (m_Pos b)) (GetRight b))} \<times>
    {of_int (min (vy (m_Pos b)) (GetBottom b))..of_int (max (vy (m_Pos b)) (GetBottom b))}"

definition normal :: "BOX2 \<Rightarrow> bool" where
  "normal b \<longleftrightarrow> 0 \<le> vx (m_Size b) \<and> 0 \<le> vy (m_Size b)"

lemmas box_ends = GetRight_def GetBottom_def GetEnd_def
lemmas box_sets = SetOrigin_def SetSize_def SetEnd_def SetX_def SetY_def SetWidth_def SetHeight_def

lemma normal_Normalize [simp, intro]: "normal (Normalize b)"
  by (simp add: normal_def Normalize_def Normalize_x_def Normalize_y_def)

lemma Normalize_normal [simp]: "normal b \<Longrightarrow> Normalize b = b"
  by (simp add: normal_def Normalize_def Normalize_x_def Normalize_y_def)

lemma m_init_Normalize [simp]: "m_init (Normalize b) = m_init b"
  by (simp add: Normalize_def Normalize_x_def Normalize_y_def)

lemma box_pts_Normalize [simp]: "box_pts (Normalize b) = box_pts b"
  by (auto simp: box_pts_def Normalize_def Normalize_x_def Normalize_y_def box_ends)

lemma box_pts_normal:
  "normal b \<Longrightarrow> p \<in> box_pts b \<longleftrightarrow>
    vx (m_Pos b) \<le> vx p \<and> vx p \<le> GetRight b \<and> vy (m_Pos b) \<le> vy p \<and> vy p \<le> GetBottom b"
  by (auto simp: box_pts_def normal_def box_ends)

lemma BOX2_Contains_iff: "BOX2_Contains b p \<longleftrightarrow> p \<in> box_pts b"
  by (auto simp: BOX2_Contains_def box_pts_def vsub_def box_ends Let_def)

lemma corner_mem: "m_Pos b \<in> box_pts b" "GetEnd b \<in> box_pts b"
  by (auto simp: box_pts_def box_ends)

lemma normal_subset:
  assumes "normal a" "normal b"
  shows "box_pts a \<subseteq> box_pts b \<longleftrightarrow>
    vx (m_Pos b) \<le> vx (m_Pos a) \<and> GetRight a \<le> GetRight b \<and>
    vy (m_Pos b) \<le> vy (m_Pos a) \<and> GetBottom a \<le> GetBottom b"
proof
  assume "box_pts a \<subseteq> box_pts b"
  then have "m_Pos a \<in> box_pts b" "GetEnd a \<in> box_pts b" using corner_mem by blast+
  with assms show "vx (m_Pos b) \<le> vx (m_Pos a) \<and> GetRight a \<le> GetRight b \<and>
    vy (m_Pos b) \<le> vy (m_Pos a) \<and> GetBottom a \<le> GetBottom b"
    by (simp add: box_pts_normal) (simp add: box_ends)
qed (use assms in \<open>auto simp: box_pts_normal\<close>)

lemma box_pts_inj:
  assumes "normal a" "normal b" "box_pts a = box_pts b"
  shows "m_Pos a = m_Pos b \<and> m_Size a = m_Size b"
  using normal_subset [OF assms(1,2)] normal_subset [OF assms(2,1)] assms(3)
  by (auto simp: VECTOR2I_eq_iff box_ends)

lemma BOX2_eq_iff: "BOX2_eq a b \<longleftrightarrow> box_pts a = box_pts b"
proof
  assume "BOX2_eq a b"
  then have "m_Pos (Normalize a) = m_Pos (Normalize b)" "m_Size (Normalize a) = m_Size (Normalize b)"
    by (simp_all add: BOX2_eq_def Let_def)
  then have "box_pts (Normalize a) = box_pts (Normalize b)" by (simp add: box_pts_def box_ends)
  then show "box_pts a = box_pts b" by simp
next
  assume "box_pts a = box_pts b"
  then show "BOX2_eq a b"
    using box_pts_inj [of "Normalize a" "Normalize b"] by (simp add: BOX2_eq_def Let_def)
qed

lemma min_max_trans:
  "lo \<le> p \<Longrightarrow> lo \<le> r \<Longrightarrow> min p r \<le> x \<Longrightarrow> lo \<le> (x::int)"
  "p \<le> hi \<Longrightarrow> r \<le> hi \<Longrightarrow> x \<le> max p r \<Longrightarrow> x \<le> (hi::int)"
  by auto

lemma BOX2_Contains_box_lemma: "BOX2_Contains_box b a \<longleftrightarrow> box_pts a \<subseteq> box_pts b"
proof
  assume "BOX2_Contains_box b a"
  then show "box_pts a \<subseteq> box_pts b"
    unfolding BOX2_Contains_box_def BOX2_Contains_iff box_pts_def
    by (auto simp del: min_le_iff_disj le_max_iff_disj min_less_iff_disj
        simp: GetEnd_def intro: min_max_trans)
qed (use corner_mem in \<open>auto simp: BOX2_Contains_box_def BOX2_Contains_iff\<close>)

lemma BOX2_Intersects_lemma: "BOX2_Intersects a b \<longleftrightarrow> box_pts a \<inter> box_pts b \<noteq> {}"
proof -
  define me rect where d: "me = Normalize a" "rect = Normalize b"
  let ?l = "max (vx (m_Pos me)) (vx (m_Pos rect))" and ?t = "max (vy (m_Pos me)) (vy (m_Pos rect))"
  have n: "normal me" "normal rect" by (auto simp: d)
  have I: "BOX2_Intersects a b \<longleftrightarrow>
      ?l \<le> min (GetRight me) (GetRight rect) \<and> ?t \<le> min (GetBottom me) (GetBottom rect)"
    by (simp add: BOX2_Intersects_def Let_def box_ends flip: d)
  have "box_pts me \<inter> box_pts rect \<noteq> {} \<longleftrightarrow> BOX2_Intersects a b"
  proof
    assume "BOX2_Intersects a b"
    then have "Vec ?l ?t \<in> box_pts me \<inter> box_pts rect"
      using n unfolding I by (simp add: box_pts_normal)
    then show "box_pts me \<inter> box_pts rect \<noteq> {}" by blast
  qed (use n in \<open>auto simp: I box_pts_normal\<close>)
  then show ?thesis by (simp add: d)
qed

lemma BOX2_Intersects_sym: "BOX2_Intersects a b = BOX2_Intersects b a"
  by (simp add: BOX2_Intersects_lemma Int_commute)

subsection \<open>Merging\<close>

lemma SetEnd_simps [simp]:
  "m_Pos (SetEnd b e) = m_Pos b" "GetRight (SetEnd b e) = vx e" "GetBottom (SetEnd b e) = vy e"
  "GetEnd (SetEnd b e) = e" "m_init (SetEnd b e)"
  by (simp_all add: box_sets box_ends vsub_def)

definition hull2 :: "BOX2 \<Rightarrow> BOX2 \<Rightarrow> BOX2 \<Rightarrow> bool" where
  "hull2 a b h \<longleftrightarrow> m_init h \<and> box_pts a \<union> box_pts b \<subseteq> box_pts h \<and>
    (\<forall>c. box_pts a \<union> box_pts b \<subseteq> box_pts c \<longrightarrow> box_pts h \<subseteq> box_pts c)"

lemma Merge_box_normal:
  assumes "m_init a" "n = Normalize a" "r = Normalize b" "h = Merge_box a b"
  shows "m_Pos h = Vec (min (vx (m_Pos n)) (vx (m_Pos r))) (min (vy (m_Pos n)) (vy (m_Pos r)))"
    and "GetRight h = max (GetRight n) (GetRight r)" "GetBottom h = max (GetBottom n) (GetBottom r)"
    and "m_init h"
  using assms by (simp_all add: Merge_box_def Let_def GetEnd_def)

lemma normal_ends: "normal b \<longleftrightarrow> vx (m_Pos b) \<le> GetRight b \<and> vy (m_Pos b) \<le> GetBottom b"
  by (simp add: normal_def box_ends)

lemma Merge_box_lemma:
  assumes "m_init a"
  shows "hull2 a b (Merge_box a b)"
proof -
  define h n r where d: "h = Merge_box a b" "n = Normalize a" "r = Normalize b"
  note M = Merge_box_normal [OF assms d(2,3,1)]
  have nrm: "normal n" "normal r" by (simp_all add: d)
  have nh: "normal h" using nrm M by (auto simp: normal_ends)
  have sub: "box_pts n \<union> box_pts r \<subseteq> box_pts c \<longleftrightarrow> box_pts h \<subseteq> box_pts c" for c
    using normal_subset [OF nrm(1), of "Normalize c"] normal_subset [OF nrm(2), of "Normalize c"]
      normal_subset [OF nh, of "Normalize c"] M by auto
  have "hull2 n r h" using sub M(4) by (auto simp: hull2_def)
  then show ?thesis by (simp add: hull2_def d)
qed

lemma Merge_pt_as_box:
  "m_init a \<Longrightarrow> Merge_pt a p = Merge_box a \<lparr>m_Pos = p, m_Size = Vec 0 0, m_init = True\<rparr>"
  by (simp add: Merge_pt_def Merge_box_def Let_def box_ends Normalize_def Normalize_x_def Normalize_y_def)

lemma box_pts_point [simp]: "box_pts \<lparr>m_Pos = p, m_Size = Vec 0 0, m_init = i\<rparr> = {p}"
  by (auto simp: box_pts_def box_ends VECTOR2I_eq_iff)

subsection \<open>A line through a box\<close>

text \<open>The parameter at which a ray from \<open>r\<close> in direction \<open>e\<close> leaves \<open>[l, h]\<close>; 2 if it never does.\<close>

definition exit_param :: "real \<Rightarrow> real \<Rightarrow> real \<Rightarrow> real \<Rightarrow> real" where
  "exit_param l h r e = (if e > 0 then (h - r) / e else if e < 0 then (l - r) / e else 2)"

lemma exit_param:
  assumes "l \<le> r" "r \<le> h"
  shows "0 \<le> exit_param l h r e"
    and "0 \<le> t \<Longrightarrow> t \<le> 1 \<Longrightarrow> t \<le> exit_param l h r e \<Longrightarrow> l \<le> r + t * e \<and> r + t * e \<le> h"
    and "\<not> (l \<le> r + e \<and> r + e \<le> h) \<Longrightarrow> exit_param l h r e < 1"
    and "exit_param l h r e \<le> 1 \<Longrightarrow>
      e > 0 \<and> r + exit_param l h r e * e = h \<or> e < 0 \<and> r + exit_param l h r e * e = l"
proof -
  show "0 \<le> exit_param l h r e"
    using assms by (auto simp: exit_param_def divide_le_0_iff zero_le_divide_iff)
  show "exit_param l h r e < 1" if "\<not> (l \<le> r + e \<and> r + e \<le> h)"
    using assms that by (auto simp: exit_param_def divide_less_eq)
  show "e > 0 \<and> r + exit_param l h r e * e = h \<or> e < 0 \<and> r + exit_param l h r e * e = l"
    if "exit_param l h r e \<le> 1"
    using assms that by (auto simp: exit_param_def split: if_splits)
  show "l \<le> r + t * e \<and> r + t * e \<le> h" if t: "0 \<le> t" "t \<le> 1" "t \<le> exit_param l h r e"
  proof -
    consider "e > 0" | "e < 0" | "e = 0" by linarith
    then show ?thesis
    proof cases
      case 1
      then have "t * e \<le> h - r" "0 \<le> t * e" using t by (simp_all add: exit_param_def pos_le_divide_eq)
      then show ?thesis using assms by simp
    next
      case 2
      then have "l - r \<le> t * e" "t * e \<le> 0"
        using t by (simp_all add: exit_param_def neg_le_divide_eq mult_nonneg_nonpos)
      then show ?thesis using assms by simp
    qed (use assms in simp)
  qed
qed

lemma ray_leaves_box:
  fixes rx ry ex ey :: real
  assumes "xl \<le> rx" "rx \<le> xh" "yl \<le> ry" "ry \<le> yh"
    and "\<not> (xl \<le> rx + ex \<and> rx + ex \<le> xh \<and> yl \<le> ry + ey \<and> ry + ey \<le> yh)"
  shows "\<exists>t. 0 \<le> t \<and> t \<le> 1 \<and> xl \<le> rx + t * ex \<and> rx + t * ex \<le> xh \<and> yl \<le> ry + t * ey \<and> ry + t * ey \<le> yh \<and>
    (ex > 0 \<and> rx + t * ex = xh \<or> ex < 0 \<and> rx + t * ex = xl \<or>
     ey > 0 \<and> ry + t * ey = yh \<or> ey < 0 \<and> ry + t * ey = yl)"
proof -
  note X = exit_param [OF assms(1,2), where e = ex] and Y = exit_param [OF assms(3,4), where e = ey]
  define tx ty where t: "tx = exit_param xl xh rx ex" "ty = exit_param yl yh ry ey"
  have lt: "tx < 1 \<or> ty < 1" using assms(5) X(3) Y(3) unfolding t by blast
  have pos: "0 \<le> tx" "0 \<le> ty" using X(1) Y(1) unfolding t by auto
  show ?thesis
  proof (cases "tx \<le> ty")
    case True
    with lt have "tx \<le> 1" by linarith
    then show ?thesis
      using pos True X(2) [of tx] X(4) Y(2) [of tx] unfolding t by (intro exI [of _ "exit_param xl xh rx ex"]) auto
  next
    case False
    with lt have "ty \<le> 1" by linarith
    then show ?thesis
      using pos False Y(2) [of ty] Y(4) X(2) [of ty] unfolding t by (intro exI [of _ "exit_param yl yh ry ey"]) auto
  qed
qed

definition in_rect :: "real \<Rightarrow> real \<Rightarrow> real \<Rightarrow> real \<Rightarrow> real \<times> real \<Rightarrow> bool" where
  "in_rect xl xh yl yh r \<longleftrightarrow> xl \<le> fst r \<and> fst r \<le> xh \<and> yl \<le> snd r \<and> snd r \<le> yh"

text \<open>
  A chord of a rectangle with both ends outside meets the horizontal sides or the vertical side
  \<open>xs\<close>, whichever of the two it is, and is not parallel to the side it meets.
\<close>

lemma chord_meets_sides:
  fixes px py dx dy :: real
  assumes u: "0 \<le> u" "u \<le> 1" "in_rect xl xh yl yh (px + u * dx, py + u * dy)"
    and out: "\<not> in_rect xl xh yl yh (px, py)" "\<not> in_rect xl xh yl yh (px + dx, py + dy)"
    and xs: "xs = xl \<or> xs = xh"
  shows "\<exists>v. 0 \<le> v \<and> v \<le> 1 \<and> in_rect xl xh yl yh (px + v * dx, py + v * dy) \<and>
    (dy \<noteq> 0 \<and> (py + v * dy = yl \<or> py + v * dy = yh) \<or> dx \<noteq> 0 \<and> px + v * dx = xs)"
proof -
  have *: ?thesis
    if k: "k = 1 - u \<or> k = - u" and sgn: "xs = xh \<and> 0 \<le> k * dx \<or> xs = xl \<and> k * dx \<le> 0" for k
  proof -
    have "\<not> in_rect xl xh yl yh (px + u * dx + k * dx, py + u * dy + k * dy)"
    proof -
      have "px + u * dx + k * dx = px + (u + k) * dx" "py + u * dy + k * dy = py + (u + k) * dy"
        by (simp_all add: algebra_simps)
      moreover have "u + k = 1 \<or> u + k = 0" using k by auto
      ultimately show ?thesis using out by (metis mult_1 mult_zero_left add_0_right)
    qed
    then obtain t where t: "0 \<le> t" "t \<le> 1"
        "in_rect xl xh yl yh (px + u * dx + t * (k * dx), py + u * dy + t * (k * dy))"
        "k * dx > 0 \<and> px + u * dx + t * (k * dx) = xh \<or> k * dx < 0 \<and> px + u * dx + t * (k * dx) = xl \<or>
         k * dy > 0 \<and> py + u * dy + t * (k * dy) = yh \<or> k * dy < 0 \<and> py + u * dy + t * (k * dy) = yl"
      using ray_leaves_box [of xl "px + u * dx" xh yl "py + u * dy" yh "k * dx" "k * dy"] u
      unfolding in_rect_def by auto
    have eq: "px + u * dx + t * (k * dx) = px + (u + t * k) * dx"
      "py + u * dy + t * (k * dy) = py + (u + t * k) * dy" by (simp_all add: algebra_simps)
    have nz: "k * dx > 0 \<Longrightarrow> dx \<noteq> 0" "k * dx < 0 \<Longrightarrow> dx \<noteq> 0" "k * dy > 0 \<Longrightarrow> dy \<noteq> 0" "k * dy < 0 \<Longrightarrow> dy \<noteq> 0"
      by auto
    have tu: "0 \<le> t * u" "t * u \<le> u" "0 \<le> t * (1 - u)" "t * (1 - u) \<le> 1 - u"
      using t(1,2) u(1,2) by (auto intro: mult_left_le_one_le)
    have "0 \<le> u + t * k \<and> u + t * k \<le> 1"
      using k tu u by auto
    then show ?thesis
      using t(3,4) sgn nz unfolding eq by (intro exI [of _ "u + t * k"]) auto
  qed
  have "(1 - u) * dx \<ge> 0 \<or> (1 - u) * dx \<le> 0" by linarith
  consider "xs = xh" "dx \<ge> 0" | "xs = xh" "dx \<le> 0" | "xs = xl" "dx \<ge> 0" | "xs = xl" "dx \<le> 0"
    using xs by linarith
  then show ?thesis
  proof cases
    case 1 then show ?thesis using u by (intro * [of "1 - u"]) auto
  next
    case 2 then show ?thesis using u by (intro * [of "- u"]) (auto simp: mult_nonneg_nonpos)
  next
    case 3 then show ?thesis using u by (intro * [of "- u"]) (auto)
  next
    case 4 then show ?thesis using u by (intro * [of "1 - u"]) (auto simp: mult_nonneg_nonpos)
  qed
qed

text \<open>Sides parallel to the axes as sets of real points.\<close>

lemma between_param:
  fixes a b x :: real
  shows "min a b \<le> x \<and> x \<le> max a b \<longleftrightarrow> (\<exists>u. 0 \<le> u \<and> u \<le> 1 \<and> x = a + u * (b - a))"
proof
  assume l: "min a b \<le> x \<and> x \<le> max a b"
  show "\<exists>u. 0 \<le> u \<and> u \<le> 1 \<and> x = a + u * (b - a)"
  proof (cases "a = b")
    case True with l show ?thesis by (intro exI [of _ 0]) auto
  next
    case False with l show ?thesis
      by (intro exI [of _ "(x - a) / (b - a)"])
         (cases "a < b", auto simp: divide_le_eq zero_le_divide_iff le_divide_eq)
  qed
next
  assume "\<exists>u. 0 \<le> u \<and> u \<le> 1 \<and> x = a + u * (b - a)"
  then obtain u where u: "0 \<le> u" "u \<le> 1" "x = a + u * (b - a)" by blast
  show "min a b \<le> x \<and> x \<le> max a b"
  proof (cases "a \<le> b")
    case True
    then have "0 \<le> u * (b - a)" "u * (b - a) \<le> b - a" using u by (auto intro: mult_left_le_one_le)
    with u True show ?thesis by auto
  next
    case False
    then have "0 \<le> u * (a - b)" "u * (a - b) \<le> a - b" using u by (auto intro: mult_left_le_one_le)
    moreover have "x = a - u * (a - b)" using u(3) by (simp add: algebra_simps)
    moreover have "min a b = b" "max a b = a" using False by auto
    ultimately show ?thesis by linarith
  qed
qed

lemma horizontal_side:
  "r \<in> seg_points (Seg (Vec a c) (Vec b c)) \<longleftrightarrow>
    snd r = of_int c \<and> of_int (min a b) \<le> fst r \<and> fst r \<le> of_int (max a b)"
  using between_param [of "of_int a" "of_int b" "fst r"]
  by (cases r) (auto simp: seg_points_def seg_at_def image_iff of_int_min of_int_max)

lemma vertical_side:
  "r \<in> seg_points (Seg (Vec c a) (Vec c b)) \<longleftrightarrow>
    fst r = of_int c \<and> of_int (min a b) \<le> snd r \<and> snd r \<le> of_int (max a b)"
  using between_param [of "of_int a" "of_int b" "snd r"]
  by (cases r) (auto simp: seg_points_def seg_at_def image_iff of_int_min of_int_max)

lemma box_real_rect:
  "r \<in> box_real b \<longleftrightarrow>
    in_rect (of_int (min (vx (m_Pos b)) (GetRight b))) (of_int (max (vx (m_Pos b)) (GetRight b)))
            (of_int (min (vy (m_Pos b)) (GetBottom b))) (of_int (max (vy (m_Pos b)) (GetBottom b))) r"
  by (cases r) (auto simp: box_real_def in_rect_def)

lemma BOX2_Contains_real: "BOX2_Contains b p \<longleftrightarrow> real_pt p \<in> box_real b"
  by (simp add: BOX2_Contains_iff box_pts_def box_real_rect in_rect_def real_pt_def)

lemma crosses_horizontal:
  assumes "a \<noteq> b"
  shows "SegmentIntersectsSegment p q (Vec a c) (Vec b c) \<longleftrightarrow>
    vy p \<noteq> vy q \<and> (\<exists>r \<in> seg_points (Seg p q). snd r = of_int c \<and> of_int (min a b) \<le> fst r \<and> fst r \<le> of_int (max a b))"
proof -
  have "seg_d (Seg p q) (Seg (Vec a c) (Vec b c)) \<noteq> 0 \<longleftrightarrow> vy p \<noteq> vy q"
    using assms by (auto simp: seg_d_def vec_defs)
  then show ?thesis
    unfolding SegmentIntersectsSegment_lemma Intersects_points_lemma by (blast intro: horizontal_side [THEN iffD2] dest: horizontal_side [THEN iffD1])
qed

lemma crosses_vertical:
  assumes "a \<noteq> b"
  shows "SegmentIntersectsSegment p q (Vec c a) (Vec c b) \<longleftrightarrow>
    vx p \<noteq> vx q \<and> (\<exists>r \<in> seg_points (Seg p q). fst r = of_int c \<and> of_int (min a b) \<le> snd r \<and> snd r \<le> of_int (max a b))"
proof -
  have "seg_d (Seg p q) (Seg (Vec c a) (Vec c b)) \<noteq> 0 \<longleftrightarrow> vx p \<noteq> vx q"
    using assms by (auto simp: seg_d_def vec_defs)
  then show ?thesis
    unfolding SegmentIntersectsSegment_lemma Intersects_points_lemma by (blast intro: vertical_side [THEN iffD2] dest: vertical_side [THEN iffD1])
qed

lemma BOX2_Intersects_line_unfold:
  "BOX2_Intersects_line b p q \<longleftrightarrow> BOX2_Contains b p \<or> BOX2_Contains b q \<or>
    SegmentIntersectsSegment p q (Vec (vx (m_Pos b)) (vy (m_Pos b))) (Vec (GetRight b) (vy (m_Pos b))) \<or>
    SegmentIntersectsSegment p q (Vec (GetRight b) (vy (m_Pos b))) (Vec (GetRight b) (GetBottom b)) \<or>
    SegmentIntersectsSegment p q (Vec (GetRight b) (GetBottom b)) (Vec (vx (m_Pos b)) (GetBottom b))"
proof -
  have "m_Pos b = Vec (vx (m_Pos b)) (vy (m_Pos b))" by (simp add: VECTOR2I_eq_iff)
  then show ?thesis unfolding BOX2_Intersects_line_def Let_def GetEnd_def by metis
qed

lemma seg_ends: "real_pt p \<in> seg_points (Seg p q)" "real_pt q \<in> seg_points (Seg p q)"
proof -
  have "seg_at (Seg p q) 0 = real_pt p" "seg_at (Seg p q) 1 = real_pt q"
    by (simp_all add: seg_at_def real_pt_def)
  then show "real_pt p \<in> seg_points (Seg p q)" "real_pt q \<in> seg_points (Seg p q)"
    unfolding seg_points_def by (metis atLeastAtMost_iff imageI order_refl zero_le_one)+
qed

lemma BOX2_Intersects_line_lemma:
  assumes "vx (m_Size b) \<noteq> 0" "vy (m_Size b) \<noteq> 0"
  shows "BOX2_Intersects_line b p q \<longleftrightarrow> seg_points (Seg p q) \<inter> box_real b \<noteq> {}"
proof -
  let ?l = "vx (m_Pos b)" and ?t = "vy (m_Pos b)" and ?r = "GetRight b" and ?b = "GetBottom b"
  have ne: "?l \<noteq> ?r" "?t \<noteq> ?b" "?r \<noteq> ?l" using assms by (auto simp: box_ends)
  note sides = crosses_horizontal [OF ne(1)] crosses_horizontal [OF ne(3)] crosses_vertical [OF ne(2)]
  have R: "s \<in> box_real b \<longleftrightarrow> of_int (min ?l ?r) \<le> fst s \<and> fst s \<le> of_int (max ?l ?r) \<and>
      of_int (min ?t ?b) \<le> snd s \<and> snd s \<le> of_int (max ?t ?b)" for s
    by (simp add: box_real_rect in_rect_def)
  have C: "(c::int) = min a d \<or> c = max a d \<Longrightarrow>
      of_int (min a d) \<le> (of_int c :: real) \<and> (of_int c :: real) \<le> of_int (max a d)" for a c d
    by auto
  show ?thesis
  proof
    assume "BOX2_Intersects_line b p q"
    then consider "real_pt p \<in> box_real b" | "real_pt q \<in> box_real b"
      | s where "s \<in> seg_points (Seg p q)" "s \<in> box_real b"
      unfolding BOX2_Intersects_line_unfold BOX2_Contains_real sides
      using C [of ?t ?t ?b] C [of ?b ?t ?b] C [of ?r ?l ?r]
      by (elim disjE conjE bexE) (auto simp: R min.commute max.commute)
    then show "seg_points (Seg p q) \<inter> box_real b \<noteq> {}"
      using seg_ends by cases blast+
  next
    assume "seg_points (Seg p q) \<inter> box_real b \<noteq> {}"
    then obtain u where u: "0 \<le> u" "u \<le> 1" "seg_at (Seg p q) u \<in> box_real b"
      by (auto simp: seg_points_def)
    show "BOX2_Intersects_line b p q"
    proof (cases "real_pt p \<in> box_real b \<or> real_pt q \<in> box_real b")
      case True
      then show ?thesis by (auto simp: BOX2_Intersects_line_unfold BOX2_Contains_real)
    next
      case False
      let ?dx = "real_of_int (vx q - vx p)" and ?dy = "real_of_int (vy q - vy p)"
      have at: "seg_at (Seg p q) v = (of_int (vx p) + v * ?dx, of_int (vy p) + v * ?dy)" for v
        by (simp add: seg_at_def)
      have ends: "real_pt p = (of_int (vx p), of_int (vy p))"
        "real_pt q = (of_int (vx p) + ?dx, of_int (vy p) + ?dy)" by (simp_all add: real_pt_def)
      have xs: "real_of_int ?r = of_int (min ?l ?r) \<or> real_of_int ?r = of_int (max ?l ?r)"
        by (auto simp: min_def max_def)
      obtain v where v: "0 \<le> v" "v \<le> 1" "seg_at (Seg p q) v \<in> box_real b"
          "?dy \<noteq> 0 \<and> (snd (seg_at (Seg p q) v) = of_int (min ?t ?b) \<or> snd (seg_at (Seg p q) v) = of_int (max ?t ?b)) \<or>
           ?dx \<noteq> 0 \<and> fst (seg_at (Seg p q) v) = of_int ?r"
        using chord_meets_sides [OF u(1,2) u(3) [unfolded box_real_rect at]
            False [unfolded box_real_rect ends de_Morgan_disj, THEN conjunct1]
            False [unfolded box_real_rect ends de_Morgan_disj, THEN conjunct2] xs]
        unfolding box_real_rect at fst_conv snd_conv by blast
      have mem: "seg_at (Seg p q) v \<in> seg_points (Seg p q)" using v by (simp add: seg_points_def)
      have "vy p \<noteq> vy q \<and> (snd (seg_at (Seg p q) v) = of_int ?t \<or> snd (seg_at (Seg p q) v) = of_int ?b) \<or>
          vx p \<noteq> vx q \<and> fst (seg_at (Seg p q) v) = of_int ?r"
        using v(4) by (cases "?t \<le> ?b") auto
      then show ?thesis
        using v(3) mem unfolding BOX2_Intersects_line_unfold sides R
        by (metis min.commute max.commute)
    qed
  qed
qed

subsection \<open>Bounding boxes of lists\<close>

interpretation merge_boxes: hull_accumulator box_pts Merge_box box_pts m_init
proof
  fix s x c :: BOX2
  assume "m_init s"
  note M = Merge_box_lemma [OF this, of x, unfolded hull2_def]
  show "m_init (Merge_box s x)" "box_pts s \<union> box_pts x \<subseteq> box_pts (Merge_box s x)" using M by blast+
  show "box_pts s \<union> box_pts x \<subseteq> box_pts c \<Longrightarrow> box_pts (Merge_box s x) \<subseteq> box_pts c" using M by blast
qed

interpretation merge_points: hull_accumulator box_pts Merge_pt "\<lambda>p. {p}" m_init
proof
  fix s c :: BOX2 and x
  assume "m_init s"
  note M = merge_boxes.upper [OF this] merge_boxes.least [OF this] merge_boxes.add_ok [OF this]
  show "m_init (Merge_pt s x)" "box_pts s \<union> {x} \<subseteq> box_pts (Merge_pt s x)"
    using M(1) [of "\<lparr>m_Pos = x, m_Size = Vec 0 0, m_init = True\<rparr>"] M(3) \<open>m_init s\<close>
    by (simp_all add: Merge_pt_as_box)
  show "box_pts s \<union> {x} \<subseteq> box_pts c \<Longrightarrow> box_pts (Merge_pt s x) \<subseteq> box_pts c"
    using M(2) [of "\<lparr>m_Pos = x, m_Size = Vec 0 0, m_init = True\<rparr>" c] \<open>m_init s\<close>
    by (simp add: Merge_pt_as_box)
qed

definition least_box :: "BOX2 \<Rightarrow> VECTOR2I set \<Rightarrow> bool" where
  "least_box h S \<longleftrightarrow> m_init h \<and> S \<subseteq> box_pts h \<and> (\<forall>c. S \<subseteq> box_pts c \<longrightarrow> box_pts h \<subseteq> box_pts c)"

lemma Merge_pt_empty: "Merge_pt BOX2_empty p = \<lparr>m_Pos = p, m_Size = Vec 0 0, m_init = True\<rparr>"
  by (simp add: Merge_pt_def BOX2_empty_def)

lemma least_box_fold: "least_box (foldl Merge_pt BOX2_empty (p # ps)) (set (p # ps))"
proof -
  let ?s = "\<lparr>m_Pos = p, m_Size = Vec 0 0, m_init = True\<rparr>"
  show ?thesis
    using merge_points.foldl_subset [of ?s ps] merge_points.foldl_upper [of ?s ps]
      merge_points.foldl_ok [of ?s ps]
    by (auto simp: least_box_def Merge_pt_empty)
qed

lemma minmax_fold:
  assumes "normal b" "m_init b" "m_Pos b = s" "GetEnd b = e"
    and "foldl (\<lambda>(vmin, vmax) p.
               (Vec (min (vx vmin) (vx p)) (min (vy vmin) (vy p)),
                Vec (max (vx vmax) (vx p)) (max (vy vmax) (vy p)))) (s, e) ps = (s', e')"
  shows "m_Pos (foldl Merge_pt b ps) = s' \<and> GetEnd (foldl Merge_pt b ps) = e'"
  using assms
proof (induction ps arbitrary: b s e)
  case (Cons p ps)
  have "normal (Merge_pt b p)"
    using Cons.prems(1,2) by (auto simp: normal_ends Merge_pt_def Let_def GetEnd_def)
  moreover have "m_init (Merge_pt b p)" using Cons.prems(2) by (rule merge_points.add_ok)
  ultimately show ?case
    using Cons.prems by (simp, intro Cons.IH) (auto simp: Merge_pt_def Let_def GetEnd_def)
qed simp

lemma box_of_minmax:
  assumes "foldl (\<lambda>(vmin, vmax) p.
               (Vec (min (vx vmin) (vx p)) (min (vy vmin) (vy p)),
                Vec (max (vx vmax) (vx p)) (max (vy vmax) (vy p)))) (p, p) ps = (s, e)"
  shows "box_pts (SetEnd (SetOrigin b s) e) = box_pts (foldl Merge_pt BOX2_empty (p # ps))"
proof -
  let ?b = "\<lparr>m_Pos = p, m_Size = Vec 0 0, m_init = True\<rparr>"
  have "m_Pos (foldl Merge_pt ?b ps) = s \<and> GetEnd (foldl Merge_pt ?b ps) = e"
    by (rule minmax_fold [OF _ _ _ _ assms]) (simp_all add: normal_def box_ends)
  then show ?thesis
    by (auto simp: Merge_pt_empty box_pts_def box_sets box_ends vsub_def)
qed

lemma least_box_cong: "box_pts a = box_pts b \<Longrightarrow> m_init a \<Longrightarrow> least_box b S \<Longrightarrow> least_box a S"
  by (simp add: least_box_def)

lemma Compute_lemma:
  assumes "ps \<noteq> []"
  shows "least_box (Compute b ps) (set ps)"
proof -
  obtain p qs where ps: "ps = p # qs" using assms by (cases ps) auto
  obtain s e where f: "foldl (\<lambda>(vmin, vmax) p.
               (Vec (min (vx vmin) (vx p)) (min (vy vmin) (vy p)),
                Vec (max (vx vmax) (vx p)) (max (vy vmax) (vy p)))) (p, p) ps = (s, e)"
    by (rule prod.exhaust)
  then have C: "Compute b ps = SetEnd (SetOrigin b s) e"
    by (simp add: Compute_def ps SetEnd_def SetOrigin_def)
  have "set (p # ps) = set ps" by (simp add: ps)
  then have "least_box (foldl Merge_pt BOX2_empty (p # ps)) (set ps)" using least_box_fold by metis
  then show ?thesis
    unfolding C by (rule least_box_cong [OF box_of_minmax [OF f] SetEnd_simps(5)])
qed

lemma GetBoundingBoxRotated_lemma:
  "least_box (GetBoundingBoxRotated rot b)
     (rot ` {m_Pos b, Vec (vx (m_Pos b)) (GetBottom b), GetEnd b, Vec (GetRight b) (vy (m_Pos b))})"
proof -
  let ?c = "[rot (Vec (vx (m_Pos b)) (GetBottom b)), rot (GetEnd b), rot (Vec (GetRight b) (vy (m_Pos b)))]"
  obtain s e where f: "foldl (\<lambda>(vmin, vmax) p.
               (Vec (min (vx vmin) (vx p)) (min (vy vmin) (vy p)),
                Vec (max (vx vmax) (vx p)) (max (vy vmax) (vy p)))) (rot (m_Pos b), rot (m_Pos b)) ?c = (s, e)"
    by (rule prod.exhaust)
  then have "GetBoundingBoxRotated rot b = SetEnd (SetOrigin BOX2_empty s) e"
    by (simp add: GetBoundingBoxRotated_def Let_def GetEnd_def)
  moreover have "set (rot (m_Pos b) # ?c) =
      rot ` {m_Pos b, Vec (vx (m_Pos b)) (GetBottom b), GetEnd b, Vec (GetRight b) (vy (m_Pos b))}"
    by simp
  moreover have "least_box (SetEnd (SetOrigin BOX2_empty s) e) (set (rot (m_Pos b) # ?c))"
    by (rule least_box_cong [OF box_of_minmax [OF f] SetEnd_simps(5) least_box_fold])
  ultimately show ?thesis by metis
qed

subsection \<open>Closest points and distances\<close>

definition closest_in :: "VECTOR2I set \<Rightarrow> VECTOR2I \<Rightarrow> VECTOR2I \<Rightarrow> bool" where
  "closest_in S p q \<longleftrightarrow> q \<in> S \<and>
    (\<forall>r\<in>S. SquaredEuclideanNorm (vsub p q) \<le> SquaredEuclideanNorm (vsub p r))"

definition farthest_in :: "VECTOR2I set \<Rightarrow> VECTOR2I \<Rightarrow> VECTOR2I \<Rightarrow> bool" where
  "farthest_in S p q \<longleftrightarrow> q \<in> S \<and>
    (\<forall>r\<in>S. SquaredEuclideanNorm (vsub p r) \<le> SquaredEuclideanNorm (vsub p q))"

definition gap_of :: "VECTOR2I set \<Rightarrow> VECTOR2I set \<Rightarrow> int \<Rightarrow> bool" where
  "gap_of S T d \<longleftrightarrow> (\<exists>p\<in>S. \<exists>q\<in>T. SquaredEuclideanNorm (vsub p q) = d) \<and>
    (\<forall>p\<in>S. \<forall>q\<in>T. d \<le> SquaredEuclideanNorm (vsub p q))"

lemma square_mono: "\<bar>a\<bar> \<le> \<bar>b\<bar> \<Longrightarrow> a * a \<le> (b::int) * b"
  using abs_le_square_iff [of a b] by (simp add: power2_eq_square)

lemma norm_mono:
  "\<bar>vx a\<bar> \<le> \<bar>vx b\<bar> \<Longrightarrow> \<bar>vy a\<bar> \<le> \<bar>vy b\<bar> \<Longrightarrow> SquaredEuclideanNorm a \<le> SquaredEuclideanNorm b"
  unfolding SquaredEuclideanNorm_def by (intro add_mono square_mono)

lemma clamp_closest:
  "l \<le> h \<Longrightarrow> l \<le> clamp l v h \<and> clamp l v h \<le> h"
  "l \<le> x \<Longrightarrow> x \<le> h \<Longrightarrow> \<bar>v - clamp l v h\<bar> \<le> \<bar>v - x\<bar>"
  by (auto simp: clamp_def min_def max_def)

lemma ClosestPointTo_lemma: "closest_in (box_pts b) p (ClosestPointTo b p)"
proof -
  let ?n = "Normalize b"
  have n: "vx (m_Pos ?n) \<le> GetRight ?n" "vy (m_Pos ?n) \<le> GetBottom ?n"
    using normal_Normalize normal_ends by blast+
  have "closest_in (box_pts ?n) p (ClosestPointTo b p)"
    unfolding closest_in_def ClosestPointTo_def Let_def
    using clamp_closest(1) [OF n(1)] clamp_closest(1) [OF n(2)]
    by (auto simp: box_pts_normal vsub_def simp del: box_pts_Normalize intro!: norm_mono clamp_closest(2))
  then show ?thesis by simp
qed

lemma IntersectsCircle_lemma:
  assumes "m_init b"
  shows "IntersectsCircle b c r \<longleftrightarrow> (\<exists>p\<in>box_pts b. SquaredEuclideanNorm (vsub c p) \<le> r * r)"
  using ClosestPointTo_lemma [of b c] assms
  by (auto simp: IntersectsCircle_def Let_def closest_in_def SquaredEuclideanNorm_def vsub_def
      intro: order_trans)

text \<open>The separation of two intervals, as the box distance computes it.\<close>

definition sep :: "int \<Rightarrow> int \<Rightarrow> int \<Rightarrow> int \<Rightarrow> int" where
  "sep l h l' h' = (if h' < l then h' - l else if l' > h then l' - h else 0)"

lemma sep_least:
  assumes "l \<le> h" "l' \<le> h'"
  shows "\<exists>x x'. l \<le> x \<and> x \<le> h \<and> l' \<le> x' \<and> x' \<le> h' \<and> x' - x = sep l h l' h'"
    and "l \<le> x \<Longrightarrow> x \<le> h \<Longrightarrow> l' \<le> x' \<Longrightarrow> x' \<le> h' \<Longrightarrow> \<bar>sep l h l' h'\<bar> \<le> \<bar>x - x'\<bar>"
proof -
  consider "h' < l" | "l' > h" | "\<not> h' < l" "\<not> l' > h" by linarith
  then show "\<exists>x x'. l \<le> x \<and> x \<le> h \<and> l' \<le> x' \<and> x' \<le> h' \<and> x' - x = sep l h l' h'"
  proof cases
    case 1 with assms show ?thesis by (intro exI [of _ l] exI [of _ h']) (simp add: sep_def)
  next
    case 2 with assms show ?thesis by (intro exI [of _ h] exI [of _ l']) (simp add: sep_def)
  next
    case 3 with assms show ?thesis
      by (intro exI [of _ "max l l'"]) (auto simp: sep_def)
  qed
qed (auto simp: sep_def)

lemma BOX2_SquaredDistance_sep:
  "BOX2_SquaredDistance a b =
    (let u = sep (vx (m_Pos a)) (GetRight a) (vx (m_Pos b)) (GetRight b);
         v = sep (vy (m_Pos a)) (GetBottom a) (vy (m_Pos b)) (GetBottom b) in u * u + v * v)"
  by (simp add: BOX2_SquaredDistance_def sep_def Let_def box_ends algebra_simps)

lemma BOX2_SquaredDistance_lemma:
  assumes "normal a" "normal b"
  shows "gap_of (box_pts a) (box_pts b) (BOX2_SquaredDistance a b)"
proof -
  let ?u = "sep (vx (m_Pos a)) (GetRight a) (vx (m_Pos b)) (GetRight b)"
  let ?v = "sep (vy (m_Pos a)) (GetBottom a) (vy (m_Pos b)) (GetBottom b)"
  have n: "vx (m_Pos a) \<le> GetRight a" "vx (m_Pos b) \<le> GetRight b"
    "vy (m_Pos a) \<le> GetBottom a" "vy (m_Pos b) \<le> GetBottom b"
    using assms normal_ends by auto
  have D: "BOX2_SquaredDistance a b = SquaredEuclideanNorm (Vec ?u ?v)"
    by (simp add: BOX2_SquaredDistance_sep Let_def SquaredEuclideanNorm_def)
  obtain x x' y y' where p: "Vec x y \<in> box_pts a" "Vec x' y' \<in> box_pts b" "x' - x = ?u" "y' - y = ?v"
    using sep_least(1) [OF n(1,2)] sep_least(1) [OF n(3,4)] assms
    by (auto simp: box_pts_normal)
  have "SquaredEuclideanNorm (vsub (Vec x y) (Vec x' y')) = SquaredEuclideanNorm (Vec ?u ?v)"
    unfolding p(3,4) [symmetric] by (simp add: SquaredEuclideanNorm_def vsub_def algebra_simps)
  moreover have "SquaredEuclideanNorm (Vec ?u ?v) \<le> SquaredEuclideanNorm (vsub p q)"
    if "p \<in> box_pts a" "q \<in> box_pts b" for p q
    using that assms by (intro norm_mono) (auto simp: box_pts_normal vsub_def intro!: sep_least(2) n)
  ultimately show ?thesis using p(1,2) unfolding gap_of_def D by blast
qed

lemma far_end:
  fixes l w a x :: int
  assumes "0 \<le> w" "even w" "l \<le> x" "x \<le> l + w"
  shows "\<bar>a - x\<bar> \<le> \<bar>a - (if a < l + w sdiv 2 then l + w else l)\<bar>"
proof -
  have "w sdiv 2 * 2 = w" using assms by (cases "w = 0") (auto simp: signed_divide_int_def)
  then show ?thesis using assms(3,4) by (simp add: abs_if)
qed

lemma FarthestPointTo_lemma:
  assumes "normal b" "even (vx (m_Size b))" "even (vy (m_Size b))"
  shows "farthest_in (box_pts b) p (FarthestPointTo b p)"
proof -
  have "\<bar>vx (vsub p r)\<bar> \<le> \<bar>vx (vsub p (FarthestPointTo b p))\<bar> \<and>
      \<bar>vy (vsub p r)\<bar> \<le> \<bar>vy (vsub p (FarthestPointTo b p))\<bar>" if "r \<in> box_pts b" for r
    using that assms far_end [of "vx (m_Size b)" "vx (m_Pos b)" "vx r" "vx p"]
      far_end [of "vy (m_Size b)" "vy (m_Pos b)" "vy r" "vy p"]
    unfolding FarthestPointTo_def Let_def Normalize_normal [OF assms(1)] GetRight_def GetBottom_def
    by (simp add: box_pts_normal [OF assms(1)] vsub_def Centre_def box_ends normal_def
        split del: if_split)
  moreover have "FarthestPointTo b p \<in> box_pts b"
    using assms(1) normal_ends [of b] by (simp add: FarthestPointTo_def Let_def box_pts_normal)
  ultimately show ?thesis by (auto simp: farthest_in_def intro: norm_mono)
qed

subsection \<open>Inflating and mirroring\<close>

lemma Inflate_grow:
  assumes "normal b" "0 \<le> dx" "0 \<le> dy"
  shows "Inflate b dx dy =
    b\<lparr>m_Pos := Vec (vx (m_Pos b) - dx) (vy (m_Pos b) - dy),
      m_Size := Vec (vx (m_Size b) + 2 * dx) (vy (m_Size b) + 2 * dy)\<rparr>"
  using assms by (simp add: Inflate_def normal_def)

lemma near_interval:
  fixes l h x d :: int
  assumes "l \<le> h" "0 \<le> d"
  shows "l - d \<le> x \<and> x \<le> h + d \<longleftrightarrow> (\<exists>y. l \<le> y \<and> y \<le> h \<and> \<bar>x - y\<bar> \<le> d)"
proof
  assume "l - d \<le> x \<and> x \<le> h + d"
  then show "\<exists>y. l \<le> y \<and> y \<le> h \<and> \<bar>x - y\<bar> \<le> d"
    using assms by (intro exI [of _ "max l (min x h)"]) (auto simp: max_def min_def)
qed auto

lemma Inflate_lemma:
  assumes "normal b" "0 \<le> dx" "0 \<le> dy"
  shows "p \<in> box_pts (Inflate b dx dy) \<longleftrightarrow>
      (\<exists>q\<in>box_pts b. \<bar>vx p - vx q\<bar> \<le> dx \<and> \<bar>vy p - vy q\<bar> \<le> dy)"
proof -
  have n: "normal (Inflate b dx dy)" using assms by (simp add: Inflate_grow normal_def)
  have e: "vx (m_Pos b) \<le> GetRight b" "vy (m_Pos b) \<le> GetBottom b" using assms(1) normal_ends by auto
  have I: "p \<in> box_pts (Inflate b dx dy) \<longleftrightarrow>
      vx (m_Pos b) - dx \<le> vx p \<and> vx p \<le> GetRight b + dx \<and> vy (m_Pos b) - dy \<le> vy p \<and> vy p \<le> GetBottom b + dy"
    unfolding box_pts_normal [OF n] using Inflate_grow [OF assms] by (auto simp: box_ends)
  have "p \<in> box_pts (Inflate b dx dy) \<longleftrightarrow>
      (\<exists>x. vx (m_Pos b) \<le> x \<and> x \<le> GetRight b \<and> \<bar>vx p - x\<bar> \<le> dx) \<and>
      (\<exists>y. vy (m_Pos b) \<le> y \<and> y \<le> GetBottom b \<and> \<bar>vy p - y\<bar> \<le> dy)"
    unfolding I using near_interval [OF e(1) assms(2)] near_interval [OF e(2) assms(3)] by metis
  also have "\<dots> \<longleftrightarrow> (\<exists>q\<in>box_pts b. \<bar>vx p - vx q\<bar> \<le> dx \<and> \<bar>vy p - vy q\<bar> \<le> dy)"
  proof
    assume "(\<exists>x. vx (m_Pos b) \<le> x \<and> x \<le> GetRight b \<and> \<bar>vx p - x\<bar> \<le> dx) \<and>
      (\<exists>y. vy (m_Pos b) \<le> y \<and> y \<le> GetBottom b \<and> \<bar>vy p - y\<bar> \<le> dy)"
    then obtain x y where "Vec x y \<in> box_pts b" "\<bar>vx p - x\<bar> \<le> dx" "\<bar>vy p - y\<bar> \<le> dy"
      using assms(1) by (auto simp: box_pts_normal)
    then show "\<exists>q\<in>box_pts b. \<bar>vx p - vx q\<bar> \<le> dx \<and> \<bar>vy p - vy q\<bar> \<le> dy"
      by (intro bexI [of _ "Vec x y"]) simp_all
  qed (use assms(1) in \<open>auto simp: box_pts_normal\<close>)
  finally show ?thesis .
qed

lemma Inflate_deflate_lemma:
  "normal b \<Longrightarrow> 0 \<le> dx \<Longrightarrow> 0 \<le> dy \<Longrightarrow> Inflate (Inflate b dx dy) (- dx) (- dy) = b"
  by (simp add: Inflate_grow) (simp add: Inflate_def normal_def)

interpretation revert_y: involution_on RevertYAxis normal
proof
  fix b :: BOX2
  show "normal (RevertYAxis b)" by (simp add: RevertYAxis_def)
  assume "normal b"
  then show "RevertYAxis (RevertYAxis b) = b"
    by (simp add: RevertYAxis_def normal_def Normalize_def Normalize_x_def Normalize_y_def)
qed

lemma RevertYAxis_pts: "p \<in> box_pts (RevertYAxis b) \<longleftrightarrow> Vec (vx p) (- vy p) \<in> box_pts b"
proof -
  have "p \<in> box_pts (RevertYAxis b) \<longleftrightarrow>
      p \<in> box_pts (b\<lparr>m_Pos := Vec (vx (m_Pos b)) (- vy (m_Pos b)), m_Size := Vec (vx (m_Size b)) (- vy (m_Size b))\<rparr>)"
    unfolding RevertYAxis_def box_pts_Normalize ..
  also have "\<dots> \<longleftrightarrow> Vec (vx p) (- vy p) \<in> box_pts b"
    by (auto simp: box_pts_def box_ends)
  finally show ?thesis .
qed

subsection \<open>Properties\<close>

text \<open>
  C23: The box/segment test is exact for every box with an interior, normalised or not: it answers
  yes exactly when the real points of the segment meet the real points of the box, although the code
  tests three of the four sides and no side that is parallel to the segment.
\<close>

theorem BOX2_Intersects_line_exact:
  assumes "vx (m_Size b) \<noteq> 0" "vy (m_Size b) \<noteq> 0"
  shows "BOX2_Intersects_line b p q \<longleftrightarrow> seg_points (Seg p q) \<inter> box_real b \<noteq> {}"
  by (rule BOX2_Intersects_line_lemma [OF assms])

theorem BOX2_Intersects_line_exact_witness:
  "BOX2_Intersects_line (BOX2_of (Vec 0 0) (Vec 4 4)) (Vec (-1) 2) (Vec 9 2) \<longleftrightarrow>
    seg_points (Seg (Vec (-1) 2) (Vec 9 2)) \<inter> box_real (BOX2_of (Vec 0 0) (Vec 4 4)) \<noteq> {}"
  by (rule BOX2_Intersects_line_exact)
     (simp_all add: BOX2_of_def Normalize_def Normalize_x_def Normalize_y_def)

text \<open>
  Merging points one by one into an empty box gives the least box that contains them all, in
  whatever order, and \<open>Compute\<close> gives the same box.
\<close>

theorem Merge_least_box:
  assumes "ps \<noteq> []"
  shows "least_box (foldl Merge_pt BOX2_empty ps) (set ps) \<and> least_box (Compute b ps) (set ps) \<and>
    BOX2_eq (Compute b ps) (foldl Merge_pt BOX2_empty ps)"
proof -
  have "least_box (foldl Merge_pt BOX2_empty ps) (set ps)"
    using assms least_box_fold by (cases ps) auto
  with Compute_lemma [OF assms, of b] show ?thesis
    unfolding BOX2_eq_iff by (auto simp: least_box_def)
qed

theorem Merge_least_box_witness:
  "let ps = [Vec 3 1, Vec (-2) 5, Vec 0 0] in
   least_box (foldl Merge_pt BOX2_empty ps) (set ps) \<and> least_box (Compute BOX2_empty ps) (set ps) \<and>
   BOX2_eq (Compute BOX2_empty ps) (foldl Merge_pt BOX2_empty ps)"
  unfolding Let_def by (rule Merge_least_box) simp

text \<open>
  On boxes of any sign of size, containment, intersection and equality are those of the sets of
  points: the code's treatment of negative sizes is the same everywhere.
\<close>

theorem BOX2_predicates:
  "(BOX2_Contains a p \<longleftrightarrow> p \<in> box_pts a) \<and> (BOX2_Contains_box a b \<longleftrightarrow> box_pts b \<subseteq> box_pts a) \<and>
   (BOX2_Intersects a b \<longleftrightarrow> box_pts a \<inter> box_pts b \<noteq> {}) \<and> (BOX2_eq a b \<longleftrightarrow> box_pts a = box_pts b)"
  by (simp add: BOX2_Contains_iff BOX2_Contains_box_lemma BOX2_Intersects_lemma BOX2_eq_iff)

text \<open>
  The squared distance of two normalised boxes is attained by two of their points and is less
  for no other two.
\<close>

theorem BOX2_SquaredDistance_least:
  assumes "normal a" "normal b"
  shows "gap_of (box_pts a) (box_pts b) (BOX2_SquaredDistance a b)"
  by (rule BOX2_SquaredDistance_lemma [OF assms])

theorem BOX2_SquaredDistance_least_witness:
  "let a = BOX2_of (Vec 0 0) (Vec 2 2); b = BOX2_of (Vec 5 6) (Vec 1 1) in
   gap_of (box_pts a) (box_pts b) (BOX2_SquaredDistance a b)"
  unfolding Let_def by (rule BOX2_SquaredDistance_least) (simp_all add: BOX2_of_def)

text \<open>
  \<open>ClosestPointTo\<close> is a point of the box at least distance from the query, so that the circle
  test of an initialised box answers whether some point of the box lies in the disc.
\<close>

theorem ClosestPointTo_closest:
  "closest_in (box_pts b) p (ClosestPointTo b p) \<and>
   IntersectsCircle b p r = (m_init b \<and> (\<exists>q. q \<in> box_pts b \<and> SquaredEuclideanNorm (vsub p q) \<le> r * r))"
  using ClosestPointTo_lemma IntersectsCircle_lemma [of b p r]
  by (cases "m_init b") (auto simp: IntersectsCircle_def)

subsection \<open>Where the code differs from its comments\<close>

text \<open>The squared distance to a point right of and below the box is 0.\<close>

lemma SquaredDistance_pt_right_below:
  "BOX2_SquaredDistance_pt (BOX2_of (Vec 0 0) (Vec 10 10)) (Vec 500 500) = 0"
  by (simp add: BOX2_SquaredDistance_pt_def BOX2_of_def Normalize_def Normalize_x_def Normalize_y_def)

text \<open>Deflating a box of negative width by more than it has moves it outside of where it was.\<close>

lemma Inflate_negative_leaves:
  "let b = \<lparr>m_Pos = Vec 10 0, m_Size = Vec (-4) 0, m_init = True\<rparr> in
   box_pts (Inflate b (-3) 0) = {Vec 12 0} \<and> Vec 12 0 \<notin> box_pts b"
  by (simp add: Let_def Inflate_def signed_divide_int_def) (simp add: box_pts_def box_ends)

text \<open>The farthest corner of a box of odd width is missed when the query is just left of its middle.\<close>

lemma FarthestPointTo_odd:
  "let b = BOX2_of (Vec 0 0) (Vec 3 0) in
   FarthestPointTo b (Vec 1 0) = Vec 0 0 \<and> \<not> farthest_in (box_pts b) (Vec 1 0) (Vec 0 0)"
proof -
  let ?b = "BOX2_of (Vec 0 0) (Vec 3 0)"
  have b: "m_Pos ?b = Vec 0 0" "m_Size ?b = Vec 3 0"
    by (simp_all add: BOX2_of_def Normalize_def Normalize_x_def Normalize_y_def)
  have n: "normal ?b" by (simp add: BOX2_of_def)
  have "Vec 3 0 \<in> box_pts ?b" by (simp add: box_pts_normal [OF n] box_ends b)
  then have "\<not> farthest_in (box_pts ?b) (Vec 1 0) (Vec 0 0)"
    by (auto simp: farthest_in_def SquaredEuclideanNorm_def vsub_def intro!: bexI [of _ "Vec 3 0"])
  moreover have "FarthestPointTo ?b (Vec 1 0) = Vec 0 0"
    by (simp add: FarthestPointTo_def Normalize_normal [OF n] b Centre_def box_ends signed_divide_int_def)
  ultimately show ?thesis by (simp add: Let_def)
qed

text \<open>The rectangle tested for a quarter turn is twice as wide and twice as high as the turned one.\<close>

lemma rotRect_perpendicular_double:
  "m_Size (rotRect_perpendicular (BOX2_of (Vec 0 0) (Vec 10 20))) = Vec 40 20"
  by (simp add: rotRect_perpendicular_def Inflate_def SetOrigin_def BOX2_empty_def BOX2_of_def
      Normalize_def Normalize_x_def Normalize_y_def)

text \<open>A box without area is crossed by a segment through it and the test says no.\<close>

lemma Intersects_line_flat:
  "let b = BOX2_of (Vec 0 0) (Vec 0 4) in
   \<not> BOX2_Intersects_line b (Vec 0 (-1)) (Vec 0 9) \<and> real_pt (Vec 0 2) \<in> box_real b"
  by (simp add: Let_def BOX2_Intersects_line_def SegmentIntersectsSegment_def BOX2_Contains_def BOX2_of_def
      Normalize_def Normalize_x_def Normalize_y_def vsub_def box_ends box_real_def real_pt_def)

end
