(* ===== verification/Line_Chain.thy ===== *)
theory Line_Chain
  imports Boxes
begin

text \<open>
  Chains of straight and arc segments, \<open>SHAPE_LINE_CHAIN\<close> of \<open>libs/kimath\<close>
  (\<open>geometry/shape_line_chain.h\<close>, \<open>geometry/shape_line_chain.cpp\<close>): the state and every operation
  that edits it. The state is the list of points, the list of pairs of arc numbers of the points
  (-1 for none; the second number only at a point two arcs share), the list of arcs, the closed
  flag, the width and the cached bounding box.

  Indices are \<open>int\<close>s, counted from the end when negative, as in the code; a negative index passed to
  a \<open>size_t\<close> parameter is larger than every size there and so out of range. An operation that would
  read or erase outside of its vectors returns \<open>None\<close>. \<open>assert\<close> and \<open>wxASSERT\<close> do nothing in a
  release build and are not modelled; \<open>wxCHECK\<close> returns, and is.

  Arcs are start, middle, end and width. What the code computes for them in floating point is a
  record of functions \<open>FLOATS\<close>: the middle of an arc rebuilt about the same centre with new ends
  (\<open>SHAPE_ARC::ConstructFromStartEndCenter\<close>), the polyline of an arc
  (\<open>SHAPE_ARC::ConvertToPolyline\<close>), the length of a vector (\<open>EuclideanNorm\<close>) and the first guess of
  \<open>isqrt\<close>. Nothing proved here depends on them.
\<close>

subsection \<open>State\<close>

record SHAPE_ARC =
  arc_start :: VECTOR2I
  arc_mid :: VECTOR2I
  arc_end :: VECTOR2I
  arc_width :: int

record CHAIN =
  m_points :: "VECTOR2I list"
  m_shapes :: "(int \<times> int) list"
  m_arcs :: "SHAPE_ARC list"
  m_closed :: bool
  m_width :: int
  m_bbox :: BOX2

record FLOATS =
  fl_guess :: "int \<Rightarrow> int"
  fl_mid :: "VECTOR2I \<Rightarrow> VECTOR2I \<Rightarrow> SHAPE_ARC \<Rightarrow> VECTOR2I"
  fl_poly :: "SHAPE_ARC \<Rightarrow> VECTOR2I list"
  fl_norm :: "VECTOR2I \<Rightarrow> int"

abbreviation SHAPE_IS_PT :: int where "SHAPE_IS_PT \<equiv> - 1"
abbreviation SHAPES_ARE_PT :: "int \<times> int" where "SHAPES_ARE_PT \<equiv> (- 1, - 1)"

definition run_on_pair :: "('a \<Rightarrow> 'a) \<Rightarrow> 'a \<times> 'a \<Rightarrow> 'a \<times> 'a" where
  "run_on_pair f p = (f (fst p), f (snd p))"

definition chain_empty :: CHAIN where
  "chain_empty = \<lparr>m_points = [], m_shapes = [], m_arcs = [], m_closed = False, m_width = 0,
                  m_bbox = BOX2_empty\<rparr>"

definition chain_of_points :: "VECTOR2I list \<Rightarrow> bool \<Rightarrow> CHAIN" where
  "chain_of_points aV aClosed =
    chain_empty\<lparr>m_points := aV, m_shapes := replicate (length aV) SHAPES_ARE_PT, m_closed := aClosed\<rparr>"

definition chain_of_arc :: "FLOATS \<Rightarrow> SHAPE_ARC \<Rightarrow> bool \<Rightarrow> CHAIN" where
  "chain_of_arc F aArc aClosed =
    (let pts = fl_poly F aArc in
     chain_empty\<lparr>m_points := pts, m_arcs := [aArc\<lparr>arc_width := 0\<rparr>],
       m_shapes := replicate (length pts) (0, SHAPE_IS_PT), m_closed := aClosed\<rparr>)"

definition PointCount :: "CHAIN \<Rightarrow> int" where "PointCount c = int (length (m_points c))"
definition ShapesSize :: "CHAIN \<Rightarrow> int" where "ShapesSize c = int (length (m_shapes c))"
definition ArcCount :: "CHAIN \<Rightarrow> int" where "ArcCount c = int (length (m_arcs c))"

definition SegmentCount :: "CHAIN \<Rightarrow> int" where
  "SegmentCount c = (let n = PointCount c - 1; n = (if m_closed c then n + 1 else n) in max 0 n)"

definition pt :: "CHAIN \<Rightarrow> int \<Rightarrow> VECTOR2I" where "pt c i = m_points c ! nat i"
definition shp :: "CHAIN \<Rightarrow> int \<Rightarrow> int \<times> int" where "shp c i = m_shapes c ! nat i"

text \<open>\<open>CPoint\<close> wraps once at each end.\<close>

definition CPoint_index :: "CHAIN \<Rightarrow> int \<Rightarrow> int" where
  "CPoint_index c aIndex =
    (if aIndex < 0 then aIndex + PointCount c
     else if aIndex \<ge> PointCount c then aIndex - PointCount c else aIndex)"

definition CPoint :: "CHAIN \<Rightarrow> int \<Rightarrow> VECTOR2I option" where
  "CPoint c aIndex =
    (let i = CPoint_index c aIndex in if 0 \<le> i \<and> i < PointCount c then Some (pt c i) else None)"

definition CSegment :: "CHAIN \<Rightarrow> int \<Rightarrow> SEG" where
  "CSegment c aIndex =
    (let i = (if aIndex < 0 then aIndex + SegmentCount c else aIndex) in
     if i = PointCount c - 1 \<and> m_closed c then Seg (pt c i) (pt c 0) else Seg (pt c i) (pt c (i + 1)))"

subsection \<open>Where a point lies\<close>

definition IsSharedPt :: "CHAIN \<Rightarrow> int \<Rightarrow> bool" where
  "IsSharedPt c aIndex \<longleftrightarrow> 0 \<le> aIndex \<and> aIndex < ShapesSize c \<and>
     fst (shp c aIndex) \<noteq> SHAPE_IS_PT \<and> snd (shp c aIndex) \<noteq> SHAPE_IS_PT"

definition IsPtOnArc :: "CHAIN \<Rightarrow> int \<Rightarrow> bool" where
  "IsPtOnArc c aPtIndex \<longleftrightarrow> 0 \<le> aPtIndex \<and> aPtIndex < ShapesSize c \<and> shp c aPtIndex \<noteq> SHAPES_ARE_PT"

definition ArcIndex :: "CHAIN \<Rightarrow> int \<Rightarrow> int" where
  "ArcIndex c aSegment = (if IsSharedPt c aSegment then snd (shp c aSegment) else fst (shp c aSegment))"

definition reversedArcIndex :: "CHAIN \<Rightarrow> int \<Rightarrow> int" where
  "reversedArcIndex c aSegment =
    (if IsSharedPt c aSegment then fst (shp c aSegment) else snd (shp c aSegment))"

text \<open>
  \<open>m_shapes.size() - 1\<close> wraps to the largest \<open>size_t\<close> for an empty chain; the answer is \<open>False\<close> either
  way then. The largest \<open>size_t\<close> as an argument is -1 here.
\<close>

definition IsArcSegment :: "CHAIN \<Rightarrow> int \<Rightarrow> bool" where
  "IsArcSegment c aSegment =
    (let nextIdx = aSegment + 1 in
     if ShapesSize c = 0 then False
     else if nextIdx > ShapesSize c - 1 then
       (if nextIdx = ShapesSize c \<and> m_closed c
        then IsPtOnArc c aSegment \<and> (IsSharedPt c aSegment \<or> fst (shp c aSegment) = fst (shp c 0))
        else False)
     else IsPtOnArc c aSegment \<and> (IsSharedPt c aSegment \<or> fst (shp c aSegment) = fst (shp c nextIdx)))"

definition IsArcStart :: "CHAIN \<Rightarrow> int \<Rightarrow> bool" where
  "IsArcStart c aIndex =
    (if aIndex = 0 then IsPtOnArc c aIndex
     else IsSharedPt c aIndex \<or> (IsPtOnArc c aIndex \<and> \<not> IsArcSegment c (aIndex - 1)))"

definition IsArcEnd :: "CHAIN \<Rightarrow> int \<Rightarrow> bool" where
  "IsArcEnd c aIndex \<longleftrightarrow> IsSharedPt c aIndex \<or> (IsPtOnArc c aIndex \<and> \<not> IsArcSegment c aIndex)"

subsection \<open>Arc bookkeeping\<close>

text \<open>
  A step of \<open>fixIndicesRotation\<close> turns both vectors right; \<open>k\<close> counts the steps made, of which the
  code allows two more than the number of shapes.
\<close>

definition rotate_right :: "'a list \<Rightarrow> 'a list" where
  "rotate_right xs = (if xs = [] then [] else last xs # butlast xs)"

function fix_loop :: "CHAIN \<Rightarrow> nat \<Rightarrow> CHAIN" where
  "fix_loop c k =
    (if k \<le> length (m_shapes c) + 1 \<and> ArcIndex c 0 \<noteq> SHAPE_IS_PT \<and> ArcIndex c 0 = ArcIndex c (PointCount c - 1)
     then fix_loop (c\<lparr>m_points := rotate_right (m_points c), m_shapes := rotate_right (m_shapes c)\<rparr>) (k + 1)
     else c)"
  by pat_completeness auto
termination
  by (relation "measure (\<lambda>(c, k). length (m_shapes c) + 2 - k)") (auto simp: rotate_right_def)

declare fix_loop.simps [simp del]

definition fixIndicesRotation :: "CHAIN \<Rightarrow> CHAIN" where
  "fixIndicesRotation c =
    (if length (m_shapes c) \<noteq> length (m_points c) then c
     else if length (m_shapes c) \<le> 1 \<or> length (m_arcs c) \<le> 1 then c
     else fix_loop c 0)"

definition mergeFirstLastPointIfNeeded :: "CHAIN \<Rightarrow> CHAIN" where
  "mergeFirstLastPointIfNeeded c =
    (if m_closed c then
       (if length (m_points c) > 1 \<and> hd (m_points c) = last (m_points c) then
          (let sh = m_shapes c;
               sh = (if last sh \<noteq> SHAPES_ARE_PT then (fst (last sh), fst (hd sh)) # tl sh else sh)
           in fixIndicesRotation
                (c\<lparr>m_points := butlast (m_points c), m_shapes := butlast sh\<rparr>))
        else c)
     else c)"

text \<open>
  An index that stays negative is not passed by any caller (it would be erased before \<open>begin()\<close>); the
  chain is left alone then.
\<close>

definition convert_index :: "int \<Rightarrow> int \<Rightarrow> int" where
  "convert_index aArcIndex aShapeIndex =
    (let i = (if aShapeIndex = aArcIndex then SHAPE_IS_PT else aShapeIndex) in
     if i > aArcIndex then i - 1 else i)"

definition convert_pair :: "int \<Rightarrow> int \<times> int \<Rightarrow> int \<times> int" where
  "convert_pair aArcIndex sh =
    (let sh = run_on_pair (convert_index aArcIndex) sh in
     if snd sh \<noteq> SHAPE_IS_PT \<and> fst sh = SHAPE_IS_PT then (snd sh, fst sh) else sh)"

definition convertArc :: "int \<Rightarrow> CHAIN \<Rightarrow> CHAIN" where
  "convertArc aArcIndex c =
    (let k = (if aArcIndex < 0 then aArcIndex + ArcCount c else aArcIndex) in
     if k \<ge> ArcCount c \<or> k < 0 then c
     else c\<lparr>m_shapes := map (convert_pair k) (m_shapes c),
            m_arcs := vec_erase (nat k) (nat k + 1) (m_arcs c)\<rparr>)"

definition new_arc :: "FLOATS \<Rightarrow> VECTOR2I \<Rightarrow> VECTOR2I \<Rightarrow> SHAPE_ARC \<Rightarrow> SHAPE_ARC" where
  "new_arc F aStart aEnd old = \<lparr>arc_start = aStart, arc_mid = fl_mid F aStart aEnd old, arc_end = aEnd, arc_width = 0\<rparr>"

definition amendArc :: "FLOATS \<Rightarrow> int \<Rightarrow> VECTOR2I \<Rightarrow> VECTOR2I \<Rightarrow> CHAIN \<Rightarrow> CHAIN" where
  "amendArc F aArcIndex aNewStart aNewEnd c =
    (if \<not> (0 \<le> aArcIndex \<and> aArcIndex < ArcCount c) then c
     else c\<lparr>m_arcs := (m_arcs c)[nat aArcIndex := new_arc F aNewStart aNewEnd (m_arcs c ! nat aArcIndex)]\<rparr>)"

definition shift_index :: "int \<Rightarrow> int \<Rightarrow> int" where
  "shift_index k i = (if i \<noteq> SHAPE_IS_PT then i + k else i)"

definition splitArc :: "FLOATS \<Rightarrow> int \<Rightarrow> bool \<Rightarrow> CHAIN \<Rightarrow> CHAIN" where
  "splitArc F aPtIndex0 aCoincident c =
    (let aPtIndex = (if aPtIndex0 < 0 then aPtIndex0 + ShapesSize c else aPtIndex0) in
     if \<not> IsSharedPt c aPtIndex \<and> IsArcStart c aPtIndex then c
     else if \<not> IsPtOnArc c aPtIndex then c
     else if IsSharedPt c aPtIndex \<or> IsArcEnd c aPtIndex then
       (if aCoincident \<or> aPtIndex = 0 then c
        else
          (let firstArcIndex = fst (shp c aPtIndex);
               newStart = arc_start (m_arcs c ! nat firstArcIndex);
               newEnd = pt c (aPtIndex - 1);
               c1 = amendArc F firstArcIndex newStart newEnd c
           in if IsSharedPt c1 aPtIndex
              then c1\<lparr>m_shapes := (m_shapes c1)[nat aPtIndex := (snd (shp c1 aPtIndex), SHAPE_IS_PT)]\<rparr>
              else c1\<lparr>m_shapes := (m_shapes c1)[nat aPtIndex := SHAPES_ARE_PT]\<rparr>))
     else
       (let currArcIdx = ArcIndex c aPtIndex; currentArc = m_arcs c ! nat currArcIdx;
            arc1End = (if aCoincident then pt c aPtIndex else pt c (aPtIndex - 1));
            arc2Start = pt c aPtIndex;
            newArc1 = new_arc F (arc_start currentArc) arc1End currentArc;
            newArc2 = new_arc F arc2Start (arc_end currentArc) currentArc
        in if \<not> aCoincident \<and> ArcIndex c (aPtIndex - 1) \<noteq> currArcIdx
           then c\<lparr>m_arcs := (m_arcs c)[nat currArcIdx := newArc2]\<rparr>
           else
             (let c1 = c\<lparr>m_arcs := vec_insert (nat currArcIdx + 1) [newArc2] ((m_arcs c)[nat currArcIdx := newArc1])\<rparr>;
                  (c2, i) = (if aCoincident
                    then (c1\<lparr>m_shapes := (m_shapes c1)[nat aPtIndex := (fst (shp c1 aPtIndex), currArcIdx + 1)]\<rparr>, aPtIndex + 1)
                    else (c1, aPtIndex))
              in c2\<lparr>m_shapes := take (nat i) (m_shapes c2) @
                      map (run_on_pair (shift_index 1)) (drop (nat i) (m_shapes c2))\<rparr>)))"

definition ClearArcs :: "CHAIN \<Rightarrow> CHAIN" where
  "ClearArcs c = foldl (\<lambda>c arcIndex. convertArc (int arcIndex) c) c (rev [0..<length (m_arcs c)])"

subsection \<open>Reversing and moving\<close>

definition arc_Reverse :: "SHAPE_ARC \<Rightarrow> SHAPE_ARC" where
  "arc_Reverse a = a\<lparr>arc_start := arc_end a, arc_end := arc_start a\<rparr>"

definition reverse_pair :: "int \<Rightarrow> int \<times> int \<Rightarrow> int \<times> int" where
  "reverse_pair n sh =
    (if sh \<noteq> SHAPES_ARE_PT then
       (let sh = run_on_pair (\<lambda>i. if i \<noteq> SHAPE_IS_PT then n - i - 1 else i) sh in
        if snd sh \<noteq> SHAPE_IS_PT then (snd sh, fst sh) else sh)
     else sh)"

definition Reverse :: "CHAIN \<Rightarrow> CHAIN" where
  "Reverse c =
    c\<lparr>m_points := rev (m_points c),
      m_shapes := map (reverse_pair (ArcCount c)) (rev (m_shapes c)),
      m_arcs := map arc_Reverse (rev (m_arcs c))\<rparr>"

definition arc_map :: "(VECTOR2I \<Rightarrow> VECTOR2I) \<Rightarrow> SHAPE_ARC \<Rightarrow> SHAPE_ARC" where
  "arc_map f a = a\<lparr>arc_start := f (arc_start a), arc_mid := f (arc_mid a), arc_end := f (arc_end a)\<rparr>"

definition mirror_pt :: "bool \<Rightarrow> bool \<Rightarrow> VECTOR2I \<Rightarrow> VECTOR2I \<Rightarrow> VECTOR2I" where
  "mirror_pt aX aY aRef p =
    Vec (if aX then - vx p + 2 * vx aRef else vx p) (if aY then - vy p + 2 * vy aRef else vy p)"

definition Mirror :: "bool \<Rightarrow> bool \<Rightarrow> VECTOR2I \<Rightarrow> CHAIN \<Rightarrow> CHAIN" where
  "Mirror aX aY aRef c =
    c\<lparr>m_points := map (mirror_pt aX aY aRef) (m_points c), m_arcs := map (arc_map (mirror_pt aX aY aRef)) (m_arcs c)\<rparr>"

definition Mirror_axis :: "SEG \<Rightarrow> CHAIN \<Rightarrow> CHAIN" where
  "Mirror_axis axis c =
    c\<lparr>m_points := map (ReflectPoint axis) (m_points c), m_arcs := map (arc_map (ReflectPoint axis)) (m_arcs c)\<rparr>"

definition chain_Move :: "VECTOR2I \<Rightarrow> CHAIN \<Rightarrow> CHAIN" where
  "chain_Move aVector c =
    c\<lparr>m_points := map (\<lambda>p. vadd p aVector) (m_points c), m_arcs := map (arc_map (\<lambda>p. vadd p aVector)) (m_arcs c),
      m_bbox := Move (m_bbox c) aVector\<rparr>"

text \<open>Rotation by a function on points, \<open>RotatePoint\<close> with the centre and angle given.\<close>

definition chain_Rotate :: "(VECTOR2I \<Rightarrow> VECTOR2I) \<Rightarrow> CHAIN \<Rightarrow> CHAIN" where
  "chain_Rotate rot c = c\<lparr>m_points := map rot (m_points c), m_arcs := map (arc_map rot) (m_arcs c)\<rparr>"

definition SetClosed :: "bool \<Rightarrow> CHAIN \<Rightarrow> CHAIN" where
  "SetClosed aClosed c = mergeFirstLastPointIfNeeded (c\<lparr>m_closed := aClosed\<rparr>)"

definition Clear :: "CHAIN \<Rightarrow> CHAIN" where
  "Clear c = c\<lparr>m_points := [], m_arcs := [], m_shapes := [], m_closed := False\<rparr>"

definition BBox :: "int \<Rightarrow> CHAIN \<Rightarrow> BOX2" where
  "BBox aClearance c =
    (let bbox = Compute BOX2_empty (m_points c) in
     if aClearance \<noteq> 0 \<or> m_width c \<noteq> 0 then Inflate bbox (aClearance + m_width c) (aClearance + m_width c)
     else bbox)"

definition GenerateBBoxCache :: "CHAIN \<Rightarrow> CHAIN" where
  "GenerateBBoxCache c =
    (let b = Compute (m_bbox c) (m_points c) in
     c\<lparr>m_bbox := (if m_width c \<noteq> 0 then Inflate b (m_width c) (m_width c) else b)\<rparr>)"

subsection \<open>Appending and inserting\<close>

definition chain_Append :: "VECTOR2I \<Rightarrow> bool \<Rightarrow> CHAIN \<Rightarrow> CHAIN" where
  "chain_Append aP aAllowDuplication c =
    (let c = (if m_points c = [] then c\<lparr>m_bbox := BOX2_of aP (Vec 0 0)\<rparr> else c) in
     if m_points c = [] \<or> aAllowDuplication \<or> last (m_points c) \<noteq> aP
     then c\<lparr>m_points := m_points c @ [aP], m_shapes := m_shapes c @ [SHAPES_ARE_PT],
            m_bbox := Merge_pt (m_bbox c) aP\<rparr>
     else c)"

definition chain_of_coords :: "int list \<Rightarrow> CHAIN" where
  "chain_of_coords aV =
    foldl (\<lambda>c i. chain_Append (Vec (aV ! (2 * i)) (aV ! (2 * i + 1))) False c) chain_empty
      [0..<length aV div 2]"

definition Append_first :: "CHAIN \<Rightarrow> CHAIN \<Rightarrow> CHAIN" where
  "Append_first aOtherLine c =
    (let num_arcs = ArcCount c; p = hd (m_points aOtherLine); sh0 = hd (m_shapes aOtherLine) in
     if m_points c = [] \<or> p \<noteq> last (m_points c)
     then c\<lparr>m_points := m_points c @ [p],
            m_shapes := m_shapes c @ [run_on_pair (shift_index num_arcs) sh0],
            m_bbox := Merge_pt (m_bbox c) p\<rparr>
     else if IsArcSegment aOtherLine 0
     then (if last (m_shapes c) = SHAPES_ARE_PT
           then c\<lparr>m_shapes := butlast (m_shapes c) @ [(fst sh0 + num_arcs, snd (last (m_shapes c)))]\<rparr>
           else c\<lparr>m_shapes := butlast (m_shapes c) @ [(fst (last (m_shapes c)), fst sh0 + num_arcs)]\<rparr>)
     else c)"

definition Append_chain :: "CHAIN \<Rightarrow> CHAIN \<Rightarrow> CHAIN" where
  "Append_chain aOtherLine c =
    (if m_points aOtherLine = [] then c
     else
       (let num_arcs = ArcCount c; c1 = Append_first aOtherLine c; ps = tl (m_points aOtherLine) in
        mergeFirstLastPointIfNeeded
          (c1\<lparr>m_points := m_points c1 @ ps,
              m_shapes := m_shapes c1 @
                map (\<lambda>i. if ArcIndex aOtherLine (int i) \<noteq> SHAPE_IS_PT
                         then run_on_pair (shift_index num_arcs) (m_shapes aOtherLine ! i)
                         else SHAPES_ARE_PT) [1..<length (m_points aOtherLine)],
              m_arcs := m_arcs c @ m_arcs aOtherLine,
              m_bbox := foldl Merge_pt (m_bbox c1) ps\<rparr>)))"

definition Append_arc :: "FLOATS \<Rightarrow> SHAPE_ARC \<Rightarrow> CHAIN \<Rightarrow> CHAIN" where
  "Append_arc F aArc c =
    (if Distance_pt (fl_guess F) (Seg (arc_start aArc) (arc_end aArc)) (arc_mid aArc) < 1
     then chain_Append (arc_end aArc) False (chain_Append (arc_start aArc) False c)
     else Append_chain (chain_of_arc F aArc False) c)"

definition Insert_pt :: "FLOATS \<Rightarrow> int \<Rightarrow> VECTOR2I \<Rightarrow> CHAIN \<Rightarrow> CHAIN" where
  "Insert_pt F aVertex aP c =
    (if aVertex = PointCount c then chain_Append aP False c
     else if \<not> (0 \<le> aVertex \<and> aVertex < PointCount c) then c
     else
       (let c1 = (if aVertex > 0 \<and> IsPtOnArc c aVertex then splitArc F aVertex False c else c) in
        c1\<lparr>m_points := vec_insert (nat aVertex) [aP] (m_points c1),
           m_shapes := vec_insert (nat aVertex) [SHAPES_ARE_PT] (m_shapes c1)\<rparr>))"

text \<open>
  The loop that looks for the place of the new arc runs to \<open>m_shapes.rend() + aVertex\<close>: past the end
  of the vector unless \<open>aVertex\<close> is 0.
\<close>

definition Insert_arc :: "FLOATS \<Rightarrow> int \<Rightarrow> SHAPE_ARC \<Rightarrow> CHAIN \<Rightarrow> CHAIN option" where
  "Insert_arc F aVertex aArc c =
    (if \<not> (0 \<le> aVertex \<and> aVertex < PointCount c) then Some c
     else if aVertex > 0 then None
     else
       (let arc_pos = foldl (\<lambda>pos sh. if sh \<noteq> SHAPES_ARE_PT then max (fst sh) (snd sh) + 1 else pos)
              (ArcCount c) (rev (m_shapes c));
            shapes = map (run_on_pair (\<lambda>i. if i \<ge> arc_pos then i + 1 else i)) (m_shapes c);
            pts = fl_poly F aArc
        in Some (c\<lparr>m_arcs := vec_insert (nat arc_pos) [aArc\<lparr>arc_width := 0\<rparr>] (m_arcs c),
                   m_points := vec_insert (nat aVertex) pts (m_points c),
                   m_shapes := vec_insert (nat aVertex) (replicate (length pts) (arc_pos, SHAPE_IS_PT)) shapes\<rparr>)))"

subsection \<open>Removing and replacing\<close>

definition arc_refs_of :: "int \<times> int \<Rightarrow> int list" where
  "arc_refs_of sh = [i \<leftarrow> [fst sh, snd sh]. i \<noteq> SHAPE_IS_PT]"

definition logged_arcs :: "CHAIN \<Rightarrow> int \<Rightarrow> int \<Rightarrow> int \<Rightarrow> int list" where
  "logged_arcs c aStartIndex aEndIndex i =
    (if IsSharedPt c i \<and> i = aStartIndex then [snd (shp c i)]
     else if IsSharedPt c i \<and> i = aEndIndex then [fst (shp c i)]
     else arc_refs_of (shp c i))"

definition Remove :: "FLOATS \<Rightarrow> int \<Rightarrow> int \<Rightarrow> CHAIN \<Rightarrow> CHAIN option" where
  "Remove F aStart aEnd c =
    (let aEndIndex = (if aEnd < 0 then aEnd + PointCount c else aEnd);
         aStartIndex = (if aStart < 0 then aStart + PointCount c else aStart)
     in if aStartIndex \<ge> PointCount c then Some c
        else
          (let aEndIndex = min aEndIndex (PointCount c - 1) in
           if aStartIndex < 0 \<or> aEndIndex < aStartIndex - 1 then None
           else
             (let c1 = (if IsPtOnArc c aStartIndex then splitArc F aStartIndex False c else c);
                  nextIndex = aEndIndex + 1;
                  c2 = (if IsPtOnArc c1 nextIndex then splitArc F nextIndex False c1 else c1);
                  extra_arcs = sort (remdups (concat (map (logged_arcs c2 aStartIndex aEndIndex) [aStartIndex..aEndIndex])));
                  c3 = foldl (\<lambda>c arc. convertArc arc c) c2 extra_arcs
              in Some (c3\<lparr>m_shapes := vec_erase (nat aStartIndex) (nat (aEndIndex + 1)) (m_shapes c3),
                          m_points := vec_erase (nat aStartIndex) (nat (aEndIndex + 1)) (m_points c3)\<rparr>))))"

definition Replace_pt :: "FLOATS \<Rightarrow> int \<Rightarrow> int \<Rightarrow> VECTOR2I \<Rightarrow> CHAIN \<Rightarrow> CHAIN option" where
  "Replace_pt F aStartIndex aEndIndex aP c =
    (case Remove F aStartIndex aEndIndex c of
       None \<Rightarrow> None
     | Some c1 \<Rightarrow> Some (Insert_pt F aStartIndex aP c1))"

definition Replace_paste :: "int \<Rightarrow> CHAIN \<Rightarrow> CHAIN \<Rightarrow> CHAIN option" where
  "Replace_paste aStartIndex newLine c =
    (if m_points newLine = [] then Some c
     else if \<not> (0 \<le> aStartIndex \<and> aStartIndex \<le> PointCount c) then None
     else Some (c\<lparr>m_shapes := vec_insert (nat aStartIndex)
                    (map (run_on_pair (shift_index (ArcCount c))) (m_shapes newLine)) (m_shapes c),
                  m_points := vec_insert (nat aStartIndex) (m_points newLine) (m_points c),
                  m_arcs := m_arcs c @ m_arcs newLine\<rparr>))"

definition Replace_back :: "FLOATS \<Rightarrow> int \<Rightarrow> int \<Rightarrow> CHAIN \<Rightarrow> CHAIN \<Rightarrow> CHAIN option" where
  "Replace_back F aStartIndex aEndIndex newLine c =
    (if \<not> (0 \<le> aEndIndex \<and> aEndIndex < PointCount c) then None
     else if last (m_points newLine) = pt c aEndIndex \<and> aEndIndex > 0 then
       (case Remove F (- 1) (- 1) newLine of
          None \<Rightarrow> None
        | Some newLine1 \<Rightarrow>
            (case Remove F aStartIndex (aEndIndex - 1) c of
               None \<Rightarrow> None
             | Some c1 \<Rightarrow> Replace_paste aStartIndex newLine1 c1))
     else
       (case Remove F aStartIndex aEndIndex c of
          None \<Rightarrow> None
        | Some c1 \<Rightarrow> Replace_paste aStartIndex newLine c1))"

definition Replace_line :: "FLOATS \<Rightarrow> int \<Rightarrow> int \<Rightarrow> CHAIN \<Rightarrow> CHAIN \<Rightarrow> CHAIN option" where
  "Replace_line F aStart aEnd aLine c =
    (let aEndIndex = (if aEnd < 0 then aEnd + PointCount c else aEnd);
         aStartIndex = (if aStart < 0 then aStart + PointCount c else aStart)
     in if m_points aLine = [] then Remove F aStartIndex aEndIndex c
        else if \<not> (0 \<le> aStartIndex \<and> aStartIndex < PointCount c) then None
        else if hd (m_points aLine) = pt c aStartIndex then
          (case Remove F 0 0 aLine of
             None \<Rightarrow> None
           | Some newLine \<Rightarrow>
               if m_points newLine = [] then Remove F (aStartIndex + 1) aEndIndex c
               else Replace_back F (aStartIndex + 1) aEndIndex newLine c)
        else Replace_back F aStartIndex aEndIndex aLine c)"

definition SetPoint :: "int \<Rightarrow> VECTOR2I \<Rightarrow> CHAIN \<Rightarrow> CHAIN option" where
  "SetPoint aIndex aPos c =
    (let i = CPoint_index c aIndex in
     if \<not> (0 \<le> i \<and> i < PointCount c) then None
     else
       (let c1 = c\<lparr>m_points := (m_points c)[nat i := aPos]\<rparr>;
            c2 = (if fst (shp c1 i) \<noteq> SHAPE_IS_PT then convertArc (fst (shp c1 i)) c1 else c1);
            c3 = (if snd (shp c2 i) \<noteq> SHAPE_IS_PT then convertArc (snd (shp c2 i)) c2 else c2)
        in Some c3))"

function shape_back :: "CHAIN \<Rightarrow> int \<Rightarrow> int \<Rightarrow> int" where
  "shape_back c arcIdx start =
    (if start \<ge> 0 \<and> fst (shp c start) = arcIdx then shape_back c arcIdx (start - 1) else start)"
  by pat_completeness auto
termination
  by (relation "measure (\<lambda>(c, a, i). nat (i + 1))") auto

function shape_fwd :: "CHAIN \<Rightarrow> int \<Rightarrow> int \<Rightarrow> int" where
  "shape_fwd c arcIdx end' =
    (if end' < ShapesSize c - 1 \<and> fst (shp c end') = arcIdx then shape_fwd c arcIdx (end' + 1) else end')"
  by pat_completeness auto
termination
  by (relation "measure (\<lambda>(c, a, i). nat (ShapesSize c - 1 - i))") auto

declare shape_back.simps [simp del] shape_fwd.simps [simp del]

definition RemoveShape :: "FLOATS \<Rightarrow> int \<Rightarrow> CHAIN \<Rightarrow> CHAIN option" where
  "RemoveShape F aPointIndex c =
    (let i = (if aPointIndex < 0 then aPointIndex + PointCount c else aPointIndex) in
     if \<not> (0 \<le> i \<and> i < ShapesSize c) then None
     else if shp c i = SHAPES_ARE_PT then Remove F i i c
     else
       (let arcIdx = ArcIndex c i;
            start = (if \<not> IsSharedPt c i then
                (let start = shape_back c arcIdx i in
                 if start \<ge> 1 \<and> snd (shp c (start - 1)) = arcIdx then start - 1 else start)
              else i);
            end' = shape_fwd c arcIdx i
        in Remove F start end' c))"

subsection \<open>Walking over shapes\<close>

definition dir_arc_index :: "CHAIN \<Rightarrow> bool \<Rightarrow> int \<Rightarrow> int" where
  "dir_arc_index c aForwards i = (if aForwards then ArcIndex c i else reversedArcIndex c i)"

function next_skip :: "CHAIN \<Rightarrow> bool \<Rightarrow> int \<Rightarrow> int \<Rightarrow> int" where
  "next_skip c aForwards currentArcIdx i =
    (if i < PointCount c - 1 \<and> i \<ge> 0 \<and> dir_arc_index c aForwards i = currentArcIdx
     then next_skip c aForwards currentArcIdx (i + (if aForwards then 1 else - 1)) else i)"
  by pat_completeness auto
termination
  by (relation "measure (\<lambda>(c, f, a, i). if f then nat (PointCount c - 1 - i) else nat (i + 1))") auto

declare next_skip.simps [simp del]

definition NextShape :: "CHAIN \<Rightarrow> int \<Rightarrow> bool \<Rightarrow> int option" where
  "NextShape c aPointIndex0 aForwards =
    (let aPointIndex = (if aPointIndex0 < 0 then aPointIndex0 + PointCount c else aPointIndex0);
         lastIndex = PointCount c - 1; delta = (if aForwards then 1 else - 1)
     in if (aForwards \<and> aPointIndex = lastIndex) \<or> (\<not> aForwards \<and> aPointIndex = 0) then Some (- 1)
        else if \<not> (0 \<le> aPointIndex \<and> aPointIndex < ShapesSize c) then None
        else if shp c aPointIndex = SHAPES_ARE_PT then Some (aPointIndex + delta)
        else
          (let currentArcIdx = dir_arc_index c aForwards aPointIndex;
               i = next_skip c aForwards currentArcIdx aPointIndex
           in if i = lastIndex then
                (if \<not> m_closed c \<and> dir_arc_index c aForwards i = currentArcIdx then Some (- 1) else Some lastIndex)
              else if \<not> (0 \<le> i \<and> i < ShapesSize c) then None
              else
                (let indexStillOnArc = (fst (shp c i) = currentArcIdx \<or> snd (shp c i) = currentArcIdx) in
                 if i - aPointIndex > 1 \<and> \<not> indexStillOnArc then Some (i - delta) else Some i)))"

function count_skip :: "CHAIN \<Rightarrow> int \<Rightarrow> int \<Rightarrow> int" where
  "count_skip c arcIdx i =
    (if i < ShapesSize c \<and> fst (shp c i) = arcIdx then count_skip c arcIdx (i + 1) else i)"
  by pat_completeness auto
termination
  by (relation "measure (\<lambda>(c, a, i). nat (ShapesSize c - i))") auto

declare count_skip.simps [simp del]

text \<open>The loop of \<open>ShapeCount\<close> need not end: \<open>None\<close> is also the value of a loop that does not.\<close>

partial_function (option) count_loop :: "CHAIN \<Rightarrow> int \<Rightarrow> int \<Rightarrow> int option" where
  "count_loop c i numShapes =
    (if i < PointCount c - 1 then
       (if shp c i = SHAPES_ARE_PT then count_loop c (i + 1) (numShapes + 1)
        else
          (let arcIdx = (if snd (shp c i) = SHAPE_IS_PT then fst (shp c i) else snd (shp c i));
               j = count_skip c arcIdx i
           in if j < ShapesSize c \<and> j - 1 < 0 then None
              else if j < ShapesSize c \<and> pt c j \<noteq> pt c (j - 1) then count_loop c j (numShapes + 2)
              else count_loop c j (numShapes + 1)))
     else Some numShapes)"

definition ShapeCount :: "CHAIN \<Rightarrow> int option" where
  "ShapeCount c = (if m_points c = [] then Some 0 else count_loop c 0 0)"

subsection \<open>Slices\<close>

text \<open>The points copied from the middle of an arc; the loop does not look at the size.\<close>

function slice_head :: "CHAIN \<Rightarrow> int \<Rightarrow> int \<Rightarrow> VECTOR2I list \<Rightarrow> VECTOR2I list option" where
  "slice_head c arcToSplitIndex i acc =
    (if i \<ge> ShapesSize c then None
     else if ArcIndex c i = arcToSplitIndex then slice_head c arcToSplitIndex (i + 1) (acc @ [pt c i])
     else Some acc)"
  by pat_completeness auto
termination
  by (relation "measure (\<lambda>(c, a, i, acc). nat (ShapesSize c - i))") auto

function slice_tail :: "CHAIN \<Rightarrow> int \<Rightarrow> int \<Rightarrow> int \<Rightarrow> VECTOR2I list \<Rightarrow> VECTOR2I list" where
  "slice_tail c arcIndex aEndIndex i acc =
    (if i \<le> aEndIndex \<and> i < PointCount c \<and> ArcIndex c i = arcIndex
     then slice_tail c arcIndex aEndIndex (i + 1) (acc @ [pt c i]) else acc)"
  by pat_completeness auto
termination
  by (relation "measure (\<lambda>(c, a, e, i, acc). nat (PointCount c - i))") auto

declare slice_head.simps [simp del] slice_tail.simps [simp del]

text \<open>Points pushed as those of the next arc, and then the arc.\<close>

definition push_arc_points :: "VECTOR2I list \<Rightarrow> SHAPE_ARC \<Rightarrow> CHAIN \<Rightarrow> CHAIN" where
  "push_arc_points ps arc rv =
    rv\<lparr>m_points := m_points rv @ ps,
       m_shapes := m_shapes rv @ replicate (length ps) (ArcCount rv, SHAPE_IS_PT),
       m_bbox := foldl Merge_pt (m_bbox rv) ps, m_arcs := m_arcs rv @ [arc]\<rparr>"

partial_function (option) slice_loop :: "FLOATS \<Rightarrow> CHAIN \<Rightarrow> int \<Rightarrow> int \<Rightarrow> CHAIN \<Rightarrow> CHAIN option" where
  "slice_loop F c aEndIndex i rv =
    (if \<not> (i \<le> aEndIndex \<and> i < PointCount c) then Some rv
     else if i = - 1 then Some rv
     else if i < 0 then None
     else if IsArcStart c i then
       (case NextShape c i True of
          None \<Rightarrow> None
        | Some nextShape \<Rightarrow>
            (let isLastShape = nextShape < 0 in
             if (isLastShape \<and> aEndIndex \<noteq> PointCount c - 1) \<or> nextShape > aEndIndex then
               (if i = aEndIndex then Some (chain_Append (pt c i) False rv)
                else if aEndIndex \<ge> PointCount c then None
                else
                  (let currentArc = m_arcs c ! nat (ArcIndex c i) in
                   Some (push_arc_points (slice_tail c (ArcIndex c i) aEndIndex i [])
                     (new_arc F (arc_start currentArc) (pt c aEndIndex) currentArc) rv)))
             else
               (let rv1 = Append_arc F (m_arcs c ! nat (ArcIndex c i)) rv in
                if isLastShape then Some rv1 else slice_loop F c aEndIndex nextShape rv1)))
     else
       (case NextShape c i True of
          None \<Rightarrow> None
        | Some next_i \<Rightarrow> slice_loop F c aEndIndex next_i (chain_Append (pt c i) False rv)))"

definition Slice :: "FLOATS \<Rightarrow> CHAIN \<Rightarrow> int \<Rightarrow> int \<Rightarrow> CHAIN option" where
  "Slice F c aStart aEnd =
    (let aEndIndex = (if aEnd < 0 then aEnd + PointCount c else aEnd);
         aStartIndex = (if aStart < 0 then aStart + PointCount c else aStart);
         rv = chain_empty
     in if IsArcSegment c aStartIndex \<and> \<not> IsArcStart c aStartIndex then
          (let arcToSplitIndex = ArcIndex c aStartIndex; arcToSplit = m_arcs c ! nat arcToSplitIndex in
           case slice_head c arcToSplitIndex aStartIndex [] of
             None \<Rightarrow> None
           | Some ps \<Rightarrow>
               slice_loop F c aEndIndex (aStartIndex + int (length ps))
                 (push_arc_points ps (new_arc F (pt c aStartIndex) (arc_end arcToSplit) arcToSplit) rv))
        else slice_loop F c aEndIndex aStartIndex rv)"

subsection \<open>Finding and splitting at a point\<close>

definition Find :: "FLOATS \<Rightarrow> CHAIN \<Rightarrow> VECTOR2I \<Rightarrow> int \<Rightarrow> int" where
  "Find F c aP aThreshold =
    (case find (\<lambda>s. if aThreshold = 0 then pt c s = aP else fl_norm F (vsub (pt c s) aP) \<le> aThreshold)
       [0..PointCount c - 1] of
       None \<Rightarrow> - 1
     | Some s \<Rightarrow> s)"

definition FindSegment :: "FLOATS \<Rightarrow> CHAIN \<Rightarrow> VECTOR2I \<Rightarrow> int \<Rightarrow> int" where
  "FindSegment F c aP aThreshold =
    (case find (\<lambda>s. Distance_pt (fl_guess F) (CSegment c s) aP \<le> aThreshold) [0..SegmentCount c - 1] of
       None \<Rightarrow> - 1
     | Some s \<Rightarrow> s)"

definition split_candidate :: "FLOATS \<Rightarrow> CHAIN \<Rightarrow> VECTOR2I \<Rightarrow> int \<Rightarrow> int" where
  "split_candidate F c aP found_index =
    fst (foldl (\<lambda>(ii, min_dist) s.
      let seg = CSegment c s; dist = Distance_pt (fl_guess F) seg aP in
      if dist < min_dist \<and> segA seg \<noteq> aP \<and> segB seg \<noteq> aP
      then (if found_index < 0 then s else if s < found_index then s else ii, dist)
      else (ii, min_dist)) (- 1, 2) [0..SegmentCount c - 1])"

definition Split :: "FLOATS \<Rightarrow> VECTOR2I \<Rightarrow> bool \<Rightarrow> CHAIN \<Rightarrow> CHAIN \<times> int" where
  "Split F aP aExact c =
    (let found_index = Find F c aP 0 in
     if found_index \<ge> 0 \<and> aExact then (c, found_index)
     else
       (let ii = split_candidate F c aP found_index; ii = (if ii < 0 then found_index else ii) in
        if ii \<ge> 0 then
          (if CPoint c ii = Some aP then (c, ii)
           else
             (let newIndex = ii + 1 in
              if IsArcSegment c ii
              then (splitArc F newIndex True
                     (c\<lparr>m_points := vec_insert (nat newIndex) [aP] (m_points c),
                        m_shapes := vec_insert (nat newIndex) [(ArcIndex c ii, SHAPE_IS_PT)] (m_shapes c)\<rparr>), newIndex)
              else (Insert_pt F newIndex aP c, newIndex)))
        else (c, - 1)))"

subsection \<open>The arc numbers carried through a clipping library\<close>

text \<open>
  \<open>convertToClipper\<close> gives every vertex a number of a table of arc pairs, offset past the arcs
  already collected; the constructor from a path reads them back, loading each arc once. \<open>rev_input\<close>
  is the result of the orientation test, on the floating-point area.
\<close>

definition CLIPPER_Z_VALUE :: "int \<times> int \<Rightarrow> int \<Rightarrow> int \<times> int" where
  "CLIPPER_Z_VALUE aShapeIndices aOffset = run_on_pair (\<lambda>i. if i \<ge> 0 then i + aOffset else i) aShapeIndices"

definition convertToClipper ::
  "bool \<Rightarrow> CHAIN \<Rightarrow> (int \<times> int) list \<Rightarrow> SHAPE_ARC list \<Rightarrow>
   (VECTOR2I \<times> nat) list \<times> (int \<times> int) list \<times> SHAPE_ARC list" where
  "convertToClipper rev_input c aZValueBuffer aArcBuffer =
    (let input = (if rev_input then Reverse c else c); shape_offset = int (length aArcBuffer) in
     (zip (m_points input) [length aZValueBuffer..<length aZValueBuffer + length (m_points input)],
      aZValueBuffer @ map (\<lambda>sh. CLIPPER_Z_VALUE sh shape_offset) (take (length (m_points input)) (m_shapes input)),
      aArcBuffer @ m_arcs input))"

definition load_arc ::
  "SHAPE_ARC list \<Rightarrow> int \<Rightarrow> (int \<rightharpoonup> int) \<times> SHAPE_ARC list \<Rightarrow> int \<times> ((int \<rightharpoonup> int) \<times> SHAPE_ARC list)" where
  "load_arc aArcBuffer aArcIndex st =
    (if aArcIndex = SHAPE_IS_PT then (SHAPE_IS_PT, st)
     else
       (case fst st aArcIndex of
          Some k \<Rightarrow> (k, st)
        | None \<Rightarrow> (int (length (snd st)),
                  ((fst st)(aArcIndex \<mapsto> int (length (snd st))), snd st @ [aArcBuffer ! nat aArcIndex]))))"

definition load_vertex ::
  "(int \<times> int) list \<Rightarrow> SHAPE_ARC list \<Rightarrow> VECTOR2I \<times> nat \<Rightarrow>
   (int \<rightharpoonup> int) \<times> CHAIN \<Rightarrow> ((int \<rightharpoonup> int) \<times> CHAIN) option" where
  "load_vertex aZValueBuffer aArcBuffer v st =
    (let c = chain_Append (fst v) False (snd st); z = aZValueBuffer ! snd v in
     if length (m_shapes c) = length (m_shapes (snd st)) \<or> snd v \<ge> length aZValueBuffer \<or>
        fst z \<ge> int (length aArcBuffer) \<or> snd z \<ge> int (length aArcBuffer) then None
     else
       (let (a, s1) = load_arc aArcBuffer (fst z) (fst st, m_arcs c);
            (b, s2) = load_arc aArcBuffer (snd z) s1
        in Some (fst s2, c\<lparr>m_shapes := butlast (m_shapes c) @ [(a, b)], m_arcs := snd s2\<rparr>)))"

text \<open>
  A vertex equal to the one before, which \<open>Append\<close> drops, would be written outside of the vector of
  shapes.
\<close>

definition chain_of_clipper ::
  "(VECTOR2I \<times> nat) list \<Rightarrow> (int \<times> int) list \<Rightarrow> SHAPE_ARC list \<Rightarrow> CHAIN option" where
  "chain_of_clipper aPath aZValueBuffer aArcBuffer =
    map_option (\<lambda>st. fixIndicesRotation (snd st))
      (foldl (\<lambda>st v. Option.bind st (load_vertex aZValueBuffer aArcBuffer v))
        (Some (Map.empty, chain_empty\<lparr>m_closed := True\<rparr>)) aPath)"

subsection \<open>Well-formed chains\<close>

definition index_ok :: "int \<Rightarrow> int \<Rightarrow> bool" where
  "index_ok n i \<longleftrightarrow> - 1 \<le> i \<and> i < n"

definition pair_ok :: "int \<Rightarrow> int \<times> int \<Rightarrow> bool" where
  "pair_ok n sh \<longleftrightarrow> index_ok n (fst sh) \<and> index_ok n (snd sh) \<and> (snd sh \<noteq> SHAPE_IS_PT \<longrightarrow> fst sh \<noteq> SHAPE_IS_PT)"

definition chain_ok :: "CHAIN \<Rightarrow> bool" where
  "chain_ok c \<longleftrightarrow> length (m_shapes c) = length (m_points c) \<and> (\<forall>sh\<in>set (m_shapes c). pair_ok (ArcCount c) sh)"

lemmas chain_sizes = PointCount_def ShapesSize_def ArcCount_def

lemma pair_ok_pt [simp]: "0 \<le> n \<Longrightarrow> pair_ok n SHAPES_ARE_PT"
  by (simp add: pair_ok_def index_ok_def)

lemma pair_ok_first [simp]: "pair_ok n (k, SHAPE_IS_PT) \<longleftrightarrow> - 1 \<le> k \<and> k < n"
  by (auto simp: pair_ok_def index_ok_def)

lemma ArcCount_nonneg [simp]: "0 \<le> ArcCount c" "- 1 < ArcCount c" by (simp_all add: ArcCount_def)

lemma pair_ok_mono: "pair_ok n sh \<Longrightarrow> n \<le> m \<Longrightarrow> pair_ok m sh"
  by (auto simp: pair_ok_def index_ok_def)

lemma pair_ok_shift: "pair_ok n sh \<Longrightarrow> 0 \<le> k \<Longrightarrow> n + k \<le> m \<Longrightarrow> pair_ok m (run_on_pair (shift_index k) sh)"
  by (auto simp: pair_ok_def index_ok_def run_on_pair_def shift_index_def)

lemma pair_ok_swap: "pair_ok n sh \<Longrightarrow> snd sh \<noteq> SHAPE_IS_PT \<Longrightarrow> pair_ok n (snd sh, fst sh)"
  by (auto simp: pair_ok_def)

lemma chain_ok_len: "chain_ok c \<Longrightarrow> length (m_shapes c) = length (m_points c)"
  by (simp add: chain_ok_def)

lemma chain_okD: "chain_ok c \<Longrightarrow> sh \<in> set (m_shapes c) \<Longrightarrow> pair_ok (ArcCount c) sh"
  by (simp add: chain_ok_def)

lemma shp_mem: "0 \<le> i \<Longrightarrow> i < ShapesSize c \<Longrightarrow> shp c i \<in> set (m_shapes c)"
  by (auto simp: shp_def ShapesSize_def)

lemma chain_ok_shp: "chain_ok c \<Longrightarrow> 0 \<le> i \<Longrightarrow> i < ShapesSize c \<Longrightarrow> pair_ok (ArcCount c) (shp c i)"
  by (rule chain_okD [OF _ shp_mem])

lemma chain_ok_sizes: "chain_ok c \<Longrightarrow> ShapesSize c = PointCount c"
  by (simp add: chain_ok_def chain_sizes)

lemma set_list_update_subset: "set (xs[i := x]) \<subseteq> insert x (set xs)"
  by (rule set_update_subset_insert)

lemma chain_ok_update_shape:
  "chain_ok c \<Longrightarrow> pair_ok (ArcCount c) sh \<Longrightarrow> chain_ok (c\<lparr>m_shapes := (m_shapes c)[i := sh]\<rparr>)"
  using set_update_subset_insert [of "m_shapes c" i sh]
  by (auto simp: chain_ok_def ArcCount_def)

lemma chain_ok_empty [simp, kicad_inv]: "chain_ok chain_empty"
  by (simp add: chain_ok_def chain_empty_def)

lemma chain_ok_of_points [kicad_inv]: "chain_ok (chain_of_points ps b)"
  by (simp add: chain_ok_def chain_of_points_def chain_empty_def ArcCount_def)

lemma chain_ok_of_arc [kicad_inv]: "chain_ok (chain_of_arc F a b)"
  by (simp add: chain_ok_def chain_of_arc_def Let_def chain_empty_def ArcCount_def)

lemma set_rotate_right: "set (rotate_right xs) = set xs"
  by (cases xs rule: rev_cases) (auto simp: rotate_right_def)

lemma length_rotate_right [simp]: "length (rotate_right xs) = length xs"
  by (simp add: rotate_right_def)

lemma chain_ok_rotate:
  "chain_ok c \<Longrightarrow> chain_ok (c\<lparr>m_points := rotate_right (m_points c), m_shapes := rotate_right (m_shapes c)\<rparr>)"
  by (simp add: chain_ok_def ArcCount_def set_rotate_right)

lemma chain_ok_fix_loop: "chain_ok c \<Longrightarrow> chain_ok (fix_loop c k)"
proof (induction c k rule: fix_loop.induct)
  case (1 c k)
  show ?case
  proof (cases "k \<le> length (m_shapes c) + 1 \<and> ArcIndex c 0 \<noteq> SHAPE_IS_PT \<and>
      ArcIndex c 0 = ArcIndex c (PointCount c - 1)")
    case True
    from "1.IH" [OF this chain_ok_rotate [OF "1.prems"]] show ?thesis
      by (subst fix_loop.simps) (simp only: if_P [OF True])
  next
    case False
    have "fix_loop c k = c" by (subst fix_loop.simps) (rule if_not_P [OF False])
    then show ?thesis using "1.prems" by simp
  qed
qed

lemma chain_ok_fixIndices [kicad_inv]: "chain_ok c \<Longrightarrow> chain_ok (fixIndicesRotation c)"
  by (simp add: fixIndicesRotation_def chain_ok_fix_loop)

lemma chain_ok_merge [kicad_inv]:
  assumes "chain_ok c"
  shows "chain_ok (mergeFirstLastPointIfNeeded c)"
proof (cases "m_closed c \<and> length (m_points c) > 1 \<and> hd (m_points c) = last (m_points c)")
  case True
  define sh where "sh = (if last (m_shapes c) \<noteq> SHAPES_ARE_PT
    then (fst (last (m_shapes c)), fst (hd (m_shapes c))) # tl (m_shapes c) else m_shapes c)"
  have ne: "m_shapes c \<noteq> []" using True chain_ok_len [OF assms] by auto
  then have ok: "pair_ok (ArcCount c) (last (m_shapes c))" "pair_ok (ArcCount c) (hd (m_shapes c))"
    using chain_okD [OF assms] by auto
  then have "pair_ok (ArcCount c) (fst (last (m_shapes c)), fst (hd (m_shapes c)))"
    if "last (m_shapes c) \<noteq> SHAPES_ARE_PT"
    using that by (cases "last (m_shapes c)") (auto simp: pair_ok_def)
  then have "\<forall>x\<in>set sh. pair_ok (ArcCount c) x"
    using ne chain_okD [OF assms] by (auto simp: sh_def dest: list.set_sel(2))
  moreover have "length sh = length (m_points c)"
    using ne chain_ok_len [OF assms] by (cases "m_shapes c") (auto simp: sh_def)
  ultimately have "chain_ok (c\<lparr>m_points := butlast (m_points c), m_shapes := butlast sh\<rparr>)"
    by (auto simp: chain_ok_def ArcCount_def dest: in_set_butlastD)
  moreover have "mergeFirstLastPointIfNeeded c =
      fixIndicesRotation (c\<lparr>m_points := butlast (m_points c), m_shapes := butlast sh\<rparr>)"
    using True by (simp add: mergeFirstLastPointIfNeeded_def Let_def sh_def)
  ultimately show ?thesis by (simp add: chain_ok_fixIndices)
next
  case False
  then show ?thesis using assms by (auto simp: mergeFirstLastPointIfNeeded_def)
qed

lemma pair_ok_convert:
  assumes "pair_ok n sh" "0 \<le> k" "k < n"
  shows "pair_ok (n - 1) (convert_pair k sh)"
  using assms by (cases sh) (auto simp: pair_ok_def index_ok_def convert_pair_def convert_index_def run_on_pair_def Let_def)

lemma chain_ok_convertArc [kicad_inv]:
  assumes "chain_ok c"
  shows "chain_ok (convertArc k c)"
proof -
  define m where "m = (if k < 0 then k + ArcCount c else k)"
  show ?thesis
  proof (cases "m \<ge> ArcCount c \<or> m < 0")
    case True
    then show ?thesis using assms by (simp add: convertArc_def m_def Let_def)
  next
    case False
    then have "nat m + 1 \<le> length (m_arcs c)" by (simp add: ArcCount_def) linarith
    from length_vec_erase [OF _ this, of "nat m"] False
    have "ArcCount (c\<lparr>m_shapes := map (convert_pair m) (m_shapes c),
        m_arcs := vec_erase (nat m) (nat m + 1) (m_arcs c)\<rparr>) = ArcCount c - 1"
      by (simp add: ArcCount_def)
    with False assms show ?thesis
      unfolding convertArc_def Let_def m_def [symmetric]
      by (simp add: chain_ok_def pair_ok_convert)
  qed
qed

lemma convertArc_sizes [simp]:
  "m_points (convertArc k c) = m_points c" "length (m_shapes (convertArc k c)) = length (m_shapes c)"
  "m_closed (convertArc k c) = m_closed c" "m_bbox (convertArc k c) = m_bbox c"
  "m_width (convertArc k c) = m_width c"
  by (simp_all add: convertArc_def Let_def)

lemma foldl_convertArc_ok: "chain_ok c \<Longrightarrow> chain_ok (foldl (\<lambda>c k. convertArc (f k) c) c ks)"
  by (induction ks arbitrary: c) (simp_all add: chain_ok_convertArc)

lemma foldl_convertArc_sizes [simp]:
  "m_points (foldl (\<lambda>c k. convertArc (f k) c) c ks) = m_points c"
  "length (m_shapes (foldl (\<lambda>c k. convertArc (f k) c) c ks)) = length (m_shapes c)"
  "m_closed (foldl (\<lambda>c k. convertArc (f k) c) c ks) = m_closed c"
  by (induction ks arbitrary: c) simp_all

lemma chain_ok_ClearArcs [kicad_inv]: "chain_ok c \<Longrightarrow> chain_ok (ClearArcs c)"
  by (simp add: ClearArcs_def foldl_convertArc_ok)

lemma chain_ok_amendArc [kicad_inv]: "chain_ok c \<Longrightarrow> chain_ok (amendArc F k a b c)"
  by (simp add: amendArc_def chain_ok_def ArcCount_def)

lemma amendArc_sizes [simp]:
  "m_points (amendArc F k a b c) = m_points c" "m_shapes (amendArc F k a b c) = m_shapes c"
  "ArcCount (amendArc F k a b c) = ArcCount c" "m_closed (amendArc F k a b c) = m_closed c"
  by (simp_all add: amendArc_def ArcCount_def)

lemma amendArc_views [simp]:
  "shp (amendArc F k a b c) i = shp c i" "IsSharedPt (amendArc F k a b c) i = IsSharedPt c i"
  "pt (amendArc F k a b c) i = pt c i"
  by (simp_all add: shp_def IsSharedPt_def ShapesSize_def pt_def)

lemma chain_ok_arcs_update: "chain_ok c \<Longrightarrow> length as = length (m_arcs c) \<Longrightarrow> chain_ok (c\<lparr>m_arcs := as\<rparr>)"
  by (simp add: chain_ok_def ArcCount_def)

lemma chain_ok_shift_tail:
  assumes "chain_ok c" "length as = length (m_arcs c) + 1" "pair_ok (ArcCount c + 1) sh" "j \<le> length (m_shapes c)"
  shows "chain_ok (c\<lparr>m_arcs := as, m_shapes := take i ((m_shapes c)[j := sh]) @
      map (run_on_pair (shift_index 1)) (drop i (m_shapes c))\<rparr>)"
proof -
  have "pair_ok (ArcCount c + 1) x" if "x \<in> set (take i ((m_shapes c)[j := sh]))" for x
  proof -
    from that have "x \<in> insert sh (set (m_shapes c))"
      by (meson in_set_takeD set_update_subset_insert subsetD)
    then show ?thesis using assms(3) chain_okD [OF assms(1), of x] pair_ok_mono [of "ArcCount c" x] by auto
  qed
  moreover have "pair_ok (ArcCount c + 1) (run_on_pair (shift_index 1) x)" if "x \<in> set (drop i (m_shapes c))" for x
    using chain_okD [OF assms(1) in_set_dropD [OF that]] by (rule pair_ok_shift) simp_all
  moreover have "ArcCount (c\<lparr>m_arcs := as, m_shapes := ss\<rparr>) = ArcCount c + 1" for ss
    using assms(2) by (simp add: ArcCount_def)
  ultimately show ?thesis
    using chain_ok_len [OF assms(1)] by (auto simp: chain_ok_def)
qed

lemma chain_ok_splitArc [kicad_inv]:
  assumes "chain_ok c"
  shows "chain_ok (splitArc F i0 co c)"
proof -
  define i where "i = (if i0 < 0 then i0 + ShapesSize c else i0)"
  note S = splitArc_def [of F i0 co c, folded i_def, unfolded Let_def]
  consider (nothing) "\<not> IsSharedPt c i \<and> IsArcStart c i \<or> \<not> IsPtOnArc c i"
    | (end_pt) "IsPtOnArc c i" "IsSharedPt c i \<or> IsArcEnd c i" "\<not> (\<not> IsSharedPt c i \<and> IsArcStart c i)"
    | (middle) "IsPtOnArc c i" "\<not> IsSharedPt c i" "\<not> IsArcEnd c i" "\<not> IsArcStart c i"
    by blast
  then show ?thesis
  proof cases
    case nothing
    then have "splitArc F i0 co c = c" unfolding S by auto
    then show ?thesis using assms by simp
  next
    case end_pt
    define c1 where "c1 = amendArc F (fst (shp c i)) (arc_start (m_arcs c ! nat (fst (shp c i)))) (pt c (i - 1)) c"
    have ok: "chain_ok c1" using assms by (simp add: c1_def chain_ok_amendArc)
    have i: "0 \<le> i" "i < ShapesSize c" using end_pt(1) by (auto simp: IsPtOnArc_def)
    have "pair_ok (ArcCount c1) (snd (shp c i), SHAPE_IS_PT)"
      using chain_ok_shp [OF assms i] by (auto simp: c1_def pair_ok_def index_ok_def)
    then have "chain_ok (c1\<lparr>m_shapes := (m_shapes c1)[nat i := (snd (shp c1 i), SHAPE_IS_PT)]\<rparr>)"
      using ok by (intro chain_ok_update_shape) (simp_all add: c1_def)
    moreover have "chain_ok (c1\<lparr>m_shapes := (m_shapes c1)[nat i := SHAPES_ARE_PT]\<rparr>)"
      using ok by (intro chain_ok_update_shape) simp_all
    ultimately show ?thesis using assms end_pt unfolding S c1_def [symmetric] by simp
  next
    case middle
    define k where "k = ArcIndex c i"
    define a1 where "a1 = new_arc F (arc_start (m_arcs c ! nat k)) (if co then pt c i else pt c (i - 1)) (m_arcs c ! nat k)"
    define a2 where "a2 = new_arc F (pt c i) (arc_end (m_arcs c ! nat k)) (m_arcs c ! nat k)"
    have i: "0 \<le> i" "i < ShapesSize c" using middle(1) by (auto simp: IsPtOnArc_def)
    have k: "k = fst (shp c i)" "snd (shp c i) = SHAPE_IS_PT" "0 \<le> k" "k < ArcCount c"
      using chain_ok_shp [OF assms i] middle(1,2) i
      by (auto simp: k_def ArcIndex_def IsSharedPt_def IsPtOnArc_def pair_ok_def index_ok_def prod_eq_iff)
    define as where "as = vec_insert (nat k + 1) [a2] ((m_arcs c)[nat k := a1])"
    have las: "length as = length (m_arcs c) + 1" by (simp add: as_def)
    have "chain_ok (c\<lparr>m_arcs := (m_arcs c)[nat k := a2]\<rparr>)" using assms by (simp add: chain_ok_arcs_update)
    moreover have "chain_ok (c\<lparr>m_arcs := as, m_shapes := take (nat i) (m_shapes c) @
        map (run_on_pair (shift_index 1)) (drop (nat i) (m_shapes c))\<rparr>)"
      using chain_ok_shift_tail [OF assms las pair_ok_pt order_refl, of "nat i"]
      by (simp add: list_update_beyond)
    moreover have "chain_ok (c\<lparr>m_arcs := as, m_shapes := take (nat (i + 1)) ((m_shapes c)[nat i := (fst (shp c i), k + 1)]) @
        map (run_on_pair (shift_index 1)) (drop (nat (i + 1)) (m_shapes c))\<rparr>)"
      using k i by (intro chain_ok_shift_tail [OF assms las]) (auto simp: pair_ok_def index_ok_def ShapesSize_def)
    moreover have "drop (nat (i + 1)) ((m_shapes c)[nat i := x]) = drop (nat (i + 1)) (m_shapes c)" for x
      using i by (simp add: nat_add_distrib)
    ultimately show ?thesis
      using middle unfolding S k_def [symmetric] a1_def [symmetric] a2_def [symmetric] as_def [symmetric]
      by (simp add: shp_def)
  qed
qed

definition same_frame :: "CHAIN \<Rightarrow> CHAIN \<Rightarrow> bool" where
  "same_frame c d \<longleftrightarrow> m_points d = m_points c \<and> length (m_shapes d) = length (m_shapes c) \<and> m_closed d = m_closed c"

lemma same_frame_if: "same_frame c x \<Longrightarrow> same_frame c y \<Longrightarrow> same_frame c (if b then x else y)"
  by simp

lemma take_map_drop_length: "length (take n xs @ map f (drop n xs)) = length xs"
  by simp

lemma splitArc_frame: "same_frame c (splitArc F i co c)"
  unfolding splitArc_def Let_def
  by (cases co; simp only: if_True if_False prod.case not_True_eq_False not_False_eq_True simp_thms;
      intro same_frame_if; simp add: same_frame_def)

lemma splitArc_points [simp]:
  "m_points (splitArc F i co c) = m_points c" "length (m_shapes (splitArc F i co c)) = length (m_shapes c)"
  "m_closed (splitArc F i co c) = m_closed c"
  using splitArc_frame by (simp_all add: same_frame_def)

lemma PointCount_simps [simp]:
  "PointCount (splitArc F i co c) = PointCount c" "PointCount (convertArc k c) = PointCount c"
  "PointCount (foldl (\<lambda>c k. convertArc (f k) c) c ks) = PointCount c"
  by (simp_all add: PointCount_def)

lemma pair_ok_reverse:
  assumes "pair_ok n sh"
  shows "pair_ok n (reverse_pair n sh)"
  using assms by (cases sh) (auto simp: pair_ok_def index_ok_def reverse_pair_def run_on_pair_def Let_def)

lemma chain_ok_Reverse [kicad_inv]: "chain_ok c \<Longrightarrow> chain_ok (Reverse c)"
  by (simp add: chain_ok_def Reverse_def pair_ok_reverse) (simp add: ArcCount_def pair_ok_reverse)

lemma chain_ok_transforms [kicad_inv]:
  assumes "chain_ok c"
  shows "chain_ok (Mirror x y r c)" "chain_ok (Mirror_axis s c)" "chain_ok (chain_Move v c)"
    "chain_ok (chain_Rotate rot c)" "chain_ok (Clear c)" "chain_ok (GenerateBBoxCache c)"
    "chain_ok (c\<lparr>m_width := w\<rparr>)" "chain_ok (c\<lparr>m_closed := b\<rparr>)" "chain_ok (c\<lparr>m_bbox := bb\<rparr>)"
  using assms by (auto simp: chain_ok_def ArcCount_def Mirror_def Mirror_axis_def chain_Move_def chain_Rotate_def
      Clear_def GenerateBBoxCache_def Let_def)

lemma chain_ok_SetClosed [kicad_inv]: "chain_ok c \<Longrightarrow> chain_ok (SetClosed b c)"
  by (simp add: SetClosed_def kicad_inv)

lemma chain_ok_push:
  assumes "chain_ok c" "length ps = length shs" "\<And>sh. sh \<in> set shs \<Longrightarrow> pair_ok n sh"
    "n = int (length as)" "ArcCount c \<le> n"
  shows "chain_ok (c\<lparr>m_points := m_points c @ ps, m_shapes := m_shapes c @ shs, m_arcs := as, m_bbox := b\<rparr>)"
proof -
  have "ArcCount (c\<lparr>m_points := m_points c @ ps, m_shapes := m_shapes c @ shs, m_arcs := as, m_bbox := b\<rparr>) = n"
    using assms(4) by (simp add: ArcCount_def)
  then show ?thesis
    using assms(1-3,5) unfolding chain_ok_def by (auto intro: pair_ok_mono)
qed

lemma chain_ok_Append [kicad_inv]:
  assumes "chain_ok c"
  shows "chain_ok (chain_Append p d c)"
proof -
  have *: "chain_ok (c1\<lparr>m_points := m_points c1 @ [p], m_shapes := m_shapes c1 @ [SHAPES_ARE_PT], m_bbox := b\<rparr>)"
    if "chain_ok c1" for c1 b
    using that by (auto simp: chain_ok_def ArcCount_def)
  have "chain_ok (if m_points c = [] then c\<lparr>m_bbox := BOX2_of p (Vec 0 0)\<rparr> else c)"
    using assms chain_ok_transforms(9) by simp
  from * [OF this] this show ?thesis
    by (simp add: chain_Append_def Let_def)
qed

lemma chain_ok_Append_first:
  assumes "chain_ok c" "chain_ok d" "m_points d \<noteq> []"
  shows "length (m_shapes (Append_first d c)) = length (m_points (Append_first d c))"
    and "\<forall>sh\<in>set (m_shapes (Append_first d c)). pair_ok (ArcCount c + ArcCount d) sh"
proof -
  have nd: "m_shapes d \<noteq> []" using assms(2,3) chain_ok_len by fastforce
  have sh0: "pair_ok (ArcCount d) (hd (m_shapes d))" using nd chain_okD [OF assms(2)] by simp
  have old: "pair_ok (ArcCount c + ArcCount d) sh" if "sh \<in> set (m_shapes c)" for sh
    using chain_okD [OF assms(1) that] by (rule pair_ok_mono) simp
  have new: "pair_ok (ArcCount c + ArcCount d) (run_on_pair (shift_index (ArcCount c)) (hd (m_shapes d)))"
    using sh0 by (rule pair_ok_shift) simp_all
  have lens: "m_points c = [] \<longleftrightarrow> m_shapes c = []" using chain_ok_len [OF assms(1)] by auto
  have merged: "pair_ok (ArcCount c + ArcCount d) (fst (hd (m_shapes d)) + ArcCount c, snd (last (m_shapes c)))"
      "last (m_shapes c) \<noteq> SHAPES_ARE_PT \<Longrightarrow>
       pair_ok (ArcCount c + ArcCount d) (fst (last (m_shapes c)), fst (hd (m_shapes d)) + ArcCount c)"
    if "m_shapes c \<noteq> []" "IsArcSegment d 0" "last (m_shapes c) = SHAPES_ARE_PT \<or> True"
    for x
  proof -
    have "fst (hd (m_shapes d)) \<noteq> SHAPE_IS_PT"
      using that(2) nd sh0 by (cases "hd (m_shapes d)")
        (auto simp: IsArcSegment_def IsPtOnArc_def Let_def shp_def hd_conv_nth pair_ok_def split: if_splits)
    moreover have "pair_ok (ArcCount c) (last (m_shapes c))" using that(1) chain_okD [OF assms(1)] by simp
    ultimately show "last (m_shapes c) \<noteq> SHAPES_ARE_PT \<Longrightarrow>
       pair_ok (ArcCount c + ArcCount d) (fst (last (m_shapes c)), fst (hd (m_shapes d)) + ArcCount c)"
      "pair_ok (ArcCount c + ArcCount d) (fst (hd (m_shapes d)) + ArcCount c, snd (last (m_shapes c)))"
      using sh0 by (auto simp: pair_ok_def index_ok_def prod_eq_iff)
  qed
  show "length (m_shapes (Append_first d c)) = length (m_points (Append_first d c))"
    using chain_ok_len [OF assms(1)] lens by (auto simp: Append_first_def Let_def)
  show "\<forall>sh\<in>set (m_shapes (Append_first d c)). pair_ok (ArcCount c + ArcCount d) sh"
    using old new merged lens by (auto simp: Append_first_def Let_def dest!: in_set_butlastD)
qed

lemma Append_first_arcs [simp]: "m_arcs (Append_first d c) = m_arcs c" "m_closed (Append_first d c) = m_closed c"
  by (simp_all add: Append_first_def Let_def)

lemma chain_ok_Append_chain [kicad_inv]:
  assumes "chain_ok c" "chain_ok d"
  shows "chain_ok (Append_chain d c)"
proof (cases "m_points d = []")
  case False
  note F = chain_ok_Append_first [OF assms False]
  define shs where "shs = map (\<lambda>i. if ArcIndex d (int i) \<noteq> SHAPE_IS_PT
      then run_on_pair (shift_index (ArcCount c)) (m_shapes d ! i) else SHAPES_ARE_PT) [1..<length (m_points d)]"
  have "pair_ok (ArcCount c + ArcCount d) sh" if sh: "sh \<in> set shs" for sh
  proof -
    obtain i where i: "i < length (m_shapes d)" "sh = (if ArcIndex d (int i) \<noteq> SHAPE_IS_PT
      then run_on_pair (shift_index (ArcCount c)) (m_shapes d ! i) else SHAPES_ARE_PT)"
      using sh chain_ok_len [OF assms(2)] by (auto simp: shs_def)
    have "pair_ok (ArcCount d) (m_shapes d ! i)" using i(1) chain_okD [OF assms(2)] by simp
    then have "pair_ok (ArcCount c + ArcCount d) (run_on_pair (shift_index (ArcCount c)) (m_shapes d ! i))"
      by (rule pair_ok_shift) simp_all
    moreover have "pair_ok (ArcCount c + ArcCount d) SHAPES_ARE_PT" by (rule pair_ok_pt) simp
    ultimately show ?thesis unfolding i(2) by presburger
  qed
  then have "chain_ok ((Append_first d c)\<lparr>m_points := m_points (Append_first d c) @ tl (m_points d),
      m_shapes := m_shapes (Append_first d c) @ shs, m_arcs := m_arcs c @ m_arcs d, m_bbox := b\<rparr>)" for b
    using F by (auto simp: chain_ok_def ArcCount_def shs_def)
  then show ?thesis
    unfolding Append_chain_def Let_def if_not_P [OF False] shs_def [symmetric] by (intro chain_ok_merge)
qed (simp add: Append_chain_def assms)

lemma chain_ok_Append_arc [kicad_inv]: "chain_ok c \<Longrightarrow> chain_ok (Append_arc F a c)"
  by (simp add: Append_arc_def kicad_inv)

lemma vec_insert_ok: "\<forall>x\<in>set xs. P x \<Longrightarrow> \<forall>x\<in>set new. P x \<Longrightarrow> \<forall>x\<in>set (vec_insert i new xs). P x"
  by (auto simp: set_vec_insert)

lemma chain_ok_insert_at:
  assumes "chain_ok c" "length ps = length shs" "\<forall>sh\<in>set shs. pair_ok (ArcCount c) sh"
  shows "chain_ok (c\<lparr>m_points := vec_insert i ps (m_points c), m_shapes := vec_insert i shs (m_shapes c)\<rparr>)"
  using assms by (auto simp: chain_ok_def set_vec_insert ArcCount_def)

lemma chain_ok_Insert_pt [kicad_inv]:
  assumes "chain_ok c"
  shows "chain_ok (Insert_pt F i p c)"
proof -
  define c1 where "c1 = (if i > 0 \<and> IsPtOnArc c i then splitArc F i False c else c)"
  have "chain_ok c1" using assms by (simp add: c1_def chain_ok_splitArc)
  from chain_ok_insert_at [OF this, of "[p]" "[SHAPES_ARE_PT]"] show ?thesis
    using assms unfolding Insert_pt_def c1_def [symmetric] Let_def
    by (simp add: chain_ok_Append)
qed

lemma foldl_arc_pos:
  assumes "\<forall>sh\<in>set shs. pair_ok n sh" "0 \<le> p" "p \<le> n"
  shows "0 \<le> foldl (\<lambda>pos sh. if sh \<noteq> SHAPES_ARE_PT then max (fst sh) (snd sh) + 1 else pos) p shs \<and>
    foldl (\<lambda>pos sh. if sh \<noteq> SHAPES_ARE_PT then max (fst sh) (snd sh) + 1 else pos) p shs \<le> n"
  using assms by (induction shs arbitrary: p) (auto simp: pair_ok_def index_ok_def)

lemma pair_ok_open_gap:
  "pair_ok n sh \<Longrightarrow> 0 \<le> k \<Longrightarrow> pair_ok (n + 1) (run_on_pair (\<lambda>i. if i \<ge> k then i + 1 else i) sh)"
  by (auto simp: pair_ok_def index_ok_def run_on_pair_def)

lemma chain_ok_Insert_arc [kicad_inv]:
  assumes "chain_ok c" "Insert_arc F i a c = Some d"
  shows "chain_ok d"
proof (cases "i = 0 \<and> 0 < PointCount c")
  case True
  define k where "k = foldl (\<lambda>pos sh. if sh \<noteq> SHAPES_ARE_PT then max (fst sh) (snd sh) + 1 else pos)
    (ArcCount c) (rev (m_shapes c))"
  define shs where "shs = map (run_on_pair (\<lambda>i. if i \<ge> k then i + 1 else i)) (m_shapes c)"
  have k: "0 \<le> k" "k \<le> ArcCount c"
    using foldl_arc_pos [of "rev (m_shapes c)" "ArcCount c" "ArcCount c"] chain_okD [OF assms(1)]
    by (auto simp: k_def)
  have d: "d = c\<lparr>m_arcs := vec_insert (nat k) [a\<lparr>arc_width := 0\<rparr>] (m_arcs c),
      m_points := vec_insert 0 (fl_poly F a) (m_points c),
      m_shapes := vec_insert 0 (replicate (length (fl_poly F a)) (k, SHAPE_IS_PT)) shs\<rparr>"
    using assms(2) True by (simp add: Insert_arc_def Let_def k_def shs_def)
  have n: "ArcCount d = ArcCount c + 1" by (simp add: d ArcCount_def)
  have "\<forall>sh\<in>set shs. pair_ok (ArcCount d) sh"
    unfolding n shs_def using k(1) chain_okD [OF assms(1)] by (auto intro: pair_ok_open_gap)
  moreover have "pair_ok (ArcCount d) (k, SHAPE_IS_PT)" using k n by simp
  ultimately have "\<forall>sh\<in>set (m_shapes d). pair_ok (ArcCount d) sh"
    by (auto simp: d set_vec_insert)
  then show ?thesis
    using chain_ok_len [OF assms(1)] by (auto simp: chain_ok_def d shs_def)
qed (use assms in \<open>auto simp: Insert_arc_def split: if_splits\<close>)

lemma set_erase_ok: "\<forall>x\<in>set xs. P x \<Longrightarrow> \<forall>x\<in>set (vec_erase i j xs). P x"
  using set_vec_erase by fastforce

lemma chain_ok_erase:
  assumes "chain_ok c"
  shows "chain_ok (c\<lparr>m_shapes := vec_erase i j (m_shapes c), m_points := vec_erase i j (m_points c)\<rparr>)"
  using assms set_erase_ok [of "m_shapes c"]
  by (auto simp: chain_ok_def ArcCount_def vec_erase_def dest!: in_set_takeD in_set_dropD)

text \<open>The chain \<open>Remove\<close> erases from: both cuts made and the arcs of the range turned to points.\<close>

definition Remove_prepared :: "FLOATS \<Rightarrow> int \<Rightarrow> int \<Rightarrow> CHAIN \<Rightarrow> CHAIN" where
  "Remove_prepared F s e c =
    (let c1 = (if IsPtOnArc c s then splitArc F s False c else c);
         c2 = (if IsPtOnArc c1 (e + 1) then splitArc F (e + 1) False c1 else c1)
     in foldl (\<lambda>c arc. convertArc arc c) c2
          (sort (remdups (concat (map (logged_arcs c2 s e) [s..e])))))"

lemma Remove_prepared_ok: "chain_ok c \<Longrightarrow> chain_ok (Remove_prepared F s e c)"
  using foldl_convertArc_ok [where f = "\<lambda>k. k"] by (simp add: Remove_prepared_def Let_def chain_ok_splitArc)

lemma Remove_prepared_frame [simp]:
  "m_points (Remove_prepared F s e c) = m_points c" "length (m_shapes (Remove_prepared F s e c)) = length (m_shapes c)"
  "m_closed (Remove_prepared F s e c) = m_closed c"
  using foldl_convertArc_sizes [where f = "\<lambda>k. k"] by (simp_all add: Remove_prepared_def Let_def)

definition from_end :: "CHAIN \<Rightarrow> int \<Rightarrow> int" where
  "from_end c i = (if i < 0 then i + PointCount c else i)"

lemma Remove_cases:
  "Remove F s0 e0 c =
    (let s = from_end c s0; e = min (from_end c e0) (PointCount c - 1) in
     if s \<ge> PointCount c then Some c
     else if s < 0 \<or> e < s - 1 then None
     else
       (let c3 = Remove_prepared F s e c in
        Some (c3\<lparr>m_shapes := vec_erase (nat s) (nat (e + 1)) (m_shapes c3),
                 m_points := vec_erase (nat s) (nat (e + 1)) (m_points c3)\<rparr>)))"
  unfolding Remove_def Remove_prepared_def from_end_def Let_def by (rule refl)

lemma chain_ok_Remove_step:
  "chain_ok c \<Longrightarrow> chain_ok ((Remove_prepared F s e c)\<lparr>m_shapes := vec_erase i j (m_shapes (Remove_prepared F s e c)),
     m_points := vec_erase i j (m_points c)\<rparr>)"
  using chain_ok_erase [OF Remove_prepared_ok [of c F s e], of i j] by simp

lemma chain_ok_Remove [kicad_inv]: "chain_ok c \<Longrightarrow> Remove F s e c = Some d \<Longrightarrow> chain_ok d"
  unfolding Remove_cases Let_def
  by (auto split: if_splits intro!: chain_ok_Remove_step)

lemma chain_ok_Replace_pt [kicad_inv]: "chain_ok c \<Longrightarrow> Replace_pt F s e p c = Some d \<Longrightarrow> chain_ok d"
  by (auto simp: Replace_pt_def split: option.splits intro: chain_ok_Insert_pt chain_ok_Remove)

lemma chain_ok_Replace_paste:
  assumes "chain_ok c" "chain_ok d" "Replace_paste i d c = Some r"
  shows "chain_ok r"
proof (cases "m_points d = []")
  case False
  have "pair_ok (ArcCount c + ArcCount d) x" if "x \<in> set (m_shapes c)" for x
    using chain_okD [OF assms(1) that] by (rule pair_ok_mono) simp
  moreover have "pair_ok (ArcCount c + ArcCount d) (run_on_pair (shift_index (ArcCount c)) x)"
    if "x \<in> set (m_shapes d)" for x
    using chain_okD [OF assms(2) that] by (rule pair_ok_shift) simp_all
  ultimately show ?thesis
    using assms(3) False chain_ok_len [OF assms(1)] chain_ok_len [OF assms(2)]
    by (auto simp: Replace_paste_def chain_ok_def set_vec_insert ArcCount_def split: if_splits)
qed (use assms in \<open>auto simp: Replace_paste_def\<close>)

lemma chain_ok_Replace_back:
  "chain_ok c \<Longrightarrow> chain_ok d \<Longrightarrow> Replace_back F s e d c = Some r \<Longrightarrow> chain_ok r"
  by (auto simp: Replace_back_def split: if_splits option.splits
      intro: chain_ok_Replace_paste chain_ok_Remove)

lemma chain_ok_Replace_line [kicad_inv]:
  "chain_ok c \<Longrightarrow> chain_ok d \<Longrightarrow> Replace_line F s e d c = Some r \<Longrightarrow> chain_ok r"
  by (auto simp: Replace_line_def Let_def split: if_splits option.splits
      intro: chain_ok_Replace_back chain_ok_Remove)

lemma chain_ok_SetPoint [kicad_inv]:
  assumes "chain_ok c" "SetPoint i p c = Some d"
  shows "chain_ok d"
proof -
  have "chain_ok (c\<lparr>m_points := ps\<rparr>)" if "length ps = length (m_points c)" for ps
    using assms(1) that by (simp add: chain_ok_def ArcCount_def)
  then show ?thesis
    using assms(2) by (auto simp: SetPoint_def Let_def split: if_splits intro!: chain_ok_convertArc)
qed

lemma chain_ok_RemoveShape [kicad_inv]: "chain_ok c \<Longrightarrow> RemoveShape F i c = Some d \<Longrightarrow> chain_ok d"
  unfolding RemoveShape_def Let_def by (auto split: if_splits intro: chain_ok_Remove)

lemma chain_ok_push_arc_points:
  assumes "chain_ok rv"
  shows "chain_ok (push_arc_points ps a rv)"
proof -
  have "pair_ok (ArcCount rv + 1) x" if "x \<in> set (m_shapes rv)" for x
    using chain_okD [OF assms that] by (rule pair_ok_mono) simp
  then show ?thesis
    using chain_ok_len [OF assms] by (auto simp: push_arc_points_def chain_ok_def ArcCount_def add.commute)
qed

lemma chain_ok_slice_loop:
  assumes "slice_loop F c e i rv = Some d" "chain_ok rv"
  shows "chain_ok d"
proof -
  have "chain_ok rv \<longrightarrow> chain_ok d"
  proof (rule slice_loop.raw_induct [where P = "\<lambda>F c e i rv d. chain_ok rv \<longrightarrow> chain_ok d", OF _ assms(1)], rule impI,
      goal_cases)
    case (1 loop F c e i rv d)
    note IH = "1"(1) [rule_format]
    show ?case
      using "1"(2,3) by (auto split: if_splits option.splits simp: Let_def
          intro: chain_ok_Append chain_ok_push_arc_points chain_ok_Append_arc IH)
  qed
  with assms(2) show ?thesis by simp
qed

lemma chain_ok_Slice [kicad_inv]: "Slice F c s e = Some d \<Longrightarrow> chain_ok d"
  unfolding Slice_def Let_def
  by (auto split: if_splits option.splits intro: chain_ok_slice_loop [OF _ chain_ok_push_arc_points [OF chain_ok_empty]]
        chain_ok_slice_loop [OF _ chain_ok_empty])

lemma ArcIndex_ok: "chain_ok c \<Longrightarrow> 0 \<le> i \<Longrightarrow> i < ShapesSize c \<Longrightarrow> index_ok (ArcCount c) (ArcIndex c i)"
  using chain_ok_shp [of c i] by (auto simp: ArcIndex_def pair_ok_def)

lemma IsArcSegment_range: "IsArcSegment c i \<Longrightarrow> 0 \<le> i \<and> i < ShapesSize c"
  by (auto simp: IsArcSegment_def IsPtOnArc_def Let_def split: if_splits)

lemma chain_ok_Split [kicad_inv]:
  assumes "chain_ok c" "Split F p exact c = (d, k)"
  shows "chain_ok d"
proof -
  have "chain_ok (splitArc F (i + 1) True (c\<lparr>m_points := vec_insert (nat (i + 1)) [p] (m_points c),
      m_shapes := vec_insert (nat (i + 1)) [(ArcIndex c i, SHAPE_IS_PT)] (m_shapes c)\<rparr>))"
    if "IsArcSegment c i" for i
    using ArcIndex_ok [OF assms(1)] IsArcSegment_range [OF that]
    by (intro chain_ok_splitArc chain_ok_insert_at [OF assms(1)]) (auto simp: index_ok_def)
  then show ?thesis
    using assms unfolding Split_def Let_def by (auto split: if_splits intro: chain_ok_Insert_pt)
qed

text \<open>Everything a client can build: each editing operation applied to chains already built.\<close>

inductive chain_made :: "FLOATS \<Rightarrow> CHAIN \<Rightarrow> bool" for F :: FLOATS where
  made_empty: "chain_made F chain_empty"
| made_points: "chain_made F (chain_of_points ps b)"
| made_arc: "chain_made F (chain_of_arc F a b)"
| made_Append: "chain_made F c \<Longrightarrow> chain_made F (chain_Append p dup c)"
| made_Append_chain: "chain_made F c \<Longrightarrow> chain_made F d \<Longrightarrow> chain_made F (Append_chain d c)"
| made_Append_arc: "chain_made F c \<Longrightarrow> chain_made F (Append_arc F a c)"
| made_Insert: "chain_made F c \<Longrightarrow> chain_made F (Insert_pt F i p c)"
| made_Insert_arc: "chain_made F c \<Longrightarrow> Insert_arc F i a c = Some d \<Longrightarrow> chain_made F d"
| made_Remove: "chain_made F c \<Longrightarrow> Remove F s e c = Some d \<Longrightarrow> chain_made F d"
| made_RemoveShape: "chain_made F c \<Longrightarrow> RemoveShape F i c = Some d \<Longrightarrow> chain_made F d"
| made_Replace: "chain_made F c \<Longrightarrow> Replace_pt F s e p c = Some d \<Longrightarrow> chain_made F d"
| made_Replace_line: "chain_made F c \<Longrightarrow> chain_made F l \<Longrightarrow> Replace_line F s e l c = Some d \<Longrightarrow> chain_made F d"
| made_SetPoint: "chain_made F c \<Longrightarrow> SetPoint i p c = Some d \<Longrightarrow> chain_made F d"
| made_SetClosed: "chain_made F c \<Longrightarrow> chain_made F (SetClosed b c)"
| made_SetWidth: "chain_made F c \<Longrightarrow> chain_made F (c\<lparr>m_width := w\<rparr>)"
| made_ClearArcs: "chain_made F c \<Longrightarrow> chain_made F (ClearArcs c)"
| made_Clear: "chain_made F c \<Longrightarrow> chain_made F (Clear c)"
| made_Reverse: "chain_made F c \<Longrightarrow> chain_made F (Reverse c)"
| made_Mirror: "chain_made F c \<Longrightarrow> chain_made F (Mirror x y r c)"
| made_Mirror_axis: "chain_made F c \<Longrightarrow> chain_made F (Mirror_axis seg c)"
| made_Move: "chain_made F c \<Longrightarrow> chain_made F (chain_Move v c)"
| made_Rotate: "chain_made F c \<Longrightarrow> chain_made F (chain_Rotate rot c)"
| made_cache: "chain_made F c \<Longrightarrow> chain_made F (GenerateBBoxCache c)"
| made_Slice: "chain_made F c \<Longrightarrow> Slice F c s e = Some d \<Longrightarrow> chain_made F d"
| made_Split: "chain_made F c \<Longrightarrow> Split F p exact c = (d, k) \<Longrightarrow> chain_made F d"

lemma chain_made_ok: "chain_made F c \<Longrightarrow> chain_ok c"
  by (induction rule: chain_made.induct) (rule kicad_inv; assumption)+

subsection \<open>Reversal and arcs\<close>

lemma reverse_pair_twice:
  assumes "pair_ok n sh"
  shows "reverse_pair n (reverse_pair n sh) = sh"
  using assms by (cases sh) (auto simp: pair_ok_def index_ok_def reverse_pair_def run_on_pair_def Let_def)

lemma arc_Reverse_twice [simp]: "arc_Reverse (arc_Reverse a) = a"
  by (simp add: arc_Reverse_def)

lemma Reverse_twice: "chain_ok c \<Longrightarrow> Reverse (Reverse c) = c"
  by (simp add: Reverse_def ArcCount_def rev_map chain_ok_def reverse_pair_twice cong: map_cong)

interpretation chain_reverse: involution_on Reverse chain_ok
  by unfold_locales (simp_all add: chain_ok_Reverse Reverse_twice)

lemma mirror_pt_twice [simp]: "mirror_pt x y r (mirror_pt x y r p) = p"
  by (simp add: mirror_pt_def VECTOR2I_eq_iff)

lemma arc_map_comp: "arc_map f (arc_map g a) = arc_map (f \<circ> g) a"
  by (simp add: arc_map_def)

lemma Mirror_twice: "Mirror x y r (Mirror x y r c) = c"
proof -
  have "arc_map (\<lambda>x. x) = (\<lambda>a. a)" by (simp add: arc_map_def fun_eq_iff)
  then show ?thesis by (simp add: Mirror_def arc_map_comp comp_def)
qed

interpretation chain_mirror: involution_on "Mirror x y r" chain_ok
  by unfold_locales (simp_all add: chain_ok_transforms Mirror_twice)

text \<open>The arcs a point refers to, as arcs and not as numbers.\<close>

definition point_arcs :: "CHAIN \<Rightarrow> nat \<Rightarrow> SHAPE_ARC list" where
  "point_arcs c i = map (\<lambda>k. m_arcs c ! nat k) (arc_refs_of (m_shapes c ! i))"

end
