(* ===== verification/Chain_Queries.thy ===== *)
theory Chain_Queries
  imports Line_Chain "HOL-Library.Sublist"
begin

text \<open>
  The queries of \<open>geometry/shape_line_chain.cpp\<close>: whether a point is inside a closed chain
  (\<open>PointInside\<close> and the incremental \<open>POINT_INSIDE_TRACKER\<close>) or on an edge, crossings with segments and
  chains, collision, the nearest point, and the removal of superfluous vertices (\<open>Simplify\<close>).

  Floating point: \<open>hypot\<close> against a whole bound is compared exactly; the determinant of \<open>processVertex\<close>
  is computed in \<open>double\<close>, two rounded products and their rounded difference (\<open>to_double\<close>); \<open>sq\<close> is the
  square root cut to an integer; collision with and length of an arc are parameters.
\<close>

subsection \<open>Inside and on an edge\<close>

definition EdgeContainingPoint :: "FLOATS \<Rightarrow> CHAIN \<Rightarrow> VECTOR2I \<Rightarrow> int \<Rightarrow> int" where
  "EdgeContainingPoint F c aPt aAccuracy =
    (if PointCount c = 0 then - 1
     else if PointCount c = 1 then
       (let dist = vsub (pt c 0) aPt in
        if 0 \<le> aAccuracy + 1 \<and> SquaredEuclideanNorm dist \<le> (aAccuracy + 1) * (aAccuracy + 1) then 0 else - 1)
     else
       (case find (\<lambda>i. let s = CSegment c i in
            segA s = aPt \<or> segB s = aPt \<or> Distance_pt (fl_guess F) s aPt \<le> aAccuracy + 1) [0..SegmentCount c - 1] of
          None \<Rightarrow> - 1 | Some i \<Rightarrow> i))"

definition PointOnEdge :: "FLOATS \<Rightarrow> CHAIN \<Rightarrow> VECTOR2I \<Rightarrow> int \<Rightarrow> bool" where
  "PointOnEdge F c aPt aAccuracy \<longleftrightarrow> EdgeContainingPoint F c aPt aAccuracy \<ge> 0"

text \<open>One edge of the loop of \<open>PointInside\<close>, and the loop over the vertices with their successors.\<close>

definition inside_edge :: "VECTOR2I \<Rightarrow> VECTOR2I \<Rightarrow> VECTOR2I \<Rightarrow> bool" where
  "inside_edge aPt p1 p2 \<longleftrightarrow>
    (let diff = vsub p2 p1 in
     if vy diff \<noteq> 0 then
       (let d = rescale (vx diff) (vy aPt - vy p1) (vy diff)
        in ((vy p1 > vy aPt) \<noteq> (vy p2 > vy aPt)) \<and> vx aPt - vx p1 < d)
     else False)"

definition PointInside :: "FLOATS \<Rightarrow> CHAIN \<Rightarrow> VECTOR2I \<Rightarrow> int \<Rightarrow> bool \<Rightarrow> bool" where
  "PointInside F c aPt aAccuracy aUseBBoxCache =
    (if aUseBBoxCache \<and> \<not> BOX2_Contains (m_bbox c) aPt then False
     else if \<not> m_closed c \<or> PointCount c < 3 then False
     else
       (let inside = foldl (\<lambda>inside i.
              if inside_edge aPt (pt c i) (pt c (if i + 1 = PointCount c then 0 else i + 1)) then \<not> inside else inside)
            False [0..PointCount c - 1]
        in if aAccuracy \<le> 1 then inside else inside \<or> PointOnEdge F c aPt aAccuracy))"

definition CheckClearance :: "FLOATS \<Rightarrow> CHAIN \<Rightarrow> VECTOR2I \<Rightarrow> int \<Rightarrow> bool" where
  "CheckClearance F c aP aDist =
    (if PointCount c = 0 then False
     else if PointCount c = 1 then pt c 0 = aP
     else (\<exists>i\<in>set [0..SegmentCount c - 1]. let s = CSegment c i in
            segA s = aP \<or> segB s = aP \<or> Distance_pt (fl_guess F) s aP \<le> aDist))"

subsection \<open>The incremental test\<close>

record TRACKER =
  m_point :: VECTOR2I
  m_lastPoint :: VECTOR2I
  m_firstPoint :: VECTOR2I
  m_finished :: bool
  m_state :: int
  m_count :: int

definition TRACKER_new :: "VECTOR2I \<Rightarrow> TRACKER" where
  "TRACKER_new aPoint = \<lparr>m_point = aPoint, m_lastPoint = Vec 0 0, m_firstPoint = Vec 0 0, m_finished = False,
     m_state = 0, m_count = 0\<rparr>"

definition tracker_det :: "VECTOR2I \<Rightarrow> VECTOR2I \<Rightarrow> VECTOR2I \<Rightarrow> int" where
  "tracker_det p ip ipNext =
    (let u = vsub32 ip p; v = vsub32 ipNext p
     in to_double (to_double (vx u * vy v) - to_double (vx v * vy u)))"

definition on_boundary :: "TRACKER \<Rightarrow> bool \<times> TRACKER" where
  "on_boundary t = (False, t\<lparr>m_finished := True, m_state := - 1\<rparr>)"

definition toggle :: "TRACKER \<Rightarrow> bool \<times> TRACKER" where
  "toggle t = (True, t\<lparr>m_state := 1 - m_state t\<rparr>)"

definition by_side :: "VECTOR2I \<Rightarrow> VECTOR2I \<Rightarrow> TRACKER \<Rightarrow> bool \<times> TRACKER" where
  "by_side ip ipNext t =
    (let d = tracker_det (m_point t) ip ipNext in
     if d = 0 then on_boundary t else if (d > 0) = (vy ipNext > vy ip) then toggle t else (True, t))"

definition processVertex :: "VECTOR2I \<Rightarrow> VECTOR2I \<Rightarrow> TRACKER \<Rightarrow> bool \<times> TRACKER" where
  "processVertex ip ipNext t =
    (let p = m_point t in
     if vy ipNext = vy p \<and> (vx ipNext = vx p \<or> (vy ip = vy p \<and> ((vx ipNext > vx p) = (vx ip < vx p)))) then on_boundary t
     else if (vy ip < vy p) \<noteq> (vy ipNext < vy p) then
       (if vx ip \<ge> vx p then (if vx ipNext > vx p then toggle t else by_side ip ipNext t)
        else if vx ipNext > vx p then by_side ip ipNext t else (True, t))
     else (True, t))"

fun process_points :: "VECTOR2I list \<Rightarrow> TRACKER \<Rightarrow> TRACKER" where
  "process_points [] t = t"
| "process_points (p # ps) t =
    (let (go, t) = processVertex (m_lastPoint t) p t in
     if \<not> go then t else process_points ps (t\<lparr>m_lastPoint := p\<rparr>))"

definition AddPolyline :: "CHAIN \<Rightarrow> TRACKER \<Rightarrow> TRACKER option" where
  "AddPolyline aPolyline t =
    (if m_count t = 0 \<and> m_points aPolyline = [] then None
     else
       (let t = (if m_count t = 0 then t\<lparr>m_lastPoint := pt aPolyline 0, m_firstPoint := pt aPolyline 0\<rparr> else t);
            t = t\<lparr>m_count := m_count t + PointCount aPolyline\<rparr>
        in Some (process_points (tl (m_points aPolyline)) t)))"

definition IsInside :: "TRACKER \<Rightarrow> bool \<times> TRACKER" where
  "IsInside t = (let t = snd (processVertex (m_lastPoint t) (m_firstPoint t) t) in (m_state t > 0, t))"

subsection \<open>Crossings\<close>

record INTERSECTION =
  is_p :: VECTOR2I
  index_our :: int
  index_their :: int
  is_corner_our :: bool
  is_corner_their :: bool
  is_valid :: bool

definition INTERSECTION_new :: INTERSECTION where
  "INTERSECTION_new = \<lparr>is_p = Vec 0 0, index_our = - 1, index_their = - 1, is_corner_our = False, is_corner_their = False,
     is_valid = False\<rparr>"

text \<open>The points are sorted by the distance to the start of the segment; ties stay as they are.\<close>

definition chain_Intersect_seg :: "FLOATS \<Rightarrow> CHAIN \<Rightarrow> SEG \<Rightarrow> INTERSECTION list \<Rightarrow> INTERSECTION list" where
  "chain_Intersect_seg F c aSeg aIp =
    sort_key (\<lambda>is. fl_norm F (vsub (segA aSeg) (is_p is)))
      (aIp @ concat (map (\<lambda>s. case Intersect (CSegment c s) aSeg False False of None \<Rightarrow> []
         | Some p \<Rightarrow> [\<lparr>is_p = p, index_our = s, index_their = - 1, is_corner_our = False, is_corner_their = False,
                       is_valid = True\<rparr>]) [0..SegmentCount c - 1]))"

definition addIntersection :: "INTERSECTION list \<Rightarrow> int \<Rightarrow> INTERSECTION \<Rightarrow> INTERSECTION list" where
  "addIntersection aIps aPc aP = aIps @ [aP]"

text \<open>The body of the two loops: what segment \<open>s1\<close> of one chain and \<open>s2\<close> of the other add.\<close>

definition meet_collinear :: "FLOATS \<Rightarrow> int \<Rightarrow> SEG \<Rightarrow> SEG \<Rightarrow> INTERSECTION \<Rightarrow> INTERSECTION list \<Rightarrow> INTERSECTION list" where
  "meet_collinear F pc a b is0 aIp =
    (let (is0, aIp) = (if Contains_pt (fl_guess F) a (segA b)
           then (let is = is0\<lparr>is_p := segA b, is_corner_their := True\<rparr> in (is, addIntersection aIp pc is)) else (is0, aIp));
         (is0, aIp) = (if Contains_pt (fl_guess F) a (segB b)
           then (let is = is0\<lparr>is_p := segB b, index_their := index_their is0 + 1, is_corner_their := True\<rparr>
                 in (is, addIntersection aIp pc is)) else (is0, aIp));
         (is0, aIp) = (if Contains_pt (fl_guess F) b (segA a)
           then (let is = is0\<lparr>is_p := segA a, is_corner_our := True\<rparr> in (is, addIntersection aIp pc is)) else (is0, aIp))
     in if Contains_pt (fl_guess F) b (segB a)
        then addIntersection aIp pc (is0\<lparr>is_p := segB a, index_our := index_our is0 + 1, is_corner_our := True\<rparr>) else aIp)"

definition meet_point :: "int \<Rightarrow> SEG \<Rightarrow> SEG \<Rightarrow> INTERSECTION \<Rightarrow> VECTOR2I \<Rightarrow> INTERSECTION list \<Rightarrow> INTERSECTION list" where
  "meet_point pc a b is0 p aIp =
    (let is0 = is0\<lparr>is_p := p, is_corner_our := False, is_corner_their := False\<rparr>;
         is0 = (if p = segA a then is0\<lparr>is_corner_our := True\<rparr> else is0);
         is0 = (if p = segB a then is0\<lparr>is_corner_our := True, index_our := index_our is0 + 1\<rparr> else is0);
         is0 = (if p = segA b then is0\<lparr>is_corner_their := True\<rparr> else is0);
         is0 = (if p = segB b then is0\<lparr>is_corner_their := True, index_their := index_their is0 + 1\<rparr> else is0)
     in addIntersection aIp pc is0)"

definition chain_Intersect ::
  "FLOATS \<Rightarrow> CHAIN \<Rightarrow> CHAIN \<Rightarrow> bool \<Rightarrow> BOX2 option \<Rightarrow> INTERSECTION list \<Rightarrow> INTERSECTION list" where
  "chain_Intersect F c aChain aExcludeColinearAndTouching aChainBBox aIp =
    (let bb_other = (case aChainBBox of Some b \<Rightarrow> b | None \<Rightarrow> BBox 0 aChain) in
     foldl (\<lambda>ips s1.
       let a = CSegment c s1; bb_cur = BOX2_of (segA a) (vsub (segB a) (segA a)) in
       if \<not> BOX2_Intersects bb_other bb_cur then ips
       else foldl (\<lambda>ips s2.
         let b = CSegment aChain s2;
             is = \<lparr>is_p = Vec 0 0, index_our = s1, index_their = s2, is_corner_our = False, is_corner_their = False, is_valid = True\<rparr>;
             p = Intersect a b False False; coll = Collinear a b
         in if coll \<and> \<not> aExcludeColinearAndTouching then meet_collinear F (PointCount c) a b is ips
            else (case p of Some q \<Rightarrow> meet_point (PointCount c) a b is q ips | None \<Rightarrow> ips))
         ips [0..SegmentCount aChain - 1])
       aIp [0..SegmentCount c - 1])"

definition chain_Intersects :: "FLOATS \<Rightarrow> CHAIN \<Rightarrow> CHAIN \<Rightarrow> bool" where
  "chain_Intersects F c aChain \<longleftrightarrow> length (chain_Intersect F c aChain False None []) \<noteq> 0"

definition self_meet :: "FLOATS \<Rightarrow> CHAIN \<Rightarrow> int \<Rightarrow> int \<Rightarrow> INTERSECTION option" where
  "self_meet F c s1 s2 =
    (let s2a = segA (CSegment c s2); s2b = segB (CSegment c s2);
         is = INTERSECTION_new\<lparr>index_our := s1, index_their := s2\<rparr> in
     if s1 + 1 \<noteq> s2 \<and> Contains_pt (fl_guess F) (CSegment c s1) s2a then Some (is\<lparr>is_p := s2a\<rparr>)
     else if Contains_pt (fl_guess F) (CSegment c s1) s2b \<and> \<not> (m_closed c \<and> s1 = 0 \<and> s2 = SegmentCount c - 1)
     then Some (is\<lparr>is_p := s2b\<rparr>)
     else map_option (\<lambda>p. is\<lparr>is_p := p\<rparr>) (Intersect (CSegment c s1) (CSegment c s2) True False))"

definition first_some :: "('a \<Rightarrow> 'b option) \<Rightarrow> 'a list \<Rightarrow> 'b option" where
  "first_some f xs = (case find (\<lambda>x. f x \<noteq> None) xs of None \<Rightarrow> None | Some x \<Rightarrow> f x)"

definition SelfIntersecting :: "FLOATS \<Rightarrow> CHAIN \<Rightarrow> INTERSECTION option" where
  "SelfIntersecting F c =
    first_some (\<lambda>(s1, s2). self_meet F c s1 s2)
      (concat (map (\<lambda>s1. map (Pair s1) [s1 + 1..SegmentCount c - 1]) [0..SegmentCount c - 1]))"

subsection \<open>Distance and collision\<close>

definition chain_SquaredDistance :: "FLOATS \<Rightarrow> CHAIN \<Rightarrow> VECTOR2I \<Rightarrow> bool \<Rightarrow> int" where
  "chain_SquaredDistance F c aP aOutlineOnly =
    (if m_closed c \<and> PointInside F c aP 0 False \<and> \<not> aOutlineOnly then 0
     else foldl (\<lambda>d s. min d (SquaredDistance_pt (CSegment c s) aP)) ECOORD_MAX [0..SegmentCount c - 1])"

text \<open>
  The loop shared by the \<open>Collide\<close> operations: \<open>near\<close> gives the nearest point and squared distance of a
  segment; without \<open>aActual\<close> any collision ends it. The results are the location and the distance.
\<close>

fun closest_loop :: "('s \<Rightarrow> VECTOR2I \<times> int) \<Rightarrow> int \<Rightarrow> bool \<Rightarrow> 's list \<Rightarrow> VECTOR2I \<times> int \<Rightarrow> VECTOR2I \<times> int" where
  "closest_loop near clearance_sq aActual [] st = st"
| "closest_loop near clearance_sq aActual (s # ss) st =
    (if snd (near s) < snd st then
       (if snd (near s) = 0 then near s
        else if snd (near s) < clearance_sq \<and> \<not> aActual then near s
        else closest_loop near clearance_sq aActual ss (near s))
     else closest_loop near clearance_sq aActual ss st)"

definition collide_with ::
  "(int \<Rightarrow> int) \<Rightarrow> ('s \<Rightarrow> VECTOR2I \<times> int) \<Rightarrow> 's list \<Rightarrow> int \<Rightarrow> bool \<Rightarrow> (VECTOR2I \<times> int) option" where
  "collide_with sq near segs aClearance aActual =
    (let (nearest, closest_dist_sq) = closest_loop near (aClearance * aClearance) aActual segs (Vec 0 0, ECOORD_MAX)
     in if closest_dist_sq = 0 \<or> closest_dist_sq < aClearance * aClearance then Some (nearest, sq closest_dist_sq) else None)"

definition near_pt :: "CHAIN \<Rightarrow> VECTOR2I \<Rightarrow> int \<Rightarrow> VECTOR2I \<times> int" where
  "near_pt c aP i = (let pn = NearestPoint (CSegment c i) aP in (pn, SquaredEuclideanNorm (vsub pn aP)))"

definition near_seg :: "CHAIN \<Rightarrow> SEG \<Rightarrow> int \<Rightarrow> VECTOR2I \<times> int" where
  "near_seg c aSeg i = (NearestPoint_seg (CSegment c i) aSeg, SquaredDistance (CSegment c i) aSeg)"

definition Collide_base_pt :: "FLOATS \<Rightarrow> (int \<Rightarrow> int) \<Rightarrow> CHAIN \<Rightarrow> VECTOR2I \<Rightarrow> int \<Rightarrow> bool \<Rightarrow> (VECTOR2I \<times> int) option" where
  "Collide_base_pt F sq c aP aClearance aActual =
    (if m_closed c \<and> PointInside F c aP aClearance False then Some (aP, 0)
     else collide_with sq (near_pt c aP) [0..SegmentCount c - 1] aClearance aActual)"

definition Collide_base_seg :: "FLOATS \<Rightarrow> (int \<Rightarrow> int) \<Rightarrow> CHAIN \<Rightarrow> SEG \<Rightarrow> int \<Rightarrow> bool \<Rightarrow> (VECTOR2I \<times> int) option" where
  "Collide_base_seg F sq c aSeg aClearance aActual =
    (if m_closed c \<and> PointInside F c (segA aSeg) 0 False then Some (segA aSeg, 0)
     else collide_with sq (near_seg c aSeg) [0..SegmentCount c - 1] aClearance aActual)"

definition line_segments :: "CHAIN \<Rightarrow> int list" where
  "line_segments c = filter (\<lambda>i. \<not> IsArcSegment c i) [0..SegmentCount c - 1]"

definition Collide_chain_pt ::
  "FLOATS \<Rightarrow> (int \<Rightarrow> int) \<Rightarrow> (SHAPE_ARC \<Rightarrow> (VECTOR2I \<times> int) option) \<Rightarrow> CHAIN \<Rightarrow> VECTOR2I \<Rightarrow> int \<Rightarrow> bool \<Rightarrow> (VECTOR2I \<times> int) option" where
  "Collide_chain_pt F sq arc_Collide c aP aClearance aActual =
    (if m_closed c \<and> PointInside F c aP aClearance False then Some (aP, 0)
     else (case collide_with sq (near_pt c aP) (line_segments c) aClearance aActual of
             Some r \<Rightarrow> Some r | None \<Rightarrow> first_some arc_Collide (m_arcs c)))"

definition Collide_chain_seg ::
  "FLOATS \<Rightarrow> (int \<Rightarrow> int) \<Rightarrow> (SHAPE_ARC \<Rightarrow> (VECTOR2I \<times> int) option) \<Rightarrow> CHAIN \<Rightarrow> SEG \<Rightarrow> int \<Rightarrow> bool \<Rightarrow> (VECTOR2I \<times> int) option" where
  "Collide_chain_seg F sq arc_Collide c aSeg aClearance aActual =
    (if m_closed c \<and> PointInside F c (segA aSeg) 0 False then Some (segA aSeg, 0)
     else (case collide_with sq (near_seg c aSeg) (line_segments c) aClearance aActual of
             Some r \<Rightarrow> Some r | None \<Rightarrow> first_some arc_Collide (m_arcs c)))"

subsection \<open>Lengths and nearest points\<close>

definition seg_Length :: "FLOATS \<Rightarrow> SEG \<Rightarrow> int" where
  "seg_Length F s = fl_norm F (vsub (segA s) (segB s))"

definition chain_Length :: "FLOATS \<Rightarrow> (SHAPE_ARC \<Rightarrow> int) \<Rightarrow> CHAIN \<Rightarrow> int" where
  "chain_Length F arc_Length c =
    sum_list (map (\<lambda>i. seg_Length F (CSegment c i)) (line_segments c)) + sum_list (map arc_Length (m_arcs c))"

fun path_loop :: "FLOATS \<Rightarrow> CHAIN \<Rightarrow> VECTOR2I \<Rightarrow> int \<Rightarrow> int \<Rightarrow> int list \<Rightarrow> int" where
  "path_loop F c aP aIndex len [] = - 1"
| "path_loop F c aP aIndex len (i # is) =
    (let seg = CSegment c i;
         indexMatch = (if aIndex \<ge> 0 then (if aIndex = SegmentCount c then i = SegmentCount c - 1 else i = aIndex) else True)
     in if indexMatch then len + fl_norm F (vsub aP (segA seg)) else path_loop F c aP aIndex (len + seg_Length F seg) is)"

definition PathLength :: "FLOATS \<Rightarrow> CHAIN \<Rightarrow> VECTOR2I \<Rightarrow> int \<Rightarrow> int" where
  "PathLength F c aP aIndex = path_loop F c aP aIndex 0 [0..SegmentCount c - 1]"

text \<open>The index with the least distance, the first one of several, 0 when none is below \<open>INT_MAX\<close>.\<close>

definition least_index :: "(int \<Rightarrow> int) \<Rightarrow> int list \<Rightarrow> int \<times> int" where
  "least_index d is = foldl (\<lambda>(min_d, nearest) i. if d i < min_d then (d i, i) else (min_d, nearest)) (INT_MAX, 0) is"

definition NearestSegment :: "FLOATS \<Rightarrow> CHAIN \<Rightarrow> VECTOR2I \<Rightarrow> int" where
  "NearestSegment F c aP = snd (least_index (\<lambda>i. Distance_pt (fl_guess F) (CSegment c i) aP) [0..SegmentCount c - 1])"

definition chain_NearestPoint :: "FLOATS \<Rightarrow> CHAIN \<Rightarrow> VECTOR2I \<Rightarrow> bool \<Rightarrow> VECTOR2I" where
  "chain_NearestPoint F c aP aAllowInternalShapePoints =
    (if PointCount c = 0 then Vec 0 0
     else
       (let nearest = NearestSegment F c aP in
        if \<not> aAllowInternalShapePoints \<and> nearest > 0 \<and> nearest < PointCount c \<and> IsArcSegment c nearest then
          (let nearest = (if fl_norm F (vsub (segA (CSegment c nearest)) aP) > fl_norm F (vsub (segB (CSegment c nearest)) aP)
                          then nearest + 1 else nearest)
           in if IsArcStart c nearest \<or> IsArcEnd c nearest then pt c nearest
              else (let nearestArc = m_arcs c ! nat (ArcIndex c nearest) in
                    if fl_norm F (vsub (arc_start nearestArc) aP) > fl_norm F (vsub (arc_end nearestArc) aP)
                    then arc_end nearestArc else arc_start nearestArc))
        else NearestPoint (CSegment c nearest) aP))"

text \<open>On an empty chain the distance is not set.\<close>

definition chain_NearestPoint_seg :: "FLOATS \<Rightarrow> CHAIN \<Rightarrow> SEG \<Rightarrow> VECTOR2I \<times> int option" where
  "chain_NearestPoint_seg F c aSeg =
    (if PointCount c = 0 then (Vec 0 0, None)
     else (let (dist, nearest) = least_index (\<lambda>i. LineDistance (fl_guess F) aSeg (pt c i) False) [0..PointCount c - 1]
           in (pt c nearest, Some dist)))"

definition Split_three :: "FLOATS \<Rightarrow> CHAIN \<Rightarrow> VECTOR2I \<Rightarrow> VECTOR2I \<Rightarrow> (CHAIN \<times> CHAIN \<times> CHAIN) option" where
  "Split_three F c aStart aEnd =
    (let n = chain_NearestPoint F c aEnd False; m = chain_NearestPoint F c aStart False;
         l = fst (Split F m True (fst (Split F n True c)));
         l = (if Find F l m 0 > Find F l n 0 then Reverse l else l);
         i_start = Find F l m 0; i_end = Find F l n 0
     in case (Slice F l 0 i_start, Slice F l i_start i_end, Slice F l i_end (- 1)) of
          (Some aPre, Some aMid, Some aPost) \<Rightarrow> Some (aPre, aMid, aPost) | _ \<Rightarrow> None)"

subsection \<open>Simplify\<close>

text \<open>Stage 1, duplicate vertices; a vertex is a point with its pair of arc numbers.\<close>

definition same_vertex :: "VECTOR2I \<times> (int \<times> int) \<Rightarrow> VECTOR2I \<times> (int \<times> int) \<Rightarrow> bool" where
  "same_vertex u v \<longleftrightarrow> fst u = fst v \<and> (snd u = snd v \<or> snd u = SHAPES_ARE_PT \<or> snd v = SHAPES_ARE_PT)"

function unique_points :: "(VECTOR2I \<times> (int \<times> int)) list \<Rightarrow> (VECTOR2I \<times> (int \<times> int)) list" where
  "unique_points [] = []"
| "unique_points (u # us) =
    (let run = u # takeWhile (same_vertex u) us; shapeToKeep = (if snd u = SHAPES_ARE_PT then snd (last run) else snd u)
     in (fst u, shapeToKeep) # unique_points (dropWhile (same_vertex u) us))"
  by pat_completeness auto
termination
  by (relation "measure length") (auto simp: length_dropWhile_le le_imp_less_Suc)

text \<open>Stage 2, collinear vertices: the suffix of the vertices from index \<open>n\<close> on, then from index \<open>i\<close> on.\<close>

fun collinear_skip :: "FLOATS \<Rightarrow> VECTOR2I \<Rightarrow> (VECTOR2I \<times> (int \<times> int)) list \<Rightarrow> (VECTOR2I \<times> (int \<times> int)) list" where
  "collinear_skip F p0 (x # y # z # us) =
    (if LineDistance (fl_guess F) (Seg p0 (fst z)) (fst y) False \<le> 1 \<or> Collinear (Seg p0 (fst z)) (Seg p0 (fst y))
     then collinear_skip F p0 (y # z # us) else x # y # z # us)"
| "collinear_skip F p0 us = us"

lemma collinear_skip_length: "length (collinear_skip F p0 us) \<le> length us"
  by (induction F p0 us rule: collinear_skip.induct) auto

function straighten :: "FLOATS \<Rightarrow> bool \<Rightarrow> (VECTOR2I \<times> (int \<times> int)) list \<Rightarrow> (VECTOR2I \<times> (int \<times> int)) list" where
  "straighten F aRemoveColinear us =
    (if length us \<le> 2 then us
     else
       (let p0 = us ! 0;
            n = (if aRemoveColinear \<and> snd (us ! 0) = SHAPES_ARE_PT \<and> snd (us ! 1) = SHAPES_ARE_PT
                 then collinear_skip F (fst p0) us else us)
        in if length n = 2 then [p0, last us] else p0 # straighten F aRemoveColinear (tl n)))"
  by pat_completeness auto
termination
proof (relation "measure (\<lambda>(F, r, us). length us)", simp, goal_cases)
  case (1 F r us p0 n)
  then have "length n \<le> length us" using collinear_skip_length [of F "fst p0" us] by (simp split: if_splits)
  then show ?case using 1 by (cases n) auto
qed

declare unique_points.simps(2) [simp del] straighten.simps [simp del]

definition set_vertices :: "(VECTOR2I \<times> (int \<times> int)) list \<Rightarrow> CHAIN \<Rightarrow> CHAIN" where
  "set_vertices us c = c\<lparr>m_points := map fst us, m_shapes := map snd us\<rparr>"

definition Simplify :: "FLOATS \<Rightarrow> bool \<Rightarrow> CHAIN \<Rightarrow> CHAIN option" where
  "Simplify F aRemoveColinear c =
    (if PointCount c < 3 then Some c
     else if PointCount c = 3 then (if pt c 0 = pt c 1 then Remove F 1 1 c else Some c)
     else Some (set_vertices (straighten F aRemoveColinear (unique_points (zip (m_points c) (m_shapes c)))) c))"

definition CompareGeometry :: "FLOATS \<Rightarrow> CHAIN \<Rightarrow> CHAIN \<Rightarrow> bool option" where
  "CompareGeometry F c aOther =
    (case (Simplify F True c, Simplify F True aOther) of
       (Some a, Some b) \<Rightarrow> Some (length (m_points a) = length (m_points b) \<and> m_points a = m_points b)
     | _ \<Rightarrow> None)"

end
