(* ===== verification/Inside_Props.thy ===== *)
theory Inside_Props
  imports Chain_Queries
begin

text \<open>
  Whether a point is inside a chain. A closed chain stands for its ring of edges; the reference
  for being inside is the parity of the edges that cross the ray from the point to the right, with the
  side of an edge decided by an exact determinant.
\<close>

subsection \<open>Edges of a ring\<close>

definition path_edges :: "'a list \<Rightarrow> ('a \<times> 'a) list" where
  "path_edges ps = zip ps (tl ps)"

definition ring_edges :: "'a list \<Rightarrow> ('a \<times> 'a) list" where
  "ring_edges ps = zip ps (rotate1 ps)"

lemma path_edges_simps [simp]:
  "path_edges [] = []" "path_edges [p] = []" "path_edges (p # q # ps) = (p, q) # path_edges (q # ps)"
  by (simp_all add: path_edges_def)

lemma zip_extra: "length ys = length xs \<Longrightarrow> zip (xs @ ws) ys = zip xs ys"
  by (simp add: zip_append1)

lemma ring_edges_path: "ps \<noteq> [] \<Longrightarrow> ring_edges ps = path_edges ps @ [(last ps, hd ps)]"
proof (induction ps rule: rev_nonempty_induct)
  case (single x)
  then show ?case by (simp add: ring_edges_def)
next
  case (snoc x xs)
  have "length (tl xs @ [x]) = length xs" using snoc.hyps by simp
  moreover have "rotate1 (xs @ [x]) = (tl xs @ [x]) @ [hd xs]" using snoc.hyps by (cases xs) auto
  moreover have "zip (xs @ [x]) (tl xs @ [x]) = zip xs (tl xs @ [x])" using snoc.hyps by (intro zip_extra) simp
  ultimately show ?case using snoc.hyps by (simp add: ring_edges_def path_edges_def zip_append del: append_assoc)
qed

lemma PointInside_ring:
  "map (\<lambda>i. (pt c i, pt c (if i + 1 = PointCount c then 0 else i + 1))) [0..PointCount c - 1] = ring_edges (m_points c)"
proof (rule nth_equalityI)
  show "length (map (\<lambda>i. (pt c i, pt c (if i + 1 = PointCount c then 0 else i + 1))) [0..PointCount c - 1]) =
      length (ring_edges (m_points c))"
    by (simp add: ring_edges_def PointCount_def)
  fix k assume "k < length (map (\<lambda>i. (pt c i, pt c (if i + 1 = PointCount c then 0 else i + 1))) [0..PointCount c - 1])"
  then have k: "k < length (m_points c)" by (simp add: PointCount_def)
  have "rotate1 (m_points c) ! k = m_points c ! (if Suc k = length (m_points c) then 0 else Suc k)"
    using k by (cases "m_points c") (auto simp: nth_append less_Suc_eq)
  moreover have "nat (int k + 1) = Suc k" by simp
  ultimately show "map (\<lambda>i. (pt c i, pt c (if i + 1 = PointCount c then 0 else i + 1))) [0..PointCount c - 1] ! k =
      ring_edges (m_points c) ! k"
    using k by (auto simp: ring_edges_def PointCount_def pt_def nth_upto)
qed

subsection \<open>Parities\<close>

definition parity :: "('a \<Rightarrow> bool) \<Rightarrow> 'a list \<Rightarrow> bool" where
  "parity P xs \<longleftrightarrow> odd (length (filter P xs))"

lemma parity_simps [simp]:
  "parity P [] = False" "parity P (x # xs) = (P x \<noteq> parity P xs)" "parity P (xs @ ys) = (parity P xs \<noteq> parity P ys)"
  by (auto simp: parity_def)

lemma foldl_toggle: "foldl (\<lambda>b x. if P x then \<not> b else b) b xs = (b \<noteq> parity P xs)"
  by (induction xs arbitrary: b) auto

lemma parity_cong: "(\<And>x. x \<in> set xs \<Longrightarrow> P x = Q x) \<Longrightarrow> parity P xs = parity Q xs"
  by (induction xs) auto

lemma parity_differ: "parity (\<lambda>x. P x \<noteq> Q x) xs = (parity P xs \<noteq> parity Q xs)"
  by (induction xs) auto

text \<open>Along a ring a property of the vertices changes an even number of times.\<close>

lemma parity_path:
  fixes v :: "'a \<Rightarrow> bool"
  shows "ps \<noteq> [] \<Longrightarrow> parity (\<lambda>(a, b). v a \<noteq> v b) (path_edges ps) = (v (hd ps) \<noteq> v (last ps))"
proof (induction ps rule: induct_list012)
  case (3 x y zs)
  then show ?case by auto
qed simp_all

lemma parity_ring:
  fixes v :: "'a \<Rightarrow> bool"
  shows "\<not> parity (\<lambda>(a, b). v a \<noteq> v b) (ring_edges ps)"
proof (cases "ps = []")
  case False
  then show ?thesis using parity_path [OF False, of v] by (auto simp: ring_edges_path)
qed (simp add: ring_edges_def)

subsection \<open>Crossing the ray\<close>

definition ring_det :: "VECTOR2I \<Rightarrow> VECTOR2I \<Rightarrow> VECTOR2I \<Rightarrow> int" where
  "ring_det p a b = (vx a - vx p) * (vy b - vy p) - (vx b - vx p) * (vy a - vy p)"

text \<open>
  Edges whose side the \<open>double\<close> determinant decides: within the range of a board, the point exactly on the
  line, or more than 512 square units off it, or no farther than \<open>2 ^ 26\<close> from both ends.
\<close>

definition sharp :: "VECTOR2I \<Rightarrow> VECTOR2I \<times> VECTOR2I \<Rightarrow> bool" where
  "sharp p e \<longleftrightarrow> (case e of (a, b) \<Rightarrow> in_board p \<and> in_board a \<and> in_board b \<and>
    (ring_det p a b = 0 \<or> 512 < \<bar>ring_det p a b\<bar> \<or>
     \<bar>vx a - vx p\<bar> \<le> 2 ^ 26 \<and> \<bar>vy a - vy p\<bar> \<le> 2 ^ 26 \<and> \<bar>vx b - vx p\<bar> \<le> 2 ^ 26 \<and> \<bar>vy b - vy p\<bar> \<le> 2 ^ 26))"

lemma product_below: "\<bar>u\<bar> \<le> K \<Longrightarrow> \<bar>v\<bar> \<le> K \<Longrightarrow> K * K < M \<Longrightarrow> \<bar>u * v\<bar> < M" for u v K M :: int
  unfolding abs_mult using mult_mono [of "\<bar>u\<bar>" K "\<bar>v\<bar>" K] by linarith

lemma tracker_det_sharp:
  assumes "sharp p (a, b)"
  shows "0 < tracker_det p a b \<longleftrightarrow> 0 < ring_det p a b" "tracker_det p a b = 0 \<longleftrightarrow> ring_det p a b = 0"
proof -
  define u v u' v' where d: "u = vx a - vx p" "v = vy a - vy p" "u' = vx b - vx p" "v' = vy b - vy p"
  have B: "in_board p" "in_board a" "in_board b" using assms by (simp_all add: sharp_def)
  have t: "tracker_det p a b = to_double (to_double (u * v') - to_double (u' * v))"
    by (simp add: tracker_det_def vsub32_board B vsub_def d Let_def)
  have r: "ring_det p a b = u * v' - u' * v" by (simp add: ring_det_def d)
  have s: "\<bar>u\<bar> \<le> 2 ^ 31 - 2" "\<bar>v\<bar> \<le> 2 ^ 31 - 2" "\<bar>u'\<bar> \<le> 2 ^ 31 - 2" "\<bar>v'\<bar> \<le> 2 ^ 31 - 2"
    using vsub_bound [OF B(2,1)] vsub_bound [OF B(3,1)] by (simp_all add: d vsub_def)
  have m: "\<bar>u * v'\<bar> < 2 ^ 62" "\<bar>u' * v\<bar> < 2 ^ 62"
    using product_below [OF s(1,4)] product_below [OF s(3,2)] by simp_all
  have "\<bar>u * v'\<bar> < 2 ^ 53 \<and> \<bar>u' * v\<bar> < 2 ^ 53" if "\<bar>u\<bar> \<le> 2 ^ 26" "\<bar>v\<bar> \<le> 2 ^ 26" "\<bar>u'\<bar> \<le> 2 ^ 26" "\<bar>v'\<bar> \<le> 2 ^ 26"
    using product_below [OF that(1,4)] product_below [OF that(3,2)] by simp
  then have "u * v' = u' * v \<or> 512 < \<bar>u * v' - u' * v\<bar> \<or> \<bar>u * v'\<bar> < 2 ^ 53 \<and> \<bar>u' * v\<bar> < 2 ^ 53"
    using assms unfolding sharp_def by (auto simp: d [symmetric] r)
  from to_double_diff [OF m this]
  show "0 < tracker_det p a b \<longleftrightarrow> 0 < ring_det p a b" "tracker_det p a b = 0 \<longleftrightarrow> ring_det p a b = 0"
    by (simp_all only: t r)
qed

definition on_edge :: "VECTOR2I \<Rightarrow> VECTOR2I \<times> VECTOR2I \<Rightarrow> bool" where
  "on_edge p e \<longleftrightarrow> (case e of (a, b) \<Rightarrow> ring_det p a b = 0 \<and>
     min (vx a) (vx b) \<le> vx p \<and> vx p \<le> max (vx a) (vx b) \<and> min (vy a) (vy b) \<le> vy p \<and> vy p \<le> max (vy a) (vy b))"

text \<open>An edge that passes the height of the point, right of it; its lower end counts or its upper end counts.\<close>

definition right_of :: "VECTOR2I \<Rightarrow> VECTOR2I \<times> VECTOR2I \<Rightarrow> bool" where
  "right_of p e \<longleftrightarrow> (case e of (a, b) \<Rightarrow> if vy a < vy b then 0 < ring_det p a b else ring_det p a b < 0)"

definition crosses :: "VECTOR2I \<Rightarrow> VECTOR2I \<times> VECTOR2I \<Rightarrow> bool" where
  "crosses p e \<longleftrightarrow> (case e of (a, b) \<Rightarrow> (vy a < vy p) \<noteq> (vy b < vy p)) \<and> right_of p e"

definition crosses_up :: "VECTOR2I \<Rightarrow> VECTOR2I \<times> VECTOR2I \<Rightarrow> bool" where
  "crosses_up p e \<longleftrightarrow> (case e of (a, b) \<Rightarrow> (vy a > vy p) \<noteq> (vy b > vy p)) \<and> right_of p e"

lemma det_diff: "ring_det p a b = (vx b - vx a) * (vy p - vy a) - (vx p - vx a) * (vy b - vy a)"
  by (simp add: ring_det_def algebra_simps)

text \<open>Signs of \<open>u * v' - u' * v\<close>.\<close>

lemma det_pos: "0 \<le> u \<Longrightarrow> 0 \<le> v' \<Longrightarrow> 0 < u' \<Longrightarrow> v < 0 \<Longrightarrow> 0 < u * v' - u' * v" for u v' u' v :: int
  using mult_nonneg_nonneg [of u v'] mult_pos_neg [of u' v] by linarith

lemma det_neg: "0 \<le> u \<Longrightarrow> v' < 0 \<Longrightarrow> 0 < u' \<Longrightarrow> 0 \<le> v \<Longrightarrow> u \<noteq> 0 \<or> v \<noteq> 0 \<Longrightarrow> u * v' - u' * v < 0" for u v' u' v :: int
  using mult_nonneg_nonpos [of u v'] mult_nonneg_nonneg [of u' v] mult_pos_neg [of u v'] mult_pos_pos [of u' v]
  by (cases "u = 0"; cases "v = 0") linarith+

lemma processVertex_crosses:
  assumes "\<not> on_edge (m_point t) (a, b)" "sharp (m_point t) (a, b)"
  shows "processVertex a b t = (True, if crosses (m_point t) (a, b) then t\<lparr>m_state := 1 - m_state t\<rparr> else t)"
proof -
  define u where "u = vx a - vx (m_point t)"
  define v where "v = vy a - vy (m_point t)"
  define u' where "u' = vx b - vx (m_point t)"
  define v' where "v' = vy b - vy (m_point t)"
  have D: "ring_det (m_point t) a b = u * v' - u' * v" by (simp add: ring_det_def u_def v_def u'_def v'_def)
  have off: "\<not> (u * v' - u' * v = 0 \<and> min u u' \<le> 0 \<and> 0 \<le> max u u' \<and> min v v' \<le> 0 \<and> 0 \<le> max v v')"
    using assms(1) by (auto simp: on_edge_def D u_def v_def u'_def v'_def)
  have cr: "crosses (m_point t) (a, b) \<longleftrightarrow> (v < 0) \<noteq> (v' < 0) \<and> (if v < v' then 0 < u * v' - u' * v else u * v' - u' * v < 0)"
    by (simp add: crosses_def right_of_def D u_def v_def u'_def v'_def)
  have eqs: "vy b = vy (m_point t) \<longleftrightarrow> v' = 0" "vx b = vx (m_point t) \<longleftrightarrow> u' = 0" "vy a = vy (m_point t) \<longleftrightarrow> v = 0"
    "vx (m_point t) < vx b \<longleftrightarrow> 0 < u'" "vx a < vx (m_point t) \<longleftrightarrow> u < 0" "vy a < vy (m_point t) \<longleftrightarrow> v < 0"
    "vy b < vy (m_point t) \<longleftrightarrow> v' < 0" "vx (m_point t) \<le> vx a \<longleftrightarrow> 0 \<le> u"
    by (auto simp: u_def v_def u'_def v'_def)
  have pv: "processVertex a b t =
    (if v' = 0 \<and> (u' = 0 \<or> (v = 0 \<and> ((u' > 0) = (u < 0)))) then on_boundary t
     else if (v < 0) \<noteq> (v' < 0) then
       (if u \<ge> 0 then (if u' > 0 then toggle t else by_side a b t) else if u' > 0 then by_side a b t else (True, t))
     else (True, t))"
    unfolding processVertex_def Let_def eqs ..
  have bs: "by_side a b t = (if u * v' - u' * v = 0 then on_boundary t
     else if (u * v' - u' * v > 0) = (v' > v) then toggle t else (True, t))"
    unfolding D [symmetric] tracker_det_sharp [OF assms(2), symmetric] by (simp add: by_side_def Let_def v_def v'_def)
  have first: "\<not> (v' = 0 \<and> (u' = 0 \<or> (v = 0 \<and> ((u' > 0) = (u < 0)))))"
    using off by (auto simp: min_def max_def split: if_splits)
  note pv = pv [unfolded if_not_P [OF first]]
  show ?thesis
  proof (cases "(v < 0) \<noteq> (v' < 0)")
    case False
    then show ?thesis by (simp add: pv cr)
  next
    case straddle: True
    have vv: "v < v' \<longleftrightarrow> v < 0" using straddle by auto
    have zero: "u * v' - u' * v \<noteq> 0" if "min u u' \<le> 0" "0 \<le> max u u'"
      using that off straddle by auto
    consider (right) "u \<ge> 0" "u' > 0" | (left) "u < 0" "u' \<le> 0" | (mixed) "u \<ge> 0" "u' \<le> 0" | (mixed2) "u < 0" "u' > 0" by linarith
    then show ?thesis
    proof cases
      case right
      have "if v < v' then 0 < u * v' - u' * v else u * v' - u' * v < 0"
      proof (cases "v < 0")
        case True
        then show ?thesis using det_pos [of u v' u' v] right straddle vv by auto
      next
        case False
        have "u \<noteq> 0 \<or> v \<noteq> 0" using off by auto
        then show ?thesis using det_neg [of u v' u' v] right straddle vv False by auto
      qed
      then have "crosses (m_point t) (a, b)" using straddle cr by blast
      then show ?thesis using straddle right by (simp add: pv toggle_def)
    next
      case left
      have "\<not> (if v < v' then 0 < u * v' - u' * v else u * v' - u' * v < 0)"
      proof (cases "v < 0")
        case True
        then show ?thesis using mult_nonpos_nonneg [of u v'] mult_nonpos_nonpos [of u' v] left straddle vv by auto
      next
        case False
        then show ?thesis using mult_nonpos_nonpos [of u v'] mult_nonpos_nonneg [of u' v] left straddle vv by auto
      qed
      then have "\<not> crosses (m_point t) (a, b)" using cr by blast
      then show ?thesis using straddle left by (simp add: pv)
    next
      case mixed
      then show ?thesis using straddle zero vv by (auto simp: pv cr bs toggle_def)
    next
      case mixed2
      then show ?thesis using straddle zero vv by (auto simp: pv cr bs toggle_def)
    qed
  qed
qed

lemma process_points_parity:
  assumes "ps \<noteq> []" "\<forall>e\<in>set (path_edges ps). \<not> on_edge (m_point t) e \<and> sharp (m_point t) e" "m_lastPoint t = hd ps" "m_state t = (if b then 1 else 0)"
  shows "process_points (tl ps) t =
    t\<lparr>m_lastPoint := last ps, m_state := (if b \<noteq> parity (crosses (m_point t)) (path_edges ps) then 1 else 0)\<rparr>"
  using assms
proof (induction ps arbitrary: t b rule: induct_list012)
  case (2 x)
  then show ?case by simp
next
  case (3 x y ps)
  let ?c = "crosses (m_point t) (x, y)"
  have "processVertex x y t = (True, if ?c then t\<lparr>m_state := 1 - m_state t\<rparr> else t)"
    using 3(3,4) by (intro processVertex_crosses) simp_all
  then have "process_points (tl (x # y # ps)) t =
      process_points (tl (y # ps)) (t\<lparr>m_lastPoint := y, m_state := (if b \<noteq> ?c then 1 else 0)\<rparr>)"
    using 3 by auto
  also have "\<dots> = t\<lparr>m_lastPoint := last (y # ps),
      m_state := (if (b \<noteq> ?c) \<noteq> parity (crosses (m_point t)) (path_edges (y # ps)) then 1 else 0)\<rparr>"
    by (subst "3.IH"(2) [where b = "b \<noteq> ?c"]) (use 3 in auto)
  also have "\<dots> = t\<lparr>m_lastPoint := last (x # y # ps),
      m_state := (if b \<noteq> parity (crosses (m_point t)) (path_edges (x # y # ps)) then 1 else 0)\<rparr>"
    by (cases b; cases ?c; cases "parity (crosses (m_point t)) (path_edges (y # ps))"; simp)
  finally show ?case .
qed simp

lemma tracker_parity_lemma:
  assumes "m_points c \<noteq> []" "\<forall>e\<in>set (ring_edges (m_points c)). \<not> on_edge p e \<and> sharp p e"
  shows "\<exists>t. AddPolyline c (TRACKER_new p) = Some t \<and> (fst (IsInside t) \<longleftrightarrow> parity (crosses p) (ring_edges (m_points c)))"
proof -
  let ?ps = "m_points c"
  define t0 where "t0 = (TRACKER_new p)\<lparr>m_lastPoint := hd ?ps, m_firstPoint := hd ?ps, m_count := PointCount c\<rparr>"
  define t where "t = t0\<lparr>m_lastPoint := last ?ps, m_state := (if parity (crosses p) (path_edges ?ps) then 1 else 0)\<rparr>"
  have t0: "m_point t0 = p" "m_lastPoint t0 = hd ?ps" "m_state t0 = (if False then 1 else 0)" by (simp_all add: t0_def TRACKER_new_def)
  have edges: "\<forall>e\<in>set (path_edges ?ps). \<not> on_edge p e \<and> sharp p e" "\<not> on_edge p (last ?ps, hd ?ps)"
      "sharp p (last ?ps, hd ?ps)"
    using assms by (simp_all add: ring_edges_path)
  have "pt c 0 = hd ?ps" using assms(1) by (simp add: pt_def hd_conv_nth)
  then have "AddPolyline c (TRACKER_new p) = Some (process_points (tl ?ps) t0)"
    using assms(1) by (simp add: AddPolyline_def t0_def TRACKER_new_def Let_def)
  moreover have "process_points (tl ?ps) t0 = t"
    using process_points_parity [OF assms(1), of t0 False] t0 edges(1) by (simp add: t_def)
  moreover have "fst (IsInside t) \<longleftrightarrow> parity (crosses p) (ring_edges ?ps)"
  proof -
    have m: "m_point t = p" "m_lastPoint t = last ?ps" "m_firstPoint t = hd ?ps" by (simp_all add: t_def t0_def TRACKER_new_def)
    have "processVertex (m_lastPoint t) (m_firstPoint t) t =
        (True, if crosses p (last ?ps, hd ?ps) then t\<lparr>m_state := 1 - m_state t\<rparr> else t)"
      using processVertex_crosses [of t "last ?ps" "hd ?ps"] m edges(2,3) by simp
    then show ?thesis using assms(1) by (simp add: IsInside_def Let_def ring_edges_path) (simp add: t_def)
  qed
  ultimately show ?thesis by blast
qed

subsection \<open>The two conventions and rounding\<close>

lemma crosses_up_differ:
  assumes "\<not> on_edge p (a, b)"
  shows "(crosses p (a, b) \<noteq> crosses_up p (a, b)) = ((vy a = vy p \<and> vx p < vx a) \<noteq> (vy b = vy p \<and> vx p < vx b))"
proof -
  define u where "u = vx a - vx p"
  define v where "v = vy a - vy p"
  define u' where "u' = vx b - vx p"
  define v' where "v' = vy b - vy p"
  have D: "ring_det p a b = u * v' - u' * v" by (simp add: ring_det_def u_def v_def u'_def v'_def)
  have off: "\<not> (u * v' - u' * v = 0 \<and> min u u' \<le> 0 \<and> 0 \<le> max u u' \<and> min v v' \<le> 0 \<and> 0 \<le> max v v')"
    using assms by (auto simp: on_edge_def D u_def v_def u'_def v'_def)
  have eqs: "vy a = vy p \<longleftrightarrow> v = 0" "vx p < vx a \<longleftrightarrow> 0 < u" "vy b = vy p \<longleftrightarrow> v' = 0" "vx p < vx b \<longleftrightarrow> 0 < u'"
    "vy a < vy p \<longleftrightarrow> v < 0" "vy b < vy p \<longleftrightarrow> v' < 0" "vy p < vy a \<longleftrightarrow> 0 < v" "vy p < vy b \<longleftrightarrow> 0 < v'" "vy a < vy b \<longleftrightarrow> v < v'"
    by (auto simp: u_def v_def u'_def v'_def)
  let ?R = "if v < v' then 0 < u * v' - u' * v else u * v' - u' * v < 0"
  have cr: "crosses p (a, b) \<longleftrightarrow> (v < 0) \<noteq> (v' < 0) \<and> ?R" "crosses_up p (a, b) \<longleftrightarrow> (0 < v) \<noteq> (0 < v') \<and> ?R"
    by (simp_all only: crosses_def crosses_up_def right_of_def prod.case D eqs)
  consider "v = 0" "v' = 0" | "v = 0" "v' \<noteq> 0" | "v \<noteq> 0" "v' = 0" | "v \<noteq> 0" "v' \<noteq> 0" by blast
  then show ?thesis
  proof cases
    case 1
    then have "(0 < u) = (0 < u')" using off by auto
    then show ?thesis using 1 by (simp add: cr eqs)
  next
    case 2
    then have "u \<noteq> 0" using off by auto
    then show ?thesis using 2 by (auto simp: cr eqs zero_less_mult_iff mult_less_0_iff)
  next
    case 3
    then have "u' \<noteq> 0" using off by auto
    then show ?thesis using 3 by (auto simp: cr eqs zero_less_mult_iff mult_less_0_iff)
  next
    case 4
    then show ?thesis by (auto simp: cr eqs)
  qed
qed

lemma parity_conventions:
  assumes "\<forall>e\<in>set (ring_edges ps). \<not> on_edge p e"
  shows "parity (crosses p) (ring_edges ps) = parity (crosses_up p) (ring_edges ps)"
proof -
  let ?v = "\<lambda>a. vy a = vy p \<and> vx p < vx a"
  have "parity (\<lambda>e. crosses p e \<noteq> crosses_up p e) (ring_edges ps) = parity (\<lambda>(a, b). ?v a \<noteq> ?v b) (ring_edges ps)"
    by (rule parity_cong) (use assms crosses_up_differ in fastforce)
  then show ?thesis using parity_ring [of ?v ps] parity_differ [of "crosses p" "crosses_up p" "ring_edges ps"] by blast
qed

text \<open>An edge that passes the height of the point keeps half a unit of horizontal distance to it.\<close>

definition clear_of :: "VECTOR2I \<Rightarrow> VECTOR2I \<times> VECTOR2I \<Rightarrow> bool" where
  "clear_of p e \<longleftrightarrow> \<not> on_edge p e \<and> (case e of (a, b) \<Rightarrow>
     (vy a > vy p) \<noteq> (vy b > vy p) \<longrightarrow> \<bar>vy b - vy a\<bar> < 2 * \<bar>ring_det p a b\<bar>)"

lemma rounded_less:
  fixes A B N :: int
  assumes "2 * \<bar>A - N\<bar> \<le> D" "D < 2 * \<bar>N - B\<bar>"
  shows "0 < N - B \<longleftrightarrow> B < A" "N - B < 0 \<longleftrightarrow> A < B"
  using assms by arith+

lemma inside_edge_crosses_up:
  assumes "clear_of p (a, b)"
  shows "inside_edge p a b = crosses_up p (a, b)"
proof (cases "(vy a > vy p) \<noteq> (vy b > vy p)")
  case False
  then show ?thesis by (auto simp: inside_edge_def crosses_up_def Let_def)
next
  case True
  define dy where "dy = vy b - vy a"
  define X where "X = vx p - vx a"
  define N where "N = (vx b - vx a) * (vy p - vy a)"
  define d where "d = rescale (vx b - vx a) (vy p - vy a) dy"
  have dy: "dy \<noteq> 0" using True by (auto simp: dy_def)
  have near: "2 * \<bar>dy * d - N\<bar> \<le> \<bar>dy\<bar>" unfolding d_def N_def by (rule rescale_nearest_lemma [OF dy])
  have det: "ring_det p a b = N - X * dy" by (simp add: det_diff N_def X_def dy_def)
  have clear: "\<bar>dy\<bar> < 2 * \<bar>N - X * dy\<bar>" using assms True by (simp add: clear_of_def det dy_def)
  have "X < d \<longleftrightarrow> (if 0 < dy then 0 < N - X * dy else N - X * dy < 0)"
  proof (cases "0 < dy")
    case True
    have "0 < N - X * dy \<longleftrightarrow> X * dy < dy * d" by (rule rounded_less(1) [OF near clear])
    then show ?thesis using True by (simp add: mult.commute [of X])
  next
    case False
    then have "dy < 0" using dy by simp
    have "N - X * dy < 0 \<longleftrightarrow> dy * d < X * dy" by (rule rounded_less(2) [OF near clear])
    also have "\<dots> \<longleftrightarrow> X < d" using \<open>dy < 0\<close> by (simp add: mult.commute [of X])
    finally show ?thesis using False by simp
  qed
  moreover have "(0 < dy) = (vy a < vy b)" by (auto simp: dy_def)
  moreover have "inside_edge p a b \<longleftrightarrow> X < d"
    using True dy unfolding inside_edge_def Let_def d_def X_def dy_def by (simp add: vsub_def)
  ultimately show ?thesis using True by (simp add: crosses_up_def right_of_def det)
qed

lemma PointInside_parity:
  assumes "m_closed c" "3 \<le> PointCount c"
  shows "PointInside F c p 0 False = parity (\<lambda>(a, b). inside_edge p a b) (ring_edges (m_points c))"
proof -
  have "foldl (\<lambda>inside i. if inside_edge p (pt c i) (pt c (if i + 1 = PointCount c then 0 else i + 1)) then \<not> inside else inside)
      False [0..PointCount c - 1] =
    foldl (\<lambda>b e. if (\<lambda>(a, b). inside_edge p a b) e then \<not> b else b) False
      (map (\<lambda>i. (pt c i, pt c (if i + 1 = PointCount c then 0 else i + 1))) [0..PointCount c - 1])"
    by (simp add: foldl_map)
  also have "\<dots> = parity (\<lambda>(a, b). inside_edge p a b) (ring_edges (m_points c))"
    unfolding PointInside_ring foldl_toggle by simp
  finally show ?thesis using assms by (simp add: PointInside_def Let_def)
qed

subsection \<open>Properties of the inside tests\<close>

text \<open>
  C16: For a point on no edge of the polyline, closed by the edge from its last to its first point, the
  incremental test answers by the parity of the edges that cross the ray to the right of the point, when
  all is within the range of a board and for every edge the point is on its line, or within \<open>2 ^ 26\<close> of its
  ends in both coordinates, or so far off its line that the determinant that tells its side is above 512:
  nearer to the line of a longer edge the products of the code, rounded to \<open>double\<close>, can collapse.
\<close>

theorem tracker_parity:
  assumes "m_points c \<noteq> []" "\<forall>e\<in>set (ring_edges (m_points c)). \<not> on_edge p e \<and> sharp p e"
  shows "\<exists>t. AddPolyline c (TRACKER_new p) = Some t \<and>
    (fst (IsInside t) \<longleftrightarrow> odd (length (filter (crosses p) (ring_edges (m_points c)))))"
  using tracker_parity_lemma [OF assms] by (simp add: parity_def)

definition triangle :: CHAIN where
  "triangle = chain_of_points [Vec 0 0, Vec 10 0, Vec 0 10] True"

theorem tracker_parity_witness:
  "\<exists>t. AddPolyline triangle (TRACKER_new (Vec 2 3)) = Some t \<and>
    (fst (IsInside t) \<longleftrightarrow> odd (length (filter (crosses (Vec 2 3)) (ring_edges (m_points triangle)))))"
  by (rule tracker_parity) code_simp+

text \<open>
  C24: The rounding test \<open>PointInside\<close> of a closed chain and the exact incremental test agree on every
  point that keeps more than half a unit of horizontal distance to the edges that pass its height, and
  for which the sides of the edges are sharp in \<open>double\<close>, although they count the vertices at that height
  differently.
\<close>

theorem PointInside_tracker:
  assumes "m_closed c" "3 \<le> PointCount c" "\<forall>e\<in>set (ring_edges (m_points c)). clear_of p e \<and> sharp p e"
  shows "\<exists>t. AddPolyline c (TRACKER_new p) = Some t \<and> (PointInside F c p 0 False \<longleftrightarrow> fst (IsInside t))"
proof -
  have off: "\<forall>e\<in>set (ring_edges (m_points c)). \<not> on_edge p e \<and> sharp p e" using assms(3) by (simp add: clear_of_def)
  have "m_points c \<noteq> []" using assms(2) by (auto simp: PointCount_def)
  then obtain t where t: "AddPolyline c (TRACKER_new p) = Some t" "fst (IsInside t) = parity (crosses p) (ring_edges (m_points c))"
    using tracker_parity_lemma off by blast
  have "parity (\<lambda>(a, b). inside_edge p a b) (ring_edges (m_points c)) = parity (crosses_up p) (ring_edges (m_points c))"
    by (rule parity_cong) (use assms(3) inside_edge_crosses_up in fastforce)
  then show ?thesis
    using t PointInside_parity [OF assms(1,2), of F p] parity_conventions [of "m_points c" p] off by simp
qed

theorem PointInside_tracker_witness:
  "\<forall>F. \<exists>t. AddPolyline triangle (TRACKER_new (Vec 2 3)) = Some t \<and>
    (PointInside F triangle (Vec 2 3) 0 False \<longleftrightarrow> fst (IsInside t))"
  by (rule allI, rule PointInside_tracker) code_simp+

text \<open>A rectangle holds its left and lower sides and not its right and upper ones.\<close>

lemma PointInside_rectangle:
  assumes "x0 < x1" "y0 < y1" "m_closed c" "m_points c = [Vec x0 y0, Vec x1 y0, Vec x1 y1, Vec x0 y1]"
  shows "PointInside F c p 0 False \<longleftrightarrow> x0 \<le> vx p \<and> vx p < x1 \<and> y0 \<le> vy p \<and> vy p < y1"
proof -
  have z: "rescale 0 v d = 0" if "d \<noteq> 0" for v d :: int
    using rescale_sign [OF that, of 0 v] by simp
  have "ring_edges (m_points c) = [(Vec x0 y0, Vec x1 y0), (Vec x1 y0, Vec x1 y1), (Vec x1 y1, Vec x0 y1), (Vec x0 y1, Vec x0 y0)]"
    by (simp add: assms(4) ring_edges_def)
  then have "PointInside F c p 0 False = (inside_edge p (Vec x1 y0) (Vec x1 y1) \<noteq> inside_edge p (Vec x0 y1) (Vec x0 y0))"
    using assms(2-4) by (simp add: PointInside_parity PointCount_def inside_edge_def vsub_def Let_def)
  then show ?thesis using assms(1,2) by (auto simp: inside_edge_def vsub_def Let_def z)
qed

text \<open>A point on the boundary can be answered to be inside: the closing edge is counted on top.\<close>

lemma tracker_boundary_inside:
  "(case AddPolyline (chain_of_points [Vec 10 (- 5), Vec 0 5, Vec 0 (- 10), Vec 10 5] True) (TRACKER_new (Vec 0 0)) of
     None \<Rightarrow> False | Some t \<Rightarrow> m_finished t \<and> fst (IsInside t))"
  by code_simp

text \<open>
  A point one square unit beside the line of a long edge counts as on the boundary: both products round to
  the same \<open>double\<close>.
\<close>

lemma tracker_collapses:
  "ring_det (Vec 0 0) (Vec 100000000 100000001) (Vec (- 99999999) (- 100000000)) = - 1"
  "fst (processVertex (Vec 100000000 100000001) (Vec (- 99999999) (- 100000000)) (TRACKER_new (Vec 0 0))) = False"
  "m_state (snd (processVertex (Vec 100000000 100000001) (Vec (- 99999999) (- 100000000)) (TRACKER_new (Vec 0 0)))) = - 1"
  by code_simp+

end
