(* ===== verification/Chain_Props.thy ===== *)
theory Chain_Props
  imports Line_Chain
begin

text \<open>
  What the operations on chains guarantee: the arcs a point belongs to under renumbering and
  reversal, the effect of removal on the points, progress of the walk over shapes and the slices it
  gives; and where the code does not do what its comments say.
\<close>

subsection \<open>The arcs of a point\<close>

lemma pair_ok_cases:
  assumes "pair_ok n sh"
  obtains "sh = SHAPES_ARE_PT" | k where "sh = (k, SHAPE_IS_PT)" "0 \<le> k" "k < n"
  | j k where "sh = (j, k)" "0 \<le> j" "j < n" "0 \<le> k" "k < n"
proof -
  obtain j k where sh: "sh = (j, k)" by (cases sh)
  consider "j = - 1" "k = - 1" | "k = - 1" "0 \<le> j" "j < n" | "0 \<le> j" "j < n" "0 \<le> k" "k < n"
    using assms unfolding pair_ok_def index_ok_def sh by force
  then show thesis using that sh by cases auto
qed

lemma arc_refs_of_simps [simp]:
  "arc_refs_of SHAPES_ARE_PT = []" "0 \<le> k \<Longrightarrow> arc_refs_of (k, SHAPE_IS_PT) = [k]"
  "0 \<le> j \<Longrightarrow> 0 \<le> k \<Longrightarrow> arc_refs_of (j, k) = [j, k]"
  by (simp_all add: arc_refs_of_def)

lemma arc_refs_convert:
  assumes "pair_ok n sh" "0 \<le> k"
  shows "arc_refs_of (convert_pair k sh) = map (\<lambda>i. if i > k then i - 1 else i) [i \<leftarrow> arc_refs_of sh. i \<noteq> k]"
  using assms(1)
  by (cases rule: pair_ok_cases)
     (use assms(2) in \<open>auto simp: convert_pair_def convert_index_def run_on_pair_def Let_def arc_refs_of_def\<close>)

lemma nth_erase_one: "k < length xs \<Longrightarrow> i < length xs - 1 \<Longrightarrow> vec_erase k (k + 1) xs ! i = (if i < k then xs ! i else xs ! (i + 1))"
  by (subst nth_vec_erase) auto

lemma point_arcs_convertArc:
  assumes "chain_ok c" "0 \<le> k" "k < ArcCount c" "i < length (m_points c)"
  shows "point_arcs (convertArc k c) i = map (\<lambda>j. m_arcs c ! nat j) [j \<leftarrow> arc_refs_of (m_shapes c ! i). j \<noteq> k]"
proof -
  let ?sh = "m_shapes c ! i"
  have i: "i < length (m_shapes c)" using assms(4) chain_ok_len [OF assms(1)] by simp
  have ok: "pair_ok (ArcCount c) ?sh" using i chain_okD [OF assms(1)] by simp
  have conv: "m_shapes (convertArc k c) ! i = convert_pair k ?sh"
    "m_arcs (convertArc k c) = vec_erase (nat k) (nat k + 1) (m_arcs c)"
    using assms(2,3) i by (simp_all add: convertArc_def Let_def)
  have "vec_erase (nat k) (nat k + 1) (m_arcs c) ! nat (if j > k then j - 1 else j) = m_arcs c ! nat j"
    if "j \<noteq> k" "0 \<le> j" "j < ArcCount c" for j
    using that assms(2,3)
    by (subst nth_erase_one) (auto simp: ArcCount_def nat_diff_distrib' intro!: arg_cong [where f = "\<lambda>i. m_arcs c ! i"])
  moreover have "0 \<le> j \<and> j < ArcCount c" if "j \<in> set (arc_refs_of ?sh)" for j
    using ok that by (cases rule: pair_ok_cases) auto
  ultimately show ?thesis
    by (simp add: point_arcs_def conv arc_refs_convert [OF ok assms(2)] comp_def cong: map_cong)
qed

lemma ClearArcs_loop:
  "chain_ok c \<Longrightarrow> length (m_arcs c) = n \<Longrightarrow>
    m_arcs (foldl (\<lambda>c i. convertArc (int i) c) c (rev [0..<n])) = []"
proof (induction n arbitrary: c)
  case (Suc n)
  have "length (m_arcs (convertArc (int n) c)) = n"
    using Suc.prems(2) by (simp add: convertArc_def Let_def ArcCount_def)
  from Suc.IH [OF chain_ok_convertArc [OF Suc.prems(1)] this] show ?case by simp
qed simp

lemma no_arcs_shapes:
  assumes "chain_ok c" "m_arcs c = []"
  shows "m_shapes c = replicate (length (m_points c)) SHAPES_ARE_PT"
proof -
  have "sh = SHAPES_ARE_PT" if "sh \<in> set (m_shapes c)" for sh
    using chain_okD [OF assms(1) that] assms(2) by (cases rule: pair_ok_cases) (auto simp: ArcCount_def)
  then show ?thesis using chain_ok_len [OF assms(1)] by (metis replicate_eqI)
qed

lemma ClearArcs_lemma:
  assumes "chain_ok c"
  shows "m_arcs (ClearArcs c) = [] \<and> m_points (ClearArcs c) = m_points c \<and>
    m_shapes (ClearArcs c) = replicate (length (m_points c)) SHAPES_ARE_PT"
proof -
  have "m_arcs (ClearArcs c) = []" unfolding ClearArcs_def by (rule ClearArcs_loop [OF assms refl])
  moreover have "m_points (ClearArcs c) = m_points c" by (simp add: ClearArcs_def)
  ultimately show ?thesis using no_arcs_shapes [OF chain_ok_ClearArcs [OF assms]] by simp
qed

lemma arc_refs_reverse:
  "pair_ok n sh \<Longrightarrow> arc_refs_of (reverse_pair n sh) = map (\<lambda>i. n - i - 1) (rev (arc_refs_of sh))"
  by (erule pair_ok_cases) (auto simp: reverse_pair_def run_on_pair_def Let_def arc_refs_of_def)

lemma point_arcs_Reverse:
  assumes "chain_ok c" "i < length (m_points c)"
  shows "point_arcs (Reverse c) i = map arc_Reverse (rev (point_arcs c (length (m_points c) - 1 - i)))"
proof -
  define j where "j = length (m_points c) - 1 - i"
  have j: "j < length (m_shapes c)" using assms chain_ok_len by (fastforce simp: j_def)
  have ok: "pair_ok (ArcCount c) (m_shapes c ! j)" using j chain_okD [OF assms(1)] by simp
  have sh: "m_shapes (Reverse c) ! i = reverse_pair (ArcCount c) (m_shapes c ! j)"
    using assms chain_ok_len [OF assms(1)] by (simp add: Reverse_def rev_nth j_def)
  have arc: "m_arcs (Reverse c) ! nat (ArcCount c - k - 1) = arc_Reverse (m_arcs c ! nat k)"
    if "0 \<le> k" "k < ArcCount c" for k
    using that by (simp add: Reverse_def rev_nth ArcCount_def nat_diff_distrib' Suc_diff_Suc nat_less_iff
        flip: rev_map)
  have "0 \<le> k \<and> k < ArcCount c" if "k \<in> set (arc_refs_of (m_shapes c ! j))" for k
    using ok that by (cases rule: pair_ok_cases) auto
  then show ?thesis
    unfolding point_arcs_def sh arc_refs_reverse [OF ok] j_def [symmetric]
    by (simp add: rev_map comp_def arc cong: map_cong)
qed

subsection \<open>Walking forwards\<close>

lemma next_skip_forward:
  "i \<le> PointCount c - 1 \<Longrightarrow> i \<le> next_skip c True a i \<and> next_skip c True a i \<le> PointCount c - 1"
proof (induction c "True" a i rule: next_skip.induct)
  case (1 c a i)
  show ?case
  proof (cases "i < PointCount c - 1 \<and> i \<ge> 0 \<and> dir_arc_index c True i = a")
    case True
    then have "next_skip c True a i = next_skip c True a (i + 1)" by (subst next_skip.simps) simp
    then show ?thesis using "1.hyps" [OF True] True by simp
  next
    case False
    have "next_skip c True a i = i" by (subst next_skip.simps) (rule if_not_P [OF False])
    then show ?thesis using "1.prems" by simp
  qed
qed

lemma NextShape_forward:
  assumes "chain_ok c" "0 \<le> i" "i < PointCount c"
  shows "\<exists>j. NextShape c i True = Some j \<and> (j = - 1 \<or> i < j \<and> j < PointCount c)"
proof -
  have sz: "ShapesSize c = PointCount c" using assms(1) by (rule chain_ok_sizes)
  define a where "a = dir_arc_index c True i"
  define k where "k = next_skip c True a i"
  show ?thesis
  proof (cases "i = PointCount c - 1 \<or> shp c i = SHAPES_ARE_PT")
    case True
    then show ?thesis using assms sz by (auto simp: NextShape_def Let_def)
  next
    case False
    have "k = next_skip c True a (i + 1)"
      unfolding k_def using False assms a_def by (subst next_skip.simps) simp
    then have k: "i < k" "k \<le> PointCount c - 1"
      using next_skip_forward [of "i + 1" c a] False assms by simp_all
    have "NextShape c i True =
        (if k = PointCount c - 1 then (if \<not> m_closed c \<and> dir_arc_index c True k = a then Some (- 1) else Some (PointCount c - 1))
         else if k - i > 1 \<and> \<not> (fst (shp c k) = a \<or> snd (shp c k) = a) then Some (k - 1) else Some k)"
      using False assms sz k by (simp add: NextShape_def Let_def a_def k_def)
    then show ?thesis using k assms by auto
  qed
qed

lemma slice_loop_total:
  assumes "chain_ok c" "e < PointCount c" "0 \<le> i \<or> i = - 1"
  shows "\<exists>d. slice_loop F c e i rv = Some d"
  using assms(3)
proof (induction "nat (PointCount c - i)" arbitrary: i rv rule: less_induct)
  case less
  show ?case
  proof (cases "0 \<le> i \<and> i \<le> e")
    case False
    then show ?thesis using less.prems assms(2) by (subst slice_loop.simps) auto
  next
    case True
    then obtain j where j: "NextShape c i True = Some j" "j = - 1 \<or> i < j \<and> j < PointCount c"
      using NextShape_forward [OF assms(1), of i] assms(2) by auto
    have IH: "\<exists>d. slice_loop F c e j rv' = Some d" for rv'
    proof (cases "j = - 1")
      case True
      then show ?thesis by (subst slice_loop.simps) auto
    next
      case False
      then show ?thesis using less.hyps [of j] j(2) True assms(2) by auto
    qed
    show ?thesis using True j(1) IH assms(2) by (subst slice_loop.simps) (auto simp: Let_def)
  qed
qed

text \<open>A chain without arcs: the slice is the range of points, repetitions dropped.\<close>

lemma remdups_adj_snoc:
  "remdups_adj (xs @ [x]) = (if xs \<noteq> [] \<and> last xs = x then remdups_adj xs else remdups_adj xs @ [x])"
proof (cases xs rule: rev_cases)
  case (snoc ys y)
  then show ?thesis using remdups_adj_append_two [of ys y x] by simp
qed simp

lemma chain_Append_points:
  "m_points (chain_Append p False c) = (if m_points c \<noteq> [] \<and> last (m_points c) = p then m_points c else m_points c @ [p])"
  by (simp add: chain_Append_def Let_def)

lemma slice_loop_plain:
  assumes "chain_ok c" "m_arcs c = []" "e < PointCount c" "0 \<le> i" "i \<le> e + 1"
    and "m_points rv = remdups_adj ps"
  shows "\<exists>d. slice_loop F c e i rv = Some d \<and>
    m_points d = remdups_adj (ps @ take (nat (e + 1 - i)) (drop (nat i) (m_points c)))"
  using assms(4-)
proof (induction "nat (e + 1 - i)" arbitrary: i rv ps)
  case 0
  then show ?case by (subst slice_loop.simps) auto
next
  case (Suc n)
  have le: "i \<le> e" using Suc.hyps(2) by simp
  have len: "nat i < length (m_points c)" using le assms(3) Suc.prems(1) by (simp add: PointCount_def)
  have sh: "shp c i = SHAPES_ARE_PT"
    using no_arcs_shapes [OF assms(1,2)] len by (simp add: shp_def)
  have plain: "\<not> IsArcStart c i"
    using sh by (auto simp: IsArcStart_def IsPtOnArc_def IsSharedPt_def split: if_splits)
  have rv: "m_points (chain_Append (pt c i) False rv) = remdups_adj (ps @ [pt c i])"
    using Suc.prems(3) by (auto simp: chain_Append_points remdups_adj_snoc)
  have split: "take (nat (e + 1 - i)) (drop (nat i) (m_points c)) =
      pt c i # take (nat (e + 1 - (i + 1))) (drop (nat (i + 1)) (m_points c))"
  proof -
    have "nat (e + 1 - i) = Suc (nat (e + 1 - (i + 1)))" "nat (i + 1) = Suc (nat i)"
      using le Suc.prems(1) by simp_all
    then show ?thesis using len by (simp add: pt_def Cons_nth_drop_Suc [symmetric])
  qed
  show ?case
  proof (cases "i = PointCount c - 1")
    case True
    then have "e = i" using le assms(3) by simp
    moreover have "NextShape c i True = Some (- 1)" using True Suc.prems(1) by (simp add: NextShape_def Let_def)
    moreover have "slice_loop F c e (- 1) rv' = Some rv'" for rv'
      by (subst slice_loop.simps) auto
    ultimately have "slice_loop F c e i rv = Some (chain_Append (pt c i) False rv)"
      using plain le assms(3) Suc.prems(1) by (subst slice_loop.simps) simp
    then show ?thesis using rv split \<open>e = i\<close> by simp
  next
    case False
    have "NextShape c i True = Some (i + 1)"
      using False sh len Suc.prems(1) chain_ok_sizes [OF assms(1)] by (simp add: NextShape_def Let_def PointCount_def)
    then have "slice_loop F c e i rv = slice_loop F c e (i + 1) (chain_Append (pt c i) False rv)"
      using plain le assms(3) Suc.prems(1) by (subst slice_loop.simps) simp
    moreover have "n = nat (e + 1 - (i + 1))" "i + 1 \<le> e + 1" using Suc.hyps(2) le by simp_all
    ultimately show ?thesis
      using Suc.hyps(1) [of "i + 1" "chain_Append (pt c i) False rv" "ps @ [pt c i]"] rv Suc.prems(1)
      unfolding split by simp
  qed
qed

subsection \<open>Removing and inserting points\<close>

lemma Remove_range:
  assumes "chain_ok c" "0 \<le> s" "s \<le> e" "e < PointCount c"
  shows "\<exists>d. Remove F s e c = Some d \<and> chain_ok d \<and> m_closed d = m_closed c \<and>
    m_points d = take (nat s) (m_points c) @ drop (nat e + 1) (m_points c)"
proof -
  have "nat (e + 1) = nat e + 1" using assms by simp
  then show ?thesis
    using assms chain_ok_Remove_step [OF assms(1), where F = F and s = s and e = e and i = "nat s" and j = "nat e + 1"]
    by (simp add: Remove_cases Let_def from_end_def vec_erase_def min_def)
qed

lemma Insert_pt_points:
  assumes "0 \<le> i" "i < PointCount c"
  shows "m_points (Insert_pt F i p c) = take (nat i) (m_points c) @ p # drop (nat i) (m_points c)"
  using assms by (auto simp: Insert_pt_def Let_def vec_insert_def)

lemma Append_chain_points:
  assumes "\<not> m_closed c" "m_points d \<noteq> []"
  shows "m_points (Append_chain d c) =
    m_points c @ (if m_points c \<noteq> [] \<and> last (m_points c) = hd (m_points d) then tl (m_points d) else m_points d)"
proof -
  have "m_points (Append_chain d c) = m_points (Append_first d c) @ tl (m_points d)"
    using assms by (simp add: Append_chain_def Let_def mergeFirstLastPointIfNeeded_def)
  moreover have "m_points (Append_first d c) =
      (if m_points c \<noteq> [] \<and> last (m_points c) = hd (m_points d) then m_points c else m_points c @ [hd (m_points d)])"
    by (auto simp: Append_first_def Let_def)
  ultimately show ?thesis using assms(2) by simp
qed

subsection \<open>Properties\<close>

text \<open>
  C3: Every chain that any sequence of the editing operations builds, with arcs, closed or not, has
  one pair of arc numbers for every point, all of them numbers of arcs it has, and a second number
  only beside a first one: what the comments of the class demand.
\<close>

theorem chain_invariant:
  assumes "chain_made F c"
  shows "chain_ok c"
  by (rule chain_made_ok [OF assms])

text \<open>The functions for the arcs in the examples: three points for each arc.\<close>

definition F0 :: FLOATS where
  "F0 = \<lparr>fl_guess = (\<lambda>x. 0), fl_mid = (\<lambda>s e a. arc_mid a), fl_poly = (\<lambda>a. [arc_start a, arc_mid a, arc_end a]),
         fl_norm = (\<lambda>v. 0)\<rparr>"

definition Arc :: "VECTOR2I \<Rightarrow> VECTOR2I \<Rightarrow> VECTOR2I \<Rightarrow> SHAPE_ARC" where
  "Arc s m e = \<lparr>arc_start = s, arc_mid = m, arc_end = e, arc_width = 0\<rparr>"

theorem chain_invariant_witness:
  "let a = Arc (Vec 0 0) (Vec 5 5) (Vec 10 0) in
   chain_ok (Reverse (SetClosed True (Append_chain (chain_of_arc F0 a False) (chain_of_points [Vec 9 9, Vec 0 0] False))))"
  unfolding Let_def
  by (rule chain_invariant [where F = F0], intro made_Reverse made_SetClosed made_Append_chain made_points made_arc)

text \<open>
  Reversing a well-formed chain twice gives it back; once, it reverses the points and leaves
  every point on the same arcs, reversed, the first of two becoming the second.
\<close>

theorem Reverse_chain:
  assumes "chain_ok c" "i < length (m_points c)"
  shows "Reverse (Reverse c) = c \<and> m_points (Reverse c) = rev (m_points c) \<and>
    point_arcs (Reverse c) i = map arc_Reverse (rev (point_arcs c (length (m_points c) - 1 - i)))"
  using chain_reverse.twice [OF assms(1)] point_arcs_Reverse [OF assms] by (simp add: Reverse_def)

theorem Reverse_chain_witness:
  "let a = Arc (Vec 0 0) (Vec 5 5) (Vec 10 0);
       c = \<lparr>m_points = [Vec 0 0, Vec 5 5, Vec 10 0, Vec 15 5, Vec 20 0],
             m_shapes = [(0, -1), (0, -1), (0, 1), (1, -1), (1, -1)],
             m_arcs = [a, arc_map (vadd (Vec 10 0)) a], m_closed = False, m_width = 0, m_bbox = BOX2_empty\<rparr> in
   Reverse (Reverse c) = c \<and> m_points (Reverse c) = rev (m_points c) \<and>
   point_arcs (Reverse c) 2 = map arc_Reverse (rev (point_arcs c (length (m_points c) - 1 - 2)))"
  unfolding Let_def
  by (rule Reverse_chain) (simp_all add: chain_ok_def pair_ok_def index_ok_def ArcCount_def)

text \<open>
  C19: Turning one arc into points takes that arc from every point and no other: the points keep
  their other arcs although the arcs behind it are renumbered.
\<close>

theorem convertArc_other_arcs:
  assumes "chain_ok c" "0 \<le> k" "k < ArcCount c" "i < length (m_points c)"
  shows "point_arcs (convertArc k c) i = map (\<lambda>j. m_arcs c ! nat j) [j \<leftarrow> arc_refs_of (m_shapes c ! i). j \<noteq> k]"
  by (rule point_arcs_convertArc [OF assms])

theorem convertArc_other_arcs_witness:
  "let a = Arc (Vec 0 0) (Vec 5 5) (Vec 10 0);
       c = \<lparr>m_points = [Vec 0 0, Vec 5 5, Vec 10 0, Vec 15 5, Vec 20 0],
             m_shapes = [(0, -1), (0, -1), (0, 1), (1, -1), (1, -1)],
             m_arcs = [a, arc_map (vadd (Vec 10 0)) a], m_closed = False, m_width = 0, m_bbox = BOX2_empty\<rparr> in
   point_arcs (convertArc 0 c) 2 = map (\<lambda>j. m_arcs c ! nat j) [j \<leftarrow> arc_refs_of (m_shapes c ! 2). j \<noteq> 0]"
  unfolding Let_def
  by (rule convertArc_other_arcs) (simp_all add: chain_ok_def pair_ok_def index_ok_def ArcCount_def)

text \<open>
  \<open>ClearArcs\<close> leaves no arc and no reference to one, and the points as they were; it may go
  through the arcs by number only because it starts with the last.
\<close>

theorem ClearArcs_no_arcs:
  assumes "chain_ok c"
  shows "m_arcs (ClearArcs c) = [] \<and> m_points (ClearArcs c) = m_points c \<and>
    m_shapes (ClearArcs c) = replicate (length (m_points c)) SHAPES_ARE_PT"
  by (rule ClearArcs_lemma [OF assms])

theorem ClearArcs_no_arcs_witness:
  "let c = chain_of_arc F0 (Arc (Vec 0 0) (Vec 5 5) (Vec 10 0)) True in
   m_arcs (ClearArcs c) = [] \<and> m_points (ClearArcs c) = m_points c \<and>
   m_shapes (ClearArcs c) = replicate (length (m_points c)) SHAPES_ARE_PT"
  unfolding Let_def by (rule ClearArcs_no_arcs) (rule chain_ok_of_arc)

text \<open>
  Removing a valid range of points succeeds, removes exactly these points whatever arcs they are
  on, and leaves a well-formed chain.
\<close>

theorem Remove_valid_range:
  assumes "chain_ok c" "0 \<le> s" "s \<le> e" "e < PointCount c"
  shows "\<exists>d. Remove F s e c = Some d \<and> chain_ok d \<and> m_closed d = m_closed c \<and>
    m_points d = take (nat s) (m_points c) @ drop (nat e + 1) (m_points c)"
  by (rule Remove_range [OF assms])

theorem Remove_valid_range_witness:
  "let c = chain_of_arc F0 (Arc (Vec 0 0) (Vec 5 5) (Vec 10 0)) True in
   \<exists>d. Remove F0 1 1 c = Some d \<and> chain_ok d \<and> m_closed d = m_closed c \<and>
     m_points d = take (nat 1) (m_points c) @ drop (nat 1 + 1) (m_points c)"
  unfolding Let_def
  by (rule Remove_valid_range [OF chain_ok_of_arc]) (simp_all add: chain_of_arc_def F0_def PointCount_def)

text \<open>
  C35: A slice that does not begin inside an arc is computed for every range of valid indices: the
  walk over shapes makes progress on every chain, open or closed, so that the loop of \<open>Slice\<close> ends.
\<close>

theorem Slice_returns:
  assumes "chain_ok c" "0 \<le> s" "0 \<le> e" "e < PointCount c" "\<not> IsArcSegment c s \<or> IsArcStart c s"
  shows "\<exists>d. Slice F c s e = Some d \<and> chain_ok d"
proof -
  have "Slice F c s e = slice_loop F c e s chain_empty"
    using assms(2,3,5) by (auto simp: Slice_def Let_def)
  then show ?thesis
    using slice_loop_total [OF assms(1,4)] assms(2) chain_ok_Slice by metis
qed

theorem Slice_returns_witness:
  "let c = chain_of_arc F0 (Arc (Vec 0 0) (Vec 5 5) (Vec 10 0)) True in
   \<exists>d. Slice F0 c 0 1 = Some d \<and> chain_ok d"
  unfolding Let_def
  by (rule Slice_returns [OF chain_ok_of_arc])
     (simp_all add: chain_of_arc_def F0_def PointCount_def IsArcStart_def IsPtOnArc_def ShapesSize_def shp_def)

text \<open>
  On a chain without arcs a slice has the points of the range, in order, each run of equal points
  once.
\<close>

theorem Slice_points:
  assumes "chain_ok c" "m_arcs c = []" "0 \<le> s" "s \<le> e" "e < PointCount c"
  shows "\<exists>d. Slice F c s e = Some d \<and>
    m_points d = remdups_adj (take (nat (e + 1 - s)) (drop (nat s) (m_points c)))"
proof -
  have "shp c s = SHAPES_ARE_PT"
    using no_arcs_shapes [OF assms(1,2)] assms(3-5) by (simp add: shp_def PointCount_def nat_less_iff)
  then have "\<not> IsArcSegment c s" by (auto simp: IsArcSegment_def IsPtOnArc_def Let_def)
  then have "Slice F c s e = slice_loop F c e s chain_empty"
    using assms(3,4) by (simp add: Slice_def Let_def)
  then show ?thesis
    using slice_loop_plain [OF assms(1,2,5,3), of chain_empty "[]" F] assms(4)
    by (simp add: chain_empty_def)
qed

theorem Slice_points_witness:
  "\<exists>d. Slice F0 (chain_of_points [Vec 0 0, Vec 1 0, Vec 1 0, Vec 2 2] False) 1 3 = Some d \<and>
     m_points d = remdups_adj (take (nat (3 + 1 - 1)) (drop (nat 1) (m_points (chain_of_points [Vec 0 0, Vec 1 0, Vec 1 0, Vec 2 2] False))))"
  by (rule Slice_points [OF chain_ok_of_points]) (simp_all add: chain_of_points_def chain_empty_def PointCount_def)

subsection \<open>Where the code differs from its comments\<close>

definition a1 :: SHAPE_ARC where "a1 = Arc (Vec 0 0) (Vec 5 5) (Vec 10 0)"
definition a2 :: SHAPE_ARC where "a2 = Arc (Vec 20 0) (Vec 25 5) (Vec 30 0)"
definition a3 :: SHAPE_ARC where "a3 = Arc (Vec 40 0) (Vec 45 5) (Vec 50 0)"

definition chain_with :: "VECTOR2I list \<Rightarrow> (int \<times> int) list \<Rightarrow> SHAPE_ARC list \<Rightarrow> CHAIN" where
  "chain_with ps shs as = \<lparr>m_points = ps, m_shapes = shs, m_arcs = as, m_closed = False, m_width = 0, m_bbox = BOX2_empty\<rparr>"

text \<open>Three arcs joined by segments, and two that share a vertex.\<close>

definition three_arcs :: CHAIN where
  "three_arcs = chain_with
    [Vec 0 0, Vec 5 5, Vec 10 0, Vec 20 0, Vec 25 5, Vec 30 0, Vec 40 0, Vec 45 5, Vec 50 0]
    [(0, -1), (0, -1), (0, -1), (1, -1), (1, -1), (1, -1), (2, -1), (2, -1), (2, -1)] [a1, a2, a3]"

definition shared_arcs :: CHAIN where
  "shared_arcs = chain_with [Vec 0 0, Vec 5 5, Vec 10 0, Vec 15 5, Vec 20 0]
    [(0, -1), (0, -1), (0, 1), (1, -1), (1, -1)] [a1, Arc (Vec 10 0) (Vec 15 5) (Vec 20 0)]"

lemmas example_defs = three_arcs_def shared_arcs_def chain_with_def F0_def a1_def a2_def a3_def Arc_def

text \<open>
  \<open>Remove\<close> converts the arcs of the range in ascending order while every conversion renumbers the ones
  behind it: removing the first two of three arcs loses the third and keeps the second.
\<close>

lemma Remove_wrong_arc:
  "map_option (\<lambda>d. (m_shapes d, m_arcs d)) (Remove F0 0 5 three_arcs) =
    Some ([SHAPES_ARE_PT, SHAPES_ARE_PT, SHAPES_ARE_PT], [a2])"
  by code_simp

declare count_loop.simps [code] slice_loop.simps [code]

text \<open>Two arcs that share a vertex count as three shapes, and no segment joins them.\<close>

lemma ShapeCount_shared: "ShapeCount shared_arcs = Some 3 \<and> ArcCount shared_arcs = 2"
  by code_simp

text \<open>
  Backwards, the number of the arc is looked up as the second of the pair, which is -1 on the arc
  itself: from the last point the walk stops at once, and from the middle it leaves the vector.
\<close>

lemma PrevShape_on_arc:
  "NextShape (chain_of_arc F0 a1 False) 2 False = Some (- 1) \<and> NextShape (chain_of_arc F0 a1 False) 1 False = None"
  by code_simp

text \<open>\<open>RemoveShape\<close> on an arc also removes the vertex before and the vertex after it.\<close>

lemma RemoveShape_neighbours:
  "map_option m_points (RemoveShape F0 2 (chain_with [Vec (-9) 0, Vec 0 0, Vec 5 5, Vec 10 0, Vec 20 0, Vec 30 0]
      [SHAPES_ARE_PT, (0, -1), (0, -1), (0, -1), SHAPES_ARE_PT, SHAPES_ARE_PT] [a1])) = Some [Vec 30 0]"
  by code_simp

text \<open>Moving a vertex two arcs share leaves it on the second arc.\<close>

lemma SetPoint_shared:
  "map_option (\<lambda>d. (m_shapes d, length (m_arcs d))) (SetPoint 2 (Vec 7 7) shared_arcs) =
    Some ([SHAPES_ARE_PT, SHAPES_ARE_PT, (0, -1), (0, -1), (0, -1)], 1)"
  by code_simp

text \<open>
  After a replacement, which puts its arcs behind the old ones, the arcs are not in the order of the
  points any more; splitting one then moves the points of another to the wrong arc.
\<close>

definition replaced_chain :: "CHAIN option" where
  "replaced_chain = Replace_line F0 0 0 (chain_of_arc F0 a1 False)
     (Append_chain (chain_of_arc F0 a2 False) (chain_Append (Vec (-9) 0) False chain_empty))"

lemma split_after_Replace:
  "map_option (\<lambda>c. (point_arcs c 4, m_points c ! 4)) replaced_chain = Some ([a2], Vec 25 5) \<and>
   map_option (\<lambda>c. (point_arcs c 5, m_points c ! 5)) (map_option (Insert_pt F0 1 (Vec 1 9)) replaced_chain) =
     Some ([Arc (Vec 0 0) (Vec 5 5) (Vec 0 0)], Vec 25 5)"
  by code_simp

text \<open>A slice that begins inside the last arc reads past the end of the chain.\<close>

lemma Slice_inside_last_arc: "Slice F0 (chain_of_arc F0 a1 False) 1 2 = None"
  by code_simp

text \<open>Replacing by negative indices removes the points and does not put the new one in.\<close>

lemma Replace_negative:
  "map_option m_points (Replace_pt F0 (- 1) (- 1) (Vec 7 7) (chain_of_points [Vec 0 0, Vec 1 1, Vec 2 2] False)) =
    Some [Vec 0 0, Vec 1 1]"
  by code_simp

end
