(* ===== verification/Query_Props.thy ===== *)
theory Query_Props
  imports Chain_Queries Chain_Props
begin

text \<open>
  Properties of the other queries of line chains: the removal of superfluous vertices, collision, and
  self-intersection.
\<close>

subsection \<open>Removing superfluous vertices\<close>

lemma split_run: "us = takeWhile P us @ dropWhile P us" by simp

lemma same_run: "v \<in> set (takeWhile (same_vertex u) us) \<Longrightarrow> fst v = fst u"
  by (auto simp: same_vertex_def dest: set_takeWhileD)

lemma unique_points_shapes: "snd ` set (unique_points us) \<subseteq> snd ` set us"
proof (induction us rule: unique_points.induct)
  case (2 u us)
  let ?run = "u # takeWhile (same_vertex u) us"
  have "set ?run \<subseteq> set (u # us)" using set_takeWhileD by fastforce
  moreover have "last ?run \<in> set ?run" by (rule last_in_set) simp
  ultimately have l: "snd (last ?run) \<in> snd ` set (u # us)" by blast
  have d: "set (dropWhile (same_vertex u) us) \<subseteq> set us" by (auto dest: set_dropWhileD)
  define sh where "sh = (if snd u = SHAPES_ARE_PT then snd (last ?run) else snd u)"
  have "sh \<in> snd ` set (u # us)" using l by (simp only: sh_def split: if_split) simp
  moreover have "unique_points (u # us) = (fst u, sh) # unique_points (dropWhile (same_vertex u) us)"
    unfolding unique_points.simps(2) Let_def sh_def ..
  ultimately show ?case using "2" [OF refl refl] image_mono [OF d, of snd] by auto
qed simp

lemma unique_points_subseq: "subseq (map fst (unique_points us)) (map fst us)"
proof (induction us rule: unique_points.induct)
  case (2 u us)
  have "subseq (map fst (dropWhile (same_vertex u) us)) (map fst us)"
    by (rule subseq_map) (rule suffix_imp_subseq, rule suffix_dropWhile)
  then have "subseq (map fst (unique_points (dropWhile (same_vertex u) us))) (map fst us)"
    using "2" [OF refl refl] by (rule subseq_order.trans [rotated])
  then show ?case by (simp add: unique_points.simps(2) Let_def)
qed simp

lemma unique_points_ends:
  "us \<noteq> [] \<Longrightarrow> unique_points us \<noteq> [] \<and> fst (hd (unique_points us)) = fst (hd us) \<and> fst (last (unique_points us)) = fst (last us)"
proof (induction us rule: unique_points.induct)
  case (2 u us)
  let ?rest = "dropWhile (same_vertex u) us"
  have step: "\<exists>sh. unique_points (u # us) = (fst u, sh) # unique_points ?rest" by (simp add: unique_points.simps(2) Let_def)
  show ?case
  proof (cases "?rest = []")
    case True
    then have "us = takeWhile (same_vertex u) us" by (metis append_Nil2 split_run)
    moreover have "fst (last (u # takeWhile (same_vertex u) us)) = fst u"
      using same_run [of "last (takeWhile (same_vertex u) us)" u us] by simp
    moreover obtain sh where "unique_points (u # us) = (fst u, sh) # unique_points []" using step True by metis
    ultimately show ?thesis by simp
  next
    case False
    then have "last (u # us) = last ?rest" by (metis last_ConsR last_appendR append_is_Nil_conv split_run)
    moreover have "unique_points ?rest \<noteq> [] \<and> fst (last (unique_points ?rest)) = fst (last ?rest)" using "2.IH" [OF refl refl False] by blast
    ultimately show ?thesis using step by auto
  qed
qed simp

lemma unique_points_plain:
  assumes "\<forall>v\<in>set us. snd v = SHAPES_ARE_PT"
  shows "map fst (unique_points us) = remdups_adj (map fst us)"
  using assms
proof (induction us rule: unique_points.induct)
  case (2 u us)
  have "dropWhile (same_vertex u) us = dropWhile (\<lambda>v. fst v = fst u) us"
    using "2.prems" by (intro dropWhile_cong) (auto simp: same_vertex_def)
  moreover have "map fst (dropWhile (\<lambda>v. fst v = fst u) us) = dropWhile (\<lambda>p. p = fst u) (map fst us)"
    by (simp add: dropWhile_map comp_def)
  moreover have "\<forall>v\<in>set (dropWhile (same_vertex u) us). snd v = SHAPES_ARE_PT" using "2.prems" by (auto dest: set_dropWhileD)
  ultimately show ?case using "2.IH" [OF refl refl] by (simp add: unique_points.simps(2) Let_def remdups_adj_Cons')
qed simp

lemma collinear_skip_suffix: "suffix (collinear_skip F p0 us) us \<and> (2 \<le> length us \<longrightarrow> 2 \<le> length (collinear_skip F p0 us))"
  by (induction F p0 us rule: collinear_skip.induct) (auto intro: suffix_ConsI)

text \<open>One step of stage 2.\<close>

lemma straighten_step:
  assumes "2 < length us"
  obtains n where "suffix n us" "2 \<le> length n" "\<not> r \<Longrightarrow> n = us"
    "straighten F r us = (if length n = 2 then [hd us, last us] else hd us # straighten F r (tl n))"
proof -
  let ?n = "if r \<and> snd (us ! 0) = SHAPES_ARE_PT \<and> snd (us ! 1) = SHAPES_ARE_PT then collinear_skip F (fst (us ! 0)) us else us"
  have "us ! 0 = hd us" using assms by (cases us) auto
  then have "straighten F r us = (if length ?n = 2 then [hd us, last us] else hd us # straighten F r (tl ?n))"
    using assms by (subst straighten.simps) (simp add: Let_def)
  then show ?thesis using that [of ?n] collinear_skip_suffix [of F "fst (us ! 0)" us] assms by auto
qed

lemma suffix_tl_tl: "suffix n us \<Longrightarrow> suffix (tl n) (tl us)"
  by (cases us) (auto simp: suffix_Cons intro: suffix_order.trans [OF suffix_tl])

lemma straighten_ends:
  "subseq (straighten F r us) us \<and>
   (us \<noteq> [] \<longrightarrow> straighten F r us \<noteq> [] \<and> hd (straighten F r us) = hd us \<and> last (straighten F r us) = last us) \<and>
   (\<not> r \<longrightarrow> straighten F r us = us)"
proof (induction "length us" arbitrary: us rule: less_induct)
  case less
  show ?case
  proof (cases "length us \<le> 2")
    case True
    then show ?thesis by (subst (1 2 3 4 5) straighten.simps) simp
  next
    case False
    then have len: "2 < length us" by simp
    obtain n where n: "suffix n us" "2 \<le> length n" "\<not> r \<Longrightarrow> n = us"
      and st: "straighten F r us = (if length n = 2 then [hd us, last us] else hd us # straighten F r (tl n))"
      using straighten_step [OF len] by blast
    have us: "us = hd us # tl us" "tl us \<noteq> []" using len by (cases us; auto)+
    have tn: "suffix (tl n) (tl us)" "tl n \<noteq> []" using suffix_tl_tl [OF n(1)] n(2) by (cases n; auto)+
    have "length (tl n) < length us" using suffix_length_le [OF tn(1)] len by simp
    note IH = less [OF this]
    have last: "last (tl n) = last us" using tn us by (metis last_ConsR last_appendR suffix_def)
    show ?thesis
    proof (cases "length n = 2")
      case True
      have "last us \<in> set (tl us)" using us by (metis last_ConsR last_in_set)
      then have "subseq [last us] (tl us)" by (simp add: subseq_singleton_left)
      then have "subseq [hd us, last us] us" using us(1) by (metis subseq_Cons2)
      then show ?thesis using True st n(3) len by auto
    next
      case False
      have "subseq (straighten F r (tl n)) (tl us)"
        using IH suffix_imp_subseq [OF tn(1)] by (meson subseq_order.trans)
      then have "subseq (hd us # straighten F r (tl n)) us" using us(1) by (metis subseq_Cons2)
      then show ?thesis using False st IH tn(2) last n(3) us by auto
    qed
  qed
qed

lemma subseq_subset: "subseq xs ys \<Longrightarrow> set xs \<subseteq> set ys"
  by (auto dest: list_emb_set)

lemma Simplify_long:
  assumes "4 \<le> PointCount c" "chain_ok c" "Simplify F r c = Some d"
  shows "chain_ok d \<and> m_arcs d = m_arcs c \<and> subseq (m_points d) (m_points c) \<and>
    hd (m_points d) = hd (m_points c) \<and> last (m_points d) = last (m_points c)"
    "\<not> r \<Longrightarrow> m_arcs c = [] \<Longrightarrow> m_points d = remdups_adj (m_points c)"
proof -
  let ?z = "zip (m_points c) (m_shapes c)"
  let ?u = "unique_points ?z" let ?s = "straighten F r ?u"
  have d: "d = set_vertices ?s c" using assms(1,3) by (simp add: Simplify_def)
  have len: "length (m_shapes c) = length (m_points c)" "m_points c \<noteq> []" "m_shapes c \<noteq> []"
    using assms(1) chain_ok_len [OF assms(2)] by (auto simp: PointCount_def)
  have z: "map fst ?z = m_points c" "map snd ?z = m_shapes c" "?z \<noteq> []" using len by simp_all
  note S = straighten_ends [of F r ?u] and U = unique_points_ends [OF z(3)]
  have sub: "subseq (map fst ?s) (m_points c)"
    using subseq_map [of ?s ?u fst] S unique_points_subseq [of ?z] z(1) by (metis subseq_order.trans)
  have "set (map snd ?s) \<subseteq> snd ` set ?u" using subseq_subset [of ?s ?u] S by auto
  then have shapes: "set (map snd ?s) \<subseteq> set (m_shapes c)" using unique_points_shapes [of ?z] z(2) by (metis list.set_map order_trans)
  have ok: "chain_ok d" using shapes assms(2) by (auto simp: d set_vertices_def chain_ok_def ArcCount_def)
  have "fst (hd ?z) = hd (m_points c)" "fst (last ?z) = last (m_points c)"
    using z(1,3) by (metis hd_map, metis last_map)
  then have "hd (map fst ?s) = hd (m_points c)" "last (map fst ?s) = last (m_points c)"
    using S U by (simp_all add: hd_map last_map)
  then show "chain_ok d \<and> m_arcs d = m_arcs c \<and> subseq (m_points d) (m_points c) \<and>
    hd (m_points d) = hd (m_points c) \<and> last (m_points d) = last (m_points c)"
    using ok sub by (simp add: d set_vertices_def)
  show "m_points d = remdups_adj (m_points c)" if r: "\<not> r" and no: "m_arcs c = []"
  proof -
    have "\<forall>sh\<in>set (m_shapes c). sh = SHAPES_ARE_PT" using no_arcs_shapes [OF assms(2) no] by simp
    then have "\<forall>v\<in>set ?z. snd v = SHAPES_ARE_PT" by (auto dest: set_zip_rightD)
    then have "map fst ?u = remdups_adj (m_points c)" using unique_points_plain z(1) by metis
    then show ?thesis using S r by (simp add: d set_vertices_def)
  qed
qed

text \<open>
  C29: Simplifying a chain of four or more vertices keeps its invariant, its arcs and its two ends, and
  leaves out vertices without changing or reordering the others.
\<close>

theorem Simplify_leaves_out:
  assumes "4 \<le> PointCount c" "chain_ok c" "Simplify F r c = Some d"
  shows "chain_ok d \<and> m_arcs d = m_arcs c \<and> subseq (m_points d) (m_points c) \<and>
    hd (m_points d) = hd (m_points c) \<and> last (m_points d) = last (m_points c)"
  by (rule Simplify_long(1) [OF assms])

definition bumpy :: CHAIN where
  "bumpy = chain_of_points [Vec 0 0, Vec 0 0, Vec 5 0, Vec 9 0, Vec 9 7, Vec 9 7] False"

definition F1 :: FLOATS where
  "F1 = \<lparr>fl_guess = \<lambda>x. 0, fl_mid = \<lambda>a b c. a, fl_poly = \<lambda>a. [arc_start a, arc_end a], fl_norm = \<lambda>v. \<bar>vx v\<bar> + \<bar>vy v\<bar>\<rparr>"

lemma Simplify_bumpy: "Simplify F1 True bumpy = Some (chain_of_points [Vec 0 0, Vec 9 0, Vec 9 7] False)"
  by code_simp

theorem Simplify_leaves_out_witness:
  "subseq [Vec 0 0, Vec 9 0, Vec 9 7] [Vec 0 0, Vec 0 0, Vec 5 0, Vec 9 0, Vec 9 7, Vec 9 7]"
proof -
  have "chain_ok bumpy" unfolding bumpy_def by (rule chain_ok_of_points)
  moreover have "4 \<le> PointCount bumpy" by code_simp
  ultimately show ?thesis
    using Simplify_leaves_out [OF _ _ Simplify_bumpy] by (simp add: bumpy_def chain_of_points_def)
qed

text \<open>
  Without the removal of collinear vertices, a chain without arcs is simplified to its points with
  repetitions of a point next to it taken out.
\<close>

theorem Simplify_duplicates:
  assumes "4 \<le> PointCount c" "chain_ok c" "m_arcs c = []" "Simplify F False c = Some d"
  shows "m_points d = remdups_adj (m_points c)"
  by (rule Simplify_long(2) [OF assms(1,2,4) _ assms(3)]) simp

theorem Simplify_duplicates_witness:
  "m_points (the (Simplify F1 False bumpy)) = remdups_adj (m_points bumpy)"
proof -
  have "chain_ok bumpy" unfolding bumpy_def by (rule chain_ok_of_points)
  moreover have "4 \<le> PointCount bumpy" "m_arcs bumpy = []" by code_simp+
  moreover have "Simplify F1 False bumpy = Some (chain_of_points [Vec 0 0, Vec 5 0, Vec 9 0, Vec 9 7] False)" by code_simp
  ultimately show ?thesis using Simplify_duplicates [of bumpy F1] by (metis option.sel)
qed

subsection \<open>Collision\<close>




lemma first_some_None: "first_some f xs = None \<longleftrightarrow> (\<forall>x\<in>set xs. f x = None)"
  by (auto simp: first_some_def find_None_iff find_Some_iff split: option.splits)

lemma NearestPoint_ends:
  assumes "in_board (segA s)" "in_board (segB s)"
  shows "NearestPoint s (segA s) = segA s" "NearestPoint s (segB s) = segB s"
proof -
  have z: "rescale 0 f d = 0" if "d \<noteq> 0" for f d using rescale_sign [OF that, of 0 f] by simp
  have o: "rescale l f l = f" if "l \<noteq> 0" for l f
  proof -
    have "2 * (\<bar>l\<bar> * \<bar>rescale l f l - f\<bar>) \<le> \<bar>l\<bar>"
      using rescale_nearest_lemma [OF that, of l f] by (simp only: right_diff_distrib [symmetric] abs_mult)
    moreover have "\<bar>l\<bar> * 1 \<le> \<bar>l\<bar> * \<bar>rescale l f l - f\<bar>" if "rescale l f l \<noteq> f"
      using that by (intro mult_left_mono) auto
    ultimately show ?thesis using \<open>l \<noteq> 0\<close> by fastforce
  qed
  have d0: "Dot d (vsub a a) = 0" for d a by (simp add: Dot_def vsub_def)
  have nn: "0 \<le> Dot d d" for d by (simp add: Dot_def)
  show "NearestPoint s (segA s) = segA s" unfolding NearestPoint_board [OF assms assms(1)]
    using nn [of "vsub (segB s) (segA s)"] by (cases "segA s") (auto simp: nearest_on_def Let_def d0 z)
  have eq: "segB s = segA s" if "Dot (vsub (segB s) (segA s)) (vsub (segB s) (segA s)) = 0"
    using that by (cases "segA s"; cases "segB s") (auto simp: Dot_def vsub_def sum_squares_eq_zero_iff)
  show "NearestPoint s (segB s) = segB s" unfolding NearestPoint_board [OF assms assms(2)]
    using eq nn [of "vsub (segB s) (segA s)"]
    by (cases "segA s"; cases "segB s") (auto simp: nearest_on_def Let_def o vsub_def)
qed








definition board_square :: CHAIN where
  "board_square = chain_of_points [Vec 0 0, Vec 20 0, Vec 20 20, Vec 0 20] True"


text \<open>
  The clearance of a closed chain is not the least distance that does not collide: at its clearance and one
  unit more a point still collides, which it does not with the same chain left open.
\<close>

lemma Collide_chain_pt_band:
  "Collide_chain_pt F1 (\<lambda>x. x) (\<lambda>a. None) board_square (Vec 26 7) 5 False = Some (Vec 26 7, 0)"
  "SquaredDistance_pt (CSegment board_square 1) (Vec 26 7) = 36"
  "Collide_chain_pt F1 (\<lambda>x. x) (\<lambda>a. None) (board_square\<lparr>m_closed := False\<rparr>) (Vec 26 7) 5 False = None"
  by code_simp+

subsection \<open>Self-intersection\<close>

lemma intersects_q:
  assumes "Intersects s t"
  shows "seg_d s t \<noteq> 0" "0 \<le> seg_q s t * seg_d s t" "\<bar>seg_q s t\<bar> \<le> \<bar>seg_d s t\<bar>"
  using assms by (auto simp: intersects_iff mult_nonpos_nonpos split: if_splits)

lemma Intersect_in_board:
  assumes "intersects s t ign False" "in_board (segA t)" "in_board (segB t)"
  shows "Intersect s t ign False \<noteq> None"
proof -
  have "Intersects s t" using assms(1) by (auto simp: Intersects_def intersects_def Let_def split: if_splits)
  note q = intersects_q [OF this]
  have "\<bar>segx + rescale (seg_q s t) (b - segx) (seg_d s t)\<bar> \<le> INT_MAX" if "\<bar>segx\<bar> < 2 ^ 30" "\<bar>b\<bar> < 2 ^ 30" for segx b :: int
    using rescale_between [OF q, of "b - segx"] that by (auto simp: INT_MAX_def)
  then show ?thesis
    using assms by (auto simp: Intersect_def Let_def in_board_def vsub_def not_less)
qed

lemma Contains_ends:
  assumes "0 \<le> g 0" "e = segA s \<or> e = segB s" "in_board (segA s)" "in_board (segB s)"
  shows "Contains_pt g s e"
proof -
  have "SquaredDistance_pt s e = 0"
    using assms(2) NearestPoint_ends [OF assms(3,4)] by (auto simp: SquaredDistance_pt_def SquaredEuclideanNorm_def vsub_def)
  moreover have "is_floor_sqrt 0 (isqrt g 0)" by (rule isqrt_lemma) (use assms(1) in \<open>simp_all add: ECOORD_MAX_def\<close>)
  then have "isqrt g 0 \<le> 1" by (auto simp: is_floor_sqrt_def) (metis mult_le_0_iff not_less zero_less_one_class.zero_le_one order_trans)
  ultimately show ?thesis by (simp add: Contains_pt_def Distance_pt_def)
qed

text \<open>Segments that meet in an end point of both share an end point.\<close>

lemma meet_at_ends:
  assumes "Intersects s t" "\<not> intersects s t True False"
  shows "segA t \<in> {segA s, segB s} \<or> segB t \<in> {segA s, segB s}"
proof -
  have d: "seg_d s t \<noteq> 0" using intersects_q [OF assms(1)] by blast
  have pq: "(seg_q s t = 0 \<or> seg_q s t = seg_d s t) \<and> (seg_p s t = 0 \<or> seg_p s t = seg_d s t)"
    using assms by (auto simp: Intersects_def intersects_def Let_def split: if_splits)
  define u where "u = (if seg_p s t = 0 then 0 else 1 :: real)"
  define v where "v = (if seg_q s t = 0 then 0 else 1 :: real)"
  have "seg_at s u = seg_at t v"
    unfolding seg_at_eq_iff [OF d] using pq d by (auto simp: u_def v_def)
  moreover have "seg_at s u = real_pt (if seg_p s t = 0 then segA s else segB s)"
    by (auto simp: seg_at_def u_def real_pt_def)
  moreover have "seg_at t v = real_pt (if seg_q s t = 0 then segA t else segB t)"
    by (auto simp: seg_at_def v_def real_pt_def)
  ultimately have e: "real_pt (if seg_p s t = 0 then segA s else segB s) = real_pt (if seg_q s t = 0 then segA t else segB t)"
    by (simp only:)
  have inj: "a = b" if "real_pt a = real_pt b" for a b :: VECTOR2I
    using that by (cases a; cases b) (simp add: real_pt_def)
  have "(if seg_p s t = 0 then segA s else segB s) = (if seg_q s t = 0 then segA t else segB t)"
    by (rule inj [OF e])
  then show ?thesis by (auto split: if_splits)
qed

text \<open>
  When \<open>SelfIntersecting\<close> finds nothing, two segments of the chain that are not neighbours and not
  parallel have no real point in common.
\<close>

theorem SelfIntersecting_none:
  assumes "SelfIntersecting F c = None" "0 \<le> fl_guess F 0" "\<forall>i. 0 \<le> i \<and> i < SegmentCount c \<longrightarrow> in_board (segA (CSegment c i)) \<and> in_board (segB (CSegment c i))"
    and "0 \<le> s1" "s1 + 1 < s2" "s2 < SegmentCount c" "\<not> (m_closed c \<and> s1 = 0 \<and> s2 = SegmentCount c - 1)"
    and "seg_d (CSegment c s1) (CSegment c s2) \<noteq> 0"
  shows "seg_points (CSegment c s1) \<inter> seg_points (CSegment c s2) = {}"
proof (rule ccontr)
  let ?s = "CSegment c s1" and ?t = "CSegment c s2"
  assume "seg_points ?s \<inter> seg_points ?t \<noteq> {}"
  then have meet: "Intersects ?s ?t" using Intersects_points_lemma assms(8) by blast
  have "(s1, s2) \<in> set (concat (map (\<lambda>s1. map (Pair s1) [s1 + 1..SegmentCount c - 1]) [0..SegmentCount c - 1]))"
    using assms(4-6) by simp (rule bexI [of _ s1], auto)
  then have none: "self_meet F c s1 s2 = None" using assms(1) unfolding SelfIntersecting_def first_some_None by auto
  show False
  proof (cases "intersects ?s ?t True False")
    case True
    then show False using none Intersect_in_board [OF True] assms(3-7) by (auto simp: self_meet_def Let_def split: if_splits)
  next
    case False
    then have "Contains_pt (fl_guess F) ?s (segA ?t) \<or> Contains_pt (fl_guess F) ?s (segB ?t)"
      using meet_at_ends [OF meet False] Contains_ends [where g = "fl_guess F", OF assms(2)] assms(3-6) by auto
    then show False using none assms(5,7) by (auto simp: self_meet_def Let_def split: if_splits)
  qed
qed

text \<open>Applied to a zigzag of three segments, the first and the last of which are no neighbours.\<close>

theorem SelfIntersecting_none_witness:
  "seg_points (Seg (Vec 0 0) (Vec 10 0)) \<inter> seg_points (Seg (Vec 10 10) (Vec 0 5)) = {}"
proof -
  define c where "c = chain_of_points [Vec 0 0, Vec 10 0, Vec 10 10, Vec 0 5] False"
  have n: "SelfIntersecting F1 c = None" "SegmentCount c = 3" "m_closed c = False" unfolding c_def by code_simp+
  have s: "CSegment c 0 = Seg (Vec 0 0) (Vec 10 0)" "CSegment c 1 = Seg (Vec 10 0) (Vec 10 10)"
    "CSegment c 2 = Seg (Vec 10 10) (Vec 0 5)" unfolding c_def by code_simp+
  have b: "\<forall>i. 0 \<le> i \<and> i < SegmentCount c \<longrightarrow> in_board (segA (CSegment c i)) \<and> in_board (segB (CSegment c i))"
  proof (intro allI impI)
    fix i assume "0 \<le> i \<and> i < SegmentCount c"
    then have "i = 0 \<or> i = 1 \<or> i = 2" using n(2) by auto
    then show "in_board (segA (CSegment c i)) \<and> in_board (segB (CSegment c i))"
      by (elim disjE) (simp_all add: s [unfolded One_nat_def] in_board_def)
  qed
  have "seg_points (CSegment c 0) \<inter> seg_points (CSegment c 2) = {}"
    by (rule SelfIntersecting_none [OF n(1) _ b]) (simp_all add: n(2,3) s F1_def seg_d_def Cross_def vsub_def)
  then show ?thesis unfolding s .
qed

subsection \<open>What the code does not do\<close>

text \<open>Taking out collinear vertices drops a spike, however long: the chord of its two ends has no length.\<close>

lemma Simplify_drops_spike:
  "Simplify F1 True (chain_of_points [Vec 0 0, Vec 100000 0, Vec 0 0, Vec 0 500] False) =
    Some (chain_of_points [Vec 0 0, Vec 0 500] False)"
  by code_simp

text \<open>Each vertex is compared with the next chord only, not with the one that stays: deviations add up.\<close>

lemma Simplify_drifts:
  "Simplify F1 True (chain_of_points [Vec 0 0, Vec 1000 1, Vec 2000 3, Vec 3000 6, Vec 4000 10, Vec 5000 30] False) =
    Some (chain_of_points [Vec 0 0, Vec 4000 10, Vec 5000 30] False)"
  "LineDistance (fl_guess F1) (Seg (Vec 0 0) (Vec 4000 10)) (Vec 2000 3) False = 2"
  by code_simp+

text \<open>A segment that covers an earlier one is not found.\<close>

lemma SelfIntersecting_covered:
  "SelfIntersecting F1 (chain_of_points [Vec 3 0, Vec 9 0, Vec 0 0] False) = None"
  by code_simp

end
