(* ===== verification/Strings.thy ===== *)
theory Strings
  imports Kicad_Prelude
begin

text \<open>
  The text utilities of \<open>common/string_utils.cpp\<close>: escaping of names for files, nets and libraries
  and its inverse, quoted strings, the old overbar notation, comparison of strings with numbers in
  them, wild cards and splitting. A \<open>wxString\<close> is a \<open>string\<close>, of the code points below 256; a C
  string is read up to its first character 0, or the end of the list. The conversions between the two are
  functions of the library. Numbers are read from digits into an \<open>int\<close>, whose overflow is undefined and
  read as \<open>None\<close>. Upper case is that of the locale "C", in which only the ASCII letters have one.
\<close>

subsection \<open>Escaping\<close>

datatype ESCAPE_CONTEXT =
  CTX_NETNAME | CTX_LIBID | CTX_LEGACY_LIBID | CTX_IPC | CTX_QUOTED_STR | CTX_JS_STR | CTX_LINE | CTX_CSV
| CTX_FILENAME | CTX_NO_SPACE

definition hex4 :: "nat \<Rightarrow> string" where
  "hex4 n = map (\<lambda>d. ''0123456789ABCDEF'' ! d) [n div 4096 mod 16, n div 256 mod 16, n div 16 mod 16, n mod 16]"

definition newline :: char where "newline = CHR 0x0A"
definition creturn :: char where "creturn = CHR 0x0D"
definition tab :: char where "tab = CHR 0x09"
definition bslash :: char where "bslash = CHR 0x5C"
definition dquote :: char where "dquote = CHR 0x22"
definition squote :: char where "squote = CHR 0x27"

lemmas char_defs = newline_def creturn_def tab_def bslash_def dquote_def squote_def

fun escape_char :: "ESCAPE_CONTEXT \<Rightarrow> char \<Rightarrow> string" where
  "escape_char CTX_NETNAME c =
    (if c = CHR ''/'' then ''{slash}'' else if c = newline \<or> c = creturn then [] else [c])"
| "escape_char CTX_IPC c =
    (if c = CHR ''/'' then ''{slash}'' else if c = CHR '','' then ''{comma}''
     else if c = dquote then ''{dblquote}'' else [c])"
| "escape_char CTX_QUOTED_STR c = (if c = dquote then ''{dblquote}'' else [c])"
| "escape_char CTX_JS_STR c =
    (if of_char c \<ge> (127::nat) \<or> c = squote \<or> c = bslash \<or> c = CHR ''('' \<or> c = CHR '')''
     then [bslash, CHR ''u''] @ hex4 (of_char c) else [c])"
| "escape_char CTX_LINE c = (if c = newline \<or> c = creturn then ''{return}'' else [c])"
| "escape_char CTX_FILENAME c =
    (if c = CHR ''/'' then ''{slash}'' else if c = bslash then ''{backslash}''
     else if c = dquote then ''{dblquote}'' else if c = CHR ''<'' then ''{lt}''
     else if c = CHR ''>'' then ''{gt}'' else if c = CHR ''|'' then ''{bar}''
     else if c = CHR '':'' then ''{colon}'' else if c = tab then ''{tab}''
     else if c = newline \<or> c = creturn then ''{return}'' else [c])"
| "escape_char CTX_NO_SPACE c = (if c = CHR '' '' then ''{space}'' else [c])"
| "escape_char CTX_CSV c =
    (if c = CHR '','' then ''{comma}'' else if c = newline \<or> c = creturn then ''{return}'' else [c])"
| "escape_char ctx c =
    (if c = CHR ''/'' \<and> ctx = CTX_LEGACY_LIBID then ''{slash}'' else if c = bslash then ''{backslash}''
     else if c = CHR ''<'' then ''{lt}'' else if c = CHR ''>'' then ''{gt}''
     else if c = CHR '':'' then ''{colon}'' else if c = dquote then ''{dblquote}''
     else if c = newline \<or> c = creturn then [] else [c])"

definition EscapeString :: "string \<Rightarrow> ESCAPE_CONTEXT \<Rightarrow> string" where
  "EscapeString aSource aContext = concat (map (escape_char aContext) aSource)"

text \<open>The inner loop: the token up to the brace that closes it, and what is left behind it.\<close>

fun token_loop :: "nat \<Rightarrow> string \<Rightarrow> string \<Rightarrow> string \<times> string \<times> bool" where
  "token_loop depth token [] = (token, [], False)"
| "token_loop depth token (ch # rest) =
    (let depth = (if ch = CHR ''{'' then depth + 1 else if ch = CHR ''}'' then depth - 1 else depth) in
     if depth \<le> 0 then (token, rest, True) else token_loop depth (token @ [ch]) rest)"

definition token_value :: "string \<Rightarrow> char option" where
  "token_value = map_of
    [(''dblquote'', dquote), (''quote'', squote), (''lt'', CHR ''<''), (''gt'', CHR ''>''),
     (''backslash'', bslash), (''slash'', CHR ''/''), (''bar'', CHR ''|''), (''comma'', CHR '',''),
     (''colon'', CHR '':''), (''space'', CHR '' ''), (''dollar'', CHR ''$''), (''tab'', tab),
     (''return'', newline), (''brace'', CHR ''{'')]"

definition formatting_char :: "char \<Rightarrow> bool" where
  "formatting_char c \<longleftrightarrow> c = CHR ''$'' \<or> c = CHR ''~'' \<or> c = CHR ''^'' \<or> c = CHR ''_''"

lemma token_loop_length: "token_loop d t s = (tok, rest, b) \<Longrightarrow> length tok + length rest \<le> length t + length s"
  by (induction d t s arbitrary: tok rest b rule: token_loop.induct) (fastforce split: if_splits simp: Let_def)+

text \<open>\<open>unescape_loop prev s\<close>: the outer loop, \<open>prev\<close> being the character before \<open>s\<close>.\<close>

function unescape_loop :: "char \<Rightarrow> string \<Rightarrow> string" and UnescapeString :: "string \<Rightarrow> string" where
  "unescape_loop prev [] = []"
| "unescape_loop prev (ch # s) =
    (if ch = CHR ''{'' then
       (case token_loop 1 [] s of (token, rest, terminated) \<Rightarrow>
          (if \<not> terminated then ''{'' @ UnescapeString token
           else if formatting_char prev then ''{'' @ UnescapeString token @ ''}''
           else (case token_value token of
                   Some c \<Rightarrow> [c]
                 | None \<Rightarrow> ''{'' @ UnescapeString token @ ''}'')) @ unescape_loop (CHR ''}'') rest)
     else ch # unescape_loop ch s)"
| "UnescapeString aSource = (if length aSource \<le> 2 then aSource else unescape_loop (CHR 0x00) aSource)"
  by pat_completeness auto
termination
  by (relation "measure (\<lambda>x. case x of Inl (p, s) \<Rightarrow> 2 * length s | Inr s \<Rightarrow> 2 * length s + 1)")
     (auto dest: token_loop_length [OF sym])

declare UnescapeString.simps [simp del]

subsection \<open>Quoted strings\<close>

fun delimited_loop :: "bool \<Rightarrow> string \<Rightarrow> nat \<Rightarrow> string \<Rightarrow> string \<times> nat" where
  "delimited_loop inside [] n utf8 = (utf8, n + 1)"
| "delimited_loop inside (cc # s) n utf8 =
    (if cc = CHR 0x00 then (utf8, n + 1)
     else if cc = dquote then (if inside then (utf8, n + 1) else delimited_loop True s (n + 1) utf8)
     else if inside then
       (if cc = bslash then
          (case s of
             [] \<Rightarrow> (utf8, n + 2)
           | d # s' \<Rightarrow>
              (if d = CHR 0x00 then (utf8, n + 2)
               else delimited_loop inside s' (n + 2)
                 (utf8 @ (if d \<noteq> dquote \<and> d \<noteq> bslash then [bslash] else []) @ [d])))
        else delimited_loop inside s (n + 1) (utf8 @ [cc]))
     else delimited_loop inside s (n + 1) utf8)"

text \<open>What the text utilities take from the library: its conversions between bytes and text.\<close>

record WX_CONV =
  wx_utf8_str :: "string \<Rightarrow> string"
  wx_FromUTF8 :: "string \<Rightarrow> string"
  wx_cMB2WC :: "string \<Rightarrow> string"
  wx_From8BitData :: "string \<Rightarrow> string"

definition From_UTF8 :: "WX_CONV \<Rightarrow> string \<Rightarrow> string" where
  "From_UTF8 W cstring =
    (let line = wx_FromUTF8 W cstring in
     if line = [] then
       (let line = wx_cMB2WC W cstring in if line = [] then wx_From8BitData W cstring else line)
     else line)"

text \<open>The text and the number of characters read, the terminating 0 counted.\<close>

definition ReadDelimitedText :: "WX_CONV \<Rightarrow> string \<Rightarrow> string \<times> nat" where
  "ReadDelimitedText W aSource =
    (case delimited_loop False aSource 0 [] of (utf8, n) \<Rightarrow> (From_UTF8 W utf8, n))"

text \<open>The version with a buffer of \<open>limit + 1\<close> bytes.\<close>

fun delimited_buf :: "nat \<Rightarrow> bool \<Rightarrow> string \<Rightarrow> nat \<Rightarrow> string \<Rightarrow> string \<times> nat" where
  "delimited_buf limit inside [] n dest = (dest, n + 1)"
| "delimited_buf limit inside (cc # s) n dest =
    (if cc = CHR 0x00 \<or> \<not> length dest < limit then (dest, n + 1)
     else if cc = dquote then (if inside then (dest, n + 1) else delimited_buf limit True s (n + 1) dest)
     else if inside then
       (if cc = bslash then
          (case s of
             [] \<Rightarrow> (dest, n + 2)
           | d # s' \<Rightarrow>
              (if d = CHR 0x00 then (dest, n + 2)
               else
                 (let dest = (if d \<noteq> dquote \<and> d \<noteq> bslash then dest @ [bslash] else dest);
                      dest = (if length dest < limit then dest @ [d] else dest)
                  in delimited_buf limit inside s' (n + 2) dest)))
        else delimited_buf limit inside s (n + 1) (dest @ [cc]))
     else delimited_buf limit inside s (n + 1) dest)"

definition ReadDelimitedText_buf :: "string \<Rightarrow> int \<Rightarrow> (string \<times> nat) option" where
  "ReadDelimitedText_buf aSource aDestSize =
    (if aDestSize \<le> 0 then None else Some (delimited_buf (nat aDestSize - 1) False aSource 0 []))"

text \<open>\<open>wxString::Replace\<close>: every occurrence, from the left, the replacement not looked at again.\<close>

function Replace_all :: "string \<Rightarrow> string \<Rightarrow> string \<Rightarrow> string" where
  "Replace_all old new s =
    (if s = [] \<or> old = [] then s
     else if take (length old) s = old then new @ Replace_all old new (drop (length old) s)
     else hd s # Replace_all old new (tl s))"
  by pat_completeness auto
termination
  by (relation "measure (\<lambda>(old, new, s). length s)") auto

declare Replace_all.simps [simp del]

text \<open>
  \<open>EscapedUTF8\<close>: the copy \<open>str\<close>, in which line ends are replaced, is not the one that is written out.
\<close>

definition quoted_char :: "char \<Rightarrow> string" where
  "quoted_char c = (if c = dquote then [bslash, dquote] else if c = bslash then [bslash, bslash] else [c])"

definition EscapedUTF8 :: "WX_CONV \<Rightarrow> string \<Rightarrow> string" where
  "EscapedUTF8 W aString =
    (let str = Replace_all [creturn, newline] [creturn] aString;
         str = Replace_all [newline] [creturn] str;
         utf8 = wx_utf8_str W aString
     in [dquote] @ concat (map quoted_char utf8) @ [dquote])"

subsection \<open>HTML\<close>

definition html_char :: "char \<Rightarrow> string" where
  "html_char c =
    (if c = dquote then ''&quot;'' else if c = squote then ''&apos;'' else if c = CHR ''&'' then ''&amp;''
     else if c = CHR ''<'' then ''&lt;'' else if c = CHR ''>'' then ''&gt;'' else [c])"

definition EscapeHTML :: "string \<Rightarrow> string" where "EscapeHTML s = concat (map html_char s)"

definition UnescapeHTML :: "string \<Rightarrow> string" where
  "UnescapeHTML s =
    (let s = Replace_all ''&quot;'' [dquote] s; s = Replace_all ''&apos;'' [squote] s;
         s = Replace_all ''&amp;'' ''&'' s; s = Replace_all ''&lt;'' ''<'' s
     in Replace_all ''&gt;'' ''>'' s)"

subsection \<open>Overbars and printable characters\<close>

text \<open>\<open>None\<close> is the early return of the source string.\<close>

fun overbar_loop :: "bool \<Rightarrow> string \<Rightarrow> string \<Rightarrow> string option" where
  "overbar_loop inOverbar [] newStr = Some (if inOverbar then newStr @ ''}'' else newStr)"
| "overbar_loop inOverbar (c # s) newStr =
    (if c = CHR ''~'' then
       (if s \<noteq> [] \<and> hd s = CHR ''~'' then
          (if tl s \<noteq> [] \<and> hd (tl s) = CHR ''{'' then overbar_loop inOverbar s (newStr @ ''~~{}'')
           else overbar_loop inOverbar (tl s) (newStr @ ''~''))
        else if s \<noteq> [] \<and> hd s = CHR ''{'' then None
        else if inOverbar then overbar_loop False s (newStr @ ''}'')
        else overbar_loop True s (newStr @ ''~{''))
     else if (c = CHR '' '' \<or> c = CHR ''}'' \<or> c = CHR '')'') \<and> inOverbar
     then overbar_loop False s (newStr @ ''}'' @ [c])
     else overbar_loop inOverbar s (newStr @ [c]))"

definition ConvertToNewOverbarNotation :: "string \<Rightarrow> string" where
  "ConvertToNewOverbarNotation aOldStr =
    (if aOldStr = ''~'' then aOldStr
     else (case overbar_loop False aOldStr [] of None \<Rightarrow> aOldStr | Some s \<Rightarrow> s))"

fun printable_loop :: "string \<Rightarrow> int \<Rightarrow> int \<Rightarrow> int \<Rightarrow> int \<Rightarrow> int" where
  "printable_loop [] char_count overbarDepth superSubDepth braceNesting = char_count"
| "printable_loop (c # s) char_count overbarDepth superSubDepth braceNesting =
    (if c = tab then printable_loop s char_count overbarDepth superSubDepth braceNesting
     else if (c = CHR ''^'' \<or> c = CHR ''_'') \<and> superSubDepth = - 1 \<and> s \<noteq> [] \<and> hd s = CHR ''{''
     then printable_loop (tl s) char_count overbarDepth braceNesting (braceNesting + 1)
     else if c = CHR ''~'' \<and> overbarDepth = - 1 \<and> s \<noteq> [] \<and> hd s = CHR ''{''
     then printable_loop (tl s) char_count braceNesting superSubDepth (braceNesting + 1)
     else if c = CHR ''{'' then printable_loop s (char_count + 1) overbarDepth superSubDepth (braceNesting + 1)
     else if c = CHR ''}'' then
       (let braceNesting = (if braceNesting > 0 then braceNesting - 1 else braceNesting) in
        if braceNesting = superSubDepth then printable_loop s char_count overbarDepth (- 1) braceNesting
        else if braceNesting = overbarDepth then printable_loop s char_count (- 1) superSubDepth braceNesting
        else printable_loop s (char_count + 1) overbarDepth superSubDepth braceNesting)
     else printable_loop s (char_count + 1) overbarDepth superSubDepth braceNesting)"

definition PrintableCharCount :: "string \<Rightarrow> int" where
  "PrintableCharCount aString = printable_loop aString 0 (- 1) (- 1) 0"

definition is_space :: "char \<Rightarrow> bool" where
  "is_space c \<longleftrightarrow> c \<in> set [CHR '' '', CHR 0x09, CHR 0x0A, CHR 0x0D, CHR 0x0C, CHR 0x0B]"

definition StrPurge :: "string \<Rightarrow> string" where
  "StrPurge s = rev (dropWhile is_space (rev (dropWhile is_space s)))"

subsection \<open>Comparison\<close>

definition is_digit :: "char \<Rightarrow> bool" where
  "is_digit c \<longleftrightarrow> of_char c \<ge> (48::nat) \<and> of_char c \<le> (57::nat)"

definition digit_value :: "char \<Rightarrow> int" where
  "digit_value c = of_char c - 48"

text \<open>
  The value of a run of digits, as the loops accumulate it: \<open>nb * 10 + (int) c - '0'\<close>, every intermediate
  result of which is an \<open>int\<close>. Signed overflow has no meaning in the language: the result is \<open>None\<close>.
\<close>

definition checked_int :: "int \<Rightarrow> int option" where
  "checked_int x = (if - (2 ^ 31) \<le> x \<and> x < 2 ^ 31 then Some x else None)"

definition add_digit :: "char \<Rightarrow> int \<Rightarrow> int option" where
  "add_digit c nb =
    Option.bind (checked_int (nb * 10)) (\<lambda>k. Option.bind (checked_int (k + of_char c)) (\<lambda>k. checked_int (k - 48)))"

definition digits_value :: "string \<Rightarrow> int option" where
  "digits_value = foldl (\<lambda>nb c. Option.bind nb (add_digit c)) (Some 0)"

definition toupper :: "char \<Rightarrow> char" where
  "toupper c = (if of_char c \<ge> (97::nat) \<and> of_char c \<le> (122::nat) then char_of (of_char c - (32::nat)) else c)"

definition head_or_0 :: "string \<Rightarrow> char" where
  "head_or_0 s = (if s = [] then CHR 0x00 else hd s)"

definition char_cmp :: "bool \<Rightarrow> char \<Rightarrow> char \<Rightarrow> int" where
  "char_cmp aIgnoreCase c1 c2 =
    (let a = (if aIgnoreCase then of_char (toupper c1) else of_char c1 :: nat);
         b = (if aIgnoreCase then of_char (toupper c2) else of_char c2 :: nat)
     in if a < b then - 1 else if a > b then 1 else 0)"

function StrNumCmp :: "string \<Rightarrow> string \<Rightarrow> bool \<Rightarrow> int option" where
  "StrNumCmp str1 str2 aIgnoreCase =
    (if str1 = [] \<or> str2 = [] then
       Some (if str1 = [] \<and> str2 \<noteq> [] then - 1 else if str1 \<noteq> [] \<and> str2 = [] then 1 else 0)
     else
       (let both = is_digit (hd str1) \<and> is_digit (hd str2);
            r1 = (if both then dropWhile is_digit str1 else str1);
            r2 = (if both then dropWhile is_digit str2 else str2);
            nb1 = (if both then digits_value (takeWhile is_digit str1) else Some 0);
            nb2 = (if both then digits_value (takeWhile is_digit str2) else Some 0);
            cmp = char_cmp aIgnoreCase (head_or_0 r1) (head_or_0 r2)
        in if nb1 = None \<or> nb2 = None then None
           else if the nb1 < the nb2 then Some (- 1) else if the nb1 > the nb2 then Some 1
           else if cmp \<noteq> 0 then Some cmp
           else StrNumCmp (tl r1) (tl r2) aIgnoreCase))"
  by pat_completeness auto
termination
proof (relation "measure (\<lambda>(s, t, ic). length s)", simp, goal_cases)
  case (1 str1 str2 ic both r1 r2 nb1 nb2 cmp)
  have "length r1 \<le> length str1" unfolding 1 by (simp add: length_dropWhile_le)
  moreover have "0 < length str1" using 1 by simp
  ultimately have "length (tl r1) < length str1" unfolding length_tl by linarith
  then show ?case by simp
qed

declare StrNumCmp.simps [simp del]

subsection \<open>Wild cards\<close>

text \<open>
  The second loop: \<open>mp\<close> is the pattern behind the last star, \<open>cp\<close> where its next try begins.
\<close>

partial_function (option) wild_loop :: "string \<Rightarrow> string \<Rightarrow> string \<Rightarrow> string \<Rightarrow> bool option" where
  "wild_loop wild str mp cp =
    (if str = [] then Some (dropWhile (\<lambda>c. c = CHR ''*'') wild = [])
     else if wild \<noteq> [] \<and> hd wild = CHR ''*'' then
       (if tl wild = [] then Some True else wild_loop (tl wild) str (tl wild) (tl str))
     else if wild \<noteq> [] \<and> (hd wild = hd str \<or> hd wild = CHR ''?'') then wild_loop (tl wild) (tl str) mp cp
     else wild_loop mp cp mp (tl cp))"

declare wild_loop.simps [code]

fun wild_head :: "string \<Rightarrow> string \<Rightarrow> bool option" where
  "wild_head wild [] = Some (dropWhile (\<lambda>c. c = CHR ''*'') wild = [])"
| "wild_head [] (c # str) = Some False"
| "wild_head (w # wild) (c # str) =
    (if w = CHR ''*'' then wild_loop (w # wild) (c # str) [] []
     else if w \<noteq> c \<and> w \<noteq> CHR ''?'' then Some False
     else wild_head wild str)"

definition WildCompareString :: "string \<Rightarrow> string \<Rightarrow> bool \<Rightarrow> bool option" where
  "WildCompareString pattern string_to_tst case_sensitive =
    (if case_sensitive then wild_head pattern string_to_tst
     else wild_head (map toupper pattern) (map toupper string_to_tst))"

subsection \<open>Splitting\<close>

definition is_separator :: "char \<Rightarrow> bool" where "is_separator c \<longleftrightarrow> c = CHR ''.'' \<or> c = CHR '',''"

text \<open>The scans from the end, over the reversed string: beginning, last run of digits, end.\<close>

definition SplitString :: "string \<Rightarrow> string \<times> string \<times> string" where
  "SplitString strToSplit =
    (let r = rev strToSplit; strEnd = takeWhile (\<lambda>c. \<not> is_digit c) r; r1 = dropWhile (\<lambda>c. \<not> is_digit c) r in
     if r1 = [] then (strToSplit, [], [])
     else
       (let digits = takeWhile (\<lambda>c. is_digit c \<or> is_separator c) r1;
            r2 = dropWhile (\<lambda>c. is_digit c \<or> is_separator c) r1
        in (rev r2, rev digits, rev strEnd)))"

fun trailing_loop :: "string \<Rightarrow> int \<Rightarrow> int \<Rightarrow> int option" where
  "trailing_loop [] number base = Some number"
| "trailing_loop (c # r) number base =
    (if \<not> is_digit c then Some number
     else
       Option.bind (checked_int (digit_value c * base)) (\<lambda>k.
       Option.bind (checked_int (number + k)) (\<lambda>number.
       Option.bind (checked_int (base * 10)) (\<lambda>base. trailing_loop r number base))))"

definition GetTrailingInt :: "string \<Rightarrow> int option" where
  "GetTrailingInt aStr = trailing_loop (rev aStr) 0 1"

fun wxStringSplit_loop :: "string \<Rightarrow> char \<Rightarrow> string list \<Rightarrow> string \<Rightarrow> string list" where
  "wxStringSplit_loop [] aSplitter aStrings tmp = (if tmp \<noteq> [] then aStrings @ [tmp] else aStrings)"
| "wxStringSplit_loop (c # s) aSplitter aStrings tmp =
    (if c = aSplitter then wxStringSplit_loop s aSplitter (aStrings @ [tmp]) []
     else wxStringSplit_loop s aSplitter aStrings (tmp @ [c]))"

definition wxStringSplit :: "string \<Rightarrow> char \<Rightarrow> string list" where
  "wxStringSplit aText aSplitter = wxStringSplit_loop aText aSplitter [] []"

definition illegalFileNameChars :: string where
  "illegalFileNameChars = [bslash, CHR ''/'', CHR '':'', dquote, CHR ''<'', CHR ''>'', CHR ''|'']"

definition hex2 :: "nat \<Rightarrow> string" where
  "hex2 n = [''0123456789abcdef'' ! (n div 16 mod 16), ''0123456789abcdef'' ! (n mod 16)]"

text \<open>The name, and whether it changed.\<close>

definition ReplaceIllegalFileNameChars :: "string \<Rightarrow> char option \<Rightarrow> string \<times> bool" where
  "ReplaceIllegalFileNameChars aName aReplaceChar =
    (concat (map (\<lambda>c. if c \<in> set illegalFileNameChars
                      then (case aReplaceChar of Some r \<Rightarrow> [r] | None \<Rightarrow> CHR ''%'' # hex2 (of_char c))
                      else [c]) aName),
     \<exists>c\<in>set aName. c \<in> set illegalFileNameChars)"

subsection \<open>Unescaping what was escaped\<close>

text \<open>
  The reference: what a context keeps of a text, line ends left out or merged, and the characters it
  writes as tokens.
\<close>

definition kept :: "ESCAPE_CONTEXT \<Rightarrow> string \<Rightarrow> string" where
  "kept ctx s =
    (if ctx \<in> {CTX_NETNAME, CTX_LIBID, CTX_LEGACY_LIBID} then filter (\<lambda>c. c \<noteq> newline \<and> c \<noteq> creturn) s
     else if ctx \<in> {CTX_LINE, CTX_FILENAME, CTX_CSV} then map (\<lambda>c. if c = creturn then newline else c) s
     else s)"

fun escaped :: "ESCAPE_CONTEXT \<Rightarrow> char list" where
  "escaped CTX_NETNAME = ''/''"
| "escaped CTX_LIBID = [bslash, CHR ''<'', CHR ''>'', CHR '':'', dquote]"
| "escaped CTX_LEGACY_LIBID = [CHR ''/'', bslash, CHR ''<'', CHR ''>'', CHR '':'', dquote]"
| "escaped CTX_IPC = [CHR ''/'', CHR '','', dquote]"
| "escaped CTX_QUOTED_STR = [dquote]"
| "escaped CTX_JS_STR = []"
| "escaped CTX_LINE = [newline]"
| "escaped CTX_CSV = [CHR '','', newline]"
| "escaped CTX_FILENAME = [CHR ''/'', bslash, dquote, CHR ''<'', CHR ''>'', CHR ''|'', CHR '':'', tab, newline]"
| "escaped CTX_NO_SPACE = '' ''"

text \<open>Nothing the context escapes stands right behind one of the four that begin a formatting construct.\<close>

definition no_formatting :: "ESCAPE_CONTEXT \<Rightarrow> string \<Rightarrow> bool" where
  "no_formatting ctx = successively (\<lambda>a b. formatting_char a \<longrightarrow> b \<notin> set (escaped ctx))"

text \<open>A character the context keeps as it is; all others are dropped or merged.\<close>

definition stays :: "ESCAPE_CONTEXT \<Rightarrow> char \<Rightarrow> bool" where
  "stays ctx c \<longleftrightarrow> ctx \<noteq> CTX_JS_STR \<and>
    (ctx \<in> {CTX_NETNAME, CTX_LIBID, CTX_LEGACY_LIBID} \<longrightarrow> c \<noteq> newline) \<and>
    (ctx \<in> {CTX_NETNAME, CTX_LIBID, CTX_LEGACY_LIBID, CTX_LINE, CTX_FILENAME, CTX_CSV} \<longrightarrow> c \<noteq> creturn)"

lemma escape_kept: "EscapeString (kept ctx s) ctx = EscapeString s ctx"
  by (induction s; cases ctx) (auto simp: EscapeString_def kept_def char_defs)

lemma stays_kept: "ctx \<noteq> CTX_JS_STR \<Longrightarrow> c \<in> set (kept ctx s) \<Longrightarrow> stays ctx c"
  by (auto simp: kept_def stays_def char_defs split: if_splits)

lemma brace_kept: "CHR ''{'' \<notin> set s \<Longrightarrow> CHR ''{'' \<notin> set (kept ctx s)"
  by (auto simp: kept_def char_defs split: if_splits)

lemma escape_char_plain: "stays ctx c \<Longrightarrow> c \<notin> set (escaped ctx) \<Longrightarrow> escape_char ctx c = [c]"
  by (cases ctx) (auto simp: stays_def char_defs)

lemma token_loop_plain:
  "CHR ''{'' \<notin> set tok \<Longrightarrow> CHR ''}'' \<notin> set tok \<Longrightarrow>
    token_loop 1 acc (tok @ ''}'' @ rest) = (acc @ tok, rest, True)"
  by (induction tok arbitrary: acc) (auto simp: Let_def)

text \<open>Every escape is the token of its character between braces.\<close>

lemma escape_char_token:
  assumes "c \<in> set (escaped ctx)"
  obtains tok where "escape_char ctx c = ''{'' @ tok @ ''}''" "token_value tok = Some c"
    "CHR ''{'' \<notin> set tok" "CHR ''}'' \<notin> set tok"
proof -
  let ?tok = "tl (butlast (escape_char ctx c))"
  have "escape_char ctx c = ''{'' @ ?tok @ ''}''" using assms by (cases ctx) (auto simp: char_defs)
  moreover have "token_value ?tok = Some c" using assms by (cases ctx) (auto simp: char_defs token_value_def)
  moreover have "CHR ''{'' \<notin> set ?tok" "CHR ''}'' \<notin> set ?tok" using assms by (cases ctx; auto simp: char_defs)+
  ultimately show thesis by (rule that)
qed

lemma formatting_not_escaped: "formatting_char c \<Longrightarrow> c \<notin> set (escaped ctx)"
  by (cases ctx) (auto simp: formatting_char_def char_defs)

lemma unescape_loop_escaped:
  assumes "\<forall>c\<in>set t. c \<noteq> CHR ''{'' \<and> stays ctx c" "no_formatting ctx (p # t)" "formatting_char p = formatting_char q"
  shows "unescape_loop q (EscapeString t ctx) = t"
  using assms
proof (induction t arbitrary: p q)
  case Nil
  then show ?case by (simp add: EscapeString_def)
next
  case (Cons c t)
  have E: "EscapeString (c # t) ctx = escape_char ctx c @ EscapeString t ctx" by (simp add: EscapeString_def)
  have next_ok: "no_formatting ctx (c # t)" using Cons.prems(2) by (simp add: no_formatting_def)
  show ?case
  proof (cases "c \<in> set (escaped ctx)")
    case False
    then show ?thesis using Cons.IH [OF _ next_ok refl] Cons.prems(1) escape_char_plain [of ctx c] unfolding E by simp
  next
    case True
    from escape_char_token [OF True] obtain tok where tok: "escape_char ctx c = ''{'' @ tok @ ''}''" "token_value tok = Some c"
        "CHR ''{'' \<notin> set tok" "CHR ''}'' \<notin> set tok" .
    have q: "\<not> formatting_char q" using True Cons.prems(2,3) by (auto simp: no_formatting_def)
    have c: "\<not> formatting_char c" using True formatting_not_escaped by blast
    have "EscapeString (c # t) ctx = CHR ''{'' # (tok @ ''}'' @ EscapeString t ctx)" unfolding E tok(1) by simp
    then have "unescape_loop q (EscapeString (c # t) ctx) = c # unescape_loop (CHR ''}'') (EscapeString t ctx)"
      using token_loop_plain [OF tok(3,4), of "[]" "EscapeString t ctx"] tok(2) q by simp
    then show ?thesis
      using Cons.IH [OF _ next_ok, of "CHR ''}''"] Cons.prems(1) c by (simp add: formatting_char_def)
  qed
qed

lemma short_escape:
  "\<forall>c\<in>set t. stays ctx c \<Longrightarrow> length (EscapeString t ctx) \<le> 2 \<Longrightarrow> EscapeString t ctx = t"
proof (induction t)
  case (Cons c t)
  have E: "EscapeString (c # t) ctx = escape_char ctx c @ EscapeString t ctx" by (simp add: EscapeString_def)
  show ?case
  proof (cases "c \<in> set (escaped ctx)")
    case False
    then show ?thesis using Cons escape_char_plain [of ctx c] unfolding E by simp
  next
    case True
    from escape_char_token [OF True] obtain tok where tok: "escape_char ctx c = ''{'' @ tok @ ''}''" "token_value tok = Some c" .
    then have "tok = []" using Cons.prems(2) by (simp add: EscapeString_def)
    then show ?thesis using tok(2) by (simp add: token_value_def)
  qed
qed (simp add: EscapeString_def)

lemma UnescapeString_EscapeString_lemma:
  assumes "ctx \<noteq> CTX_JS_STR" "CHR ''{'' \<notin> set s" "no_formatting ctx (kept ctx s)"
  shows "UnescapeString (EscapeString s ctx) = kept ctx s"
proof -
  have t: "\<forall>c\<in>set (kept ctx s). c \<noteq> CHR ''{'' \<and> stays ctx c"
    using stays_kept [OF assms(1)] brace_kept [OF assms(2)] by metis
  have "no_formatting ctx (CHR 0x00 # kept ctx s)"
    using assms(3) by (cases "kept ctx s") (auto simp: no_formatting_def formatting_char_def)
  note L = unescape_loop_escaped [OF t this refl]
  show ?thesis
  proof (cases "length (EscapeString s ctx) \<le> 2")
    case True
    then show ?thesis using short_escape [of "kept ctx s" ctx] t by (simp add: UnescapeString.simps escape_kept)
  next
    case False
    then show ?thesis using L by (simp add: UnescapeString.simps escape_kept)
  qed
qed

subsection \<open>Quoted text\<close>

lemma delimited_quoted:
  "CHR 0x00 \<notin> set u \<Longrightarrow> delimited_loop True (concat (map quoted_char u) @ [dquote] @ rest) n acc =
   (acc @ u, n + length (concat (map quoted_char u)) + 1)"
  by (induction u arbitrary: n acc) (auto simp: char_defs quoted_char_def)

lemma From_UTF8_back:
  assumes "wx_FromUTF8 W (wx_utf8_str W s) = s" "wx_utf8_str W [] = []" "wx_cMB2WC W [] = []" "wx_From8BitData W [] = []"
  shows "From_UTF8 W (wx_utf8_str W s) = s"
  using assms by (cases "s = []") (auto simp: From_UTF8_def Let_def)

subsection \<open>The order of names\<close>

lemma char_cmp_swap: "char_cmp ic b a = - char_cmp ic a b"
  by (simp add: char_cmp_def Let_def)

text \<open>
  What a name is compared by: its characters and its runs of digits, a run standing among the
  characters where its first digit does.
\<close>

definition number_value :: "string \<Rightarrow> int" where
  "number_value = foldl (\<lambda>v c. v * 10 + digit_value c) 0"

text \<open>Every number in the name is at most \<open>INT_MAX - 48\<close>.\<close>

fun numbers_fit :: "string \<Rightarrow> bool" where
  "numbers_fit [] \<longleftrightarrow> True"
| "numbers_fit (c # s) \<longleftrightarrow> number_value (takeWhile is_digit (c # s)) + 48 < 2 ^ 31 \<and> numbers_fit s"

function sort_key :: "bool \<Rightarrow> string \<Rightarrow> (nat \<times> int) list" where
  "sort_key ic [] = []"
| "is_digit c \<Longrightarrow> sort_key ic (c # s) =
    (48, number_value (takeWhile is_digit (c # s))) # sort_key ic (dropWhile is_digit s)"
| "\<not> is_digit c \<Longrightarrow> sort_key ic (c # s) = (of_char (if ic then toupper c else c), 0) # sort_key ic s"
  by (auto, metis list.exhaust)
termination
  by (relation "measure (\<lambda>(ic, s). length s)") (auto simp: length_dropWhile_le le_imp_less_Suc)

lemma numbers_fit_drop: "numbers_fit s \<Longrightarrow> numbers_fit (dropWhile P s)"
  by (induction s) auto

lemma numbers_fit_tl: "numbers_fit s \<Longrightarrow> numbers_fit (tl s)"
  by (cases s) auto

lemma numbers_fit_run: "numbers_fit s \<Longrightarrow> number_value (takeWhile is_digit s) + 48 < 2 ^ 31"
  by (cases s) (auto simp: number_value_def)

lemma number_value_snoc: "number_value (ds @ [c]) = number_value ds * 10 + digit_value c"
  by (simp add: number_value_def)

lemma digit_bounds: "is_digit c \<Longrightarrow> 48 \<le> (of_char c :: int) \<and> (of_char c :: int) \<le> 57"
proof -
  assume "is_digit c"
  then have "48 \<le> int (of_char c)" "int (of_char c) \<le> 57" by (simp_all add: is_digit_def)
  then show ?thesis by (simp add: of_nat_of_char)
qed

lemma number_value_nonneg: "\<forall>c\<in>set ds. is_digit c \<Longrightarrow> 0 \<le> number_value ds"
proof (induction ds rule: rev_induct)
  case (snoc c ds)
  then show ?case using digit_bounds [of c] by (simp add: number_value_snoc digit_value_def)
qed (simp add: number_value_def)

text \<open>The loops give the value of the run, or overflow: already when it is above \<open>INT_MAX - 48\<close>.\<close>

lemma digits_value_run:
  "\<forall>c\<in>set ds. is_digit c \<Longrightarrow>
    digits_value ds = (if number_value ds + 48 < 2 ^ 31 then Some (number_value ds) else None)"
proof (induction ds rule: rev_induct)
  case (snoc c ds)
  have d: "48 \<le> (of_char c :: int)" "digit_value c = of_char c - 48" "0 \<le> digit_value c"
    using snoc.prems digit_bounds [of c] by (simp_all add: digit_value_def)
  have nn: "0 \<le> number_value ds" using number_value_nonneg snoc.prems by simp
  have "digits_value (ds @ [c]) = Option.bind (digits_value ds) (add_digit c)" by (simp add: digits_value_def)
  also have "\<dots> = (if number_value (ds @ [c]) + 48 < 2 ^ 31 then Some (number_value (ds @ [c])) else None)"
    using snoc d nn by (auto simp: number_value_snoc add_digit_def checked_int_def)
  finally show ?case .
qed (simp add: digits_value_def number_value_def)

text \<open>A name with a formatting character before an escaped one does not come back.\<close>

lemma UnescapeString_misses_formatting:
  "UnescapeString (EscapeString ''A_/B'' CTX_NETNAME) = ''A_{slash}B''"
  by code_simp

text \<open>A text that shows an escape sequence of HTML loses it.\<close>

lemma UnescapeHTML_twice: "UnescapeHTML (EscapeHTML ''&lt;'') = ''<''"
  by code_simp

text \<open>The quotes are part of the result.\<close>

lemma EscapedUTF8_quotes: "hd (EscapedUTF8 W s) = dquote" "last (EscapedUTF8 W s) = dquote"
  by (simp_all add: EscapedUTF8_def Let_def)

lemma GetTrailingInt_overflow: "GetTrailingInt ''U0000000007'' = None" "GetTrailingInt ''U000000007'' = Some 7"
  by code_simp+

lemma EscapedUTF8_keeps_line_ends:
  "wx_utf8_str W [newline] = [newline] \<Longrightarrow> EscapedUTF8 W [newline] = [dquote, newline, dquote]"
  by (simp add: EscapedUTF8_def Let_def quoted_char_def char_defs)

lemma Overbar_of_tilde_tilde_brace: "ConvertToNewOverbarNotation ''a~~{b'' = ''a~~{b''"
  by code_simp

lemma StrNumCmp_overflow: "StrNumCmp ''2147483600'' ''1'' False = None"
  by code_simp

subsection \<open>Numbers as text\<close>

text \<open>What \<open>operator<<\<close> writes for a number that is not negative.\<close>

fun dec :: "nat \<Rightarrow> string" where
  "dec n = (if n < 10 then [char_of (48 + n)] else dec (n div 10) @ [char_of (48 + n mod 10)])"

declare dec.simps [simp del]

lemma dec_digits: "dec n \<noteq> [] \<and> (\<forall>c\<in>set (dec n). is_digit c)"
proof (induction n rule: dec.induct)
  case (1 n)
  have d: "is_digit (char_of (48 + k))" if "k < 10" for k :: nat using that by (simp add: is_digit_def)
  show ?case using 1 d [of n] d [of "n mod 10"] by (subst (1 2) dec.simps) auto
qed

lemma dec_value: "foldl (\<lambda>v c. 10 * v + (int (of_char c) - 48)) 0 (dec n) = int n"
proof (induction n rule: dec.induct)
  case (1 n)
  have d: "int (of_char (char_of (48 + k) :: char)) - 48 = int k" if "k < 10" for k :: nat using that by simp
  show ?case using 1 d [of n] d [of "n mod 10"] by (subst dec.simps) (auto simp: zdiv_int zmod_int)
qed

end
