(* ===== verification/String_Props.thy ===== *)
theory String_Props
  imports Strings "HOL-Library.List_Lexorder" "HOL-Library.Product_Lexorder"
begin

text \<open>
  What the text utilities promise: unescaping and reading back what was written, wild cards against
  their usual meaning, and names with numbers compared as a linear order of keys.
\<close>

subsection \<open>Wild cards\<close>

text \<open>The meaning of a pattern: a star stands for any text, a question mark for one character.\<close>

fun glob :: "string \<Rightarrow> string \<Rightarrow> bool" where
  "glob [] s \<longleftrightarrow> s = []"
| "glob (w # p) [] \<longleftrightarrow> w = CHR ''*'' \<and> glob p []"
| "glob (w # p) (c # s) \<longleftrightarrow>
    (if w = CHR ''*'' then glob p (c # s) \<or> glob (w # p) s else (w = c \<or> w = CHR ''?'') \<and> glob p s)"

lemma glob_star: "glob (CHR ''*'' # p) s \<longleftrightarrow> (\<exists>k\<le>length s. glob p (drop k s))"
proof (induction s)
  case (Cons c s)
  have "(\<exists>k\<le>length (c # s). glob p (drop k (c # s))) \<longleftrightarrow> glob p (c # s) \<or> (\<exists>k\<le>length s. glob p (drop k s))"
    by (metis Suc_le_mono drop0 drop_Suc_Cons length_Cons not0_implies_Suc zero_le)
  then show ?case using Cons by simp
qed simp

lemma glob_star_tl: "s \<noteq> [] \<Longrightarrow> glob (CHR ''*'' # p) s \<longleftrightarrow> glob p s \<or> glob (CHR ''*'' # p) (tl s)"
  by (cases s) auto

lemma glob_imp_star: "glob p s \<Longrightarrow> glob (CHR ''*'' # p) s"
  by (cases s) auto

lemma glob_stars: "glob p [] \<longleftrightarrow> dropWhile (\<lambda>c. c = CHR ''*'') p = []"
  by (induction p) auto

lemma glob_length: "glob p s \<Longrightarrow> length (filter (\<lambda>c. c \<noteq> CHR ''*'') p) \<le> length s"
  by (induction p s rule: glob.induct) (auto split: if_splits)

text \<open>A part \<open>u\<close> without stars that has matched \<open>v\<close>.\<close>

definition matched :: "string \<Rightarrow> string \<Rightarrow> bool" where
  "matched u v \<longleftrightarrow> length u = length v \<and> CHR ''*'' \<notin> set u \<and> glob u v"

lemma matched_Nil: "matched [] []"
  by (simp add: matched_def)

lemma matched_glob: "matched u v \<Longrightarrow> glob (u @ p) (v @ s) \<longleftrightarrow> glob p s"
proof (induction u arbitrary: v)
  case (Cons w u)
  then show ?case by (cases v) (auto simp: matched_def)
qed (simp add: matched_def)

lemma matched_snoc: "matched u v \<Longrightarrow> w \<noteq> CHR ''*'' \<Longrightarrow> w = c \<or> w = CHR ''?'' \<Longrightarrow> matched (u @ [w]) (v @ [c])"
  using matched_glob [of u v "[w]" "[c]"] by (auto simp: matched_def)

lemma matched_star:
  assumes "matched u v"
  shows "glob (CHR ''*'' # u @ CHR ''*'' # p) (v @ s) \<longleftrightarrow> glob (CHR ''*'' # p) s"
proof
  assume "glob (CHR ''*'' # p) s"
  then show "glob (CHR ''*'' # u @ CHR ''*'' # p) (v @ s)"
    using matched_glob [OF assms, of "CHR ''*'' # p" s] glob_imp_star by blast
next
  have split: "\<exists>k\<ge>length u. k \<le> length t \<and> glob p (drop k t)" if "glob (u @ CHR ''*'' # p) t" "CHR ''*'' \<notin> set u" for u t
    using that
  proof (induction u arbitrary: t)
    case Nil
    then show ?case by (auto simp: glob_star)
  next
    case (Cons w u)
    then obtain c t' where t: "t = c # t'" by (cases t) auto
    then obtain k where "k \<ge> length u" "k \<le> length t'" "glob p (drop k t')" using Cons by fastforce
    then show ?case using t by (intro exI [of _ "Suc k"]) simp
  qed
  assume "glob (CHR ''*'' # u @ CHR ''*'' # p) (v @ s)"
  then obtain j where j: "j \<le> length (v @ s)" "glob (u @ CHR ''*'' # p) (drop j (v @ s))" using glob_star by blast
  moreover have "CHR ''*'' \<notin> set u" using assms by (simp add: matched_def)
  ultimately obtain k where k: "k \<ge> length u" "k \<le> length (drop j (v @ s))" "glob p (drop k (drop j (v @ s)))"
    using split by blast
  have "length v \<le> k + j" using k(1) assms by (simp add: matched_def)
  then have "drop k (drop j (v @ s)) = drop (k + j - length v) s" unfolding drop_drop by simp
  moreover have "k + j - length v \<le> length s" using k(2) j(1) by simp
  ultimately show "glob (CHR ''*'' # p) s" using k(3) unfolding glob_star by auto
qed

lemma glob_too_short:
  assumes "matched u v" "dropWhile (\<lambda>c. c = CHR ''*'') wild \<noteq> []"
  shows "\<not> glob (CHR ''*'' # u @ wild) v"
proof
  assume "glob (CHR ''*'' # u @ wild) v"
  then have "length (filter (\<lambda>c. c \<noteq> CHR ''*'') (u @ wild)) \<le> length v" using glob_length by fastforce
  moreover have "filter (\<lambda>c. c \<noteq> CHR ''*'') u = u" using assms by (auto simp: matched_def filter_id_conv)
  moreover have "filter (\<lambda>c. c \<noteq> CHR ''*'') wild \<noteq> []" using assms(2) by (auto simp: filter_empty_conv dropWhile_eq_Nil_conv)
  ultimately show False using assms(1) by (auto simp: matched_def)
qed

text \<open>
  The second loop decides whether a star and the pattern behind it match the text from the last star
  on. It ends: the pattern behind the last star, then the start of the try, then the text get shorter.
\<close>

lemma wild_loop_glob:
  assumes "matched u v" "mp = u @ wild" "s0 = v @ str" "cp = tl s0"
  shows "wild_loop wild str mp cp = Some (glob (CHR ''*'' # mp) s0)"
  using assms
proof (induction "(mp, s0, str)" arbitrary: u v wild str mp s0 cp
    rule: wf_induct_rule [OF wf_measures [of "[\<lambda>(mp, s0, str). length mp, \<lambda>(mp, s0, str). length s0,
      \<lambda>(mp, s0, str). length (str :: string)]"]])
  case 1
  show ?case
  proof (cases "str = []")
    case True
    then have "s0 = v" using 1(4) by simp
    moreover have "glob (u @ wild) v = glob wild []" using matched_glob [OF 1(2), of wild "[]"] by simp
    ultimately have "glob (CHR ''*'' # mp) s0 \<longleftrightarrow> dropWhile (\<lambda>c. c = CHR ''*'') wild = []"
      using glob_too_short [OF 1(2)] glob_stars [of wild] glob_imp_star [of mp s0] 1(3) by blast
    then show ?thesis using True by (subst wild_loop.simps) simp
  next
    case False
    show ?thesis
    proof (cases "wild \<noteq> [] \<and> hd wild = CHR ''*''")
      case star: True
      then obtain w where w: "wild = CHR ''*'' # w" by (cases wild) auto
      have G: "glob (CHR ''*'' # mp) s0 = glob (CHR ''*'' # w) str"
        using matched_star [OF 1(2)] 1(3,4) w by simp
      show ?thesis
      proof (cases "w = []")
        case True
        then show ?thesis using G w False glob_star [of "[]" str]
          by (subst wild_loop.simps) auto
      next
        case ne: False
        have "wild_loop w str w (tl str) = Some (glob (CHR ''*'' # w) str)"
          by (rule 1(1) [OF _ matched_Nil]) (use 1(3) w in auto)
        then show ?thesis using False w ne G by (subst wild_loop.simps) simp
      qed
    next
      case nostar: False
      show ?thesis
      proof (cases "wild \<noteq> [] \<and> (hd wild = hd str \<or> hd wild = CHR ''?'')")
        case True
        have "wild_loop (tl wild) (tl str) mp cp = Some (glob (CHR ''*'' # mp) s0)"
          by (rule 1(1) [OF _ matched_snoc [OF 1(2), of "hd wild" "hd str"]]) (use 1(2-) True nostar False in auto)
        then show ?thesis using True nostar False by (subst wild_loop.simps) auto
      next
        case miss: False
        have "wild_loop mp cp mp (tl cp) = Some (glob (CHR ''*'' # mp) cp)"
          by (rule 1(1) [OF _ matched_Nil]) (use 1(2-) False in \<open>cases v; auto\<close>)+
        moreover have "\<not> glob wild str" using miss nostar False by (cases wild; cases str) auto
        then have "\<not> glob mp s0" using matched_glob [OF 1(2)] 1(3,4) by simp
        then have "glob (CHR ''*'' # mp) s0 = glob (CHR ''*'' # mp) cp"
          using glob_star_tl [of s0 mp] 1(4,5) False by simp
        ultimately show ?thesis using miss nostar False by (subst wild_loop.simps) auto
      qed
    qed
  qed
qed

lemma wild_head_glob: "wild_head wild str = Some (glob wild str)"
proof (induction wild str rule: wild_head.induct)
  case (1 wild)
  then show ?case by (simp add: glob_stars)
next
  case (3 w wild c str)
  show ?case
  proof (cases "w = CHR ''*''")
    case True
    have "wild_loop (CHR ''*'' # wild) (c # str) [] [] = Some (glob (CHR ''*'' # wild) (c # str))"
    proof (cases "wild = []")
      case True
      then show ?thesis using glob_star [of "[]" "c # str"] by (subst wild_loop.simps) auto
    next
      case False
      have "wild_loop wild (c # str) wild str = Some (glob (CHR ''*'' # wild) (c # str))"
        by (rule wild_loop_glob [OF matched_Nil]) auto
      then show ?thesis using False by (subst wild_loop.simps) simp
    qed
    then show ?thesis using True by simp
  qed (use 3 in auto)
qed simp

text \<open>
  C20: the wild-card comparison always returns, and accepts exactly the texts the pattern stands for:
  a star matches any run of characters, a question mark one, anything else itself, letters in either
  case when the comparison ignores case.
\<close>

theorem WildCompareString_glob:
  "WildCompareString pattern s case_sensitive =
    Some (if case_sensitive then glob pattern s else glob (map toupper pattern) (map toupper s))"
  by (simp add: WildCompareString_def wild_head_glob)


subsection \<open>Names with numbers\<close>

definition compare :: "'a::linorder \<Rightarrow> 'a \<Rightarrow> int" where
  "compare x y = (if x < y then - 1 else if y < x then 1 else 0)"

lemma compare_Cons: "compare (x # xs) (y # ys) = (if compare x y \<noteq> 0 then compare x y else compare xs ys)"
  by (auto simp: compare_def)

lemma compare_pair: "compare (a, b) (c, d) = (if compare a c \<noteq> 0 then compare a c else compare b d)"
  by (auto simp: compare_def less_prod_def less_le_not_le)

lemma compare_same: "compare x x = 0"
  by (simp add: compare_def)

lemma compare_Nil: "compare [] ys = (if ys = [] then 0 else - 1)" "compare xs [] = (if xs = [] then 0 else 1)"
  by (cases ys; simp add: compare_def) (cases xs; simp add: compare_def)

lemma sort_key_Nil: "sort_key ic s = [] \<longleftrightarrow> s = []"
  by (cases s; cases "is_digit (hd s)") auto

lemma char_cmp_compare: "char_cmp ic a b =
    compare (of_char (if ic then toupper a else a) :: nat) (of_char (if ic then toupper b else b))"
  by (auto simp: char_cmp_def compare_def Let_def)

lemma of_char_0: "of_char c = (0 :: nat) \<Longrightarrow> c = CHR 0x00"
proof -
  assume "of_char c = (0 :: nat)"
  moreover have "char_of (of_char c :: nat) = c" by (rule char_of_char)
  ultimately have "c = char_of (0 :: nat)" by simp
  then show ?thesis by (simp add: char_of_def)
qed

lemma is_digit_toupper: "is_digit (toupper c) \<longleftrightarrow> is_digit c"
  by (auto simp: toupper_def is_digit_def)

lemma of_char_toupper_0: "c \<noteq> CHR 0x00 \<Longrightarrow> of_char (toupper c) \<noteq> (0 :: nat)"
  using of_char_0 [of c] by (auto simp: toupper_def)

lemma sort_key_pos: "s \<noteq> [] \<Longrightarrow> [] < sort_key ic s"
  using sort_key_Nil [of ic s] by (cases "sort_key ic s") auto

lemma sort_key_head:
  assumes "\<not> (r1 \<noteq> [] \<and> r2 \<noteq> [] \<and> is_digit (hd r1) \<and> is_digit (hd r2))"
    and "CHR 0x00 \<notin> set r1" "CHR 0x00 \<notin> set r2"
  shows "compare (sort_key ic r1) (sort_key ic r2) =
    (let cmp = char_cmp ic (head_or_0 r1) (head_or_0 r2)
     in if cmp \<noteq> 0 then cmp else compare (sort_key ic (tl r1)) (sort_key ic (tl r2)))"
proof -
  have up: "of_char (if ic then toupper c else c) \<noteq> (0 :: nat)" if "c \<noteq> CHR 0x00" for c
    using that of_char_0 of_char_toupper_0 by auto
  show ?thesis
  proof (cases "r1 = [] \<or> r2 = []")
    case True
    have z: "of_char (if ic then toupper (CHR 0x00) else CHR 0x00) = (0 :: nat)" by (simp add: toupper_def)
    have pos: "0 < (of_char (if ic then toupper (hd r) else hd r) :: nat)" if "r \<noteq> []" "CHR 0x00 \<notin> set r" for r
      using up [of "hd r"] that by (metis gr0I list.set_sel(1))
    consider "r1 = []" "r2 = []" | "r1 = []" "r2 \<noteq> []" | "r1 \<noteq> []" "r2 = []" using True by blast
    then show ?thesis
      using pos [of r1] pos [of r2] assms(2,3) unfolding char_cmp_compare head_or_0_def Let_def
      by cases (simp_all only: z compare_def compare_Nil sort_key_Nil if_True if_False refl, simp_all add: sort_key_pos)
  next
    case False
    then obtain x s y t where r: "r1 = x # s" "r2 = y # t" by (meson list.exhaust)
    define u where "u = (if ic then toupper x else x)"
    define v where "v = (if ic then toupper y else y)"
    have dig: "is_digit u = is_digit x" "is_digit v = is_digit y" unfolding u_def v_def by (simp_all add: is_digit_toupper)
    have cmp: "char_cmp ic (head_or_0 r1) (head_or_0 r2) = compare (of_char u :: nat) (of_char v)"
      unfolding char_cmp_compare r u_def v_def by (simp add: head_or_0_def)
    have k: "sort_key ic r1 = (if is_digit x then (48, number_value (takeWhile is_digit r1)) # sort_key ic (dropWhile is_digit s)
        else (of_char u, 0) # sort_key ic s)"
      "sort_key ic r2 = (if is_digit y then (48, number_value (takeWhile is_digit r2)) # sort_key ic (dropWhile is_digit t)
        else (of_char v, 0) # sort_key ic t)" unfolding r u_def v_def by auto
    consider "\<not> is_digit x" "\<not> is_digit y" | "is_digit x" "\<not> is_digit y" | "\<not> is_digit x" "is_digit y"
      using assms(1) r by auto
    then show ?thesis
    proof cases
      case 1
      then show ?thesis unfolding cmp k by (simp add: r compare_Cons compare_pair compare_same Let_def)
    next
      case 2
      then have "compare (48 :: nat) (of_char v) = compare (of_char u :: nat) (of_char v)"
          "compare (of_char u :: nat) (of_char v) \<noteq> 0"
        using dig by (auto simp: is_digit_def compare_def)
      then show ?thesis using 2 unfolding cmp k by (simp add: compare_Cons compare_pair Let_def)
    next
      case 3
      then have "compare (of_char u) (48 :: nat) = compare (of_char u :: nat) (of_char v)"
          "compare (of_char u :: nat) (of_char v) \<noteq> 0"
        using dig by (auto simp: is_digit_def compare_def)
      then show ?thesis using 3 unfolding cmp k by (simp add: compare_Cons compare_pair Let_def)
    qed
  qed
qed

lemma StrNumCmp_sort_key:
  assumes "CHR 0x00 \<notin> set a" "CHR 0x00 \<notin> set b" "numbers_fit a" "numbers_fit b"
  shows "StrNumCmp a b ic = Some (compare (sort_key ic a) (sort_key ic b))"
  using assms
proof (induction a b ic rule: StrNumCmp.induct)
  case (1 a b ic)
  show ?case
  proof (cases "a = [] \<or> b = []")
    case True
    then show ?thesis by (subst StrNumCmp.simps) (auto simp: compare_Nil sort_key_Nil)
  next
    case False
    define both where "both = (is_digit (hd a) \<and> is_digit (hd b))"
    define r1 where "r1 = (if both then dropWhile is_digit a else a)"
    define r2 where "r2 = (if both then dropWhile is_digit b else b)"
    define nb1 where "nb1 = (if both then digits_value (takeWhile is_digit a) else Some 0)"
    define nb2 where "nb2 = (if both then digits_value (takeWhile is_digit b) else Some 0)"
    define cmp where "cmp = char_cmp ic (head_or_0 r1) (head_or_0 r2)"
    have run: "\<forall>c\<in>set (takeWhile is_digit s). is_digit c" for s by (auto dest: set_takeWhileD)
    have nb: "nb1 = Some (if both then number_value (takeWhile is_digit a) else 0)"
      "nb2 = Some (if both then number_value (takeWhile is_digit b) else 0)"
      using numbers_fit_run [OF 1(4)] numbers_fit_run [OF 1(5)]
      by (simp_all add: nb1_def nb2_def digits_value_run [OF run])
    have zero: "CHR 0x00 \<notin> set r1" "CHR 0x00 \<notin> set r2"
      using 1(2,3) set_dropWhileD unfolding r1_def r2_def by (auto split: if_splits dest: set_dropWhileD)
    have fit: "numbers_fit r1" "numbers_fit r2" using 1(4,5) by (simp_all add: r1_def r2_def numbers_fit_drop)
    have head: "\<not> (r1 \<noteq> [] \<and> r2 \<noteq> [] \<and> is_digit (hd r1) \<and> is_digit (hd r2))"
      unfolding r1_def r2_def both_def using hd_dropWhile [of is_digit] by auto
    have step: "StrNumCmp a b ic = (if nb1 = None \<or> nb2 = None then None
        else if the nb1 < the nb2 then Some (- 1) else if the nb1 > the nb2 then Some 1
        else if cmp \<noteq> 0 then Some cmp else StrNumCmp (tl r1) (tl r2) ic)"
      using False unfolding nb1_def nb2_def r1_def r2_def cmp_def both_def
      by (subst StrNumCmp.simps) (simp only: Let_def if_False)
    have IH: "StrNumCmp (tl r1) (tl r2) ic = Some (compare (sort_key ic (tl r1)) (sort_key ic (tl r2)))"
      if "\<not> (nb1 = None \<or> nb2 = None)" "\<not> the nb1 < the nb2" "\<not> the nb1 > the nb2" "\<not> cmp \<noteq> 0"
    proof -
      have "CHR 0x00 \<notin> set (tl r1)" "CHR 0x00 \<notin> set (tl r2)" using zero by (cases r1; cases r2; simp)+
      then show ?thesis
        using 1(1) [OF False both_def r1_def r2_def nb1_def nb2_def cmp_def that] numbers_fit_tl fit by blast
    qed
    have "compare (sort_key ic a) (sort_key ic b) = (if compare (the nb1) (the nb2) \<noteq> 0 then compare (the nb1) (the nb2)
        else compare (sort_key ic r1) (sort_key ic r2))"
    proof (cases both)
      case True
      have "sort_key ic s = (48, number_value (takeWhile is_digit s)) # sort_key ic (dropWhile is_digit s)"
        if "s \<noteq> []" "is_digit (hd s)" for s using that by (cases s) auto
      then show ?thesis using True False
        by (simp add: nb) (simp add: both_def r1_def r2_def compare_Cons compare_pair compare_same)
    qed (simp add: r1_def r2_def nb compare_same)
    then show ?thesis using step IH sort_key_head [OF head zero, of ic] nb unfolding cmp_def
      by (auto simp: compare_def Let_def)
  qed
qed

text \<open>
  C36: comparing names whose numbers are at most \<open>INT_MAX - 48\<close> returns, and compares their keys, the
  lists of their characters and their numbers, in the lexicographic order: by the value of a number,
  whatever its leading zeros. So it is a total order on such names up to equal keys, and sorting by it is
  sound. A larger number overflows the \<open>int\<close> it is accumulated in.
\<close>

theorem StrNumCmp_total_preorder:
  assumes "CHR 0x00 \<notin> set a" "CHR 0x00 \<notin> set b" "CHR 0x00 \<notin> set c"
    and "numbers_fit a" "numbers_fit b" "numbers_fit c"
  shows "StrNumCmp a b ic = Some (compare (sort_key ic a) (sort_key ic b)) \<and>
    StrNumCmp b a ic = Some (- the (StrNumCmp a b ic)) \<and>
    (the (StrNumCmp a b ic) \<le> 0 \<longrightarrow> the (StrNumCmp b c ic) \<le> 0 \<longrightarrow> the (StrNumCmp a c ic) \<le> 0)"
  using assms by (auto simp: StrNumCmp_sort_key compare_def split: if_splits)

theorem StrNumCmp_total_preorder_witness:
  "StrNumCmp ''R2'' ''R010'' False = Some (compare (sort_key False ''R2'') (sort_key False ''R010'')) \<and>
   StrNumCmp ''R010'' ''R2'' False = Some (- the (StrNumCmp ''R2'' ''R010'' False))"
proof -
  have "numbers_fit ''R2''" "numbers_fit ''R010''" "numbers_fit []" by code_simp+
  then show ?thesis using StrNumCmp_total_preorder [of "''R2''" "''R010''" "[]" False] by simp
qed

subsection \<open>Escaped and quoted text\<close>

text \<open>
  C21: unescaping gives back the text that was escaped, in every context but that of JavaScript, up to the
  line ends the context leaves out (names) or merges into one character (lines, table cells, file names):
  for text without opening braces in which no character the context escapes stands right behind one of the
  four characters \<open>$ ~ ^ _\<close> that begin a formatting construct. Each of the fourteen tokens, also those no
  context writes, is read as the character it names.
\<close>

theorem UnescapeString_EscapeString:
  assumes "ctx \<noteq> CTX_JS_STR" "CHR ''{'' \<notin> set s" "no_formatting ctx (kept ctx s)"
  shows "UnescapeString (EscapeString s ctx) = kept ctx s \<and>
    map UnescapeString [''{dblquote}'', ''{quote}'', ''{lt}'', ''{gt}'', ''{backslash}'', ''{slash}'', ''{bar}'',
      ''{comma}'', ''{colon}'', ''{space}'', ''{dollar}'', ''{tab}'', ''{return}'', ''{brace}''] =
    [[CHR 0x22], [CHR 0x27], ''<'', ''>'', [CHR 0x5C], ''/'', ''|'', '','', '':'', '' '', ''$'', [CHR 0x09], [CHR 0x0A], ''{'']"
  unfolding UnescapeString_EscapeString_lemma [OF assms]
  by (simp add: UnescapeString.simps formatting_char_def token_value_def char_defs)

theorem UnescapeString_EscapeString_witness:
  "UnescapeString (EscapeString ''lib:a<b>/c'' CTX_LEGACY_LIBID) = ''lib:a<b>/c''"
proof -
  have "CHR ''{'' \<notin> set ''lib:a<b>/c''" "no_formatting CTX_LEGACY_LIBID (kept CTX_LEGACY_LIBID ''lib:a<b>/c'')"
    "kept CTX_LEGACY_LIBID ''lib:a<b>/c'' = ''lib:a<b>/c''" by code_simp+
  then show ?thesis using UnescapeString_EscapeString [of CTX_LEGACY_LIBID "''lib:a<b>/c''"] by simp
qed

text \<open>
  C37: a quoted text reads back as the text it was made from, its quotes and backslashes included, whatever
  follows it, and the reader stops right behind its closing quote: for text without the character 0 in its
  bytes, which would end the C string, when the library converts it to UTF-8 and back, and an empty text to
  an empty one. Line ends read back too: the code means to replace them, but does so in a copy.
\<close>

theorem ReadDelimitedText_EscapedUTF8:
  assumes "wx_FromUTF8 W (wx_utf8_str W s) = s" "CHR 0x00 \<notin> set (wx_utf8_str W s)"
    and "wx_utf8_str W [] = []" "wx_cMB2WC W [] = []" "wx_From8BitData W [] = []"
  shows "ReadDelimitedText W (EscapedUTF8 W s @ rest) = (s, length (EscapedUTF8 W s))"
  using delimited_quoted [OF assms(2), of rest 1 "[]"] From_UTF8_back [OF assms(1,3-5)]
  by (simp add: ReadDelimitedText_def EscapedUTF8_def Let_def char_defs)

text \<open>Applied to UTF-8 for the code points below 256.\<close>

fun utf8_of :: "string \<Rightarrow> string" where
  "utf8_of [] = []"
| "utf8_of (c # s) =
    (if (of_char c :: nat) < 128 then c # utf8_of s
     else char_of (192 + of_char c div 64 :: nat) # char_of (128 + of_char c mod 64 :: nat) # utf8_of s)"

fun utf8_to :: "string \<Rightarrow> string" where
  "utf8_to (c # d # s) =
    (if (of_char c :: nat) < 128 then c # utf8_to (d # s)
     else char_of ((of_char c - 192) * 64 + (of_char d - 128) :: nat) # utf8_to s)"
| "utf8_to s = s"

definition utf8_conv :: WX_CONV where
  "utf8_conv = \<lparr>wx_utf8_str = utf8_of, wx_FromUTF8 = utf8_to, wx_cMB2WC = \<lambda>s. s, wx_From8BitData = \<lambda>s. s\<rparr>"

theorem ReadDelimitedText_EscapedUTF8_witness:
  "ReadDelimitedText utf8_conv (EscapedUTF8 utf8_conv [CHR 0xC4, dquote, bslash, newline] @ ''more'') =
    ([CHR 0xC4, dquote, bslash, newline], length (EscapedUTF8 utf8_conv [CHR 0xC4, dquote, bslash, newline]))"
  by (rule ReadDelimitedText_EscapedUTF8) code_simp+

lemma delimited_loop_extends: "\<exists>w. fst (delimited_loop inside s n u) = u @ w"
proof (induction inside s n u rule: delimited_loop.induct)
  case (2 inside cc s n utf8)
  then show ?case by (cases s) (force simp: bslash_def dquote_def)+
qed simp

lemma delimited_buf_take:
  "length dest \<le> limit \<Longrightarrow>
    fst (delimited_buf limit inside s n dest) = take limit (fst (delimited_loop inside s n dest))"
proof (induction limit inside s n dest rule: delimited_buf.induct)
  case (2 limit inside cc s n dest)
  show ?case
  proof (cases "length dest < limit")
    case False
    then have "limit = length dest" using 2 by simp
    moreover obtain w where "fst (delimited_loop inside (cc # s) n dest) = dest @ w"
      using delimited_loop_extends by blast
    ultimately show ?thesis by simp
  next
    case True
    consider (zero) "cc = CHR 0x00" | (quote) "cc = dquote" "cc \<noteq> CHR 0x00"
      | (esc) "cc \<noteq> CHR 0x00" "cc \<noteq> dquote" "inside" "cc = bslash" | (other) "cc \<noteq> dquote" "\<not> (inside \<and> cc = bslash)" "cc \<noteq> CHR 0x00"
      by blast
    then show ?thesis
    proof cases
      case zero
      then show ?thesis using True by simp
    next
      case quote
      then show ?thesis using 2 True by auto
    next
      case esc
      show ?thesis
      proof (cases "s = [] \<or> hd s = CHR 0x00")
        case stop: True
        then show ?thesis using esc True by (cases s) auto
      next
        case False
        then obtain d s' where Cons: "s = d # s'" and d: "d \<noteq> CHR 0x00" by (cases s) auto
        let ?e = "if d \<noteq> dquote \<and> d \<noteq> bslash then dest @ [bslash] else dest"
        let ?f = "if length ?e < limit then ?e @ [d] else ?e"
        have e: "utf @ (if d \<noteq> dquote \<and> d \<noteq> bslash then [bslash] else []) @ [d] =
            (if d \<noteq> dquote \<and> d \<noteq> bslash then utf @ [bslash] else utf) @ [d]" for utf by simp
        have L: "delimited_loop inside (cc # s) n dest = delimited_loop inside s' (n + 2) (?e @ [d])"
          using esc Cons d unfolding e [symmetric] by simp
        have B: "delimited_buf limit inside (cc # s) n dest = delimited_buf limit inside s' (n + 2) ?f"
          using esc Cons True d by (simp add: Let_def)
        have "length ?e \<le> limit" using True by auto
        then have IH: "fst (delimited_buf limit inside s' (n + 2) ?f) = take limit (fst (delimited_loop inside s' (n + 2) ?f))"
          using 2(2) [OF _ esc(2-4) Cons d refl refl] True esc(1) by auto
        show ?thesis
        proof (cases "length ?e < limit")
          case room: True
          then show ?thesis using IH unfolding L B by simp
        next
          case full: False
          then have l: "length ?e = limit" using \<open>length ?e \<le> limit\<close> by simp
          obtain w where w: "fst (delimited_loop inside s' (n + 2) (?e @ [d])) = (?e @ [d]) @ w"
            using delimited_loop_extends by blast
          obtain w' where w': "fst (delimited_loop inside s' (n + 2) ?e) = ?e @ w'"
            using delimited_loop_extends by blast
          have f: "?f = ?e" using full by (rule if_not_P)
          have "fst (delimited_buf limit inside (cc # s) n dest) = take limit (?e @ w')" using IH unfolding B f w' .
          also have "\<dots> = ?e" unfolding l [symmetric] by (simp only: take_append take_all_iff order_refl) simp
          also have "\<dots> = take limit (?e @ [d] @ w)" unfolding l [symmetric] by (simp only: take_append take_all_iff order_refl) simp
          finally show ?thesis unfolding L w by simp
        qed
      qed
    next
      case other
      then show ?thesis using 2 True by auto
    qed
  qed
qed simp

text \<open>
  the reader with a buffer never stores more than the buffer holds with its terminating zero, and
  what it stores is the beginning of the bytes the other reader converts.
\<close>

theorem ReadDelimitedText_buf_bounded:
  "case ReadDelimitedText_buf src n of None \<Rightarrow> n \<le> 0
   | Some (t, k) \<Rightarrow> int (length t) < n \<and> t = take (nat n - 1) (fst (delimited_loop False src 0 []))"
proof (cases "n \<le> 0")
  case False
  obtain t k where tk: "delimited_buf (nat n - 1) False src 0 [] = (t, k)" by (rule prod.exhaust)
  then have "t = take (nat n - 1) (fst (delimited_loop False src 0 []))"
    using delimited_buf_take [of "[]" "nat n - 1" False src 0] by simp
  moreover have "length t \<le> nat n - 1" using calculation by simp
  ultimately show ?thesis using False tk by (simp add: ReadDelimitedText_buf_def)
qed (simp add: ReadDelimitedText_buf_def)

text \<open>
  splitting a name loses nothing: the three parts in order are the name, the last part has no
  digit, the middle part is a run of digits and separators that ends in a digit when there is one, and
  the first part does not end in a digit or separator.
\<close>

theorem SplitString_parts:
  "case SplitString s of (beginning, digits, end_part) \<Rightarrow>
     s = beginning @ digits @ end_part \<and>
     (if digits = [] then list_all (\<lambda>c. \<not> is_digit c) s
      else is_digit (last digits) \<and> list_all (\<lambda>c. is_digit c \<or> is_separator c) digits \<and>
        list_all (\<lambda>c. \<not> is_digit c) end_part \<and>
        (beginning = [] \<or> \<not> is_digit (last beginning) \<and> \<not> is_separator (last beginning)))"
proof -
  define r where "r = rev s"
  define e where "e = takeWhile (\<lambda>c. \<not> is_digit c) r"
  define r1 where "r1 = dropWhile (\<lambda>c. \<not> is_digit c) r"
  define d where "d = takeWhile (\<lambda>c. is_digit c \<or> is_separator c) r1"
  define r2 where "r2 = dropWhile (\<lambda>c. is_digit c \<or> is_separator c) r1"
  have r: "r = e @ r1" "r1 = d @ r2" unfolding e_def r1_def d_def r2_def by simp_all
  have s: "s = rev r2 @ rev d @ rev e" using r r_def by (metis append.assoc rev_append rev_swap)
  have split: "SplitString s = (if r1 = [] then (s, [], []) else (rev r2, rev d, rev e))"
    unfolding SplitString_def Let_def r_def [symmetric] e_def r1_def d_def r2_def by simp
  have e: "list_all (\<lambda>c. \<not> is_digit c) (rev e)" unfolding e_def by (auto simp: list_all_iff dest: set_takeWhileD)
  show ?thesis
  proof (cases "r1 = []")
    case True
    then show ?thesis using split s e r by (simp add: list_all_iff)
  next
    case False
    have hd1: "is_digit (hd r1)" using hd_dropWhile [of "\<lambda>c. \<not> is_digit c" r] False unfolding r1_def by blast
    then have d: "d \<noteq> []" "hd d = hd r1" using False unfolding d_def by (cases r1; simp)+
    have b: "r2 = [] \<or> \<not> is_digit (hd r2) \<and> \<not> is_separator (hd r2)"
      using hd_dropWhile [of "\<lambda>c. is_digit c \<or> is_separator c" r1] unfolding r2_def by blast
    have "list_all (\<lambda>c. is_digit c \<or> is_separator c) (rev d)"
      unfolding d_def by (auto simp: list_all_iff dest: set_takeWhileD)
    then show ?thesis using split False s d hd1 b e by (auto simp: last_rev)
  qed
qed

end
