(* ===== verification/Arrays.thy ===== *)
theory Arrays
  imports Strings Geometry
begin

text \<open>
  Numbering of the items of an array: \<open>include/array_axis.h\<close>, \<open>common/array_axis.cpp\<close> (one axis),
  \<open>common/array_options.cpp\<close> (grids and circles), \<open>pcbnew/array_pad_number_provider.cpp\<close> (the next free
  pad number). Indexing an alphabet out of its range gives \<open>None\<close>. A grid has a row and a column at least,
  which the dialog that makes the options checks; of a grid with none the code divides by 0.
\<close>

subsection \<open>One axis\<close>

datatype NUMBERING_TYPE = NUMBERING_NUMERIC | NUMBERING_HEX | NUMBERING_ALPHA_NO_IOSQXZ | NUMBERING_ALPHA_FULL

record ARRAY_AXIS =
  m_type :: NUMBERING_TYPE
  axis_offset :: int
  m_step :: int

definition schemeNonUnitColsStartAt0 :: "NUMBERING_TYPE \<Rightarrow> bool" where
  "schemeNonUnitColsStartAt0 type \<longleftrightarrow> type = NUMBERING_ALPHA_FULL \<or> type = NUMBERING_ALPHA_NO_IOSQXZ"

definition ARRAY_AXIS_new :: ARRAY_AXIS where
  "ARRAY_AXIS_new = \<lparr>m_type = NUMBERING_NUMERIC, axis_offset = 0, m_step = 1\<rparr>"

fun GetAlphabet :: "NUMBERING_TYPE \<Rightarrow> string" where
  "GetAlphabet NUMBERING_NUMERIC = ''0123456789''"
| "GetAlphabet NUMBERING_HEX = ''0123456789ABCDEF''"
| "GetAlphabet NUMBERING_ALPHA_NO_IOSQXZ = ''ABCDEFGHJKLMNPRTUVWY''"
| "GetAlphabet NUMBERING_ALPHA_FULL = ''ABCDEFGHIJKLMNOPQRSTUVWXYZ''"

definition find_char :: "char \<Rightarrow> string \<Rightarrow> int option" where
  "find_char c s = (if c \<in> set s then Some (int (length (takeWhile (\<lambda>x. x \<noteq> c) s))) else None)"

fun offset_loop :: "NUMBERING_TYPE \<Rightarrow> int \<Rightarrow> string \<Rightarrow> int option" where
  "offset_loop t offset [] = Some offset"
| "offset_loop t offset (ch # str) =
    (case find_char ch (GetAlphabet t) of None \<Rightarrow> None
     | Some chIndex \<Rightarrow> offset_loop t (to_int32 (offset * int (length (GetAlphabet t)) +
         (if schemeNonUnitColsStartAt0 t \<and> str \<noteq> [] then chIndex + 1 else chIndex))) str)"

definition getNumberingOffset :: "NUMBERING_TYPE \<Rightarrow> string \<Rightarrow> int option" where
  "getNumberingOffset t str = (if str = [] then None else offset_loop t 0 str)"

definition SetAxisType :: "NUMBERING_TYPE \<Rightarrow> ARRAY_AXIS \<Rightarrow> ARRAY_AXIS" where
  "SetAxisType aType a = a\<lparr>m_type := aType\<rparr>"

definition SetOffset :: "int \<Rightarrow> ARRAY_AXIS \<Rightarrow> ARRAY_AXIS" where
  "SetOffset aOffset a = a\<lparr>axis_offset := aOffset\<rparr>"

definition SetOffset_name :: "string \<Rightarrow> ARRAY_AXIS \<Rightarrow> bool \<times> ARRAY_AXIS" where
  "SetOffset_name aOffsetName a =
    (case getNumberingOffset (m_type a) aOffsetName of None \<Rightarrow> (False, a) | Some offset \<Rightarrow> (True, SetOffset offset a))"

definition SetStep :: "int \<Rightarrow> ARRAY_AXIS \<Rightarrow> ARRAY_AXIS" where
  "SetStep aStep a = a\<lparr>m_step := aStep\<rparr>"

lemma GetAlphabet_length: "2 \<le> length (GetAlphabet t)" "length (GetAlphabet t) \<le> 26"
  by (cases t; simp)+

text \<open>The loop that writes the digits, the last one first; division and remainder truncate.\<close>

function number_loop :: "NUMBERING_TYPE \<Rightarrow> bool \<Rightarrow> int \<Rightarrow> string \<Rightarrow> string option" where
  "number_loop t firstRound n itemNum =
    (let alphabet = GetAlphabet t; radix = int (length alphabet);
         modN = (if schemeNonUnitColsStartAt0 t \<and> \<not> firstRound then n smod radix - 1 else n smod radix)
     in if \<not> (0 \<le> modN \<and> modN < radix) then None
        else if n sdiv radix \<noteq> 0 then number_loop t False (n sdiv radix) (alphabet ! nat modN # itemNum)
        else Some (alphabet ! nat modN # itemNum))"
  by pat_completeness auto
termination
proof (relation "measure (\<lambda>(t, f, n, s). nat \<bar>n\<bar>)", simp, goal_cases)
  case (1 t firstRound n itemNum alphabet radix modN)
  have r: "2 \<le> radix" using 1 GetAlphabet_length [of t] by simp
  have "0 \<le> \<bar>n\<bar> div radix" using r by (simp add: pos_imp_zdiv_nonneg_iff)
  then have d: "\<bar>n sdiv radix\<bar> = \<bar>n\<bar> div radix" using r by (simp add: signed_divide_int_def abs_mult sgn_if)
  have "n \<noteq> 0" using 1 by (auto simp: signed_divide_int_def)
  then have "\<bar>n\<bar> div radix < \<bar>n\<bar>" using r by (intro int_div_less_self) auto
  then show ?case using d by simp
qed

declare number_loop.simps [simp del]

definition GetItemNumber :: "ARRAY_AXIS \<Rightarrow> int \<Rightarrow> string option" where
  "GetItemNumber a n = number_loop (m_type a) True (to_int32 (axis_offset a + m_step a * n)) []"

subsection \<open>Grids and circles\<close>

record ARRAY_GRID =
  m_nx :: int
  m_ny :: int
  m_horizontalThenVertical :: bool
  m_reverseNumberingAlternate :: bool
  m_2dArrayNumbering :: bool
  m_pri_axis :: ARRAY_AXIS
  m_sec_axis :: ARRAY_AXIS

definition Grid_GetArraySize :: "ARRAY_GRID \<Rightarrow> int" where
  "Grid_GetArraySize g = m_nx g * m_ny g"

definition getGridCoords :: "ARRAY_GRID \<Rightarrow> int \<Rightarrow> VECTOR2I" where
  "getGridCoords g n =
    (let axisSize = (if m_horizontalThenVertical g then m_nx g else m_ny g);
         x = n smod axisSize; y = n sdiv axisSize;
         x = (if m_reverseNumberingAlternate g \<and> y smod 2 \<noteq> 0 then axisSize - x - 1 else x)
     in Vec x y)"

definition Grid_GetItemNumber :: "ARRAY_GRID \<Rightarrow> int \<Rightarrow> string option" where
  "Grid_GetItemNumber g n =
    (if m_2dArrayNumbering g then
       (let coords = getGridCoords g n in
        case GetItemNumber (m_pri_axis g) (vx coords) of None \<Rightarrow> None
        | Some a \<Rightarrow> map_option (\<lambda>b. a @ b) (GetItemNumber (m_sec_axis g) (vy coords)))
     else GetItemNumber (m_pri_axis g) n)"

definition Circular_GetItemNumber :: "ARRAY_AXIS \<Rightarrow> int \<Rightarrow> string option" where
  "Circular_GetItemNumber m_axis aN = GetItemNumber m_axis aN"

subsection \<open>The next free number\<close>

text \<open>
  \<open>existing\<close> are the numbers of the pads of the footprint, none when the start is specified or there is
  no footprint; \<open>number\<close> is the virtual \<open>GetItemNumber\<close> of the array. The result is the number and the
  index to go on with.
\<close>

definition existing_pad_numbers :: "bool \<Rightarrow> string list option \<Rightarrow> string list" where
  "existing_pad_numbers startIsSpecified pads =
    (if startIsSpecified then [] else case pads of None \<Rightarrow> [] | Some ps \<Rightarrow> ps)"

partial_function (option) getNextNumber :: "(int \<Rightarrow> string option) \<Rightarrow> string list \<Rightarrow> int \<Rightarrow> (string \<times> int) option" where
  "getNextNumber number aExisting aIndex =
    (case number aIndex of None \<Rightarrow> None
     | Some next_number \<Rightarrow>
         if next_number \<in> set aExisting then getNextNumber number aExisting (aIndex + 1) else Some (next_number, aIndex + 1))"

declare getNextNumber.simps [code]

subsection \<open>A number reads back as its index\<close>

lemma find_char_nth:
  assumes "distinct s" "k < length s"
  shows "find_char (s ! k) s = Some (int k)"
proof -
  have "takeWhile (\<lambda>x. x \<noteq> s ! k) s = take k s"
    using assms by (intro takeWhile_eq_take_P_nth) (auto simp: nth_eq_iff_index_eq)
  then show ?thesis using assms by (simp add: find_char_def)
qed

lemma GetAlphabet_distinct: "distinct (GetAlphabet t)"
  by (cases t; simp)

lemma offset_loop_digit:
  assumes "0 \<le> k" "k < int (length (GetAlphabet t))" "- (2 ^ 31) \<le> v" "v < 2 ^ 31"
    and "v = off * int (length (GetAlphabet t)) + (if schemeNonUnitColsStartAt0 t \<and> str \<noteq> [] then k + 1 else k)"
  shows "offset_loop t off (GetAlphabet t ! nat k # str) = offset_loop t v str"
  using find_char_nth [OF GetAlphabet_distinct, of "nat k" t] assms by (simp add: to_int32_id)

lemma number_loop_nonneg:
  fixes t :: NUMBERING_TYPE and first :: bool
  assumes "0 \<le> n"
  defines "r \<equiv> int (length (GetAlphabet t))"
  defines "k \<equiv> (if schemeNonUnitColsStartAt0 t \<and> \<not> first then n mod r - 1 else n mod r)"
  shows "number_loop t first n item =
    (if k < 0 then None
     else if n div r \<noteq> 0 then number_loop t False (n div r) (GetAlphabet t ! nat k # item)
     else Some (GetAlphabet t ! nat k # item))"
    "- 1 \<le> k" "k < r"
proof -
  have r: "2 \<le> r" using GetAlphabet_length(1) [of t] by (simp add: r_def)
  have trunc: "n smod r = n mod r" "n sdiv r = n div r"
    using assms(1) r by (simp_all add: signed_modulo_int_def signed_divide_int_def sgn_if)
  have m: "0 \<le> n mod r" "n mod r < r" using r by simp_all
  then show "- 1 \<le> k" "k < r" by (auto simp: k_def)
  then have "(\<not> (0 \<le> k \<and> k < r)) = (k < 0)" by auto
  then show "number_loop t first n item =
    (if k < 0 then None
     else if n div r \<noteq> 0 then number_loop t False (n div r) (GetAlphabet t ! nat k # item)
     else Some (GetAlphabet t ! nat k # item))"
    by (subst number_loop.simps) (simp only: Let_def r_def [symmetric] trunc k_def [symmetric])
qed

lemma radix_step:
  fixes t :: NUMBERING_TYPE
  defines "r \<equiv> int (length (GetAlphabet t))"
  assumes "0 \<le> n"
  shows "0 \<le> n mod r" "0 \<le> n div r" "n div r \<noteq> 0 \<Longrightarrow> 0 < n \<and> n div r < n"
proof -
  have r: "0 < r" "1 < r" using GetAlphabet_length(1) [of t] unfolding r_def by linarith+
  show "0 \<le> n mod r" by (rule pos_mod_sign [OF r(1)])
  show "0 \<le> n div r" using assms(2) r(1) by (simp add: pos_imp_zdiv_nonneg_iff)
  assume "n div r \<noteq> 0"
  then have "0 < n" using assms(2) by (cases "n = 0") auto
  then show "0 < n \<and> n div r < n" using r(2) by (simp add: int_div_less_self)
qed

lemma number_loop_reads:
  assumes "number_loop t first n item = Some s" "0 \<le> n" "n < 2 ^ 31" "first \<longleftrightarrow> item = []"
  shows "s \<noteq> [] \<and> offset_loop t 0 s = offset_loop t n item"
  using assms
proof (induction "nat n" arbitrary: n first item rule: less_induct)
  case less
  let ?r = "int (length (GetAlphabet t))"
  define k where "k = (if schemeNonUnitColsStartAt0 t \<and> \<not> first then n mod ?r - 1 else n mod ?r)"
  let ?c = "GetAlphabet t ! nat k"
  note N = number_loop_nonneg [OF less.prems(2), where t = t and first = first, folded k_def]
  have r: "2 \<le> ?r" using GetAlphabet_length(1) [of t] by simp
  have k: "0 \<le> k" using less.prems(1) N(1) by (cases "k < 0") auto
  have dig: "n = (n div ?r) * ?r + (if schemeNonUnitColsStartAt0 t \<and> item \<noteq> [] then k + 1 else k)"
    using less.prems(4) by (simp add: k_def)
  have read: "offset_loop t (n div ?r) (?c # item) = offset_loop t n item"
    by (rule offset_loop_digit [OF k N(3) _ _ dig]) (use less.prems(2,3) in auto)
  show ?case
  proof (cases "n div ?r = 0")
    case True
    then show ?thesis using read less.prems(1) N(1) k by auto
  next
    case False
    then have pos: "0 < n" and smaller: "n div ?r < n" using radix_step(3) [OF less.prems(2), of t] by simp_all
    have nn: "0 \<le> n div ?r" using radix_step(2) [OF less.prems(2), of t] .
    have "number_loop t False (n div ?r) (?c # item) = Some s" using less.prems(1) N(1) k False by simp
    then have "s \<noteq> [] \<and> offset_loop t 0 s = offset_loop t (n div ?r) (?c # item)"
      using less.hyps [of "n div ?r" False "?c # item"] smaller nn pos less.prems(3) by simp
    then show ?thesis using read by simp
  qed
qed

text \<open>Numbers are written for every index, in the alphabetic schemes up to the second power of the radix.\<close>

lemma number_loop_plain:
  assumes "0 \<le> n" "\<not> schemeNonUnitColsStartAt0 t"
  shows "number_loop t first n item \<noteq> None"
  using assms(1)
proof (induction "nat n" arbitrary: n first item rule: less_induct)
  case less
  let ?r = "int (length (GetAlphabet t))"
  note N = number_loop_nonneg [OF less.prems(1), where t = t and first = first]
  have m: "\<not> n mod ?r < 0" using radix_step(1) [OF less.prems, of t] by simp
  show ?case
  proof (cases "n div ?r = 0")
    case True
    then show ?thesis using N(1) assms(2) m by simp
  next
    case False
    then have pos: "0 < n" and "n div ?r < n" using radix_step(3) [OF less.prems, of t] by simp_all
    moreover have "0 \<le> n div ?r" using radix_step(2) [OF less.prems, of t] .
    ultimately show ?thesis using N(1) assms(2) m False less.hyps [of "n div ?r"] pos by simp
  qed
qed

lemma div_mult_le: "0 < r \<Longrightarrow> x div r * r \<le> (x :: int)"
  using div_mult_mod_eq [of x r] pos_mod_sign [of r x] by linarith

lemma div_less_bound:
  assumes "0 < (r :: int)" "x < b * r"
  shows "x div r < b"
proof (rule ccontr)
  assume "\<not> x div r < b"
  then have "b * r \<le> x div r * r" using assms(1) by (intro mult_right_mono) auto
  then show False using assms div_mult_le [of r x] by linarith
qed

lemma number_loop_alpha:
  assumes "0 \<le> n" "n < int (length (GetAlphabet t)) ^ 2"
  shows "number_loop t True n [] \<noteq> None"
proof -
  let ?r = "int (length (GetAlphabet t))"
  have r: "2 \<le> ?r" using GetAlphabet_length(1) [of t] by simp
  have m: "\<not> n mod ?r < 0" using radix_step(1) [OF assms(1), of t] by simp
  have q: "0 \<le> n div ?r" using radix_step(2) [OF assms(1), of t] .
  have "n div ?r < ?r" by (rule div_less_bound) (use assms(2) r in \<open>linarith, simp add: power2_eq_square\<close>)
  note q = q this
  have q2: "(n div ?r) mod ?r = n div ?r" "(n div ?r) div ?r = 0" using q by simp_all
  show ?thesis
    using number_loop_nonneg(1) [OF assms(1), of t True "[]"] number_loop_nonneg(1) [OF q(1), of t False] m q q2
    by auto
qed

lemma GetItemNumber_reads:
  assumes "0 \<le> axis_offset a + m_step a * n" "axis_offset a + m_step a * n < 2 ^ 31" "GetItemNumber a n = Some s"
  shows "getNumberingOffset (m_type a) s = Some (axis_offset a + m_step a * n)"
  using number_loop_reads [of "m_type a" True "axis_offset a + m_step a * n" "[]" s] assms
  by (simp add: GetItemNumber_def getNumberingOffset_def to_int32_id)

subsection \<open>Finding a free number\<close>

text \<open>Numbers up to a bound are there and differ: then one that is free is found in time.\<close>

locale numbering =
  fixes number :: "int \<Rightarrow> string option" and bound :: int
  assumes there: "0 \<le> i \<Longrightarrow> i \<le> bound \<Longrightarrow> \<exists>s. number i = Some s"
    and differ: "0 \<le> i \<Longrightarrow> i \<le> bound \<Longrightarrow> 0 \<le> j \<Longrightarrow> j \<le> bound \<Longrightarrow> number i = number j \<Longrightarrow> i = j"
begin

lemma some_free:
  assumes "0 \<le> i" "i + int (length taken) \<le> bound"
  shows "\<exists>j s. i \<le> j \<and> j \<le> i + int (length taken) \<and> number j = Some s \<and> s \<notin> set taken"
proof (rule ccontr)
  assume no: "\<not> ?thesis"
  let ?I = "{i..i + int (length taken)}"
  have "(\<lambda>j. the (number j)) ` ?I \<subseteq> set taken"
  proof
    fix s assume "s \<in> (\<lambda>j. the (number j)) ` ?I"
    then obtain j where j: "i \<le> j" "j \<le> i + int (length taken)" "s = the (number j)" by auto
    then obtain u where "number j = Some u" using there [of j] assms by auto
    then show "s \<in> set taken" using no j by auto
  qed
  moreover have "inj_on (\<lambda>j. the (number j)) ?I"
  proof (rule inj_onI)
    fix x y assume x: "x \<in> ?I" and y: "y \<in> ?I" and e: "the (number x) = the (number y)"
    obtain a b where "number x = Some a" "number y = Some b" using there [of x] there [of y] x y assms by auto
    then show "x = y" using differ [of x y] x y e assms by auto
  qed
  ultimately have "card ?I \<le> card (set taken)" by (intro card_inj_on_le) auto
  then show False using card_length [of taken] by simp
qed

lemma next_free:
  assumes "number j = Some s" "s \<notin> set taken" "i \<le> j"
    and "\<And>k. i \<le> k \<Longrightarrow> k < j \<Longrightarrow> \<exists>u\<in>set taken. number k = Some u"
  shows "getNextNumber number taken i = Some (s, j + 1)"
  using assms(3,4)
proof (induction "nat (j - i)" arbitrary: i)
  case 0
  then have "i = j" by simp
  then show ?case using assms(1,2) by (subst getNextNumber.simps) simp
next
  case (Suc d)
  then have "i < j" by simp
  then obtain u where u: "u \<in> set taken" "number i = Some u" using Suc.prems(2) [of i] by auto
  have "getNextNumber number taken (i + 1) = Some (s, j + 1)" using Suc \<open>i < j\<close> by simp
  then show ?case using u by (subst getNextNumber.simps) simp
qed

lemma finds_first_free:
  assumes "0 \<le> i" "i + int (length taken) \<le> bound"
  shows "\<exists>j s. getNextNumber number taken i = Some (s, j + 1) \<and> i \<le> j \<and> j \<le> i + int (length taken) \<and>
    number j = Some s \<and> s \<notin> set taken \<and> (\<forall>k. i \<le> k \<and> k < j \<longrightarrow> (\<exists>u\<in>set taken. number k = Some u))"
proof -
  define P where "P d \<longleftrightarrow> (\<exists>s. number (i + int d) = Some s \<and> s \<notin> set taken)" for d :: nat
  obtain j0 where j0: "i \<le> j0" "j0 \<le> i + int (length taken)" "\<exists>s. number j0 = Some s \<and> s \<notin> set taken"
    using some_free [OF assms] by blast
  then have "P (nat (j0 - i))" by (simp add: P_def)
  then have L: "P (LEAST d. P d)" "(LEAST d. P d) \<le> nat (j0 - i)" by (rule LeastI, rule Least_le)
  define j where "j = i + int (LEAST d. P d)"
  obtain s where s: "number j = Some s" "s \<notin> set taken" using L(1) by (auto simp: P_def j_def)
  have ij: "i \<le> j" "j \<le> i + int (length taken)" using L(2) j0 by (auto simp: j_def)
  have before: "\<exists>u\<in>set taken. number k = Some u" if k: "i \<le> k" "k < j" for k
  proof -
    have "\<not> P (nat (k - i))" using k by (intro not_less_Least) (simp add: j_def)
    moreover obtain u where "number k = Some u" using there [of k] k ij assms by auto
    ultimately show ?thesis using k by (auto simp: P_def)
  qed
  show ?thesis using next_free [OF s ij(1) before] s ij before by blast
qed

end

text \<open>The last index an axis numbers without overflow.\<close>

definition axis_bound :: "ARRAY_AXIS \<Rightarrow> int" where
  "axis_bound a = ((if schemeNonUnitColsStartAt0 (m_type a) then int (length (GetAlphabet (m_type a))) ^ 2 else 2 ^ 31)
    - 1 - axis_offset a) div m_step a"

lemma axis_range:
  assumes "0 \<le> axis_offset a" "0 < m_step a" "0 \<le> i" "i \<le> axis_bound a"
  shows "0 \<le> axis_offset a + m_step a * i" "axis_offset a + m_step a * i < 2 ^ 31"
    "schemeNonUnitColsStartAt0 (m_type a) \<Longrightarrow> axis_offset a + m_step a * i < int (length (GetAlphabet (m_type a))) ^ 2"
proof -
  let ?B = "if schemeNonUnitColsStartAt0 (m_type a) then int (length (GetAlphabet (m_type a))) ^ 2 else 2 ^ 31"
  have "m_step a * i \<le> m_step a * axis_bound a" using assms by (intro mult_left_mono) auto
  also have "\<dots> \<le> ?B - 1 - axis_offset a"
    using div_mult_le [OF assms(2)] unfolding axis_bound_def by (simp add: mult.commute)
  finally have B: "axis_offset a + m_step a * i < ?B" by linarith
  show "0 \<le> axis_offset a + m_step a * i" using assms by simp
  have "int (length (GetAlphabet (m_type a))) ^ 2 \<le> 26 ^ 2" using GetAlphabet_length(2) [of "m_type a"] by (intro power_mono) auto
  then show "axis_offset a + m_step a * i < 2 ^ 31" using B by (auto split: if_splits)
  show "schemeNonUnitColsStartAt0 (m_type a) \<Longrightarrow> axis_offset a + m_step a * i < int (length (GetAlphabet (m_type a))) ^ 2"
    using B by simp
qed

lemma GetItemNumber_there:
  assumes "0 \<le> axis_offset a" "0 < m_step a" "0 \<le> i" "i \<le> axis_bound a"
  shows "\<exists>s. GetItemNumber a i = Some s \<and> getNumberingOffset (m_type a) s = Some (axis_offset a + m_step a * i)"
proof -
  note R = axis_range [OF assms]
  have "number_loop (m_type a) True (axis_offset a + m_step a * i) [] \<noteq> None"
    using number_loop_plain [OF R(1)] number_loop_alpha [OF R(1)] R(3)
    by (cases "schemeNonUnitColsStartAt0 (m_type a)") auto
  then obtain s where "GetItemNumber a i = Some s" using R(1,2) by (auto simp: GetItemNumber_def to_int32_id)
  then show ?thesis using GetItemNumber_reads [OF R(1,2)] by blast
qed

definition good_axis :: "ARRAY_AXIS \<Rightarrow> ARRAY_AXIS" where
  "good_axis a = a\<lparr>axis_offset := max 0 (axis_offset a), m_step := max 1 (m_step a)\<rparr>"

interpretation axis_numbers: numbering "GetItemNumber (good_axis a)" "axis_bound (good_axis a)" for a
proof
  have g: "0 \<le> axis_offset (good_axis a)" "0 < m_step (good_axis a)" by (simp_all add: good_axis_def)
  note T = GetItemNumber_there [OF g]
  show "\<exists>s. GetItemNumber (good_axis a) i = Some s" if "0 \<le> i" "i \<le> axis_bound (good_axis a)" for i
    using T [OF that] by blast
  show "i = j" if "0 \<le> i" "i \<le> axis_bound (good_axis a)" "0 \<le> j" "j \<le> axis_bound (good_axis a)"
    "GetItemNumber (good_axis a) i = GetItemNumber (good_axis a) j" for i j
    using T [OF that(1,2)] T [OF that(3,4)] that(5) g(2) by auto
qed

subsection \<open>Cells of a grid\<close>

definition axis_size :: "ARRAY_GRID \<Rightarrow> int" where
  "axis_size g = (if m_horizontalThenVertical g then m_nx g else m_ny g)"

lemma getGridCoords_nonneg:
  assumes "0 \<le> n" "0 < axis_size g"
  shows "getGridCoords g n = Vec (if m_reverseNumberingAlternate g \<and> odd (n div axis_size g)
      then axis_size g - n mod axis_size g - 1 else n mod axis_size g) (n div axis_size g)"
proof -
  have d: "0 \<le> n div axis_size g" using assms by (simp add: pos_imp_zdiv_nonneg_iff)
  have "n smod axis_size g = n mod axis_size g" "n sdiv axis_size g = n div axis_size g"
    using assms by (simp_all add: signed_modulo_int_def signed_divide_int_def sgn_if)
  moreover have "n div axis_size g smod 2 \<noteq> 0 \<longleftrightarrow> odd (n div axis_size g)"
    using d by (simp add: signed_modulo_int_def signed_divide_int_def sgn_if odd_iff_mod_2_eq_one)
  ultimately show ?thesis unfolding getGridCoords_def axis_size_def [symmetric] by (simp add: Let_def)
qed

subsection \<open>Properties\<close>

text \<open>
  C40: Every index of an axis up to its bound has a number, and the number reads back as that index: no
  two items of an axis are numbered alike.
\<close>

theorem GetItemNumber_reads_back:
  assumes "0 \<le> axis_offset a" "0 < m_step a" "0 \<le> i" "i \<le> axis_bound a"
  shows "\<exists>s. GetItemNumber a i = Some s \<and> getNumberingOffset (m_type a) s = Some (axis_offset a + m_step a * i)"
  by (rule GetItemNumber_there [OF assms])

theorem GetItemNumber_reads_back_witness:
  "\<exists>s. GetItemNumber \<lparr>m_type = NUMBERING_ALPHA_FULL, axis_offset = 0, m_step = 1\<rparr> 27 = Some s \<and>
    getNumberingOffset NUMBERING_ALPHA_FULL s = Some 27"
  using GetItemNumber_reads_back [of "\<lparr>m_type = NUMBERING_ALPHA_FULL, axis_offset = 0, m_step = 1\<rparr>" 27]
  by (simp add: axis_bound_def schemeNonUnitColsStartAt0_def)

text \<open>
  The search for a free pad number ends after at most one try more than there are pads and gives
  the first number of the axis, from the current index on, that no pad has.
\<close>

theorem getNextNumber_first_free:
  assumes "0 \<le> axis_offset a" "0 < m_step a" "0 \<le> i" "i + int (length taken) \<le> axis_bound a"
  shows "\<exists>j s. getNextNumber (GetItemNumber a) taken i = Some (s, j + 1) \<and> i \<le> j \<and> j \<le> i + int (length taken) \<and>
    GetItemNumber a j = Some s \<and> s \<notin> set taken \<and>
    (\<forall>k. i \<le> k \<and> k < j \<longrightarrow> (\<exists>u\<in>set taken. GetItemNumber a k = Some u))"
proof -
  have "good_axis a = a" using assms(1,2) by (simp add: good_axis_def)
  then show ?thesis using axis_numbers.finds_first_free [of i taken a] assms(3,4) by simp
qed

theorem getNextNumber_first_free_witness:
  "\<exists>j s. getNextNumber (GetItemNumber ARRAY_AXIS_new) [''1'', ''0''] 0 = Some (s, j + 1) \<and> 0 \<le> j \<and> j \<le> 2 \<and>
    GetItemNumber ARRAY_AXIS_new j = Some s \<and> s \<notin> {''1'', ''0''}"
  using getNextNumber_first_free [of ARRAY_AXIS_new 0 "[''1'', ''0'']"]
  by (auto simp: axis_bound_def ARRAY_AXIS_new_def schemeNonUnitColsStartAt0_def)

text \<open>
  The indices of a grid go through its cells, each once, whichever axis is first and whether or not
  every other line is numbered backwards.
\<close>

theorem getGridCoords_cells:
  assumes "0 < m_nx g" "0 < m_ny g"
  shows "bij_betw (getGridCoords g) {0..<Grid_GetArraySize g}
    {Vec x y |x y. 0 \<le> x \<and> x < (if m_horizontalThenVertical g then m_nx g else m_ny g) \<and>
      0 \<le> y \<and> y < (if m_horizontalThenVertical g then m_ny g else m_nx g)}"
proof -
  define A where "A = axis_size g"
  define B where "B = (if m_horizontalThenVertical g then m_ny g else m_nx g)"
  define back_x where "back_x x y = (if m_reverseNumberingAlternate g \<and> odd y then A - x - 1 else x)" for x y :: int
  have A: "0 < A" "Grid_GetArraySize g = B * A"
    using assms by (simp_all add: A_def B_def axis_size_def Grid_GetArraySize_def mult.commute)
  have co: "getGridCoords g n = Vec (back_x (n mod A) (n div A)) (n div A)" if "0 \<le> n" for n
    using getGridCoords_nonneg [OF that, of g] A(1) by (simp add: A_def back_x_def)
  have m: "0 \<le> n mod A" "n mod A < A" for n using A(1) by simp_all
  have inv: "back_x (back_x x y) y = x" for x y by (simp add: back_x_def)
  have range: "0 \<le> back_x x y \<and> back_x x y < A" if "0 \<le> x" "x < A" for x y using that by (auto simp: back_x_def)
  let ?C = "{Vec x y |x y. 0 \<le> x \<and> x < A \<and> 0 \<le> y \<and> y < B}"
  have "bij_betw (getGridCoords g) {0..<B * A} ?C"
  proof (rule bij_betw_byWitness [where f' = "\<lambda>v. vy v * A + back_x (vx v) (vy v)"])
    show "\<forall>n\<in>{0..<B * A}. vy (getGridCoords g n) * A + back_x (vx (getGridCoords g n)) (vy (getGridCoords g n)) = n"
      using co inv by simp
    have D: "(y * A + x) div A = y" "(y * A + x) mod A = x" if "0 \<le> x" "x < A" for x y using that by simp_all
    show "\<forall>v\<in>?C. getGridCoords g (vy v * A + back_x (vx v) (vy v)) = v"
    proof
      fix v assume "v \<in> ?C"
      then obtain x y where v: "v = Vec x y" "0 \<le> x" "x < A" "0 \<le> y" "y < B" by blast
      have r: "0 \<le> back_x x y" "back_x x y < A" using range [OF v(2,3)] by blast+
      have "0 \<le> y * A + back_x x y" using v(4) A(1) r(1) by simp
      from co [OF this] show "getGridCoords g (vy v * A + back_x (vx v) (vy v)) = v"
        using D [OF r] inv v(1) by simp
    qed
    show "getGridCoords g ` {0..<B * A} \<subseteq> ?C"
    proof
      fix v assume "v \<in> getGridCoords g ` {0..<B * A}"
      then obtain n where n: "0 \<le> n" "n < B * A" "v = getGridCoords g n" by auto
      have "0 \<le> n div A" using n(1) A(1) by (simp add: pos_imp_zdiv_nonneg_iff)
      moreover have "n div A < B" using n(2) A(1) by (intro div_less_bound)
      ultimately show "v \<in> ?C" using n(3) co [OF n(1)] range [OF m, of n "n div A"] by blast
    qed
    show "(\<lambda>v. vy v * A + back_x (vx v) (vy v)) ` ?C \<subseteq> {0..<B * A}"
    proof
      fix n assume "n \<in> (\<lambda>v. vy v * A + back_x (vx v) (vy v)) ` ?C"
      then obtain x y where n: "n = y * A + back_x x y" "0 \<le> x" "x < A" "0 \<le> y" "y < B" by auto
      have r: "0 \<le> back_x x y" "back_x x y < A" using range [OF n(2,3)] by blast+
      have "y * A + A \<le> B * A" using n(5) A(1) mult_right_mono [of "y + 1" B A] by (simp add: algebra_simps)
      then show "n \<in> {0..<B * A}" using n(1,4) r A(1) by simp
    qed
  qed
  then show ?thesis unfolding A(2) by (simp add: A_def B_def axis_size_def)
qed

theorem getGridCoords_cells_witness:
  "bij_betw (getGridCoords \<lparr>m_nx = 3, m_ny = 2, m_horizontalThenVertical = True, m_reverseNumberingAlternate = True,
      m_2dArrayNumbering = True, m_pri_axis = ARRAY_AXIS_new, m_sec_axis = ARRAY_AXIS_new\<rparr>) {0..<6}
    {Vec x y |x y. 0 \<le> x \<and> x < 3 \<and> 0 \<le> y \<and> y < 2}"
  using getGridCoords_cells [of "\<lparr>m_nx = 3, m_ny = 2, m_horizontalThenVertical = True, m_reverseNumberingAlternate = True,
      m_2dArrayNumbering = True, m_pri_axis = ARRAY_AXIS_new, m_sec_axis = ARRAY_AXIS_new\<rparr>"]
  by (simp add: Grid_GetArraySize_def)

subsection \<open>What the code does not do\<close>

text \<open>Behind \<open>YZ\<close>, where the tens column turns to the last letter, the alphabetic schemes read the alphabet at \<open>- 1\<close>.\<close>

lemma alphabet_underrun:
  "GetItemNumber \<lparr>m_type = NUMBERING_ALPHA_FULL, axis_offset = 0, m_step = 1\<rparr> 675 = Some ''YZ''"
  "GetItemNumber \<lparr>m_type = NUMBERING_ALPHA_FULL, axis_offset = 0, m_step = 1\<rparr> 676 = None"
  by code_simp+

text \<open>Two cells of a grid get the same number when both axes are numeric.\<close>

lemma grid_numbers_repeat:
  "(let g = \<lparr>m_nx = 12, m_ny = 12, m_horizontalThenVertical = True, m_reverseNumberingAlternate = False,
      m_2dArrayNumbering = True, m_pri_axis = ARRAY_AXIS_new, m_sec_axis = ARRAY_AXIS_new\<rparr>
    in Grid_GetItemNumber g 23 = Some ''111'' \<and> Grid_GetItemNumber g 133 = Some ''111'')"
  by code_simp

end
