(* ===== verification/Bus_Names.thy ===== *)
theory Bus_Names
  imports Strings
begin

text \<open>
  The bus labels of a schematic, \<open>common/project/net_settings.cpp\<close>: a vector \<open>D[7..0]\<close> and a group
  \<open>MEM{A B}\<close>. Both may have parts in braces behind one of \<open>_ ^ ~\<close>, which is formatting. The conversion of digits,
  \<open>wxString::ToLong\<close>, is the parameter \<open>ToLong\<close>; it leaves its argument alone when it fails. A parser
  that returns false gives \<open>None\<close>.
\<close>

definition isSuperSubOverbar :: "char \<Rightarrow> bool" where
  "isSuperSubOverbar c \<longleftrightarrow> c = CHR ''_'' \<or> c = CHR ''^'' \<or> c = CHR ''~''"

definition opens_format :: "char option \<Rightarrow> bool" where
  "opens_format prev \<longleftrightarrow> (case prev of None \<Rightarrow> False | Some p \<Rightarrow> isSuperSubOverbar p)"

subsection \<open>Vectors\<close>

text \<open>The loop over the prefix: the prefix, the nesting of braces, and the text from \<open>[\<close> on.\<close>

fun vector_prefix :: "char option \<Rightarrow> int \<Rightarrow> string \<Rightarrow> (string \<times> int \<times> string) option" where
  "vector_prefix prev braceNesting [] = Some ([], braceNesting, [])"
| "vector_prefix prev braceNesting (c # s) =
    (if c = CHR ''{'' \<and> \<not> opens_format prev then None
     else if c = CHR '' '' \<or> c = CHR '']'' then None
     else if c = CHR ''['' then Some ([], braceNesting, c # s)
     else map_option (\<lambda>(p, r). (c # p, r))
       (vector_prefix (Some c) (if c = CHR ''{'' then braceNesting + 1 else if c = CHR ''}'' then braceNesting - 1 else braceNesting) s))"

fun start_number :: "string \<Rightarrow> string \<Rightarrow> (string \<times> string) option" where
  "start_number tmp [] = Some (tmp, [])"
| "start_number tmp (c # s) =
    (if c = CHR ''.'' \<and> s \<noteq> [] \<and> hd s = CHR ''.'' then Some (tmp, tl s)
     else if \<not> is_digit c then None
     else start_number (tmp @ [c]) s)"

text \<open>The number, if its \<open>]\<close> is there.\<close>

fun end_number :: "string \<Rightarrow> string \<Rightarrow> (string option \<times> string) option" where
  "end_number tmp [] = Some (None, [])"
| "end_number tmp (c # s) =
    (if c = CHR '']'' then Some (Some tmp, s) else if \<not> is_digit c then None else end_number (tmp @ [c]) s)"

definition ParseBusVector :: "(string \<Rightarrow> int option) \<Rightarrow> string \<Rightarrow> (string \<times> string list) option" where
  "ParseBusVector ToLong aBus =
    (case vector_prefix None 0 aBus of None \<Rightarrow> None
     | Some (prefix, braceNesting, s) \<Rightarrow>
    if tl s = [] then None else
    (case start_number [] (tl s) of None \<Rightarrow> None
     | Some (tmp, s) \<Rightarrow>
    if s = [] then None else
    (case end_number [] s of None \<Rightarrow> None
     | Some (tmp2, suffix) \<Rightarrow>
    (let begin = (case ToLong tmp of None \<Rightarrow> 0 | Some v \<Rightarrow> v);
         end' = (case tmp2 of None \<Rightarrow> 0 | Some t \<Rightarrow> (case ToLong t of None \<Rightarrow> 0 | Some v \<Rightarrow> v))
     in if \<exists>c\<in>set suffix. c \<noteq> CHR ''}'' then None
        else if braceNesting - int (length suffix) \<noteq> 0 then None
        else if begin = end' then None
        else Some (prefix, map (\<lambda>idx. prefix @ dec (nat idx) @ suffix) [min begin end'..max begin end'])))))"

subsection \<open>Groups\<close>

fun group_prefix :: "char option \<Rightarrow> int \<Rightarrow> string \<Rightarrow> (string \<times> int \<times> string) option" where
  "group_prefix prev braceNesting [] = Some ([], braceNesting, [])"
| "group_prefix prev braceNesting (c # s) =
    (if c = CHR ''{'' \<and> \<not> opens_format prev then Some ([], braceNesting, c # s)
     else if c = CHR '' '' \<or> c = CHR ''['' \<or> c = CHR '']'' then None
     else map_option (\<lambda>(p, r). (c # p, r))
       (group_prefix (Some c) (if c = CHR ''{'' then braceNesting + 1 else if c = CHR ''}'' then braceNesting - 1 else braceNesting) s))"

definition push_member :: "string \<Rightarrow> string list" where
  "push_member tmp = (if tmp = [] then [] else [EscapeString tmp CTX_NETNAME])"

fun group_members :: "char \<Rightarrow> nat \<Rightarrow> string \<Rightarrow> string \<Rightarrow> string list option" where
  "group_members prev braceNesting tmp [] = None"
| "group_members prev braceNesting tmp (c # s) =
    (if c = CHR ''{'' then
       (if isSuperSubOverbar prev then group_members c (braceNesting + 1) (tmp @ [c]) s else None)
     else if c = CHR ''}'' then
       (if braceNesting > 0 then group_members c (braceNesting - 1) (tmp @ [c]) s else Some (push_member tmp))
     else if c = CHR '' '' \<or> c = CHR '','' then map_option (\<lambda>ms. push_member tmp @ ms) (group_members c braceNesting [] s)
     else group_members c braceNesting (tmp @ [c]) s)"

definition ParseBusGroup :: "string \<Rightarrow> (string \<times> string list) option" where
  "ParseBusGroup aGroup =
    (case group_prefix None 0 aGroup of None \<Rightarrow> None
     | Some (prefix, braceNesting, s) \<Rightarrow>
         if braceNesting \<noteq> 0 then None
         else if tl s = [] then None
         else map_option (\<lambda>ms. (prefix, ms)) (group_members (CHR ''{'') 0 [] (tl s)))"

subsection \<open>Numbers in brackets\<close>

lemma start_number_digits:
  "\<forall>c\<in>set ds. is_digit c \<Longrightarrow> start_number tmp (ds @ CHR ''.'' # CHR ''.'' # s) = Some (tmp @ ds, s)"
  by (induction ds arbitrary: tmp) (auto simp: is_digit_def)

lemma end_number_digits: "\<forall>c\<in>set ds. is_digit c \<Longrightarrow> end_number tmp (ds @ CHR '']'' # s) = Some (Some (tmp @ ds), s)"
  by (induction ds arbitrary: tmp) (auto simp: is_digit_def)

lemma vector_prefix_plain:
  "set p \<inter> {CHR ''{'', CHR ''}'', CHR ''['', CHR '']'', CHR '' ''} = {} \<Longrightarrow>
    vector_prefix prev k (p @ CHR ''['' # s) = Some (p, k, CHR ''['' # s)"
  by (induction p arbitrary: prev) auto

text \<open>A vector has a \<open>[\<close> in front of any brace that would begin the members of a group.\<close>

lemma vector_not_group:
  assumes "vector_prefix prev k s = Some (p, n, r)" "r \<noteq> []"
  shows "group_prefix prev k s = None"
  using assms
proof (induction prev k s arbitrary: p n r rule: vector_prefix.induct)
  case (2 prev k c s)
  show ?case
  proof (cases "c = CHR ''['' \<or> c = CHR '' '' \<or> c = CHR '']'' \<or> c = CHR ''{'' \<and> \<not> opens_format prev")
    case True
    then show ?thesis using "2.prems" by (auto split: if_splits)
  next
    case False
    have no: "\<not> (c = CHR ''{'' \<and> \<not> opens_format prev)" "\<not> (c = CHR '' '' \<or> c = CHR '']'')" "\<not> c = CHR ''[''"
      using False by blast+
    let ?x = "vector_prefix (Some c) (if c = CHR ''{'' then k + 1 else if c = CHR ''}'' then k - 1 else k) s"
    have "map_option (\<lambda>(p, r). (c # p, r)) ?x = Some (p, n, r)"
      using "2.prems"(1) unfolding vector_prefix.simps(2) if_not_P [OF no(1)] if_not_P [OF no(2)] if_not_P [OF no(3)] .
    then obtain q where "?x = Some (q, n, r)" by (cases ?x) auto
    then show ?thesis using "2.IH" [of q n r] "2.prems"(2) False by simp
  qed
qed simp

lemma group_prefix_plain:
  "set p \<inter> {CHR ''{'', CHR ''}'', CHR ''['', CHR '']'', CHR '' '', CHR ''_'', CHR ''^'', CHR ''~''} = {} \<Longrightarrow> \<not> opens_format prev \<Longrightarrow>
    group_prefix prev k (p @ CHR ''{'' # s) = Some (p, k, CHR ''{'' # s)"
  by (induction p arbitrary: prev) (auto simp: opens_format_def isSuperSubOverbar_def)

lemma group_members_plain:
  "set m \<inter> {CHR ''{'', CHR ''}'', CHR '' '', CHR '',''} = {} \<Longrightarrow>
    group_members prev k tmp (m @ s) = group_members (last (prev # m)) k (tmp @ m) s"
  by (induction m arbitrary: prev tmp) auto

definition member_ok :: "string \<Rightarrow> bool" where
  "member_ok m \<longleftrightarrow> m \<noteq> [] \<and> set m \<inter> {CHR ''{'', CHR ''}'', CHR '' '', CHR '',''} = {}"

lemma group_members_join:
  assumes "\<forall>m\<in>set ms. member_ok m" "member_ok m0"
  shows "group_members prev 0 [] (concat (map (\<lambda>m. m @ '' '') ms) @ m0 @ ''}'' @ rest) = Some (map (\<lambda>m. EscapeString m CTX_NETNAME) (ms @ [m0]))"
  using assms
proof (induction ms arbitrary: prev)
  case Nil
  then show ?case using group_members_plain [of m0 prev 0 "[]" "CHR ''}'' # rest"] by (simp add: member_ok_def push_member_def)
next
  case (Cons m ms)
  have m: "set m \<inter> {CHR ''{'', CHR ''}'', CHR '' '', CHR '',''} = {}" "m \<noteq> []" using Cons.prems(1) by (auto simp: member_ok_def)
  show ?case
    using group_members_plain [OF m(1), of prev 0 "[]" "CHR '' '' # concat (map (\<lambda>m. m @ '' '') ms) @ m0 @ ''}'' @ rest"]
      Cons.IH [of "CHR '' ''"] Cons.prems m(2) by (simp add: push_member_def)
qed

subsection \<open>Properties\<close>

lemma map_int_upt: "[int a..int b] = map int [a..<b + 1]"
  by (rule nth_equalityI) (auto simp: nth_upto simp del: upt_Suc)

text \<open>
  A bus vector, its bounds given in either order, names the nets from the lower to the higher
  bound, once each.
\<close>

theorem ParseBusVector_range:
  assumes "\<And>n. n < 2 ^ 63 \<Longrightarrow> ToLong (dec n) = Some (int n)"
    and "set p \<inter> {CHR ''{'', CHR ''}'', CHR ''['', CHR '']'', CHR '' ''} = {}" "a \<noteq> b" "a < 2 ^ 63" "b < 2 ^ 63"
  shows "ParseBusVector ToLong (p @ ''['' @ dec a @ ''..'' @ dec b @ '']'') =
    Some (p, map (\<lambda>k. p @ dec k) [min a b..<max a b + 1])"
proof -
  have D: "\<forall>c\<in>set (dec n). is_digit c" "dec n \<noteq> []" for n using dec_digits [of n] by blast+
  have "map (\<lambda>idx. p @ dec (nat idx) @ []) [min (int a) (int b)..max (int a) (int b)] = map (\<lambda>k. p @ dec k) [min a b..<max a b + 1]"
  proof -
    have "min (int a) (int b) = int (min a b)" "max (int a) (int b) = int (max a b)" by simp_all
    then show ?thesis by (simp only: map_int_upt map_map comp_def nat_int append_Nil2)
  qed
  then show ?thesis
    using vector_prefix_plain [OF assms(2), of None 0 "dec a @ ''..'' @ dec b @ '']''"]
      start_number_digits [OF D(1), of "[]" a "dec b @ '']''"] end_number_digits [OF D(1), of "[]" b "[]"]
      assms(1,3-5) D(2)
    by (simp add: ParseBusVector_def Let_def)
qed

text \<open>The decimal value, a conversion that reads back what is written.\<close>

definition read_dec :: "string \<Rightarrow> int option" where
  "read_dec s = (if s \<noteq> [] \<and> list_all is_digit s then Some (foldl (\<lambda>v c. 10 * v + (int (of_char c) - 48)) 0 s) else None)"

lemma read_dec_dec: "read_dec (dec n) = Some (int n)"
  using dec_digits [of n] by (simp add: read_dec_def list_all_iff dec_value)

theorem ParseBusVector_range_witness:
  "ParseBusVector read_dec (''D'' @ ''['' @ dec 7 @ ''..'' @ dec 5 @ '']'') = Some (''D'', map (\<lambda>k. ''D'' @ dec k) [5..<8])"
  using ParseBusVector_range [of read_dec "''D''" 7 5] by (simp add: read_dec_dec del: append_Cons append_Nil)

text \<open>
  A bus group with plain members, separated by blanks, has these members, each escaped for use as a
  net name.
\<close>

theorem ParseBusGroup_members:
  assumes "set p \<inter> {CHR ''{'', CHR ''}'', CHR ''['', CHR '']'', CHR '' '', CHR ''_'', CHR ''^'', CHR ''~''} = {}"
    and "\<forall>m\<in>set ms. member_ok m" "member_ok m0"
  shows "ParseBusGroup (p @ ''{'' @ concat (map (\<lambda>m. m @ '' '') ms) @ m0 @ ''}'') =
    Some (p, map (\<lambda>m. EscapeString m CTX_NETNAME) (ms @ [m0]))"
  using group_prefix_plain [OF assms(1), of None 0 "concat (map (\<lambda>m. m @ '' '') ms) @ m0 @ ''}''"]
    group_members_join [OF assms(2,3), of "CHR ''{''" "[]"] assms(3)
  by (simp add: ParseBusGroup_def opens_format_def member_ok_def)

theorem ParseBusGroup_members_witness:
  "ParseBusGroup ''MEM{A /B C}'' = Some (''MEM'', [''A'', ''{slash}B'', ''C''])"
proof -
  have "map (\<lambda>m. EscapeString m CTX_NETNAME) ([''A'', ''/B''] @ [''C'']) = [''A'', ''{slash}B'', ''C'']" by code_simp
  moreover have "''MEM'' @ ''{'' @ concat (map (\<lambda>m. m @ '' '') [''A'', ''/B'']) @ ''C'' @ ''}'' = ''MEM{A /B C}''" by code_simp
  moreover have "\<forall>m\<in>set [''A'', ''/B'']. member_ok m" "member_ok ''C''" by (simp_all add: member_ok_def)
  ultimately show ?thesis using ParseBusGroup_members [of "''MEM''" "[''A'', ''/B'']" "''C''"] by simp
qed

text \<open>
  No label is both a bus vector and a bus group.
\<close>

theorem bus_label_one_kind: "ParseBusVector ToLong s = None \<or> ParseBusGroup s = None"
proof (cases "ParseBusVector ToLong s")
  case (Some v)
  then obtain p n r where r: "vector_prefix None 0 s = Some (p, n, r)" "tl r \<noteq> []"
    by (auto simp: ParseBusVector_def split: option.splits if_splits)
  then have "r \<noteq> []" by auto
  then have "group_prefix None 0 s = None" using vector_not_group [OF r(1)] by blast
  then show ?thesis by (simp add: ParseBusGroup_def)
qed simp

subsection \<open>What the code does not do\<close>

text \<open>A vector without its closing bracket is taken as one that ends at 0.\<close>

lemma ParseBusVector_unterminated: "ParseBusVector read_dec ''A[1..5'' = Some (''A'', [''A0'', ''A1''])"
  by code_simp

end
