(* ===== verification/Router_World.thy ===== *)
theory Router_World
  imports Boxes "HOL-Library.AList"
begin

unbundle bit_operations_syntax

text \<open>
  The world model of the interactive router, \<open>pcbnew/router\<close>: items (\<open>pns_item.h\<close>), layer ranges
  (\<open>pns_layerset.h\<close>), joints (\<open>pns_joint.h\<close>, \<open>pns_itemset.h\<close>), the item index (\<open>pns_index.cpp\<close>) and the
  tree of branches over them (\<open>pns_node.cpp\<close>).

  Pointers to items, nodes, nets and board items are numbers, 0 being the null net and the null board
  item; nodes are numbered in the order of their allocation. \<open>w_item\<close> and \<open>w_node\<close> hold the objects,
  \<open>w_freed\<close> the items that were deleted. A function that dereferences a null joint returns \<open>None\<close>.

  An \<open>unordered_set\<close> is the list of its elements in the order in which it is traversed. The
  \<open>unordered_multimap\<close> of joints is the list of its groups of equal keys, likewise in the order of
  traversal, in which a group is contiguous.
\<close>

subsection \<open>Layer ranges\<close>

record LAYER_RANGE =
  m_start :: int
  m_end :: int

definition LR_of :: "int \<Rightarrow> int \<Rightarrow> LAYER_RANGE" where
  "LR_of aStart aEnd =
    (if aStart > aEnd then \<lparr>m_start = aEnd, m_end = aStart\<rparr> else \<lparr>m_start = aStart, m_end = aEnd\<rparr>)"

definition LR_Overlaps :: "LAYER_RANGE \<Rightarrow> LAYER_RANGE \<Rightarrow> bool" where
  "LR_Overlaps a aOther \<longleftrightarrow> m_end a \<ge> m_start aOther \<and> m_start a \<le> m_end aOther"

definition LR_Overlaps_layer :: "LAYER_RANGE \<Rightarrow> int \<Rightarrow> bool" where
  "LR_Overlaps_layer a aLayer \<longleftrightarrow> aLayer \<ge> m_start a \<and> aLayer \<le> m_end a"

definition IsMultilayer :: "LAYER_RANGE \<Rightarrow> bool" where
  "IsMultilayer a \<longleftrightarrow> m_start a \<noteq> m_end a"

definition LR_Merge :: "LAYER_RANGE \<Rightarrow> LAYER_RANGE \<Rightarrow> LAYER_RANGE" where
  "LR_Merge a aOther =
    (if m_start a < 0 \<or> m_end a < 0 then aOther
     else \<lparr>m_start = (if m_start aOther < m_start a then m_start aOther else m_start a),
           m_end = (if m_end aOther > m_end a then m_end aOther else m_end a)\<rparr>)"

definition LR_Intersection :: "LAYER_RANGE \<Rightarrow> LAYER_RANGE \<Rightarrow> LAYER_RANGE" where
  "LR_Intersection a aOther =
    \<lparr>m_start = max (m_start a) (m_start aOther),
     m_end = (if m_end a < 0 then m_end aOther else if m_end aOther < 0 then m_end a
              else min (m_end a) (m_end aOther))\<rparr>"

subsection \<open>Items\<close>

datatype PnsKind = SOLID_T | LINE_T | JOINT_T | SEGMENT_T | ARC_T | VIA_T | DIFF_PAIR_T | HOLE_T

fun kind_bit :: "PnsKind \<Rightarrow> int" where
  "kind_bit SOLID_T = 1" | "kind_bit LINE_T = 2" | "kind_bit JOINT_T = 4" | "kind_bit SEGMENT_T = 8"
| "kind_bit ARC_T = 16" | "kind_bit VIA_T = 32" | "kind_bit DIFF_PAIR_T = 64" | "kind_bit HOLE_T = 128"

datatype OWNER = NoOwner | OwnNode nat | OwnItem nat

record ITEM =
  m_kind :: PnsKind
  m_layers :: LAYER_RANGE
  m_net :: nat
  anchor0 :: VECTOR2I
  anchor1 :: VECTOR2I
  item_width :: int
  m_hole :: "nat option"
  m_owner :: OWNER
  m_rank :: int
  m_marker :: int
  m_routable :: bool
  m_isVirtual :: bool
  m_board_item :: nat

definition OfKind :: "ITEM \<Rightarrow> int \<Rightarrow> bool" where
  "OfKind i aKindMask \<longleftrightarrow> aKindMask AND kind_bit (m_kind i) \<noteq> 0"

definition HasHole :: "ITEM \<Rightarrow> bool" where
  "HasHole i \<longleftrightarrow> m_hole i \<noteq> None"

subsection \<open>Joints\<close>

type_synonym HASH_TAG = "VECTOR2I \<times> nat"

record JOINT =
  jt_pos :: VECTOR2I
  jt_net :: nat
  jt_layers :: LAYER_RANGE
  jt_links :: "nat list"
  jt_locked :: bool

definition JOINT_of :: "VECTOR2I \<Rightarrow> LAYER_RANGE \<Rightarrow> nat \<Rightarrow> JOINT" where
  "JOINT_of aPos aLayers aNet =
    \<lparr>jt_pos = aPos, jt_net = aNet, jt_layers = aLayers, jt_links = [], jt_locked = False\<rparr>"

definition JT_Link :: "nat \<Rightarrow> JOINT \<Rightarrow> JOINT" where
  "JT_Link aItem j = (if aItem \<in> set (jt_links j) then j else j\<lparr>jt_links := jt_links j @ [aItem]\<rparr>)"

definition JT_Unlink :: "nat \<Rightarrow> JOINT \<Rightarrow> JOINT" where
  "JT_Unlink aItem j = j\<lparr>jt_links := remove1 aItem (jt_links j)\<rparr>"

definition JT_Overlaps :: "JOINT \<Rightarrow> JOINT \<Rightarrow> bool" where
  "JT_Overlaps j rhs \<longleftrightarrow> jt_pos j = jt_pos rhs \<and> jt_net j = jt_net rhs \<and> LR_Overlaps (jt_layers j) (jt_layers rhs)"

definition JT_Merge :: "JOINT \<Rightarrow> JOINT \<Rightarrow> JOINT" where
  "JT_Merge j aJoint =
    (if \<not> JT_Overlaps j aJoint then j
     else j\<lparr>jt_layers := LR_Merge (jt_layers j) (jt_layers aJoint),
            jt_locked := (jt_locked aJoint \<or> jt_locked j),
            jt_links := jt_links j @ jt_links aJoint\<rparr>)"

definition LinkCount :: "(nat \<Rightarrow> ITEM) \<Rightarrow> JOINT \<Rightarrow> int \<Rightarrow> nat" where
  "LinkCount it j aMask =
    (if aMask = - 1 \<or> aMask = 65535 then length (jt_links j)
     else length (filter (\<lambda>i. kind_bit (m_kind (it i)) AND aMask \<noteq> 0) (jt_links j)))"

text \<open>\<open>SEGMENT_T | ARC_T\<close>\<close>

abbreviation (input) line_kinds :: int where "line_kinds \<equiv> 24"

definition is_line_kind :: "ITEM \<Rightarrow> bool" where
  "is_line_kind i \<longleftrightarrow> m_kind i = SEGMENT_T \<or> m_kind i = ARC_T"

text \<open>
  The loop keeps the first segment it meets and the last of the others; the joint has just two.
\<close>

definition IsLineCorner :: "(nat \<Rightarrow> ITEM) \<Rightarrow> JOINT \<Rightarrow> bool \<Rightarrow> bool" where
  "IsLineCorner it j aAllowLockedSegs =
    (let n = length (jt_links j); k = LinkCount it j line_kinds in
     if n = 2 \<and> k = 2 then item_width (it (jt_links j ! 0)) = item_width (it (jt_links j ! 1))
     else if n > 2 \<and> k = 2 then
       (if \<not> aAllowLockedSegs then False
        else if n - k = LinkCount it j (kind_bit VIA_T) then
          (let vias = filter (\<lambda>i. m_kind (it i) = VIA_T) (jt_links j);
               segs = filter (\<lambda>i. is_line_kind (it i)) (jt_links j)
           in if vias = [] \<or> list_ex (\<lambda>i. \<not> m_isVirtual (it i)) vias then False
              else item_width (it (hd segs)) = item_width (it (last segs)))
        else False)
     else False)"

definition IsNonFanoutVia :: "(nat \<Rightarrow> ITEM) \<Rightarrow> JOINT \<Rightarrow> bool" where
  "IsNonFanoutVia it j =
    (let real = filter (\<lambda>i. \<not> (m_kind (it i) = VIA_T \<and> m_isVirtual (it i))) (jt_links j) in
     length real = 3 \<and> length (filter (\<lambda>i. m_kind (it i) = VIA_T) real) = 1 \<and>
     length (filter (\<lambda>i. is_line_kind (it i)) real) = 2)"

definition IsStitchingVia :: "(nat \<Rightarrow> ITEM) \<Rightarrow> JOINT \<Rightarrow> bool" where
  "IsStitchingVia it j \<longleftrightarrow> length (jt_links j) = 1 \<and> LinkCount it j (kind_bit VIA_T) = 1"

definition IsTraceWidthChange :: "(nat \<Rightarrow> ITEM) \<Rightarrow> JOINT \<Rightarrow> bool" where
  "IsTraceWidthChange it j =
    (if length (jt_links j) \<noteq> 2 then False
     else if LinkCount it j (kind_bit SEGMENT_T) \<noteq> 2 then False
     else item_width (it (jt_links j ! 0)) \<noteq> item_width (it (jt_links j ! 1)))"

definition NextSegment :: "(nat \<Rightarrow> ITEM) \<Rightarrow> JOINT \<Rightarrow> nat \<Rightarrow> bool \<Rightarrow> nat option" where
  "NextSegment it j aCurrent aAllowLockedSegs =
    (if \<not> IsLineCorner it j aAllowLockedSegs then None
     else Some (jt_links j ! (if jt_links j ! 0 = aCurrent then 1 else 0)))"

definition JT_Via :: "(nat \<Rightarrow> ITEM) \<Rightarrow> JOINT \<Rightarrow> nat option" where
  "JT_Via it j = List.find (\<lambda>i. m_kind (it i) = VIA_T) (jt_links j)"

subsection \<open>The multimap of joints\<close>

type_synonym JOINT_MAP = "(HASH_TAG \<times> JOINT list) list"

definition group :: "JOINT_MAP \<Rightarrow> HASH_TAG \<Rightarrow> JOINT list" where
  "group m tag = (case map_of m tag of None \<Rightarrow> [] | Some g \<Rightarrow> g)"

definition set_group :: "HASH_TAG \<Rightarrow> JOINT list \<Rightarrow> JOINT_MAP \<Rightarrow> JOINT_MAP" where
  "set_group tag g m = (if g = [] then filter (\<lambda>e. fst e \<noteq> tag) m else AList.update tag g m)"

text \<open>\<open>find\<close> and then \<open>++f\<close> to the end of the whole table.\<close>

definition joints_from :: "JOINT_MAP \<Rightarrow> HASH_TAG \<Rightarrow> JOINT list" where
  "joints_from m tag = concat (map snd (dropWhile (\<lambda>e. fst e \<noteq> tag) m))"

text \<open>
  The loop that merges the joints on overlapping layers into the new one, taking each from the map.
\<close>

function absorb :: "LAYER_RANGE \<Rightarrow> JOINT \<Rightarrow> JOINT list \<Rightarrow> JOINT \<times> JOINT list" where
  "absorb aLayers jt g =
    (case List.find (\<lambda>f. LR_Overlaps aLayers (jt_layers f)) g of
       None \<Rightarrow> (jt, g)
     | Some f \<Rightarrow> absorb aLayers (JT_Merge jt f) (remove1 f g))"
  by pat_completeness auto
termination
proof (relation "measure (\<lambda>(l, j, g). length g)", simp, goal_cases)
  case (1 aLayers jt g f)
  then have "f \<in> set g" by (auto simp: find_Some_iff)
  then have "length (remove1 f g) = length g - 1" "g \<noteq> []" by (auto simp: length_remove1)
  then show ?case by simp
qed

declare absorb.simps [simp del]

subsection \<open>The index\<close>

record INDEX =
  m_allItems :: "nat list"
  m_netMap :: "(nat \<times> nat list) list"
  m_subIndices :: "nat list list"

definition INDEX_empty :: INDEX where
  "INDEX_empty = \<lparr>m_allItems = [], m_netMap = [], m_subIndices = []\<rparr>"

definition on_layers :: "LAYER_RANGE \<Rightarrow> (nat list \<Rightarrow> nat list) \<Rightarrow> nat list list \<Rightarrow> nat list list" where
  "on_layers lr f subs = foldl (\<lambda>subs i. subs[i := f (subs ! i)]) subs [nat (m_start lr)..<nat (m_end lr + 1)]"

definition INDEX_Add :: "(nat \<Rightarrow> ITEM) \<Rightarrow> nat \<Rightarrow> INDEX \<Rightarrow> INDEX" where
  "INDEX_Add it aItem ix =
    (let lr = m_layers (it aItem);
         subs = (if length (m_subIndices ix) \<le> nat (m_end lr)
                 then m_subIndices ix @ replicate (2 * nat (m_end lr) + 1 - length (m_subIndices ix)) []
                 else m_subIndices ix);
         net = m_net (it aItem)
     in \<lparr>m_allItems = (if aItem \<in> set (m_allItems ix) then m_allItems ix else m_allItems ix @ [aItem]),
         m_netMap = (if net \<noteq> 0
           then AList.update net ((case map_of (m_netMap ix) net of None \<Rightarrow> [] | Some l \<Rightarrow> l) @ [aItem]) (m_netMap ix)
           else m_netMap ix),
         m_subIndices = on_layers lr (\<lambda>l. l @ [aItem]) subs\<rparr>)"

definition INDEX_Remove :: "(nat \<Rightarrow> ITEM) \<Rightarrow> nat \<Rightarrow> INDEX \<Rightarrow> INDEX" where
  "INDEX_Remove it aItem ix =
    (let lr = m_layers (it aItem); net = m_net (it aItem) in
     if length (m_subIndices ix) \<le> nat (m_end lr) then ix
     else \<lparr>m_allItems = remove1 aItem (m_allItems ix),
           m_netMap = (case map_of (m_netMap ix) net of
               Some l \<Rightarrow> (if net \<noteq> 0 then AList.update net (removeAll aItem l) (m_netMap ix) else m_netMap ix)
             | None \<Rightarrow> m_netMap ix),
           m_subIndices = on_layers lr (remove1 aItem) (m_subIndices ix)\<rparr>)"

definition INDEX_Replace :: "(nat \<Rightarrow> ITEM) \<Rightarrow> nat \<Rightarrow> nat \<Rightarrow> INDEX \<Rightarrow> INDEX" where
  "INDEX_Replace it aOldItem aNewItem ix = INDEX_Add it aNewItem (INDEX_Remove it aOldItem ix)"

definition GetItemsForNet :: "INDEX \<Rightarrow> nat \<Rightarrow> nat list option" where
  "GetItemsForNet ix aNet = map_of (m_netMap ix) aNet"

subsection \<open>Nodes\<close>

record NODE =
  m_joints :: JOINT_MAP
  m_parent :: "nat option"
  m_root :: nat
  m_children :: "nat list"
  m_override :: "nat list"
  m_index :: INDEX
  m_depth :: int
  m_maxClearance :: int
  m_garbageItems :: "nat list"

record WORLD =
  w_item :: "nat \<Rightarrow> ITEM"
  w_node :: "nat \<Rightarrow> NODE"
  w_live :: "nat list"
  w_freed :: "nat list"
  w_new :: nat

definition NODE_new :: "nat \<Rightarrow> NODE" where
  "NODE_new this =
    \<lparr>m_joints = [], m_parent = None, m_root = this, m_children = [], m_override = [], m_index = INDEX_empty,
     m_depth = 0, m_maxClearance = 800000, m_garbageItems = []\<rparr>"

definition on_node :: "nat \<Rightarrow> (NODE \<Rightarrow> NODE) \<Rightarrow> WORLD \<Rightarrow> WORLD" where
  "on_node n f w = w\<lparr>w_node := (w_node w)(n := f (w_node w n))\<rparr>"

definition on_item :: "nat \<Rightarrow> (ITEM \<Rightarrow> ITEM) \<Rightarrow> WORLD \<Rightarrow> WORLD" where
  "on_item i f w = w\<lparr>w_item := (w_item w)(i := f (w_item w i))\<rparr>"

definition isRoot :: "WORLD \<Rightarrow> nat \<Rightarrow> bool" where
  "isRoot w n \<longleftrightarrow> m_parent (w_node w n) = None"

definition BelongsTo :: "WORLD \<Rightarrow> nat \<Rightarrow> nat \<Rightarrow> bool" where
  "BelongsTo w i n \<longleftrightarrow> m_owner (w_item w i) = OwnNode n"

definition SetOwner :: "OWNER \<Rightarrow> nat \<Rightarrow> WORLD \<Rightarrow> WORLD" where
  "SetOwner ow i = on_item i (\<lambda>x. x\<lparr>m_owner := ow\<rparr>)"

definition set_insert :: "nat \<Rightarrow> nat list \<Rightarrow> nat list" where
  "set_insert x xs = (if x \<in> set xs then xs else xs @ [x])"

definition items_of :: "WORLD \<Rightarrow> nat \<Rightarrow> nat list" where
  "items_of w n = m_allItems (m_index (w_node w n))"

definition Overrides :: "WORLD \<Rightarrow> nat \<Rightarrow> nat \<Rightarrow> bool" where
  "Overrides w n i \<longleftrightarrow> i \<in> set (m_override (w_node w n))"

text \<open>A new root, alone in the world.\<close>

definition world_of :: "(nat \<Rightarrow> ITEM) \<Rightarrow> WORLD" where
  "world_of it = \<lparr>w_item = it, w_node = NODE_new, w_live = [0], w_freed = [], w_new = 1\<rparr>"

definition Branch :: "nat \<Rightarrow> WORLD \<Rightarrow> nat \<times> WORLD" where
  "Branch this w =
    (let c = w_new w; p = w_node w this;
         child = (NODE_new c)\<lparr>m_depth := m_depth p + 1, m_parent := Some this,
            m_root := (if isRoot w this then this else m_root p), m_maxClearance := m_maxClearance p\<rparr>;
         child = (if isRoot w this then child
           else child\<lparr>m_index := foldl (\<lambda>ix item. INDEX_Add (w_item w) item ix) INDEX_empty (m_allItems (m_index p)),
                      m_joints := m_joints p, m_override := m_override p\<rparr>);
         w = on_node this (\<lambda>p. p\<lparr>m_children := set_insert c (m_children p)\<rparr>) w
     in (c, w\<lparr>w_node := (w_node w)(c := child), w_live := w_live w @ [c], w_new := c + 1\<rparr>))"

subsection \<open>Joints of a node\<close>

definition FindJoint :: "WORLD \<Rightarrow> nat \<Rightarrow> VECTOR2I \<Rightarrow> int \<Rightarrow> nat \<Rightarrow> JOINT option" where
  "FindJoint w n aPos aLayer aNet =
    (let tag = (aPos, aNet);
         f = joints_from (m_joints (w_node w n)) tag;
         f = (if f = [] \<and> \<not> isRoot w n then joints_from (m_joints (w_node w (m_root (w_node w n)))) tag else f)
     in List.find (\<lambda>j. LR_Overlaps_layer (jt_layers j) aLayer) f)"

text \<open>
  \<open>touchJoint\<close> and the change made through the reference it returns; \<open>local_group\<close> is the group it
  finds or copies from the root.
\<close>

definition local_group :: "WORLD \<Rightarrow> nat \<Rightarrow> HASH_TAG \<Rightarrow> JOINT list" where
  "local_group w n tag =
    (let g = group (m_joints (w_node w n)) tag in
     if g = [] \<and> \<not> isRoot w n then group (m_joints (w_node w (m_root (w_node w n)))) tag else g)"

definition touchJoint :: "VECTOR2I \<Rightarrow> LAYER_RANGE \<Rightarrow> nat \<Rightarrow> (JOINT \<Rightarrow> JOINT) \<Rightarrow> nat \<Rightarrow> WORLD \<Rightarrow> WORLD" where
  "touchJoint aPos aLayers aNet f n w =
    (let (jt, rest) = absorb aLayers (JOINT_of aPos aLayers aNet) (local_group w n (aPos, aNet))
     in on_node n (\<lambda>x. x\<lparr>m_joints := set_group (aPos, aNet) (rest @ [f jt]) (m_joints x)\<rparr>) w)"

definition linkJoint :: "VECTOR2I \<Rightarrow> LAYER_RANGE \<Rightarrow> nat \<Rightarrow> nat \<Rightarrow> nat \<Rightarrow> WORLD \<Rightarrow> WORLD" where
  "linkJoint aPos aLayers aNet aWhere = touchJoint aPos aLayers aNet (JT_Link aWhere)"

definition unlinkJoint :: "VECTOR2I \<Rightarrow> LAYER_RANGE \<Rightarrow> nat \<Rightarrow> nat \<Rightarrow> nat \<Rightarrow> WORLD \<Rightarrow> WORLD" where
  "unlinkJoint aPos aLayers aNet aWhere = touchJoint aPos aLayers aNet (JT_Unlink aWhere)"

definition LockJoint :: "VECTOR2I \<Rightarrow> nat \<Rightarrow> bool \<Rightarrow> nat \<Rightarrow> WORLD \<Rightarrow> WORLD" where
  "LockJoint aPos aItem aLock n w =
    touchJoint aPos (m_layers (w_item w aItem)) (m_net (w_item w aItem)) (\<lambda>j. j\<lparr>jt_locked := aLock\<rparr>) n w"

definition rebuildJoint :: "JOINT \<Rightarrow> nat \<Rightarrow> nat \<Rightarrow> WORLD \<Rightarrow> WORLD" where
  "rebuildJoint aJoint aItem n w =
    (let net = m_net (w_item w aItem); tag = (jt_pos aJoint, net);
         g = filter (\<lambda>f. \<not> LR_Overlaps (m_layers (w_item w aItem)) (jt_layers f)) (group (m_joints (w_node w n)) tag);
         w = on_node n (\<lambda>x. x\<lparr>m_joints := set_group tag g (m_joints x)\<rparr>) w
     in foldl (\<lambda>w link. if link \<noteq> aItem then linkJoint (jt_pos aJoint) (m_layers (w_item w link)) net link n w else w)
          w (jt_links aJoint))"

subsection \<open>Adding\<close>

definition on_index :: "nat \<Rightarrow> (INDEX \<Rightarrow> INDEX) \<Rightarrow> WORLD \<Rightarrow> WORLD" where
  "on_index n f = on_node n (\<lambda>x. x\<lparr>m_index := f (m_index x)\<rparr>)"

definition addToIndex :: "nat \<Rightarrow> nat \<Rightarrow> WORLD \<Rightarrow> WORLD" where
  "addToIndex i n w = on_index n (INDEX_Add (w_item w) i) w"

definition removeFromIndex :: "nat \<Rightarrow> nat \<Rightarrow> WORLD \<Rightarrow> WORLD" where
  "removeFromIndex i n w = on_index n (INDEX_Remove (w_item w) i) w"

definition linkAt :: "VECTOR2I \<Rightarrow> nat \<Rightarrow> nat \<Rightarrow> WORLD \<Rightarrow> WORLD" where
  "linkAt p i n w = linkJoint p (m_layers (w_item w i)) (m_net (w_item w i)) i n w"

definition unlinkAt :: "VECTOR2I \<Rightarrow> nat \<Rightarrow> nat \<Rightarrow> WORLD \<Rightarrow> WORLD" where
  "unlinkAt p i n w = unlinkJoint p (m_layers (w_item w i)) (m_net (w_item w i)) i n w"

text \<open>\<open>addSegment\<close> and \<open>addArc\<close>\<close>

definition addSegment :: "nat \<Rightarrow> nat \<Rightarrow> WORLD \<Rightarrow> WORLD" where
  "addSegment i n w =
    (let it = w_item w i; w = SetOwner (OwnNode n) i w; w = linkAt (anchor0 it) i n w; w = linkAt (anchor1 it) i n w
     in addToIndex i n w)"

definition addHole :: "nat \<Rightarrow> nat \<Rightarrow> WORLD \<Rightarrow> WORLD" where
  "addHole h n w = addToIndex h n (SetOwner (OwnNode n) h w)"

definition addVia :: "nat \<Rightarrow> nat \<Rightarrow> WORLD \<Rightarrow> WORLD" where
  "addVia i n w =
    (let it = w_item w i; w = (case m_hole it of Some h \<Rightarrow> addHole h n w | None \<Rightarrow> w);
         w = linkAt (anchor0 it) i n w
     in addToIndex i n (SetOwner (OwnNode n) i w))"

definition addSolid :: "nat \<Rightarrow> nat \<Rightarrow> WORLD \<Rightarrow> WORLD" where
  "addSolid i n w =
    (let it = w_item w i; w = (case m_hole it of Some h \<Rightarrow> addHole h n w | None \<Rightarrow> w);
         w = (if m_routable it then linkAt (anchor0 it) i n w else w)
     in addToIndex i n (SetOwner (OwnNode n) i w))"

definition NODE_add :: "nat \<Rightarrow> nat \<Rightarrow> WORLD \<Rightarrow> WORLD" where
  "NODE_add i n w =
    (case m_kind (w_item w i) of
       ARC_T \<Rightarrow> addSegment i n w
     | SEGMENT_T \<Rightarrow> addSegment i n w
     | VIA_T \<Rightarrow> addVia i n w
     | SOLID_T \<Rightarrow> addSolid i n w
     | _ \<Rightarrow> w)"

definition findRedundant :: "PnsKind \<Rightarrow> VECTOR2I \<Rightarrow> VECTOR2I \<Rightarrow> LAYER_RANGE \<Rightarrow> nat \<Rightarrow> nat \<Rightarrow> WORLD \<Rightarrow> nat option" where
  "findRedundant k A B lr aNet n w =
    (case FindJoint w n A (m_start lr) aNet of
       None \<Rightarrow> None
     | Some jtStart \<Rightarrow> List.find (\<lambda>i. let x = w_item w i in m_kind x = k \<and> m_start (m_layers x) = m_start lr \<and>
         ((A = anchor0 x \<and> B = anchor1 x) \<or> (A = anchor1 x \<and> B = anchor0 x))) (jt_links jtStart))"

definition findRedundantSegment :: "nat \<Rightarrow> nat \<Rightarrow> WORLD \<Rightarrow> nat option" where
  "findRedundantSegment i n w =
    (let x = w_item w i in findRedundant SEGMENT_T (anchor0 x) (anchor1 x) (m_layers x) (m_net x) n w)"

definition findRedundantArc :: "nat \<Rightarrow> nat \<Rightarrow> WORLD \<Rightarrow> nat option" where
  "findRedundantArc i n w =
    (let x = w_item w i in findRedundant ARC_T (anchor0 x) (anchor1 x) (m_layers x) (m_net x) n w)"

definition Add_segment :: "nat \<Rightarrow> bool \<Rightarrow> nat \<Rightarrow> WORLD \<Rightarrow> bool \<times> WORLD" where
  "Add_segment i aAllowRedundant n w =
    (if anchor0 (w_item w i) = anchor1 (w_item w i) then (False, w)
     else if \<not> aAllowRedundant \<and> findRedundantSegment i n w \<noteq> None then (False, w)
     else (True, addSegment i n w))"

definition Add_arc :: "nat \<Rightarrow> bool \<Rightarrow> nat \<Rightarrow> WORLD \<Rightarrow> bool \<times> WORLD" where
  "Add_arc i aAllowRedundant n w =
    (if \<not> aAllowRedundant \<and> findRedundantArc i n w \<noteq> None then (False, w) else (True, addSegment i n w))"

definition Add_via :: "nat \<Rightarrow> nat \<Rightarrow> WORLD \<Rightarrow> WORLD" where
  "Add_via i n w = addVia i n w"

definition Add_solid :: "nat \<Rightarrow> nat \<Rightarrow> WORLD \<Rightarrow> WORLD" where
  "Add_solid i n w = addSolid i n (SetOwner (OwnNode n) i w)"

subsection \<open>Removing\<close>

definition doRemove :: "nat \<Rightarrow> nat \<Rightarrow> WORLD \<Rightarrow> WORLD" where
  "doRemove i n w =
    (let r = m_root (w_node w n); hole = m_hole (w_item w i);
         w = (if BelongsTo w i r \<and> \<not> isRoot w n then
                on_node n (\<lambda>x. x\<lparr>m_override :=
                  (case hole of Some h \<Rightarrow> set_insert h | None \<Rightarrow> id) (set_insert i (m_override x))\<rparr>) w
              else if \<not> BelongsTo w i r \<or> isRoot w n then
                (case hole of Some h \<Rightarrow> removeFromIndex h n | None \<Rightarrow> id) (removeFromIndex i n w)
              else w)
     in if BelongsTo w i n then
          (let w = SetOwner NoOwner i w;
               w = on_node r (\<lambda>x. x\<lparr>m_garbageItems := set_insert i (m_garbageItems x)\<rparr>) w
           in (case hole of Some h \<Rightarrow> SetOwner (OwnItem i) h (removeFromIndex h n w) | None \<Rightarrow> w))
        else w)"

definition removeSegmentIndex :: "nat \<Rightarrow> nat \<Rightarrow> WORLD \<Rightarrow> WORLD" where
  "removeSegmentIndex i n w = unlinkAt (anchor1 (w_item w i)) i n (unlinkAt (anchor0 (w_item w i)) i n w)"

definition removeViaIndex :: "nat \<Rightarrow> nat \<Rightarrow> WORLD \<Rightarrow> WORLD option" where
  "removeViaIndex i n w =
    (let x = w_item w i in
     case FindJoint w n (anchor0 x) (m_start (m_layers x)) (m_net x) of
       None \<Rightarrow> None
     | Some jt \<Rightarrow> Some (rebuildJoint jt i n w))"

definition removeSolidIndex :: "nat \<Rightarrow> nat \<Rightarrow> WORLD \<Rightarrow> WORLD option" where
  "removeSolidIndex i n w = (if \<not> m_routable (w_item w i) then Some w else removeViaIndex i n w)"

definition Remove_segment :: "nat \<Rightarrow> nat \<Rightarrow> WORLD \<Rightarrow> WORLD" where
  "Remove_segment i n w = doRemove i n (removeSegmentIndex i n w)"

definition Remove_via :: "nat \<Rightarrow> nat \<Rightarrow> WORLD \<Rightarrow> WORLD option" where
  "Remove_via i n w = map_option (doRemove i n) (removeViaIndex i n w)"

definition Remove_solid :: "nat \<Rightarrow> nat \<Rightarrow> WORLD \<Rightarrow> WORLD option" where
  "Remove_solid i n w = map_option (doRemove i n) (removeSolidIndex i n w)"

text \<open>
  \<open>Remove( ITEM* )\<close>. Removing the hole itself is the empty default case. A line is not an item of the
  world here; it is removed by its links.
\<close>

definition NODE_Remove :: "nat \<Rightarrow> nat \<Rightarrow> WORLD \<Rightarrow> WORLD option" where
  "NODE_Remove i n w =
    (let own = (case m_hole (w_item w i) of Some h \<Rightarrow> SetOwner (OwnItem i) h | None \<Rightarrow> id) in
     case m_kind (w_item w i) of
       ARC_T \<Rightarrow> Some (Remove_segment i n w)
     | SOLID_T \<Rightarrow> Remove_solid i n (own w)
     | SEGMENT_T \<Rightarrow> Some (Remove_segment i n w)
     | VIA_T \<Rightarrow> Remove_via i n (own w)
     | _ \<Rightarrow> Some w)"

definition Remove_links :: "nat list \<Rightarrow> nat \<Rightarrow> WORLD \<Rightarrow> WORLD" where
  "Remove_links links n w = foldl (\<lambda>w i. if is_line_kind (w_item w i) then Remove_segment i n w else w) w links"

definition NODE_Replace :: "nat \<Rightarrow> nat \<Rightarrow> nat \<Rightarrow> WORLD \<Rightarrow> WORLD option" where
  "NODE_Replace aOldItem aNewItem n w = map_option (NODE_add aNewItem n) (NODE_Remove aOldItem n w)"

fun Remove_all :: "nat list \<Rightarrow> nat \<Rightarrow> WORLD \<Rightarrow> WORLD option" where
  "Remove_all [] n w = Some w"
| "Remove_all (i # is) n w = (case NODE_Remove i n w of None \<Rightarrow> None | Some w \<Rightarrow> Remove_all is n w)"

definition RemoveByMarker :: "int \<Rightarrow> nat \<Rightarrow> WORLD \<Rightarrow> WORLD option" where
  "RemoveByMarker aMarker n w = Remove_all (filter (\<lambda>i. m_marker (w_item w i) AND aMarker \<noteq> 0) (items_of w n)) n w"

definition ClearRanks :: "int \<Rightarrow> nat \<Rightarrow> WORLD \<Rightarrow> WORLD" where
  "ClearRanks aMarkerMask n w =
    foldl (\<lambda>w i. on_item i (\<lambda>x. x\<lparr>m_rank := - 1, m_marker := m_marker x AND NOT aMarkerMask\<rparr>) w) w (items_of w n)"

subsection \<open>Committing and deleting\<close>

text \<open>What deleting an item frees: the destructors of a solid and of a via that owns its hole delete the hole too.\<close>

definition freed_with :: "WORLD \<Rightarrow> nat \<Rightarrow> nat list" where
  "freed_with w i =
    (let x = w_item w i in
     i # (case m_hole x of None \<Rightarrow> []
          | Some h \<Rightarrow> if m_kind x = SOLID_T \<or> m_kind x = VIA_T \<and> m_owner (w_item w h) = OwnItem i then [h] else []))"

definition releaseGarbage :: "nat \<Rightarrow> WORLD \<Rightarrow> WORLD" where
  "releaseGarbage n w =
    (if \<not> isRoot w n then w
     else (let w' = w\<lparr>w_freed := w_freed w @ concat (map (freed_with w) (filter (\<lambda>i. \<not> BelongsTo w i n) (m_garbageItems (w_node w n))))\<rparr>
           in on_node n (\<lambda>x. x\<lparr>m_garbageItems := []\<rparr>) w'))"

definition unlinkParent :: "nat \<Rightarrow> WORLD \<Rightarrow> WORLD" where
  "unlinkParent n w =
    (case m_parent (w_node w n) of None \<Rightarrow> w
     | Some p \<Rightarrow> on_node p (\<lambda>x. x\<lparr>m_children := removeAll n (m_children x)\<rparr>) w)"

text \<open>The destructor. A hole has no hole, so that deleting the holes of the node frees nothing else.\<close>

definition delete_node :: "nat \<Rightarrow> WORLD \<Rightarrow> WORLD" where
  "delete_node n w =
    (let holes = filter (\<lambda>i. BelongsTo w i n \<and> m_kind (w_item w i) = HOLE_T) (items_of w n);
         w = unlinkParent n (releaseGarbage n (w\<lparr>w_freed := w_freed w @ holes\<rparr>))
     in w\<lparr>w_live := removeAll n (w_live w)\<rparr>)"

text \<open>
  The recursion goes from a node to nodes that were allocated after it, so the number of nodes
  allocated so far is fuel enough.
\<close>

fun releaseChildren_fuel :: "nat \<Rightarrow> nat \<Rightarrow> WORLD \<Rightarrow> WORLD option" where
  "releaseChildren_fuel 0 n w = None"
| "releaseChildren_fuel (Suc fuel) n w =
    foldl (\<lambda>ow kid. case ow of None \<Rightarrow> None
      | Some w \<Rightarrow> map_option (delete_node kid) (releaseChildren_fuel fuel kid w)) (Some w) (m_children (w_node w n))"

definition releaseChildren :: "nat \<Rightarrow> WORLD \<Rightarrow> WORLD option" where
  "releaseChildren n w = releaseChildren_fuel (w_new w + 1) n w"

definition KillChildren :: "nat \<Rightarrow> WORLD \<Rightarrow> WORLD option" where
  "KillChildren n w = releaseChildren n w"

definition commit_item :: "nat \<Rightarrow> nat \<Rightarrow> WORLD \<Rightarrow> WORLD" where
  "commit_item this i w =
    (let w = (case m_hole (w_item w i) of Some h \<Rightarrow> SetOwner (OwnItem i) h w | None \<Rightarrow> w);
         w = on_item i (\<lambda>x. x\<lparr>m_rank := - 1, m_marker := 0\<rparr>) w
     in NODE_add i this w)"

definition Commit :: "nat \<Rightarrow> nat \<Rightarrow> WORLD \<Rightarrow> WORLD option" where
  "Commit this aNode w =
    (if isRoot w aNode then Some w
     else (case Remove_all (m_override (w_node w aNode)) this w of
        None \<Rightarrow> None
      | Some w' \<Rightarrow> map_option (releaseGarbage this)
          (releaseChildren this (foldl (\<lambda>w i. commit_item this i w) w' (items_of w' aNode)))))"

subsection \<open>Queries\<close>

definition GetUpdatedItems :: "WORLD \<Rightarrow> nat \<Rightarrow> nat list \<times> nat list" where
  "GetUpdatedItems w n = (if isRoot w n then ([], []) else (m_override (w_node w n), items_of w n))"

definition AllItemsInNet :: "WORLD \<Rightarrow> nat \<Rightarrow> nat \<Rightarrow> int \<Rightarrow> nat list" where
  "AllItemsInNet w n aNet aKindMask =
    (let ok = (\<lambda>i. OfKind (w_item w i) aKindMask \<and> m_routable (w_item w i));
         cur = (case GetItemsForNet (m_index (w_node w n)) aNet of None \<Rightarrow> [] | Some l \<Rightarrow> filter ok l);
         root = (if isRoot w n then []
           else (case GetItemsForNet (m_index (w_node w (m_root (w_node w n)))) aNet of None \<Rightarrow> []
             | Some l \<Rightarrow> filter (\<lambda>i. \<not> Overrides w n i \<and> ok i) l))
     in remdups (cur @ root))"

definition FindItemByParent :: "WORLD \<Rightarrow> nat \<Rightarrow> nat \<Rightarrow> nat \<Rightarrow> nat option" where
  "FindItemByParent w n aParent aParentNet =
    (case GetItemsForNet (m_index (w_node w n)) aParentNet of None \<Rightarrow> None
     | Some l \<Rightarrow> List.find (\<lambda>i. m_board_item (w_item w i) = aParent) l)"

definition FindItemsByZone :: "WORLD \<Rightarrow> nat \<Rightarrow> nat \<Rightarrow> nat list" where
  "FindItemsByZone w n aParent = filter (\<lambda>i. m_board_item (w_item w i) = aParent) (items_of w n)"

definition QueryJoints :: "WORLD \<Rightarrow> nat \<Rightarrow> BOX2 \<Rightarrow> LAYER_RANGE \<Rightarrow> int \<Rightarrow> JOINT list" where
  "QueryJoints w n aBox aLayerMask aKindMask =
    (let ok = (\<lambda>j. LR_Overlaps (jt_layers j) aLayerMask \<and> BOX2_Contains aBox (jt_pos j) \<and>
           LinkCount (w_item w) j aKindMask \<noteq> 0);
         all = (\<lambda>m. concat (map snd (m_joints (w_node w m))))
     in filter ok (all n) @ (if isRoot w n then [] else filter ok (all (m_root (w_node w n)))))"

end
