(* ===== verification/Router_Joints.thy ===== *)
theory Router_Joints
  imports Router_World
begin

text \<open>
  The lemmas about the two stores of a node of the router's world: in the map of joints the joints of
  one position and net never overlap and link exactly the items they should (\<open>exact\<close>); the index has
  every item on each of its layers and in the list of its net (\<open>index_ok\<close>).
\<close>

subsection \<open>Layer ranges as sets of layers\<close>

definition lrs :: "LAYER_RANGE \<Rightarrow> int set" where
  "lrs a = {m_start a..m_end a}"

definition valid_layers :: "LAYER_RANGE \<Rightarrow> bool" where
  "valid_layers a \<longleftrightarrow> 0 \<le> m_start a \<and> m_start a \<le> m_end a"

lemma lrs_nonempty: "valid_layers a \<Longrightarrow> lrs a \<noteq> {}"
  by (simp add: valid_layers_def lrs_def)

lemma LR_Overlaps_iff: "valid_layers a \<Longrightarrow> valid_layers b \<Longrightarrow> LR_Overlaps a b \<longleftrightarrow> lrs a \<inter> lrs b \<noteq> {}"
  by (auto simp: valid_layers_def lrs_def LR_Overlaps_def)

lemma LR_Overlaps_layer_iff: "LR_Overlaps_layer a l \<longleftrightarrow> l \<in> lrs a"
  by (auto simp: lrs_def LR_Overlaps_layer_def)

lemma LR_Merge_valid: "valid_layers a \<Longrightarrow> valid_layers b \<Longrightarrow> valid_layers (LR_Merge a b)"
  by (auto simp: valid_layers_def LR_Merge_def)

lemma LR_Merge_lrs:
  "valid_layers a \<Longrightarrow> valid_layers b \<Longrightarrow> LR_Overlaps a b \<Longrightarrow> lrs (LR_Merge a b) = lrs a \<union> lrs b"
  by (auto simp: valid_layers_def LR_Merge_def lrs_def LR_Overlaps_def)

subsection \<open>The multimap\<close>

lemma group_set_group: "group (set_group tag g m) t = (if t = tag then g else group m t)"
proof -
  have "map_of (filter (\<lambda>e. fst e \<noteq> tag) m) tag = None" by (induction m) auto
  moreover have "t \<noteq> tag \<Longrightarrow> map_of (filter (\<lambda>e. fst e \<noteq> tag) m) t = map_of m t" by (induction m) auto
  ultimately show ?thesis by (cases "t = tag") (simp_all add: group_def set_group_def update_conv')
qed

lemma joints_from_group: "group m tag \<noteq> [] \<Longrightarrow> \<exists>more. joints_from m tag = group m tag @ more"
  by (induction m) (auto simp: group_def joints_from_def)

lemma find_append_Some: "\<exists>x\<in>set xs. P x \<Longrightarrow> List.find P (xs @ ys) = List.find P xs"
  by (induction xs) auto

lemma find_eq_filter: "List.find P xs = (case filter P xs of [] \<Rightarrow> None | x # _ \<Rightarrow> Some x)"
  by (induction xs) auto

lemma absorb_eq:
  "absorb l jt g = (foldl JT_Merge jt (filter (\<lambda>f. LR_Overlaps l (jt_layers f)) g),
                    filter (\<lambda>f. \<not> LR_Overlaps l (jt_layers f)) g)"
proof (induction l jt g rule: absorb.induct)
  case (1 l jt g)
  let ?P = "\<lambda>f. LR_Overlaps l (jt_layers f)"
  show ?case
  proof (cases "List.find ?P g")
    case None
    then have "filter ?P g = []" by (auto simp: find_None_iff filter_empty_conv)
    moreover have "filter (\<lambda>f. \<not> ?P f) g = g" using None by (auto simp: find_None_iff filter_id_conv)
    ultimately show ?thesis using None by (simp add: absorb.simps [of l jt g])
  next
    case (Some f)
    then obtain us vs where g: "g = us @ f # vs" "?P f" "\<forall>u\<in>set us. \<not> ?P u"
      by (metis (no_types, lifting) find_Some_iff id_take_nth_drop in_set_conv_nth length_take min.absorb2 nat_less_le nth_take)
    then have r: "remove1 f g = us @ vs" by (auto simp: remove1_append)
    have u: "filter ?P us = []" "filter (\<lambda>f. \<not> ?P f) us = us" using g by (auto simp: filter_empty_conv filter_id_conv)
    have "absorb l jt g = absorb l (JT_Merge jt f) (us @ vs)" using Some r by (subst absorb.simps) simp
    then show ?thesis using 1 [OF Some] unfolding r by (simp add: g u)
  qed
qed

text \<open>
  The joints of one tag: valid layers, no two overlapping.
\<close>

definition apart :: "JOINT list \<Rightarrow> bool" where
  "apart g = sorted_wrt (\<lambda>a b. \<not> LR_Overlaps (jt_layers a) (jt_layers b)) g"

definition group_ok :: "HASH_TAG \<Rightarrow> JOINT list \<Rightarrow> bool" where
  "group_ok tag g \<longleftrightarrow> (\<forall>j\<in>set g. jt_pos j = fst tag \<and> jt_net j = snd tag \<and> valid_layers (jt_layers j)) \<and> apart g"

lemma apart_snoc: "apart (g @ [j]) \<longleftrightarrow> apart g \<and> (\<forall>f\<in>set g. \<not> LR_Overlaps (jt_layers f) (jt_layers j))"
  by (auto simp: apart_def sorted_wrt_append)

lemma apart_filter: "apart g \<Longrightarrow> apart (filter P g)"
  by (simp add: apart_def sorted_wrt_filter)

lemma LR_Overlaps_sym: "LR_Overlaps a b \<longleftrightarrow> LR_Overlaps b a"
  by (auto simp: LR_Overlaps_def)

lemma apart_common:
  assumes "apart g" "a \<in> set g" "b \<in> set g" "LR_Overlaps (jt_layers a) (jt_layers b)"
  shows "a = b"
  using assms
proof (induction g)
  case (Cons x g)
  then show ?case by (auto simp: apart_def LR_Overlaps_sym)
qed simp

lemma merge_all:
  assumes "\<And>f. f \<in> set fs \<Longrightarrow> jt_pos f = jt_pos jt \<and> jt_net f = jt_net jt \<and> valid_layers (jt_layers f) \<and> LR_Overlaps l (jt_layers f)"
    and "valid_layers l" "valid_layers (jt_layers jt)" "lrs l \<subseteq> lrs (jt_layers jt)"
  shows "let j = foldl JT_Merge jt fs in jt_pos j = jt_pos jt \<and> jt_net j = jt_net jt \<and> valid_layers (jt_layers j) \<and>
    lrs (jt_layers j) = lrs (jt_layers jt) \<union> (\<Union>f\<in>set fs. lrs (jt_layers f)) \<and>
    jt_links j = jt_links jt @ concat (map jt_links fs)"
  using assms
proof (induction fs arbitrary: jt)
  case (Cons f fs)
  have f: "jt_pos f = jt_pos jt" "jt_net f = jt_net jt" "valid_layers (jt_layers f)" "LR_Overlaps l (jt_layers f)"
    using Cons.prems(1) [of f] by simp_all
  have ov: "LR_Overlaps (jt_layers jt) (jt_layers f)"
    using f Cons.prems(2,3,4) by (auto simp: LR_Overlaps_iff)
  let ?j = "JT_Merge jt f"
  have j: "jt_pos ?j = jt_pos jt" "jt_net ?j = jt_net jt" "jt_links ?j = jt_links jt @ jt_links f"
      "jt_layers ?j = LR_Merge (jt_layers jt) (jt_layers f)"
    using f ov by (simp_all add: JT_Merge_def JT_Overlaps_def)
  have lr: "lrs (jt_layers ?j) = lrs (jt_layers jt) \<union> lrs (jt_layers f)" "valid_layers (jt_layers ?j)"
    unfolding j(4) using LR_Merge_lrs LR_Merge_valid ov f Cons.prems(3) by blast+
  have "let J = foldl JT_Merge ?j fs in jt_pos J = jt_pos ?j \<and> jt_net J = jt_net ?j \<and> valid_layers (jt_layers J) \<and>
      lrs (jt_layers J) = lrs (jt_layers ?j) \<union> (\<Union>f\<in>set fs. lrs (jt_layers f)) \<and>
      jt_links J = jt_links ?j @ concat (map jt_links fs)"
  proof (rule Cons.IH)
    show "jt_pos x = jt_pos ?j \<and> jt_net x = jt_net ?j \<and> valid_layers (jt_layers x) \<and> LR_Overlaps l (jt_layers x)"
      if "x \<in> set fs" for x using Cons.prems(1) [of x] that j by simp
    show "lrs l \<subseteq> lrs (jt_layers ?j)" using Cons.prems(4) lr(1) by blast
    show "valid_layers l" by (rule Cons.prems(2))
    show "valid_layers (jt_layers ?j)" by (rule lr(2))
  qed
  then show ?case by (simp add: Let_def j(1-3) lr(1) [unfolded j(4)] j(4) Un_assoc)
qed (simp add: Let_def)

lemma touched_group:
  assumes "group_ok (p, net) g" "valid_layers l" "absorb l (JOINT_of p l net) g = (jt, rest)"
    and "\<And>j. jt_pos (f j) = jt_pos j \<and> jt_net (f j) = jt_net j \<and> jt_layers (f j) = jt_layers j"
  shows "group_ok (p, net) (rest @ [f jt])" "lrs l \<subseteq> lrs (jt_layers jt)"
    "jt_links jt = concat (map jt_links (filter (\<lambda>f. LR_Overlaps l (jt_layers f)) g))"
    "rest = filter (\<lambda>f. \<not> LR_Overlaps l (jt_layers f)) g"
    "\<forall>f\<in>set g. LR_Overlaps l (jt_layers f) \<longrightarrow> lrs (jt_layers f) \<subseteq> lrs (jt_layers jt)"
proof -
  let ?fs = "filter (\<lambda>f. LR_Overlaps l (jt_layers f)) g"
  have jt: "jt = foldl JT_Merge (JOINT_of p l net) ?fs"
    and rest: "rest = filter (\<lambda>f. \<not> LR_Overlaps l (jt_layers f)) g"
    using assms(3) by (simp_all add: absorb_eq)
  have ok: "jt_pos j = p" "jt_net j = net" "valid_layers (jt_layers j)" if "j \<in> set g" for j
    using assms(1) that by (simp_all add: group_ok_def)
  have M: "jt_pos jt = p" "jt_net jt = net" "valid_layers (jt_layers jt)"
      "lrs (jt_layers jt) = lrs l \<union> (\<Union>f\<in>set ?fs. lrs (jt_layers f))" "jt_links jt = concat (map jt_links ?fs)"
    using merge_all [of ?fs "JOINT_of p l net" l] ok assms(2) unfolding jt Let_def by (simp_all add: JOINT_of_def)
  show "lrs l \<subseteq> lrs (jt_layers jt)" unfolding M(4) by blast
  show "jt_links jt = concat (map jt_links ?fs)" by (rule M(5))
  show "\<forall>f\<in>set g. LR_Overlaps l (jt_layers f) \<longrightarrow> lrs (jt_layers f) \<subseteq> lrs (jt_layers jt)"
    unfolding M(4) by auto
  show "rest = filter (\<lambda>f. \<not> LR_Overlaps l (jt_layers f)) g" by (rule rest)
  have "\<not> LR_Overlaps (jt_layers r) (jt_layers (f jt))" if "r \<in> set rest" for r
  proof -
    have r: "r \<in> set g" "\<not> LR_Overlaps l (jt_layers r)" using that rest by auto
    have "lrs (jt_layers r) \<inter> lrs (jt_layers x) = {}" if "x \<in> set ?fs" for x
      using apart_common [of g r x] r that assms(1) ok by (auto simp: group_ok_def LR_Overlaps_iff)
    moreover have "lrs (jt_layers r) \<inter> lrs l = {}" using r ok assms(2) by (auto simp: LR_Overlaps_iff)
    ultimately have "lrs (jt_layers r) \<inter> lrs (jt_layers jt) = {}" using M(4) by auto
    then show ?thesis using r ok M(3) assms(4) by (simp add: LR_Overlaps_iff)
  qed
  moreover have "apart rest" using assms(1) rest by (simp add: group_ok_def apart_filter)
  ultimately show "group_ok (p, net) (rest @ [f jt])"
    using M ok assms(4) rest by (auto simp: group_ok_def apart_snoc)
qed

subsection \<open>Joints that link exactly the items that end there\<close>

text \<open>
  \<open>K\<close> says which items should be linked where: a joint links only items that end at its position, on
  layers it has; and every such item is on a joint.
\<close>

definition exact :: "(nat \<Rightarrow> ITEM) \<Rightarrow> JOINT_MAP \<Rightarrow> (nat \<times> VECTOR2I) set \<Rightarrow> bool" where
  "exact it m K \<longleftrightarrow>
    (\<forall>tag. group_ok tag (group m tag)) \<and>
    (\<forall>tag. \<forall>j\<in>set (group m tag). distinct (jt_links j) \<and>
      (\<forall>i\<in>set (jt_links j). (i, fst tag) \<in> K \<and> m_net (it i) = snd tag \<and> lrs (m_layers (it i)) \<subseteq> lrs (jt_layers j))) \<and>
    (\<forall>(i, p)\<in>K. valid_layers (m_layers (it i)) \<and> (\<exists>j\<in>set (group m (p, m_net (it i))). i \<in> set (jt_links j)))"

lemma exactD:
  assumes "exact it m K"
  shows "group_ok tag (group m tag)"
    "j \<in> set (group m tag) \<Longrightarrow> distinct (jt_links j)"
    "j \<in> set (group m tag) \<Longrightarrow> i \<in> set (jt_links j) \<Longrightarrow>
      (i, fst tag) \<in> K \<and> m_net (it i) = snd tag \<and> lrs (m_layers (it i)) \<subseteq> lrs (jt_layers j)"
    "(i, p) \<in> K \<Longrightarrow> valid_layers (m_layers (it i)) \<and> (\<exists>j\<in>set (group m (p, m_net (it i))). i \<in> set (jt_links j))"
  using assms unfolding exact_def by (blast, blast, blast, fast)

lemma group_okD: "group_ok tag g \<Longrightarrow> j \<in> set g \<Longrightarrow> jt_pos j = fst tag \<and> jt_net j = snd tag \<and> valid_layers (jt_layers j)"
  by (simp add: group_ok_def)

text \<open>An item is on one joint of a position and net at most.\<close>

lemma exact_unique:
  assumes "exact it m K" "a \<in> set (group m tag)" "b \<in> set (group m tag)"
    "i \<in> set (jt_links a)" "LR_Overlaps (jt_layers b) (m_layers (it i))"
  shows "b = a"
proof -
  note ok = exactD(1) [OF assms(1), of tag]
  have v: "valid_layers (m_layers (it i))" "lrs (m_layers (it i)) \<subseteq> lrs (jt_layers a)"
    using exactD(3) [OF assms(1,2,4)] exactD(4) [OF assms(1)] by blast+
  then have "LR_Overlaps (jt_layers b) (jt_layers a)"
    using assms(5) group_okD [OF ok assms(2)] group_okD [OF ok assms(3)] by (auto simp: LR_Overlaps_iff)
  then show ?thesis using apart_common [of "group m tag" b a] ok assms(2,3) by (simp add: group_ok_def)
qed

lemma exact_cong:
  assumes "exact it m K" "\<And>t. group m' t = group m t" "\<And>i. m_net (it' i) = m_net (it i) \<and> m_layers (it' i) = m_layers (it i)"
  shows "exact it' m' K"
  using assms unfolding exact_def by simp

lemma distinct_links:
  assumes "apart g" "\<forall>j\<in>set g. valid_layers (jt_layers j) \<and> distinct (jt_links j) \<and>
      (\<forall>i\<in>set (jt_links j). L i \<noteq> {} \<and> L i \<subseteq> lrs (jt_layers j))"
  shows "distinct (concat (map jt_links (filter P g)))"
  using assms
proof (induction g)
  case (Cons j g)
  have "set (jt_links j) \<inter> set (jt_links f) = {}" if "f \<in> set g" for f
  proof -
    have "lrs (jt_layers j) \<inter> lrs (jt_layers f) = {}"
      using Cons.prems that by (auto simp: apart_def LR_Overlaps_iff)
    then show ?thesis using Cons.prems(2) that by fastforce
  qed
  then show ?case using Cons by (auto simp: apart_def)
qed simp

lemma exact_link:
  assumes ex: "exact it m K" and v: "valid_layers (m_layers (it i))"
    and ab: "absorb (m_layers (it i)) (JOINT_of p (m_layers (it i)) (m_net (it i))) (group m (p, m_net (it i))) = (jt, rest)"
    and f: "f = (if b then JT_Link i else JT_Unlink i)" "K' = (if b then insert (i, p) K else K - {(i, p)})"
  shows "exact it (set_group (p, m_net (it i)) (rest @ [f jt]) m) K'"
proof -
  let ?l = "m_layers (it i)" and ?tag = "(p, m_net (it i))"
  let ?g = "group m ?tag" and ?ov = "\<lambda>j. LR_Overlaps ?l (jt_layers j)"
  have fl: "jt_pos (f j) = jt_pos j \<and> jt_net (f j) = jt_net j \<and> jt_layers (f j) = jt_layers j" for j
    using f by (auto simp: JT_Link_def JT_Unlink_def)
  note T = touched_group [OF exactD(1) [OF ex] v ab fl]
  have inv: "\<forall>j\<in>set ?g. valid_layers (jt_layers j) \<and> distinct (jt_links j) \<and>
      (\<forall>i\<in>set (jt_links j). lrs (m_layers (it i)) \<noteq> {} \<and> lrs (m_layers (it i)) \<subseteq> lrs (jt_layers j))"
    using exactD(2,3) [OF ex] exactD(4) [OF ex] group_okD [OF exactD(1) [OF ex]] lrs_nonempty by meson
  have d: "distinct (jt_links jt)"
    unfolding T(3) by (rule distinct_links [OF _ inv]) (use exactD(1) [OF ex, of ?tag] in \<open>simp add: group_ok_def\<close>)
  have jl: "x \<in> set (jt_links jt) \<longleftrightarrow> (\<exists>j\<in>set ?g. ?ov j \<and> x \<in> set (jt_links j))" for x unfolding T(3) by auto
  have links: "set (jt_links (f jt)) = (if b then insert i (set (jt_links jt)) else set (jt_links jt) - {i})"
    and df: "distinct (jt_links (f jt))"
    using f d by (auto simp: JT_Link_def JT_Unlink_def)
  have old: "(x, p) \<in> K \<and> m_net (it x) = m_net (it i) \<and> lrs (m_layers (it x)) \<subseteq> lrs (jt_layers (f jt))"
    if "x \<in> set (jt_links jt)" for x
    using that exactD(3) [OF ex, of _ ?tag x] T(5) fl unfolding jl by fastforce
  have here: "j \<noteq> jt0" if "j \<in> set rest" "x = i" "x \<in> set (jt_links j)" for j x jt0
    using that exactD(3) [OF ex, of j ?tag i] T(4) LR_Overlaps_iff [OF v] inv lrs_nonempty [OF v] by fastforce
  have gone: "i \<notin> set (jt_links j)" if "j \<in> set rest" for j using here that by blast
  show ?thesis
    unfolding exact_def group_set_group
  proof (intro conjI allI ballI)
    fix tag
    show "group_ok tag (if tag = ?tag then rest @ [f jt] else group m tag)" using T(1) exactD(1) [OF ex] by simp
  next
    fix tag j
    assume j: "j \<in> set (if tag = ?tag then rest @ [f jt] else group m tag)"
    show "distinct (jt_links j)" using j df T(4) exactD(2) [OF ex] by (auto split: if_splits)
    fix x assume x: "x \<in> set (jt_links j)"
    have K': "(x, q) \<in> K \<Longrightarrow> (x, q) \<noteq> (i, p) \<Longrightarrow> (x, q) \<in> K'" for q using f by (auto split: if_splits)
    consider (new) "tag = ?tag" "j = f jt" | (rest) "tag = ?tag" "j \<in> set rest" | (other) "tag \<noteq> ?tag" "j \<in> set (group m tag)"
      using j by (auto split: if_splits)
    then have "(x, fst tag) \<in> K' \<and> m_net (it x) = snd tag \<and> lrs (m_layers (it x)) \<subseteq> lrs (jt_layers j)"
    proof cases
      case new
      have cs: "x = i \<and> b \<or> x \<in> set (jt_links jt) \<and> (x \<noteq> i \<or> b)"
        using x links new by (auto split: if_splits)
      have fj: "jt_layers (f jt) = jt_layers jt" using fl by blast
      have "(x, fst tag) \<in> K'" using cs old [of x] K' [of p] f(2) new(1) by (auto split: if_splits)
      moreover have "m_net (it x) = snd tag" using cs old [of x] new(1) by auto
      moreover have "lrs (m_layers (it x)) \<subseteq> lrs (jt_layers j)" using cs old [of x] T(2) new(2) fj by auto
      ultimately show ?thesis by blast
    next
      case rest
      then have g: "j \<in> set ?g" using T(4) by auto
      show ?thesis using exactD(3) [OF ex g x] gone rest x K' by auto
    next
      case other
      have "(x, fst tag) \<noteq> (i, p)" using exactD(3) [OF ex other(2) x] other(1) by (cases tag) auto
      then show ?thesis using exactD(3) [OF ex other(2) x] K' by auto
    qed
    then show "(x, fst tag) \<in> K'" "m_net (it x) = snd tag" "lrs (m_layers (it x)) \<subseteq> lrs (jt_layers j)" by blast+
  next
    fix xq assume "xq \<in> K'"
    moreover obtain x q where xq: "xq = (x, q)" by (rule prod.exhaust)
    ultimately have x: "(x, q) \<in> K \<and> (x, q) \<noteq> (i, p) \<or> (x, q) = (i, p) \<and> b" using f by (auto split: if_splits)
    have "valid_layers (m_layers (it x))" using x v exactD(4) [OF ex] by auto
    moreover have "\<exists>j\<in>set (if (q, m_net (it x)) = ?tag then rest @ [f jt] else group m (q, m_net (it x))). x \<in> set (jt_links j)"
    proof (cases "(x, q) = (i, p)")
      case True
      then show ?thesis using x links by auto
    next
      case False
      then obtain j where j: "j \<in> set (group m (q, m_net (it x)))" "x \<in> set (jt_links j)" using x exactD(4) [OF ex] by blast
      show ?thesis
      proof (cases "(q, m_net (it x)) = ?tag \<and> ?ov j")
        case True
        then have "x \<in> set (jt_links jt)" using j jl by auto
        moreover have "x \<noteq> i" using True False by auto
        ultimately show ?thesis using True links by (auto split: if_splits)
      qed (use j T(4) in auto)
    qed
    ultimately show "case xq of (x, q) \<Rightarrow> valid_layers (m_layers (it x)) \<and>
        (\<exists>j\<in>set (if (q, m_net (it x)) = ?tag then rest @ [f jt] else group m (q, m_net (it x))). x \<in> set (jt_links j))"
      unfolding xq by simp
  qed
qed

subsection \<open>Joints in the world\<close>

definition jset :: "nat \<Rightarrow> JOINT_MAP \<Rightarrow> WORLD \<Rightarrow> WORLD" where
  "jset n J w = on_node n (\<lambda>x. x\<lparr>m_joints := J\<rparr>) w"

abbreviation jmap :: "WORLD \<Rightarrow> nat \<Rightarrow> JOINT_MAP" where
  "jmap w n \<equiv> m_joints (w_node w n)"

lemma on_node_simps [simp]:
  "w_item (on_node n f w) = w_item w" "w_live (on_node n f w) = w_live w"
  "w_freed (on_node n f w) = w_freed w" "w_new (on_node n f w) = w_new w"
  "w_node (on_node n f w) k = (if k = n then f (w_node w n) else w_node w k)"
  by (auto simp: on_node_def)

lemma on_item_simps [simp]:
  "w_node (on_item i f w) = w_node w" "w_live (on_item i f w) = w_live w"
  "w_freed (on_item i f w) = w_freed w" "w_new (on_item i f w) = w_new w"
  "w_item (on_item i f w) k = (if k = i then f (w_item w i) else w_item w k)"
  by (auto simp: on_item_def)

lemma jset_jset [simp]: "jset n J (jset n J' w) = jset n J w"
  by (simp add: jset_def on_node_def)

lemma jset_same: "jset n (jmap w n) w = w"
  by (simp add: jset_def on_node_def fun_upd_idem)

lemma jset_simps [simp]:
  "w_item (jset n J w) = w_item w" "w_live (jset n J w) = w_live w" "w_freed (jset n J w) = w_freed w"
  "w_new (jset n J w) = w_new w" "jmap (jset n J w) n = J" "k \<noteq> n \<Longrightarrow> w_node (jset n J w) k = w_node w k"
  "m_parent (w_node (jset n J w) k) = m_parent (w_node w k)" "m_root (w_node (jset n J w) k) = m_root (w_node w k)"
  "m_children (w_node (jset n J w) k) = m_children (w_node w k)"
  "m_override (w_node (jset n J w) k) = m_override (w_node w k)"
  "m_index (w_node (jset n J w) k) = m_index (w_node w k)"
  "m_garbageItems (w_node (jset n J w) k) = m_garbageItems (w_node w k)"
  "isRoot (jset n J w) k = isRoot w k" "items_of (jset n J w) k = items_of w k"
  by (auto simp: jset_def isRoot_def items_of_def)

lemma local_group_root: "isRoot w n \<Longrightarrow> local_group w n tag = group (jmap w n) tag"
  by (simp add: local_group_def)

lemma touchJoint_jset: "\<exists>J. touchJoint p l net f n w = jset n J w"
  by (cases "absorb l (JOINT_of p l net) (local_group w n (p, net))") (auto simp: touchJoint_def jset_def on_node_def)

subsection \<open>Items that differ in what joints do not look at\<close>

definition geo :: "ITEM \<Rightarrow> PnsKind \<times> LAYER_RANGE \<times> nat \<times> VECTOR2I \<times> VECTOR2I \<times> nat option \<times> bool" where
  "geo x = (m_kind x, m_layers x, m_net x, anchor0 x, anchor1 x, m_hole x, m_routable x)"

definition same_geo :: "(nat \<Rightarrow> ITEM) \<Rightarrow> (nat \<Rightarrow> ITEM) \<Rightarrow> bool" where
  "same_geo it it' \<longleftrightarrow> (\<forall>i. geo (it' i) = geo (it i))"

lemma same_geoD:
  assumes "same_geo it it'"
  shows "m_kind (it' i) = m_kind (it i)" "m_layers (it' i) = m_layers (it i)" "m_net (it' i) = m_net (it i)"
    "anchor0 (it' i) = anchor0 (it i)" "anchor1 (it' i) = anchor1 (it i)" "m_hole (it' i) = m_hole (it i)"
    "m_routable (it' i) = m_routable (it i)"
  using assms by (simp_all add: same_geo_def geo_def)

lemma same_geo_refl: "same_geo it it"
  by (simp add: same_geo_def)

lemma same_geo_trans: "same_geo a b \<Longrightarrow> same_geo b c \<Longrightarrow> same_geo a c"
  by (simp add: same_geo_def)

lemma same_geo_exact: "same_geo it it' \<Longrightarrow> exact it m K \<Longrightarrow> exact it' m K"
  by (rule exact_cong) (auto simp: same_geoD)

definition same_joints :: "WORLD \<Rightarrow> WORLD \<Rightarrow> bool" where
  "same_joints w w' \<longleftrightarrow> (\<forall>k. m_parent (w_node w' k) = m_parent (w_node w k) \<and> m_root (w_node w' k) = m_root (w_node w k) \<and>
    jmap w' k = jmap w k)"

subsection \<open>Linking as an interface\<close>

text \<open>
  \<open>Q w K\<close>: the joints of the node \<open>n\<close> of \<open>w\<close> link the items and places \<open>K\<close>. What linking one item
  promises is enough for the loop that links a list of them.
\<close>

locale joint_links =
  fixes n :: nat and Q :: "WORLD \<Rightarrow> (nat \<times> VECTOR2I) set \<Rightarrow> bool"
  assumes frame: "Q w K \<Longrightarrow> same_geo (w_item w) (w_item w') \<Longrightarrow> same_joints w w' \<Longrightarrow> Q w' K"
    and touch: "Q w K \<Longrightarrow> valid_layers (m_layers (w_item w i)) \<Longrightarrow> net = m_net (w_item w i) \<Longrightarrow>
      \<exists>J. touchJoint p (m_layers (w_item w i)) net (if b then JT_Link i else JT_Unlink i) n w = jset n J w \<and>
        Q (jset n J w) (if b then insert (i, p) K else K - {(i, p)})"
begin

lemma link: "Q w K \<Longrightarrow> valid_layers (m_layers (w_item w i)) \<Longrightarrow> net = m_net (w_item w i) \<Longrightarrow>
    \<exists>J. linkJoint p (m_layers (w_item w i)) net i n w = jset n J w \<and> Q (jset n J w) (insert (i, p) K)"
  using touch [of w K i net p True] by (simp add: linkJoint_def)

lemma unlink: "Q w K \<Longrightarrow> valid_layers (m_layers (w_item w i)) \<Longrightarrow>
    \<exists>J. unlinkAt p i n w = jset n J w \<and> Q (jset n J w) (K - {(i, p)})"
  using touch [of w K i "m_net (w_item w i)" p False] by (simp add: unlinkJoint_def unlinkAt_def)

lemma relink:
  assumes "Q w K" "\<forall>x\<in>set xs. valid_layers (m_layers (w_item w x)) \<and> m_net (w_item w x) = net"
  shows "\<exists>J. foldl (\<lambda>w link. if link \<noteq> i then linkJoint p (m_layers (w_item w link)) net link n w else w) w xs = jset n J w \<and>
    Q (jset n J w) (K \<union> {(x, p) |x. x \<in> set xs \<and> x \<noteq> i})"
  using assms
proof (induction xs arbitrary: w K)
  case Nil
  then show ?case by (intro exI [of _ "jmap w n"]) (simp add: jset_same)
next
  case (Cons x xs)
  show ?case
  proof (cases "x = i")
    case True
    then have "K \<union> {(x', p) |x'. x' \<in> set (x # xs) \<and> x' \<noteq> i} = K \<union> {(x', p) |x'. x' \<in> set xs \<and> x' \<noteq> i}" by auto
    then show ?thesis using Cons True by simp
  next
    case False
    obtain J where J: "linkJoint p (m_layers (w_item w x)) net x n w = jset n J w" "Q (jset n J w) (insert (x, p) K)"
      using link [OF Cons.prems(1), of x net p] Cons.prems(2) by auto
    have "K \<union> {(x', p) |x'. x' \<in> set (x # xs) \<and> x' \<noteq> i} = insert (x, p) K \<union> {(x', p) |x'. x' \<in> set xs \<and> x' \<noteq> i}"
      using False by auto
    then show ?thesis using Cons.IH [OF J(2)] J Cons.prems False by simp
  qed
qed

end

lemma root_touch:
  assumes "isRoot w n" "exact (w_item w) (jmap w n) K" "valid_layers (m_layers (w_item w i))"
    and "net = m_net (w_item w i)"
  shows "\<exists>J. touchJoint p (m_layers (w_item w i)) net (if b then JT_Link i else JT_Unlink i) n w = jset n J w \<and>
    exact (w_item w) J (if b then insert (i, p) K else K - {(i, p)})"
proof -
  obtain jt rest where ab: "absorb (m_layers (w_item w i)) (JOINT_of p (m_layers (w_item w i)) net)
      (group (jmap w n) (p, net)) = (jt, rest)" by (rule prod.exhaust)
  have "touchJoint p (m_layers (w_item w i)) net (if b then JT_Link i else JT_Unlink i) n w =
      jset n (set_group (p, net) (rest @ [(if b then JT_Link i else JT_Unlink i) jt]) (jmap w n)) w"
    using assms(1) ab by (simp add: touchJoint_def local_group_root jset_def on_node_def)
  then show ?thesis using exact_link [OF assms(2,3) ab [unfolded assms(4)] refl refl] assms(4) by blast
qed

text \<open>On the root the joints are exact.\<close>

interpretation root_links: joint_links n "\<lambda>w K. isRoot w n \<and> exact (w_item w) (jmap w n) K" for n
proof
  show "isRoot w' n \<and> exact (w_item w') (jmap w' n) K"
    if "isRoot w n \<and> exact (w_item w) (jmap w n) K" "same_geo (w_item w) (w_item w')" "same_joints w w'" for w w' K
    using that same_geo_exact [OF that(2)] by (simp add: same_joints_def isRoot_def)
  show "\<exists>J. touchJoint p (m_layers (w_item w i)) net (if b then JT_Link i else JT_Unlink i) n w = jset n J w \<and>
      isRoot (jset n J w) n \<and> exact (w_item (jset n J w)) (jmap (jset n J w) n) (if b then insert (i, p) K else K - {(i, p)})"
    if "isRoot w n \<and> exact (w_item w) (jmap w n) K" "valid_layers (m_layers (w_item w i))" "net = m_net (w_item w i)" for w K i net p b
    using root_touch [of w n K i net p b] that by auto
qed

text \<open>Any node, when nothing is said of its joints.\<close>

interpretation any_links: joint_links n "\<lambda>w K. True" for n
  using touchJoint_jset by unfold_locales auto

text \<open>The joint an item is on is found by the item's first layer.\<close>

lemma find_in_group:
  assumes "exact it m K" "(i, p) \<in> K"
  shows "\<exists>jt. jt \<in> set (group m (p, m_net (it i))) \<and> i \<in> set (jt_links jt) \<and>
    (\<forall>more. List.find (\<lambda>j. LR_Overlaps_layer (jt_layers j) (m_start (m_layers (it i)))) (group m (p, m_net (it i)) @ more) = Some jt)"
proof -
  let ?g = "group m (p, m_net (it i))" and ?P = "\<lambda>j. LR_Overlaps_layer (jt_layers j) (m_start (m_layers (it i)))"
  obtain jt where jt: "jt \<in> set ?g" "i \<in> set (jt_links jt)" and v: "valid_layers (m_layers (it i))"
    using exactD(4) [OF assms] by blast
  have P: "?P jt" using exactD(3) [OF assms(1) jt] v by (auto simp: LR_Overlaps_layer_iff valid_layers_def lrs_def)
  then have "\<exists>x. List.find ?P ?g = Some x" using jt(1) by (metis find_None_iff not_Some_eq)
  then obtain x where x: "List.find ?P ?g = Some x" ..
  then have "x \<in> set ?g" "?P x" by (auto simp: find_Some_iff)
  then have "x = jt"
    using exact_unique [OF assms(1) jt(1) _ jt(2), of x] group_okD [OF exactD(1) [OF assms(1)], of x] v
    by (auto simp: LR_Overlaps_layer_iff LR_Overlaps_iff valid_layers_def lrs_def)
  moreover have "List.find ?P (?g @ more) = List.find ?P ?g" for more
    by (rule find_append_Some) (use jt(1) P in blast)
  ultimately show ?thesis using jt x by auto
qed

lemma FindJoint_exact:
  assumes "isRoot w n" "exact (w_item w) (jmap w n) K" "(i, p) \<in> K"
  shows "\<exists>jt. FindJoint w n p (m_start (m_layers (w_item w i))) (m_net (w_item w i)) = Some jt \<and>
    jt \<in> set (group (jmap w n) (p, m_net (w_item w i))) \<and> i \<in> set (jt_links jt)"
proof -
  obtain jt where jt: "jt \<in> set (group (jmap w n) (p, m_net (w_item w i)))" "i \<in> set (jt_links jt)"
    "\<forall>more. List.find (\<lambda>j. LR_Overlaps_layer (jt_layers j) (m_start (m_layers (w_item w i))))
      (group (jmap w n) (p, m_net (w_item w i)) @ more) = Some jt"
    using find_in_group [OF assms(2,3)] by blast
  then have "group (jmap w n) (p, m_net (w_item w i)) \<noteq> []" by auto
  then obtain more where "joints_from (jmap w n) (p, m_net (w_item w i)) = group (jmap w n) (p, m_net (w_item w i)) @ more"
    using joints_from_group by blast
  then show ?thesis using assms(1) jt by (simp add: FindJoint_def Let_def)
qed

lemma rebuildJoint_erase:
  "rebuildJoint jt i n w =
    (let net = m_net (w_item w i);
         g = filter (\<lambda>f. \<not> LR_Overlaps (m_layers (w_item w i)) (jt_layers f)) (group (jmap w n) (jt_pos jt, net))
     in foldl (\<lambda>w link. if link \<noteq> i then linkJoint (jt_pos jt) (m_layers (w_item w link)) net link n w else w)
          (jset n (set_group (jt_pos jt, net) g (jmap w n)) w) (jt_links jt))"
  by (simp add: rebuildJoint_def Let_def jset_def on_node_def)

text \<open>Erasing the joint of an item that spans layers.\<close>

lemma exact_erase:
  assumes "exact it m K" "(i, p) \<in> K" "jt \<in> set (group m (p, m_net (it i)))" "i \<in> set (jt_links jt)"
  shows "exact it (set_group (p, m_net (it i)) (filter (\<lambda>f. \<not> LR_Overlaps (m_layers (it i)) (jt_layers f)) (group m (p, m_net (it i)))) m)
      (K - {(x, p) |x. x \<in> set (jt_links jt)})"
    "\<forall>x\<in>set (jt_links jt). valid_layers (m_layers (it x)) \<and> m_net (it x) = m_net (it i)"
    "K - {(x, p) |x. x \<in> set (jt_links jt)} \<union> {(x, p) |x. x \<in> set (jt_links jt) \<and> x \<noteq> i} = K - {(i, p)}"
    "jt_pos jt = p"
proof -
  let ?net = "m_net (it i)" and ?l = "m_layers (it i)"
  let ?g = "group m (p, ?net)"
  let ?g' = "filter (\<lambda>f. \<not> LR_Overlaps ?l (jt_layers f)) ?g"
  let ?m = "set_group (p, ?net) ?g' m"
  let ?K = "K - {(x, p) |x. x \<in> set (jt_links jt)}"
  note ok = exactD(1) [OF assms(1), of "(p, ?net)"]
  show "jt_pos jt = p" using group_okD [OF ok assms(3)] by simp
  have v: "valid_layers ?l" using exactD(4) [OF assms(1,2)] by blast
  have "LR_Overlaps (jt_layers jt) ?l"
    using exactD(3) [OF assms(1,3,4)] v group_okD [OF ok assms(3)] lrs_nonempty [OF v] by (auto simp: LR_Overlaps_iff)
  then have g': "f \<in> set ?g' \<longleftrightarrow> f \<in> set ?g \<and> f \<noteq> jt" for f
    using exact_unique [OF assms(1,3) _ assms(4), of f] by (auto simp: LR_Overlaps_sym [of ?l])
  show "exact it ?m ?K"
    unfolding exact_def group_set_group
  proof (intro conjI allI ballI)
    fix tag
    show "group_ok tag (if tag = (p, ?net) then ?g' else group m tag)"
      using exactD(1) [OF assms(1), of tag] by (auto simp: group_ok_def apart_filter)
  next
    fix tag j assume j: "j \<in> set (if tag = (p, ?net) then ?g' else group m tag)"
    then have jg: "j \<in> set (group m tag)" by (auto split: if_splits)
    then show "distinct (jt_links j)" using exactD(2) [OF assms(1)] by blast
    fix x assume x: "x \<in> set (jt_links j)"
    note X = exactD(3) [OF assms(1) jg x]
    then show "m_net (it x) = snd tag" "lrs (m_layers (it x)) \<subseteq> lrs (jt_layers j)" by simp_all
    show "(x, fst tag) \<in> ?K"
    proof (rule ccontr)
      assume "(x, fst tag) \<notin> ?K"
      then have t: "fst tag = p" "x \<in> set (jt_links jt)" using X by auto
      then have "snd tag = ?net" using X exactD(3) [OF assms(1,3) t(2)] by simp
      then have tag: "tag = (p, ?net)" using t by (cases tag) simp
      have "LR_Overlaps (jt_layers j) (m_layers (it x))"
        using X exactD(4) [OF assms(1), of x] group_okD [OF exactD(1) [OF assms(1)] jg] lrs_nonempty
        by (auto simp: LR_Overlaps_iff) blast
      then have "j = jt" using exact_unique [OF assms(1,3) _ t(2), of j] jg tag by simp
      then show False using j tag g' by simp
    qed
  next
    fix xq assume "xq \<in> ?K"
    moreover obtain x q where xq: "xq = (x, q)" by (rule prod.exhaust)
    ultimately have x: "(x, q) \<in> K" "q = p \<Longrightarrow> x \<notin> set (jt_links jt)" by auto
    obtain j where j: "j \<in> set (group m (q, m_net (it x)))" "x \<in> set (jt_links j)"
      using exactD(4) [OF assms(1) x(1)] by blast
    have "j \<in> set (if (q, m_net (it x)) = (p, ?net) then ?g' else group m (q, m_net (it x)))"
    proof (cases "(q, m_net (it x)) = (p, ?net)")
      case True
      then have "j \<in> set ?g" "j \<noteq> jt" using j x(2) by (metis, metis Pair_inject)
      then have "j \<in> set ?g'" using g' by blast
      then show ?thesis unfolding if_P [OF True] .
    next
      case False
      show ?thesis unfolding if_not_P [OF False] by (rule j(1))
    qed
    then show "case xq of (x, q) \<Rightarrow> valid_layers (m_layers (it x)) \<and>
        (\<exists>j\<in>set (if (q, m_net (it x)) = (p, ?net) then ?g' else group m (q, m_net (it x))). x \<in> set (jt_links j))"
      using j exactD(4) [OF assms(1) x(1)] unfolding xq by blast
  qed
  show "\<forall>x\<in>set (jt_links jt). valid_layers (m_layers (it x)) \<and> m_net (it x) = ?net"
    using exactD(3) [OF assms(1,3)] exactD(4) [OF assms(1), of _ p] unfolding fst_conv snd_conv by blast
  show "?K \<union> {(x, p) |x. x \<in> set (jt_links jt) \<and> x \<noteq> i} = K - {(i, p)}"
    using assms(4) exactD(3) [OF assms(1,3), unfolded fst_conv] by blast
qed

lemma rebuild_exact:
  assumes "isRoot w n" "exact (w_item w) (jmap w n) K" "(i, p) \<in> K"
    and "jt \<in> set (group (jmap w n) (p, m_net (w_item w i)))" "i \<in> set (jt_links jt)"
  shows "\<exists>J. rebuildJoint jt i n w = jset n J w \<and> exact (w_item w) J (K - {(i, p)})"
proof -
  note E = exact_erase [OF assms(2-5)]
  let ?net = "m_net (w_item w i)"
  let ?m = "set_group (p, ?net) (filter (\<lambda>f. \<not> LR_Overlaps (m_layers (w_item w i)) (jt_layers f)) (group (jmap w n) (p, ?net))) (jmap w n)"
  have Q: "isRoot (jset n ?m w) n \<and> exact (w_item (jset n ?m w)) (jmap (jset n ?m w) n) (K - {(x, p) |x. x \<in> set (jt_links jt)})"
    using assms(1) E(1) by simp
  have L: "\<forall>x\<in>set (jt_links jt). valid_layers (m_layers (w_item (jset n ?m w) x)) \<and> m_net (w_item (jset n ?m w) x) = ?net"
    using E(2) by simp
  from root_links.relink [OF Q L, of i p] obtain J where
    "foldl (\<lambda>w link. if link \<noteq> i then linkJoint p (m_layers (w_item w link)) ?net link n w else w) (jset n ?m w) (jt_links jt) =
      jset n J (jset n ?m w)" "exact (w_item w) J (K - {(i, p)})"
    unfolding E(3) by auto
  then show ?thesis using E(4) by (simp add: rebuildJoint_erase Let_def) blast
qed

subsection \<open>The index\<close>

text \<open>
  Every item of the index is in the sub-index of each of its layers and in no other, and in the list
  of its net.
\<close>

definition net_items :: "INDEX \<Rightarrow> nat \<Rightarrow> nat list" where
  "net_items ix net = (case map_of (m_netMap ix) net of None \<Rightarrow> [] | Some l \<Rightarrow> l)"

definition index_ok :: "(nat \<Rightarrow> ITEM) \<Rightarrow> INDEX \<Rightarrow> bool" where
  "index_ok it ix \<longleftrightarrow>
    distinct (m_allItems ix) \<and>
    (\<forall>i\<in>set (m_allItems ix). valid_layers (m_layers (it i)) \<and> nat (m_end (m_layers (it i))) < length (m_subIndices ix)) \<and>
    (\<forall>l<length (m_subIndices ix). distinct (m_subIndices ix ! l) \<and>
      set (m_subIndices ix ! l) = {i \<in> set (m_allItems ix). int l \<in> lrs (m_layers (it i))}) \<and>
    (\<forall>net. net \<noteq> 0 \<longrightarrow>
      distinct (net_items ix net) \<and> set (net_items ix net) = {i \<in> set (m_allItems ix). m_net (it i) = net})"

lemma foldl_at_length: "length (foldl (\<lambda>s i. s[i := f (s ! i)]) xs is) = length xs"
  by (induction "is" arbitrary: xs) simp_all

lemma foldl_at_nth:
  "distinct is \<Longrightarrow> k < length xs \<Longrightarrow>
    foldl (\<lambda>s i. s[i := f (s ! i)]) xs is ! k = (if k \<in> set is then f (xs ! k) else xs ! k)"
proof (induction "is" arbitrary: xs)
  case (Cons i "is")
  then show ?case by (cases "i = k") auto
qed simp

lemma on_layers_simps:
  "length (on_layers lr f subs) = length subs"
  "valid_layers lr \<Longrightarrow> k < length subs \<Longrightarrow> on_layers lr f subs ! k = (if int k \<in> lrs lr then f (subs ! k) else subs ! k)"
proof -
  show "length (on_layers lr f subs) = length subs" by (simp add: on_layers_def foldl_at_length)
  assume "valid_layers lr" "k < length subs"
  moreover have "k \<in> set [nat (m_start lr)..<nat (m_end lr + 1)] \<longleftrightarrow> int k \<in> lrs lr"
    using calculation(1) by (auto simp: lrs_def valid_layers_def)
  ultimately show "on_layers lr f subs ! k = (if int k \<in> lrs lr then f (subs ! k) else subs ! k)"
    unfolding on_layers_def by (simp only: foldl_at_nth [OF distinct_upt])
qed

lemma index_ok_empty: "index_ok it INDEX_empty"
  by (simp add: index_ok_def INDEX_empty_def net_items_def)

lemma index_ok_cong:
  "index_ok it ix \<Longrightarrow> (\<And>i. m_net (it' i) = m_net (it i) \<and> m_layers (it' i) = m_layers (it i)) \<Longrightarrow> index_ok it' ix"
  unfolding index_ok_def by simp

lemma INDEX_Add_set: "set (m_allItems (INDEX_Add it i ix)) = insert i (set (m_allItems ix))"
  by (auto simp: INDEX_Add_def Let_def)

lemma net_items_Add:
  "net_items (INDEX_Add it i ix) net = net_items ix net @ (if net = m_net (it i) \<and> net \<noteq> 0 then [i] else [])"
  by (auto simp: net_items_def INDEX_Add_def Let_def update_conv')

lemma INDEX_Add_ok:
  assumes ok: "index_ok it ix" and i: "i \<notin> set (m_allItems ix)" and v: "valid_layers (m_layers (it i))"
  shows "index_ok it (INDEX_Add it i ix)"
proof -
  let ?lr = "m_layers (it i)"
  define subs where "subs = (if length (m_subIndices ix) \<le> nat (m_end ?lr)
    then m_subIndices ix @ replicate (2 * nat (m_end ?lr) + 1 - length (m_subIndices ix)) [] else m_subIndices ix)"
  have S: "m_subIndices (INDEX_Add it i ix) = on_layers ?lr (\<lambda>l. l @ [i]) subs"
    by (simp add: INDEX_Add_def Let_def subs_def)
  have len: "length (m_subIndices ix) \<le> length subs" "nat (m_end ?lr) < length subs" by (auto simp: subs_def)
  have old: "distinct (subs ! l) \<and> set (subs ! l) = {j \<in> set (m_allItems ix). int l \<in> lrs (m_layers (it j))}"
    if "l < length subs" for l
  proof (cases "l < length (m_subIndices ix)")
    case True
    then have "subs ! l = m_subIndices ix ! l" by (simp add: subs_def nth_append)
    then show ?thesis using ok True by (simp add: index_ok_def)
  next
    case False
    then have "subs ! l = []" using that by (auto simp: subs_def nth_append split: if_splits)
    moreover have "int l \<notin> lrs (m_layers (it j))" if "j \<in> set (m_allItems ix)" for j
      using ok that False unfolding index_ok_def lrs_def valid_layers_def by fastforce
    ultimately show ?thesis by auto
  qed
  show ?thesis
    unfolding index_ok_def INDEX_Add_set
  proof (intro conjI allI impI ballI)
    show "distinct (m_allItems (INDEX_Add it i ix))" using ok i by (simp add: INDEX_Add_def Let_def index_ok_def)
  next
    fix j assume "j \<in> insert i (set (m_allItems ix))"
    then show "valid_layers (m_layers (it j))" "nat (m_end (m_layers (it j))) < length (m_subIndices (INDEX_Add it i ix))"
      using v ok len unfolding S on_layers_simps index_ok_def by auto
  next
    fix l assume "l < length (m_subIndices (INDEX_Add it i ix))"
    then have l: "l < length subs" by (simp add: S on_layers_simps)
    show "distinct (m_subIndices (INDEX_Add it i ix) ! l)"
      using old [OF l] i unfolding S on_layers_simps(2) [OF v l] by auto
    show "set (m_subIndices (INDEX_Add it i ix) ! l) = {j \<in> insert i (set (m_allItems ix)). int l \<in> lrs (m_layers (it j))}"
      using old [OF l] unfolding S on_layers_simps(2) [OF v l] by auto
  next
    fix net :: nat assume "net \<noteq> 0"
    then show "distinct (net_items (INDEX_Add it i ix) net)"
      "set (net_items (INDEX_Add it i ix) net) = {j \<in> insert i (set (m_allItems ix)). m_net (it j) = net}"
      using ok i unfolding net_items_Add index_ok_def by auto
  qed
qed

lemma net_items_Remove:
  "\<not> length (m_subIndices ix) \<le> nat (m_end (m_layers (it i))) \<Longrightarrow>
    net_items (INDEX_Remove it i ix) net = (if net = m_net (it i) \<and> net \<noteq> 0 then removeAll i (net_items ix net) else net_items ix net)"
  by (auto simp: net_items_def INDEX_Remove_def Let_def update_conv' split: option.splits)

lemma INDEX_Remove_ok:
  assumes ok: "index_ok it ix" and v: "valid_layers (m_layers (it i))"
  shows "index_ok it (INDEX_Remove it i ix) \<and> set (m_allItems (INDEX_Remove it i ix)) = set (m_allItems ix) - {i}"
proof (cases "length (m_subIndices ix) \<le> nat (m_end (m_layers (it i)))")
  case True
  then have "i \<notin> set (m_allItems ix)" using ok by (auto simp: index_ok_def)
  then show ?thesis using True ok by (simp add: INDEX_Remove_def Let_def)
next
  case False
  let ?r = "INDEX_Remove it i ix"
  have S: "m_subIndices ?r = on_layers (m_layers (it i)) (remove1 i) (m_subIndices ix)"
    and A: "m_allItems ?r = remove1 i (m_allItems ix)"
    using False by (simp_all add: INDEX_Remove_def Let_def)
  have d: "distinct (m_allItems ix)" using ok by (simp add: index_ok_def)
  have all: "set (m_allItems ?r) = set (m_allItems ix) - {i}" unfolding A using d by simp
  have sub: "distinct (m_subIndices ix ! l) \<and> set (m_subIndices ix ! l) = {j \<in> set (m_allItems ix). int l \<in> lrs (m_layers (it j))}"
    if "l < length (m_subIndices ix)" for l using ok that by (simp add: index_ok_def)
  have "index_ok it ?r"
    unfolding index_ok_def all
  proof (intro conjI allI impI ballI)
    show "distinct (m_allItems ?r)" unfolding A using d by simp
  next
    fix j assume "j \<in> set (m_allItems ix) - {i}"
    then show "valid_layers (m_layers (it j))" "nat (m_end (m_layers (it j))) < length (m_subIndices ?r)"
      using ok unfolding S on_layers_simps index_ok_def by auto
  next
    fix l assume "l < length (m_subIndices ?r)"
    then have l: "l < length (m_subIndices ix)" by (simp add: S on_layers_simps)
    show "distinct (m_subIndices ?r ! l)" using sub [OF l] unfolding S on_layers_simps(2) [OF v l] by auto
    show "set (m_subIndices ?r ! l) = {j \<in> set (m_allItems ix) - {i}. int l \<in> lrs (m_layers (it j))}"
      using sub [OF l] unfolding S on_layers_simps(2) [OF v l] by auto
  next
    fix net :: nat assume "net \<noteq> 0"
    then show "distinct (net_items ?r net)" "set (net_items ?r net) = {j \<in> set (m_allItems ix) - {i}. m_net (it j) = net}"
      using ok unfolding net_items_Remove [of ix it i, OF False] index_ok_def by (auto simp: distinct_removeAll)
  qed
  then show ?thesis using all by blast
qed

end
