(* ===== verification/Router_Items.thy ===== *)
theory Router_Items
  imports Router_Joints
begin

text \<open>
  What the operations of the router's nodes do to items: adding and removing are a change of the joints
  of the node (\<open>jset\<close>) and a change of index, overridden items, garbage and owners
  (\<open>add_items\<close>, \<open>removed\<close>) that can be described without the joints.
\<close>

subsection \<open>What the items are\<close>

definition items_ok :: "(nat \<Rightarrow> ITEM) \<Rightarrow> bool" where
  "items_ok it \<longleftrightarrow>
    (\<forall>i. valid_layers (m_layers (it i))) \<and>
    (\<forall>i h. m_hole (it i) = Some h \<longrightarrow> m_kind (it i) \<in> {VIA_T, SOLID_T} \<and> m_kind (it h) = HOLE_T) \<and>
    (\<forall>i j h. m_hole (it i) = Some h \<longrightarrow> m_hole (it j) = Some h \<longrightarrow> i = j)"

definition board_kinds :: "PnsKind set" where
  "board_kinds = {SEGMENT_T, ARC_T, VIA_T, SOLID_T}"

definition anchors :: "ITEM \<Rightarrow> VECTOR2I set" where
  "anchors x =
    (if m_kind x = SEGMENT_T \<or> m_kind x = ARC_T then {anchor0 x, anchor1 x}
     else if m_kind x = VIA_T \<or> m_kind x = SOLID_T \<and> m_routable x then {anchor0 x} else {})"

definition links_of :: "(nat \<Rightarrow> ITEM) \<Rightarrow> nat set \<Rightarrow> (nat \<times> VECTOR2I) set" where
  "links_of it S = {(i, p). i \<in> S \<and> p \<in> anchors (it i)}"

definition holes :: "(nat \<Rightarrow> ITEM) \<Rightarrow> nat \<Rightarrow> nat set" where
  "holes it i = (case m_hole (it i) of None \<Rightarrow> {} | Some h \<Rightarrow> {h})"

lemma same_geo_index: "same_geo it it' \<Longrightarrow> index_ok it ix \<Longrightarrow> index_ok it' ix"
  by (rule index_ok_cong) (auto simp: same_geoD)

lemma same_geo_anchors: "same_geo it it' \<Longrightarrow> anchors (it' i) = anchors (it i)"
  unfolding anchors_def by (simp only: same_geoD)

lemma same_geo_links: "same_geo it it' \<Longrightarrow> links_of it' S = links_of it S"
  unfolding links_of_def by (simp only: same_geo_anchors)

lemma same_geo_items_ok: "same_geo it it' \<Longrightarrow> items_ok it \<Longrightarrow> items_ok it'"
  by (simp add: items_ok_def same_geoD)

lemma same_geo_holes: "same_geo it it' \<Longrightarrow> holes it' i = holes it i"
  by (simp add: holes_def same_geoD)

lemma holes_no_anchors: "items_ok it \<Longrightarrow> h \<in> holes it i \<Longrightarrow> anchors (it h) = {}"
  by (auto simp: items_ok_def holes_def anchors_def split: option.splits)

lemma line_no_hole:
  assumes "items_ok it" "is_line_kind (it i)"
  shows "m_hole (it i) = None"
proof (rule ccontr)
  assume "m_hole (it i) \<noteq> None"
  then obtain h where "m_hole (it i) = Some h" by blast
  then have "m_kind (it i) \<in> {VIA_T, SOLID_T}" using assms(1) unfolding items_ok_def by blast
  then show False using assms(2) by (auto simp: is_line_kind_def)
qed

subsection \<open>Ownership\<close>

lemma SetOwner_simps [simp]:
  "w_node (SetOwner ow i w) = w_node w" "w_live (SetOwner ow i w) = w_live w"
  "w_freed (SetOwner ow i w) = w_freed w" "w_new (SetOwner ow i w) = w_new w"
  "w_item (SetOwner ow i w) k = (if k = i then (w_item w i)\<lparr>m_owner := ow\<rparr> else w_item w k)"
  "same_geo (w_item w) (w_item (SetOwner ow i w))"
  by (auto simp: SetOwner_def same_geo_def geo_def)

lemma on_index_simps [simp]:
  "w_item (on_index n f w) = w_item w" "w_live (on_index n f w) = w_live w"
  "w_freed (on_index n f w) = w_freed w" "w_new (on_index n f w) = w_new w"
  "w_node (on_index n f w) k = (if k = n then (w_node w n)\<lparr>m_index := f (m_index (w_node w n))\<rparr> else w_node w k)"
  by (auto simp: on_index_def)

subsection \<open>Operations are changes of joints and of items\<close>

lemma WORLD_eqI:
  "w_item a = w_item b \<Longrightarrow> w_node a = w_node b \<Longrightarrow> w_live a = w_live b \<Longrightarrow> w_freed a = w_freed b \<Longrightarrow>
    w_new a = w_new b \<Longrightarrow> a = (b :: WORLD)"
  by simp

lemma jset_commute:
  "SetOwner ow i (jset n J w) = jset n J (SetOwner ow i w)"
  "addToIndex i k (jset n J w) = jset n J (addToIndex i k w)"
  "removeFromIndex i k (jset n J w) = jset n J (removeFromIndex i k w)"
  "addHole i k (jset n J w) = jset n J (addHole i k w)"
  by (auto intro!: WORLD_eqI ext simp: jset_def SetOwner_def on_item_def on_node_def addToIndex_def
      removeFromIndex_def on_index_def addHole_def)

definition add_items :: "nat \<Rightarrow> nat \<Rightarrow> WORLD \<Rightarrow> WORLD" where
  "add_items i n w = addToIndex i n (SetOwner (OwnNode n) i
    (case m_hole (w_item w i) of Some h \<Rightarrow> addHole h n w | None \<Rightarrow> w))"

lemma same_joints_jset: "same_joints w w' \<Longrightarrow> same_joints (jset n J w) (jset n J w')"
  unfolding same_joints_def by (metis jset_simps(5-8))

lemma SetOwner_same: "same_joints w (SetOwner ow i w)"
  by (simp add: same_joints_def)

lemma add_items_same: "same_joints w (add_items i n w) \<and> same_geo (w_item w) (w_item (add_items i n w))"
  by (cases "m_hole (w_item w i)") (auto simp: add_items_def addToIndex_def addHole_def same_joints_def same_geo_def geo_def)

context joint_links
begin

lemma add:
  assumes ok: "items_ok (w_item w)" and k: "m_kind (w_item w i) \<in> board_kinds" and q: "Q w K"
  shows "\<exists>J. NODE_add i n w = jset n J (add_items i n w) \<and>
    Q (jset n J (add_items i n w)) (K \<union> {i} \<times> anchors (w_item w i))"
proof -
  have v: "valid_layers (m_layers (w_item w x))" for x using ok by (simp add: items_ok_def)
  have lift: "Q (jset n J (add_items i n w)) K'"
    if "Q (jset n J u) K'" "same_geo (w_item w) (w_item u)" "same_joints w u" for J K' u
  proof -
    have g: "same_geo (w_item u) (w_item (add_items i n w))" "same_joints u (add_items i n w)"
      using that(2,3) add_items_same [of w i n] by (simp_all add: same_geo_def same_joints_def)
    show ?thesis by (rule frame [OF that(1)]) (use g(1) same_joints_jset [OF g(2)] in simp_all)
  qed
  show ?thesis
  proof (cases "is_line_kind (w_item w i)")
    case True
    let ?w = "SetOwner (OwnNode n) i w"
    have nh: "m_hole (w_item w i) = None" by (rule line_no_hole [of "w_item w", OF ok True])
    have v1: "valid_layers (m_layers (w_item ?w i))" using v by simp
    from link [OF frame [OF q SetOwner_simps(6) SetOwner_same] v1 refl, of "anchor0 (w_item w i)"] obtain J where
      J: "linkAt (anchor0 (w_item w i)) i n ?w = jset n J ?w" "Q (jset n J ?w) (insert (i, anchor0 (w_item w i)) K)"
      unfolding linkAt_def by blast
    have v2: "valid_layers (m_layers (w_item (jset n J ?w) i))" using v1 by simp
    from link [OF J(2) v2 refl, of "anchor1 (w_item w i)"] obtain J' where
      J': "linkAt (anchor1 (w_item w i)) i n (jset n J ?w) = jset n J' (jset n J ?w)"
        "Q (jset n J' ?w) (insert (i, anchor1 (w_item w i)) (insert (i, anchor0 (w_item w i)) K))"
      unfolding linkAt_def by auto
    have "NODE_add i n w = addSegment i n w" using True by (auto simp: NODE_add_def is_line_kind_def)
    also have "\<dots> = jset n J' (add_items i n w)"
      using J(1) J'(1) nh by (simp add: addSegment_def Let_def jset_commute add_items_def)
    finally have eq: "NODE_add i n w = jset n J' (add_items i n w)" .
    have "K \<union> {i} \<times> anchors (w_item w i) = insert (i, anchor1 (w_item w i)) (insert (i, anchor0 (w_item w i)) K)"
      using True by (auto simp: anchors_def is_line_kind_def)
    then show ?thesis using eq lift [OF J'(2) SetOwner_simps(6) SetOwner_same] by auto
  next
    case False
    let ?w = "case m_hole (w_item w i) of Some h \<Rightarrow> addHole h n w | None \<Rightarrow> w"
    have g: "same_geo (w_item w) (w_item ?w)" "same_joints w ?w"
      by (auto split: option.splits simp: addHole_def addToIndex_def same_geo_refl same_joints_def)
    have v1: "valid_layers (m_layers (w_item ?w i))" using v same_geoD(2) [OF g(1)] by simp
    have routed: "K \<union> {i} \<times> anchors (w_item w i) = (if m_kind (w_item w i) = VIA_T \<or> m_routable (w_item w i)
        then insert (i, anchor0 (w_item w i)) K else K)"
      using False k by (auto simp: anchors_def is_line_kind_def board_kinds_def)
    show ?thesis
    proof (cases "m_kind (w_item w i) = VIA_T \<or> m_routable (w_item w i)")
      case True
      from link [OF frame [OF q g] v1 refl, of "anchor0 (w_item w i)"] obtain J where
        J: "linkAt (anchor0 (w_item w i)) i n ?w = jset n J ?w" "Q (jset n J ?w) (insert (i, anchor0 (w_item w i)) K)"
        unfolding linkAt_def by blast
      have "NODE_add i n w = jset n J (add_items i n w)"
        using False k True J(1) by (auto simp: NODE_add_def board_kinds_def is_line_kind_def addVia_def addSolid_def
          Let_def jset_commute add_items_def)
      then show ?thesis using lift [OF J(2) g] True unfolding routed by auto
    next
      case unrouted: False
      have "NODE_add i n w = add_items i n w"
        using False k unrouted by (auto simp: NODE_add_def board_kinds_def is_line_kind_def addSolid_def Let_def add_items_def)
      moreover have "jmap (add_items i n w) n = jmap w n"
        by (auto simp: add_items_def addToIndex_def addHole_def split: option.splits)
      moreover have "Q (jset n (jmap w n) (add_items i n w)) K"
        by (rule lift [of _ w]) (simp_all add: jset_same q same_geo_refl same_joints_def)
      ultimately show ?thesis using unrouted jset_same [of n "add_items i n w"] unfolding routed
        by (intro exI [of _ "jmap w n"]) simp
    qed
  qed
qed

end

lemma NODE_add_parts:
  assumes ok: "items_ok (w_item w)" and k: "m_kind (w_item w i) \<in> board_kinds"
  shows "\<exists>J. NODE_add i n w = jset n J (add_items i n w) \<and>
    (isRoot w n \<longrightarrow> exact (w_item w) (jmap w n) K \<longrightarrow> exact (w_item w) J (K \<union> {i} \<times> anchors (w_item w i)))"
proof (cases "isRoot w n \<and> exact (w_item w) (jmap w n) K")
  case True
  have g: "same_geo (w_item (add_items i n w)) (w_item w)" using add_items_same [of w i n] by (simp add: same_geo_def)
  show ?thesis using root_links.add [OF ok k True] same_geo_exact [OF g] by auto
next
  case False
  then show ?thesis using any_links.add [OF ok k TrueI, of n] by blast
qed

definition own_hole :: "nat \<Rightarrow> WORLD \<Rightarrow> WORLD" where
  "own_hole i w = (case m_hole (w_item w i) of Some h \<Rightarrow> SetOwner (OwnItem i) h w | None \<Rightarrow> w)"

lemma own_hole_simps [simp]:
  "w_node (own_hole i w) = w_node w" "w_live (own_hole i w) = w_live w" "w_freed (own_hole i w) = w_freed w"
  "w_new (own_hole i w) = w_new w" "same_geo (w_item w) (w_item (own_hole i w))" "isRoot (own_hole i w) n = isRoot w n"
  "own_hole i (jset n J w) = jset n J (own_hole i w)"
  by (auto simp: own_hole_def same_geo_refl isRoot_def jset_commute split: option.splits)

lemma on_node_jset:
  "(\<And>x. f (x\<lparr>m_joints := J\<rparr>) = (f x)\<lparr>m_joints := J\<rparr>) \<Longrightarrow> on_node k f (jset n J w) = jset n J (on_node k f w)"
  by (auto intro!: WORLD_eqI ext simp: jset_def on_node_def)

lemma BelongsTo_jset [simp]: "BelongsTo (jset n J w) i k = BelongsTo w i k"
  by (simp add: BelongsTo_def)

lemma BelongsTo_simps [simp]:
  "BelongsTo (on_node k f w) i n = BelongsTo w i n" "BelongsTo (removeFromIndex h k w) i n = BelongsTo w i n"
  by (simp_all add: BelongsTo_def removeFromIndex_def)

lemma doRemove_jset: "doRemove i n (jset n J w) = jset n J (doRemove i n w)"
proof -
  have g: "on_node k (\<lambda>x. x\<lparr>m_garbageItems := set_insert i (m_garbageItems x)\<rparr>) (jset n J v) =
      jset n J (on_node k (\<lambda>x. x\<lparr>m_garbageItems := set_insert i (m_garbageItems x)\<rparr>) v)" for k v
    by (rule on_node_jset) simp
  have o1: "on_node k (\<lambda>x. x\<lparr>m_override := set_insert i (m_override x)\<rparr>) (jset n J v) =
      jset n J (on_node k (\<lambda>x. x\<lparr>m_override := set_insert i (m_override x)\<rparr>) v)" for k v
    by (rule on_node_jset) simp
  have o2: "on_node k (\<lambda>x. x\<lparr>m_override := set_insert a (set_insert i (m_override x))\<rparr>) (jset n J v) =
      jset n J (on_node k (\<lambda>x. x\<lparr>m_override := set_insert a (set_insert i (m_override x))\<rparr>) v)" for k a v
    by (rule on_node_jset) simp
  show ?thesis
    by (cases "m_hole (w_item w i)"; cases "BelongsTo w i (m_root (w_node w n))"; cases "isRoot w n"; cases "BelongsTo w i n")
       (simp_all add: doRemove_def g o1 o2 jset_commute)
qed

lemma NODE_Remove_parts:
  assumes k: "m_kind (w_item w i) \<in> board_kinds" and ok: "items_ok (w_item w)" and R: "NODE_Remove i n w = Some w'"
  shows "\<exists>J. w' = jset n J (doRemove i n (own_hole i w))"
proof (cases "is_line_kind (w_item w i)")
  case True
  have nh: "m_hole (w_item w i) = None" by (rule line_no_hole [of "w_item w", OF ok True])
  have "w' = Remove_segment i n w" using R True by (auto simp: NODE_Remove_def is_line_kind_def)
  moreover obtain J where "unlinkAt (anchor0 (w_item w i)) i n w = jset n J w"
    using touchJoint_jset unfolding unlinkAt_def unlinkJoint_def by blast
  moreover obtain J' where "unlinkAt (anchor1 (w_item w i)) i n (jset n J w) = jset n J' (jset n J w)"
    using touchJoint_jset unfolding unlinkAt_def unlinkJoint_def by blast
  ultimately show ?thesis using nh by (auto simp: Remove_segment_def removeSegmentIndex_def doRemove_jset own_hole_def)
next
  case False
  let ?w = "own_hole i w"
  have re: "\<exists>J. rebuildJoint jt i n v = jset n J v" for jt v
  proof -
    have fold: "\<exists>J. foldl (\<lambda>w link. if link \<noteq> i then linkJoint p (m_layers (w_item w link)) net link n w else w) v xs = jset n J v"
      for p net v xs
    proof (induction xs arbitrary: v)
      case Nil
      then show ?case using jset_same by (metis foldl_Nil)
    next
      case (Cons x xs)
      obtain J where "linkJoint p (m_layers (w_item v x)) net x n v = jset n J v"
        using touchJoint_jset unfolding linkJoint_def by blast
      then show ?case using Cons [of v] Cons [of "jset n J v"] by (cases "x = i") auto
    qed
    let ?net = "m_net (w_item v i)"
    let ?X = "set_group (jt_pos jt, ?net) (filter (\<lambda>f. \<not> LR_Overlaps (m_layers (w_item v i)) (jt_layers f))
      (group (jmap v n) (jt_pos jt, ?net))) (jmap v n)"
    have "rebuildJoint jt i n v = foldl (\<lambda>w link. if link \<noteq> i
        then linkJoint (jt_pos jt) (m_layers (w_item w link)) ?net link n w else w) (jset n ?X v) (jt_links jt)"
      by (simp add: rebuildJoint_def Let_def jset_def on_node_def)
    moreover obtain J where "foldl (\<lambda>w link. if link \<noteq> i
        then linkJoint (jt_pos jt) (m_layers (w_item w link)) ?net link n w else w) (jset n ?X v) (jt_links jt) = jset n J (jset n ?X v)"
      using fold by blast
    ultimately show ?thesis by (intro exI [of _ J]) simp
  qed
  have "NODE_Remove i n w = map_option (doRemove i n)
      (if m_kind (w_item w i) = VIA_T \<or> m_routable (w_item ?w i) then removeViaIndex i n ?w else Some ?w)"
    using False k by (auto simp: NODE_Remove_def board_kinds_def is_line_kind_def Remove_via_def Remove_solid_def
      removeSolidIndex_def own_hole_def split: option.splits)
  then obtain v where v: "w' = doRemove i n v" "v = ?w \<or> removeViaIndex i n ?w = Some v"
    using R by (cases "removeViaIndex i n ?w") (auto split: if_splits)
  have "\<exists>J. v = jset n J ?w"
  proof (cases "v = ?w")
    case True
    then show ?thesis using jset_same [of n ?w] by metis
  next
    case False
    then obtain jt where "v = rebuildJoint jt i n ?w"
      using v(2) by (auto simp: removeViaIndex_def Let_def split: option.splits)
    then show ?thesis using re by blast
  qed
  then show ?thesis using v(1) doRemove_jset by blast
qed

definition removed :: "nat \<Rightarrow> nat \<Rightarrow> WORLD \<Rightarrow> WORLD" where
  "removed i n w = doRemove i n (own_hole i w)"

lemma doRemove_same: "same_joints w (doRemove i n w) \<and> same_geo (w_item w) (w_item (doRemove i n w))"
proof -
  have J: "same_joints w (on_node k f u)" "same_geo (w_item w) (w_item (on_node k f u))"
    if "same_joints w u \<and> same_geo (w_item w) (w_item u)"
      "\<And>x. m_parent (f x) = m_parent x \<and> m_root (f x) = m_root x \<and> m_joints (f x) = m_joints x" for k f u
    using that by (simp_all add: same_joints_def)
  have S: "same_joints w (SetOwner ow x u)" "same_geo (w_item w) (w_item (SetOwner ow x u))"
    if "same_joints w u \<and> same_geo (w_item w) (w_item u)" for ow x u
    using that same_geo_trans [OF _ SetOwner_simps(6)] by (simp_all add: same_joints_def)
  show ?thesis
    by (cases "m_hole (w_item w i)"; cases "BelongsTo w i (m_root (w_node w n))"; cases "isRoot w n"; cases "BelongsTo w i n")
       (simp_all add: doRemove_def Let_def removeFromIndex_def on_index_def J S same_geo_refl same_joints_def)
qed

lemma removed_same: "same_joints w (removed i n w) \<and> same_geo (w_item w) (w_item (removed i n w))"
proof
  show "same_joints w (removed i n w)" using doRemove_same [of "own_hole i w" i n] by (simp add: removed_def same_joints_def)
  show "same_geo (w_item w) (w_item (removed i n w))"
    unfolding removed_def using doRemove_same by (blast intro: same_geo_trans [OF own_hole_simps(5)])
qed

text \<open>
  What a node's joints must promise for the removal of an item to succeed: the joint of a linked item is
  found, and taking the item off keeps the other links, and no others when the promise is \<open>strict\<close>.
\<close>

locale joint_store = joint_links +
  fixes strict :: bool
  assumes off: "Q w K \<Longrightarrow> (i, p) \<in> K \<Longrightarrow>
    \<exists>jt J K'. FindJoint w n p (m_start (m_layers (w_item w i))) (m_net (w_item w i)) = Some jt \<and>
      rebuildJoint jt i n w = jset n J w \<and> Q (jset n J w) K' \<and> K - {(i, p)} \<subseteq> K' \<and> (strict \<longrightarrow> K' = K - {(i, p)})"
begin

lemma remove:
  assumes k: "m_kind (w_item w i) \<in> board_kinds" and ok: "items_ok (w_item w)"
    and q: "Q w K" and iK: "{i} \<times> anchors (w_item w i) \<subseteq> K"
  shows "\<exists>J K'. NODE_Remove i n w = Some (jset n J (removed i n w)) \<and> Q (jset n J (removed i n w)) K' \<and>
    K - {i} \<times> anchors (w_item w i) \<subseteq> K' \<and> (strict \<longrightarrow> K' = K - {i} \<times> anchors (w_item w i))"
proof -
  have lift: "Q (jset n J (removed i n w)) K'" if "Q (jset n J u) K'" "same_geo (w_item w) (w_item u)" "same_joints w u" for J K' u
  proof -
    have g: "same_geo (w_item u) (w_item (removed i n w))" "same_joints u (removed i n w)"
      using that(2,3) removed_same [of w i n] by (simp_all add: same_geo_def same_joints_def)
    show ?thesis by (rule frame [OF that(1)]) (use g(1) same_joints_jset [OF g(2)] in simp_all)
  qed
  have self: "same_joints u u" for u by (simp add: same_joints_def)
  have v: "valid_layers (m_layers (w_item w i))" using ok by (simp add: items_ok_def)
  show ?thesis
  proof (cases "is_line_kind (w_item w i)")
    case True
    have nh: "m_hole (w_item w i) = None" by (rule line_no_hole [of "w_item w", OF ok True])
    from unlink [OF q v, of "anchor0 (w_item w i)"] obtain J where
      J: "unlinkAt (anchor0 (w_item w i)) i n w = jset n J w" "Q (jset n J w) (K - {(i, anchor0 (w_item w i))})" by blast
    have v2: "valid_layers (m_layers (w_item (jset n J w) i))" using v by simp
    from unlink [OF J(2) v2, of "anchor1 (w_item w i)"] obtain J' where
      J': "unlinkAt (anchor1 (w_item w i)) i n (jset n J w) = jset n J' (jset n J w)"
        "Q (jset n J' w) (K - {(i, anchor0 (w_item w i))} - {(i, anchor1 (w_item w i))})" by auto
    have "K - {i} \<times> anchors (w_item w i) = K - {(i, anchor0 (w_item w i))} - {(i, anchor1 (w_item w i))}"
      using True by (auto simp: anchors_def is_line_kind_def)
    moreover have "NODE_Remove i n w = Some (jset n J' (removed i n w))"
      using True nh J(1) J'(1) by (auto simp: NODE_Remove_def is_line_kind_def Remove_segment_def
        removeSegmentIndex_def doRemove_jset own_hole_def removed_def)
    ultimately show ?thesis using lift [OF J'(2) same_geo_refl self] by auto
  next
    case False
    let ?w = "own_hole i w"
    have g: "same_geo (w_item w) (w_item ?w)" "same_joints w ?w" by (simp_all add: same_joints_def)
    have R: "NODE_Remove i n w = map_option (doRemove i n)
        (if m_kind (w_item w i) = VIA_T \<or> m_routable (w_item w i) then removeViaIndex i n ?w else Some ?w)"
      using False k same_geoD(7) [OF g(1), of i] by (auto simp: NODE_Remove_def board_kinds_def is_line_kind_def Remove_via_def
        Remove_solid_def removeSolidIndex_def own_hole_def split: option.splits)
    show ?thesis
    proof (cases "m_kind (w_item w i) = VIA_T \<or> m_routable (w_item w i)")
      case True
      then have A: "anchors (w_item w i) = {anchor0 (w_item w i)}"
        using False k by (auto simp: anchors_def is_line_kind_def board_kinds_def)
      then have iK': "(i, anchor0 (w_item ?w i)) \<in> K" using iK same_geoD(4) [OF g(1)] by auto
      from off [OF frame [OF q g] iK'] obtain jt J K' where
        jt: "FindJoint ?w n (anchor0 (w_item ?w i)) (m_start (m_layers (w_item ?w i))) (m_net (w_item ?w i)) = Some jt"
          "rebuildJoint jt i n ?w = jset n J ?w" "Q (jset n J ?w) K'" "K - {(i, anchor0 (w_item ?w i))} \<subseteq> K'"
          "strict \<longrightarrow> K' = K - {(i, anchor0 (w_item ?w i))}" by blast
      have "NODE_Remove i n w = Some (jset n J (removed i n w))"
        using R True jt(1,2) by (simp add: removeViaIndex_def Let_def doRemove_jset removed_def)
      then show ?thesis
        using lift [OF jt(3) g] jt(4,5) A same_geoD(4) [OF g(1), of i] by (intro exI [of _ J] exI [of _ K']) auto
    next
      case unrouted: False
      then have "anchors (w_item w i) = {}" using False by (auto simp: anchors_def is_line_kind_def)
      moreover have "NODE_Remove i n w = Some (removed i n w)" using R unrouted by (simp add: removed_def)
      moreover have "removed i n w = jset n (jmap w n) (removed i n w)"
        using removed_same [of w i n] jset_same [of n "removed i n w"] by (simp add: same_joints_def)
      moreover have "Q (jset n (jmap w n) (removed i n w)) K"
        by (rule lift [of _ w]) (simp_all add: jset_same q same_geo_refl self)
      ultimately show ?thesis by (intro exI [of _ "jmap w n"] exI [of _ K]) simp
    qed
  qed
qed

end

interpretation root_store: joint_store n "\<lambda>w K. isRoot w n \<and> exact (w_item w) (jmap w n) K" True for n
proof
  show "\<exists>jt J K'. FindJoint w n p (m_start (m_layers (w_item w i))) (m_net (w_item w i)) = Some jt \<and>
      rebuildJoint jt i n w = jset n J w \<and> (isRoot (jset n J w) n \<and> exact (w_item (jset n J w)) (jmap (jset n J w) n) K') \<and>
      K - {(i, p)} \<subseteq> K' \<and> (True \<longrightarrow> K' = K - {(i, p)})"
    if q: "isRoot w n \<and> exact (w_item w) (jmap w n) K" and i: "(i, p) \<in> K" for w K i p
  proof -
    obtain jt where jt: "FindJoint w n p (m_start (m_layers (w_item w i))) (m_net (w_item w i)) = Some jt"
      "jt \<in> set (group (jmap w n) (p, m_net (w_item w i)))" "i \<in> set (jt_links jt)"
      using FindJoint_exact [OF _ _ i] q by blast
    obtain J where "rebuildJoint jt i n w = jset n J w" "exact (w_item w) J (K - {(i, p)})"
      using rebuild_exact [OF _ _ i jt(2,3)] q by blast
    then show ?thesis using jt(1) q by auto
  qed
qed

text \<open>On the root, removing an item that the joints link succeeds and takes its links, no others.\<close>

lemma NODE_Remove_root:
  assumes k: "m_kind (w_item w i) \<in> board_kinds" and ok: "items_ok (w_item w)" and r: "isRoot w n"
    and ex: "exact (w_item w) (jmap w n) K" and iK: "{i} \<times> anchors (w_item w i) \<subseteq> K"
  shows "\<exists>J. NODE_Remove i n w = Some (jset n J (removed i n w)) \<and>
    exact (w_item w) J (K - {i} \<times> anchors (w_item w i))"
proof -
  have g: "same_geo (w_item (removed i n w)) (w_item w)" using removed_same [of w i n] by (simp add: same_geo_def)
  show ?thesis using root_store.remove [OF k ok conjI [OF r ex] iK] same_geo_exact [OF g] by auto
qed

subsection \<open>What adding and removing do to the items\<close>

lemma items_of_simps [simp]:
  "items_of (SetOwner ow i w) n = items_of w n" "items_of (own_hole i w) n = items_of w n"
  "k \<noteq> n \<Longrightarrow> items_of (on_index n f w) k = items_of w k"
  by (simp_all add: items_of_def)

lemma hole_not_self:
  assumes "items_ok it" "h \<in> holes it i"
  shows "h \<noteq> i \<and> m_kind (it h) = HOLE_T \<and> m_hole (it h) = None"
proof -
  have i: "m_hole (it i) = Some h" using assms(2) by (auto simp: holes_def split: option.splits)
  have K: "m_kind (it a) \<in> {VIA_T, SOLID_T} \<and> m_kind (it b) = HOLE_T" if "m_hole (it a) = Some b" for a b
    using assms(1) that unfolding items_ok_def by blast
  have "m_hole (it h) = None" using K [OF i] K [of h] by (cases "m_hole (it h)") auto
  then show ?thesis using K [OF i] by auto
qed

lemma add_items_effect:
  assumes ok: "items_ok (w_item w)" and ix: "index_ok (w_item w) (m_index (w_node w n))"
    and new: "i \<notin> set (items_of w n)" "holes (w_item w) i \<inter> set (items_of w n) = {}"
  shows "index_ok (w_item w) (m_index (w_node (add_items i n w) n))"
    "set (items_of (add_items i n w) n) = insert i (holes (w_item w) i \<union> set (items_of w n))"
    "w_node (add_items i n w) k = (if k = n then (w_node w n)\<lparr>m_index := m_index (w_node (add_items i n w) n)\<rparr> else w_node w k)"
    "w_item (add_items i n w) k = (if k \<in> insert i (holes (w_item w) i) then (w_item w k)\<lparr>m_owner := OwnNode n\<rparr> else w_item w k)"
    "w_live (add_items i n w) = w_live w" "w_freed (add_items i n w) = w_freed w" "w_new (add_items i n w) = w_new w"
proof -
  have v: "valid_layers (m_layers (w_item w x))" for x using ok by (simp add: items_ok_def)
  have cg: "index_ok it' y \<longleftrightarrow> index_ok (w_item w) y" if "same_geo (w_item w) it'" for it' y
    using index_ok_cong [of "w_item w" y it'] index_ok_cong [of it' y "w_item w"] same_geoD(2,3) [OF that] by auto
  have "index_ok (w_item w) (m_index (w_node (add_items i n w) n)) \<and>
    set (items_of (add_items i n w) n) = insert i (holes (w_item w) i \<union> set (items_of w n)) \<and>
    w_node (add_items i n w) k = (if k = n then (w_node w n)\<lparr>m_index := m_index (w_node (add_items i n w) n)\<rparr> else w_node w k) \<and>
    w_item (add_items i n w) k = (if k \<in> insert i (holes (w_item w) i) then (w_item w k)\<lparr>m_owner := OwnNode n\<rparr> else w_item w k) \<and>
    w_live (add_items i n w) = w_live w \<and> w_freed (add_items i n w) = w_freed w \<and> w_new (add_items i n w) = w_new w"
  proof (cases "m_hole (w_item w i)")
    case None
    let ?w = "SetOwner (OwnNode n) i w"
    have g: "same_geo (w_item w) (w_item ?w)" by simp
    have "index_ok (w_item ?w) (INDEX_Add (w_item ?w) i (m_index (w_node w n)))"
      by (rule INDEX_Add_ok) (use new ix v cg [OF g] in \<open>simp_all add: items_of_def\<close>)
    then show ?thesis using None cg [OF g]
      by (auto simp: add_items_def addToIndex_def items_of_def INDEX_Add_set holes_def)
  next
    case (Some h)
    let ?w1 = "SetOwner (OwnNode n) h w"
    let ?w2 = "addToIndex h n ?w1"
    let ?w3 = "SetOwner (OwnNode n) i ?w2"
    have h: "h \<noteq> i" using hole_not_self [OF ok, of h i] Some by (simp add: holes_def)
    have g1: "same_geo (w_item w) (w_item ?w1)" by simp
    have g3: "same_geo (w_item w) (w_item ?w3)" by (auto simp: same_geo_def geo_def addToIndex_def)
    have 1: "index_ok (w_item w) (INDEX_Add (w_item ?w1) h (m_index (w_node w n)))"
      using INDEX_Add_ok [of "w_item ?w1" "m_index (w_node w n)" h] ix v cg [OF g1] new(2) Some
      by (simp add: items_of_def holes_def)
    have 2: "index_ok (w_item w) (INDEX_Add (w_item ?w3) i (INDEX_Add (w_item ?w1) h (m_index (w_node w n))))"
      using INDEX_Add_ok [of "w_item ?w3" "INDEX_Add (w_item ?w1) h (m_index (w_node w n))" i] 1 v cg [OF g3] new(1) h
        same_geoD(2) [OF g3, of i] by (simp add: items_of_def INDEX_Add_set)
    have "add_items i n w = addToIndex i n ?w3" using Some by (simp add: add_items_def addHole_def)
    then show ?thesis using 2 Some h
      by (auto simp: addToIndex_def items_of_def INDEX_Add_set holes_def)
  qed
  then show "index_ok (w_item w) (m_index (w_node (add_items i n w) n))"
    "set (items_of (add_items i n w) n) = insert i (holes (w_item w) i \<union> set (items_of w n))"
    "w_node (add_items i n w) k = (if k = n then (w_node w n)\<lparr>m_index := m_index (w_node (add_items i n w) n)\<rparr> else w_node w k)"
    "w_item (add_items i n w) k = (if k \<in> insert i (holes (w_item w) i) then (w_item w k)\<lparr>m_owner := OwnNode n\<rparr> else w_item w k)"
    "w_live (add_items i n w) = w_live w" "w_freed (add_items i n w) = w_freed w" "w_new (add_items i n w) = w_new w"
    by blast+
qed

definition same_tree :: "WORLD \<Rightarrow> WORLD \<Rightarrow> bool" where
  "same_tree w w' \<longleftrightarrow> w_live w' = w_live w \<and> w_new w' = w_new w \<and>
    (\<forall>k. m_parent (w_node w' k) = m_parent (w_node w k) \<and> m_root (w_node w' k) = m_root (w_node w k) \<and>
      m_children (w_node w' k) = m_children (w_node w k))"

lemma removeFromIndex_simps [simp]:
  "w_item (removeFromIndex i n w) = w_item w" "w_live (removeFromIndex i n w) = w_live w"
  "w_freed (removeFromIndex i n w) = w_freed w" "w_new (removeFromIndex i n w) = w_new w"
  "w_node (removeFromIndex i n w) k =
    (if k = n then (w_node w n)\<lparr>m_index := INDEX_Remove (w_item w) i (m_index (w_node w n))\<rparr> else w_node w k)"
  "isRoot (removeFromIndex i n w) k = isRoot w k"
  by (simp_all add: removeFromIndex_def isRoot_def)

text \<open>An index from which the items of \<open>S\<close> were removed.\<close>

definition index_less :: "WORLD \<Rightarrow> nat \<Rightarrow> nat set \<Rightarrow> INDEX \<Rightarrow> bool" where
  "index_less w n S ix \<longleftrightarrow> index_ok (w_item w) ix \<and> set (m_allItems ix) = set (items_of w n) - S"

lemma index_less_remove:
  assumes "items_ok (w_item w)" "index_less w n S ix" "same_geo (w_item w) it"
  shows "index_less w n (insert i S) (INDEX_Remove it i ix)"
proof -
  have v: "valid_layers (m_layers (it i))" using assms(1) same_geoD(2) [OF assms(3)] by (simp add: items_ok_def)
  have "index_ok it ix" using assms(2) same_geo_index [OF assms(3)] by (simp add: index_less_def)
  from INDEX_Remove_ok [OF this v] have R: "index_ok it (INDEX_Remove it i ix)"
    "set (m_allItems (INDEX_Remove it i ix)) = set (m_allItems ix) - {i}" by simp_all
  have "index_ok (w_item w) (INDEX_Remove it i ix)"
    by (rule index_ok_cong [OF R(1)]) (simp add: same_geoD(2,3) [OF assms(3)])
  then show ?thesis using R(2) assms(2) by (auto simp: index_less_def)
qed

lemma index_less_start: "index_ok (w_item w) (m_index (w_node w n)) \<Longrightarrow> index_less w n {} (m_index (w_node w n))"
  by (simp add: index_less_def items_of_def)

text \<open>\<open>frame_except n w w'\<close>: nothing but an index, overridden items, garbage and owners changed.\<close>

definition frame_except :: "nat \<Rightarrow> nat \<Rightarrow> WORLD \<Rightarrow> WORLD \<Rightarrow> bool" where
  "frame_except i n w w' \<longleftrightarrow> same_tree w w' \<and> w_freed w' = w_freed w \<and> same_geo (w_item w) (w_item w') \<and>
    (\<forall>k. jmap w' k = jmap w k \<and> set (m_garbageItems (w_node w' k)) \<subseteq> insert i (set (m_garbageItems (w_node w k)))) \<and>
    (\<forall>k. k \<noteq> n \<longrightarrow> m_index (w_node w' k) = m_index (w_node w k) \<and> m_override (w_node w' k) = m_override (w_node w k)) \<and>
    (\<forall>k. k \<notin> insert i (holes (w_item w) i) \<longrightarrow> w_item w' k = w_item w k) \<and>
    (\<forall>h\<in>holes (w_item w) i. m_owner (w_item w' h) = OwnItem i) \<and>
    m_owner (w_item w' i) = (if BelongsTo w i n then NoOwner else m_owner (w_item w i))"

lemma set_set_insert [simp]: "set (set_insert x xs) = insert x (set xs)"
  by (auto simp: set_insert_def)

lemma distinct_set_insert [simp]: "distinct (set_insert x xs) \<longleftrightarrow> distinct xs"
  by (auto simp: set_insert_def)

lemma doRemove_override:
  assumes ok: "items_ok (w_item w)"
    and c: "BelongsTo w i (m_root (w_node w n))" "\<not> isRoot w n" "m_root (w_node w n) \<noteq> n"
  shows "frame_except i n w (removed i n w)"
    "m_index (w_node (removed i n w) n) = m_index (w_node w n)"
    "set (m_override (w_node (removed i n w) n)) = insert i (holes (w_item w) i \<union> set (m_override (w_node w n)))"
    "distinct (m_override (w_node w n)) \<Longrightarrow> distinct (m_override (w_node (removed i n w) n))"
proof -
  have nb: "\<not> BelongsTo w i n" using c by (auto simp: BelongsTo_def)
  have "frame_except i n w (removed i n w) \<and> m_index (w_node (removed i n w) n) = m_index (w_node w n) \<and>
    set (m_override (w_node (removed i n w) n)) = insert i (holes (w_item w) i \<union> set (m_override (w_node w n))) \<and>
    (distinct (m_override (w_node w n)) \<longrightarrow> distinct (m_override (w_node (removed i n w) n)))"
  proof (cases "m_hole (w_item w i)")
    case None
    have "removed i n w = on_node n (\<lambda>x. x\<lparr>m_override := set_insert i (m_override x)\<rparr>) w"
      using None c nb by (simp add: removed_def own_hole_def doRemove_def)
    then show ?thesis using nb None by (auto simp: frame_except_def same_tree_def same_geo_refl holes_def)
  next
    case (Some h)
    have h: "h \<noteq> i" using hole_not_self [OF ok, of h i] Some by (simp add: holes_def)
    have "removed i n w = on_node n (\<lambda>x. x\<lparr>m_override := set_insert h (set_insert i (m_override x))\<rparr>) (SetOwner (OwnItem i) h w)"
      using Some c nb h by (simp add: removed_def own_hole_def doRemove_def BelongsTo_def isRoot_def)
    then show ?thesis using nb Some h by (auto simp: frame_except_def same_tree_def holes_def)
  qed
  then show "frame_except i n w (removed i n w)"
    "m_index (w_node (removed i n w) n) = m_index (w_node w n)"
    "set (m_override (w_node (removed i n w) n)) = insert i (holes (w_item w) i \<union> set (m_override (w_node w n)))"
    "distinct (m_override (w_node w n)) \<Longrightarrow> distinct (m_override (w_node (removed i n w) n))" by blast+
qed

lemma doRemove_index:
  assumes ok: "items_ok (w_item w)" and ix: "index_ok (w_item w) (m_index (w_node w n))"
    and c: "\<not> BelongsTo w i (m_root (w_node w n)) \<or> isRoot w n"
  shows "frame_except i n w (removed i n w)"
    "index_less w n (insert i (holes (w_item w) i)) (m_index (w_node (removed i n w) n))"
    "m_override (w_node (removed i n w) n) = m_override (w_node w n)"
proof -
  let ?r = "m_root (w_node w n)"
  note less = index_less_remove [OF ok]
  note L0 = index_less_start [OF ix]
  have "frame_except i n w (removed i n w) \<and>
    index_less w n (insert i (holes (w_item w) i)) (m_index (w_node (removed i n w) n)) \<and>
    m_override (w_node (removed i n w) n) = m_override (w_node w n)"
  proof (cases "m_hole (w_item w i)")
    case None
    have R: "removed i n w = (if BelongsTo w i n
        then on_node ?r (\<lambda>x. x\<lparr>m_garbageItems := set_insert i (m_garbageItems x)\<rparr>) (SetOwner NoOwner i (removeFromIndex i n w))
        else removeFromIndex i n w)"
      using None c by (cases "isRoot w n") (simp_all add: removed_def own_hole_def doRemove_def Let_def)
    have "index_less w n {i} (m_index (w_node (removed i n w) n))"
      using less [OF L0 same_geo_refl, of i] by (simp add: R)
    then show ?thesis using None by (auto simp: R frame_except_def same_tree_def same_geo_def geo_def holes_def)
  next
    case (Some h)
    have h: "h \<noteq> i" using hole_not_self [OF ok, of h i] Some by (simp add: holes_def)
    let ?w0 = "SetOwner (OwnItem i) h w"
    let ?w1 = "removeFromIndex h n (removeFromIndex i n ?w0)"
    let ?w2 = "on_node ?r (\<lambda>x. x\<lparr>m_garbageItems := set_insert i (m_garbageItems x)\<rparr>) (SetOwner NoOwner i ?w1)"
    have b: "BelongsTo ?w0 i k = BelongsTo w i k" "isRoot ?w0 k = isRoot w k" for k using h by (simp_all add: BelongsTo_def isRoot_def)
    have R: "removed i n w = (if BelongsTo w i n then SetOwner (OwnItem i) h (removeFromIndex h n ?w2) else ?w1)"
      using Some c h by (cases "isRoot w n") (simp_all add: removed_def own_hole_def doRemove_def Let_def b)
    have g0: "same_geo (w_item w) (w_item ?w0)" by simp
    have g2: "same_geo (w_item w) (w_item ?w2)" by (auto simp: same_geo_def geo_def)
    have L1: "index_less w n {h, i} (m_index (w_node ?w1 n))"
      using less [OF less [OF L0 g0, of i] g0, of h] by simp
    have "m_index (w_node ?w2 n) = m_index (w_node ?w1 n)" by simp
    then have L2: "index_less w n {h, i} (INDEX_Remove (w_item ?w2) h (m_index (w_node ?w2 n)))"
      using less [OF L1 g2, of h] by simp
    have "index_less w n {h, i} (m_index (w_node (removed i n w) n))"
      unfolding R using L1 L2 by (cases "BelongsTo w i n") (simp_all del: on_node_simps)
    moreover have "frame_except i n w (removed i n w)"
      using h Some by (auto simp: R frame_except_def same_tree_def same_geo_def geo_def holes_def)
    moreover have "m_override (w_node (removed i n w) n) = m_override (w_node w n)" by (simp add: R)
    ultimately show ?thesis using Some by (simp add: holes_def insert_commute)
  qed
  then show "frame_except i n w (removed i n w)"
    "index_less w n (insert i (holes (w_item w) i)) (m_index (w_node (removed i n w) n))"
    "m_override (w_node (removed i n w) n) = m_override (w_node w n)" by blast+
qed

end
