(* ===== verification/Router_Tree.thy ===== *)
theory Router_Tree
  imports Router_Items
begin

text \<open>
  The tree of branches: every live node but the root hangs under an older live node
  (\<open>tree_ok\<close>), and deleting the branches under a node ends, takes only nodes below it, and
  frees only items those nodes own (\<open>pruned\<close>).
\<close>

subsection \<open>The tree of nodes\<close>

definition tree_ok :: "WORLD \<Rightarrow> nat \<Rightarrow> bool" where
  "tree_ok w r \<longleftrightarrow>
    r \<in> set (w_live w) \<and> m_parent (w_node w r) = None \<and> m_root (w_node w r) = r \<and> distinct (w_live w) \<and>
    (\<forall>n\<in>set (w_live w). n < w_new w \<and> distinct (m_children (w_node w n)) \<and>
      (n \<noteq> r \<longrightarrow> m_root (w_node w n) = r \<and>
        (\<exists>p. m_parent (w_node w n) = Some p \<and> p \<in> set (w_live w) \<and> n \<in> set (m_children (w_node w p)) \<and> p < n)) \<and>
      (\<forall>c\<in>set (m_children (w_node w n)). n < c \<and> m_parent (w_node w c) = Some n \<and> c \<in> set (w_live w)))"

lemma tree_okD:
  assumes "tree_ok w r"
  shows "r \<in> set (w_live w)" "m_parent (w_node w r) = None" "m_root (w_node w r) = r" "distinct (w_live w)"
    "n \<in> set (w_live w) \<Longrightarrow> n < w_new w" "n \<in> set (w_live w) \<Longrightarrow> distinct (m_children (w_node w n))"
    "n \<in> set (w_live w) \<Longrightarrow> n \<noteq> r \<Longrightarrow> m_root (w_node w n) = r"
    "n \<in> set (w_live w) \<Longrightarrow> n \<noteq> r \<Longrightarrow> \<exists>p. m_parent (w_node w n) = Some p \<and> p \<in> set (w_live w) \<and>
      n \<in> set (m_children (w_node w p)) \<and> p < n"
    "n \<in> set (w_live w) \<Longrightarrow> c \<in> set (m_children (w_node w n)) \<Longrightarrow>
      n < c \<and> m_parent (w_node w c) = Some n \<and> c \<in> set (w_live w)"
  using assms unfolding tree_ok_def by blast+

lemma tree_isRoot: "tree_ok w r \<Longrightarrow> n \<in> set (w_live w) \<Longrightarrow> isRoot w n \<longleftrightarrow> n = r"
  using tree_okD(2,8) [of w r] by (fastforce simp: isRoot_def)

lemma same_tree_ok: "same_tree w w' \<Longrightarrow> tree_ok w r \<Longrightarrow> tree_ok w' r"
  unfolding same_tree_def tree_ok_def by simp

lemma same_tree_jset: "same_tree w (jset n J w)"
  by (simp add: same_tree_def)

lemma same_tree_trans: "same_tree a b \<Longrightarrow> same_tree b c \<Longrightarrow> same_tree a c"
  by (simp add: same_tree_def)

text \<open>What deleting the branches under \<open>n\<close> does: it takes nodes whose parents are \<open>n\<close> or taken.\<close>

definition pruned :: "nat \<Rightarrow> WORLD \<Rightarrow> WORLD \<Rightarrow> bool" where
  "pruned n w w' \<longleftrightarrow> w_item w' = w_item w \<and> w_new w' = w_new w \<and> set (w_live w') \<subseteq> set (w_live w) \<and>
    (\<forall>m\<in>set (w_live w) - set (w_live w'). n < m \<and>
      (\<exists>p. m_parent (w_node w m) = Some p \<and> (p = n \<or> p \<in> set (w_live w) - set (w_live w')))) \<and>
    (\<forall>m. \<exists>cs. w_node w' m = (w_node w m)\<lparr>m_children := cs\<rparr>) \<and>
    (\<forall>m\<in>set (w_live w'). m \<noteq> n \<longrightarrow> w_node w' m = w_node w m) \<and>
    (\<exists>xs. w_freed w' = w_freed w @ xs \<and>
      (\<forall>x\<in>set xs. \<exists>k\<in>set (w_live w) - set (w_live w'). m_owner (w_item w x) = OwnNode k))"

lemma prunedD:
  assumes "pruned n w w'"
  shows "w_item w' = w_item w" "w_new w' = w_new w" "set (w_live w') \<subseteq> set (w_live w)"
    "m \<in> set (w_live w) \<Longrightarrow> m \<notin> set (w_live w') \<Longrightarrow> n < m \<and>
      (\<exists>p. m_parent (w_node w m) = Some p \<and> (p = n \<or> p \<in> set (w_live w) - set (w_live w')))"
    "\<exists>cs. w_node w' m = (w_node w m)\<lparr>m_children := cs\<rparr>"
    "m \<in> set (w_live w') \<Longrightarrow> m \<noteq> n \<Longrightarrow> w_node w' m = w_node w m"
    "\<exists>xs. w_freed w' = w_freed w @ xs \<and>
      (\<forall>x\<in>set xs. \<exists>k\<in>set (w_live w) - set (w_live w'). m_owner (w_item w x) = OwnNode k)"
  using assms unfolding pruned_def by blast+

lemma node_children_self: "\<exists>cs. (x :: NODE) = x\<lparr>m_children := cs\<rparr>"
  by (intro exI [of _ "m_children x"]) simp

lemma pruned_refl: "pruned n w w"
  using node_children_self by (simp add: pruned_def)

lemma pruned_parent: "pruned n w w' \<Longrightarrow> m_parent (w_node w' m) = m_parent (w_node w m)"
  using prunedD(5) [of n w w' m] by auto

lemma pruned_trans:
  assumes a: "pruned n w v" and b: "pruned n v u"
  shows "pruned n w u"
  unfolding pruned_def
proof (intro conjI ballI allI impI)
  show "w_item u = w_item w" "w_new u = w_new w" "set (w_live u) \<subseteq> set (w_live w)"
    using prunedD(1-3) [OF a] prunedD(1-3) [OF b] by auto
next
  fix m assume m: "m \<in> set (w_live w) - set (w_live u)"
  show "n < m" using m prunedD(4) [OF a, of m] prunedD(4) [OF b, of m] by blast
  show "\<exists>p. m_parent (w_node w m) = Some p \<and> (p = n \<or> p \<in> set (w_live w) - set (w_live u))"
  proof (cases "m \<in> set (w_live v)")
    case True
    then obtain p where "m_parent (w_node v m) = Some p" "p = n \<or> p \<in> set (w_live v) - set (w_live u)"
      using m prunedD(4) [OF b, of m] by blast
    then show ?thesis using pruned_parent [OF a, of m] prunedD(3) [OF a] by auto
  next
    case False
    then obtain p where "m_parent (w_node w m) = Some p" "p = n \<or> p \<in> set (w_live w) - set (w_live v)"
      using m prunedD(4) [OF a, of m] by blast
    then show ?thesis using prunedD(3) [OF b] by auto
  qed
next
  fix m
  show "\<exists>cs. w_node u m = (w_node w m)\<lparr>m_children := cs\<rparr>"
    using prunedD(5) [OF a, of m] prunedD(5) [OF b, of m] by auto
next
  fix m assume "m \<in> set (w_live u)" "m \<noteq> n"
  then show "w_node u m = w_node w m"
    using prunedD(6) [OF a, of m] prunedD(6) [OF b, of m] prunedD(3) [OF b] by auto
next
  obtain xs ys where x: "w_freed v = w_freed w @ xs" "w_freed u = w_freed v @ ys"
    "\<forall>x\<in>set xs. \<exists>k\<in>set (w_live w) - set (w_live v). m_owner (w_item w x) = OwnNode k"
    "\<forall>x\<in>set ys. \<exists>k\<in>set (w_live v) - set (w_live u). m_owner (w_item v x) = OwnNode k"
    using prunedD(7) [OF a] prunedD(7) [OF b] by blast
  have sub: "set (w_live w) - set (w_live v) \<subseteq> set (w_live w) - set (w_live u)"
    "set (w_live v) - set (w_live u) \<subseteq> set (w_live w) - set (w_live u)"
    using prunedD(3) [OF a] prunedD(3) [OF b] by auto
  have "\<forall>z\<in>set (xs @ ys). \<exists>k\<in>set (w_live w) - set (w_live u). m_owner (w_item w z) = OwnNode k"
    using x(3,4) sub unfolding prunedD(1) [OF a] set_append by blast
  moreover have "w_freed u = w_freed w @ xs @ ys" using x(1,2) by simp
  ultimately show "\<exists>xs. w_freed u = w_freed w @ xs \<and>
      (\<forall>x\<in>set xs. \<exists>k\<in>set (w_live w) - set (w_live u). m_owner (w_item w x) = OwnNode k)"
    by blast
qed

text \<open>Deleting a node without children.\<close>

lemma delete_node_eq:
  assumes "m_parent (w_node w k) = Some p"
  shows "delete_node k w = on_node p (\<lambda>x. x\<lparr>m_children := removeAll k (m_children x)\<rparr>)
    (w\<lparr>w_freed := w_freed w @ filter (\<lambda>i. BelongsTo w i k \<and> m_kind (w_item w i) = HOLE_T) (items_of w k),
      w_live := removeAll k (w_live w)\<rparr>)"
  using assms by (simp add: delete_node_def releaseGarbage_def isRoot_def unlinkParent_def Let_def on_node_def)

lemma delete_node_tree:
  assumes t: "tree_ok w r" and n: "n \<in> set (w_live w)" and k: "k \<in> set (m_children (w_node w n))" "m_children (w_node w k) = []"
  shows "tree_ok (delete_node k w) r" "pruned n w (delete_node k w)"
    "m_children (w_node (delete_node k w) n) = removeAll k (m_children (w_node w n))"
proof -
  have p: "m_parent (w_node w k) = Some n" "n < k" "k \<in> set (w_live w)" using tree_okD(9) [OF t n k(1)] by auto
  note D = delete_node_eq [OF p(1)]
  have r: "k \<noteq> r" using p(1) tree_okD(2) [OF t] by auto
  have live: "set (w_live (delete_node k w)) = set (w_live w) - {k}" by (simp add: D)
  have kid: "k \<notin> set (m_children (w_node w m))" if "m \<in> set (w_live w)" "m \<noteq> n" for m
    using tree_okD(9) [OF t that(1), of k] p(1) that(2) by auto
  show "m_children (w_node (delete_node k w) n) = removeAll k (m_children (w_node w n))" by (simp add: D)
  show "tree_ok (delete_node k w) r"
    unfolding tree_ok_def live
  proof (intro conjI ballI impI)
    show "r \<in> set (w_live w) - {k}" "m_parent (w_node (delete_node k w) r) = None"
      "m_root (w_node (delete_node k w) r) = r" "distinct (w_live (delete_node k w))"
      using tree_okD(1-4) [OF t] r by (auto simp: D distinct_removeAll)
  next
    fix m assume m: "m \<in> set (w_live w) - {k}"
    show "m < w_new (delete_node k w)" "distinct (m_children (w_node (delete_node k w) m))"
      using tree_okD(5,6) [OF t, of m] m by (auto simp: D distinct_removeAll)
    show "m_root (w_node (delete_node k w) m) = r" if "m \<noteq> r" using tree_okD(7) [OF t, of m] m that by (auto simp: D)
    show "\<exists>p. m_parent (w_node (delete_node k w) m) = Some p \<and> p \<in> set (w_live w) - {k} \<and>
        m \<in> set (m_children (w_node (delete_node k w) p)) \<and> p < m" if mr: "m \<noteq> r"
    proof -
      obtain q where q: "m_parent (w_node w m) = Some q" "q \<in> set (w_live w)" "m \<in> set (m_children (w_node w q))" "q < m"
        using tree_okD(8) [OF t, of m] m mr by blast
      moreover have "q \<noteq> k" using q(3) k(2) by auto
      ultimately show ?thesis using m by (intro exI [of _ q]) (auto simp: D)
    qed
    fix c assume c: "c \<in> set (m_children (w_node (delete_node k w) m))"
    then have c': "c \<in> set (m_children (w_node w m))" "c \<noteq> k" using kid [of m] m by (auto simp: D split: if_splits)
    then show "m < c" "m_parent (w_node (delete_node k w) c) = Some m" "c \<in> set (w_live w) - {k}"
      using tree_okD(9) [OF t _ c'(1)] m by (auto simp: D)
  qed
  show "pruned n w (delete_node k w)"
    unfolding pruned_def live
  proof (intro conjI ballI allI impI)
    show "w_item (delete_node k w) = w_item w" "w_new (delete_node k w) = w_new w" "set (w_live w) - {k} \<subseteq> set (w_live w)"
      by (auto simp: D)
    show "n < m" "\<exists>q. m_parent (w_node w m) = Some q \<and> (q = n \<or> q \<in> set (w_live w) - (set (w_live w) - {k}))"
      if "m \<in> set (w_live w) - (set (w_live w) - {k})" for m using that p by auto
    show "\<exists>cs. w_node (delete_node k w) m = (w_node w m)\<lparr>m_children := cs\<rparr>" for m
      using node_children_self [of "w_node w m"] by (cases "m = n") (auto simp: D)
    show "w_node (delete_node k w) m = w_node w m" if "m \<noteq> n" for m using that by (simp add: D)
    show "\<exists>xs. w_freed (delete_node k w) = w_freed w @ xs \<and>
        (\<forall>x\<in>set xs. \<exists>j\<in>set (w_live w) - (set (w_live w) - {k}). m_owner (w_item w x) = OwnNode j)"
      using p(3) by (auto simp: D BelongsTo_def)
  qed
qed

lemma pruned_delete:
  assumes v: "pruned k w v" and kn: "n < k" "m_parent (w_node w k) = Some n" "k \<in> set (w_live w)"
    and kv: "k \<in> set (w_live v)" and out: "k \<noteq> n"
  shows "pruned n w (delete_node k v)"
proof -
  note D = delete_node_eq [of v k n]
  have par: "m_parent (w_node v k) = Some n" using pruned_parent [OF v, of k] kn(2) by simp
  have live: "set (w_live (delete_node k v)) = set (w_live v) - {k}" using D [OF par] by simp
  have sub: "set (w_live w) - set (w_live v) \<subseteq> set (w_live w) - (set (w_live v) - {k})"
    "k \<in> set (w_live w) - (set (w_live v) - {k})"
    using kn(3) by auto
  show ?thesis
    unfolding pruned_def live
  proof (intro conjI ballI allI impI)
    show "w_item (delete_node k v) = w_item w" "w_new (delete_node k v) = w_new w" "set (w_live v) - {k} \<subseteq> set (w_live w)"
      using prunedD(1-3) [OF v] D [OF par] by auto
  next
    fix m assume m: "m \<in> set (w_live w) - (set (w_live v) - {k})"
    have *: "m = k \<or> m \<in> set (w_live w) - set (w_live v)" using m by blast
    show "n < m" using * kn(1) prunedD(4) [OF v, of m] by auto
    show "\<exists>p. m_parent (w_node w m) = Some p \<and> (p = n \<or> p \<in> set (w_live w) - (set (w_live v) - {k}))"
      using * kn(2) prunedD(4) [OF v, of m] sub by blast
  next
    fix m
    show "\<exists>cs. w_node (delete_node k v) m = (w_node w m)\<lparr>m_children := cs\<rparr>"
      using prunedD(5) [OF v, of m] by (auto simp: D [OF par])
  next
    fix m assume "m \<in> set (w_live v) - {k}" "m \<noteq> n"
    then show "w_node (delete_node k v) m = w_node w m" using prunedD(6) [OF v, of m] by (auto simp: D [OF par])
  next
    obtain xs where x: "w_freed v = w_freed w @ xs"
      "\<forall>x\<in>set xs. \<exists>k\<in>set (w_live w) - set (w_live v). m_owner (w_item w x) = OwnNode k"
      using prunedD(7) [OF v] by blast
    define ys where "ys = filter (\<lambda>i. BelongsTo v i k \<and> m_kind (w_item v i) = HOLE_T) (items_of v k)"
    have y: "\<forall>x\<in>set ys. m_owner (w_item w x) = OwnNode k" using prunedD(1) [OF v] by (auto simp: ys_def BelongsTo_def)
    have "\<forall>z\<in>set (xs @ ys). \<exists>j\<in>set (w_live w) - (set (w_live v) - {k}). m_owner (w_item w z) = OwnNode j"
      using x(2) y sub unfolding set_append by blast
    moreover have "w_freed (delete_node k v) = w_freed w @ xs @ ys" using x(1) by (simp add: D [OF par] ys_def)
    ultimately show "\<exists>xs. w_freed (delete_node k v) = w_freed w @ xs \<and>
      (\<forall>x\<in>set xs. \<exists>j\<in>set (w_live w) - (set (w_live v) - {k}). m_owner (w_item w x) = OwnNode j)"
      by blast
  qed
qed

text \<open>The recursion over the branches returns, and nothing under the node is left.\<close>

lemma releaseChildren_step:
  assumes t: "tree_ok w r" and n: "n \<in> set (w_live w)" and k: "m_children (w_node w n) = k # ks"
    and rec: "\<exists>v. releaseChildren_fuel fuel k w = Some v \<and> tree_ok v r \<and> pruned k w v \<and> m_children (w_node v k) = []"
  shows "\<exists>w'. map_option (delete_node k) (releaseChildren_fuel fuel k w) = Some w' \<and> tree_ok w' r \<and> pruned n w w' \<and>
    n \<in> set (w_live w') \<and> m_children (w_node w' n) = ks"
proof -
  have kn: "n < k" "m_parent (w_node w k) = Some n" "k \<in> set (w_live w)" using tree_okD(9) [OF t n, of k] k by auto
  have dist: "distinct (k # ks)" using tree_okD(6) [OF t n] k by simp
  obtain v where v: "releaseChildren_fuel fuel k w = Some v" "tree_ok v r" "pruned k w v" "m_children (w_node v k) = []"
    using rec by blast
  have nv: "n \<in> set (w_live v)" using n prunedD(4) [OF v(3), of n] kn by auto
  have kv: "k \<in> set (w_live v)" using kn(3) prunedD(4) [OF v(3), of k] by auto
  have ch: "m_children (w_node v n) = k # ks" using prunedD(6) [OF v(3) nv] kn(1) k by simp
  have kch: "k \<in> set (m_children (w_node v n))" using ch by simp
  note D = delete_node_tree [OF v(2) nv kch v(4)]
  have "n \<noteq> k" using kn(1) by simp
  then have "n \<in> set (w_live (delete_node k v))"
    using delete_node_eq [of v k n] pruned_parent [OF v(3), of k] kn(2) nv by simp
  moreover have "m_children (w_node (delete_node k v) n) = ks" using D(3) ch dist by simp
  moreover have "pruned n w (delete_node k v)" using pruned_delete [OF v(3) kn kv] kn(1) by simp
  ultimately show ?thesis using v(1) D(1) by simp
qed

abbreviation release_kids :: "nat \<Rightarrow> nat list \<Rightarrow> WORLD option \<Rightarrow> WORLD option" where
  "release_kids fuel ks ow \<equiv> foldl (\<lambda>ow kid. case ow of None \<Rightarrow> None
      | Some w \<Rightarrow> map_option (delete_node kid) (releaseChildren_fuel fuel kid w)) ow ks"

lemma release_kids_total:
  assumes "\<And>w k. tree_ok w r \<Longrightarrow> k \<in> set (w_live w) \<Longrightarrow> w_new w < fuel + k \<Longrightarrow>
      \<exists>v. releaseChildren_fuel fuel k w = Some v \<and> tree_ok v r \<and> pruned k w v \<and> m_children (w_node v k) = []"
    and "tree_ok w r" "n \<in> set (w_live w)" "m_children (w_node w n) = ks" "w_new w < Suc fuel + n"
  shows "\<exists>v. release_kids fuel ks (Some w) = Some v \<and> tree_ok v r \<and> pruned n w v \<and> m_children (w_node v n) = []"
  using assms(2-5)
proof (induction ks arbitrary: w)
  case Nil
  then show ?case using pruned_refl by simp
next
  case (Cons k ks)
  have kn: "n < k" "k \<in> set (w_live w)" using tree_okD(9) [OF Cons.prems(1,2), of k] Cons.prems(3) by auto
  have "\<exists>v. releaseChildren_fuel fuel k w = Some v \<and> tree_ok v r \<and> pruned k w v \<and> m_children (w_node v k) = []"
    using kn Cons.prems(4) by (intro assms(1) [OF Cons.prems(1)]) auto
  from releaseChildren_step [OF Cons.prems(1-3) this] obtain u where
    u: "map_option (delete_node k) (releaseChildren_fuel fuel k w) = Some u" "tree_ok u r" "pruned n w u"
      "n \<in> set (w_live u)" "m_children (w_node u n) = ks" by blast
  have "w_new u < Suc fuel + n" using prunedD(2) [OF u(3)] Cons.prems(4) by simp
  then obtain v where "release_kids fuel ks (Some u) = Some v" "tree_ok v r" "pruned n u v" "m_children (w_node v n) = []"
    using Cons.IH [OF u(2,4,5)] by blast
  then show ?case using u(1) pruned_trans [OF u(3)] by auto
qed

lemma releaseChildren_fuel_total:
  assumes "tree_ok w r" "n \<in> set (w_live w)" "w_new w < fuel + n"
  shows "\<exists>v. releaseChildren_fuel fuel n w = Some v \<and> tree_ok v r \<and> pruned n w v \<and> m_children (w_node v n) = []"
  using assms
proof (induction fuel arbitrary: n w)
  case 0
  then show ?case using tree_okD(5) [of w r n] by simp
next
  case (Suc fuel)
  show ?case
    unfolding releaseChildren_fuel.simps
    using Suc.prems by (intro release_kids_total [OF Suc.IH]) auto
qed

lemma distinct_singleton: "distinct xs \<Longrightarrow> set xs = {x} \<Longrightarrow> xs = [x]"
proof (cases xs)
  case (Cons a ys)
  assume "distinct xs" "set xs = {x}"
  then have "a = x" "set ys \<subseteq> {x}" "a \<notin> set ys" using Cons by auto
  then show ?thesis using Cons by (cases ys) auto
qed simp

lemma only_root_left:
  assumes t: "tree_ok w r" and c: "m_children (w_node w r) = []"
  shows "w_live w = [r]"
proof -
  have "m = r" if "m \<in> set (w_live w)" for m
    using that
  proof (induction m rule: less_induct)
    case (less m)
    show ?case
    proof (rule ccontr)
      assume "m \<noteq> r"
      then obtain p where "p \<in> set (w_live w)" "m \<in> set (m_children (w_node w p))" "p < m"
        using tree_okD(8) [OF t less.prems] by blast
      moreover from this have "p = r" using less.IH by blast
      ultimately show False using c by simp
    qed
  qed
  then have "set (w_live w) = {r}" using tree_okD(1) [OF t] by blast
  then show ?thesis using distinct_singleton [OF tree_okD(4) [OF t]] by simp
qed

end
