(* ===== verification/Router_Commit.thy ===== *)
theory Router_Commit
  imports Router_Tree
begin

text \<open>
  A branch of the router's world stands for a set of visible items: those of the root it does not
  override, and its own. Adding, removing and branching act on this set as they should, and committing a
  branch makes its visible items the items of the root, whose joints then link exactly these items.
\<close>

subsection \<open>Items with their holes\<close>

definition hole_closed :: "(nat \<Rightarrow> ITEM) \<Rightarrow> nat set \<Rightarrow> bool" where
  "hole_closed it S \<longleftrightarrow>
    (\<forall>i\<in>S. m_kind (it i) \<in> insert HOLE_T board_kinds \<and> holes it i \<subseteq> S) \<and>
    (\<forall>h\<in>S. m_kind (it h) = HOLE_T \<longrightarrow> (\<exists>i\<in>S. h \<in> holes it i))"

lemma hole_closedD:
  assumes "hole_closed it S"
  shows "i \<in> S \<Longrightarrow> m_kind (it i) \<in> insert HOLE_T board_kinds" "i \<in> S \<Longrightarrow> h \<in> holes it i \<Longrightarrow> h \<in> S"
    "h \<in> S \<Longrightarrow> m_kind (it h) = HOLE_T \<Longrightarrow> \<exists>i\<in>S. h \<in> holes it i"
  using assms unfolding hole_closed_def by blast+

lemma hole_closedI:
  assumes "\<And>i. i \<in> S \<Longrightarrow> m_kind (it i) \<in> insert HOLE_T board_kinds" "\<And>i h. i \<in> S \<Longrightarrow> h \<in> holes it i \<Longrightarrow> h \<in> S"
    "\<And>h. h \<in> S \<Longrightarrow> m_kind (it h) = HOLE_T \<Longrightarrow> \<exists>i\<in>S. h \<in> holes it i"
  shows "hole_closed it S"
  using assms unfolding hole_closed_def by blast

lemma one_owner: "items_ok it \<Longrightarrow> h \<in> holes it i \<Longrightarrow> h \<in> holes it j \<Longrightarrow> i = j"
  unfolding items_ok_def holes_def by (auto split: option.splits)

lemma hole_closed_empty: "hole_closed it {}"
  by (simp add: hole_closed_def)

lemma hole_closed_cong: "same_geo it it' \<Longrightarrow> hole_closed it' S = hole_closed it S"
  by (simp add: hole_closed_def same_geoD same_geo_holes)

lemma hole_closed_Un: "hole_closed it S \<Longrightarrow> hole_closed it T \<Longrightarrow> hole_closed it (S \<union> T)"
  unfolding hole_closed_def by blast

lemma hole_closed_Diff:
  assumes ok: "items_ok it" and S: "hole_closed it S" and T: "hole_closed it T"
  shows "hole_closed it (S - T)"
proof (rule hole_closedI)
  fix i assume i: "i \<in> S - T"
  then show "m_kind (it i) \<in> insert HOLE_T board_kinds" using hole_closedD(1) [OF S] by blast
  fix h assume h: "h \<in> holes it i"
  have "h \<notin> T"
  proof
    assume "h \<in> T"
    then obtain j where "j \<in> T" "h \<in> holes it j" using hole_closedD(3) [OF T] hole_not_self [OF ok h] by blast
    then show False using one_owner [OF ok h] i by blast
  qed
  then show "h \<in> S - T" using hole_closedD(2) [OF S _ h] i by blast
next
  fix h assume "h \<in> S - T" "m_kind (it h) = HOLE_T"
  then show "\<exists>i\<in>S - T. h \<in> holes it i" using hole_closedD(3) [OF S, of h] hole_closedD(2) [OF T] by blast
qed

lemma hole_closed_single:
  assumes ok: "items_ok it" and i: "m_kind (it i) \<in> board_kinds"
  shows "hole_closed it (insert i (holes it i))"
proof (rule hole_closedI)
  fix j assume j: "j \<in> insert i (holes it i)"
  then show "m_kind (it j) \<in> insert HOLE_T board_kinds" using i hole_not_self [OF ok] by blast
  fix h assume h: "h \<in> holes it j"
  have "j = i" using j hole_not_self [OF ok, of j i] h by (auto simp: holes_def)
  then show "h \<in> insert i (holes it i)" using h by blast
next
  fix h assume h: "h \<in> insert i (holes it i)" "m_kind (it h) = HOLE_T"
  then have "h \<noteq> i" using i by (auto simp: board_kinds_def)
  then show "\<exists>j\<in>insert i (holes it i). h \<in> holes it j" using h by blast
qed

text \<open>The items of a list that are not holes, with their holes.\<close>

definition with_holes :: "(nat \<Rightarrow> ITEM) \<Rightarrow> nat list \<Rightarrow> nat set" where
  "with_holes it is = (\<Union>i\<in>{i \<in> set is. m_kind (it i) \<noteq> HOLE_T}. insert i (holes it i))"

lemma holder_kind: "items_ok it \<Longrightarrow> h \<in> holes it i \<Longrightarrow> m_kind (it i) \<in> {VIA_T, SOLID_T}"
  unfolding items_ok_def holes_def by (auto split: option.splits)

lemma with_holes_closed:
  assumes ok: "items_ok it" and c: "hole_closed it (set is)"
  shows "with_holes it is = set is"
proof
  show "with_holes it is \<subseteq> set is" using hole_closedD(2) [OF c] unfolding with_holes_def by blast
  show "set is \<subseteq> with_holes it is"
  proof
    fix x assume x: "x \<in> set is"
    show "x \<in> with_holes it is"
    proof (cases "m_kind (it x) = HOLE_T")
      case True
      then obtain i where i: "i \<in> set is" "x \<in> holes it i" using hole_closedD(3) [OF c x] by blast
      then have "m_kind (it i) \<noteq> HOLE_T" using holder_kind [OF ok i(2)] by auto
      then show ?thesis using i unfolding with_holes_def by blast
    next
      case False
      then show ?thesis using x unfolding with_holes_def by blast
    qed
  qed
qed

lemma with_holes_Nil [simp]: "with_holes it [] = {}"
  by (simp add: with_holes_def)

lemma with_holes_Cons: "with_holes it (x # xs) =
    (if m_kind (it x) = HOLE_T then with_holes it xs else insert x (holes it x) \<union> with_holes it xs)"
  by (auto simp: with_holes_def)

lemma with_holes_cong: "same_geo it it' \<Longrightarrow> with_holes it' is = with_holes it is"
  by (simp add: with_holes_def same_geoD same_geo_holes)

subsection \<open>Changing the root\<close>

text \<open>An item of the root is owned by the root, unless it is a hole, which its via may own.\<close>

definition root_own :: "WORLD \<Rightarrow> nat \<Rightarrow> nat \<Rightarrow> bool" where
  "root_own w r i \<longleftrightarrow> m_owner (w_item w i) = OwnNode r \<or>
    m_kind (w_item w i) = HOLE_T \<and> (\<forall>k. m_owner (w_item w i) \<noteq> OwnNode k)"

text \<open>The root \<open>r\<close> of \<open>w\<close> holds the items \<open>S\<close>; else \<open>w\<close> is the world \<open>w0\<close>.\<close>

definition root_holds :: "WORLD \<Rightarrow> nat \<Rightarrow> nat set \<Rightarrow> WORLD \<Rightarrow> bool" where
  "root_holds w0 r S w \<longleftrightarrow>
    items_ok (w_item w) \<and> same_tree w0 w \<and> w_freed w = w_freed w0 \<and> same_geo (w_item w0) (w_item w) \<and>
    index_ok (w_item w) (m_index (w_node w r)) \<and> set (items_of w r) = S \<and>
    exact (w_item w) (jmap w r) (links_of (w_item w) S) \<and> (\<forall>i\<in>S. root_own w r i) \<and>
    (\<forall>k. k \<noteq> r \<longrightarrow> m_index (w_node w k) = m_index (w_node w0 k) \<and> m_override (w_node w k) = m_override (w_node w0 k)) \<and>
    (\<forall>i\<in>set (m_garbageItems (w_node w r)). m_kind (w_item w i) \<noteq> HOLE_T)"

lemma root_holdsD:
  assumes "root_holds w0 r S w"
  shows "items_ok (w_item w)" "same_tree w0 w" "w_freed w = w_freed w0" "same_geo (w_item w0) (w_item w)"
    "index_ok (w_item w) (m_index (w_node w r))" "set (items_of w r) = S"
    "exact (w_item w) (jmap w r) (links_of (w_item w) S)" "i \<in> S \<Longrightarrow> root_own w r i"
    "k \<noteq> r \<Longrightarrow> m_index (w_node w k) = m_index (w_node w0 k) \<and> m_override (w_node w k) = m_override (w_node w0 k)"
    "i \<in> set (m_garbageItems (w_node w r)) \<Longrightarrow> m_kind (w_item w i) \<noteq> HOLE_T"
  using assms unfolding root_holds_def by blast+

lemma same_tree_refl: "same_tree w w"
  by (simp add: same_tree_def)

lemma same_tree_root: "same_tree w w' \<Longrightarrow> isRoot w' n = isRoot w n"
  by (simp add: same_tree_def isRoot_def)

lemma links_of_Diff: "items_ok it \<Longrightarrow> links_of it (S - insert i (holes it i)) = links_of it S - {i} \<times> anchors (it i)"
  using holes_no_anchors [of it _ i] by (auto simp: links_of_def)

lemma links_of_insert: "items_ok it \<Longrightarrow> links_of it (insert i (holes it i \<union> S)) = links_of it S \<union> {i} \<times> anchors (it i)"
  using holes_no_anchors [of it _ i] by (auto simp: links_of_def)

lemma exact_same_geo_iff: "same_geo it it' \<Longrightarrow> exact it' m K \<longleftrightarrow> exact it m K"
  using same_geo_exact [of it it'] same_geo_exact [of it' it] by (auto simp: same_geo_def)

lemma frame_exceptD:
  assumes "frame_except i n w w'"
  shows "same_tree w w'" "w_freed w' = w_freed w" "same_geo (w_item w) (w_item w')" "jmap w' k = jmap w k"
    "set (m_garbageItems (w_node w' k)) \<subseteq> insert i (set (m_garbageItems (w_node w k)))"
    "k \<noteq> n \<Longrightarrow> m_index (w_node w' k) = m_index (w_node w k) \<and> m_override (w_node w' k) = m_override (w_node w k)"
    "x \<notin> insert i (holes (w_item w) i) \<Longrightarrow> w_item w' x = w_item w x"
    "h \<in> holes (w_item w) i \<Longrightarrow> m_owner (w_item w' h) = OwnItem i"
    "m_owner (w_item w' i) = (if BelongsTo w i n then NoOwner else m_owner (w_item w i))"
  using assms unfolding frame_except_def by blast+

lemma frame_except_jset:
  assumes "frame_except i n w w'"
  shows "same_tree w (jset n J w')" "w_freed (jset n J w') = w_freed w" "w_item (jset n J w') = w_item w'"
  using frame_exceptD(1,2) [OF assms] by (simp_all add: same_tree_def)

lemma root_remove:
  assumes h: "root_holds w0 r S w" and x: "x \<in> S" "m_kind (w_item w x) \<in> board_kinds" and r: "isRoot w0 r"
  shows "\<exists>w'. NODE_Remove x r w = Some w' \<and> root_holds w0 r (S - insert x (holes (w_item w) x)) w'"
proof -
  note H = root_holdsD [OF h]
  have rw: "isRoot w r" using same_tree_root [OF H(2)] r by simp
  have "{x} \<times> anchors (w_item w x) \<subseteq> links_of (w_item w) S" using x(1) by (auto simp: links_of_def)
  from NODE_Remove_root [OF x(2) H(1) rw H(7) this] obtain J where
    J: "NODE_Remove x r w = Some (jset r J (removed x r w))" "exact (w_item w) J (links_of (w_item w) S - {x} \<times> anchors (w_item w x))"
    by blast
  have "\<not> BelongsTo w x (m_root (w_node w r)) \<or> isRoot w r" using rw by blast
  note R = doRemove_index [OF H(1,5) this]
  note F = frame_exceptD [OF R(1)]
  let ?w' = "jset r J (removed x r w)"
  have nh: "m_kind (w_item w x) \<noteq> HOLE_T" using x(2) by (auto simp: board_kinds_def)
  have "root_holds w0 r (S - insert x (holes (w_item w) x)) ?w'"
    unfolding root_holds_def
  proof (intro conjI allI ballI impI)
    show "items_ok (w_item ?w')" using same_geo_items_ok [OF F(3) H(1)] by simp
    show "same_tree w0 ?w'" by (rule same_tree_trans [OF H(2) frame_except_jset(1) [OF R(1)]])
    show "w_freed ?w' = w_freed w0" using frame_except_jset(2) [OF R(1)] H(3) by simp
    show "same_geo (w_item w0) (w_item ?w')" using same_geo_trans [OF H(4) F(3)] by simp
    show "index_ok (w_item ?w') (m_index (w_node ?w' r))"
      using same_geo_index [OF F(3)] R(2) unfolding index_less_def jset_simps by blast
    show "set (items_of ?w' r) = S - insert x (holes (w_item w) x)"
      using R(2) H(6) unfolding index_less_def jset_simps items_of_def by blast
    show "exact (w_item ?w') (jmap ?w' r) (links_of (w_item ?w') (S - insert x (holes (w_item w) x)))"
      using J(2) links_of_Diff [OF H(1), of S x] same_geo_links [OF F(3)] same_geo_exact [OF F(3)] by simp
  next
    fix i assume i: "i \<in> S - insert x (holes (w_item w) x)"
    then have "w_item ?w' i = w_item w i" using F(7) [of i] by simp
    then show "root_own ?w' r i" using H(8) [of i] i by (simp add: root_own_def)
  next
    fix k assume k: "k \<noteq> r"
    show "m_index (w_node ?w' k) = m_index (w_node w0 k)" "m_override (w_node ?w' k) = m_override (w_node w0 k)"
      using F(6) [OF k] H(9) [OF k] by simp_all
  next
    fix i assume "i \<in> set (m_garbageItems (w_node ?w' r))"
    then have "i = x \<or> i \<in> set (m_garbageItems (w_node w r))" using F(5) [of r] by auto
    then show "m_kind (w_item ?w' i) \<noteq> HOLE_T" using H(10) nh same_geoD(1) [OF F(3), of i] by auto
  qed
  then show ?thesis using J(1) by blast
qed

lemma root_add:
  assumes h: "root_holds w0 r S w" and x: "m_kind (w_item w x) \<in> board_kinds" "x \<notin> S" "holes (w_item w) x \<inter> S = {}"
    and r: "isRoot w0 r"
  shows "root_holds w0 r (insert x (holes (w_item w) x \<union> S)) (NODE_add x r w)"
proof -
  note H = root_holdsD [OF h]
  have rw: "isRoot w r" using same_tree_root [OF H(2)] r by simp
  from NODE_add_parts [OF H(1) x(1), of r "links_of (w_item w) S"] rw H(7) obtain J where
    J: "NODE_add x r w = jset r J (add_items x r w)" "exact (w_item w) J (links_of (w_item w) S \<union> {x} \<times> anchors (w_item w x))"
    by blast
  note A = add_items_effect [OF H(1,5)]
  have new: "x \<notin> set (items_of w r)" "holes (w_item w) x \<inter> set (items_of w r) = {}" using x(2,3) H(6) by auto
  let ?w' = "jset r J (add_items x r w)"
  have g: "same_geo (w_item w) (w_item ?w')" using A(4) [OF new] by (simp add: same_geo_def geo_def)
  have node: "w_node (add_items x r w) k = (if k = r then (w_node w r)\<lparr>m_index := m_index (w_node (add_items x r w) r)\<rparr> else w_node w k)"
    for k using A(3) [OF new] .
  have tree: "m_parent (w_node (add_items x r w) k) = m_parent (w_node w k)" "m_root (w_node (add_items x r w) k) = m_root (w_node w k)"
    "m_children (w_node (add_items x r w) k) = m_children (w_node w k)" for k
    by (subst node, simp)+
  have "root_holds w0 r (insert x (holes (w_item w) x \<union> S)) ?w'"
    unfolding root_holds_def
  proof (intro conjI allI ballI impI)
    show "items_ok (w_item ?w')" using same_geo_items_ok [OF g H(1)] .
    have "same_tree w ?w'" using A(5,7) [OF new] tree by (simp add: same_tree_def)
    then show "same_tree w0 ?w'" by (rule same_tree_trans [OF H(2)])
    show "w_freed ?w' = w_freed w0" using A(6) [OF new] H(3) by simp
    show "same_geo (w_item w0) (w_item ?w')" by (rule same_geo_trans [OF H(4) g])
    show "index_ok (w_item ?w') (m_index (w_node ?w' r))"
      by (rule same_geo_index [OF g]) (use A(1) [OF new] in simp)
    show "set (items_of ?w' r) = insert x (holes (w_item w) x \<union> S)" using A(2) [OF new] H(6) by simp
    show "exact (w_item ?w') (jmap ?w' r) (links_of (w_item ?w') (insert x (holes (w_item w) x \<union> S)))"
      unfolding exact_same_geo_iff [OF g] same_geo_links [OF g] links_of_insert [OF H(1)] using J(2) by simp
  next
    fix i assume "i \<in> insert x (holes (w_item w) x \<union> S)"
    then show "root_own ?w' r i" using H(8) [of i] A(4) [OF new, of i] by (auto simp: root_own_def)
  next
    fix k assume k: "k \<noteq> r"
    show "m_index (w_node ?w' k) = m_index (w_node w0 k)" "m_override (w_node ?w' k) = m_override (w_node w0 k)"
      using node [of k] H(9) [OF k] k by simp_all
  next
    fix i assume "i \<in> set (m_garbageItems (w_node ?w' r))"
    then have "i \<in> set (m_garbageItems (w_node w r))" using arg_cong [OF node [of r], of m_garbageItems] by simp
    then show "m_kind (w_item ?w' i) \<noteq> HOLE_T" using H(10) same_geoD(1) [OF g, of i] by simp
  qed
  then show ?thesis using J(1) by simp
qed

text \<open>The two loops of \<open>Commit\<close>.\<close>

lemma root_remove_all:
  assumes "root_holds w0 r S w" "isRoot w0 r" "hole_closed (w_item w) S" "distinct is"
    "\<And>x. x \<in> set is \<Longrightarrow> m_kind (w_item w x) \<noteq> HOLE_T \<Longrightarrow> x \<in> S"
    "\<And>x. x \<in> set is \<Longrightarrow> m_kind (w_item w x) \<in> insert HOLE_T board_kinds"
  shows "\<exists>w'. Remove_all is r w = Some w' \<and> root_holds w0 r (S - with_holes (w_item w0) is) w'"
  using assms
proof (induction "is" arbitrary: w S)
  case Nil
  then show ?case by simp
next
  case (Cons x xs)
  note H = root_holdsD [OF Cons.prems(1)]
  note g0 = with_holes_Cons [of "w_item w0" x xs] same_geoD(1) [OF H(4), of x] same_geo_holes [OF H(4), of x]
  show ?case
  proof (cases "m_kind (w_item w x) = HOLE_T")
    case True
    have "NODE_Remove x r w = Some w" using True by (simp add: NODE_Remove_def)
    moreover have "\<exists>w'. Remove_all xs r w = Some w' \<and> root_holds w0 r (S - with_holes (w_item w0) xs) w'"
      using Cons.prems by (intro Cons.IH) auto
    ultimately show ?thesis using True g0 by simp
  next
    case False
    have k: "m_kind (w_item w x) \<in> board_kinds" "x \<in> S" using False Cons.prems(5,6) [of x] by auto
    from root_remove [OF Cons.prems(1) k(2,1) Cons.prems(2)] obtain v where
      v: "NODE_Remove x r w = Some v" "root_holds w0 r (S - insert x (holes (w_item w) x)) v" by blast
    note V = root_holdsD [OF v(2)]
    have g: "same_geo (w_item w) (w_item v)" using H(4) V(4) unfolding same_geo_def by simp
    have "\<exists>w'. Remove_all xs r v = Some w' \<and>
      root_holds w0 r (S - insert x (holes (w_item w) x) - with_holes (w_item w0) xs) w'"
    proof (rule Cons.IH [OF v(2) Cons.prems(2)])
      show "hole_closed (w_item v) (S - insert x (holes (w_item w) x))"
        using hole_closed_Diff [OF H(1) Cons.prems(3) hole_closed_single [OF H(1) k(1)]] hole_closed_cong [OF g] by simp
      show "distinct xs" using Cons.prems(4) by simp
      fix y assume y: "y \<in> set xs"
      show "m_kind (w_item v y) \<in> insert HOLE_T board_kinds" using Cons.prems(6) [of y] y same_geoD(1) [OF g] by simp
      assume nh: "m_kind (w_item v y) \<noteq> HOLE_T"
      have "y \<noteq> x" using y Cons.prems(4) by auto
      moreover have "y \<notin> holes (w_item w) x" using hole_not_self [OF H(1)] nh same_geoD(1) [OF g] by auto
      ultimately show "y \<in> S - insert x (holes (w_item w) x)" using Cons.prems(5) [of y] y nh same_geoD(1) [OF g] by simp
    qed
    moreover have "S - insert x (holes (w_item w) x) - with_holes (w_item w0) xs = S - with_holes (w_item w0) (x # xs)"
      using False g0 by auto
    ultimately show ?thesis using v(1) by simp
  qed
qed

lemma root_holds_geo:
  assumes h: "root_holds w0 r S w" and w': "w_node w' = w_node w" "w_live w' = w_live w" "w_freed w' = w_freed w" "w_new w' = w_new w"
    and g: "same_geo (w_item w) (w_item w')" and own: "\<And>i. i \<in> S \<Longrightarrow> m_owner (w_item w' i) = m_owner (w_item w i)"
  shows "root_holds w0 r S w'"
proof -
  note H = root_holdsD [OF h]
  show ?thesis
    unfolding root_holds_def
  proof (intro conjI allI ballI impI)
    show "items_ok (w_item w')" by (rule same_geo_items_ok [OF g H(1)])
    show "same_tree w0 w'" using H(2) w' by (simp add: same_tree_def)
    show "w_freed w' = w_freed w0" using H(3) w' by simp
    show "same_geo (w_item w0) (w_item w')" by (rule same_geo_trans [OF H(4) g])
    show "index_ok (w_item w') (m_index (w_node w' r))" using same_geo_index [OF g H(5)] w' by simp
    show "set (items_of w' r) = S" using H(6) w' by (simp add: items_of_def)
    show "exact (w_item w') (jmap w' r) (links_of (w_item w') S)"
      unfolding exact_same_geo_iff [OF g] same_geo_links [OF g] w' by (rule H(7))
    show "root_own w' r i" if "i \<in> S" for i using H(8) [OF that] own [OF that] same_geoD(1) [OF g, of i] by (simp add: root_own_def)
    show "m_index (w_node w' k) = m_index (w_node w0 k)" "m_override (w_node w' k) = m_override (w_node w0 k)" if "k \<noteq> r" for k
      using H(9) [OF that] w' by simp_all
    show "m_kind (w_item w' i) \<noteq> HOLE_T" if "i \<in> set (m_garbageItems (w_node w' r))" for i
      using H(10) [of i] that w' same_geoD(1) [OF g, of i] by simp
  qed
qed

lemma root_commit_item:
  assumes h: "root_holds w0 r S w" and r: "isRoot w0 r" and k: "m_kind (w_item w x) \<in> insert HOLE_T board_kinds"
    and new: "m_kind (w_item w x) \<noteq> HOLE_T \<Longrightarrow> x \<notin> S \<and> holes (w_item w) x \<inter> S = {}"
  shows "root_holds w0 r (with_holes (w_item w0) [x] \<union> S) (commit_item r x w)"
proof -
  note H = root_holdsD [OF h]
  have x: "holes (w_item w) x \<inter> S = {}"
    using new holder_kind [OF H(1), of _ x] by (cases "m_kind (w_item w x) = HOLE_T") auto
  let ?v = "on_item x (\<lambda>y. y\<lparr>m_rank := - 1, m_marker := 0\<rparr>) (own_hole x w)"
  have eq: "commit_item r x w = NODE_add x r ?v" by (simp add: commit_item_def own_hole_def Let_def)
  have g: "same_geo (w_item w) (w_item ?v)"
    by (rule same_geo_trans [OF own_hole_simps(5)]) (auto simp: same_geo_def geo_def)
  have own: "m_owner (w_item ?v i) = m_owner (w_item w i)" if "i \<in> S" for i
    using that x by (auto simp: own_hole_def holes_def split: option.splits)
  have v: "root_holds w0 r S ?v"
    by (rule root_holds_geo [OF h _ _ _ _ g]) (use own in simp_all)
  have wx: "with_holes (w_item w0) [x] = (if m_kind (w_item w x) = HOLE_T then {} else insert x (holes (w_item w) x))"
    using same_geoD(1) [OF H(4), of x] same_geo_holes [OF H(4), of x] by (simp add: with_holes_Cons)
  show ?thesis
  proof (cases "m_kind (w_item w x) = HOLE_T")
    case True
    then have "NODE_add x r ?v = ?v" using same_geoD(1) [OF g, of x] by (simp add: NODE_add_def)
    then show ?thesis unfolding eq using v wx True by simp
  next
    case False
    then have kv: "m_kind (w_item ?v x) \<in> board_kinds" using k same_geoD(1) [OF g, of x] by simp
    have hv: "holes (w_item ?v) x \<inter> S = {}" using x same_geo_holes [OF g] by simp
    have xv: "x \<notin> S" using new False by blast
    from root_add [OF v kv xv hv r] show ?thesis unfolding eq wx using False same_geo_holes [OF g, of x] by simp
  qed
qed

lemma root_commit_items:
  assumes "root_holds w0 r S w" "isRoot w0 r" "items_ok (w_item w0)" "distinct is"
    "\<And>x. x \<in> set is \<Longrightarrow> m_kind (w_item w0 x) \<in> insert HOLE_T board_kinds"
    "\<And>x. x \<in> set is \<Longrightarrow> m_kind (w_item w0 x) \<noteq> HOLE_T \<Longrightarrow> x \<notin> S \<and> holes (w_item w0) x \<inter> S = {}"
  shows "root_holds w0 r (with_holes (w_item w0) is \<union> S) (foldl (\<lambda>w i. commit_item r i w) w is)"
  using assms(1,4-6)
proof (induction "is" arbitrary: w S)
  case Nil
  then show ?case by simp
next
  case (Cons x xs)
  have g: "same_geo (w_item w0) (w_item w)" using root_holdsD(4) [OF Cons.prems(1)] .
  have c: "root_holds w0 r (with_holes (w_item w0) [x] \<union> S) (commit_item r x w)"
    using Cons.prems(3,4) [of x] same_geoD(1) [OF g, of x] same_geo_holes [OF g, of x]
    by (intro root_commit_item [OF Cons.prems(1) assms(2)]) auto
  have dis: "y \<noteq> x \<and> y \<notin> holes (w_item w0) x \<and> holes (w_item w0) y \<inter> insert x (holes (w_item w0) x) = {}"
    if "y \<in> set xs" "m_kind (w_item w0 y) \<noteq> HOLE_T" "m_kind (w_item w0 x) \<noteq> HOLE_T" for y
  proof -
    have "y \<noteq> x" using that(1) Cons.prems(2) by auto
    then show ?thesis
      using that(2,3) hole_not_self [OF assms(3)] one_owner [OF assms(3), of _ y x] by blast
  qed
  have "root_holds w0 r (with_holes (w_item w0) xs \<union> (with_holes (w_item w0) [x] \<union> S))
      (foldl (\<lambda>w i. commit_item r i w) (commit_item r x w) xs)"
  proof (rule Cons.IH [OF c])
    show "distinct xs" using Cons.prems(2) by simp
    fix y assume y: "y \<in> set xs"
    show "m_kind (w_item w0 y) \<in> insert HOLE_T board_kinds" using Cons.prems(3) [of y] y by simp
    assume "m_kind (w_item w0 y) \<noteq> HOLE_T"
    then show "y \<notin> with_holes (w_item w0) [x] \<union> S \<and> holes (w_item w0) y \<inter> (with_holes (w_item w0) [x] \<union> S) = {}"
      using Cons.prems(4) [of y] y dis [OF y] by (auto simp: with_holes_Cons)
  qed
  moreover have "with_holes (w_item w0) (x # xs) \<union> S = with_holes (w_item w0) xs \<union> (with_holes (w_item w0) [x] \<union> S)"
    by (auto simp: with_holes_Cons)
  ultimately show ?case by simp
qed

subsection \<open>Worlds\<close>

definition node_ok :: "WORLD \<Rightarrow> nat \<Rightarrow> nat \<Rightarrow> bool" where
  "node_ok w r n \<longleftrightarrow>
    index_ok (w_item w) (m_index (w_node w n)) \<and> hole_closed (w_item w) (set (items_of w n)) \<and>
    set (items_of w n) \<inter> set (w_freed w) = {} \<and>
    (if n = r then \<forall>i\<in>set (items_of w r). root_own w r i
     else set (m_override (w_node w n)) \<subseteq> set (items_of w r) \<and> hole_closed (w_item w) (set (m_override (w_node w n))) \<and>
       distinct (m_override (w_node w n)) \<and> set (items_of w n) \<inter> set (items_of w r) = {} \<and>
       (\<forall>i\<in>set (items_of w n). m_owner (w_item w i) \<noteq> OwnNode r))"

definition world_ok :: "WORLD \<Rightarrow> nat \<Rightarrow> bool" where
  "world_ok w r \<longleftrightarrow> items_ok (w_item w) \<and> tree_ok w r \<and> (\<forall>n\<in>set (w_live w). node_ok w r n) \<and>
    (\<forall>i\<in>set (m_garbageItems (w_node w r)). m_kind (w_item w i) \<noteq> HOLE_T) \<and>
    exact (w_item w) (jmap w r) (links_of (w_item w) (set (items_of w r)))"

text \<open>The items a branch stands for.\<close>

definition visible :: "WORLD \<Rightarrow> nat \<Rightarrow> nat set" where
  "visible w n = (if isRoot w n then set (items_of w n)
    else set (items_of w n) \<union> (set (items_of w (m_root (w_node w n))) - set (m_override (w_node w n))))"

lemma world_okD:
  assumes "world_ok w r"
  shows "items_ok (w_item w)" "tree_ok w r" "n \<in> set (w_live w) \<Longrightarrow> node_ok w r n"
    "i \<in> set (m_garbageItems (w_node w r)) \<Longrightarrow> m_kind (w_item w i) \<noteq> HOLE_T"
    "exact (w_item w) (jmap w r) (links_of (w_item w) (set (items_of w r)))"
  using assms unfolding world_ok_def by blast+

lemma node_okD:
  assumes "node_ok w r n"
  shows "index_ok (w_item w) (m_index (w_node w n))" "hole_closed (w_item w) (set (items_of w n))"
    "set (items_of w n) \<inter> set (w_freed w) = {}"
    "n = r \<Longrightarrow> i \<in> set (items_of w r) \<Longrightarrow> root_own w r i"
    "n \<noteq> r \<Longrightarrow> set (m_override (w_node w n)) \<subseteq> set (items_of w r)"
    "n \<noteq> r \<Longrightarrow> hole_closed (w_item w) (set (m_override (w_node w n)))"
    "n \<noteq> r \<Longrightarrow> distinct (m_override (w_node w n))"
    "n \<noteq> r \<Longrightarrow> set (items_of w n) \<inter> set (items_of w r) = {}"
    "n \<noteq> r \<Longrightarrow> i \<in> set (items_of w n) \<Longrightarrow> m_owner (w_item w i) \<noteq> OwnNode r"
  using assms unfolding node_ok_def by (auto split: if_splits)

lemma visible_root: "world_ok w r \<Longrightarrow> visible w r = set (items_of w r)"
  using tree_isRoot [OF world_okD(2)] tree_okD(1) [OF world_okD(2)] by (simp add: visible_def)

lemma visible_branch: "world_ok w r \<Longrightarrow> n \<in> set (w_live w) \<Longrightarrow> n \<noteq> r \<Longrightarrow>
    visible w n = set (items_of w n) \<union> (set (items_of w r) - set (m_override (w_node w n)))"
  using tree_isRoot [OF world_okD(2)] tree_okD(7) [OF world_okD(2)] by (simp add: visible_def)

lemma root_holds_start:
  assumes "world_ok w r"
  shows "root_holds w r (set (items_of w r)) w"
proof -
  have "node_ok w r r" using world_okD(3) [OF assms] tree_okD(1) [OF world_okD(2) [OF assms]] by blast
  then show ?thesis
    using world_okD(1,4,5) [OF assms] node_okD(1,4) [of w r r]
    by (simp add: root_holds_def same_tree_refl same_geo_refl)
qed

text \<open>When the branches are gone, what the root holds is all there is to a world.\<close>

lemma root_holds_world:
  assumes h: "root_holds w0 r S w" and t: "tree_ok w0 r" "w_live w0 = [r]" and S: "hole_closed (w_item w) S" "S \<inter> set (w_freed w) = {}"
  shows "world_ok w r"
proof -
  note H = root_holdsD [OF h]
  have t': "tree_ok w r" by (rule same_tree_ok [OF H(2) t(1)])
  have "w_live w = [r]" using H(2) t(2) by (simp add: same_tree_def)
  moreover have "node_ok w r r" using H(5,6,8) S by (simp add: node_ok_def)
  ultimately show ?thesis using H(1,6,7,10) t' by (simp add: world_ok_def)
qed

lemma pruned_root:
  assumes p: "pruned r w v" and own: "\<And>i. i \<in> set (items_of w r) \<Longrightarrow> root_own w r i"
    and free: "set (items_of w r) \<inter> set (w_freed w) = {}"
  shows "items_of v r = items_of w r" "jmap v r = jmap w r" "m_garbageItems (w_node v r) = m_garbageItems (w_node w r)"
    "m_index (w_node v r) = m_index (w_node w r)" "set (items_of w r) \<inter> set (w_freed v) = {}"
proof -
  obtain cs where "w_node v r = (w_node w r)\<lparr>m_children := cs\<rparr>" using prunedD(5) [OF p] by blast
  then show "items_of v r = items_of w r" "jmap v r = jmap w r" "m_garbageItems (w_node v r) = m_garbageItems (w_node w r)"
    "m_index (w_node v r) = m_index (w_node w r)" by (simp_all add: items_of_def)
  obtain xs where x: "w_freed v = w_freed w @ xs"
    "\<forall>x\<in>set xs. \<exists>k\<in>set (w_live w) - set (w_live v). m_owner (w_item w x) = OwnNode k"
    using prunedD(7) [OF p] by blast
  have "i \<notin> set xs" if "i \<in> set (items_of w r)" for i
  proof
    assume "i \<in> set xs"
    then obtain k where k: "k \<in> set (w_live w) - set (w_live v)" "m_owner (w_item w i) = OwnNode k" using x(2) by blast
    have "r < k" using prunedD(4) [OF p] k(1) by blast
    then show False using own [OF that] k(2) by (auto simp: root_own_def)
  qed
  then show "set (items_of w r) \<inter> set (w_freed v) = {}" using x(1) free by auto
qed

text \<open>Deleting all the branches of the root.\<close>

lemma release_root:
  assumes h: "root_holds w0 r S w" and t: "tree_ok w0 r" and S: "hole_closed (w_item w) S" "S \<inter> set (w_freed w) = {}"
  shows "\<exists>v. releaseChildren r w = Some v \<and> root_holds v r S v \<and> w_live v = [r] \<and> S \<inter> set (w_freed v) = {} \<and>
    w_item v = w_item w \<and> tree_ok v r"
proof -
  note H = root_holdsD [OF h]
  have t': "tree_ok w r" by (rule same_tree_ok [OF H(2) t])
  obtain v where v: "releaseChildren r w = Some v" "tree_ok v r" "pruned r w v" "m_children (w_node v r) = []"
    using releaseChildren_fuel_total [OF t' tree_okD(1) [OF t'], of "w_new w + 1"] unfolding releaseChildren_def by auto
  have live: "w_live v = [r]" by (rule only_root_left [OF v(2,4)])
  note P = pruned_root [OF v(3)]
  have it: "w_item v = w_item w" using prunedD(1) [OF v(3)] .
  have own: "root_own w r i" if "i \<in> set (items_of w r)" for i using H(6,8) that by simp
  have free: "set (items_of w r) \<inter> set (w_freed w) = {}" using H(6) S(2) by simp
  have "root_holds v r S v"
    using H(1,5,6,7,8,10) it P [OF own free]
    by (simp add: root_holds_def same_tree_refl same_geo_refl root_own_def)
  then show ?thesis using v(1,2) live it P(5) [OF own free] H(6) by simp
qed

lemma root_released_world:
  assumes "root_holds v r S v" "w_live v = [r]" "tree_ok v r" "hole_closed (w_item v) S" "S \<inter> set (w_freed v) = {}"
  shows "world_ok v r" "visible v r = S"
proof -
  show w: "world_ok v r" by (rule root_holds_world [OF assms(1,3,2,4,5)])
  show "visible v r = S" using visible_root [OF w] root_holdsD(6) [OF assms(1)] by simp
qed

lemma KillChildren_world:
  assumes ok: "world_ok w r"
  shows "\<exists>v. KillChildren r w = Some v \<and> world_ok v r \<and> w_live v = [r] \<and> visible v r = visible w r"
proof -
  have N: "node_ok w r r" using world_okD(3) [OF ok] tree_okD(1) [OF world_okD(2) [OF ok]] by blast
  from release_root [OF root_holds_start [OF ok] world_okD(2) [OF ok] node_okD(2,3) [OF N]] obtain v where
    v: "releaseChildren r w = Some v" "root_holds v r (set (items_of w r)) v" "w_live v = [r]"
      "set (items_of w r) \<inter> set (w_freed v) = {}" "w_item v = w_item w" "tree_ok v r" by blast
  have "hole_closed (w_item v) (set (items_of w r))" using node_okD(2) [OF N] v(5) by simp
  from root_released_world [OF v(2,3,6) this v(4)] show ?thesis
    using v(1,3) visible_root [OF ok] by (simp add: KillChildren_def)
qed

text \<open>The hole that is freed with an item outside of a closed set is outside too: it is the hole of no other item.\<close>

lemma freed_with_outside:
  assumes "items_ok (w_item v)" "hole_closed (w_item v) S" "i \<notin> S"
  shows "set (freed_with v i) \<inter> S = {}"
proof -
  have "h \<notin> S" if h: "m_hole (w_item v i) = Some h" for h
  proof
    assume "h \<in> S"
    moreover have "m_kind (w_item v h) = HOLE_T" using assms(1) h by (simp add: items_ok_def)
    ultimately obtain j where "j \<in> S" "h \<in> holes (w_item v) j" using hole_closedD(3) [OF assms(2)] by blast
    then have "j \<in> S" "m_hole (w_item v j) = Some h" by (auto simp: holes_def split: option.splits)
    then show False using assms(1,3) h unfolding items_ok_def by blast
  qed
  then show ?thesis using assms(3) by (auto simp: freed_with_def Let_def split: option.splits)
qed

lemma releaseGarbage_root:
  assumes h: "root_holds v r S v" and t: "tree_ok v r" "w_live v = [r]" and S: "hole_closed (w_item v) S" "S \<inter> set (w_freed v) = {}"
  shows "world_ok (releaseGarbage r v) r" "w_live (releaseGarbage r v) = [r]" "visible (releaseGarbage r v) r = S"
proof -
  let ?u = "releaseGarbage r v"
  note H = root_holdsD [OF h]
  have R: "isRoot v r" using tree_okD(2) [OF t(1)] by (simp add: isRoot_def)
  have u: "w_item ?u = w_item v" "w_live ?u = w_live v" "w_new ?u = w_new v" "items_of ?u k = items_of v k" "jmap ?u k = jmap v k"
    "m_index (w_node ?u k) = m_index (w_node v k)" "m_garbageItems (w_node ?u r) = []"
    "w_freed ?u = w_freed v @ concat (map (freed_with v) (filter (\<lambda>i. \<not> BelongsTo v i r) (m_garbageItems (w_node v r))))" for k
    using R by (simp_all add: releaseGarbage_def Let_def items_of_def)
  have tr: "same_tree v ?u" using R by (simp add: releaseGarbage_def Let_def same_tree_def)
  have "root_holds ?u r S ?u"
    using H(1,5,6,7,8) u by (simp add: root_holds_def same_tree_refl same_geo_refl root_own_def)
  moreover have "tree_ok ?u r" by (rule same_tree_ok [OF tr t(1)])
  moreover have "S \<inter> set (w_freed ?u) = {}"
  proof -
    have "set (freed_with v i) \<inter> S = {}" if "i \<in> set (m_garbageItems (w_node v r))" "\<not> BelongsTo v i r" for i
      using H(8,10) that freed_with_outside [OF H(1) S(1), of i] by (fastforce simp: root_own_def BelongsTo_def)
    then show ?thesis using S(2) unfolding u(8) by fastforce
  qed
  moreover show "w_live ?u = [r]" using u(2) t(2) by simp
  moreover have "hole_closed (w_item ?u) S" using S(1) u(1) by simp
  ultimately show "world_ok ?u r" "visible ?u r = S" using root_released_world by blast+
qed

lemma Commit_world:
  assumes ok: "world_ok w r" and b: "b \<in> set (w_live w)" "b \<noteq> r"
  shows "\<exists>v. Commit r b w = Some v \<and> world_ok v r \<and> w_live v = [r] \<and> visible v r = visible w b"
proof -
  note W = world_okD [OF ok]
  have rb: "\<not> isRoot w b" "isRoot w r" using tree_isRoot [OF W(2)] b tree_okD(1) [OF W(2)] by auto
  have N: "node_ok w r r" "node_ok w r b" using W(3) b(1) tree_okD(1) [OF W(2)] by blast+
  note B = node_okD [OF N(2)]
  let ?S = "set (items_of w r)" and ?O = "m_override (w_node w b)" and ?B = "items_of w b"
  have "\<exists>w1. Remove_all ?O r w = Some w1 \<and> root_holds w r (?S - with_holes (w_item w) ?O) w1"
    using B(5,7) [OF b(2)] hole_closedD(1) [OF B(6) [OF b(2)]]
    by (intro root_remove_all [OF root_holds_start [OF ok] rb(2) node_okD(2) [OF N(1)]]) auto
  then obtain w1 where w1: "Remove_all ?O r w = Some w1" "root_holds w r (?S - set ?O) w1"
    using with_holes_closed [OF W(1) B(6) [OF b(2)]] by auto
  have B1: "items_of w1 b = ?B" using root_holdsD(9) [OF w1(2) b(2)] by (simp add: items_of_def)
  have dist: "distinct ?B" using B(1) by (simp add: index_ok_def items_of_def)
  define w2 where "w2 = foldl (\<lambda>w i. commit_item r i w) w1 ?B"
  let ?T = "set ?B \<union> (?S - set ?O)"
  have "root_holds w r (with_holes (w_item w) ?B \<union> (?S - set ?O)) w2"
    unfolding w2_def
  proof (rule root_commit_items [OF w1(2) rb(2) W(1) dist])
    fix x assume x: "x \<in> set ?B"
    show "m_kind (w_item w x) \<in> insert HOLE_T board_kinds" using hole_closedD(1) [OF B(2) x] .
    show "x \<notin> ?S - set ?O \<and> holes (w_item w) x \<inter> (?S - set ?O) = {}"
      using x hole_closedD(2) [OF B(2) x] B(8) [OF b(2)] by blast
  qed
  then have w2: "root_holds w r ?T w2" using with_holes_closed [OF W(1) B(2)] by simp
  note H2 = root_holdsD [OF w2]
  have "hole_closed (w_item w) ?T"
    by (intro hole_closed_Un B(2) hole_closed_Diff W(1) node_okD(2) [OF N(1)] B(6) b(2))
  then have hc2: "hole_closed (w_item w2) ?T" using hole_closed_cong [OF H2(4)] by simp
  have free2: "?T \<inter> set (w_freed w2) = {}" using B(3) node_okD(3) [OF N(1)] H2(3) by auto
  from release_root [OF w2 W(2) hc2 free2] obtain v where
    v: "releaseChildren r w2 = Some v" "root_holds v r ?T v" "w_live v = [r]" "?T \<inter> set (w_freed v) = {}"
      "w_item v = w_item w2" "tree_ok v r" by blast
  have hcv: "hole_closed (w_item v) ?T" using hc2 v(5) by simp
  have "Commit r b w = Some (releaseGarbage r v)" using rb(1) w1(1) B1 v(1) by (simp add: Commit_def w2_def)
  then show ?thesis
    using releaseGarbage_root [OF v(2,6,3) hcv v(4)] visible_branch [OF ok b] by simp
qed

subsection \<open>Steps on a branch\<close>

text \<open>A change of the index and the overridden items of one branch.\<close>

lemma branch_change:
  assumes ok: "world_ok w r" and n: "n \<in> set (w_live w)" "n \<noteq> r"
    and same: "same_tree w w'" "w_freed w' = w_freed w" "same_geo (w_item w) (w_item w')" "jmap w' r = jmap w r"
    and other: "\<And>k. k \<noteq> n \<Longrightarrow> m_index (w_node w' k) = m_index (w_node w k) \<and> m_override (w_node w' k) = m_override (w_node w k)"
    and garbage: "\<And>i. i \<in> set (m_garbageItems (w_node w' r)) \<Longrightarrow> i \<in> set (m_garbageItems (w_node w r)) \<or> m_kind (w_item w i) \<noteq> HOLE_T"
    and own: "\<And>i. i \<in> set (items_of w r) \<Longrightarrow> root_own w' r i"
      "\<And>i k. k \<in> set (w_live w) \<Longrightarrow> k \<noteq> r \<Longrightarrow> i \<in> set (items_of w' k) \<Longrightarrow> m_owner (w_item w' i) \<noteq> OwnNode r"
    and ix: "index_ok (w_item w) (m_index (w_node w' n))" "hole_closed (w_item w) (set (items_of w' n))"
      "set (items_of w' n) \<inter> set (w_freed w) = {}" "set (items_of w' n) \<inter> set (items_of w r) = {}"
    and ov: "set (m_override (w_node w' n)) \<subseteq> set (items_of w r)" "hole_closed (w_item w) (set (m_override (w_node w' n)))"
      "distinct (m_override (w_node w' n))"
  shows "world_ok w' r \<and> visible w' n = set (items_of w' n) \<union> (set (items_of w r) - set (m_override (w_node w' n)))"
proof -
  note W = world_okD [OF ok]
  have t: "tree_ok w' r" by (rule same_tree_ok [OF same(1) W(2)])
  have live: "w_live w' = w_live w" using same(1) by (simp add: same_tree_def)
  have items: "items_of w' k = items_of w k" if "k \<noteq> n" for k using other [OF that] by (simp add: items_of_def)
  have r: "r \<noteq> n" using n(2) by simp
  have "node_ok w' r k" if k: "k \<in> set (w_live w)" for k
  proof -
    note N = node_okD [OF W(3) [OF k]]
    show ?thesis
      unfolding node_ok_def hole_closed_cong [OF same(3)]
      using N(1,2,3,5,6,7,8) own(1) own(2) [OF k] ix ov items [OF r] items [of k] other [of k] same(2)
        same_geo_index [OF same(3)]
      by (cases "k = n"; cases "k = r") (simp_all add: r)
  qed
  then have w': "world_ok w' r"
    using same_geo_items_ok [OF same(3) W(1)] t W(4,5) garbage same_geoD(1) [OF same(3)] live items [OF r] same(4)
      same_geo_links [OF same(3)] same_geo_exact [OF same(3)]
    unfolding world_ok_def by auto
  then show ?thesis
    using visible_branch [OF w' _ n(2)] n(1) live items [OF r] by simp
qed

lemma branch_add:
  assumes ok: "world_ok w r" and n: "n \<in> set (w_live w)" "n \<noteq> r" and k: "m_kind (w_item w i) \<in> board_kinds"
    and fresh: "\<And>m. m \<in> set (w_live w) \<Longrightarrow> insert i (holes (w_item w) i) \<inter> set (items_of w m) = {}"
      "insert i (holes (w_item w) i) \<inter> set (w_freed w) = {}"
  shows "world_ok (NODE_add i n w) r" "visible (NODE_add i n w) n = visible w n \<union> insert i (holes (w_item w) i)"
proof -
  note W = world_okD [OF ok]
  note N = node_okD [OF W(3) [OF n(1)]]
  have rl: "r \<in> set (w_live w)" using tree_okD(1) [OF W(2)] .
  note A = add_items_effect [OF W(1) N(1)]
  let ?H = "insert i (holes (w_item w) i)" and ?a = "add_items i n w"
  have new: "i \<notin> set (items_of w n)" "holes (w_item w) i \<inter> set (items_of w n) = {}" using fresh(1) [OF n(1)] by auto
  obtain J where J: "NODE_add i n w = jset n J ?a" using NODE_add_parts [OF W(1) k] by blast
  have node: "w_node ?a m = (if m = n then (w_node w n)\<lparr>m_index := m_index (w_node ?a n)\<rparr> else w_node w m)" for m
    using A(3) [OF new] .
  have parts: "m_parent (w_node ?a m) = m_parent (w_node w m)" "m_root (w_node ?a m) = m_root (w_node w m)"
    "m_children (w_node ?a m) = m_children (w_node w m)" "jmap ?a m = jmap w m"
    "m_override (w_node ?a m) = m_override (w_node w m)" "m_garbageItems (w_node ?a m) = m_garbageItems (w_node w m)" for m
    by (subst node, simp)+
  let ?w' = "jset n J ?a"
  have g: "same_geo (w_item w) (w_item ?w')" using A(4) [OF new] by (simp add: same_geo_def geo_def)
  have tr: "same_tree w ?w'" using A(5,7) [OF new] parts by (simp add: same_tree_def)
  have it: "items_of ?w' m = items_of w m" if "m \<noteq> n" for m using node [of m] that by (simp add: items_of_def)
  have itn: "set (items_of ?w' n) = ?H \<union> set (items_of w n)" using A(2) [OF new] by simp
  have ownr: "w_item ?w' x = w_item w x" if "x \<notin> ?H" for x using A(4) [OF new, of x] that by simp
  have R: "world_ok ?w' r \<and> visible ?w' n = set (items_of ?w' n) \<union> (set (items_of w r) - set (m_override (w_node ?w' n)))"
  proof (rule branch_change [OF ok n tr _ g])
    show "w_freed ?w' = w_freed w" using A(6) [OF new] by simp
    show "jmap ?w' r = jmap w r" using n(2) parts(4) by simp
    show "m_index (w_node ?w' m) = m_index (w_node w m) \<and> m_override (w_node ?w' m) = m_override (w_node w m)" if "m \<noteq> n" for m
      using node [of m] that by simp
    show "x \<in> set (m_garbageItems (w_node w r)) \<or> m_kind (w_item w x) \<noteq> HOLE_T" if "x \<in> set (m_garbageItems (w_node ?w' r))" for x
      using that parts(6) by simp
    show "root_own ?w' r x" if x: "x \<in> set (items_of w r)" for x
    proof -
      have "x \<notin> ?H" using fresh(1) [OF rl] x by blast
      then show ?thesis using node_okD(4) [OF W(3) [OF rl] refl x] ownr by (simp add: root_own_def)
    qed
    show "m_owner (w_item ?w' x) \<noteq> OwnNode r" if x: "m \<in> set (w_live w)" "m \<noteq> r" "x \<in> set (items_of ?w' m)" for m x
    proof (cases "x \<in> ?H")
      case True
      then show ?thesis using A(4) [OF new, of x] n(2) by simp
    next
      case False
      then have "x \<in> set (items_of w m)" using x(3) it [of m] itn by (cases "m = n") auto
      then show ?thesis using node_okD(9) [OF W(3) [OF x(1)] x(2)] ownr [OF False] by simp
    qed
    show "index_ok (w_item w) (m_index (w_node ?w' n))" using A(1) [OF new] by simp
    show "hole_closed (w_item w) (set (items_of ?w' n))"
      unfolding itn by (intro hole_closed_Un hole_closed_single W(1) k N(2))
    show "set (items_of ?w' n) \<inter> set (w_freed w) = {}" unfolding itn using fresh(2) N(3) by blast
    show "set (items_of ?w' n) \<inter> set (items_of w r) = {}" unfolding itn using fresh(1) [OF rl] N(8) [OF n(2)] by blast
    show "set (m_override (w_node ?w' n)) \<subseteq> set (items_of w r)" "hole_closed (w_item w) (set (m_override (w_node ?w' n)))"
      "distinct (m_override (w_node ?w' n))" using N(5-7) [OF n(2)] parts(5) by simp_all
  qed
  then show "world_ok (NODE_add i n w) r" "visible (NODE_add i n w) n = visible w n \<union> insert i (holes (w_item w) i)"
    unfolding J using visible_branch [OF ok n] itn parts(5) by auto
qed

lemma branch_remove:
  assumes ok: "world_ok w r" and n: "n \<in> set (w_live w)" "n \<noteq> r" and k: "m_kind (w_item w i) \<in> board_kinds"
    and vis: "i \<in> visible w n" and R: "NODE_Remove i n w = Some w'"
  shows "world_ok w' r \<and> visible w' n = visible w n - insert i (holes (w_item w) i)"
proof -
  note W = world_okD [OF ok]
  have rl: "r \<in> set (w_live w)" using tree_okD(1) [OF W(2)] .
  have rt: "m_root (w_node w n) = r" "\<not> isRoot w n" using tree_okD(7) [OF W(2) n] tree_isRoot [OF W(2) n(1)] n(2) by auto
  note N = node_okD [OF W(3) [OF n(1)]] and NR = node_okD [OF W(3) [OF rl]]
  let ?H = "insert i (holes (w_item w) i)" and ?v = "removed i n w"
  have nh: "m_kind (w_item w i) \<noteq> HOLE_T" using k by (auto simp: board_kinds_def)
  obtain J where J: "w' = jset n J ?v" using NODE_Remove_parts [OF k W(1) R] unfolding removed_def by blast
  have frame: "world_ok w' r \<and> visible w' n = set (items_of w' n) \<union> (set (items_of w r) - set (m_override (w_node w' n)))"
    if F: "frame_except i n w ?v"
      and own: "\<And>x. x \<in> set (items_of w r) \<Longrightarrow> root_own ?v r x"
      and ix: "index_ok (w_item w) (m_index (w_node ?v n))" "hole_closed (w_item w) (set (items_of ?v n))"
        "set (items_of ?v n) \<subseteq> set (items_of w n)"
      and H: "\<And>x m. m \<in> set (w_live w) \<Longrightarrow> m \<noteq> r \<Longrightarrow> x \<in> set (items_of w m) \<Longrightarrow> m_owner (w_item ?v x) \<noteq> OwnNode r"
      and ov: "set (m_override (w_node ?v n)) \<subseteq> set (items_of w r)" "hole_closed (w_item w) (set (m_override (w_node ?v n)))"
        "distinct (m_override (w_node ?v n))"
    unfolding J
  proof (rule branch_change [OF ok n frame_except_jset(1,2) [OF F]])
    note D = frame_exceptD [OF F]
    show "same_geo (w_item w) (w_item (jset n J ?v))" using D(3) by simp
    show "jmap (jset n J ?v) r = jmap w r" using D(4) n(2) by simp
    show "m_index (w_node (jset n J ?v) m) = m_index (w_node w m) \<and> m_override (w_node (jset n J ?v) m) = m_override (w_node w m)"
      if "m \<noteq> n" for m using D(6) [OF that] by simp
    show "x \<in> set (m_garbageItems (w_node w r)) \<or> m_kind (w_item w x) \<noteq> HOLE_T"
      if "x \<in> set (m_garbageItems (w_node (jset n J ?v) r))" for x
      using that D(5) [of r] nh by auto
    show "root_own (jset n J ?v) r x" if "x \<in> set (items_of w r)" for x using own [OF that] by (simp add: root_own_def)
    show "m_owner (w_item (jset n J ?v) x) \<noteq> OwnNode r" if x: "m \<in> set (w_live w)" "m \<noteq> r" "x \<in> set (items_of (jset n J ?v) m)" for x m
    proof -
      have "x \<in> set (items_of w m)" using x(3) ix(3) D(6) [of m] by (cases "m = n") (auto simp: items_of_def)
      then show ?thesis using H [OF x(1,2)] by simp
    qed
    show "set (items_of (jset n J ?v) n) \<inter> set (w_freed w) = {}" using ix(3) N(3) by auto
    show "set (items_of (jset n J ?v) n) \<inter> set (items_of w r) = {}" using ix(3) N(8) [OF n(2)] by auto
  qed (use ix(1,2) ov in simp_all)
  show ?thesis
  proof (cases "i \<in> set (items_of w n)")
    case True
    have Hn: "?H \<subseteq> set (items_of w n)" using True hole_closedD(2) [OF N(2) True] by blast
    have "\<not> BelongsTo w i (m_root (w_node w n)) \<or> isRoot w n" using N(9) [OF n(2) True] rt by (simp add: BelongsTo_def)
    note D = doRemove_index [OF W(1) N(1) this]
    note F = frame_exceptD [OF D(1)]
    have items: "set (items_of ?v n) = set (items_of w n) - ?H" using D(2) by (simp add: index_less_def items_of_def)
    have "world_ok w' r \<and> visible w' n = set (items_of w' n) \<union> (set (items_of w r) - set (m_override (w_node w' n)))"
    proof (rule frame [OF D(1)])
      show "root_own ?v r x" if x: "x \<in> set (items_of w r)" for x
      proof -
        have "x \<notin> ?H" using Hn x N(8) [OF n(2)] by blast
        then show ?thesis using NR(4) [OF refl x] F(7) [of x] by (simp add: root_own_def)
      qed
      show "index_ok (w_item w) (m_index (w_node ?v n))" using D(2) by (simp add: index_less_def)
      show "hole_closed (w_item w) (set (items_of ?v n))"
        unfolding items by (intro hole_closed_Diff hole_closed_single W(1) k N(2))
      show "m_owner (w_item ?v x) \<noteq> OwnNode r" if x: "m \<in> set (w_live w)" "m \<noteq> r" "x \<in> set (items_of w m)" for m x
      proof -
        have "m_owner (w_item w x) \<noteq> OwnNode r" using node_okD(9) [OF W(3) [OF x(1)] x(2,3)] .
        then show ?thesis using F(7,8) [of x] F(9) by (cases "x = i"; cases "x \<in> holes (w_item w) i") (auto split: if_splits)
      qed
    qed (use items D(3) N(5-7) [OF n(2)] in auto)
    then show ?thesis
      using visible_branch [OF ok n] J items D(3) Hn N(8) [OF n(2)] by auto
  next
    case False
    then have ir: "i \<in> set (items_of w r)" "i \<notin> set (m_override (w_node w n))" using vis visible_branch [OF ok n] by auto
    have Hr: "?H \<subseteq> set (items_of w r)" using ir(1) hole_closedD(2) [OF NR(2) ir(1)] by blast
    have own: "m_owner (w_item w i) = OwnNode r" using NR(4) [OF refl ir(1)] nh by (simp add: root_own_def)
    have b: "BelongsTo w i (m_root (w_node w n))" "m_root (w_node w n) \<noteq> n" using own rt n(2) by (auto simp: BelongsTo_def)
    note D = doRemove_override [OF W(1) b(1) rt(2) b(2)]
    note F = frame_exceptD [OF D(1)]
    have items: "items_of ?v n = items_of w n" using D(2) by (simp add: items_of_def)
    have "world_ok w' r \<and> visible w' n = set (items_of w' n) \<union> (set (items_of w r) - set (m_override (w_node w' n)))"
    proof (rule frame [OF D(1)])
      show "root_own ?v r x" if x: "x \<in> set (items_of w r)" for x
        using NR(4) [OF refl x] F(7,8) [of x] F(9) own n(2) hole_not_self [OF W(1), of x i] same_geoD(1) [OF F(3), of x]
        by (cases "x = i"; cases "x \<in> holes (w_item w) i") (auto simp: root_own_def BelongsTo_def)
      show "m_owner (w_item ?v x) \<noteq> OwnNode r" if x: "m \<in> set (w_live w)" "m \<noteq> r" "x \<in> set (items_of w m)" for m x
      proof -
        have "x \<notin> ?H" using Hr x node_okD(8) [OF W(3) [OF x(1)] x(2)] by blast
        then show ?thesis using node_okD(9) [OF W(3) [OF x(1)] x(2,3)] F(7) [of x] by simp
      qed
      show "hole_closed (w_item w) (set (m_override (w_node ?v n)))"
        using hole_closed_Un [OF hole_closed_single [OF W(1) k] N(6) [OF n(2)]] D(3) by simp
      show "set (m_override (w_node ?v n)) \<subseteq> set (items_of w r)" using D(3) Hr N(5) [OF n(2)] by auto
      show "distinct (m_override (w_node ?v n))" using D(4) N(7) [OF n(2)] by blast
    qed (use D(2) N(1,2) items in simp_all)
    then show ?thesis
      using visible_branch [OF ok n] J items D(3) Hr N(8) [OF n(2)] by auto
  qed
qed

lemma copied_index:
  assumes "items_ok it" "distinct xs" "index_ok it ix" "set xs \<inter> set (m_allItems ix) = {}"
  shows "index_ok it (foldl (\<lambda>ix i. INDEX_Add it i ix) ix xs) \<and>
    set (m_allItems (foldl (\<lambda>ix i. INDEX_Add it i ix) ix xs)) = set xs \<union> set (m_allItems ix)"
  using assms(2-4)
proof (induction xs arbitrary: ix)
  case Nil
  then show ?case by simp
next
  case (Cons x xs)
  have "valid_layers (m_layers (it x))" using assms(1) by (simp add: items_ok_def)
  then have "index_ok it (INDEX_Add it x ix)" using Cons.prems by (intro INDEX_Add_ok) auto
  then show ?case using Cons.IH [of "INDEX_Add it x ix"] Cons.prems by (auto simp: INDEX_Add_set)
qed

lemma Branch_frame:
  assumes B: "Branch n w = (c, w')"
  shows "c = w_new w" "w_item w' = w_item w" "w_live w' = w_live w @ [c]" "w_freed w' = w_freed w" "w_new w' = c + 1"
    "k \<noteq> c \<Longrightarrow> w_node w' k = (if k = n then (w_node w n)\<lparr>m_children := set_insert c (m_children (w_node w n))\<rparr> else w_node w k)"
    "m_parent (w_node w' c) = Some n" "m_children (w_node w' c) = []"
    "m_root (w_node w' c) = (if isRoot w n then n else m_root (w_node w n))"
    "m_override (w_node w' c) = (if isRoot w n then [] else m_override (w_node w n))"
    "m_index (w_node w' c) = (if isRoot w n then INDEX_empty
      else foldl (\<lambda>ix item. INDEX_Add (w_item w) item ix) INDEX_empty (items_of w n))"
  using B by (auto simp: Branch_def Let_def NODE_new_def items_of_def)

lemma Branch_tree:
  assumes t: "tree_ok w r" and n: "n \<in> set (w_live w)" and B: "Branch n w = (c, w')"
  shows "tree_ok w' r"
proof -
  note F = Branch_frame [OF B]
  have c: "m < c" if "m \<in> set (w_live w)" for m using tree_okD(5) [OF t that] F(1) by simp
  have cn: "n \<noteq> c" "r \<noteq> c" using c [OF n] c [OF tree_okD(1) [OF t]] by auto
  have old: "m_parent (w_node w' m) = m_parent (w_node w m)" "m_root (w_node w' m) = m_root (w_node w m)"
    "m_children (w_node w' m) = (if m = n then set_insert c (m_children (w_node w n)) else m_children (w_node w m))" if "m \<noteq> c" for m
    using F(6) [OF that] by simp_all
  have rt: "m_root (w_node w' c) = r" using F(9) tree_isRoot [OF t n] tree_okD(7) [OF t n] by simp
  have live: "set (w_live w') = insert c (set (w_live w))" using F(3) by simp
  show ?thesis
    unfolding tree_ok_def live
  proof (intro conjI ballI impI)
    show "r \<in> insert c (set (w_live w))" "m_parent (w_node w' r) = None" "m_root (w_node w' r) = r" "distinct (w_live w')"
      using tree_okD(1-4) [OF t] old(1,2) [of r] cn(2) F(3) c by auto
  next
    fix m assume m: "m \<in> insert c (set (w_live w))"
    show "m < w_new w'" using m F(5) c [of m] by auto
    show "distinct (m_children (w_node w' m))"
      using m F(8) old(3) [of m] tree_okD(6) [OF t, of m] n by (cases "m = c") auto
    show "m_root (w_node w' m) = r" if "m \<noteq> r"
      using m rt old(2) [of m] tree_okD(7) [OF t, of m] that by (cases "m = c") auto
    show "\<exists>p. m_parent (w_node w' m) = Some p \<and> p \<in> insert c (set (w_live w)) \<and> m \<in> set (m_children (w_node w' p)) \<and> p < m"
      if mr: "m \<noteq> r"
    proof (cases "m = c")
      case True
      then show ?thesis using F(7) n old(3) [OF cn(1)] c [OF n] by auto
    next
      case False
      then obtain p where p: "m_parent (w_node w m) = Some p" "p \<in> set (w_live w)" "m \<in> set (m_children (w_node w p))" "p < m"
        using tree_okD(8) [OF t _ mr] m by blast
      have "p \<noteq> c" using c [OF p(2)] by simp
      then show ?thesis using p old(1) [OF False] old(3) [of p] by auto
    qed
    fix x assume x: "x \<in> set (m_children (w_node w' m))"
    have mc: "m \<noteq> c" using x F(8) by auto
    then have m': "m \<in> set (w_live w)" using m by simp
    have "m < x \<and> m_parent (w_node w' x) = Some m \<and> x \<in> insert c (set (w_live w))"
    proof (cases "x = c")
      case True
      have "c \<notin> set (m_children (w_node w m))" using tree_okD(9) [OF t m', of c] c [of c] by auto
      then have "m = n" using x True old(3) [OF mc] by (simp split: if_splits)
      then show ?thesis using True F(7) c [OF n] by simp
    next
      case False
      then have "x \<in> set (m_children (w_node w m))" using x old(3) [OF mc] by (auto split: if_splits)
      then show ?thesis using tree_okD(9) [OF t m', of x] old(1) [OF False] by simp
    qed
    then show "m < x" "m_parent (w_node w' x) = Some m" "x \<in> insert c (set (w_live w))" by blast+
  qed
qed

lemma Branch_world:
  assumes ok: "world_ok w r" and n: "n \<in> set (w_live w)" and B: "Branch n w = (c, w')"
  shows "world_ok w' r" "c \<in> set (w_live w')" "c \<notin> set (w_live w)" "visible w' c = visible w n"
    "m \<in> set (w_live w) \<Longrightarrow> visible w' m = visible w m"
proof -
  note W = world_okD [OF ok] and F = Branch_frame [OF B]
  have t: "tree_ok w' r" by (rule Branch_tree [OF W(2) n B])
  have rl: "r \<in> set (w_live w)" using tree_okD(1) [OF W(2)] .
  show cl: "c \<in> set (w_live w')" "c \<notin> set (w_live w)" using F(1,3) tree_okD(5) [OF W(2), of c] by auto
  have cn: "n \<noteq> c" "r \<noteq> c" using n rl cl(2) by auto
  note N = node_okD [OF W(3) [OF n]]
  have old: "m_index (w_node w' m) = m_index (w_node w m)" "m_override (w_node w' m) = m_override (w_node w m)"
    "jmap w' m = jmap w m" "m_garbageItems (w_node w' m) = m_garbageItems (w_node w m)" "items_of w' m = items_of w m"
    if "m \<noteq> c" for m using F(6) [OF that] by (simp_all add: items_of_def)
  have own: "root_own w' r i = root_own w r i" for i using F(2) by (simp add: root_own_def)
  have root: "isRoot w n \<longleftrightarrow> n = r" using tree_isRoot [OF W(2) n] .
  have ix: "index_ok (w_item w) (m_index (w_node w' c)) \<and> set (items_of w' c) = (if n = r then {} else set (items_of w n))"
  proof (cases "n = r")
    case True
    then show ?thesis using F(11) root index_ok_empty by (simp add: items_of_def INDEX_empty_def)
  next
    case False
    have "distinct (items_of w n)" using N(1) by (simp add: index_ok_def items_of_def)
    from copied_index [OF W(1) this index_ok_empty] show ?thesis
      using F(11) root False by (simp add: items_of_def INDEX_empty_def)
  qed
  have "node_ok w' r c"
    using ix N(2,3,5-9) F(2,4,10) root old(5) [OF cn(2)] cn(2)
    by (cases "n = r") (auto simp: node_ok_def hole_closed_empty)
  moreover have "node_ok w' r m" if "m \<in> set (w_live w)" for m
  proof -
    have "m \<noteq> c" using that cl(2) by auto
    then show ?thesis
      using W(3) [OF that] old [of m] old [OF cn(2)] F(2,4) own unfolding node_ok_def by simp
  qed
  ultimately show w': "world_ok w' r"
    using W(1,4,5) t old [OF cn(2)] F(2,3) by (simp add: world_ok_def)
  show "visible w' c = visible w n"
  proof (cases "n = r")
    case True
    then show ?thesis
      using visible_branch [OF w' cl(1)] visible_root [OF ok] cn(2) ix old(5) [OF cn(2)] F(10) root by simp
  next
    case False
    then show ?thesis
      using visible_branch [OF w' cl(1)] visible_branch [OF ok n] cn(2) ix old(5) [OF cn(2)] F(10) root by simp
  qed
  assume m: "m \<in> set (w_live w)"
  then have mc: "m \<noteq> c" "m \<in> set (w_live w')" using cl(2) F(3) by auto
  show "visible w' m = visible w m"
    using visible_root [OF ok] visible_root [OF w'] visible_branch [OF ok m] visible_branch [OF w' mc(2)] old [OF mc(1)] old [OF cn(2)]
    by (cases "m = r") simp_all
qed

text \<open>The root is changed only when it has no branches.\<close>

lemma root_step_add:
  assumes ok: "world_ok w r" and l: "w_live w = [r]" and k: "m_kind (w_item w i) \<in> board_kinds"
    and fresh: "insert i (holes (w_item w) i) \<inter> set (items_of w r) = {}" "insert i (holes (w_item w) i) \<inter> set (w_freed w) = {}"
  shows "world_ok (NODE_add i r w) r \<and> visible (NODE_add i r w) r = visible w r \<union> insert i (holes (w_item w) i)"
proof -
  note W = world_okD [OF ok]
  have N: "node_ok w r r" using W(3) l by simp
  have R: "isRoot w r" using tree_okD(2) [OF W(2)] by (simp add: isRoot_def)
  let ?T = "insert i (holes (w_item w) i \<union> set (items_of w r))"
  have h: "root_holds w r ?T (NODE_add i r w)"
    using fresh(1) by (intro root_add [OF root_holds_start [OF ok] k _ _ R]) auto
  note H = root_holdsD [OF h]
  have eq: "?T = insert i (holes (w_item w) i) \<union> set (items_of w r)" by blast
  have hc: "hole_closed (w_item (NODE_add i r w)) ?T"
    unfolding hole_closed_cong [OF H(4)] eq by (intro hole_closed_Un hole_closed_single W(1) k node_okD(2) [OF N])
  have free: "?T \<inter> set (w_freed (NODE_add i r w)) = {}" using fresh(2) node_okD(3) [OF N] H(3) by auto
  have w': "world_ok (NODE_add i r w) r" by (rule root_holds_world [OF h W(2) l hc free])
  then show ?thesis using visible_root [OF w'] visible_root [OF ok] H(6) by auto
qed

lemma root_step_remove:
  assumes ok: "world_ok w r" and l: "w_live w = [r]" and k: "m_kind (w_item w i) \<in> board_kinds" and i: "i \<in> visible w r"
  shows "\<exists>v. NODE_Remove i r w = Some v \<and> world_ok v r \<and> visible v r = visible w r - insert i (holes (w_item w) i)"
proof -
  note W = world_okD [OF ok]
  have N: "node_ok w r r" using W(3) l by simp
  have R: "isRoot w r" using tree_okD(2) [OF W(2)] by (simp add: isRoot_def)
  let ?T = "set (items_of w r) - insert i (holes (w_item w) i)"
  have "i \<in> set (items_of w r)" using i visible_root [OF ok] by simp
  from root_remove [OF root_holds_start [OF ok] this k R] obtain v where v: "NODE_Remove i r w = Some v" "root_holds w r ?T v" by blast
  note H = root_holdsD [OF v(2)]
  have hc: "hole_closed (w_item v) ?T"
    unfolding hole_closed_cong [OF H(4)] by (intro hole_closed_Diff hole_closed_single W(1) k node_okD(2) [OF N])
  have free: "?T \<inter> set (w_freed v) = {}" using node_okD(3) [OF N] H(3) by auto
  have w': "world_ok v r" by (rule root_holds_world [OF v(2) W(2) l hc free])
  then show ?thesis using v(1) visible_root [OF w'] visible_root [OF ok] H(6) by simp
qed

lemma world_of_ok: "items_ok it \<Longrightarrow> world_ok (world_of it) 0"
  by (auto simp: world_ok_def node_ok_def tree_ok_def world_of_def NODE_new_def items_of_def INDEX_empty_def
      index_ok_empty [unfolded INDEX_empty_def] hole_closed_empty links_of_def exact_def group_def group_ok_def apart_def)

subsection \<open>The worlds a router can make\<close>

definition fresh_item :: "WORLD \<Rightarrow> nat \<Rightarrow> bool" where
  "fresh_item w i \<longleftrightarrow> m_kind (w_item w i) \<in> board_kinds \<and>
    (\<forall>x\<in>insert i (holes (w_item w) i). x \<notin> set (w_freed w) \<and> (\<forall>n\<in>set (w_live w). x \<notin> set (items_of w n)))"

definition editable :: "WORLD \<Rightarrow> nat \<Rightarrow> bool" where
  "editable w n \<longleftrightarrow> n \<in> set (w_live w) \<and> (n = 0 \<longrightarrow> w_live w = [0])"

definition board_item :: "WORLD \<Rightarrow> nat \<Rightarrow> nat \<Rightarrow> bool" where
  "board_item w n i \<longleftrightarrow> i \<in> visible w n \<and> m_kind (w_item w i) \<in> board_kinds"

inductive world_made :: "WORLD \<Rightarrow> bool" where
  made_new: "items_ok it \<Longrightarrow> world_made (world_of it)"
| made_branch: "world_made w \<Longrightarrow> n \<in> set (w_live w) \<Longrightarrow> Branch n w = (c, w') \<Longrightarrow> world_made w'"
| made_add: "world_made w \<Longrightarrow> editable w n \<Longrightarrow> fresh_item w i \<Longrightarrow> world_made (NODE_add i n w)"
| made_remove: "world_made w \<Longrightarrow> editable w n \<Longrightarrow> board_item w n i \<Longrightarrow> NODE_Remove i n w = Some w' \<Longrightarrow> world_made w'"
| made_commit: "world_made w \<Longrightarrow> b \<in> set (w_live w) \<Longrightarrow> Commit 0 b w = Some w' \<Longrightarrow> world_made w'"
| made_kill: "world_made w \<Longrightarrow> KillChildren 0 w = Some w' \<Longrightarrow> world_made w'"

lemma edit_add:
  assumes ok: "world_ok w 0" and e: "editable w n" and f: "fresh_item w i"
  shows "world_ok (NODE_add i n w) 0 \<and> visible (NODE_add i n w) n = visible w n \<union> insert i (holes (w_item w) i)"
proof (cases "n = 0")
  case True
  then have "w_live w = [0]" using e by (simp add: editable_def)
  then show ?thesis using root_step_add [OF ok, of i] f True by (auto simp: fresh_item_def)
next
  case False
  then show ?thesis using branch_add [OF ok, of n i] e f by (auto simp: fresh_item_def editable_def)
qed

lemma edit_remove:
  assumes ok: "world_ok w 0" and e: "editable w n" and b: "board_item w n i" and R: "NODE_Remove i n w = Some w'"
  shows "world_ok w' 0 \<and> visible w' n = visible w n - insert i (holes (w_item w) i)"
proof (cases "n = 0")
  case True
  then have "w_live w = [0]" using e by (simp add: editable_def)
  then show ?thesis using root_step_remove [OF ok, of i] b R True by (auto simp: board_item_def)
next
  case False
  then show ?thesis using branch_remove [OF ok, of n i] e b R by (auto simp: board_item_def editable_def)
qed

lemma world_made_ok: "world_made w \<Longrightarrow> world_ok w 0"
proof (induction rule: world_made.induct)
  case (made_commit w b w')
  show ?case
  proof (cases "b = 0")
    case True
    then have "isRoot w b" using tree_isRoot [OF world_okD(2) [OF made_commit.IH] made_commit.hyps(2)] by simp
    then show ?thesis using made_commit by (simp add: Commit_def)
  next
    case False
    then show ?thesis using Commit_world [OF made_commit.IH made_commit.hyps(2)] made_commit.hyps(3) by auto
  qed
next
  case (made_kill w w')
  then show ?case using KillChildren_world [of w 0] by auto
qed (use world_of_ok edit_add edit_remove Branch_world(1) in blast)+

subsection \<open>What other nodes see\<close>

lemma visible_cong:
  assumes "m_parent (w_node w' m) = m_parent (w_node w m)" "m_root (w_node w' m) = m_root (w_node w m)"
    "items_of w' m = items_of w m" "m_override (w_node w' m) = m_override (w_node w m)"
    "\<not> isRoot w m \<Longrightarrow> items_of w' (m_root (w_node w m)) = items_of w (m_root (w_node w m))"
  shows "visible w' m = visible w m"
  using assms by (simp add: visible_def isRoot_def)

lemma others_same:
  assumes ok: "world_ok w 0" and e: "editable w n" and m: "m \<in> set (w_live w)" "m \<noteq> n"
    and t: "same_tree w w'" and o: "\<And>k. k \<noteq> n \<Longrightarrow> m_index (w_node w' k) = m_index (w_node w k) \<and> m_override (w_node w' k) = m_override (w_node w k)"
  shows "visible w' m = visible w m"
proof (rule visible_cong)
  show "m_parent (w_node w' m) = m_parent (w_node w m)" "m_root (w_node w' m) = m_root (w_node w m)"
    using t by (simp_all add: same_tree_def)
  show "items_of w' m = items_of w m" "m_override (w_node w' m) = m_override (w_node w m)"
    using o [OF m(2)] by (simp_all add: items_of_def)
  assume "\<not> isRoot w m"
  have "n \<noteq> 0" using e m by (auto simp: editable_def)
  moreover have "m_root (w_node w m) = 0"
    using tree_okD(3,7) [OF world_okD(2) [OF ok]] m(1) by (cases "m = 0") auto
  ultimately show "items_of w' (m_root (w_node w m)) = items_of w (m_root (w_node w m))"
    using o [of 0] by (simp add: items_of_def)
qed

definition changes_only :: "nat \<Rightarrow> WORLD \<Rightarrow> WORLD \<Rightarrow> bool" where
  "changes_only n w w' \<longleftrightarrow> same_tree w w' \<and> same_geo (w_item w) (w_item w') \<and>
    (\<forall>k. k \<noteq> n \<longrightarrow> m_index (w_node w' k) = m_index (w_node w k) \<and> m_override (w_node w' k) = m_override (w_node w k))"

lemma changes_only_others:
  assumes "world_ok w 0" "editable w n" "changes_only n w w'" "m \<in> set (w_live w)" "m \<noteq> n"
  shows "visible w' m = visible w m"
  by (rule others_same [OF assms(1,2,4,5)]) (use assms(3) in \<open>simp_all add: changes_only_def\<close>)

lemma changes_only_editable: "changes_only n w w' \<Longrightarrow> editable w' m = editable w m"
  by (simp add: changes_only_def editable_def same_tree_def)

lemma changes_only_holes: "changes_only n w w' \<Longrightarrow> holes (w_item w') i = holes (w_item w) i"
  by (simp add: changes_only_def same_geo_holes)

lemma add_changes:
  assumes ok: "world_ok w 0" and e: "editable w n" and f: "fresh_item w i"
  shows "changes_only n w (NODE_add i n w)"
proof -
  note W = world_okD [OF ok]
  have nl: "n \<in> set (w_live w)" using e by (simp add: editable_def)
  note N = node_okD [OF W(3) [OF nl]]
  have k: "m_kind (w_item w i) \<in> board_kinds" using f by (simp add: fresh_item_def)
  have new: "i \<notin> set (items_of w n)" "holes (w_item w) i \<inter> set (items_of w n) = {}" using f nl by (auto simp: fresh_item_def)
  note A = add_items_effect [OF W(1) N(1) new]
  obtain J where J: "NODE_add i n w = jset n J (add_items i n w)" using NODE_add_parts [OF W(1) k] by blast
  have parts: "m_parent (w_node (add_items i n w) k) = m_parent (w_node w k)" "m_root (w_node (add_items i n w) k) = m_root (w_node w k)"
    "m_children (w_node (add_items i n w) k) = m_children (w_node w k)" for k
    by (subst A(3), simp)+
  have other: "w_node (add_items i n w) k = w_node w k" if "k \<noteq> n" for k using A(3) [of k] that by simp
  show ?thesis
    unfolding J changes_only_def using parts A(5,7) other A(4) by (simp add: same_tree_def same_geo_def geo_def)
qed

lemma remove_changes:
  assumes ok: "world_ok w 0" and e: "editable w n" and b: "board_item w n i" and R: "NODE_Remove i n w = Some w'"
  shows "changes_only n w w'"
proof -
  note W = world_okD [OF ok]
  have nl: "n \<in> set (w_live w)" and k: "m_kind (w_item w i) \<in> board_kinds" using e b by (auto simp: editable_def board_item_def)
  obtain J where J: "w' = jset n J (removed i n w)" using NODE_Remove_parts [OF k W(1) R] unfolding removed_def by blast
  have "frame_except i n w (removed i n w)"
  proof (cases "\<not> BelongsTo w i (m_root (w_node w n)) \<or> isRoot w n")
    case True
    then show ?thesis by (rule doRemove_index [OF W(1) node_okD(1) [OF W(3) [OF nl]]])
  next
    case False
    then have "m_root (w_node w n) \<noteq> n" using tree_okD(7) [OF W(2) nl] tree_isRoot [OF W(2) nl] by auto
    then show ?thesis using False by (intro doRemove_override [OF W(1)]) auto
  qed
  note F = this and D = frame_exceptD [OF this]
  show ?thesis
    unfolding J changes_only_def using frame_except_jset(1) [OF F] D(3,6) by simp
qed

end
