(* ===== verification/Router_Branches.thy ===== *)
theory Router_Branches
  imports Router_Commit
begin

text \<open>
  The joints of a branch. A branch copies the joints of a place from the root when it first changes them;
  \<open>eff\<close> is the map it looks at. Its joints link at least what the branch shows, which is enough for
  every removal to find the joint it needs.
\<close>

subsection \<open>The joints a branch looks at\<close>

definition eff :: "WORLD \<Rightarrow> nat \<Rightarrow> JOINT_MAP" where
  "eff w n = map (\<lambda>t. (t, local_group w n t)) (map fst (jmap w n) @ map fst (jmap w (m_root (w_node w n))))"

definition full :: "JOINT_MAP \<Rightarrow> bool" where
  "full m \<longleftrightarrow> (\<forall>e\<in>set m. snd e \<noteq> [])"

lemma map_of_keys: "map_of (map (\<lambda>t. (t, f t)) ks) t = (if t \<in> set ks then Some (f t) else None)"
  by (induction ks) auto

lemma group_no_key: "t \<notin> fst ` set m \<Longrightarrow> group m t = []"
  by (simp add: group_def map_of_eq_None_iff [THEN iffD2])

lemma eff_group [simp]: "group (eff w n) t = local_group w n t"
proof (cases "t \<in> set (map fst (jmap w n) @ map fst (jmap w (m_root (w_node w n))))")
  case True
  then show ?thesis unfolding eff_def group_def map_of_keys by simp
next
  case False
  then have "group (jmap w n) t = []" "group (jmap w (m_root (w_node w n))) t = []" by (auto intro: group_no_key)
  then show ?thesis using False unfolding eff_def group_def [of "map _ _"] map_of_keys by (simp add: local_group_def)
qed

lemma set_update_alist: "set (AList.update k v m) \<subseteq> insert (k, v) (set m)"
  by (induction m) auto

lemma full_set_group: "full m \<Longrightarrow> full (set_group tag g m)"
  using set_update_alist [of tag g m] by (auto simp: full_def set_group_def)

lemma full_joints_from:
  assumes "full m" "group m t = []"
  shows "joints_from m t = []"
proof -
  have "fst e \<noteq> t" if "e \<in> set m" for e
  proof
    assume "fst e = t"
    then have "t \<in> fst ` set m" using that by blast
    then obtain g where g: "map_of m t = Some g" by (cases "map_of m t") (auto simp: map_of_eq_None_iff)
    then have "(t, g) \<in> set m" by (rule map_of_SomeD)
    then show False using assms g by (auto simp: full_def group_def)
  qed
  then have "dropWhile (\<lambda>e. fst e \<noteq> t) m = []" by (simp add: dropWhile_eq_Nil_conv)
  then show ?thesis by (simp add: joints_from_def del: dropWhile_eq_Nil_conv)
qed

definition linked :: "WORLD \<Rightarrow> nat \<Rightarrow> (nat \<times> VECTOR2I) set \<Rightarrow> bool" where
  "linked w n K \<longleftrightarrow> \<not> isRoot w n \<and> m_root (w_node w n) \<noteq> n \<and> full (jmap w n) \<and> exact (w_item w) (eff w n) K \<and>
    (\<exists>K0. exact (w_item w) (jmap w (m_root (w_node w n))) K0)"

lemma linkedD:
  assumes "linked w n K"
  shows "\<not> isRoot w n" "m_root (w_node w n) \<noteq> n" "full (jmap w n)" "exact (w_item w) (eff w n) K"
    "\<exists>K0. exact (w_item w) (jmap w (m_root (w_node w n))) K0"
  using assms unfolding linked_def by blast+

lemma local_group_cong:
  assumes "m_parent (w_node w' n) = m_parent (w_node w n)" "m_root (w_node w' n) = m_root (w_node w n)"
    "jmap w' n = jmap w n" "jmap w' (m_root (w_node w n)) = jmap w (m_root (w_node w n))"
  shows "local_group w' n t = local_group w n t"
  using assms by (auto simp: local_group_def isRoot_def Let_def)

lemma linked_frame:
  assumes l: "linked w n K" and g: "same_geo (w_item w) (w_item w')"
    and p: "m_parent (w_node w' n) = m_parent (w_node w n)" "m_root (w_node w' n) = m_root (w_node w n)"
      "jmap w' n = jmap w n" "jmap w' (m_root (w_node w n)) = jmap w (m_root (w_node w n))"
  shows "linked w' n K"
proof -
  note L = linkedD [OF l]
  have "exact (w_item w') (eff w' n) K"
    by (rule exact_cong [OF L(4)]) (simp_all add: local_group_cong [OF p] same_geoD [OF g])
  moreover have "\<exists>K0. exact (w_item w') (jmap w' (m_root (w_node w' n))) K0"
    using L(5) same_geo_exact [OF g] p by auto
  ultimately show ?thesis using L(1-3) p by (simp add: linked_def isRoot_def)
qed

lemma linked_group:
  assumes "linked w n K" "\<And>t. local_group (jset n J w) n t = group m t" "full J" "exact (w_item w) m K'"
  shows "linked (jset n J w) n K'"
proof -
  note L = linkedD [OF assms(1)]
  have "exact (w_item (jset n J w)) (eff (jset n J w) n) K'"
    by (rule exact_cong [OF assms(4)]) (simp_all add: assms(2))
  then show ?thesis using L assms(3) by (simp add: linked_def)
qed

lemma local_group_jset:
  assumes "\<not> isRoot w n" "m_root (w_node w n) \<noteq> n"
  shows "local_group (jset n J w) n t = (if group J t = [] then group (jmap w (m_root (w_node w n))) t else group J t)"
  using assms by (simp add: local_group_def Let_def)

lemma branch_touch:
  assumes l: "linked w n K" and v: "valid_layers (m_layers (w_item w i))" and net: "net = m_net (w_item w i)"
  shows "\<exists>J. touchJoint p (m_layers (w_item w i)) net (if b then JT_Link i else JT_Unlink i) n w = jset n J w \<and>
    linked (jset n J w) n (if b then insert (i, p) K else K - {(i, p)})"
proof -
  note L = linkedD [OF l]
  let ?f = "if b then JT_Link i else JT_Unlink i"
  obtain jt rest where ab: "absorb (m_layers (w_item w i)) (JOINT_of p (m_layers (w_item w i)) net) (local_group w n (p, net)) = (jt, rest)"
    by (rule prod.exhaust)
  let ?J = "set_group (p, net) (rest @ [?f jt]) (jmap w n)"
  have T: "touchJoint p (m_layers (w_item w i)) net ?f n w = jset n ?J w"
    using ab by (simp add: touchJoint_def jset_def on_node_def)
  have "exact (w_item w) (set_group (p, net) (rest @ [?f jt]) (eff w n)) (if b then insert (i, p) K else K - {(i, p)})"
    using exact_link [OF L(4) v _ refl refl, of p jt rest b] ab net by simp
  moreover have "local_group (jset n ?J w) n t = group (set_group (p, net) (rest @ [?f jt]) (eff w n)) t" for t
    using L(1) by (simp add: local_group_jset [OF L(1,2)] group_set_group) (simp add: local_group_def Let_def)
  ultimately show ?thesis using T linked_group [OF l _ full_set_group [OF L(3)]] by blast
qed

interpretation branch_links: joint_links n "\<lambda>w K. linked w n K" for n
proof
  show "linked w' n K" if "linked w n K" "same_geo (w_item w) (w_item w')" "same_joints w w'" for w w' K
    by (rule linked_frame [OF that(1,2)]) (use that(3) in \<open>simp_all add: same_joints_def\<close>)
qed (use branch_touch in blast)

lemma FindJoint_branch:
  assumes l: "linked w n K" and i: "(i, p) \<in> K"
  shows "\<exists>jt. FindJoint w n p (m_start (m_layers (w_item w i))) (m_net (w_item w i)) = Some jt \<and>
    jt \<in> set (local_group w n (p, m_net (w_item w i))) \<and> i \<in> set (jt_links jt)"
proof -
  note L = linkedD [OF l]
  let ?t = "(p, m_net (w_item w i))" and ?r = "m_root (w_node w n)"
  obtain jt where jt: "jt \<in> set (local_group w n ?t)" "i \<in> set (jt_links jt)"
    "\<forall>more. List.find (\<lambda>j. LR_Overlaps_layer (jt_layers j) (m_start (m_layers (w_item w i)))) (local_group w n ?t @ more) = Some jt"
    using find_in_group [OF L(4) i] by auto
  have ne: "local_group w n ?t \<noteq> []" using jt(1) by auto
  let ?f = "if joints_from (jmap w n) ?t = [] then joints_from (jmap w ?r) ?t else joints_from (jmap w n) ?t"
  have "\<exists>more. ?f = local_group w n ?t @ more"
  proof (cases "group (jmap w n) ?t = []")
    case True
    then have "local_group w n ?t = group (jmap w ?r) ?t" using L(1) by (simp add: local_group_def Let_def)
    then show ?thesis using joints_from_group [of "jmap w ?r" ?t] full_joints_from [OF L(3) True] ne by auto
  next
    case False
    then have "local_group w n ?t = group (jmap w n) ?t" by (simp add: local_group_def Let_def)
    then show ?thesis using joints_from_group [OF False] False by auto
  qed
  then obtain more where "?f = local_group w n ?t @ more" by blast
  then have "FindJoint w n p (m_start (m_layers (w_item w i))) (m_net (w_item w i)) = Some jt"
    using jt(3) L(1) by (simp add: FindJoint_def Let_def del: if_split_eq1)
  then show ?thesis using jt(1,2) by blast
qed

text \<open>When the last joint of a place goes, the branch looks at the root's joints there again.\<close>

lemma exact_swap:
  assumes m: "exact it m K" and g: "group m tag = []" and m0: "exact it m0 K0"
  shows "exact it (set_group tag (group m0 tag) m) (K \<union> {(x, q). (x, q) \<in> K0 \<and> (q, m_net (it x)) = tag})"
  unfolding exact_def group_set_group
proof (intro conjI allI ballI)
  fix t
  show "group_ok t (if t = tag then group m0 tag else group m t)" using exactD(1) [OF m] exactD(1) [OF m0] by simp
  fix j assume j: "j \<in> set (if t = tag then group m0 tag else group m t)"
  show "distinct (jt_links j)" using j exactD(2) [OF m] exactD(2) [OF m0] by (auto split: if_splits)
  fix x assume x: "x \<in> set (jt_links j)"
  have "(x, fst t) \<in> K \<union> {(x, q). (x, q) \<in> K0 \<and> (q, m_net (it x)) = tag} \<and> m_net (it x) = snd t \<and> lrs (m_layers (it x)) \<subseteq> lrs (jt_layers j)"
  proof (cases "t = tag")
    case True
    then have "j \<in> set (group m0 t)" using j by simp
    then show ?thesis using exactD(3) [OF m0 _ x, of t] True by (cases tag) auto
  next
    case False
    then show ?thesis using exactD(3) [OF m _ x, of t] j by auto
  qed
  then show "(x, fst t) \<in> K \<union> {(x, q). (x, q) \<in> K0 \<and> (q, m_net (it x)) = tag}" "m_net (it x) = snd t"
    "lrs (m_layers (it x)) \<subseteq> lrs (jt_layers j)" by blast+
next
  fix xq assume "xq \<in> K \<union> {(x, q). (x, q) \<in> K0 \<and> (q, m_net (it x)) = tag}"
  moreover obtain x q where xq: "xq = (x, q)" by (rule prod.exhaust)
  ultimately consider (mine) "(x, q) \<in> K" | (root) "(x, q) \<in> K0" "(q, m_net (it x)) = tag" by auto
  then show "case xq of (x, q) \<Rightarrow> valid_layers (m_layers (it x)) \<and>
      (\<exists>j\<in>set (if (q, m_net (it x)) = tag then group m0 tag else group m (q, m_net (it x))). x \<in> set (jt_links j))"
  proof cases
    case mine
    then have "(q, m_net (it x)) \<noteq> tag" using exactD(4) [OF m mine] g by auto
    then show ?thesis unfolding xq using exactD(4) [OF m mine] by simp
  next
    case root
    then show ?thesis unfolding xq using exactD(4) [OF m0 root(1)] by auto
  qed
qed

lemma branch_erase:
  assumes l: "linked w n K" and i: "(i, p) \<in> K" and jt: "jt \<in> set (local_group w n (p, m_net (w_item w i)))" "i \<in> set (jt_links jt)"
  defines "J \<equiv> set_group (p, m_net (w_item w i)) (filter (\<lambda>f. \<not> LR_Overlaps (m_layers (w_item w i)) (jt_layers f))
    (group (jmap w n) (p, m_net (w_item w i)))) (jmap w n)"
  shows "\<exists>K1. linked (jset n J w) n K1 \<and> K - {(x, p) |x. x \<in> set (jt_links jt)} \<subseteq> K1"
proof -
  note L = linkedD [OF l]
  let ?t = "(p, m_net (w_item w i))" and ?r = "m_root (w_node w n)"
  let ?g = "filter (\<lambda>f. \<not> LR_Overlaps (m_layers (w_item w i)) (jt_layers f)) (group (jmap w n) ?t)"
  have E: "exact (w_item w) (set_group ?t (filter (\<lambda>f. \<not> LR_Overlaps (m_layers (w_item w i)) (jt_layers f)) (local_group w n ?t)) (eff w n))
      (K - {(x, p) |x. x \<in> set (jt_links jt)})"
    using exact_erase(1) [OF L(4) i, of jt] jt by simp
  have fJ: "full J" unfolding J_def by (rule full_set_group [OF L(3)])
  have G: "group J u = (if u = ?t then ?g else group (jmap w n) u)" for u by (simp add: J_def group_set_group)
  have lg: "local_group w n u = (if group (jmap w n) u = [] then group (jmap w ?r) u else group (jmap w n) u)" for u
    using L(1) by (simp add: local_group_def Let_def)
  show ?thesis
  proof (cases "group (jmap w n) ?t = []")
    case True
    have "linked (jset n J w) n K"
      by (rule linked_group [OF l _ fJ L(4)]) (use True G lg in \<open>auto simp: local_group_jset [OF L(1,2)]\<close>)
    then show ?thesis by blast
  next
    case nonempty: False
    then have here: "local_group w n ?t = group (jmap w n) ?t" by (simp add: lg)
    show ?thesis
    proof (cases "?g = []")
      case True
      obtain K0 where K0: "exact (w_item w) (jmap w ?r) K0" using L(5) by blast
      let ?m = "set_group ?t [] (eff w n)"
      have Em: "exact (w_item w) ?m (K - {(x, p) |x. x \<in> set (jt_links jt)})" using E True here by simp
      have S: "exact (w_item w) (set_group ?t (group (jmap w ?r) ?t) ?m)
          (K - {(x, p) |x. x \<in> set (jt_links jt)} \<union> {(x, q). (x, q) \<in> K0 \<and> (q, m_net (w_item w x)) = ?t})"
        by (rule exact_swap [OF Em _ K0]) (simp add: group_set_group)
      have "linked (jset n J w) n (K - {(x, p) |x. x \<in> set (jt_links jt)} \<union> {(x, q). (x, q) \<in> K0 \<and> (q, m_net (w_item w x)) = ?t})"
        by (rule linked_group [OF l _ fJ S]) (use True G lg in \<open>auto simp: local_group_jset [OF L(1,2)] group_set_group\<close>)
      then show ?thesis by blast
    next
      case False
      have "linked (jset n J w) n (K - {(x, p) |x. x \<in> set (jt_links jt)})"
        by (rule linked_group [OF l _ fJ E]) (use False G lg here in \<open>auto simp: local_group_jset [OF L(1,2)] group_set_group\<close>)
      then show ?thesis by blast
    qed
  qed
qed

interpretation branch_store: joint_store n "\<lambda>w K. linked w n K" False for n
proof
  fix w K i p
  assume l: "linked w n K" and i: "(i, p) \<in> K"
  obtain jt where jt: "FindJoint w n p (m_start (m_layers (w_item w i))) (m_net (w_item w i)) = Some jt"
    "jt \<in> set (local_group w n (p, m_net (w_item w i)))" "i \<in> set (jt_links jt)"
    using FindJoint_branch [OF l i] by blast
  let ?net = "m_net (w_item w i)"
  let ?J = "set_group (p, ?net) (filter (\<lambda>f. \<not> LR_Overlaps (m_layers (w_item w i)) (jt_layers f)) (group (jmap w n) (p, ?net))) (jmap w n)"
  have jt': "jt \<in> set (group (eff w n) (p, ?net))" "i \<in> set (jt_links jt)" using jt(2,3) by simp_all
  have E: "\<forall>x\<in>set (jt_links jt). valid_layers (m_layers (w_item w x)) \<and> m_net (w_item w x) = ?net"
      "K - {(x, p) |x. x \<in> set (jt_links jt)} \<union> {(x, p) |x. x \<in> set (jt_links jt) \<and> x \<noteq> i} = K - {(i, p)}" "jt_pos jt = p"
    by (rule exact_erase(2-4) [OF linkedD(4) [OF l] i jt'])+
  obtain K1 where K1: "linked (jset n ?J w) n K1" "K - {(x, p) |x. x \<in> set (jt_links jt)} \<subseteq> K1"
    using branch_erase [OF l i jt(2,3)] by blast
  have "\<forall>x\<in>set (jt_links jt). valid_layers (m_layers (w_item (jset n ?J w) x)) \<and> m_net (w_item (jset n ?J w) x) = ?net"
    using E(1) by simp
  from branch_links.relink [OF K1(1) this, of i p] obtain J where
    J: "foldl (\<lambda>w link. if link \<noteq> i then linkJoint p (m_layers (w_item w link)) ?net link n w else w) (jset n ?J w) (jt_links jt) =
        jset n J (jset n ?J w)"
      "linked (jset n J (jset n ?J w)) n (K1 \<union> {(x, p) |x. x \<in> set (jt_links jt) \<and> x \<noteq> i})" by blast
  have "rebuildJoint jt i n w = jset n J w" unfolding rebuildJoint_erase Let_def E(3) J(1) by simp
  moreover have "K - {(i, p)} \<subseteq> K1 \<union> {(x, p) |x. x \<in> set (jt_links jt) \<and> x \<noteq> i}" using E(2) K1(2) by blast
  ultimately show "\<exists>jt J K'. FindJoint w n p (m_start (m_layers (w_item w i))) (m_net (w_item w i)) = Some jt \<and>
      rebuildJoint jt i n w = jset n J w \<and> linked (jset n J w) n K' \<and> K - {(i, p)} \<subseteq> K' \<and> (False \<longrightarrow> K' = K - {(i, p)})"
    using jt(1) J(2) by (intro exI [of _ jt] exI [of _ J] exI [of _ "K1 \<union> {(x, p) |x. x \<in> set (jt_links jt) \<and> x \<noteq> i}"]) simp
qed

subsection \<open>Every branch links what it shows\<close>

definition branch_linked :: "WORLD \<Rightarrow> nat \<Rightarrow> bool" where
  "branch_linked w n \<longleftrightarrow> (\<exists>K. linked w n K \<and> links_of (w_item w) (visible w n) \<subseteq> K)"

definition world_linked :: "WORLD \<Rightarrow> bool" where
  "world_linked w \<longleftrightarrow> (\<forall>n\<in>set (w_live w). n \<noteq> 0 \<longrightarrow> branch_linked w n)"

lemma live_root:
  assumes "world_ok w 0" "n \<in> set (w_live w)" "n \<noteq> 0"
  shows "m_root (w_node w n) = 0" "\<not> isRoot w n"
  using tree_okD(7) [OF world_okD(2) [OF assms(1)] assms(2,3)] tree_isRoot [OF world_okD(2) [OF assms(1)] assms(2)] assms(3)
  by simp_all

lemma links_mono: "S \<subseteq> T \<Longrightarrow> links_of it S \<subseteq> links_of it T"
  by (auto simp: links_of_def)

text \<open>The others keep their joints when one node changes its own.\<close>

lemma branch_linked_other:
  assumes ok: "world_ok w 0" and l: "branch_linked w m" and m: "m \<in> set (w_live w)" "m \<noteq> 0"
    and g: "same_geo (w_item w) (w_item w')" and t: "m_parent (w_node w' m) = m_parent (w_node w m)" "m_root (w_node w' m) = m_root (w_node w m)"
    and j: "jmap w' m = jmap w m" "jmap w' 0 = jmap w 0" and v: "visible w' m = visible w m"
  shows "branch_linked w' m"
proof -
  obtain K where K: "linked w m K" "links_of (w_item w) (visible w m) \<subseteq> K" using l unfolding branch_linked_def by blast
  have "linked w' m K" by (rule linked_frame [OF K(1) g t j(1)]) (use j(2) live_root(1) [OF ok m] in simp)
  then show ?thesis unfolding branch_linked_def v same_geo_links [OF g] using K(2) by blast
qed

lemma world_linked_edit:
  assumes ok: "world_ok w 0" and l: "world_linked w" and e: "editable w n" and c: "changes_only n w w'"
    and J: "w' = jset n J u" "same_joints w u" and mine: "n \<noteq> 0 \<Longrightarrow> branch_linked w' n"
  shows "world_linked w'"
  unfolding world_linked_def
proof (intro ballI impI)
  fix m assume m: "m \<in> set (w_live w')" "m \<noteq> 0"
  have live: "w_live w' = w_live w" using c by (simp add: changes_only_def same_tree_def)
  show "branch_linked w' m"
  proof (cases "m = n")
    case True
    then show ?thesis using mine m(2) by simp
  next
    case False
    have "n \<noteq> 0" using e m live by (auto simp: editable_def)
    have m': "m \<in> set (w_live w)" using m live by simp
    show ?thesis
    proof (rule branch_linked_other [OF ok _ m' m(2)])
      show "branch_linked w m" using l m' m(2) by (simp add: world_linked_def)
      show "same_geo (w_item w) (w_item w')" using c by (simp add: changes_only_def)
      show "m_parent (w_node w' m) = m_parent (w_node w m)" "m_root (w_node w' m) = m_root (w_node w m)"
        using c by (simp_all add: changes_only_def same_tree_def)
      show "jmap w' m = jmap w m" "jmap w' 0 = jmap w 0" using J False \<open>n \<noteq> 0\<close> by (simp_all add: same_joints_def)
      show "visible w' m = visible w m" by (rule changes_only_others [OF ok e c m' False])
    qed
  qed
qed

lemma linked_add:
  assumes ok: "world_ok w 0" and l: "world_linked w" and e: "editable w n" and f: "fresh_item w i"
  shows "world_linked (NODE_add i n w)"
proof -
  note W = world_okD [OF ok]
  have k: "m_kind (w_item w i) \<in> board_kinds" using f by (simp add: fresh_item_def)
  note C = add_changes [OF ok e f]
  obtain J where J: "NODE_add i n w = jset n J (add_items i n w)" using NODE_add_parts [OF W(1) k] by blast
  show ?thesis
  proof (rule world_linked_edit [OF ok l e C J])
    show "same_joints w (add_items i n w)" using add_items_same by blast
    assume n: "n \<noteq> 0"
    have nl: "n \<in> set (w_live w)" using e by (simp add: editable_def)
    then obtain K where K: "linked w n K" "links_of (w_item w) (visible w n) \<subseteq> K"
      using l n unfolding world_linked_def branch_linked_def by blast
    obtain J' where J': "NODE_add i n w = jset n J' (add_items i n w)"
      "linked (jset n J' (add_items i n w)) n (K \<union> {i} \<times> anchors (w_item w i))"
      using branch_links.add [OF W(1) k K(1)] by blast
    have g: "same_geo (w_item w) (w_item (NODE_add i n w))" using C by (simp add: changes_only_def)
    have "visible (NODE_add i n w) n = insert i (holes (w_item w) i \<union> visible w n)" using edit_add [OF ok e f] by blast
    then have "links_of (w_item (NODE_add i n w)) (visible (NODE_add i n w) n) \<subseteq> K \<union> {i} \<times> anchors (w_item w i)"
      unfolding same_geo_links [OF g] using links_of_insert [OF W(1)] K(2) by auto
    then show "branch_linked (NODE_add i n w) n" using J' unfolding branch_linked_def by metis
  qed
qed

lemma linked_remove:
  assumes ok: "world_ok w 0" and l: "world_linked w" and e: "editable w n" and b: "board_item w n i"
  shows "\<exists>w'. NODE_Remove i n w = Some w' \<and> world_linked w'"
proof -
  note W = world_okD [OF ok]
  have k: "m_kind (w_item w i) \<in> board_kinds" and v: "i \<in> visible w n" using b by (auto simp: board_item_def)
  have nl: "n \<in> set (w_live w)" using e by (simp add: editable_def)
  have same: "same_joints w (removed i n w)" using removed_same by blast
  show ?thesis
  proof (cases "n = 0")
    case True
    have live: "w_live w = [0]" using e True by (simp add: editable_def)
    have "i \<in> visible w 0" using v True by simp
    then obtain w' where w': "NODE_Remove i 0 w = Some w'" using root_step_remove [OF ok live k] by blast
    then have "NODE_Remove i n w = Some w'" using True by simp
    note C = remove_changes [OF ok e b this]
    then have "w_live w' = [0]" using live by (simp add: changes_only_def same_tree_def)
    then show ?thesis using w' True by (simp add: world_linked_def)
  next
    case False
    then obtain K where K: "linked w n K" "links_of (w_item w) (visible w n) \<subseteq> K"
      using l nl unfolding world_linked_def branch_linked_def by blast
    have "{i} \<times> anchors (w_item w i) \<subseteq> K" using K(2) v by (auto simp: links_of_def)
    from branch_store.remove [OF k W(1) K(1) this] obtain J K' where
      J: "NODE_Remove i n w = Some (jset n J (removed i n w))" "linked (jset n J (removed i n w)) n K'"
        "K - {i} \<times> anchors (w_item w i) \<subseteq> K'" by blast
    let ?w = "jset n J (removed i n w)"
    note C = remove_changes [OF ok e b J(1)]
    have g: "same_geo (w_item w) (w_item ?w)" using C by (simp add: changes_only_def)
    have V: "visible ?w n = visible w n - insert i (holes (w_item w) i)" using edit_remove [OF ok e b J(1)] by blast
    have "links_of (w_item ?w) (visible ?w n) \<subseteq> K'"
      unfolding same_geo_links [OF g] V links_of_Diff [OF W(1)] using K(2) J(3) by blast
    then have "branch_linked ?w n" using J(2) unfolding branch_linked_def by blast
    then show ?thesis using J(1) world_linked_edit [OF ok l e C refl same] by blast
  qed
qed

lemma linked_branch:
  assumes ok: "world_ok w 0" and l: "world_linked w" and n: "n \<in> set (w_live w)" and B: "Branch n w = (c, w')"
  shows "world_linked w'"
  unfolding world_linked_def
proof (intro ballI impI)
  fix m assume m: "m \<in> set (w_live w')" "m \<noteq> 0"
  note BW = Branch_world [OF ok n B] and F = Branch_frame [OF B]
  have z: "0 \<in> set (w_live w)" using tree_okD(1) [OF world_okD(2) [OF ok]] .
  have j: "jmap w' k = jmap w k" if "k \<in> set (w_live w)" for k
  proof -
    have "k \<noteq> c" using that BW(3) by blast
    then show ?thesis using F(6) [of k] by simp
  qed
  have g: "same_geo (w_item w) (w_item w')" using F(2) same_geo_refl by simp
  have jc: "jmap w' c = (if isRoot w n then [] else jmap w n)"
    using B by (auto simp: Branch_def Let_def NODE_new_def)
  show "branch_linked w' m"
  proof (cases "m = c")
    case False
    then have ml: "m \<in> set (w_live w)" using m(1) F(3) by simp
    show ?thesis
    proof (rule branch_linked_other [OF ok _ ml m(2) g])
      show "branch_linked w m" using l ml m(2) by (simp add: world_linked_def)
      show "m_parent (w_node w' m) = m_parent (w_node w m)" "m_root (w_node w' m) = m_root (w_node w m)"
        using F(6) [OF False] by simp_all
    qed (use j [OF ml] j [OF z] BW(5) [OF ml] in simp_all)
  next
    case True
    have rc: "\<not> isRoot w' c" "m_root (w_node w' c) = 0" using live_root [OF BW(1,2)] m(2) True by simp_all
    have c0: "(0::nat) \<noteq> c" using m(2) True by simp
    have root: "exact (w_item w') (jmap w' 0) (links_of (w_item w') (set (items_of w' 0)))" using world_okD(5) [OF BW(1)] .
    show ?thesis
    proof (cases "n = 0")
      case nz: True
      have "isRoot w n" using nz tree_okD(2) [OF world_okD(2) [OF ok]] by (simp add: isRoot_def)
      then have jm: "jmap w' c = []" using jc by simp
      have lg: "local_group w' c t = group (jmap w' 0) t" for t using rc jm by (simp add: local_group_def Let_def group_def)
      have "exact (w_item w') (eff w' c) (links_of (w_item w') (set (items_of w' 0)))"
        by (rule exact_cong [OF root]) (simp_all add: lg)
      then have "linked w' c (links_of (w_item w') (set (items_of w' 0)))"
        unfolding linked_def using rc jm root c0 by (auto simp: full_def)
      moreover have "visible w' c = set (items_of w' 0)"
        using BW(4) BW(5) [OF z] visible_root [OF BW(1)] nz by simp
      ultimately show ?thesis unfolding True branch_linked_def by auto
    next
      case nb: False
      then obtain K where K: "linked w n K" "links_of (w_item w) (visible w n) \<subseteq> K"
        using l n unfolding world_linked_def branch_linked_def by blast
      note L = linkedD [OF K(1)]
      have jm: "jmap w' c = jmap w n" using jc L(1) by simp
      have lg: "local_group w' c t = local_group w n t" for t
        using rc jm j [OF z] live_root [OF ok n nb] by (simp add: local_group_def Let_def)
      have "exact (w_item w') (eff w' c) K"
        by (rule exact_cong [OF L(4)]) (simp_all add: lg F(2))
      then have "linked w' c K" unfolding linked_def using rc jm root c0 L(3) by auto
      then show ?thesis unfolding True branch_linked_def using K(2) BW(4) F(2) by auto
    qed
  qed
qed

lemma world_made_linked: "world_made w \<Longrightarrow> world_linked w"
proof (induction rule: world_made.induct)
  case (made_new it)
  then show ?case by (simp add: world_linked_def world_of_def)
next
  case (made_branch w n c w')
  then show ?case using linked_branch world_made_ok by blast
next
  case (made_add w n i)
  then show ?case using linked_add world_made_ok by blast
next
  case (made_remove w n i w')
  then show ?case using linked_remove [OF world_made_ok] by fastforce
next
  case (made_commit w b w')
  note ok = world_made_ok [OF made_commit.hyps(1)]
  show ?case
  proof (cases "b = 0")
    case True
    then have "isRoot w b" using tree_isRoot [OF world_okD(2) [OF ok] made_commit.hyps(2)] by simp
    then show ?thesis using made_commit by (simp add: Commit_def)
  next
    case False
    then have "w_live w' = [0]" using Commit_world [OF ok made_commit.hyps(2)] made_commit.hyps(3) by auto
    then show ?thesis by (simp add: world_linked_def)
  qed
next
  case (made_kill w w')
  then have "w_live w' = [0]" using KillChildren_world [OF world_made_ok [OF made_kill.hyps(1)]] by auto
  then show ?case by (simp add: world_linked_def)
qed

lemma NODE_Remove_total:
  "world_made w \<Longrightarrow> editable w n \<Longrightarrow> board_item w n i \<Longrightarrow> \<exists>w'. NODE_Remove i n w = Some w'"
  using linked_remove [OF world_made_ok world_made_linked] by blast

end
