(* ===== verification/Router_Props.thy ===== *)
theory Router_Props
  imports Router_Branches
begin

text \<open>
  What the router's branching store of items guarantees, for every world that can be made by adding,
  removing, branching, committing and killing branches; and what it does not.
\<close>

subsection \<open>A small board\<close>

definition demo_item :: "nat \<Rightarrow> ITEM" where
  "demo_item i =
    (let x = \<lparr>m_kind = JOINT_T, m_layers = LR_of 0 0, m_net = 1, anchor0 = Vec 0 0, anchor1 = Vec 0 0, item_width = 4,
              m_hole = None, m_owner = NoOwner, m_rank = 0, m_marker = 0, m_routable = True, m_isVirtual = False, m_board_item = i\<rparr>
     in if i = 0 then x\<lparr>m_kind := SEGMENT_T, anchor1 := Vec 10 0\<rparr>
        else if i = 1 then x\<lparr>m_kind := VIA_T, m_layers := LR_of 0 1, anchor0 := Vec 10 0, m_hole := Some 2\<rparr>
        else if i = 2 then x\<lparr>m_kind := HOLE_T, m_layers := LR_of 0 1, anchor0 := Vec 10 0\<rparr>
        else if i = 3 then x\<lparr>m_kind := SEGMENT_T, m_layers := LR_of 1 1, anchor0 := Vec 10 0, anchor1 := Vec 20 0\<rparr>
        else x)"

text \<open>A segment and a via on the root; a branch that drops the via and has a segment of its own.\<close>

definition demo_root :: WORLD where
  "demo_root = NODE_add 1 0 (NODE_add 0 0 (world_of demo_item))"

definition demo_world :: WORLD where
  "demo_world = the (NODE_Remove 1 1 (NODE_add 3 1 (snd (Branch 0 demo_root))))"

lemma demo_items_ok: "items_ok demo_item"
  by (auto simp: items_ok_def demo_item_def Let_def valid_layers_def LR_of_def)

lemma demo_root_made: "world_made demo_root"
proof -
  have "world_made (world_of demo_item)" by (rule made_new [OF demo_items_ok])
  moreover have "editable (world_of demo_item) 0" "fresh_item (world_of demo_item) 0" by code_simp+
  ultimately have "world_made (NODE_add 0 0 (world_of demo_item))" by (rule made_add)
  moreover have "editable (NODE_add 0 0 (world_of demo_item)) 0" "fresh_item (NODE_add 0 0 (world_of demo_item)) 1" by code_simp+
  ultimately show ?thesis unfolding demo_root_def by (rule made_add)
qed

lemma demo_world_made: "world_made demo_world"
proof -
  let ?b = "snd (Branch 0 demo_root)"
  let ?a = "NODE_add 3 1 ?b"
  have "0 \<in> set (w_live demo_root)" by code_simp
  from made_branch [OF demo_root_made this, of "fst (Branch 0 demo_root)" ?b] have "world_made ?b" by simp
  moreover have "editable ?b 1" "fresh_item ?b 3" by code_simp+
  ultimately have "world_made ?a" by (rule made_add)
  moreover have "editable ?a 1" "board_item ?a 1 1" by code_simp+
  moreover have "NODE_Remove 1 1 ?a \<noteq> None" by code_simp
  ultimately show ?thesis unfolding demo_world_def using made_remove by auto
qed

subsection \<open>Scripts of edits\<close>

datatype 'i EDIT = AddItem 'i | RemoveItem 'i

fun run_edits :: "('i \<Rightarrow> 'w \<Rightarrow> 'w option) \<Rightarrow> ('i \<Rightarrow> 'w \<Rightarrow> 'w option) \<Rightarrow> 'i EDIT list \<Rightarrow> 'w \<Rightarrow> 'w option" where
  "run_edits add del [] w = Some w"
| "run_edits add del (AddItem i # es) w = (case add i w of None \<Rightarrow> None | Some w' \<Rightarrow> run_edits add del es w')"
| "run_edits add del (RemoveItem i # es) w = (case del i w of None \<Rightarrow> None | Some w' \<Rightarrow> run_edits add del es w')"

text \<open>The same script on a set, when an item comes and goes with its parts.\<close>

fun apply_edits :: "('i \<Rightarrow> 'i set) \<Rightarrow> 'i EDIT list \<Rightarrow> 'i set \<Rightarrow> 'i set" where
  "apply_edits parts [] S = S"
| "apply_edits parts (AddItem i # es) S = apply_edits parts es (parts i \<union> S)"
| "apply_edits parts (RemoveItem i # es) S = apply_edits parts es (S - parts i)"

locale set_editor =
  fixes ok :: "'w \<Rightarrow> bool" and sees :: "'w \<Rightarrow> 'i set" and parts :: "'w \<Rightarrow> 'i \<Rightarrow> 'i set"
    and add :: "'i \<Rightarrow> 'w \<Rightarrow> 'w option" and del :: "'i \<Rightarrow> 'w \<Rightarrow> 'w option"
  assumes add_law: "ok w \<Longrightarrow> add i w = Some w' \<Longrightarrow> ok w' \<and> sees w' = parts w i \<union> sees w \<and> parts w' = parts w"
    and del_law: "ok w \<Longrightarrow> del i w = Some w' \<Longrightarrow> ok w' \<and> sees w' = sees w - parts w i \<and> parts w' = parts w"
begin

lemma script:
  "ok w \<Longrightarrow> run_edits add del es w = Some w' \<Longrightarrow> ok w' \<and> sees w' = apply_edits (parts w) es (sees w)"
proof (induction es arbitrary: w)
  case (Cons e es)
  show ?case
  proof (cases e)
    case (AddItem i)
    then obtain u where "add i w = Some u" "run_edits add del es u = Some w'"
      using Cons.prems(2) by (auto split: option.splits)
    then show ?thesis using add_law [OF Cons.prems(1)] Cons.IH [of u] AddItem by simp
  next
    case (RemoveItem i)
    then obtain u where "del i w = Some u" "run_edits add del es u = Some w'"
      using Cons.prems(2) by (auto split: option.splits)
    then show ?thesis using del_law [OF Cons.prems(1)] Cons.IH [of u] RemoveItem by simp
  qed
qed simp

end

text \<open>One addition or removal on a node, when it is one a router may make.\<close>

definition try_add :: "nat \<Rightarrow> nat \<Rightarrow> WORLD \<Rightarrow> WORLD option" where
  "try_add n i w = (if fresh_item w i then Some (NODE_add i n w) else None)"

definition try_remove :: "nat \<Rightarrow> nat \<Rightarrow> WORLD \<Rightarrow> WORLD option" where
  "try_remove n i w = (if board_item w n i then NODE_Remove i n w else None)"

interpretation node_script: set_editor "\<lambda>w. world_made w \<and> editable w n" "\<lambda>w. visible w n"
    "\<lambda>w i. insert i (holes (w_item w) i)" "try_add n" "try_remove n" for n
proof
  fix w i w'
  assume w: "world_made w \<and> editable w n"
  have ok: "world_ok w 0" and e: "editable w n" using w world_made_ok by blast+
  show "(world_made w' \<and> editable w' n) \<and> visible w' n = insert i (holes (w_item w) i) \<union> visible w n \<and>
      (\<lambda>i. insert i (holes (w_item w') i)) = (\<lambda>i. insert i (holes (w_item w) i))" if "try_add n i w = Some w'"
  proof -
    have f: "fresh_item w i" "w' = NODE_add i n w" using that by (simp_all add: try_add_def split: if_splits)
    note C = add_changes [OF ok e f(1)]
    have "world_made w'" unfolding f(2) by (rule made_add [OF _ e f(1)]) (use w in blast)
    moreover have "visible w' n = insert i (holes (w_item w) i) \<union> visible w n"
      unfolding f(2) using edit_add [OF ok e f(1)] by blast
    ultimately show ?thesis using changes_only_editable [OF C] changes_only_holes [OF C] e f(2) by simp
  qed
  show "(world_made w' \<and> editable w' n) \<and> visible w' n = visible w n - insert i (holes (w_item w) i) \<and>
      (\<lambda>i. insert i (holes (w_item w') i)) = (\<lambda>i. insert i (holes (w_item w) i))" if "try_remove n i w = Some w'"
  proof -
    have f: "board_item w n i" "NODE_Remove i n w = Some w'" using that by (simp_all add: try_remove_def split: if_splits)
    note C = remove_changes [OF ok e f]
    have "world_made w'" by (rule made_remove [OF _ e f]) (use w in blast)
    then show ?thesis using edit_remove [OF ok e f] changes_only_editable [OF C] changes_only_holes [OF C] e by simp
  qed
qed

subsection \<open>Properties\<close>

text \<open>
  C1: In every world a router can make, committing a branch returns; it deletes every branch and
  leaves the root with exactly the items the branch showed, joints that link exactly these items where
  they end, and none of them freed.
\<close>

theorem Commit_publishes_branch:
  assumes "world_made w" "b \<in> set (w_live w)" "b \<noteq> 0"
  shows "\<exists>v. Commit 0 b w = Some v \<and> w_live v = [0] \<and> visible v 0 = visible w b \<and>
    exact (w_item v) (m_joints (w_node v 0)) (links_of (w_item v) (visible v 0)) \<and> visible v 0 \<inter> set (w_freed v) = {}"
proof -
  obtain v where v: "Commit 0 b w = Some v" "world_ok v 0" "w_live v = [0]" "visible v 0 = visible w b"
    using Commit_world [OF world_made_ok [OF assms(1)] assms(2,3)] by blast
  have "node_ok v 0 0" using world_okD(3) [OF v(2), of 0] v(3) by simp
  then show ?thesis
    using v node_okD(3) [of v 0 0] world_okD(5) [OF v(2)] visible_root [OF v(2)] by simp
qed

theorem Commit_publishes_branch_witness:
  "\<exists>v. Commit 0 1 demo_world = Some v \<and> w_live v = [0] \<and> visible v 0 = {0, 3} \<and>
    exact (w_item v) (m_joints (w_node v 0)) (links_of (w_item v) {0, 3}) \<and> {0, 3} \<inter> set (w_freed v) = {}"
proof -
  have "1 \<in> set (w_live demo_world)" by code_simp
  moreover have V: "visible demo_world 1 = {0, 3}" by code_simp
  ultimately show ?thesis
    using Commit_publishes_branch [OF demo_world_made, of 1] unfolding V by auto
qed

text \<open>
  An item added to a branch is seen there with its hole and by no other branch; the worlds stay
  consistent.
\<close>

theorem NODE_add_visible:
  assumes "world_made w" "editable w n" "fresh_item w i"
  shows "visible (NODE_add i n w) n = insert i (holes (w_item w) i \<union> visible w n) \<and>
    (\<forall>m\<in>set (w_live w). m \<noteq> n \<longrightarrow> visible (NODE_add i n w) m = visible w m)"
  using edit_add [OF world_made_ok assms(2,3)] changes_only_others [OF world_made_ok assms(2) add_changes [OF world_made_ok assms(2,3)]] assms(1) by blast

theorem NODE_add_visible_witness:
  "visible (NODE_add 1 1 (snd (Branch 0 (world_of demo_item)))) 1 = {1, 2} \<and>
    visible (NODE_add 1 1 (snd (Branch 0 (world_of demo_item)))) 0 = {}"
proof -
  let ?w = "snd (Branch 0 (world_of demo_item))"
  have "0 \<in> set (w_live (world_of demo_item))" by code_simp
  from made_branch [OF made_new [OF demo_items_ok] this, of "fst (Branch 0 (world_of demo_item))" ?w]
  have "world_made ?w" by simp
  moreover have "editable ?w 1" "fresh_item ?w 1" by code_simp+
  ultimately have "visible (NODE_add 1 1 ?w) 1 = insert 1 (holes (w_item ?w) 1 \<union> visible ?w 1) \<and>
    (\<forall>m\<in>set (w_live ?w). m \<noteq> 1 \<longrightarrow> visible (NODE_add 1 1 ?w) m = visible ?w m)" by (rule NODE_add_visible)
  moreover have "holes (w_item ?w) 1 = {2}" "visible ?w 1 = {}" "visible ?w 0 = {}" "0 \<in> set (w_live ?w)" by code_simp+
  ultimately show ?thesis by auto
qed

text \<open>
  C39: Removing an item a branch shows, be it one of the branch or one of the root, always finds the
  joint it needs and returns. The item and its hole are not seen there any more; nothing else changes
  there, and nothing in any other branch.
\<close>

theorem NODE_Remove_visible:
  assumes "world_made w" "editable w n" "board_item w n i"
  shows "\<exists>w'. NODE_Remove i n w = Some w' \<and> visible w' n = visible w n - insert i (holes (w_item w) i) \<and>
    (\<forall>m\<in>set (w_live w). m \<noteq> n \<longrightarrow> visible w' m = visible w m)"
proof -
  note ok = world_made_ok [OF assms(1)]
  obtain w' where w': "NODE_Remove i n w = Some w'" using NODE_Remove_total [OF assms] by blast
  then show ?thesis
    using edit_remove [OF ok assms(2,3)] changes_only_others [OF ok assms(2) remove_changes [OF ok assms(2,3)]] by blast
qed

theorem NODE_Remove_visible_witness:
  "\<exists>w'. NODE_Remove 1 1 (snd (Branch 0 demo_root)) = Some w' \<and> visible w' 1 = {0} \<and> visible w' 0 = {0, 1, 2}"
proof -
  let ?w = "snd (Branch 0 demo_root)"
  have "0 \<in> set (w_live demo_root)" by code_simp
  from made_branch [OF demo_root_made this, of "fst (Branch 0 demo_root)" ?w] have "world_made ?w" by simp
  moreover have "editable ?w 1" "board_item ?w 1 1" by code_simp+
  ultimately have R: "\<exists>w'. NODE_Remove 1 1 ?w = Some w' \<and> visible w' 1 = visible ?w 1 - insert 1 (holes (w_item ?w) 1) \<and>
    (\<forall>m\<in>set (w_live ?w). m \<noteq> 1 \<longrightarrow> visible w' m = visible ?w m)" by (rule NODE_Remove_visible)
  have "holes (w_item ?w) 1 = {2}" "visible ?w 1 = {0, 1, 2}" "visible ?w 0 = {0, 1, 2}" "0 \<in> set (w_live ?w)" by code_simp+
  then show ?thesis using R by auto
qed

text \<open>
  C38: A session on the board: a branch is made from the root, any script of additions and removals that
  goes through is run on it, and it is committed. The root then has the items the script makes of the
  items it had.
\<close>

theorem Branch_edit_Commit:
  assumes "world_made w" "0 \<in> set (w_live w)" "Branch 0 w = (b, w1)"
    and "run_edits (try_add b) (try_remove b) es w1 = Some w2"
  shows "\<exists>v. Commit 0 b w2 = Some v \<and> w_live v = [0] \<and>
    visible v 0 = apply_edits (\<lambda>i. insert i (holes (w_item w) i)) es (visible w 0)"
proof -
  note B = Branch_world [OF world_made_ok [OF assms(1)] assms(2,3)]
  have b: "b \<noteq> 0" using B(3) assms(2) by metis
  then have "editable w1 b" using B(2) by (simp add: editable_def)
  note b = b this
  have "world_made w1 \<and> editable w1 b" using made_branch [OF assms(1-3)] b(2) by blast
  from node_script.script [OF this assms(4)] have
    R: "world_made w2" "editable w2 b" "visible w2 b = apply_edits (\<lambda>i. insert i (holes (w_item w1) i)) es (visible w1 b)"
    by blast+
  have "b \<in> set (w_live w2)" using R(2) by (simp add: editable_def)
  from Commit_world [OF world_made_ok [OF R(1)] this b(1)] obtain v where
    "Commit 0 b w2 = Some v" "w_live v = [0]" "visible v 0 = visible w2 b" by blast
  then show ?thesis using R(3) B(4) Branch_frame(2) [OF assms(3)] by simp
qed

theorem Branch_edit_Commit_witness:
  "\<exists>w2 v. run_edits (try_add 1) (try_remove 1) [AddItem 3, RemoveItem 1] (snd (Branch 0 demo_root)) = Some w2 \<and>
    Commit 0 1 w2 = Some v \<and> visible v 0 = {0, 3}"
proof -
  let ?w = "snd (Branch 0 demo_root)" and ?es = "[AddItem 3, RemoveItem 1]"
  have "fst (Branch 0 demo_root) = 1" by code_simp
  then have c: "Branch 0 demo_root = (1, ?w)" by (metis prod.collapse)
  have l: "0 \<in> set (w_live demo_root)" by code_simp
  have "run_edits (try_add 1) (try_remove 1) ?es ?w \<noteq> None" by code_simp
  then obtain w2 where w2: "run_edits (try_add 1) (try_remove 1) ?es ?w = Some w2" by blast
  have "apply_edits (\<lambda>i. insert i (holes (w_item demo_root) i)) ?es (visible demo_root 0) = {0, 3}" by code_simp
  then show ?thesis using Branch_edit_Commit [OF demo_root_made l c w2] w2 by auto
qed

text \<open>
  In every world a router can make, every node's index has each of its items in the list of each of
  its layers and of its net and in no other, once; and no item a node shows is freed.
\<close>

theorem world_made_index:
  assumes "world_made w" "n \<in> set (w_live w)"
  shows "index_ok (w_item w) (m_index (w_node w n)) \<and> visible w n \<inter> set (w_freed w) = {}"
proof -
  note ok = world_made_ok [OF assms(1)]
  have N: "node_ok w 0 n" "node_ok w 0 0" using world_okD(3) [OF ok] assms(2) tree_okD(1) [OF world_okD(2) [OF ok]] by blast+
  show ?thesis
    using node_okD(1,3) [OF N(1)] node_okD(3) [OF N(2)] visible_root [OF ok] visible_branch [OF ok assms(2)]
    by (cases "n = 0") auto
qed

theorem world_made_index_witness:
  "index_ok (w_item demo_world) (m_index (w_node demo_world 1)) \<and> {0, 3} \<inter> set (w_freed demo_world) = {}"
proof -
  have "1 \<in> set (w_live demo_world)" "visible demo_world 1 = {0, 3}" by code_simp+
  then show ?thesis using world_made_index [OF demo_world_made, of 1] by simp
qed

text \<open>
  Deleting the branches of the root ends, whatever the tree of branches, and leaves the root as it
  was.
\<close>

theorem KillChildren_ends:
  assumes "world_made w"
  shows "\<exists>v. KillChildren 0 w = Some v \<and> w_live v = [0] \<and> visible v 0 = visible w 0"
  using KillChildren_world [OF world_made_ok [OF assms]] by blast

theorem KillChildren_ends_witness:
  "\<exists>v. KillChildren 0 (snd (Branch 1 demo_world)) = Some v \<and> w_live v = [0] \<and> visible v 0 = {0, 1, 2}"
proof -
  have "1 \<in> set (w_live demo_world)" "visible (snd (Branch 1 demo_world)) 0 = {0, 1, 2}" by code_simp+
  with made_branch [OF demo_world_made this(1), of "fst (Branch 1 demo_world)" "snd (Branch 1 demo_world)"] show ?thesis
    using KillChildren_ends [of "snd (Branch 1 demo_world)"] by simp
qed

text \<open>
  The items of a net are those the node shows of that net, of the kinds asked for and routable,
  whether they are its own or the root's.
\<close>

theorem AllItemsInNet_visible:
  assumes "world_made w" "n \<in> set (w_live w)" "net \<noteq> 0"
  shows "set (AllItemsInNet w n net kinds) =
      {i \<in> visible w n. m_net (w_item w i) = net \<and> OfKind (w_item w i) kinds \<and> m_routable (w_item w i)} \<and>
    distinct (AllItemsInNet w n net kinds)"
proof -
  note ok = world_made_ok [OF assms(1)]
  have N: "node_ok w 0 n" "node_ok w 0 0" using world_okD(3) [OF ok] assms(2) tree_okD(1) [OF world_okD(2) [OF ok]] by blast+
  have net: "set (case GetItemsForNet (m_index (w_node w k)) net of None \<Rightarrow> [] | Some l \<Rightarrow> filter P l) =
      {i \<in> set (items_of w k). m_net (w_item w i) = net \<and> P i}" if "node_ok w 0 k" for k P
  proof -
    have "set (net_items (m_index (w_node w k)) net) = {i \<in> set (items_of w k). m_net (w_item w i) = net}"
      using node_okD(1) [OF that] assms(3) by (simp add: index_ok_def items_of_def)
    then show ?thesis by (auto simp: net_items_def GetItemsForNet_def split: option.splits)
  qed
  show ?thesis
  proof (cases "n = 0")
    case True
    then have "isRoot w n" using tree_isRoot [OF world_okD(2) [OF ok] assms(2)] by simp
    then show ?thesis using net [OF N(1)] visible_root [OF ok] True by (auto simp: AllItemsInNet_def Let_def)
  next
    case False
    have "\<not> isRoot w n" "m_root (w_node w n) = 0"
      using tree_isRoot [OF world_okD(2) [OF ok] assms(2)] tree_okD(7) [OF world_okD(2) [OF ok] assms(2)] False by auto
    then show ?thesis using net [OF N(1)] net [OF N(2)] visible_branch [OF ok assms(2) False]
      by (auto simp: AllItemsInNet_def Let_def Overrides_def)
  qed
qed

theorem AllItemsInNet_visible_witness:
  "set (AllItemsInNet demo_world 1 1 65535) = {0, 3}"
proof -
  have "1 \<in> set (w_live demo_world)" and V: "visible demo_world 1 = {0, 3}" by code_simp+
  from AllItemsInNet_visible [OF demo_world_made this(1), of 1 65535]
  have "set (AllItemsInNet demo_world 1 1 65535) =
    {i \<in> {0, 3}. m_net (w_item demo_world i) = 1 \<and> OfKind (w_item demo_world i) 65535 \<and> m_routable (w_item demo_world i)}"
    unfolding V by simp
  moreover have "\<forall>i\<in>{0, 3}. m_net (w_item demo_world i) = 1 \<and> OfKind (w_item demo_world i) 65535 \<and> m_routable (w_item demo_world i)"
    by code_simp
  ultimately show ?thesis by blast
qed

text \<open>
  A segment with the ends, in either order, the first layer and the net of one the root has is not
  added to it, unless redundant ones are allowed.
\<close>

theorem Add_segment_no_duplicate:
  assumes "world_made w" "j \<in> visible w 0" "m_kind (w_item w j) = SEGMENT_T"
    and "m_net (w_item w i) = m_net (w_item w j)" "m_start (m_layers (w_item w i)) = m_start (m_layers (w_item w j))"
    and "{anchor0 (w_item w i), anchor1 (w_item w i)} = {anchor0 (w_item w j), anchor1 (w_item w j)}"
  shows "Add_segment i False 0 w = (False, w)"
proof -
  note ok = world_made_ok [OF assms(1)]
  let ?A = "anchor0 (w_item w i)"
  have root: "isRoot w 0" using tree_okD(2) [OF world_okD(2) [OF ok]] by (simp add: isRoot_def)
  have "?A \<in> anchors (w_item w j)" using assms(3,6) by (auto simp: anchors_def doubleton_eq_iff)
  then have "(j, ?A) \<in> links_of (w_item w) (set (items_of w 0))"
    using assms(2) visible_root [OF ok] by (auto simp: links_of_def)
  from FindJoint_exact [OF root world_okD(5) [OF ok] this] obtain jt where
    "FindJoint w 0 ?A (m_start (m_layers (w_item w i))) (m_net (w_item w i)) = Some jt" "j \<in> set (jt_links jt)"
    using assms(4,5) by auto
  moreover have "?A = anchor0 (w_item w j) \<and> anchor1 (w_item w i) = anchor1 (w_item w j) \<or>
      ?A = anchor1 (w_item w j) \<and> anchor1 (w_item w i) = anchor0 (w_item w j)"
    using assms(6) by (auto simp: doubleton_eq_iff)
  ultimately have "findRedundantSegment i 0 w \<noteq> None"
    using assms(3,5) by (auto simp: findRedundantSegment_def findRedundant_def Let_def find_None_iff)
  then show ?thesis by (simp add: Add_segment_def)
qed

theorem Add_segment_no_duplicate_witness:
  "Add_segment 0 False 0 demo_root = (False, demo_root)"
  by (rule Add_segment_no_duplicate [OF demo_root_made, of 0]) (simp_all, code_simp+)

subsection \<open>What the code does not do\<close>

text \<open>
  Removing a via from a branch whose own map has no joint there yet erases nothing and links the others
  again on a copy of the root's joint, on which the removed via stays.
\<close>

lemma removed_via_stays_linked:
  "(let w = the (NODE_Remove 1 1 (snd (Branch 0 demo_root))) in
    1 \<notin> visible w 1 \<and> map_option jt_links (FindJoint w 1 (Vec 10 0) 0 1) = Some [0, 1])"
  by code_simp

text \<open>The search for a joint goes on behind the joints of its position.\<close>

lemma FindJoint_elsewhere:
  "map_option jt_pos (FindJoint demo_root 0 (Vec 0 0) 1 1) = Some (Vec 10 0)"
  by code_simp

text \<open>A joint of the root is reported for a branch in which the item it joins was removed.\<close>

lemma QueryJoints_stale:
  "(let w = the (NODE_Remove 0 1 (snd (Branch 0 demo_root))) in
    0 \<notin> visible w 1 \<and>
    map jt_links (QueryJoints w 1 \<lparr>m_Pos = Vec (- 1) (- 1), m_Size = Vec 2 2, m_init = True\<rparr> (LR_of 0 1) 8) = [[0]])"
  by code_simp

end
