(* ===== verification/Poly_Set.thy ===== *)
theory Poly_Set
  imports Chain_Queries "HOL-Library.Product_Lexorder"
begin

text \<open>
  \<open>geometry/shape_poly_set.h\<close> and \<open>.cpp\<close>: sets of polygons, each an outline and its holes, every contour a
  line chain. Modelled are the contours with their three ways of addressing a vertex, the iterators, the
  editing operations, the record of the triangulation, and the queries that need no polygon clipping.

  Reading outside of a vector is \<open>Undefined\<close>, the exception of the checked accesses \<open>Out_Of_Range\<close>. The
  digest of \<open>checksum\<close> is the parameter \<open>md5\<close> of the numbers that are hashed; \<open>m_hash\<close> is \<open>None\<close> when it is
  not valid.
\<close>

unbundle bit_operations_syntax

subsection \<open>State\<close>

type_synonym POLYGON = "CHAIN list"

record TRIANGULATED_POLYGON =
  m_sourceOutline :: int
  m_triangles :: "(int \<times> int \<times> int) list"
  m_vertices :: "VECTOR2I list"

record POLY_SET =
  m_polys :: "POLYGON list"
  m_triangulatedPolys :: "TRIANGULATED_POLYGON list"
  m_triangulationValid :: bool
  m_hash :: "nat option"

record VERTEX_INDEX =
  m_polygon :: int
  m_contour :: int
  m_vertex :: int

datatype POLY_ERROR = Out_Of_Range | Undefined

definition poly_empty :: POLY_SET where
  "poly_empty = \<lparr>m_polys = [], m_triangulatedPolys = [], m_triangulationValid = False, m_hash = None\<rparr>"

definition OutlineCount :: "POLY_SET \<Rightarrow> int" where
  "OutlineCount S = int (length (m_polys S))"

definition HoleCount :: "POLY_SET \<Rightarrow> int \<Rightarrow> int" where
  "HoleCount S aOutline =
    (if aOutline < 0 \<or> aOutline \<ge> OutlineCount S \<or> length (m_polys S ! nat aOutline) < 2 then 0
     else int (length (m_polys S ! nat aOutline)) - 1)"

text \<open>\<open>m_polys[i][j]\<close>.\<close>

definition CPolygon :: "POLY_SET \<Rightarrow> int \<Rightarrow> POLYGON option" where
  "CPolygon S i = (if 0 \<le> i \<and> i < OutlineCount S then Some (m_polys S ! nat i) else None)"

definition contour_at :: "POLY_SET \<Rightarrow> int \<Rightarrow> int \<Rightarrow> CHAIN option" where
  "contour_at S i j =
    (case CPolygon S i of None \<Rightarrow> None
     | Some p \<Rightarrow> if 0 \<le> j \<and> j < int (length p) then Some (p ! nat j) else None)"

definition set_contour :: "int \<Rightarrow> int \<Rightarrow> CHAIN \<Rightarrow> POLY_SET \<Rightarrow> POLY_SET" where
  "set_contour i j c S = S\<lparr>m_polys := (m_polys S)[nat i := (m_polys S ! nat i)[nat j := c]]\<rparr>"

text \<open>The outline and hole arguments: a negative outline counts from the end, a negative hole is the outline.\<close>

definition outline_arg :: "POLY_SET \<Rightarrow> int \<Rightarrow> int" where
  "outline_arg S aOutline = (if aOutline < 0 then aOutline + OutlineCount S else aOutline)"

definition hole_arg :: "int \<Rightarrow> int" where
  "hole_arg aHole = (if aHole < 0 then 0 else aHole + 1)"

subsection \<open>Indices\<close>

text \<open>The three nested loops of \<open>GetRelativeIndices\<close>; \<open>Inr\<close> is the count reached when a loop ends.\<close>

fun vertex_loop :: "int \<Rightarrow> int \<Rightarrow> int \<Rightarrow> nat \<Rightarrow> int + int" where
  "vertex_loop aGlobalIdx current vertexIdx 0 = Inr current"
| "vertex_loop aGlobalIdx current vertexIdx (Suc n) =
    (if current = aGlobalIdx then Inl vertexIdx else vertex_loop aGlobalIdx (current + 1) (vertexIdx + 1) n)"

fun contour_loop :: "int \<Rightarrow> int \<Rightarrow> int \<Rightarrow> POLYGON \<Rightarrow> (int \<times> int) + int" where
  "contour_loop aGlobalIdx current contourIdx [] = Inr current"
| "contour_loop aGlobalIdx current contourIdx (c # cs) =
    (case vertex_loop aGlobalIdx current 0 (length (m_points c)) of
       Inl v \<Rightarrow> Inl (contourIdx, v) | Inr current \<Rightarrow> contour_loop aGlobalIdx current (contourIdx + 1) cs)"

fun polygon_loop :: "int \<Rightarrow> int \<Rightarrow> int \<Rightarrow> POLYGON list \<Rightarrow> VERTEX_INDEX option" where
  "polygon_loop aGlobalIdx current polygonIdx [] = None"
| "polygon_loop aGlobalIdx current polygonIdx (p # ps) =
    (case contour_loop aGlobalIdx current 0 p of
       Inl (k, v) \<Rightarrow> Some \<lparr>m_polygon = polygonIdx, m_contour = k, m_vertex = v\<rparr>
     | Inr current \<Rightarrow> polygon_loop aGlobalIdx current (polygonIdx + 1) ps)"

definition GetRelativeIndices :: "POLY_SET \<Rightarrow> int \<Rightarrow> VERTEX_INDEX option" where
  "GetRelativeIndices S aGlobalIdx = polygon_loop aGlobalIdx 0 0 (m_polys S)"

definition points_of :: "POLYGON \<Rightarrow> int" where
  "points_of p = sum_list (map PointCount p)"

text \<open>The polygon and contour numbers are converted to unsigned, so that negative ones are too large.\<close>

definition GetGlobalIndex :: "POLY_SET \<Rightarrow> VERTEX_INDEX \<Rightarrow> int option" where
  "GetGlobalIndex S r =
    (case contour_at S (m_polygon r) (m_contour r) of None \<Rightarrow> None
     | Some c \<Rightarrow> if m_vertex r < PointCount c
         then Some (sum_list (map points_of (take (nat (m_polygon r)) (m_polys S))) +
           points_of (take (nat (m_contour r)) (m_polys S ! nat (m_polygon r))) + m_vertex r)
         else None)"

definition CVertex3 :: "POLY_SET \<Rightarrow> int \<Rightarrow> int \<Rightarrow> int \<Rightarrow> POLY_ERROR + VECTOR2I" where
  "CVertex3 S aIndex aOutline aHole =
    (case contour_at S (outline_arg S aOutline) (hole_arg aHole) of None \<Rightarrow> Inl Undefined
     | Some c \<Rightarrow> (case CPoint c aIndex of None \<Rightarrow> Inl Undefined | Some p \<Rightarrow> Inr p))"

definition CVertex :: "POLY_SET \<Rightarrow> int \<Rightarrow> POLY_ERROR + VECTOR2I" where
  "CVertex S aGlobalIndex =
    (case GetRelativeIndices S aGlobalIndex of None \<Rightarrow> Inl Out_Of_Range
     | Some r \<Rightarrow> (case contour_at S (m_polygon r) (m_contour r) of None \<Rightarrow> Inl Undefined
         | Some c \<Rightarrow> (case CPoint c (m_vertex r) of None \<Rightarrow> Inl Undefined | Some p \<Rightarrow> Inr p)))"

definition CVertex_rel :: "POLY_SET \<Rightarrow> VERTEX_INDEX \<Rightarrow> POLY_ERROR + VECTOR2I" where
  "CVertex_rel S index = CVertex3 S (m_vertex index) (m_polygon index) (m_contour index - 1)"

text \<open>
  The neighbours; an index \<open>GetGlobalIndex\<close> rejects leaves the result as it was declared, without a value.
\<close>

definition GetNeighbourIndexes :: "POLY_SET \<Rightarrow> int \<Rightarrow> (int option \<times> int option) option" where
  "GetNeighbourIndexes S aGlobalIndex =
    (case GetRelativeIndices S aGlobalIndex of None \<Rightarrow> None
     | Some index \<Rightarrow>
         (let lastpoint = SegmentCount (m_polys S ! nat (m_polygon index) ! nat (m_contour index));
              (prev, inext) =
                (if m_vertex index = 0 then (lastpoint, 1)
                 else if m_vertex index = lastpoint then (m_vertex index - 1, 0)
                 else (m_vertex index - 1, m_vertex index + 1))
          in Some (GetGlobalIndex S (index\<lparr>m_vertex := prev\<rparr>), GetGlobalIndex S (index\<lparr>m_vertex := inext\<rparr>))))"

definition IsVertexInHole :: "POLY_SET \<Rightarrow> int \<Rightarrow> bool" where
  "IsVertexInHole S aGlobalIdx = (case GetRelativeIndices S aGlobalIdx of None \<Rightarrow> False | Some r \<Rightarrow> m_contour r > 0)"

subsection \<open>Counts\<close>

definition VertexCount :: "POLY_SET \<Rightarrow> int \<Rightarrow> int \<Rightarrow> POLY_ERROR + int" where
  "VertexCount S aOutline aHole =
    (if m_polys S = [] then Inr 0
     else
       (let i = outline_arg S aOutline; j = hole_arg aHole in
        if i \<ge> OutlineCount S then Inr 0
        else (case CPolygon S i of None \<Rightarrow> Inl Undefined
              | Some p \<Rightarrow> if j \<ge> int (length p) then Inr 0 else Inr (PointCount (p ! nat j)))))"

definition TotalVertices :: "POLY_SET \<Rightarrow> int" where
  "TotalVertices S = sum_list (map points_of (m_polys S))"

text \<open>The loop over the holes starts at the outline, which it expects to be there.\<close>

definition FullPointCount :: "POLY_SET \<Rightarrow> POLY_ERROR + int" where
  "FullPointCount S =
    (if \<exists>p\<in>set (m_polys S). p = [] then Inl Undefined
     else Inr (sum_list (map (\<lambda>ii. sum_list (map (\<lambda>idx. PointCount (m_polys S ! nat ii ! nat idx)) [0..HoleCount S ii]))
            [0..OutlineCount S - 1])))"

definition poly_ArcCount :: "POLY_SET \<Rightarrow> int" where
  "poly_ArcCount S = sum_list (map (\<lambda>poly. sum_list (map ArcCount poly)) (m_polys S))"

definition GetArcs :: "POLY_SET \<Rightarrow> SHAPE_ARC list \<Rightarrow> SHAPE_ARC list" where
  "GetArcs S aArcBuffer = aArcBuffer @ concat (map (\<lambda>poly. concat (map m_arcs poly)) (m_polys S))"

definition HasHoles :: "POLY_SET \<Rightarrow> bool" where
  "HasHoles S \<longleftrightarrow> (\<exists>paths\<in>set (m_polys S). length paths > 1)"

subsection \<open>Digest and triangulation\<close>

definition hashed_numbers :: "POLYGON list \<Rightarrow> int list" where
  "hashed_numbers polys =
    int (length polys) # concat (map (\<lambda>outline. int (length outline) # concat (map (\<lambda>lc.
      PointCount lc # concat (map (\<lambda>p. [vx p, vy p]) (m_points lc))) outline)) polys)"

definition checksum :: "(int list \<Rightarrow> nat) \<Rightarrow> POLY_SET \<Rightarrow> nat" where
  "checksum md5 S = md5 (hashed_numbers (m_polys S))"

definition GetHash :: "(int list \<Rightarrow> nat) \<Rightarrow> POLY_SET \<Rightarrow> nat" where
  "GetHash md5 S = (case m_hash S of None \<Rightarrow> checksum md5 S | Some h \<Rightarrow> h)"

definition IsTriangulationUpToDate :: "(int list \<Rightarrow> nat) \<Rightarrow> POLY_SET \<Rightarrow> bool" where
  "IsTriangulationUpToDate md5 S \<longleftrightarrow> m_triangulationValid S \<and> m_hash S \<noteq> None \<and> m_hash S = Some (checksum md5 S)"

definition UpdateTriangulationDataHash :: "(int list \<Rightarrow> nat) \<Rightarrow> POLY_SET \<Rightarrow> POLY_SET" where
  "UpdateTriangulationDataHash md5 S = S\<lparr>m_hash := Some (checksum md5 S)\<rparr>"

definition poly_copy :: "(int list \<Rightarrow> nat) \<Rightarrow> POLY_SET \<Rightarrow> POLY_SET" where
  "poly_copy md5 aOther =
    (if IsTriangulationUpToDate md5 aOther then
       \<lparr>m_polys = m_polys aOther, m_triangulatedPolys = m_triangulatedPolys aOther, m_triangulationValid = True,
        m_hash = Some (GetHash md5 aOther)\<rparr>
     else \<lparr>m_polys = m_polys aOther, m_triangulatedPolys = [], m_triangulationValid = False, m_hash = None\<rparr>)"

definition CloneDropTriangulation :: "POLY_SET \<Rightarrow> POLY_SET" where
  "CloneDropTriangulation S = \<lparr>m_polys = m_polys S, m_triangulatedPolys = [], m_triangulationValid = False, m_hash = None\<rparr>"

definition GetIndexableSubshapeCount :: "POLY_SET \<Rightarrow> int" where
  "GetIndexableSubshapeCount S = sum_list (map (\<lambda>t. int (length (m_triangles t))) (m_triangulatedPolys S))"

definition AddTriangle :: "int \<Rightarrow> int \<Rightarrow> int \<Rightarrow> TRIANGULATED_POLYGON \<Rightarrow> TRIANGULATED_POLYGON" where
  "AddTriangle a b c t = t\<lparr>m_triangles := m_triangles t @ [(a, b, c)]\<rparr>"

definition AddVertex :: "VECTOR2I \<Rightarrow> TRIANGULATED_POLYGON \<Rightarrow> TRIANGULATED_POLYGON" where
  "AddVertex aP t = t\<lparr>m_vertices := m_vertices t @ [aP]\<rparr>"

subsection \<open>Editing\<close>

definition NewOutline :: "POLY_SET \<Rightarrow> POLY_SET \<times> int" where
  "NewOutline S =
    (let S = S\<lparr>m_polys := m_polys S @ [[SetClosed True chain_empty]]\<rparr> in (S, OutlineCount S - 1))"

definition push_contour :: "int \<Rightarrow> CHAIN \<Rightarrow> POLY_SET \<Rightarrow> POLY_SET option" where
  "push_contour i c S =
    (case CPolygon S i of None \<Rightarrow> None | Some p \<Rightarrow> Some (S\<lparr>m_polys := (m_polys S)[nat i := p @ [c]]\<rparr>))"

definition NewHole :: "int \<Rightarrow> POLY_SET \<Rightarrow> (POLY_SET \<times> int) option" where
  "NewHole aOutline S =
    map_option (\<lambda>S. (S, int (length (last (m_polys S))) - 2))
      (push_contour (outline_arg S aOutline) (SetClosed True chain_empty) S)"

definition AddOutline :: "CHAIN \<Rightarrow> POLY_SET \<Rightarrow> POLY_SET \<times> int" where
  "AddOutline aOutline S = (let S = S\<lparr>m_polys := m_polys S @ [[aOutline]]\<rparr> in (S, OutlineCount S - 1))"

definition AddHole :: "CHAIN \<Rightarrow> int \<Rightarrow> POLY_SET \<Rightarrow> (POLY_SET \<times> int) option" where
  "AddHole aHole aOutline S =
    (let i = outline_arg S aOutline in
     map_option (\<lambda>S. (S, int (length (m_polys S ! nat i)) - 2)) (push_contour i aHole S))"

definition AddPolygon :: "POLYGON \<Rightarrow> POLY_SET \<Rightarrow> POLY_SET \<times> int" where
  "AddPolygon apolygon S = (let S = S\<lparr>m_polys := m_polys S @ [apolygon]\<rparr> in (S, OutlineCount S - 1))"

text \<open>Replacing one contour by the result of an operation of the chain.\<close>

definition on_contour :: "int \<Rightarrow> int \<Rightarrow> (CHAIN \<Rightarrow> CHAIN option) \<Rightarrow> POLY_SET \<Rightarrow> POLY_ERROR + POLY_SET" where
  "on_contour i j f S =
    (case contour_at S i j of None \<Rightarrow> Inl Undefined
     | Some c \<Rightarrow> (case f c of None \<Rightarrow> Inl Undefined | Some d \<Rightarrow> Inr (set_contour i j d S)))"

definition poly_Append :: "VECTOR2I \<Rightarrow> int \<Rightarrow> int \<Rightarrow> bool \<Rightarrow> POLY_SET \<Rightarrow> POLY_ERROR + POLY_SET" where
  "poly_Append p aOutline aHole aAllowDuplication S =
    on_contour (outline_arg S aOutline) (hole_arg aHole) (\<lambda>c. Some (chain_Append p aAllowDuplication c)) S"

definition poly_Append_arc :: "FLOATS \<Rightarrow> SHAPE_ARC \<Rightarrow> int \<Rightarrow> int \<Rightarrow> POLY_SET \<Rightarrow> POLY_ERROR + POLY_SET" where
  "poly_Append_arc F aArc aOutline aHole S =
    on_contour (outline_arg S aOutline) (hole_arg aHole) (\<lambda>c. Some (Append_arc F aArc c)) S"

definition poly_Append_set :: "POLY_SET \<Rightarrow> POLY_SET \<Rightarrow> POLY_SET" where
  "poly_Append_set aSet S = S\<lparr>m_polys := m_polys S @ m_polys aSet\<rparr>"

definition InsertVertex :: "FLOATS \<Rightarrow> int \<Rightarrow> VECTOR2I \<Rightarrow> POLY_SET \<Rightarrow> POLY_ERROR + POLY_SET" where
  "InsertVertex F aGlobalIndex0 aNewVertex S =
    (let aGlobalIndex = (if aGlobalIndex0 < 0 then 0 else aGlobalIndex0) in
     if aGlobalIndex \<ge> TotalVertices S then poly_Append aNewVertex (- 1) (- 1) False S
     else (case GetRelativeIndices S aGlobalIndex of None \<Rightarrow> Inl Out_Of_Range
           | Some r \<Rightarrow> on_contour (m_polygon r) (m_contour r) (\<lambda>c. Some (Insert_pt F (m_vertex r) aNewVertex c)) S))"

definition RemoveVertex_rel :: "FLOATS \<Rightarrow> VERTEX_INDEX \<Rightarrow> POLY_SET \<Rightarrow> POLY_ERROR + POLY_SET" where
  "RemoveVertex_rel F aIndex S =
    on_contour (m_polygon aIndex) (m_contour aIndex) (Remove F (m_vertex aIndex) (m_vertex aIndex)) S"

definition RemoveVertex :: "FLOATS \<Rightarrow> int \<Rightarrow> POLY_SET \<Rightarrow> POLY_ERROR + POLY_SET" where
  "RemoveVertex F aGlobalIndex S =
    (case GetRelativeIndices S aGlobalIndex of None \<Rightarrow> Inl Out_Of_Range | Some r \<Rightarrow> RemoveVertex_rel F r S)"

definition SetVertex_rel :: "VERTEX_INDEX \<Rightarrow> VECTOR2I \<Rightarrow> POLY_SET \<Rightarrow> POLY_ERROR + POLY_SET" where
  "SetVertex_rel aIndex aPos S = on_contour (m_polygon aIndex) (m_contour aIndex) (SetPoint (m_vertex aIndex) aPos) S"

definition SetVertex :: "int \<Rightarrow> VECTOR2I \<Rightarrow> POLY_SET \<Rightarrow> POLY_ERROR + POLY_SET" where
  "SetVertex aGlobalIndex aPos S =
    (case GetRelativeIndices S aGlobalIndex of None \<Rightarrow> Inl Out_Of_Range | Some r \<Rightarrow> SetVertex_rel r aPos S)"

definition RemoveAllContours :: "POLY_SET \<Rightarrow> POLY_SET" where
  "RemoveAllContours S = S\<lparr>m_polys := []\<rparr>"

definition RemoveContour :: "int \<Rightarrow> int \<Rightarrow> POLY_SET \<Rightarrow> POLY_SET option" where
  "RemoveContour aContourIdx aPolygonIdx S =
    (let i = outline_arg S aPolygonIdx in
     case contour_at S i aContourIdx of None \<Rightarrow> None
     | Some c \<Rightarrow> Some (S\<lparr>m_polys := (m_polys S)[nat i := vec_erase (nat aContourIdx) (nat aContourIdx + 1) (m_polys S ! nat i)]\<rparr>))"

definition DeletePolygon :: "int \<Rightarrow> POLY_SET \<Rightarrow> POLY_SET option" where
  "DeletePolygon aIdx S =
    (case CPolygon S aIdx of None \<Rightarrow> None
     | Some p \<Rightarrow> Some (S\<lparr>m_polys := vec_erase (nat aIdx) (nat aIdx + 1) (m_polys S)\<rparr>))"

fun drop_source :: "int \<Rightarrow> TRIANGULATED_POLYGON list \<Rightarrow> TRIANGULATED_POLYGON list" where
  "drop_source aIdx [] = []"
| "drop_source aIdx (t # ts) =
    (if m_sourceOutline t = aIdx then drop_source aIdx ts
     else if m_sourceOutline t > aIdx then t\<lparr>m_sourceOutline := m_sourceOutline t - 1\<rparr> # drop_source aIdx ts
     else t # drop_source aIdx ts)"

definition DeletePolygonAndTriangulationData :: "(int list \<Rightarrow> nat) \<Rightarrow> int \<Rightarrow> bool \<Rightarrow> POLY_SET \<Rightarrow> POLY_SET option" where
  "DeletePolygonAndTriangulationData md5 aIdx aUpdateHash S =
    (case DeletePolygon aIdx S of None \<Rightarrow> None
     | Some S \<Rightarrow>
         if m_triangulationValid S then
           (let S = S\<lparr>m_triangulatedPolys := drop_source aIdx (m_triangulatedPolys S)\<rparr> in
            Some (if aUpdateHash then S\<lparr>m_hash := Some (checksum md5 S)\<rparr> else S))
         else Some S)"

definition Subset :: "POLY_SET \<Rightarrow> int \<Rightarrow> int \<Rightarrow> POLY_SET option" where
  "Subset S aFirstPolygon aLastPolygon =
    (if \<exists>i\<in>set [aFirstPolygon..aLastPolygon - 1]. CPolygon S i = None then None
     else Some (poly_empty\<lparr>m_polys := map (\<lambda>i. m_polys S ! nat i) [aFirstPolygon..aLastPolygon - 1]\<rparr>))"

definition UnitSet :: "POLY_SET \<Rightarrow> int \<Rightarrow> POLY_SET option" where
  "UnitSet S aPolygonIndex = Subset S aPolygonIndex (aPolygonIndex + 1)"

definition map_chains :: "(CHAIN \<Rightarrow> CHAIN) \<Rightarrow> POLY_SET \<Rightarrow> POLY_SET" where
  "map_chains f S = S\<lparr>m_polys := map (map f) (m_polys S)\<rparr>"

definition poly_ClearArcs :: "POLY_SET \<Rightarrow> POLY_SET" where
  "poly_ClearArcs S = map_chains ClearArcs S"

definition BuildBBoxCaches :: "POLY_SET \<Rightarrow> POLY_SET" where
  "BuildBBoxCaches S = map_chains GenerateBBoxCache S"

definition triangulated_Move :: "VECTOR2I \<Rightarrow> TRIANGULATED_POLYGON \<Rightarrow> TRIANGULATED_POLYGON" where
  "triangulated_Move aVec t = t\<lparr>m_vertices := map (\<lambda>p. vadd p aVec) (m_vertices t)\<rparr>"

definition poly_Move :: "(int list \<Rightarrow> nat) \<Rightarrow> VECTOR2I \<Rightarrow> POLY_SET \<Rightarrow> POLY_SET" where
  "poly_Move md5 aVector S =
    (let S = map_chains (chain_Move aVector) S;
         S = S\<lparr>m_triangulatedPolys := map (triangulated_Move aVector) (m_triangulatedPolys S)\<rparr>
     in S\<lparr>m_hash := Some (checksum md5 S)\<rparr>)"

text \<open>\<open>cache\<close> is \<open>CacheTriangulation\<close>, which fills in the triangulation.\<close>

definition poly_Mirror :: "(POLY_SET \<Rightarrow> POLY_SET) \<Rightarrow> bool \<Rightarrow> bool \<Rightarrow> VECTOR2I \<Rightarrow> POLY_SET \<Rightarrow> POLY_SET" where
  "poly_Mirror cache aX aY aRef S =
    (let S = map_chains (Mirror aX aY aRef) S in if m_triangulationValid S then cache S else S)"

definition poly_Rotate :: "(POLY_SET \<Rightarrow> POLY_SET) \<Rightarrow> (VECTOR2I \<Rightarrow> VECTOR2I) \<Rightarrow> POLY_SET \<Rightarrow> POLY_SET" where
  "poly_Rotate cache rot S =
    (let S = map_chains (chain_Rotate rot) S in if m_triangulationValid S then cache S else S)"

definition poly_of_outline :: "CHAIN \<Rightarrow> POLY_SET" where
  "poly_of_outline aOutline = fst (AddOutline aOutline poly_empty)"

definition poly_of_polygon :: "POLYGON \<Rightarrow> POLY_SET" where
  "poly_of_polygon aPolygon = fst (AddPolygon aPolygon poly_empty)"

subsection \<open>Iterators\<close>

record ITERATOR =
  m_currentPolygon :: int
  m_currentContour :: int
  m_currentVertex :: int
  m_lastPolygon :: int
  m_iterateHoles :: bool

definition Iterate :: "POLY_SET \<Rightarrow> int \<Rightarrow> int \<Rightarrow> bool \<Rightarrow> ITERATOR" where
  "Iterate S aFirst aLast aIterateHoles =
    \<lparr>m_currentPolygon = aFirst, m_currentContour = 0, m_currentVertex = 0,
     m_lastPolygon = (if aLast < 0 then OutlineCount S - 1 else aLast), m_iterateHoles = aIterateHoles\<rparr>"

definition IterateWithHoles :: "POLY_SET \<Rightarrow> ITERATOR" where
  "IterateWithHoles S = Iterate S 0 (OutlineCount S - 1) True"

definition it_contour :: "POLY_SET \<Rightarrow> ITERATOR \<Rightarrow> CHAIN option" where
  "it_contour S it = contour_at S (m_currentPolygon it) (m_currentContour it)"

definition it_valid :: "POLY_SET \<Rightarrow> ITERATOR \<Rightarrow> bool option" where
  "it_valid S it =
    (if m_currentPolygon it < m_lastPolygon it then Some True
     else if m_currentPolygon it \<noteq> OutlineCount S - 1 then Some False
     else (case CPolygon S (m_currentPolygon it) of None \<Rightarrow> None
       | Some p \<Rightarrow> if m_currentContour it < int (length p) - 1 then Some True
           else map_option (\<lambda>c. m_currentVertex it < PointCount c) (it_contour S it)))"

definition it_Advance :: "POLY_SET \<Rightarrow> ITERATOR \<Rightarrow> ITERATOR option" where
  "it_Advance S it0 =
    (let it = it0\<lparr>m_currentVertex := m_currentVertex it0 + 1\<rparr> in
     if m_iterateHoles it then
       (case it_contour S it of None \<Rightarrow> None
        | Some c \<Rightarrow> Some
            (if m_currentVertex it \<ge> PointCount c then
               (let it = it\<lparr>m_currentVertex := 0, m_currentContour := m_currentContour it + 1\<rparr> in
                if m_currentContour it \<ge> int (length (m_polys S ! nat (m_currentPolygon it)))
                then it\<lparr>m_currentContour := 0, m_currentPolygon := m_currentPolygon it + 1\<rparr> else it)
             else it))
     else
       (case contour_at S (m_currentPolygon it) 0 of None \<Rightarrow> None
        | Some c \<Rightarrow> Some
            (if m_currentVertex it \<ge> PointCount c
             then it\<lparr>m_currentVertex := 0, m_currentPolygon := m_currentPolygon it + 1\<rparr> else it)))"

definition it_Get :: "POLY_SET \<Rightarrow> ITERATOR \<Rightarrow> VECTOR2I option" where
  "it_Get S it = (case it_contour S it of None \<Rightarrow> None | Some c \<Rightarrow> CPoint c (m_currentVertex it))"

definition it_GetIndex :: "ITERATOR \<Rightarrow> VERTEX_INDEX" where
  "it_GetIndex it = \<lparr>m_polygon = m_currentPolygon it, m_contour = m_currentContour it, m_vertex = m_currentVertex it\<rparr>"

definition IsEndContour :: "POLY_SET \<Rightarrow> ITERATOR \<Rightarrow> bool option" where
  "IsEndContour S it = map_option (\<lambda>c. m_currentVertex it + 1 = PointCount c) (it_contour S it)"

definition IterateFromVertexWithHoles :: "POLY_SET \<Rightarrow> int \<Rightarrow> POLY_ERROR + ITERATOR" where
  "IterateFromVertexWithHoles S aGlobalIdx =
    (case GetRelativeIndices S aGlobalIdx of None \<Rightarrow> Inl Out_Of_Range
     | Some r \<Rightarrow> Inr ((IterateWithHoles S)\<lparr>m_currentPolygon := m_polygon r, m_currentContour := m_contour r,
                                      m_currentVertex := m_vertex r\<rparr>))"

text \<open>The loop \<open>for( iterator; iterator; iterator++ )\<close> with what it visits.\<close>

partial_function (option) iterate ::
  "POLY_SET \<Rightarrow> ITERATOR \<Rightarrow> (VERTEX_INDEX \<times> VECTOR2I) list \<Rightarrow> (VERTEX_INDEX \<times> VECTOR2I) list option" where
  "iterate S it visited =
    (case it_valid S it of None \<Rightarrow> None
     | Some v \<Rightarrow>
         if \<not> v then Some visited
         else (case it_Get S it of None \<Rightarrow> None
          | Some p \<Rightarrow> (case it_Advance S it of None \<Rightarrow> None
             | Some it' \<Rightarrow> iterate S it' (visited @ [(it_GetIndex it, p)]))))"

text \<open>Iterators over the segments; the state is the same record, \<open>m_currentVertex\<close> being the segment.\<close>

definition seg_valid :: "ITERATOR \<Rightarrow> bool" where
  "seg_valid it \<longleftrightarrow> m_currentPolygon it \<le> m_lastPolygon it"

definition seg_Advance :: "POLY_SET \<Rightarrow> ITERATOR \<Rightarrow> ITERATOR option" where
  "seg_Advance S it0 =
    (let it = it0\<lparr>m_currentVertex := m_currentVertex it0 + 1\<rparr> in
     if m_iterateHoles it then
       (case it_contour S it of None \<Rightarrow> None
        | Some c \<Rightarrow> Some
            (if m_currentVertex it \<ge> SegmentCount c then
               (let it = it\<lparr>m_currentVertex := 0, m_currentContour := m_currentContour it + 1\<rparr> in
                if m_currentContour it \<ge> int (length (m_polys S ! nat (m_currentPolygon it)))
                then it\<lparr>m_currentContour := 0, m_currentPolygon := m_currentPolygon it + 1\<rparr> else it)
             else it))
     else
       (case contour_at S (m_currentPolygon it) 0 of None \<Rightarrow> None
        | Some c \<Rightarrow> Some
            (if m_currentVertex it \<ge> SegmentCount c
             then it\<lparr>m_currentVertex := 0, m_currentPolygon := m_currentPolygon it + 1\<rparr> else it)))"

definition seg_Get :: "POLY_SET \<Rightarrow> ITERATOR \<Rightarrow> SEG option" where
  "seg_Get S it =
    (case it_contour S it of None \<Rightarrow> None
     | Some c \<Rightarrow> if 0 \<le> m_currentVertex it \<and> m_currentVertex it < SegmentCount c then Some (CSegment c (m_currentVertex it)) else None)"

definition IsAdjacent :: "POLY_SET \<Rightarrow> ITERATOR \<Rightarrow> ITERATOR \<Rightarrow> bool option" where
  "IsAdjacent S it aOther =
    (if m_currentPolygon it = m_currentPolygon aOther \<and> m_currentContour it = m_currentContour aOther then
       map_option (\<lambda>c. let indexDiff = \<bar>m_currentVertex it - m_currentVertex aOther\<bar> in
         indexDiff = 1 \<or> indexDiff = SegmentCount c - 1) (it_contour S it)
     else Some False)"

partial_function (option) iterate_segments ::
  "POLY_SET \<Rightarrow> ITERATOR \<Rightarrow> (VERTEX_INDEX \<times> SEG) list \<Rightarrow> (VERTEX_INDEX \<times> SEG) list option" where
  "iterate_segments S it visited =
    (if \<not> seg_valid it then Some visited
     else (case seg_Get S it of None \<Rightarrow> None
      | Some s \<Rightarrow> (case seg_Advance S it of None \<Rightarrow> None
         | Some it' \<Rightarrow> iterate_segments S it' (visited @ [(it_GetIndex it, s)]))))"

declare iterate.simps [code] iterate_segments.simps [code]

text \<open>Removing the vertices that begin a segment without length: first the loop that collects them.\<close>

partial_function (option) null_segments ::
  "POLY_SET \<Rightarrow> ITERATOR \<Rightarrow> VECTOR2I \<Rightarrow> VERTEX_INDEX list \<Rightarrow> (bool \<times> VERTEX_INDEX list) option" where
  "null_segments S it contourStart found =
    (case it_valid S it of None \<Rightarrow> None
     | Some v \<Rightarrow>
         if \<not> v then Some (True, found)
         else (case (it_Get S it, IsEndContour S it, it_Advance S it) of
            (Some segmentStart, Some end', Some it') \<Rightarrow>
              (case it_valid S it' of None \<Rightarrow> None
               | Some v' \<Rightarrow>
                   if end' then
                     (let found = (if segmentStart = contourStart then found @ [it_GetIndex it] else found) in
                      if v' then (case it_Get S it' of None \<Rightarrow> None | Some p \<Rightarrow> null_segments S it' p found)
                      else null_segments S it' contourStart found)
                   else if \<not> v' then Some (False, found)
                   else (case it_Get S it' of None \<Rightarrow> None
                     | Some segmentEnd \<Rightarrow> null_segments S it' contourStart
                         (if segmentStart = segmentEnd then found @ [it_GetIndex it] else found)))
          | _ \<Rightarrow> None))"

declare null_segments.simps [code]

fun remove_vertices :: "FLOATS \<Rightarrow> VERTEX_INDEX list \<Rightarrow> POLY_SET \<Rightarrow> POLY_ERROR + POLY_SET" where
  "remove_vertices F [] S = Inr S"
| "remove_vertices F (r # rs) S =
    (case RemoveVertex_rel F r S of Inl e \<Rightarrow> Inl e | Inr S \<Rightarrow> remove_vertices F rs S)"

definition RemoveNullSegments :: "FLOATS \<Rightarrow> POLY_SET \<Rightarrow> POLY_ERROR + (POLY_SET \<times> int)" where
  "RemoveNullSegments F S =
    (case it_Get S (IterateWithHoles S) of None \<Rightarrow> Inl Undefined
     | Some contourStart \<Rightarrow>
         (case null_segments S (IterateWithHoles S) contourStart [] of None \<Rightarrow> Inl Undefined
          | Some (all_seen, found) \<Rightarrow>
              if \<not> all_seen then Inr (S, int (length found))
              else (case remove_vertices F (rev found) S of Inl e \<Rightarrow> Inl e | Inr S \<Rightarrow> Inr (S, int (length found)))))"

subsection \<open>Queries\<close>

definition IsEmpty :: "POLY_SET \<Rightarrow> bool" where "IsEmpty S \<longleftrightarrow> m_polys S = []"

definition poly_PointOnEdge :: "FLOATS \<Rightarrow> POLY_SET \<Rightarrow> VECTOR2I \<Rightarrow> int \<Rightarrow> bool" where
  "poly_PointOnEdge F S aP aAccuracy \<longleftrightarrow> (\<exists>polygon\<in>set (m_polys S). \<exists>lineChain\<in>set polygon. PointOnEdge F lineChain aP aAccuracy)"

text \<open>The boxes of the outlines, merged in order.\<close>

fun merge_outlines :: "(CHAIN \<Rightarrow> BOX2) \<Rightarrow> bool \<Rightarrow> POLYGON list \<Rightarrow> BOX2 \<Rightarrow> BOX2 option" where
  "merge_outlines box first [] bb = Some bb"
| "merge_outlines box first (p # ps) bb =
    (case p of [] \<Rightarrow> None
     | c # _ \<Rightarrow> merge_outlines box False ps (if first then box c else Merge_box bb (box c)))"

definition poly_BBox :: "int \<Rightarrow> POLY_SET \<Rightarrow> BOX2 option" where
  "poly_BBox aClearance S = map_option (\<lambda>bb. Inflate bb aClearance aClearance) (merge_outlines (BBox 0) True (m_polys S) BOX2_empty)"

definition BBoxFromCaches :: "POLY_SET \<Rightarrow> BOX2 option" where
  "BBoxFromCaches S = merge_outlines m_bbox True (m_polys S) BOX2_empty"

definition containsSingle :: "FLOATS \<Rightarrow> POLYGON \<Rightarrow> VECTOR2I \<Rightarrow> int \<Rightarrow> bool \<Rightarrow> bool option" where
  "containsSingle F poly aP aAccuracy aUseBBoxCaches =
    (case poly of [] \<Rightarrow> None
     | outline # holes \<Rightarrow> Some (PointInside F outline aP aAccuracy False \<and>
         \<not> (\<exists>hole\<in>set holes. PointInside F hole aP 1 aUseBBoxCaches)))"

fun contains_any :: "(POLYGON \<Rightarrow> bool option) \<Rightarrow> POLYGON list \<Rightarrow> bool option" where
  "contains_any f [] = Some False"
| "contains_any f (p # ps) = (case f p of None \<Rightarrow> None | Some b \<Rightarrow> if b then Some True else contains_any f ps)"

definition poly_Contains :: "FLOATS \<Rightarrow> POLY_SET \<Rightarrow> VECTOR2I \<Rightarrow> int \<Rightarrow> int \<Rightarrow> bool \<Rightarrow> bool option" where
  "poly_Contains F S aP aSubpolyIndex aAccuracy aUseBBoxCaches =
    (if m_polys S = [] then Some False
     else if aSubpolyIndex \<ge> 0 then
       (case CPolygon S aSubpolyIndex of None \<Rightarrow> None | Some p \<Rightarrow> containsSingle F p aP aAccuracy aUseBBoxCaches)
     else contains_any (\<lambda>p. containsSingle F p aP aAccuracy aUseBBoxCaches) (m_polys S))"

definition poly_PointInside :: "FLOATS \<Rightarrow> POLY_SET \<Rightarrow> VECTOR2I \<Rightarrow> int \<Rightarrow> bool \<Rightarrow> bool option" where
  "poly_PointInside F S aPt aAccuracy aUseBBoxCache =
    contains_any (\<lambda>p. case p of [] \<Rightarrow> None | c # _ \<Rightarrow> Some (PointInside F c aPt aAccuracy aUseBBoxCache)) (m_polys S)"

text \<open>\<open>x << 32 | y\<close> of two 32-bit coordinates as a \<open>long long\<close>: a negative \<open>y\<close> is extended with ones.\<close>

definition ptHash :: "VECTOR2I \<Rightarrow> int" where
  "ptHash p = (vx p * 2 ^ 32) OR vy p"

fun repeated :: "int set \<Rightarrow> int list \<Rightarrow> bool" where
  "repeated ptHashes [] = False"
| "repeated ptHashes (h # hs) = (if h \<in> ptHashes then True else repeated (insert h ptHashes) hs)"

definition hasTouchingHoles :: "POLYGON \<Rightarrow> bool" where
  "hasTouchingHoles aPoly = repeated {} (map ptHash (concat (map m_points aPoly)))"

definition HasTouchingHoles :: "POLY_SET \<Rightarrow> bool" where
  "HasTouchingHoles S \<longleftrightarrow> (\<exists>p\<in>set (m_polys S). hasTouchingHoles p)"

text \<open>
  The nearest vertex or edge within the clearance, the last one of several; without a place for it the
  first one that is near enough ends the loop.
\<close>

fun collide_index :: "bool \<Rightarrow> ('a \<Rightarrow> int) \<Rightarrow> int \<Rightarrow> 'a list \<Rightarrow> 'a option \<Rightarrow> 'a option" where
  "collide_index want dst clearance_squared [] found = found"
| "collide_index want dst clearance_squared (x # xs) found =
    (if dst x \<le> clearance_squared then
       (if \<not> want then Some x else collide_index want dst (dst x) xs (Some x))
     else collide_index want dst clearance_squared xs found)"

definition CollideVertex :: "POLY_SET \<Rightarrow> VECTOR2I \<Rightarrow> bool \<Rightarrow> int \<Rightarrow> VERTEX_INDEX option option" where
  "CollideVertex S aPoint want aClearance =
    (case iterate S (IterateWithHoles S) [] of None \<Rightarrow> None
     | Some l \<Rightarrow> Some (map_option fst
         (collide_index want (\<lambda>v. SquaredEuclideanNorm (vsub (snd v) aPoint)) (aClearance * aClearance) l None)))"

definition IterateSegmentsWithHoles :: "POLY_SET \<Rightarrow> ITERATOR" where
  "IterateSegmentsWithHoles S = Iterate S 0 (OutlineCount S - 1) True"

definition CollideEdge :: "POLY_SET \<Rightarrow> VECTOR2I \<Rightarrow> bool \<Rightarrow> int \<Rightarrow> VERTEX_INDEX option option" where
  "CollideEdge S aPoint want aClearance =
    (case iterate_segments S (IterateSegmentsWithHoles S) [] of None \<Rightarrow> None
     | Some l \<Rightarrow> Some (map_option fst
         (collide_index want (\<lambda>s. SquaredDistance_pt (snd s) aPoint) (aClearance * aClearance) l None)))"

text \<open>The sweep over the segments in the order of their lower left corners; a segment knows its number in its contour.\<close>

definition seg_min :: "SEG \<Rightarrow> int \<times> int" where
  "seg_min s = (min (vx (segA s)) (vx (segB s)), min (vy (segA s)) (vy (segB s)))"

definition seg_max :: "SEG \<Rightarrow> int \<times> int" where
  "seg_max s = (max (vx (segA s)) (vx (segB s)), max (vy (segA s)) (vy (segB s)))"

fun sweep_inner :: "FLOATS \<Rightarrow> int \<Rightarrow> VERTEX_INDEX \<times> SEG \<Rightarrow> (VERTEX_INDEX \<times> SEG) list \<Rightarrow> bool" where
  "sweep_inner F n a [] = False"
| "sweep_inner F n a (b # bs) =
    (if fst (seg_max (snd a)) < fst (seg_min (snd b)) \<or>
        (fst (seg_max (snd a)) = fst (seg_min (snd b)) \<and> snd (seg_max (snd a)) < snd (seg_min (snd b))) then False
     else
       (let index_diff = \<bar>m_vertex (fst a) - m_vertex (fst b)\<bar>; adjacent = (index_diff = 1 \<or> index_diff = n - 1) in
        if \<not> adjacent \<and> Collide (fl_guess F) (snd a) (snd b) 0 \<noteq> None then True else sweep_inner F n a bs))"

fun sweep :: "FLOATS \<Rightarrow> int \<Rightarrow> (VERTEX_INDEX \<times> SEG) list \<Rightarrow> bool" where
  "sweep F n [] = False"
| "sweep F n (a # as) = (if sweep_inner F n a as then True else sweep F n as)"

definition IsPolygonSelfIntersecting :: "FLOATS \<Rightarrow> POLY_SET \<Rightarrow> int \<Rightarrow> bool option" where
  "IsPolygonSelfIntersecting F S aPolygonIndex =
    map_option (\<lambda>segments. sweep F (int (length segments)) (sort_key (\<lambda>s. seg_min (snd s)) segments))
      (iterate_segments S (Iterate S aPolygonIndex aPolygonIndex True) [])"

fun any_intersecting :: "FLOATS \<Rightarrow> POLY_SET \<Rightarrow> int list \<Rightarrow> bool option" where
  "any_intersecting F S [] = Some False"
| "any_intersecting F S (i # is) =
    (case IsPolygonSelfIntersecting F S i of None \<Rightarrow> None | Some b \<Rightarrow> if b then Some True else any_intersecting F S is)"

definition IsSelfIntersecting :: "FLOATS \<Rightarrow> POLY_SET \<Rightarrow> bool option" where
  "IsSelfIntersecting F S = any_intersecting F S [0..OutlineCount S - 1]"

text \<open>
  Distances. The nearest point is an optional result, \<open>None\<close> when it was not written: the first segment
  sets the distance only.
\<close>

fun nearest_loop :: "('s \<Rightarrow> int) \<Rightarrow> ('s \<Rightarrow> VECTOR2I) \<Rightarrow> 's list \<Rightarrow> int \<Rightarrow> VECTOR2I option \<Rightarrow> int \<times> VECTOR2I option" where
  "nearest_loop dst near [] minDistance aNearest = (minDistance, aNearest)"
| "nearest_loop dst near (s # ss) minDistance aNearest =
    (if minDistance > 0 then
       (if dst s < minDistance then nearest_loop dst near ss (dst s) (Some (near s))
        else nearest_loop dst near ss minDistance aNearest)
     else (minDistance, aNearest))"

definition SquaredDistanceToPolygon_pt :: "FLOATS \<Rightarrow> POLY_SET \<Rightarrow> VECTOR2I \<Rightarrow> int \<Rightarrow> (int \<times> VECTOR2I option) option" where
  "SquaredDistanceToPolygon_pt F S aPoint aPolygonIndex =
    (case CPolygon S aPolygonIndex of None \<Rightarrow> None
     | Some poly \<Rightarrow>
        (case containsSingle F poly aPoint 1 False of None \<Rightarrow> None
         | Some inside \<Rightarrow>
            if inside then Some (0, Some aPoint)
            else (case iterate_segments S (Iterate S aPolygonIndex aPolygonIndex True) [] of
                Some (s # ss) \<Rightarrow>
                  Some (nearest_loop (\<lambda>t. SquaredDistance_pt t aPoint) (\<lambda>t. NearestPoint t aPoint) (map snd ss)
                    (SquaredDistance_pt (snd s) aPoint) None)
              | _ \<Rightarrow> None)))"

definition SquaredDistanceToPolygon_seg :: "FLOATS \<Rightarrow> POLY_SET \<Rightarrow> SEG \<Rightarrow> int \<Rightarrow> (int \<times> VECTOR2I option) option" where
  "SquaredDistanceToPolygon_seg F S aSegment aPolygonIndex =
    (case CPolygon S aPolygonIndex of None \<Rightarrow> None
     | Some poly \<Rightarrow>
        (case (containsSingle F poly (segA aSegment) 1 False, containsSingle F poly (segB aSegment) 1 False) of
           (Some inA, Some inB) \<Rightarrow>
             if inA \<and> inB
             then Some (0, Some (Vec ((vx (segA aSegment) + vx (segB aSegment)) sdiv 2) ((vy (segA aSegment) + vy (segB aSegment)) sdiv 2)))
             else (case iterate_segments S (Iterate S aPolygonIndex aPolygonIndex True) [] of
                Some (s # ss) \<Rightarrow>
                  (let minDistance = SquaredDistance (snd s) aSegment;
                       (d, near) = nearest_loop (\<lambda>t. SquaredDistance t aSegment) (\<lambda>t. NearestPoint_seg t aSegment) (map snd ss)
                         minDistance (if minDistance = 0 then Some (NearestPoint_seg (snd s) aSegment) else None)
                   in Some (if d < 0 then 0 else d, near))
              | _ \<Rightarrow> None)
         | _ \<Rightarrow> None))"

fun least_polygon :: "(int \<Rightarrow> (int \<times> VECTOR2I option) option) \<Rightarrow> int list \<Rightarrow> int \<Rightarrow> VECTOR2I option \<Rightarrow> (int \<times> VECTOR2I option) option" where
  "least_polygon f [] minDistance_sq aNearest = Some (minDistance_sq, aNearest)"
| "least_polygon f (i # is) minDistance_sq aNearest =
    (case f i of None \<Rightarrow> None
     | Some (d, nearest) \<Rightarrow> if d < minDistance_sq then least_polygon f is d nearest else least_polygon f is minDistance_sq aNearest)"

definition poly_SquaredDistance :: "FLOATS \<Rightarrow> POLY_SET \<Rightarrow> VECTOR2I \<Rightarrow> (int \<times> VECTOR2I option) option" where
  "poly_SquaredDistance F S aPoint = least_polygon (SquaredDistanceToPolygon_pt F S aPoint) [0..OutlineCount S - 1] ECOORD_MAX None"

definition poly_SquaredDistanceToSeg :: "FLOATS \<Rightarrow> POLY_SET \<Rightarrow> SEG \<Rightarrow> (int \<times> VECTOR2I option) option" where
  "poly_SquaredDistanceToSeg F S aSegment =
    least_polygon (SquaredDistanceToPolygon_seg F S aSegment) [0..OutlineCount S - 1] ECOORD_MAX None"

definition poly_Collide_seg :: "FLOATS \<Rightarrow> (int \<Rightarrow> int) \<Rightarrow> POLY_SET \<Rightarrow> SEG \<Rightarrow> int \<Rightarrow> (VECTOR2I option \<times> int) option option" where
  "poly_Collide_seg F sq S aSeg aClearance =
    (case poly_SquaredDistanceToSeg F S aSeg of None \<Rightarrow> None
     | Some (dist_sq, nearest) \<Rightarrow> Some (if dist_sq = 0 \<or> dist_sq < aClearance * aClearance then Some (nearest, sq dist_sq) else None))"

definition poly_Collide_pt :: "FLOATS \<Rightarrow> (int \<Rightarrow> int) \<Rightarrow> POLY_SET \<Rightarrow> VECTOR2I \<Rightarrow> int \<Rightarrow> (VECTOR2I option \<times> int) option option" where
  "poly_Collide_pt F sq S aP aClearance =
    (if IsEmpty S \<or> VertexCount S (- 1) (- 1) = Inr 0 then Some None
     else (case poly_SquaredDistance F S aP of None \<Rightarrow> None
      | Some (dist_sq, nearest) \<Rightarrow> Some (if dist_sq = 0 \<or> dist_sq < aClearance * aClearance then Some (nearest, sq dist_sq) else None)))"

end
