(* ===== verification/Poly_Props.thy ===== *)
theory Poly_Props
  imports Poly_Set Chain_Props
begin

text \<open>
  Properties of polygon sets. A set stands for the list of its points, contour by contour: the global
  numbers of the vertices are the positions of that list, the iterator walks along it, and inserting,
  moving and removing a vertex edits it like a vector. The interface \<open>vertex_editor\<close> is what a chain and
  a polygon set have in common.
\<close>

definition all_points :: "POLY_SET \<Rightarrow> VECTOR2I list" where
  "all_points S = concat (map m_points (concat (m_polys S)))"

definition poly_ok :: "POLY_SET \<Rightarrow> bool" where
  "poly_ok S \<longleftrightarrow> (\<forall>p\<in>set (m_polys S). \<forall>c\<in>set p. chain_ok c)"

lemma points_of_length: "points_of p = int (length (concat (map m_points p)))"
  by (induction p) (simp_all add: points_of_def PointCount_def)

lemma points_of_simps [simp]: "points_of [] = 0" "points_of (c # cs) = PointCount c + points_of cs"
  by (simp_all add: points_of_def)

lemma points_of_nonneg [simp]: "0 \<le> points_of p" "0 \<le> PointCount c"
  by (simp_all add: points_of_length PointCount_def)

lemma points_sum_nonneg [simp]: "0 \<le> sum_list (map points_of ps)"
  by (induction ps) auto

lemma polys_length: "sum_list (map points_of ps) = int (length (concat (map m_points (concat ps))))"
  by (induction ps) (simp_all add: points_of_length)

lemma TotalVertices_length: "TotalVertices S = int (length (all_points S))"
  by (simp add: TotalVertices_def all_points_def polys_length)

subsection \<open>Looking up a global number\<close>

lemma vertex_loop_eq:
  "vertex_loop g current v n = (if current \<le> g \<and> g < current + int n then Inl (v + (g - current)) else Inr (current + int n))"
  by (induction g current v n rule: vertex_loop.induct) auto

lemma contour_loop_Inr:
  "contour_loop g current k cs = Inr x \<Longrightarrow> x = current + points_of cs \<and> \<not> (current \<le> g \<and> g < current + points_of cs)"
proof (induction cs arbitrary: current k)
  case (Cons c cs)
  have PC: "int (length (m_points c)) = PointCount c" by (simp add: PointCount_def)
  have miss: "\<not> (current \<le> g \<and> g < current + PointCount c)" and
    rest: "contour_loop g (current + PointCount c) (k + 1) cs = Inr x"
    using Cons.prems by (auto simp: vertex_loop_eq PC split: if_splits)
  then show ?case using Cons.IH [OF rest] by auto
qed simp

lemma contour_loop_Inl:
  "contour_loop g current k cs = Inl (k', v) \<longleftrightarrow> k \<le> k' \<and> k' - k < int (length cs) \<and> 0 \<le> v \<and> v < PointCount (cs ! nat (k' - k)) \<and>
     g = current + points_of (take (nat (k' - k)) cs) + v"
proof (induction cs arbitrary: current k)
  case (Cons c cs)
  have PC: "int (length (m_points c)) = PointCount c" by (simp add: PointCount_def)
  show ?case
  proof (cases "current \<le> g \<and> g < current + PointCount c")
    case True
    then have L: "contour_loop g current k (c # cs) = Inl (k', v) \<longleftrightarrow> k' = k \<and> v = g - current" by (auto simp: vertex_loop_eq PC)
    show ?thesis
    proof (cases "k < k'")
      case far: True
      then have nat: "nat (k' - k) = Suc (nat (k' - (k + 1)))" by simp
      have "g \<noteq> current + points_of (take (nat (k' - k)) (c # cs)) + v" if "0 \<le> v"
        using that True points_of_nonneg(1) [of "take (nat (k' - (k + 1))) cs"] unfolding nat by (simp del: points_of_nonneg)
      then show ?thesis using L far by auto
    next
      case False
      then show ?thesis using L True by auto
    qed
  next
    case False
    then have L: "contour_loop g current k (c # cs) = contour_loop g (current + PointCount c) (k + 1) cs" by (auto simp: vertex_loop_eq PC)
    show ?thesis
    proof (cases "k < k'")
      case True
      then have nat: "nat (k' - k) = Suc (nat (k' - (k + 1)))" by simp
      show ?thesis unfolding L Cons.IH nat using True by (simp add: algebra_simps)
    next
      case far: False
      have "\<not> (k \<le> k' \<and> 0 \<le> v \<and> v < PointCount ((c # cs) ! nat (k' - k)) \<and> g = current + points_of (take (nat (k' - k)) (c # cs)) + v)"
        using far False by auto
      then show ?thesis unfolding L Cons.IH using far by auto
    qed
  qed
qed auto

lemma polygon_loop_Some:
  "polygon_loop g current i ps = Some r \<longleftrightarrow> i \<le> m_polygon r \<and> m_polygon r - i < int (length ps) \<and>
     0 \<le> m_contour r \<and> m_contour r < int (length (ps ! nat (m_polygon r - i))) \<and>
     0 \<le> m_vertex r \<and> m_vertex r < PointCount (ps ! nat (m_polygon r - i) ! nat (m_contour r)) \<and>
     g = current + sum_list (map points_of (take (nat (m_polygon r - i)) ps)) +
       points_of (take (nat (m_contour r)) (ps ! nat (m_polygon r - i))) + m_vertex r"
proof (induction ps arbitrary: current i)
  case (Cons p ps)
  have r: "r = \<lparr>m_polygon = a, m_contour = b, m_vertex = c\<rparr> \<longleftrightarrow> m_polygon r = a \<and> m_contour r = b \<and> m_vertex r = c" for a b c
    by (cases r) auto
  show ?case
  proof (cases "contour_loop g current 0 p")
    case (Inl kv)
    obtain k v where kv: "kv = (k, v)" by (cases kv)
    note I = Inl [unfolded kv]
    have first: "polygon_loop g current i (p # ps) = Some r \<longleftrightarrow> m_polygon r = i \<and> m_contour r = k \<and> m_vertex r = v"
      using r [of i k v] by (auto simp: I)
    have here: "current \<le> g \<and> g < current + points_of p"
    proof -
      have K: "0 \<le> k" "k < int (length p)" "0 \<le> v" "v < PointCount (p ! nat k)" "g = current + points_of (take (nat k) p) + v"
        using I by (auto simp: contour_loop_Inl)
      have "p = take (nat k) p @ p ! nat k # drop (Suc (nat k)) p" using K by (intro id_take_nth_drop) auto
      then have "points_of p = points_of (take (nat k) p) + PointCount (p ! nat k) + points_of (drop (Suc (nat k)) p)"
        by (metis ab_semigroup_add_class.add_ac(1) points_of_def points_of_simps(2) map_append sum_list_append)
      then show ?thesis using K points_of_nonneg(1) [of "drop (Suc (nat k)) p"] points_of_nonneg(1) [of "take (nat k) p"] by linarith
    qed
    show ?thesis
    proof (cases "m_polygon r = i")
      case True
      have "contour_loop g current 0 p = Inl (m_contour r, m_vertex r) \<longleftrightarrow> m_contour r = k \<and> m_vertex r = v" using I by auto
      then show ?thesis using True first contour_loop_Inl [of g current 0 p "m_contour r" "m_vertex r"] by auto
    next
      case False
      have "\<not> (i < m_polygon r \<and> g = current + sum_list (map points_of (take (nat (m_polygon r - i)) (p # ps))) + x + m_vertex r)"
        if "0 \<le> m_vertex r" "0 \<le> x" for x
      proof
        assume a: "i < m_polygon r \<and> g = current + sum_list (map points_of (take (nat (m_polygon r - i)) (p # ps))) + x + m_vertex r"
        then have "i < m_polygon r" by (rule conjunct1)
        then have "nat (m_polygon r - i) = Suc (nat (m_polygon r - i - 1))" by simp
        then have "points_of p \<le> sum_list (map points_of (take (nat (m_polygon r - i)) (p # ps)))" by simp
        then show False using a here that by linarith
      qed
      then show ?thesis using False first by (metis order_le_imp_less_or_eq points_of_nonneg(1))
    qed
  next
    case (Inr x)
    note X = contour_loop_Inr [OF Inr]
    have step: "polygon_loop g current i (p # ps) = polygon_loop g x (i + 1) ps" by (simp add: Inr)
    show ?thesis
    proof (cases "m_polygon r \<le> i")
      case True
      have "contour_loop g current 0 p \<noteq> Inl (m_contour r, m_vertex r)" using Inr by simp
      then show ?thesis using True unfolding step contour_loop_Inl by (auto simp: Cons.IH)
    next
      case False
      then have nat: "nat (m_polygon r - i) = Suc (nat (m_polygon r - (i + 1)))" by simp
      have "current + (points_of p + (s + t)) + v = x + s + t + v" for s t v using X by simp
      then show ?thesis using False unfolding step Cons.IH nat by (simp add: X algebra_simps)
    qed
  qed
qed auto

lemma contour_at_Some:
  "contour_at S i j = Some c \<longleftrightarrow> 0 \<le> i \<and> i < OutlineCount S \<and> 0 \<le> j \<and> j < int (length (m_polys S ! nat i)) \<and> c = m_polys S ! nat i ! nat j"
  by (auto simp: contour_at_def CPolygon_def)

lemma GetRelativeIndices_Some:
  "GetRelativeIndices S g = Some r \<longleftrightarrow> 0 \<le> m_vertex r \<and> GetGlobalIndex S r = Some g"
proof -
  have "GetGlobalIndex S r = Some g \<longleftrightarrow> (\<exists>c. contour_at S (m_polygon r) (m_contour r) = Some c \<and> m_vertex r < PointCount c \<and>
      g = sum_list (map points_of (take (nat (m_polygon r)) (m_polys S))) +
        points_of (take (nat (m_contour r)) (m_polys S ! nat (m_polygon r))) + m_vertex r)"
    by (auto simp: GetGlobalIndex_def split: option.splits)
  then show ?thesis
    unfolding GetRelativeIndices_def polygon_loop_Some contour_at_Some OutlineCount_def by auto
qed

lemma contour_split:
  assumes "contour_at S i j = Some c"
  defines "n \<equiv> sum_list (map points_of (take (nat i) (m_polys S))) + points_of (take (nat j) (m_polys S ! nat i))"
  obtains A B where "all_points S = A @ m_points c @ B" "int (length A) = n"
    "\<And>d. all_points (set_contour i j d S) = A @ m_points d @ B"
proof -
  define ps where "ps = m_polys S"
  define p where "p = ps ! nat i"
  have c: "0 \<le> i" "nat i < length ps" "nat j < length p" "c = p ! nat j"
    using assms(1) by (auto simp: contour_at_Some OutlineCount_def ps_def p_def)
  define A where "A = concat (map m_points (concat (take (nat i) ps))) @ concat (map m_points (take (nat j) p))"
  define B where "B = concat (map m_points (drop (Suc (nat j)) p)) @ concat (map m_points (concat (drop (Suc (nat i)) ps)))"
  have upd: "ps[nat i := p[nat j := d]] = take (nat i) ps @ (take (nat j) p @ d # drop (Suc (nat j)) p) # drop (Suc (nat i)) ps" for d
    using c by (simp add: upd_conv_take_nth_drop)
  have "all_points (set_contour i j d S) = A @ m_points d @ B" for d
    by (simp add: all_points_def set_contour_def ps_def [symmetric] p_def [symmetric] upd A_def B_def)
  moreover have "set_contour i j c S = S" using c by (simp add: set_contour_def ps_def [symmetric] p_def [symmetric]) (simp add: ps_def p_def)
  then have "all_points S = A @ m_points c @ B" using calculation by metis
  moreover have "int (length A) = n" by (simp add: A_def n_def points_of_length polys_length ps_def [symmetric] p_def [symmetric])
  ultimately show ?thesis by (rule that [rotated 2])
qed

lemma global_contour:
  "GetGlobalIndex S r = Some g \<longleftrightarrow> (\<exists>c. contour_at S (m_polygon r) (m_contour r) = Some c \<and> m_vertex r < PointCount c \<and>
      g = sum_list (map points_of (take (nat (m_polygon r)) (m_polys S))) +
        points_of (take (nat (m_contour r)) (m_polys S ! nat (m_polygon r))) + m_vertex r)"
  by (auto simp: GetGlobalIndex_def split: option.splits)

text \<open>Every number below the number of vertices has an index, and only those.\<close>

lemma contour_loop_total:
  "current \<le> g \<Longrightarrow> g < current + points_of cs \<Longrightarrow> \<exists>x. contour_loop g current k cs = Inl x"
  using contour_loop_Inr by (cases "contour_loop g current k cs") fastforce+

lemma polygon_loop_total:
  "current \<le> g \<Longrightarrow> g < current + sum_list (map points_of ps) \<Longrightarrow> \<exists>r. polygon_loop g current i ps = Some r"
proof (induction ps arbitrary: current i)
  case (Cons p ps)
  show ?case
  proof (cases "contour_loop g current 0 p")
    case (Inl x)
    then show ?thesis by (cases x) auto
  next
    case (Inr x)
    then have "x = current + points_of p" "x \<le> g" using contour_loop_Inr [OF Inr] Cons.prems by auto
    then show ?thesis using Inr Cons.prems Cons.IH [of x "i + 1"] by auto
  qed
qed simp

lemma GetRelativeIndices_cases:
  "GetRelativeIndices S g = None \<longleftrightarrow> \<not> (0 \<le> g \<and> g < TotalVertices S)"
proof
  assume "GetRelativeIndices S g = None"
  then show "\<not> (0 \<le> g \<and> g < TotalVertices S)"
    using polygon_loop_total [of 0 g "m_polys S" 0] by (auto simp: GetRelativeIndices_def TotalVertices_def)
next
  assume out: "\<not> (0 \<le> g \<and> g < TotalVertices S)"
  show "GetRelativeIndices S g = None"
  proof (rule ccontr)
    assume "GetRelativeIndices S g \<noteq> None"
    then obtain r where "GetRelativeIndices S g = Some r" by blast
    then have r: "0 \<le> m_vertex r" "GetGlobalIndex S r = Some g" by (auto simp: GetRelativeIndices_Some)
    then obtain c where c: "contour_at S (m_polygon r) (m_contour r) = Some c" "m_vertex r < PointCount c"
      "g = sum_list (map points_of (take (nat (m_polygon r)) (m_polys S))) +
        points_of (take (nat (m_contour r)) (m_polys S ! nat (m_polygon r))) + m_vertex r"
      unfolding global_contour by blast
    obtain A B where "all_points S = A @ m_points c @ B" "int (length A) = g - m_vertex r"
      using contour_split [OF c(1)] c(3) by (metis add_diff_cancel_right')
    then show False using out r(1) c(2) by (auto simp: TotalVertices_length PointCount_def)
  qed
qed

lemma relative_split:
  assumes "GetRelativeIndices S g = Some r"
  obtains c A B where "contour_at S (m_polygon r) (m_contour r) = Some c" "0 \<le> m_vertex r" "m_vertex r < PointCount c"
    "all_points S = A @ m_points c @ B" "nat g = length A + nat (m_vertex r)"
    "\<And>d. all_points (set_contour (m_polygon r) (m_contour r) d S) = A @ m_points d @ B"
proof -
  have r: "0 \<le> m_vertex r" "GetGlobalIndex S r = Some g" using assms by (auto simp: GetRelativeIndices_Some)
  then obtain c where c: "contour_at S (m_polygon r) (m_contour r) = Some c" "m_vertex r < PointCount c"
    "g = sum_list (map points_of (take (nat (m_polygon r)) (m_polys S))) +
      points_of (take (nat (m_contour r)) (m_polys S ! nat (m_polygon r))) + m_vertex r"
    unfolding global_contour by blast
  obtain A B where AB: "all_points S = A @ m_points c @ B" "int (length A) = g - m_vertex r"
    "\<And>d. all_points (set_contour (m_polygon r) (m_contour r) d S) = A @ m_points d @ B"
    using contour_split [OF c(1)] c(3) by (metis add_diff_cancel_right')
  have "nat g = length A + nat (m_vertex r)" using AB(2) r(1) by simp
  then show ?thesis using that [OF c(1) r(1) c(2) AB(1) _ AB(3)] by blast
qed

lemma CPoint_inside: "0 \<le> i \<Longrightarrow> i < PointCount c \<Longrightarrow> CPoint c i = Some (m_points c ! nat i)"
  by (auto simp: CPoint_def CPoint_index_def pt_def)

lemma CVertex_lemma:
  "CVertex S g = (if 0 \<le> g \<and> g < TotalVertices S then Inr (all_points S ! nat g) else Inl Out_Of_Range)"
proof (cases "GetRelativeIndices S g")
  case None
  then have out: "\<not> (0 \<le> g \<and> g < TotalVertices S)" using GetRelativeIndices_cases [of S g] by blast
  show ?thesis unfolding if_not_P [OF out] by (simp add: CVertex_def None)
next
  case (Some r)
  have "0 \<le> g \<and> g < TotalVertices S" using Some GetRelativeIndices_cases [of S g] by auto
  moreover obtain c A B where c: "contour_at S (m_polygon r) (m_contour r) = Some c" "0 \<le> m_vertex r" "m_vertex r < PointCount c"
    "all_points S = A @ m_points c @ B" "nat g = length A + nat (m_vertex r)"
    using relative_split [OF Some] by metis
  moreover have "all_points S ! nat g = m_points c ! nat (m_vertex r)"
    using c by (simp add: nth_append PointCount_def nat_less_iff)
  ultimately show ?thesis by (simp add: CVertex_def Some CPoint_inside)
qed

subsection \<open>Editing a list of vertices\<close>

text \<open>
  An edit of a vertex list, and what it does to a vector: the abstract specification both of a chain and
  of a polygon set.
\<close>

datatype EDIT = Put int VECTOR2I | Ins int VECTOR2I | Del int

fun edit_place :: "EDIT \<Rightarrow> int" where
  "edit_place (Put i p) = i"
| "edit_place (Ins i p) = i"
| "edit_place (Del i) = i"

fun edit_list :: "EDIT \<Rightarrow> VECTOR2I list \<Rightarrow> VECTOR2I list" where
  "edit_list (Put i p) xs = xs[nat i := p]"
| "edit_list (Ins i p) xs = vec_insert (nat i) [p] xs"
| "edit_list (Del i) xs = vec_erase (nat i) (nat i + 1) xs"

definition edit_in :: "EDIT \<Rightarrow> VECTOR2I list \<Rightarrow> bool" where
  "edit_in e xs \<longleftrightarrow> 0 \<le> edit_place e \<and> edit_place e < int (length xs)"

fun edits_in :: "EDIT list \<Rightarrow> VECTOR2I list \<Rightarrow> bool" where
  "edits_in [] xs \<longleftrightarrow> True"
| "edits_in (e # es) xs \<longleftrightarrow> edit_in e xs \<and> edits_in es (edit_list e xs)"

fun run_edits :: "(EDIT \<Rightarrow> 's \<Rightarrow> 's option) \<Rightarrow> EDIT list \<Rightarrow> 's \<Rightarrow> 's option" where
  "run_edits exec [] s = Some s"
| "run_edits exec (e # es) s = (case exec e s of None \<Rightarrow> None | Some t \<Rightarrow> run_edits exec es t)"

lemma edit_list_inside:
  assumes "edit_place e = int (length A) + i" "0 \<le> i" "i < int (length xs)"
  shows "edit_list e (A @ xs @ B) = A @ edit_list (case e of Put _ p \<Rightarrow> Put i p | Ins _ p \<Rightarrow> Ins i p | Del _ \<Rightarrow> Del i) xs @ B"
proof -
  have n: "nat (edit_place e) = length A + nat i" using assms by simp
  have l: "nat i < length xs" using assms by simp
  show ?thesis
  proof (cases e)
    case (Put k p)
    then show ?thesis using n l by (simp add: list_update_append)
  next
    case (Ins k p)
    then show ?thesis using n l by (simp add: vec_insert_def)
  next
    case (Del k)
    then show ?thesis using n l by (simp add: vec_erase_def)
  qed
qed

locale vertex_editor =
  fixes points :: "'s \<Rightarrow> VECTOR2I list" and ok :: "'s \<Rightarrow> bool" and exec :: "EDIT \<Rightarrow> 's \<Rightarrow> 's option"
  assumes exec_points: "ok s \<Longrightarrow> edit_in e (points s) \<Longrightarrow> \<exists>t. exec e s = Some t \<and> ok t \<and> points t = edit_list e (points s)"
begin

lemma run_points:
  "ok s \<Longrightarrow> edits_in es (points s) \<Longrightarrow>
    \<exists>t. run_edits exec es s = Some t \<and> ok t \<and> points t = foldl (\<lambda>xs e. edit_list e xs) (points s) es"
proof (induction es arbitrary: s)
  case (Cons e es)
  then obtain t where "exec e s = Some t" "ok t" "points t = edit_list e (points s)"
    using exec_points [of s e] by auto
  then show ?case using Cons.IH [of t] Cons.prems by auto
qed simp

lemma insert_then_delete:
  assumes "ok s" "0 \<le> i" "i < int (length (points s))"
  shows "\<exists>t. run_edits exec [Ins i p, Del i] s = Some t \<and> ok t \<and> points t = points s"
  using run_points [OF assms(1), of "[Ins i p, Del i]"] assms by (simp add: edit_in_def vec_insert_def vec_erase_def)

end

definition exec_chain :: "FLOATS \<Rightarrow> EDIT \<Rightarrow> CHAIN \<Rightarrow> CHAIN option" where
  "exec_chain F e c =
    (case e of Put i p \<Rightarrow> SetPoint i p c | Ins i p \<Rightarrow> Some (Insert_pt F i p c) | Del i \<Rightarrow> Remove F i i c)"

definition exec_set :: "FLOATS \<Rightarrow> EDIT \<Rightarrow> POLY_SET \<Rightarrow> POLY_ERROR + POLY_SET" where
  "exec_set F e S =
    (case e of Put i p \<Rightarrow> SetVertex i p S | Ins i p \<Rightarrow> InsertVertex F i p S | Del i \<Rightarrow> RemoveVertex F i S)"

definition exec_poly :: "FLOATS \<Rightarrow> EDIT \<Rightarrow> POLY_SET \<Rightarrow> POLY_SET option" where
  "exec_poly F e S = (case exec_set F e S of Inl _ \<Rightarrow> None | Inr T \<Rightarrow> Some T)"

lemma SetPoint_points:
  assumes "chain_ok c" "0 \<le> i" "i < PointCount c"
  shows "\<exists>d. SetPoint i p c = Some d \<and> chain_ok d \<and> m_points d = (m_points c)[nat i := p]"
proof -
  have i: "CPoint_index c i = i" using assms by (simp add: CPoint_index_def)
  obtain d where d: "SetPoint i p c = Some d" using assms by (auto simp: SetPoint_def Let_def i)
  moreover have "m_points d = (m_points c)[nat i := p]" using d by (auto simp: SetPoint_def Let_def i split: if_splits)
  ultimately show ?thesis using chain_ok_SetPoint [OF assms(1) d] by blast
qed

lemma exec_chain_points:
  assumes "chain_ok c" "edit_in e (m_points c)"
  shows "\<exists>d. exec_chain F e c = Some d \<and> chain_ok d \<and> m_points d = edit_list e (m_points c)"
proof (cases e)
  case (Put i p)
  then show ?thesis using assms SetPoint_points by (simp add: exec_chain_def edit_in_def PointCount_def)
next
  case (Ins i p)
  then show ?thesis using assms Insert_pt_points [of i c F p] chain_ok_Insert_pt [OF assms(1)]
    by (simp add: exec_chain_def edit_in_def PointCount_def vec_insert_def)
next
  case (Del i)
  then show ?thesis using assms Remove_range [OF assms(1), of i i F]
    by (auto simp: exec_chain_def edit_in_def PointCount_def vec_erase_def)
qed

interpretation chain_vertices: vertex_editor m_points chain_ok "exec_chain F" for F
  by unfold_locales (rule exec_chain_points)

lemma poly_ok_set_contour:
  assumes "poly_ok S" "chain_ok d"
  shows "poly_ok (set_contour i j d S)"
proof (cases "nat i < length (m_polys S)")
  case True
  then have "\<forall>c\<in>set (m_polys S ! nat i). chain_ok c" using assms(1) nth_mem [OF True] unfolding poly_ok_def by blast
  then have "\<forall>c\<in>set ((m_polys S ! nat i)[nat j := d]). chain_ok c"
    using assms(2) set_update_subset_insert [of "m_polys S ! nat i" "nat j" d] by blast
  then show ?thesis
    using assms(1) set_update_subset_insert [of "m_polys S" "nat i" "(m_polys S ! nat i)[nat j := d]"]
    unfolding poly_ok_def set_contour_def by auto
next
  case False
  then show ?thesis using assms(1) by (simp add: set_contour_def list_update_beyond poly_ok_def)
qed

lemma poly_ok_contour: "poly_ok S \<Longrightarrow> contour_at S i j = Some c \<Longrightarrow> chain_ok c"
  unfolding poly_ok_def contour_at_Some OutlineCount_def by (metis nat_less_iff nth_mem)

lemma exec_poly_points:
  assumes "poly_ok S" "edit_in e (all_points S)"
  shows "\<exists>T. exec_poly F e S = Some T \<and> poly_ok T \<and> all_points T = edit_list e (all_points S)"
proof -
  define g where "g = edit_place e"
  have g: "0 \<le> g" "g < TotalVertices S" using assms(2) by (simp_all add: g_def edit_in_def TotalVertices_length)
  then obtain r where r: "GetRelativeIndices S g = Some r" using GetRelativeIndices_cases [of S g] by fastforce
  obtain c A B where c: "contour_at S (m_polygon r) (m_contour r) = Some c" "0 \<le> m_vertex r" "m_vertex r < PointCount c"
    "all_points S = A @ m_points c @ B" "nat g = length A + nat (m_vertex r)"
    "\<And>d. all_points (set_contour (m_polygon r) (m_contour r) d S) = A @ m_points d @ B"
    using relative_split [OF r] by metis
  define e' where "e' = (case e of Put _ p \<Rightarrow> Put (m_vertex r) p | Ins _ p \<Rightarrow> Ins (m_vertex r) p | Del _ \<Rightarrow> Del (m_vertex r))"
  have "edit_place e' = m_vertex r" by (cases e) (simp_all add: e'_def)
  then have "edit_in e' (m_points c)" using c(2,3) by (simp add: edit_in_def PointCount_def)
  then obtain d where d: "exec_chain F e' c = Some d" "chain_ok d" "m_points d = edit_list e' (m_points c)"
    using exec_chain_points [OF poly_ok_contour [OF assms(1) c(1)]] by blast
  have "edit_place e = int (length A) + m_vertex r" using c(2,5) g(1) by (simp add: g_def)
  then have "edit_list e (all_points S) = all_points (set_contour (m_polygon r) (m_contour r) d S)"
    using edit_list_inside [of e A "m_vertex r" "m_points c" B] c(2,3) unfolding c(4,6) d(3) e'_def PointCount_def by blast
  moreover have "exec_poly F e S = Some (set_contour (m_polygon r) (m_contour r) d S)"
    using d(1) r g unfolding g_def e'_def
    by (cases e) (simp_all add: exec_poly_def exec_set_def exec_chain_def SetVertex_def SetVertex_rel_def InsertVertex_def RemoveVertex_def
        RemoveVertex_rel_def on_contour_def c(1) Let_def)
  ultimately show ?thesis using poly_ok_set_contour [OF assms(1) d(2)] by metis
qed

interpretation poly_vertices: vertex_editor all_points poly_ok "exec_poly F" for F
  by unfold_locales (rule exec_poly_points)

subsection \<open>Editing lists of contours\<close>

text \<open>
  The reference for every edit, of whatever number: the set as nested lists of points, polygon by polygon
  and contour by contour. \<open>at_polygon f g\<close> edits the contour that holds the \<open>g\<close>th point, at the place the
  point has in it.
\<close>

type_synonym SHAPES = "VECTOR2I list list list"

definition shapes_of :: "POLY_SET \<Rightarrow> SHAPES" where
  "shapes_of S = map (map m_points) (m_polys S)"

fun at_contour :: "(nat \<Rightarrow> 'a list \<Rightarrow> 'a list) \<Rightarrow> nat \<Rightarrow> 'a list list \<Rightarrow> 'a list list" where
  "at_contour f g [] = []"
| "at_contour f g (c # cs) = (if g < length c then f g c # cs else c # at_contour f (g - length c) cs)"

fun at_polygon :: "(nat \<Rightarrow> 'a list \<Rightarrow> 'a list) \<Rightarrow> nat \<Rightarrow> 'a list list list \<Rightarrow> 'a list list list" where
  "at_polygon f g [] = []"
| "at_polygon f g (p # ps) =
    (if g < length (concat p) then at_contour f g p # ps else p # at_polygon f (g - length (concat p)) ps)"

definition point_count :: "SHAPES \<Rightarrow> int" where
  "point_count pss = int (length (concat (concat pss)))"

text \<open>A point behind the last one goes to the outline of the last polygon, unless that ends in it.\<close>

definition append_shape :: "VECTOR2I \<Rightarrow> SHAPES \<Rightarrow> POLY_ERROR + SHAPES" where
  "append_shape p pss =
    (if pss = [] \<or> last pss = [] then Inl Undefined
     else (let xs = hd (last pss) in
       Inr (butlast pss @ [(if xs \<noteq> [] \<and> last xs = p then xs else xs @ [p]) # tl (last pss)])))"

fun edit_shape :: "EDIT \<Rightarrow> SHAPES \<Rightarrow> POLY_ERROR + SHAPES" where
  "edit_shape (Put i p) pss =
    (if 0 \<le> i \<and> i < point_count pss then Inr (at_polygon (\<lambda>k xs. xs[k := p]) (nat i) pss) else Inl Out_Of_Range)"
| "edit_shape (Ins i p) pss =
    (if max 0 i < point_count pss then Inr (at_polygon (\<lambda>k xs. take k xs @ p # drop k xs) (nat i) pss)
     else append_shape p pss)"
| "edit_shape (Del i) pss =
    (if 0 \<le> i \<and> i < point_count pss then Inr (at_polygon (\<lambda>k xs. take k xs @ drop (Suc k) xs) (nat i) pss)
     else Inl Out_Of_Range)"

text \<open>A script of edits, which the first error ends.\<close>

fun run_script :: "(EDIT \<Rightarrow> 's \<Rightarrow> POLY_ERROR + 's) \<Rightarrow> EDIT list \<Rightarrow> 's \<Rightarrow> POLY_ERROR + 's" where
  "run_script exec [] s = Inr s"
| "run_script exec (e # es) s = (case exec e s of Inl err \<Rightarrow> Inl err | Inr t \<Rightarrow> run_script exec es t)"

lemma at_contour_take:
  "j < length cs \<Longrightarrow> k < length (cs ! j) \<Longrightarrow> at_contour f (length (concat (take j cs)) + k) cs = cs[j := f k (cs ! j)]"
proof (induction cs arbitrary: j)
  case (Cons c cs)
  then show ?case by (cases j) (simp_all add: add.assoc)
qed simp

lemma at_polygon_take:
  "i < length ps \<Longrightarrow> k < length (concat (ps ! i)) \<Longrightarrow>
    at_polygon f (length (concat (concat (take i ps))) + k) ps = ps[i := at_contour f k (ps ! i)]"
proof (induction ps arbitrary: i)
  case (Cons p ps)
  then show ?case by (cases i) (simp_all add: add.assoc)
qed simp

lemma in_concat: "j < length cs \<Longrightarrow> k < length (cs ! j) \<Longrightarrow> length (concat (take j cs)) + k < length (concat cs)"
proof (induction cs arbitrary: j)
  case (Cons c cs)
  then show ?case by (cases j) auto
qed simp

lemma point_count_Total: "point_count (shapes_of S) = TotalVertices S"
  by (simp add: point_count_def shapes_of_def TotalVertices_length all_points_def map_concat)

lemma shapes_set_contour: "shapes_of (set_contour i j d S) =
    (if nat i < length (m_polys S) then (shapes_of S)[nat i := (shapes_of S ! nat i)[nat j := m_points d]] else shapes_of S)"
  by (auto simp: shapes_of_def set_contour_def map_update list_update_beyond)

lemma at_polygon_relative:
  assumes "GetRelativeIndices S g = Some r" "contour_at S (m_polygon r) (m_contour r) = Some c" "m_points d = f (nat (m_vertex r)) (m_points c)"
  shows "at_polygon f (nat g) (shapes_of S) = shapes_of (set_contour (m_polygon r) (m_contour r) d S)"
proof -
  let ?i = "nat (m_polygon r)" and ?j = "nat (m_contour r)" and ?k = "nat (m_vertex r)"
  have r: "0 \<le> m_vertex r" "m_vertex r < PointCount c"
    "g = sum_list (map points_of (take ?i (m_polys S))) + points_of (take ?j (m_polys S ! ?i)) + m_vertex r"
    using assms(1,2) unfolding GetRelativeIndices_Some global_contour by auto
  have ij: "?i < length (m_polys S)" "?j < length (m_polys S ! ?i)" "c = m_polys S ! ?i ! ?j"
    using assms(2) unfolding contour_at_Some OutlineCount_def by auto
  let ?p = "shapes_of S ! ?i"
  have p: "?i < length (shapes_of S)" "?p = map m_points (m_polys S ! ?i)" "?j < length ?p" "?p ! ?j = m_points c"
    using ij by (simp_all add: shapes_of_def)
  have k: "?k < length (?p ! ?j)" using r(1,2) p(4) by (simp add: PointCount_def nat_less_iff)
  have "nat g = length (concat (concat (take ?i (shapes_of S)))) + (length (concat (take ?j ?p)) + ?k)"
    using r(1) unfolding r(3) polys_length points_of_length p(2)
    by (simp add: shapes_of_def take_map map_concat nat_add_distrib)
  then show ?thesis
    using at_polygon_take [OF p(1) in_concat [OF p(3) k]] at_contour_take [OF p(3) k, of f] ij(1)
    by (simp add: shapes_set_contour assms(3) p(4))
qed

lemma poly_Append_shape:
  assumes "poly_ok S"
  shows "map_sum id shapes_of (poly_Append p (- 1) (- 1) False S) = append_shape p (shapes_of S) \<and>
    (\<forall>T. poly_Append p (- 1) (- 1) False S = Inr T \<longrightarrow> poly_ok T)"
proof (cases "m_polys S = [] \<or> last (m_polys S) = []")
  case True
  have n: "nat (int (length xs) - 1) = length xs - 1" for xs :: "'a list" by (cases xs) simp_all
  from True have "contour_at S (OutlineCount S - 1) 0 = None"
    by (cases "m_polys S = []") (auto simp: contour_at_def CPolygon_def OutlineCount_def last_conv_nth n [unfolded One_nat_def])
  moreover have "append_shape p (shapes_of S) = Inl Undefined"
    using True by (auto simp: append_shape_def shapes_of_def last_map)
  ultimately show ?thesis by (simp add: poly_Append_def on_contour_def outline_arg_def hole_arg_def)
next
  case False
  then obtain ps cs c where S: "m_polys S = ps @ [c # cs]" by (metis append_butlast_last_id list.exhaust)
  have at: "contour_at S (OutlineCount S - 1) 0 = Some c" by (simp add: contour_at_Some OutlineCount_def S nth_append)
  have "shapes_of (set_contour (OutlineCount S - 1) 0 (chain_Append p False c) S) =
      map (map m_points) ps @ [m_points (chain_Append p False c) # map m_points cs]"
    by (simp add: shapes_of_def set_contour_def OutlineCount_def S nth_append)
  moreover have "append_shape p (shapes_of S) =
      Inr (map (map m_points) ps @ [(if m_points c \<noteq> [] \<and> last (m_points c) = p then m_points c else m_points c @ [p]) # map m_points cs])"
    by (simp add: append_shape_def shapes_of_def S Let_def)
  moreover have "poly_ok (set_contour (OutlineCount S - 1) 0 (chain_Append p False c) S)"
    by (intro poly_ok_set_contour assms chain_ok_Append poly_ok_contour [OF assms at])
  ultimately show ?thesis
    by (simp add: poly_Append_def on_contour_def outline_arg_def hole_arg_def at chain_Append_points)
qed

text \<open>An edit of a vertex that is there, by the operation of the chain.\<close>

lemma exec_chain_operations:
  "exec_chain F (Put i p) = SetPoint i p" "exec_chain F (Ins i p) = (\<lambda>c. Some (Insert_pt F i p c))" "exec_chain F (Del i) = Remove F i i"
  by (auto simp: exec_chain_def)

lemma on_vertex_shape:
  assumes "poly_ok S" "GetRelativeIndices S g = Some r" "f = (\<lambda>k. edit_list (e (int k)))"
    and "\<And>i. edit_place (e i) = i"
  shows "\<exists>T. on_contour (m_polygon r) (m_contour r) (exec_chain F (e (m_vertex r))) S = Inr T \<and> poly_ok T \<and>
    shapes_of T = at_polygon f (nat g) (shapes_of S)"
proof -
  obtain c where c: "contour_at S (m_polygon r) (m_contour r) = Some c" "0 \<le> m_vertex r" "m_vertex r < PointCount c"
    using relative_split [OF assms(2)] by metis
  have "edit_in (e (m_vertex r)) (m_points c)" using c(2,3) assms(4) by (simp add: edit_in_def PointCount_def)
  then obtain d where d: "exec_chain F (e (m_vertex r)) c = Some d" "chain_ok d" "m_points d = edit_list (e (m_vertex r)) (m_points c)"
    using exec_chain_points [OF poly_ok_contour [OF assms(1) c(1)]] by blast
  have "m_points d = f (nat (m_vertex r)) (m_points c)" using d(3) c(2) by (simp add: assms(3))
  from at_polygon_relative [where f = f and d = d, OF assms(2) c(1) this] show ?thesis
    using poly_ok_set_contour [OF assms(1) d(2)] by (simp add: on_contour_def c(1) d(1))
qed

lemma exec_set_shape:
  assumes "poly_ok S"
  shows "map_sum id shapes_of (exec_set F e S) = edit_shape e (shapes_of S) \<and> (\<forall>T. exec_set F e S = Inr T \<longrightarrow> poly_ok T)"
proof (cases e)
  case (Put i p)
  show ?thesis
  proof (cases "GetRelativeIndices S i")
    case None
    then show ?thesis using GetRelativeIndices_cases [of S i] by (simp add: Put exec_set_def SetVertex_def point_count_Total)
  next
    case (Some r)
    have in_range: "0 \<le> i \<and> i < TotalVertices S" using Some GetRelativeIndices_cases [of S i] by auto
    have e: "(\<lambda>k. edit_list (Put (int k) p)) = (\<lambda>k xs. xs[k := p])" by (simp add: fun_eq_iff)
    from on_vertex_shape [OF assms Some refl, of "\<lambda>i. Put i p" F] in_range show ?thesis
      by (auto simp: Put exec_set_def SetVertex_def SetVertex_rel_def exec_chain_operations Some point_count_Total e [symmetric])
  qed
next
  case (Ins i p)
  define g where "g = (if i < 0 then 0 else i)"
  have g: "max 0 i = g" "nat i = nat g" "0 \<le> g" by (simp_all add: g_def)
  show ?thesis
  proof (cases "GetRelativeIndices S g")
    case None
    then have "\<not> g < TotalVertices S" using GetRelativeIndices_cases [of S g] g(3) by simp
    then show ?thesis using poly_Append_shape [OF assms, of p]
      by (simp add: Ins exec_set_def InsertVertex_def g_def [symmetric] Let_def g(1) point_count_Total)
  next
    case (Some r)
    have in_range: "g < TotalVertices S" using Some GetRelativeIndices_cases [of S g] by auto
    have e: "(\<lambda>k. edit_list (Ins (int k) p)) = (\<lambda>k xs. take k xs @ p # drop k xs)" by (simp add: fun_eq_iff vec_insert_def)
    from on_vertex_shape [OF assms Some refl, of "\<lambda>i. Ins i p" F] in_range show ?thesis
      by (auto simp: Ins exec_set_def InsertVertex_def g_def [symmetric] Let_def g(1,2) point_count_Total Some exec_chain_operations e [symmetric])
  qed
next
  case (Del i)
  show ?thesis
  proof (cases "GetRelativeIndices S i")
    case None
    then show ?thesis using GetRelativeIndices_cases [of S i] by (simp add: Del exec_set_def RemoveVertex_def point_count_Total)
  next
    case (Some r)
    have in_range: "0 \<le> i \<and> i < TotalVertices S" using Some GetRelativeIndices_cases [of S i] by auto
    have e: "(\<lambda>k. edit_list (Del (int k))) = (\<lambda>k xs. take k xs @ drop (Suc k) xs)" by (simp add: fun_eq_iff vec_erase_def nat_add_distrib)
    from on_vertex_shape [OF assms Some refl, of Del F] in_range show ?thesis
      by (auto simp: Del exec_set_def RemoveVertex_def RemoveVertex_rel_def exec_chain_operations Some point_count_Total
          e [symmetric])
  qed
qed

lemma run_script_shape:
  "poly_ok S \<Longrightarrow> map_sum id shapes_of (run_script (exec_set F) es S) = run_script edit_shape es (shapes_of S) \<and>
    (\<forall>T. run_script (exec_set F) es S = Inr T \<longrightarrow> poly_ok T)"
proof (induction es arbitrary: S)
  case (Cons e es)
  note E = exec_set_shape [OF Cons.prems, of F e]
  show ?case
  proof (cases "exec_set F e S")
    case (Inl err)
    then show ?thesis using E by (auto simp: eq_commute [of "Inl err"])
  next
    case (Inr T)
    then have "edit_shape e (shapes_of S) = Inr (shapes_of T)" using E by auto
    then show ?thesis using Inr E Cons.IH [of T] by simp
  qed
qed simp

subsection \<open>Iterating\<close>

definition full_contours :: "POLY_SET \<Rightarrow> bool" where
  "full_contours S \<longleftrightarrow> (\<forall>p\<in>set (m_polys S). p \<noteq> [] \<and> (\<forall>c\<in>set p. m_points c \<noteq> []))"

definition it_at :: "POLY_SET \<Rightarrow> VERTEX_INDEX \<Rightarrow> ITERATOR" where
  "it_at S r = (IterateWithHoles S)\<lparr>m_currentPolygon := m_polygon r, m_currentContour := m_contour r, m_currentVertex := m_vertex r\<rparr>"

lemma it_at_simps [simp]:
  "m_currentPolygon (it_at S r) = m_polygon r" "m_currentContour (it_at S r) = m_contour r"
  "m_currentVertex (it_at S r) = m_vertex r" "m_lastPolygon (it_at S r) = OutlineCount S - 1" "m_iterateHoles (it_at S r)"
  "it_GetIndex (it_at S r) = r"
  by (auto simp: it_at_def IterateWithHoles_def Iterate_def it_GetIndex_def)

lemma it_at_eqI:
  "m_currentPolygon it = m_polygon r \<Longrightarrow> m_currentContour it = m_contour r \<Longrightarrow> m_currentVertex it = m_vertex r \<Longrightarrow>
   m_lastPolygon it = OutlineCount S - 1 \<Longrightarrow> m_iterateHoles it \<Longrightarrow> it = it_at S r"
  by (cases it, cases r) (auto simp: it_at_def IterateWithHoles_def Iterate_def)

lemma full_contour_at: "full_contours S \<Longrightarrow> contour_at S i j = Some c \<Longrightarrow> 0 < PointCount c"
  unfolding full_contours_def contour_at_Some OutlineCount_def PointCount_def by (metis length_greater_0_conv nat_less_iff nth_mem of_nat_0_less_iff)

lemma take_next: "0 \<le> i \<Longrightarrow> i < int (length xs) \<Longrightarrow> take (nat (i + 1)) xs = take (nat i) xs @ [xs ! nat i]"
  by (simp add: nat_add_distrib take_Suc_conv_app_nth nat_less_iff)

lemma Advance_next:
  assumes S: "full_contours S" and r: "GetRelativeIndices S g = Some r"
  shows "it_valid S (it_at S r) = Some True" "it_Get S (it_at S r) = Some (all_points S ! nat g)"
    "\<exists>r'. it_Advance S (it_at S r) = Some (it_at S r') \<and>
      (if g + 1 < TotalVertices S then GetRelativeIndices S (g + 1) = Some r' else m_polygon r' = OutlineCount S)"
proof -
  obtain c A B where c: "contour_at S (m_polygon r) (m_contour r) = Some c" "0 \<le> m_vertex r" "m_vertex r < PointCount c"
    "all_points S = A @ m_points c @ B" "nat g = length A + nat (m_vertex r)"
    using relative_split [OF r] by metis
  define i j where "i = m_polygon r" and "j = m_contour r"
  define p where "p = m_polys S ! nat i"
  note C = c(1) [unfolded contour_at_Some, folded i_def j_def, folded p_def]
  have glob: "g = sum_list (map points_of (take (nat i) (m_polys S))) + points_of (take (nat j) p) + m_vertex r"
    using r c(1) unfolding GetRelativeIndices_Some global_contour i_def j_def p_def by auto
  show "it_valid S (it_at S r) = Some True"
    using c C by (auto simp: it_valid_def it_contour_def CPolygon_def i_def [symmetric] j_def [symmetric] p_def [symmetric])
  show "it_Get S (it_at S r) = Some (all_points S ! nat g)"
    using c by (simp add: it_Get_def it_contour_def CPoint_inside nth_append PointCount_def nat_less_iff)
  have adv: "it_Advance S (it_at S r) = Some
      (if m_vertex r + 1 < PointCount c then it_at S (r\<lparr>m_vertex := m_vertex r + 1\<rparr>)
       else if j + 1 < int (length p) then it_at S \<lparr>m_polygon = i, m_contour = j + 1, m_vertex = 0\<rparr>
       else it_at S \<lparr>m_polygon = i + 1, m_contour = 0, m_vertex = 0\<rparr>)"
    using c(1) by (auto simp: it_Advance_def Let_def it_contour_def i_def j_def p_def intro!: it_at_eqI)
  have found: "GetRelativeIndices S (g + 1) = Some r'"
    if "contour_at S (m_polygon r') (m_contour r') = Some d" "0 \<le> m_vertex r'" "m_vertex r' < PointCount d"
      "g + 1 = sum_list (map points_of (take (nat (m_polygon r')) (m_polys S))) +
        points_of (take (nat (m_contour r')) (m_polys S ! nat (m_polygon r'))) + m_vertex r'" for r' d
    unfolding GetRelativeIndices_Some global_contour using that by blast
  have below: "g + 1 < TotalVertices S" if "GetRelativeIndices S (g + 1) = Some r'" for r'
    using that GetRelativeIndices_cases [of S "g + 1"] by auto
  show "\<exists>r'. it_Advance S (it_at S r) = Some (it_at S r') \<and>
      (if g + 1 < TotalVertices S then GetRelativeIndices S (g + 1) = Some r' else m_polygon r' = OutlineCount S)"
  proof (cases "m_vertex r + 1 < PointCount c")
    case True
    have "GetRelativeIndices S (g + 1) = Some (r\<lparr>m_vertex := m_vertex r + 1\<rparr>)"
      using found [of "r\<lparr>m_vertex := m_vertex r + 1\<rparr>" c] c True glob by (simp add: i_def j_def p_def)
    then show ?thesis using adv True below by auto
  next
    case last: False
    then have mv: "m_vertex r = PointCount c - 1" using c(3) by simp
    have p1: "points_of (take (nat (j + 1)) p) = points_of (take (nat j) p) + PointCount c"
      using C by (simp add: take_next points_of_def)
    show ?thesis
    proof (cases "j + 1 < int (length p)")
      case True
      define r' where "r' = \<lparr>m_polygon = i, m_contour = j + 1, m_vertex = 0\<rparr>"
      have d: "contour_at S i (j + 1) = Some (p ! nat (j + 1))" using C True by (simp add: contour_at_Some p_def)
      have "GetRelativeIndices S (g + 1) = Some r'"
        using found [of r' "p ! nat (j + 1)"] d full_contour_at [OF S d] glob p1 mv by (simp add: r'_def p_def)
      then show ?thesis using adv last True below by (auto simp: r'_def)
    next
      case end': False
      define r' where "r' = \<lparr>m_polygon = i + 1, m_contour = 0, m_vertex = 0\<rparr>"
      have "take (nat (j + 1)) p = p" using end' C by simp
      then have pp: "sum_list (map points_of (take (nat (i + 1)) (m_polys S))) = g + 1"
        using p1 glob mv C by (simp add: take_next OutlineCount_def p_def)
      show ?thesis
      proof (cases "i + 1 < OutlineCount S")
        case True
        have "m_polys S ! nat (i + 1) \<noteq> []" using S True C unfolding full_contours_def OutlineCount_def by (metis nat_less_iff nth_mem add_nonneg_nonneg zero_le_one)
        then have d: "contour_at S (i + 1) 0 = Some (m_polys S ! nat (i + 1) ! 0)" using C True by (simp add: contour_at_Some)
        have "GetRelativeIndices S (g + 1) = Some r'"
          using found [of r' "m_polys S ! nat (i + 1) ! 0"] d full_contour_at [OF S d] pp by (simp add: r'_def)
        then show ?thesis using adv last end' below by (auto simp: r'_def)
      next
        case False
        then have "i + 1 = OutlineCount S" using C by simp
        then have "g + 1 = TotalVertices S" using pp by (simp add: OutlineCount_def TotalVertices_def)
        then show ?thesis using adv last end' \<open>i + 1 = _\<close> by (auto simp: r'_def)
      qed
    qed
  qed
qed

lemma iterate_from:
  assumes S: "full_contours S"
  shows "GetRelativeIndices S g = Some r \<Longrightarrow>
    \<exists>l. iterate S (it_at S r) visited = Some (visited @ l) \<and> map snd l = drop (nat g) (all_points S) \<and>
      (\<forall>k<length l. GetGlobalIndex S (fst (l ! k)) = Some (g + int k))"
proof (induction "nat (TotalVertices S - g)" arbitrary: g r visited rule: less_induct)
  case less
  have g: "0 \<le> g" "g < TotalVertices S" using less.prems GetRelativeIndices_cases [of S g] by auto
  note A = Advance_next [OF S less.prems]
  obtain r' where r': "it_Advance S (it_at S r) = Some (it_at S r')"
    "if g + 1 < TotalVertices S then GetRelativeIndices S (g + 1) = Some r' else m_polygon r' = OutlineCount S"
    using A(3) by blast
  have step: "iterate S (it_at S r) visited = iterate S (it_at S r') (visited @ [(r, all_points S ! nat g)])" for visited
    by (subst iterate.simps) (simp add: A r'(1))
  have here: "GetGlobalIndex S r = Some g" using less.prems by (simp add: GetRelativeIndices_Some)
  have drop: "drop (nat g) (all_points S) = all_points S ! nat g # drop (nat (g + 1)) (all_points S)"
    using g by (simp add: TotalVertices_length Cons_nth_drop_Suc nat_add_distrib nat_less_iff)
  show ?case
  proof (cases "g + 1 < TotalVertices S")
    case True
    then have "GetRelativeIndices S (g + 1) = Some r'" using r'(2) by simp
    then obtain l where l: "iterate S (it_at S r') (visited @ [(r, all_points S ! nat g)]) = Some ((visited @ [(r, all_points S ! nat g)]) @ l)"
      "map snd l = drop (nat (g + 1)) (all_points S)" "\<forall>k<length l. GetGlobalIndex S (fst (l ! k)) = Some (g + 1 + int k)"
      using less.hyps [of "g + 1" r' "visited @ [(r, all_points S ! nat g)]"] g by auto
    have "\<forall>k<length ((r, all_points S ! nat g) # l). GetGlobalIndex S (fst (((r, all_points S ! nat g) # l) ! k)) = Some (g + int k)"
      using l(3) here by (auto simp: nth_Cons' algebra_simps of_nat_diff)
    then show ?thesis using l(1,2) step drop by (intro exI [of _ "(r, all_points S ! nat g) # l"]) simp
  next
    case False
    then have "m_polygon r' = OutlineCount S" using r'(2) by simp
    then have "it_valid S (it_at S r') = Some False" by (simp add: it_valid_def)
    then have "iterate S (it_at S r) visited = Some (visited @ [(r, all_points S ! nat g)])"
      unfolding step by (subst iterate.simps) simp
    moreover have "drop (nat (g + 1)) (all_points S) = []" using False by (simp add: TotalVertices_length)
    ultimately show ?thesis using drop here by (intro exI [of _ "[(r, all_points S ! nat g)]"]) simp
  qed
qed

lemma iterate_all:
  assumes S: "full_contours S"
  shows "\<exists>l. iterate S (IterateWithHoles S) [] = Some l \<and> map snd l = all_points S \<and>
      (\<forall>k<length l. GetGlobalIndex S (fst (l ! k)) = Some (int k))"
proof (cases "m_polys S = []")
  case True
  then have "iterate S (IterateWithHoles S) [] = Some []"
    by (subst iterate.simps) (simp add: it_valid_def IterateWithHoles_def Iterate_def OutlineCount_def)
  then show ?thesis using True by (simp add: all_points_def)
next
  case False
  define r where "r = \<lparr>m_polygon = 0, m_contour = 0, m_vertex = 0\<rparr>"
  have "m_polys S ! 0 \<noteq> []" using S False unfolding full_contours_def by (metis length_greater_0_conv nth_mem)
  then have c: "contour_at S 0 0 = Some (m_polys S ! 0 ! 0)" using False by (simp add: contour_at_Some OutlineCount_def)
  then have "GetGlobalIndex S r = Some 0" using full_contour_at [OF S c] by (simp add: r_def global_contour points_of_def)
  then have "GetRelativeIndices S 0 = Some r" by (simp add: GetRelativeIndices_Some r_def)
  moreover have "IterateWithHoles S = it_at S r" by (simp add: it_at_def r_def IterateWithHoles_def Iterate_def)
  ultimately show ?thesis using iterate_from [OF S, of 0 r "[]"] by auto
qed

subsection \<open>Counting\<close>

lemma sum_upto: "sum_list (map (\<lambda>k. f (xs ! nat k)) [0..int (length xs) - 1]) = sum_list (map f xs)"
proof (induction xs rule: rev_induct)
  case (snoc x xs)
  have "[0..int (length (xs @ [x])) - 1] = [0..int (length xs) - 1] @ [int (length xs)]"
    using upto_rec2 [of 0 "int (length xs)"] by simp
  moreover have "sum_list (map (\<lambda>k. f ((xs @ [x]) ! nat k)) [0..int (length xs) - 1]) = sum_list (map (\<lambda>k. f (xs ! nat k)) [0..int (length xs) - 1])"
    by (intro arg_cong [where f = sum_list] map_cong refl) (auto simp: nth_append)
  ultimately show ?case using snoc by simp
qed simp

lemma FullPointCount_Total:
  "FullPointCount S = (if [] \<in> set (m_polys S) then Inl Undefined else Inr (TotalVertices S))"
proof -
  have inner: "sum_list (map (\<lambda>idx. PointCount (m_polys S ! nat ii ! nat idx)) [0..HoleCount S ii]) = points_of (m_polys S ! nat ii)"
    if "[] \<notin> set (m_polys S)" "0 \<le> ii" "ii < OutlineCount S" for ii
  proof -
    have "m_polys S ! nat ii \<noteq> []" using that unfolding OutlineCount_def by (metis nat_less_iff nth_mem)
    then have "HoleCount S ii = int (length (m_polys S ! nat ii)) - 1"
      using that by (cases "m_polys S ! nat ii") (auto simp: HoleCount_def)
    then show ?thesis unfolding points_of_def using sum_upto [of PointCount "m_polys S ! nat ii"] by simp
  qed
  have "sum_list (map (\<lambda>ii. sum_list (map (\<lambda>idx. PointCount (m_polys S ! nat ii ! nat idx)) [0..HoleCount S ii])) [0..OutlineCount S - 1]) =
      sum_list (map (\<lambda>ii. points_of (m_polys S ! nat ii)) [0..OutlineCount S - 1])" if "[] \<notin> set (m_polys S)"
    by (intro arg_cong [where f = sum_list] map_cong refl inner that) auto
  moreover have "(\<exists>p\<in>set (m_polys S). p = []) \<longleftrightarrow> [] \<in> set (m_polys S)" by auto
  ultimately show ?thesis
    using sum_upto [of points_of "m_polys S"] unfolding FullPointCount_def TotalVertices_def OutlineCount_def by auto
qed

subsection \<open>Deleting with the triangulation\<close>

definition sources_ok :: "POLY_SET \<Rightarrow> bool" where
  "sources_ok S \<longleftrightarrow> (\<forall>t\<in>set (m_triangulatedPolys S). 0 \<le> m_sourceOutline t \<and> m_sourceOutline t < OutlineCount S)"

text \<open>What a triangulated polygon is about: its polygon, its triangles and its vertices.\<close>

definition triangulates :: "POLY_SET \<Rightarrow> TRIANGULATED_POLYGON \<Rightarrow> POLYGON \<times> (int \<times> int \<times> int) list \<times> VECTOR2I list" where
  "triangulates S t = (m_polys S ! nat (m_sourceOutline t), m_triangles t, m_vertices t)"

lemma drop_source_map:
  assumes "\<forall>t\<in>set ts. 0 \<le> m_sourceOutline t \<and> m_sourceOutline t < int (length ps)" "0 \<le> i" "i < int (length ps)"
  shows "map (\<lambda>t. (vec_erase (nat i) (nat i + 1) ps ! nat (m_sourceOutline t), m_triangles t, m_vertices t)) (drop_source i ts) =
      map (\<lambda>t. (ps ! nat (m_sourceOutline t), m_triangles t, m_vertices t)) (filter (\<lambda>t. m_sourceOutline t \<noteq> i) ts) \<and>
    (\<forall>t\<in>set (drop_source i ts). 0 \<le> m_sourceOutline t \<and> m_sourceOutline t < int (length ps) - 1)"
  using assms(1)
proof (induction ts)
  case (Cons t ts)
  have erase: "vec_erase (nat i) (nat i + 1) ps ! k = (if k < nat i then ps ! k else ps ! (k + 1))" if "k < length ps - 1" for k
    using that assms(2,3) by (subst nth_vec_erase) auto
  consider "m_sourceOutline t = i" | "m_sourceOutline t < i" | "m_sourceOutline t > i" by linarith
  then show ?case
  proof cases
    case 3
    then have "nat (m_sourceOutline t) = nat (m_sourceOutline t - 1) + 1" "\<not> nat (m_sourceOutline t - 1) < nat i"
      "nat (m_sourceOutline t - 1) < length ps - 1" using Cons.prems assms(2) by auto
    then have "vec_erase (nat i) (nat i + 1) ps ! nat (m_sourceOutline t - 1) = ps ! nat (m_sourceOutline t)"
      using erase by metis
    then show ?thesis using 3 Cons assms(2) by simp
  next
    case 2
    then show ?thesis using Cons assms(2,3) erase [of "nat (m_sourceOutline t)"] by (simp add: nat_less_iff)
  qed (use Cons in simp)
qed simp

lemma DeletePolygonAndTriangulationData_lemma:
  assumes "sources_ok S" "m_triangulationValid S" "0 \<le> i" "i < OutlineCount S"
  shows "\<exists>T. DeletePolygonAndTriangulationData md5 i h S = Some T \<and> sources_ok T \<and>
    m_polys T = vec_erase (nat i) (nat i + 1) (m_polys S) \<and>
    map (triangulates T) (m_triangulatedPolys T) = map (triangulates S) (filter (\<lambda>t. m_sourceOutline t \<noteq> i) (m_triangulatedPolys S)) \<and>
    (h \<longrightarrow> IsTriangulationUpToDate md5 T)"
proof -
  note D = drop_source_map [of "m_triangulatedPolys S" "m_polys S" i]
  have "int (length (vec_erase (nat i) (nat i + 1) (m_polys S))) = int (length (m_polys S)) - 1"
    using assms(3,4) by (simp add: OutlineCount_def nat_less_iff of_nat_diff)
  then show ?thesis using assms D
    by (auto simp: DeletePolygonAndTriangulationData_def DeletePolygon_def CPolygon_def Let_def sources_ok_def OutlineCount_def
        triangulates_def [abs_def] IsTriangulationUpToDate_def checksum_def)
qed

subsection \<open>Touching holes\<close>

lemma repeated_iff: "distinct hs \<and> set hs \<inter> H = {} \<longleftrightarrow> \<not> repeated H hs"
proof (induction hs arbitrary: H)
  case (Cons a hs)
  show ?case using Cons.IH [of "insert a H"] by auto
qed simp

lemma ptHash_inj:
  assumes "0 \<le> vy p" "vy p < 2 ^ 31" "0 \<le> vy q" "vy q < 2 ^ 31"
  shows "ptHash p = ptHash q \<longleftrightarrow> p = q"
proof -
  have h: "ptHash v = vx v * 2 ^ 32 + vy v" if "0 \<le> vy v" "vy v < 2 ^ 32" for v
  proof -
    have "take_bit 32 (vy v) = vy v" using that by (simp add: take_bit_int_eq_self)
    moreover have "(push_bit 32 (vx v)) AND (take_bit 32 (vy v)) = 0" by (rule bit_eqI) (auto simp: bit_simps)
    ultimately have "(push_bit 32 (vx v)) OR vy v = push_bit 32 (vx v) + vy v" by (metis plus_and_or add_0)
    then show ?thesis by (simp add: ptHash_def push_bit_eq_mult)
  qed
  have d: "(x * 2 ^ 32 + y) div 2 ^ 32 = x" if "0 \<le> y" "y < 2 ^ 32" for x y :: int using that by simp
  have "x = x' \<and> y = y'" if "x * 2 ^ 32 + y = x' * 2 ^ 32 + y'" "0 \<le> y" "y < 2 ^ 32" "0 \<le> y'" "y' < 2 ^ 32" for x x' y y' :: int
  proof -
    have "x = x'" using that d [of y x] d [of y' x'] by metis
    then show ?thesis using that(1) by simp
  qed
  moreover have "(2::int) ^ 31 < 2 ^ 32" by simp
  ultimately have "ptHash p = ptHash q \<longleftrightarrow> vx p = vx q \<and> vy p = vy q" using assms h [of p] h [of q] by (metis less_trans)
  then show ?thesis by (metis VECTOR2I.equality old.unit.exhaust)
qed

lemma hasTouchingHoles_iff:
  assumes "\<forall>p\<in>set (concat (map m_points P)). 0 \<le> vy p \<and> vy p < 2 ^ 31"
  shows "hasTouchingHoles P \<longleftrightarrow> \<not> distinct (concat (map m_points P))"
proof -
  have "inj_on ptHash (set (concat (map m_points P)))"
    using assms ptHash_inj by (intro inj_onI) blast
  then show ?thesis unfolding hasTouchingHoles_def using repeated_iff [of "map ptHash (concat (map m_points P))" "{}"]
    by (auto simp: distinct_map)
qed

subsection \<open>Properties\<close>

text \<open>
  C28: The two numberings of the vertices are inverse to each other: a global number has the relative
  index of which it is the global number, and no other, and a number of no vertex has none.
\<close>

theorem GetRelativeIndices_inverse:
  "GetRelativeIndices S g = Some r \<longleftrightarrow> 0 \<le> m_vertex r \<and> GetGlobalIndex S r = Some g"
  by (rule GetRelativeIndices_Some)

text \<open>
  Reading a vertex by its global number returns that element of the list of all points, contour by
  contour, and throws \<open>std::out_of_range\<close> exactly for a negative number or one that is too large: no
  other read can go wrong.
\<close>

theorem CVertex_or_error:
  "CVertex S g = (if 0 \<le> g \<and> g < TotalVertices S then Inr (all_points S ! nat g) else Inl Out_Of_Range)"
  by (rule CVertex_lemma)

definition square :: "int \<Rightarrow> int \<Rightarrow> CHAIN" where
  "square a b = chain_of_points [Vec a a, Vec b a, Vec b b, Vec a b] True"

definition two_squares :: POLY_SET where
  "two_squares = poly_empty\<lparr>m_polys := [[square 0 9, square 2 4], [square 20 25]]\<rparr>"

text \<open>
  C15: A set of polygons refines nested lists of points. Whatever sequence of inserting, moving and removing
  vertices by whatever global numbers is run: it fails where the reference does, by the exception when a number to move or remove is out
  of range, or undefined when a point is appended to a set without an outline; otherwise every contour keeps
  its bookkeeping of arcs, and the points, contour by contour, are those of the reference, which edits the
  contour that holds the point of that number, and appends to the outline of the last polygon from the
  number of vertices on.
\<close>

theorem poly_edits_refine:
  assumes "poly_ok S"
  shows "(case run_script (exec_set F) es S of
      Inl err \<Rightarrow> run_script edit_shape es (shapes_of S) = Inl err
    | Inr T \<Rightarrow> poly_ok T \<and> run_script edit_shape es (shapes_of S) = Inr (shapes_of T))"
  using run_script_shape [OF assms, of F es] by (auto split: sum.split)

lemma two_squares_ok: "poly_ok two_squares"
  by (simp add: poly_ok_def two_squares_def square_def chain_ok_of_points)

theorem poly_edits_refine_witness:
  "case run_script (exec_set F0) [Ins 8 (Vec 3 3), Put 0 (Vec 1 1), Del 7, Ins (- 2) (Vec 5 5), Del 9] two_squares of
      Inl err \<Rightarrow> run_script edit_shape [Ins 8 (Vec 3 3), Put 0 (Vec 1 1), Del 7, Ins (- 2) (Vec 5 5), Del 9] (shapes_of two_squares) = Inl err
    | Inr T \<Rightarrow> poly_ok T \<and>
        run_script edit_shape [Ins 8 (Vec 3 3), Put 0 (Vec 1 1), Del 7, Ins (- 2) (Vec 5 5), Del 9] (shapes_of two_squares) = Inr (shapes_of T)"
  by (rule poly_edits_refine [OF two_squares_ok])

text \<open>
  C27: When no contour is empty, the loop over an iterator with holes ends and has then visited every
  vertex once, in the order of the global numbers, at the index that \<open>GetGlobalIndex\<close> numbers that way.
\<close>

theorem IterateWithHoles_visits_all:
  assumes "full_contours S"
  shows "\<exists>l. iterate S (IterateWithHoles S) [] = Some l \<and> map snd l = all_points S \<and>
    (\<forall>k<length l. GetGlobalIndex S (fst (l ! k)) = Some (int k))"
  by (rule iterate_all [OF assms])

lemma two_squares_full: "full_contours two_squares"
  by code_simp

theorem IterateWithHoles_visits_all_witness:
  "\<exists>l. iterate two_squares (IterateWithHoles two_squares) [] = Some l \<and> map snd l = all_points two_squares \<and>
    (\<forall>k<length l. GetGlobalIndex two_squares (fst (l ! k)) = Some (int k))"
  by (rule IterateWithHoles_visits_all [OF two_squares_full])

text \<open>
  The two counts of the vertices agree on every set, the nested loops of \<open>FullPointCount\<close> over
  outlines and holes and the sum of \<open>TotalVertices\<close>, except that the first reads a missing outline when
  a polygon has no contour at all.
\<close>

theorem FullPointCount_agrees:
  "FullPointCount S = (if [] \<in> set (m_polys S) then Inl Undefined else Inr (TotalVertices S))"
  by (rule FullPointCount_Total)

text \<open>
  Deleting a polygon together with its part of the triangulation keeps every other part at its
  polygon: the source numbers stay numbers of polygons, each remaining part names the same polygon as
  before with the same triangles, and with the digest updated the triangulation counts as current.
\<close>

theorem DeletePolygon_keeps_triangulation:
  assumes "sources_ok S" "m_triangulationValid S" "0 \<le> i" "i < OutlineCount S"
  shows "\<exists>T. DeletePolygonAndTriangulationData md5 i h S = Some T \<and> sources_ok T \<and>
    m_polys T = vec_erase (nat i) (nat i + 1) (m_polys S) \<and>
    map (triangulates T) (m_triangulatedPolys T) = map (triangulates S) (filter (\<lambda>t. m_sourceOutline t \<noteq> i) (m_triangulatedPolys S)) \<and>
    (h \<longrightarrow> IsTriangulationUpToDate md5 T)"
  by (rule DeletePolygonAndTriangulationData_lemma [OF assms])

definition triangulated_squares :: POLY_SET where
  "triangulated_squares = two_squares\<lparr>m_triangulationValid := True, m_triangulatedPolys :=
     [\<lparr>m_sourceOutline = 1, m_triangles = [(0, 1, 2)], m_vertices = [Vec 20 20, Vec 25 20, Vec 25 25]\<rparr>,
      \<lparr>m_sourceOutline = 0, m_triangles = [], m_vertices = []\<rparr>]\<rparr>"

theorem DeletePolygon_keeps_triangulation_witness:
  "\<exists>T. DeletePolygonAndTriangulationData length 0 True triangulated_squares = Some T \<and> sources_ok T \<and>
    m_polys T = vec_erase (nat 0) (nat 0 + 1) (m_polys triangulated_squares) \<and>
    map (triangulates T) (m_triangulatedPolys T) =
      map (triangulates triangulated_squares) (filter (\<lambda>t. m_sourceOutline t \<noteq> 0) (m_triangulatedPolys triangulated_squares)) \<and>
    (True \<longrightarrow> IsTriangulationUpToDate length T)"
  by (rule DeletePolygon_keeps_triangulation) code_simp+

text \<open>
  On coordinates that are not negative in \<open>y\<close>, \<open>hasTouchingHoles\<close> says exactly whether two vertices of the
  polygon, of one contour or of two, are the same point: the numbers it puts into its set tell points
  apart.
\<close>

theorem hasTouchingHoles_decides:
  assumes "\<forall>p\<in>set (concat (map m_points P)). 0 \<le> vy p \<and> vy p < 2 ^ 31"
  shows "hasTouchingHoles P \<longleftrightarrow> \<not> distinct (concat (map m_points P))"
  by (rule hasTouchingHoles_iff [OF assms])

theorem hasTouchingHoles_decides_witness:
  "hasTouchingHoles [square 0 9, square 2 4] \<longleftrightarrow> \<not> distinct (concat (map m_points [square 0 9, square 2 4]))"
  by (rule hasTouchingHoles_decides) code_simp

subsection \<open>Examples\<close>

text \<open>
  Below \<open>y = 0\<close> the digits of \<open>x\<close> are lost: two different vertices count as touching.
\<close>

lemma hasTouchingHoles_negative:
  "hasTouchingHoles [chain_of_points [Vec 0 (- 5), Vec 7 (- 5), Vec 3 4] True]"
  by code_simp

text \<open>A hole added to a polygon that is not the last one gets a number counted on the last one.\<close>

lemma NewHole_number:
  "map_option snd (NewHole 0 two_squares) = Some (- 1)" "map_option (\<lambda>x. HoleCount (fst x) 0) (NewHole 0 two_squares) = Some 2"
  by code_simp+

text \<open>Inserting at the end appends to the last outline, before its holes: the point is not the last one.\<close>

lemma InsertVertex_at_end:
  "case InsertVertex F0 8 (Vec 1 1) (poly_empty\<lparr>m_polys := [[square 0 9, square 2 4]]\<rparr>) of
     Inr T \<Rightarrow> all_points T ! 4 = Vec 1 1 \<and> all_points T ! 8 = Vec 2 4 | Inl _ \<Rightarrow> False"
  by code_simp

text \<open>An iterator over a polygon that is not the last of the set visits nothing.\<close>

lemma Iterate_single_polygon: "iterate two_squares (Iterate two_squares 0 0 True) [] = Some []"
  by code_simp

text \<open>
  In a closed contour the number of segments is the number of vertices: the neighbour before the first
  vertex and the one after the last are not found, and the results are left unset.
\<close>

lemma GetNeighbourIndexes_ends:
  "GetNeighbourIndexes two_squares 0 = Some (None, Some 1)" "GetNeighbourIndexes two_squares 3 = Some (Some 2, None)"
  by code_simp+

text \<open>
  The numbers of segments start again in every contour, but whether the first and the last are neighbours
  is decided with the number of segments of the whole polygon: with a hole they count as a crossing.
\<close>

lemma IsPolygonSelfIntersecting_hole:
  "IsPolygonSelfIntersecting F0 two_squares 0 = Some True" "IsPolygonSelfIntersecting F0 two_squares 1 = Some False"
  by code_simp+

text \<open>The point nearest to a polygon is not set when it lies on the first edge.\<close>

lemma SquaredDistance_nearest_unset:
  "SquaredDistanceToPolygon_pt F0 two_squares (Vec 5 (- 3)) 0 = Some (9, None)"
  by code_simp

end
