(* ===== verification/Sexpr.thy ===== *)
theory Sexpr
  imports Strings
begin

text \<open>
  \<open>libs/sexpr\<close>: the trees of the file formats, their accessors with run-time types, the parser, the printer,
  and the reading and building of lists. A tree is a value; the list a stream operator works on carries its
  position \<open>m_inStreamChild\<close>. What a program may catch is an error value: \<open>PARSE_EXCEPTION\<close>,
  \<open>INVALID_TYPE_EXCEPTION\<close> and \<open>std::invalid_argument\<close>. A child that is not there is read without a check:
  \<open>No_Child\<close>.

  Floating-point numbers are a type \<open>'d\<close>, their conversions a record of functions.
\<close>

subsection \<open>Trees\<close>

datatype 'd SEXPR =
    SEXPR_LIST nat int "'d SEXPR list"
  | SEXPR_INTEGER nat int
  | SEXPR_DOUBLE nat 'd
  | SEXPR_STRING nat string
  | SEXPR_SYMBOL nat string

record 'd NUMBERS =
  nu_strtod :: "string \<Rightarrow> 'd"
  nu_show :: "'d \<Rightarrow> string"
  nu_of_int :: "int \<Rightarrow> 'd"
  nu_float :: "'d \<Rightarrow> 'd"

datatype SEXPR_ERROR = PARSE_EXCEPTION string | INVALID_TYPE_EXCEPTION string | Invalid_Argument string | No_Child

fun IsList :: "'d SEXPR \<Rightarrow> bool" where "IsList (SEXPR_LIST _ _ _) = True" | "IsList _ = False"
fun IsInteger :: "'d SEXPR \<Rightarrow> bool" where "IsInteger (SEXPR_INTEGER _ _) = True" | "IsInteger _ = False"
fun IsDouble :: "'d SEXPR \<Rightarrow> bool" where "IsDouble (SEXPR_DOUBLE _ _) = True" | "IsDouble _ = False"
fun IsString :: "'d SEXPR \<Rightarrow> bool" where "IsString (SEXPR_STRING _ _) = True" | "IsString _ = False"
fun IsSymbol :: "'d SEXPR \<Rightarrow> bool" where "IsSymbol (SEXPR_SYMBOL _ _) = True" | "IsSymbol _ = False"

fun GetLineNumber :: "'d SEXPR \<Rightarrow> nat" where
  "GetLineNumber (SEXPR_LIST n _ _) = n"
| "GetLineNumber (SEXPR_INTEGER n _) = n"
| "GetLineNumber (SEXPR_DOUBLE n _) = n"
| "GetLineNumber (SEXPR_STRING n _) = n"
| "GetLineNumber (SEXPR_SYMBOL n _) = n"

fun GetChildren :: "'d SEXPR \<Rightarrow> SEXPR_ERROR + 'd SEXPR list" where
  "GetChildren (SEXPR_LIST _ _ cs) = Inr cs"
| "GetChildren _ = Inl (INVALID_TYPE_EXCEPTION ''SEXPR is not a list type!'')"

fun GetChild :: "'d SEXPR \<Rightarrow> int \<Rightarrow> SEXPR_ERROR + 'd SEXPR" where
  "GetChild (SEXPR_LIST _ _ cs) i = (if 0 \<le> i \<and> i < int (length cs) then Inr (cs ! nat i) else Inl No_Child)"
| "GetChild _ i = Inl (INVALID_TYPE_EXCEPTION ''SEXPR is not a list type!'')"

fun AddChild :: "'d SEXPR \<Rightarrow> 'd SEXPR \<Rightarrow> SEXPR_ERROR + 'd SEXPR" where
  "AddChild child (SEXPR_LIST n k cs) = Inr (SEXPR_LIST n k (cs @ [child]))"
| "AddChild child _ = Inl (INVALID_TYPE_EXCEPTION ''SEXPR is not a list type!'')"

fun GetNumberOfChildren :: "'d SEXPR \<Rightarrow> SEXPR_ERROR + int" where
  "GetNumberOfChildren (SEXPR_LIST _ _ cs) = Inr (int (length cs))"
| "GetNumberOfChildren _ = Inl (INVALID_TYPE_EXCEPTION ''SEXPR is not a list type!'')"

fun GetString :: "'d SEXPR \<Rightarrow> SEXPR_ERROR + string" where
  "GetString (SEXPR_STRING _ s) = Inr s"
| "GetString _ = Inl (INVALID_TYPE_EXCEPTION ''SEXPR is not a string type!'')"

fun GetLongInteger :: "'d SEXPR \<Rightarrow> SEXPR_ERROR + int" where
  "GetLongInteger (SEXPR_INTEGER _ v) = Inr v"
| "GetLongInteger _ = Inl (INVALID_TYPE_EXCEPTION ''SEXPR is not a integer type!'')"

definition GetInteger :: "'d SEXPR \<Rightarrow> SEXPR_ERROR + int" where
  "GetInteger t = (case GetLongInteger t of Inl e \<Rightarrow> Inl e | Inr v \<Rightarrow> Inr (to_int32 v))"

fun GetDouble :: "'d NUMBERS \<Rightarrow> 'd SEXPR \<Rightarrow> SEXPR_ERROR + 'd" where
  "GetDouble D (SEXPR_DOUBLE _ v) = Inr v"
| "GetDouble D (SEXPR_INTEGER _ v) = Inr (nu_of_int D v)"
| "GetDouble D _ = Inl (INVALID_TYPE_EXCEPTION ''SEXPR is not a double type!'')"

definition GetFloat :: "'d NUMBERS \<Rightarrow> 'd SEXPR \<Rightarrow> SEXPR_ERROR + 'd" where
  "GetFloat D t = (case GetDouble D t of Inl e \<Rightarrow> Inl e | Inr v \<Rightarrow> Inr (nu_float D v))"

fun GetSymbol :: "'d SEXPR \<Rightarrow> SEXPR_ERROR + string" where
  "GetSymbol (SEXPR_SYMBOL _ s) = Inr s"
| "GetSymbol t = Inl (INVALID_TYPE_EXCEPTION (''GetSymbol(): SEXPR is not a symbol type! error line '' @ dec (GetLineNumber t)))"

fun GetList :: "'d SEXPR \<Rightarrow> SEXPR_ERROR + 'd SEXPR" where
  "GetList (SEXPR_LIST n k cs) = Inr (SEXPR_LIST n k cs)"
| "GetList _ = Inl (INVALID_TYPE_EXCEPTION ''SEXPR is not a list type!'')"

subsection \<open>Printing\<close>

definition show_int :: "int \<Rightarrow> string" where
  "show_int v = (if v < 0 then CHR ''-'' # dec (nat (- v)) else dec (nat v))"

text \<open>The children, a blank behind each but the last; integers go through \<open>GetInteger\<close>.\<close>

fun join_children :: "string list \<Rightarrow> string" where
  "join_children [] = []"
| "join_children [s] = s"
| "join_children (s # ss) = s @ '' '' @ join_children ss"

primrec SEXPR_AsString :: "'d NUMBERS \<Rightarrow> 'd SEXPR \<Rightarrow> nat \<Rightarrow> string" where
  "SEXPR_AsString D (SEXPR_LIST n k cs) aLevel =
    (if aLevel \<noteq> 0 then [newline] else []) @ replicate (aLevel * 2) CHR '' '' @ ''('' @
    join_children (map (\<lambda>f. f (aLevel + 1)) (map (SEXPR_AsString D) cs)) @ '')''"
| "SEXPR_AsString D (SEXPR_INTEGER n v) aLevel = show_int (to_int32 v)"
| "SEXPR_AsString D (SEXPR_DOUBLE n v) aLevel = nu_show D v"
| "SEXPR_AsString D (SEXPR_STRING n s) aLevel = [dquote] @ s @ [dquote]"
| "SEXPR_AsString D (SEXPR_SYMBOL n s) aLevel = s"

subsection \<open>Parsing\<close>

definition whitespaceCharacters :: string where
  "whitespaceCharacters = [CHR '' '', tab, newline, creturn, CHR 0x08, CHR 0x0C, CHR 0x0B]"

definition is_delimiter :: "char \<Rightarrow> bool" where
  "is_delimiter c \<longleftrightarrow> c \<in> set (whitespaceCharacters @ ''()'')"

text \<open>The loop over a quoted text: what it holds, as it stands, and the text behind its closing quote.\<close>

fun quoted_loop :: "string \<Rightarrow> (string \<times> string) option" where
  "quoted_loop [] = None"
| "quoted_loop (ch # it) =
    (if ch = bslash then
       (case it of [] \<Rightarrow> None | d # it \<Rightarrow> map_option (\<lambda>(s, r). (ch # d # s, r)) (quoted_loop it))
     else if ch = dquote then Some ([], it)
     else map_option (\<lambda>(s, r). (ch # s, r)) (quoted_loop it))"

definition number_char :: "char \<Rightarrow> bool" where
  "number_char c \<longleftrightarrow> is_digit c \<or> c = CHR ''.''"

definition is_number :: "string \<Rightarrow> bool" where
  "is_number tmp \<longleftrightarrow> list_all number_char tmp \<or>
    (length tmp > 1 \<and> hd tmp = CHR ''-'' \<and> list_all number_char (tl tmp))"

text \<open>
  \<open>strtoll( s, nullptr, 0 )\<close> of digits with an optional minus sign: a leading zero makes it octal, and
  what does not fit is the largest or the smallest number.
\<close>

definition digits_in_base :: "int \<Rightarrow> string \<Rightarrow> int" where
  "digits_in_base b s = foldl (\<lambda>v c. b * v + digit_value c) 0 (takeWhile (\<lambda>c. digit_value c < b) s)"

definition strtoll0 :: "string \<Rightarrow> int" where
  "strtoll0 s =
    (let neg = (s \<noteq> [] \<and> hd s = CHR ''-''); t = (if neg then tl s else s);
         v = (if t \<noteq> [] \<and> hd t = CHR ''0'' then digits_in_base 8 t else digits_in_base 10 t)
     in if neg then max (- v) (- (2 ^ 63)) else min v (2 ^ 63 - 1))"

definition atom_of :: "'d NUMBERS \<Rightarrow> string \<Rightarrow> nat \<Rightarrow> 'd SEXPR" where
  "atom_of D tmp line =
    (if is_number tmp then
       (if CHR ''.'' \<in> set tmp then SEXPR_DOUBLE line (nu_strtod D tmp) else SEXPR_INTEGER line (strtoll0 tmp))
     else SEXPR_SYMBOL line tmp)"

text \<open>
  \<open>parseString\<close> and its loop over the children of a list. The iterator is the rest of the text; the
  number is fuel, and \<open>None\<close> would be its end. A null pointer is the tree \<open>None\<close>.
\<close>

fun parseString :: "'d NUMBERS \<Rightarrow> nat \<Rightarrow> string \<Rightarrow> nat \<Rightarrow> (SEXPR_ERROR + 'd SEXPR option \<times> string \<times> nat) option" and parse_children :: "'d NUMBERS \<Rightarrow> nat \<Rightarrow> string \<Rightarrow> nat \<Rightarrow> 'd SEXPR list \<Rightarrow>
    (SEXPR_ERROR + 'd SEXPR list \<times> string \<times> nat) option" where
  "parseString D 0 it m_lineNumber = None"
| "parseString D (Suc n) it m_lineNumber =
    (case it of [] \<Rightarrow> Some (Inr (None, [], m_lineNumber))
     | ch # rest \<Rightarrow>
        (let line = (if ch = newline then m_lineNumber + 1 else m_lineNumber) in
         if ch \<in> set whitespaceCharacters then parseString D n rest line
         else if ch = CHR ''('' then
           (case parse_children D n rest line [] of None \<Rightarrow> None
            | Some (Inl e) \<Rightarrow> Some (Inl e)
            | Some (Inr (cs, rest', line')) \<Rightarrow> Some (Inr (Some (SEXPR_LIST line 0 cs), rest', line')))
         else if ch = CHR '')'' then Some (Inr (None, it, line))
         else if ch = dquote then
           (case quoted_loop rest of None \<Rightarrow> Some (Inl (PARSE_EXCEPTION ''missing closing quote''))
            | Some (s, rest') \<Rightarrow> Some (Inr (Some (SEXPR_STRING line s), rest', line)))
         else
           (let tmp = takeWhile (\<lambda>c. \<not> is_delimiter c) it; rest' = dropWhile (\<lambda>c. \<not> is_delimiter c) it in
            if rest' \<noteq> [] then Some (Inr (Some (atom_of D tmp line), rest', line))
            else Some (Inl (PARSE_EXCEPTION ''format error'')))))"
| "parse_children D 0 it m_lineNumber cs = None"
| "parse_children D (Suc n) it m_lineNumber cs =
    (case it of [] \<Rightarrow> Some (Inr (cs, [], m_lineNumber))
     | ch # rest \<Rightarrow>
         if ch = CHR '')'' then Some (Inr (cs, rest, m_lineNumber))
         else
           (let line = (if ch = newline then m_lineNumber + 1 else m_lineNumber) in
            if ch \<in> set whitespaceCharacters then parse_children D n rest line cs
            else (case parseString D n it line of None \<Rightarrow> None
              | Some (Inl e) \<Rightarrow> Some (Inl e)
              | Some (Inr (None, rest', line')) \<Rightarrow> Some (Inl No_Child)
              | Some (Inr (Some item, rest', line')) \<Rightarrow> parse_children D n rest' line' (cs @ [item]))))"

text \<open>\<open>Parse\<close> of a parser that stands at a line; the result has the line it stands at afterwards.\<close>

definition Parse :: "'d NUMBERS \<Rightarrow> string \<Rightarrow> nat \<Rightarrow> (SEXPR_ERROR + 'd SEXPR option \<times> nat) option" where
  "Parse D aString m_lineNumber =
    (case parseString D (2 * length aString + 1) aString m_lineNumber of None \<Rightarrow> None
     | Some (Inl e) \<Rightarrow> Some (Inl e) | Some (Inr (t, rest, line)) \<Rightarrow> Some (Inr (t, line)))"

text \<open>\<open>ParseFromFile\<close>, given what the opened file holds.\<close>

definition ParseFromFile :: "'d NUMBERS \<Rightarrow> string \<Rightarrow> nat \<Rightarrow> (SEXPR_ERROR + 'd SEXPR option \<times> nat) option" where
  "ParseFromFile D contents m_lineNumber =
    (if contents = [] then Some (Inl (PARSE_EXCEPTION ''Error occurred attempting to read in file or empty file''))
     else Parse D contents m_lineNumber)"

subsection \<open>Reading and building lists\<close>

text \<open>
  \<open>operator>>\<close>, which is there for lists only: the child at the position, which moves on; \<open>get\<close> is what is
  taken out of the child.
\<close>

definition in_stream :: "('d SEXPR \<Rightarrow> bool) \<Rightarrow> string \<Rightarrow> ('d SEXPR \<Rightarrow> SEXPR_ERROR + 'a) \<Rightarrow> 'd SEXPR \<Rightarrow> SEXPR_ERROR + 'a \<times> 'd SEXPR" where
  "in_stream is_type msg get input =
    (case input of SEXPR_LIST n k cs \<Rightarrow>
       (case GetChild input k of Inl e \<Rightarrow> Inl e
        | Inr child \<Rightarrow>
            if is_type child then (case get child of Inl e \<Rightarrow> Inl e | Inr v \<Rightarrow> Inr (v, SEXPR_LIST n (k + 1) cs))
            else Inl (Invalid_Argument msg))
     | _ \<Rightarrow> Inl No_Child)"

definition in_int32 :: "'d SEXPR \<Rightarrow> SEXPR_ERROR + int \<times> 'd SEXPR" where
  "in_int32 = in_stream IsInteger ''SEXPR is not a integer type!'' GetInteger"

definition in_string :: "'d SEXPR \<Rightarrow> SEXPR_ERROR + string \<times> 'd SEXPR" where
  "in_string = in_stream (\<lambda>c. IsString c \<or> IsSymbol c) ''SEXPR is not a string type!'' GetString"

definition in_int64 :: "'d SEXPR \<Rightarrow> SEXPR_ERROR + int \<times> 'd SEXPR" where
  "in_int64 = in_stream IsInteger ''SEXPR is not a long integer type!'' GetLongInteger"

definition in_float :: "'d NUMBERS \<Rightarrow> 'd SEXPR \<Rightarrow> SEXPR_ERROR + 'd \<times> 'd SEXPR" where
  "in_float D = in_stream IsDouble ''SEXPR is not a float type!'' (GetFloat D)"

definition in_double :: "'d NUMBERS \<Rightarrow> 'd SEXPR \<Rightarrow> SEXPR_ERROR + 'd \<times> 'd SEXPR" where
  "in_double D = in_stream IsDouble ''SEXPR is not a double type!'' (GetDouble D)"

definition in_IN_STRING :: "bool \<Rightarrow> 'd SEXPR \<Rightarrow> SEXPR_ERROR + string \<times> 'd SEXPR" where
  "in_IN_STRING symbol =
    (if symbol then in_stream IsSymbol ''operator>>: SEXPR is not a symbol type!'' GetSymbol
     else in_stream IsString ''SEXPR is not a string type!'' GetString)"

text \<open>\<open>operator<<\<close>: every overload adds one child, made without a line.\<close>

datatype 'd OUT_VALUE = Out_Int int | Out_Float 'd | Out_Double 'd | Out_String string | Out_OUT_STRING bool string | Out_SEXPR "'d SEXPR"

fun out_child :: "'d OUT_VALUE \<Rightarrow> 'd SEXPR" where
  "out_child (Out_Int v) = SEXPR_INTEGER 1 v"
| "out_child (Out_Float v) = SEXPR_DOUBLE 1 v"
| "out_child (Out_Double v) = SEXPR_DOUBLE 1 v"
| "out_child (Out_String s) = SEXPR_STRING 1 s"
| "out_child (Out_OUT_STRING symbol s) = (if symbol then SEXPR_SYMBOL 1 s else SEXPR_STRING 1 s)"
| "out_child (Out_SEXPR obj) = obj"

definition out_stream :: "'d SEXPR \<Rightarrow> 'd OUT_VALUE \<Rightarrow> SEXPR_ERROR + 'd SEXPR" where
  "out_stream list v = AddChild (out_child v) list"

text \<open>The arguments of \<open>AddChildren\<close> and of \<open>Scan\<close>, and what \<open>Scan\<close> writes through an argument.\<close>

datatype 'd CHILDREN_ARG = C_INT int | C_DOUBLE 'd | C_STRING string | C_LONGINT int | C_SEXPR_STRING bool string | C_SEXPR_ATOM "'d SEXPR"

fun arg_child :: "'d CHILDREN_ARG \<Rightarrow> 'd SEXPR" where
  "arg_child (C_DOUBLE v) = SEXPR_DOUBLE 1 v"
| "arg_child (C_INT v) = SEXPR_INTEGER 1 v"
| "arg_child (C_LONGINT v) = SEXPR_INTEGER 1 v"
| "arg_child (C_STRING s) = SEXPR_STRING 1 s"
| "arg_child (C_SEXPR_ATOM t) = t"
| "arg_child (C_SEXPR_STRING symbol s) = (if symbol then SEXPR_SYMBOL 1 s else SEXPR_STRING 1 s)"

fun doAddChildren :: "'d CHILDREN_ARG list \<Rightarrow> 'd SEXPR \<Rightarrow> SEXPR_ERROR + 'd SEXPR" where
  "doAddChildren [] t = Inr t"
| "doAddChildren (a # as) t = (case AddChild (arg_child a) t of Inl e \<Rightarrow> Inl e | Inr t \<Rightarrow> doAddChildren as t)"

datatype SCAN_ARG = S_INT | S_DOUBLE | S_STRING | S_LONGINT | S_STRING_COMP string | S_SEXPR_STRING bool

datatype 'd SCANNED = Wrote_Double 'd | Wrote_String string | Wrote_Long int | Wrote_Nothing

text \<open>\<open>None\<close>: the compared text is another one. \<open>INT\<close> stores a double through the pointer to its integer.\<close>

fun scan_arg :: "'d NUMBERS \<Rightarrow> SCAN_ARG \<Rightarrow> 'd SEXPR \<Rightarrow> SEXPR_ERROR + 'd SCANNED option" where
  "scan_arg D S_DOUBLE child = (case GetDouble D child of Inl e \<Rightarrow> Inl e | Inr v \<Rightarrow> Inr (Some (Wrote_Double v)))"
| "scan_arg D S_INT child = (case GetInteger child of Inl e \<Rightarrow> Inl e | Inr v \<Rightarrow> Inr (Some (Wrote_Double (nu_of_int D v))))"
| "scan_arg D S_STRING child =
    (if IsSymbol child then (case GetSymbol child of Inl e \<Rightarrow> Inl e | Inr s \<Rightarrow> Inr (Some (Wrote_String s)))
     else if IsString child then (case GetString child of Inl e \<Rightarrow> Inl e | Inr s \<Rightarrow> Inr (Some (Wrote_String s)))
     else Inr (Some Wrote_Nothing))"
| "scan_arg D S_LONGINT child = (case GetLongInteger child of Inl e \<Rightarrow> Inl e | Inr v \<Rightarrow> Inr (Some (Wrote_Long v)))"
| "scan_arg D (S_SEXPR_STRING symbol) child =
    (case (if symbol then GetSymbol child else GetString child) of Inl e \<Rightarrow> Inl e | Inr s \<Rightarrow> Inr (Some (Wrote_String s)))"
| "scan_arg D (S_STRING_COMP str) child =
    (if IsSymbol child then (case GetSymbol child of Inl e \<Rightarrow> Inl e | Inr s \<Rightarrow> Inr (if s \<noteq> str then None else Some Wrote_Nothing))
     else if IsString child then (case GetString child of Inl e \<Rightarrow> Inl e | Inr s \<Rightarrow> Inr (if s \<noteq> str then None else Some Wrote_Nothing))
     else Inr (Some Wrote_Nothing))"

fun scan_loop :: "'d NUMBERS \<Rightarrow> 'd SEXPR \<Rightarrow> SCAN_ARG list \<Rightarrow> int \<Rightarrow> 'd SCANNED list \<Rightarrow> SEXPR_ERROR + int \<times> 'd SCANNED list" where
  "scan_loop D t [] i written = Inr (i, written)"
| "scan_loop D t (arg # args) i written =
    (case GetChild t i of Inl e \<Rightarrow> Inl e
     | Inr child \<Rightarrow>
        (case scan_arg D arg child of
           Inl (INVALID_TYPE_EXCEPTION _) \<Rightarrow> Inr (i, written)
         | Inl e \<Rightarrow> Inl e
         | Inr None \<Rightarrow> Inr (i, written)
         | Inr (Some w) \<Rightarrow> scan_loop D t args (i + 1) (written @ [w])))"

definition doScan :: "'d NUMBERS \<Rightarrow> 'd SEXPR \<Rightarrow> SCAN_ARG list \<Rightarrow> SEXPR_ERROR + int \<times> 'd SCANNED list" where
  "doScan D t args = scan_loop D t args 0 []"

end
