(* ===== verification/Sexpr_Props.thy ===== *)
theory Sexpr_Props
  imports Sexpr
begin

text \<open>
  Properties of \<open>libs/sexpr\<close>: the accessors and their types, the parser returns for every text, what it makes
  is well formed, and what is printed is read back.
\<close>

subsection \<open>The parser returns\<close>

definition parse_errors :: "SEXPR_ERROR set" where
  "parse_errors = {PARSE_EXCEPTION ''missing closing quote'', PARSE_EXCEPTION ''format error''}"

definition starts_item :: "string \<Rightarrow> bool" where
  "starts_item it \<longleftrightarrow> it \<noteq> [] \<and> hd it \<notin> set whitespaceCharacters \<and> hd it \<noteq> CHR '')''"

fun tree_result :: "string \<Rightarrow> SEXPR_ERROR + 'd SEXPR option \<times> string \<times> nat \<Rightarrow> bool" where
  "tree_result it (Inl e) \<longleftrightarrow> e \<in> parse_errors"
| "tree_result it (Inr (t, rest, line)) \<longleftrightarrow> length rest \<le> length it \<and> (t \<noteq> None \<longrightarrow> length rest < length it) \<and>
    (starts_item it \<longrightarrow> t \<noteq> None)"

fun children_result :: "string \<Rightarrow> SEXPR_ERROR + 'd SEXPR list \<times> string \<times> nat \<Rightarrow> bool" where
  "children_result it (Inl e) \<longleftrightarrow> e \<in> parse_errors"
| "children_result it (Inr (cs, rest, line)) \<longleftrightarrow> length rest \<le> length it"

lemma quoted_loop_shorter: "quoted_loop s = Some (t, r) \<Longrightarrow> length r < length s"
proof (induction s arbitrary: t r rule: quoted_loop.induct)
  case (2 ch it)
  show ?case using "2.prems" "2.IH"(1) "2.IH"(2)
    by (fastforce split: if_splits list.splits)
qed simp

lemma dropWhile_shorter: "s \<noteq> [] \<Longrightarrow> \<not> P (hd s) \<or> length (dropWhile P s) < length s"
  by (cases s) (auto simp: less_Suc_eq_le length_dropWhile_le)

lemma delimiter_parts:
  "c \<in> set whitespaceCharacters \<Longrightarrow> is_delimiter c" "is_delimiter (CHR ''('')" "is_delimiter (CHR '')'')"
  "is_delimiter c \<Longrightarrow> c \<in> set whitespaceCharacters \<or> c = CHR ''('' \<or> c = CHR '')''"
  by (auto simp: is_delimiter_def)

lemma parse_total:
  "(2 * length it + 1 \<le> n \<longrightarrow> (\<exists>r. parseString D n it line = Some r \<and> tree_result it r)) \<and>
   (2 * length it + 2 \<le> n \<longrightarrow> (\<exists>r. parse_children D n it line cs = Some r \<and> children_result it r))"
proof (induction n arbitrary: it line cs)
  case (Suc n)
  have tree: "\<exists>r. parseString D (Suc n) it line = Some r \<and> tree_result it r" if fuel: "2 * length it + 1 \<le> Suc n"
  proof (cases it)
    case (Cons ch rest)
    define line' where "line' = (if ch = newline then line + 1 else line)"
    consider (ws) "ch \<in> set whitespaceCharacters"
      | (paren) "ch = CHR ''(''" "ch \<notin> set whitespaceCharacters"
      | (close) "ch = CHR '')''" "ch \<notin> set whitespaceCharacters"
      | (quoted) "ch = dquote" "ch \<notin> set whitespaceCharacters" "ch \<noteq> CHR ''(''" "ch \<noteq> CHR '')''"
      | (atom) "\<not> is_delimiter ch" "ch \<noteq> dquote"
      using delimiter_parts(4) by blast
    then show ?thesis
    proof cases
      case ws
      obtain r where "parseString D n rest line' = Some r" "tree_result rest r"
        using Suc.IH [of rest line'] fuel Cons by auto
      then show ?thesis using ws Cons by (cases r) (auto simp: line'_def starts_item_def)
    next
      case paren
      obtain r where "parse_children D n rest line' [] = Some r" "children_result rest r"
        using Suc.IH [of rest line' "[]"] fuel Cons by auto
      then show ?thesis using paren Cons by (cases r) (auto simp: line'_def Let_def)
    next
      case close
      then show ?thesis using Cons by (auto simp: Let_def starts_item_def)
    next
      case quoted
      then show ?thesis using Cons quoted_loop_shorter [of rest]
        by (cases "quoted_loop rest") (auto simp: Let_def parse_errors_def less_Suc_eq)
    next
      case atom
      then have "ch \<notin> set whitespaceCharacters" "ch \<noteq> CHR ''(''" "ch \<noteq> CHR '')''"
        using delimiter_parts by blast+
      moreover have "length (dropWhile (\<lambda>c. \<not> is_delimiter c) it) < length it" using dropWhile_shorter [of it] atom Cons by auto
      ultimately show ?thesis using atom Cons by (auto simp: Let_def parse_errors_def)
    qed
  qed (auto simp: starts_item_def)
  have children: "\<exists>r. parse_children D (Suc n) it line cs = Some r \<and> children_result it r" if fuel: "2 * length it + 2 \<le> Suc n"
  proof (cases it)
    case (Cons ch rest)
    define line' where "line' = (if ch = newline then line + 1 else line)"
    consider (close) "ch = CHR '')''" | (ws) "ch \<noteq> CHR '')''" "ch \<in> set whitespaceCharacters"
      | (item) "ch \<noteq> CHR '')''" "ch \<notin> set whitespaceCharacters" by blast
    then show ?thesis
    proof cases
      case close
      then show ?thesis using Cons by simp
    next
      case ws
      obtain r where "parse_children D n rest line' cs = Some r" "children_result rest r"
        using Suc.IH [of rest line' cs] fuel Cons by auto
      then show ?thesis using ws Cons by (cases r) (auto simp: line'_def)
    next
      case item
      obtain r where r: "parseString D n it line' = Some r" "tree_result it r"
        using Suc.IH [of it line'] fuel by auto
      have start: "starts_item it" using item Cons by (simp add: starts_item_def)
      show ?thesis
      proof (cases r)
        case (Inl e)
        then show ?thesis using r item Cons by (simp add: line'_def)
      next
        case (Inr x)
        then obtain t rest' l where x: "x = (Some t, rest', l)" "length rest' < length it" using r(2) start by (cases x) auto
        obtain r' where "parse_children D n rest' l (cs @ [t]) = Some r'" "children_result rest' r'"
          using Suc.IH [of rest' l "cs @ [t]"] fuel x(2) by auto
        then show ?thesis using r(1) Inr x item Cons by (cases r') (auto simp: line'_def)
      qed
    qed
  qed simp
  show ?case using tree children by blast
qed simp

lemma parse_enough: "2 * length it + 1 \<le> n \<Longrightarrow> \<exists>r. parseString D n it line = Some r \<and> tree_result it r"
  using parse_total by blast

text \<open>More fuel changes nothing.\<close>

lemma parse_more:
  "(parseString D n it line = Some r \<longrightarrow> parseString D (Suc n) it line = Some r) \<and>
   (parse_children D n it line cs = Some s \<longrightarrow> parse_children D (Suc n) it line cs = Some s)"
proof (induction n arbitrary: it line cs r s)
  case (Suc n)
  have T: "parseString D n it line = Some r \<Longrightarrow> parseString D (Suc n) it line = Some r" for it line r using Suc.IH by blast
  have C: "parse_children D n it line cs = Some s \<Longrightarrow> parse_children D (Suc n) it line cs = Some s" for it line cs s using Suc.IH by blast
  have "parseString D (Suc (Suc n)) it line = Some r" if a: "parseString D (Suc n) it line = Some r"
  proof (cases it)
    case (Cons ch rest)
    define line' where "line' = (if ch = newline then line + 1 else line)"
    consider (ws) "ch \<in> set whitespaceCharacters"
      | (paren) "ch = CHR ''(''" "ch \<notin> set whitespaceCharacters"
      | (other) "ch \<noteq> CHR ''(''" "ch \<notin> set whitespaceCharacters" by blast
    then show ?thesis
    proof cases
      case ws
      then have step: "parseString D (Suc k) it line = parseString D k rest line'" for k by (simp add: Cons line'_def)
      show ?thesis using a T unfolding step by blast
    next
      case paren
      then have step: "parseString D (Suc k) it line = (case parse_children D k rest line [] of None \<Rightarrow> None
            | Some (Inl e) \<Rightarrow> Some (Inl e)
            | Some (Inr (cs, rest', line'')) \<Rightarrow> Some (Inr (Some (SEXPR_LIST line 0 cs), rest', line'')))" for k
        by (simp add: Cons newline_def Let_def)
      obtain x where x: "parse_children D n rest line [] = Some x" using a unfolding step by (cases "parse_children D n rest line []") auto
      show ?thesis using a unfolding step x C [OF x] .
    next
      case other
      then have "parseString D (Suc k) it line = parseString D (Suc 0) it line" for k by (simp add: Cons Let_def)
      then show ?thesis using a by metis
    qed
  qed (use a in simp)
  moreover have "parse_children D (Suc (Suc n)) it line cs = Some s" if a: "parse_children D (Suc n) it line cs = Some s"
  proof (cases it)
    case (Cons ch rest)
    define line' where "line' = (if ch = newline then line + 1 else line)"
    consider (close) "ch = CHR '')''" | (ws) "ch \<noteq> CHR '')''" "ch \<in> set whitespaceCharacters"
      | (item) "ch \<noteq> CHR '')''" "ch \<notin> set whitespaceCharacters" by blast
    then show ?thesis
    proof cases
      case close
      then show ?thesis using a by (simp add: Cons)
    next
      case ws
      then have step: "parse_children D (Suc k) it line cs = parse_children D k rest line' cs" for k by (simp add: Cons line'_def)
      show ?thesis using a C unfolding step by blast
    next
      case item
      then have step: "parse_children D (Suc k) it line cs = (case parseString D k it line' of None \<Rightarrow> None
              | Some (Inl e) \<Rightarrow> Some (Inl e)
              | Some (Inr (None, rest', line')) \<Rightarrow> Some (Inl No_Child)
              | Some (Inr (Some item, rest', line')) \<Rightarrow> parse_children D k rest' line' (cs @ [item]))" for k
        by (simp add: Cons line'_def)
      obtain x where x: "parseString D n it line' = Some x" using a unfolding step by (cases "parseString D n it line'") auto
      note x' = T [OF x]
      show ?thesis using a unfolding step x x' by (auto simp del: parse_children.simps split: sum.splits option.splits dest: C)
    qed
  qed (use a in simp)
  ultimately show ?case by blast
qed simp

lemma parse_mono:
  "parseString D n it line = Some r \<Longrightarrow> n \<le> m \<Longrightarrow> parseString D m it line = Some r"
  "parse_children D n it line cs = Some s \<Longrightarrow> n \<le> m \<Longrightarrow> parse_children D m it line cs = Some s"
  by (induction m) (auto simp: le_Suc_eq parse_more simp del: parseString.simps parse_children.simps)

subsection \<open>Steps of the parser\<close>

definition yields :: "'d NUMBERS \<Rightarrow> string \<Rightarrow> nat \<Rightarrow> 'd SEXPR \<Rightarrow> string \<Rightarrow> nat \<Rightarrow> bool" where
  "yields D it line t rest line' \<longleftrightarrow> (\<exists>n. parseString D n it line = Some (Inr (Some t, rest, line')))"

definition yields_children :: "'d NUMBERS \<Rightarrow> string \<Rightarrow> nat \<Rightarrow> 'd SEXPR list \<Rightarrow> 'd SEXPR list \<Rightarrow> string \<Rightarrow> nat \<Rightarrow> bool" where
  "yields_children D it line cs cs' rest line' \<longleftrightarrow> (\<exists>n. parse_children D n it line cs = Some (Inr (cs', rest, line')))"

lemma yieldsI: "parseString D n it line = Some (Inr (Some t, rest, line')) \<Longrightarrow> yields D it line t rest line'"
  by (auto simp: yields_def)

lemma yields_childrenI: "parse_children D n it line cs = Some (Inr (cs', rest, line')) \<Longrightarrow> yields_children D it line cs cs' rest line'"
  by (auto simp: yields_children_def)

lemma paren_plain:
  "CHR ''('' \<notin> set whitespaceCharacters" "CHR '')'' \<notin> set whitespaceCharacters" "dquote \<notin> set whitespaceCharacters"
  "CHR ''('' \<noteq> newline" "dquote \<noteq> newline" "dquote \<noteq> CHR ''(''" "dquote \<noteq> CHR '')''" "CHR '')'' \<noteq> newline"
  by (auto simp: whitespaceCharacters_def char_defs)

lemma yields_list:
  assumes "yields_children D it line [] cs rest line'"
  shows "yields D (CHR ''('' # it) line (SEXPR_LIST line 0 cs) rest line'"
proof -
  obtain n where "parse_children D n it line [] = Some (Inr (cs, rest, line'))" using assms by (auto simp: yields_children_def)
  then show ?thesis by (intro yieldsI [of D "Suc n"]) (simp add: paren_plain)
qed

lemma yields_string: "quoted_loop it = Some (s, rest) \<Longrightarrow> yields D (dquote # it) line (SEXPR_STRING line s) rest line"
  by (intro yieldsI [of D "Suc 0"]) (simp add: paren_plain)

lemma takeWhile_delimited:
  assumes "list_all (\<lambda>c. \<not> is_delimiter c) a" "rest \<noteq> []" "is_delimiter (hd rest)"
  shows "takeWhile (\<lambda>c. \<not> is_delimiter c) (a @ rest) = a" "dropWhile (\<lambda>c. \<not> is_delimiter c) (a @ rest) = rest"
  using assms by (cases rest; simp add: list_all_iff takeWhile_append dropWhile_append)+

lemma yields_atom:
  assumes a: "list_all (\<lambda>c. \<not> is_delimiter c) a" "a \<noteq> []" "hd a \<noteq> dquote" and r: "rest \<noteq> []" "is_delimiter (hd rest)"
  shows "yields D (a @ rest) line (atom_of D a line) rest line"
proof -
  obtain c a' where c: "a = c # a'" using a(2) by (cases a) auto
  then have "\<not> is_delimiter c" using a(1) by simp
  then have "c \<notin> set whitespaceCharacters" "c \<noteq> CHR ''(''" "c \<noteq> CHR '')''" using delimiter_parts by blast+
  moreover have "c \<noteq> newline" using calculation by (auto simp: whitespaceCharacters_def)
  ultimately show ?thesis
    using takeWhile_delimited [OF a(1) r] a(3) r(1) c
    by (intro yieldsI [of D "Suc 0"]) (auto simp: Let_def simp del: takeWhile.simps dropWhile.simps)
qed

lemma children_end: "yields_children D (CHR '')'' # it) line cs cs it line"
  by (intro yields_childrenI [of D "Suc 0"]) simp

lemma children_blanks:
  "set w \<subseteq> set whitespaceCharacters \<Longrightarrow>
    yields_children D it (line + length (filter (\<lambda>c. c = newline) w)) cs cs' rest line' \<Longrightarrow>
    yields_children D (w @ it) line cs cs' rest line'"
proof (induction w arbitrary: line)
  case (Cons c w)
  have c: "c \<in> set whitespaceCharacters" "c \<noteq> CHR '')''" using Cons.prems by (auto simp: whitespaceCharacters_def char_defs)
  define d where "d = (if c = newline then 1 else 0 :: nat)"
  have "yields_children D (w @ it) (line + d) cs cs' rest line'"
    using Cons.IH [of "line + d"] Cons.prems by (simp add: d_def split: if_splits)
  then obtain n where n: "parse_children D n (w @ it) (line + d) cs = Some (Inr (cs', rest, line'))" by (auto simp: yields_children_def)
  show ?case by (intro yields_childrenI [of D "Suc n"]) (use c n in \<open>auto simp: d_def\<close>)
qed simp

lemma children_item:
  assumes it: "starts_item it" and item: "yields D it line t rest line'" and more: "yields_children D rest line' (cs @ [t]) cs' rest' line''"
  shows "yields_children D it line cs cs' rest' line''"
proof -
  obtain m n where "parseString D m it line = Some (Inr (Some t, rest, line'))" "parse_children D n rest line' (cs @ [t]) = Some (Inr (cs', rest', line''))"
    using item more by (auto simp: yields_def yields_children_def)
  then have "parseString D (m + n) it line = Some (Inr (Some t, rest, line'))" "parse_children D (m + n) rest line' (cs @ [t]) = Some (Inr (cs', rest', line''))"
    using parse_mono(1) [of D m it line _ "m + n"] parse_mono(2) [of D n rest line' "cs @ [t]" _ "m + n"] by auto
  moreover obtain c it' where "it = c # it'" "c \<notin> set whitespaceCharacters" "c \<noteq> CHR '')''" using it by (cases it) (auto simp: starts_item_def)
  moreover then have "c \<noteq> newline" by (auto simp: whitespaceCharacters_def)
  ultimately show ?thesis by (intro yields_childrenI [of D "Suc (m + n)"]) simp
qed

subsection \<open>What is printed is read back\<close>

text \<open>A tree without its positions in the text and in the streams.\<close>

primrec bare :: "'d SEXPR \<Rightarrow> 'd SEXPR" where
  "bare (SEXPR_LIST n k cs) = SEXPR_LIST 0 0 (map bare cs)"
| "bare (SEXPR_INTEGER n v) = SEXPR_INTEGER 0 v"
| "bare (SEXPR_DOUBLE n v) = SEXPR_DOUBLE 0 v"
| "bare (SEXPR_STRING n s) = SEXPR_STRING 0 s"
| "bare (SEXPR_SYMBOL n s) = SEXPR_SYMBOL 0 s"

text \<open>The texts an atom can have: what the parser makes has them.\<close>

primrec syntax_ok :: "'d SEXPR \<Rightarrow> bool" where
  "syntax_ok (SEXPR_LIST n k cs) \<longleftrightarrow> list_all (\<lambda>b. b) (map syntax_ok cs)"
| "syntax_ok (SEXPR_INTEGER n v) \<longleftrightarrow> - (2 ^ 63) \<le> v \<and> v < 2 ^ 63"
| "syntax_ok (SEXPR_DOUBLE n v) \<longleftrightarrow> True"
| "syntax_ok (SEXPR_STRING n s) \<longleftrightarrow> quoted_loop (s @ [dquote]) = Some (s, [])"
| "syntax_ok (SEXPR_SYMBOL n s) \<longleftrightarrow> s \<noteq> [] \<and> list_all (\<lambda>c. \<not> is_delimiter c) s \<and> hd s \<noteq> dquote \<and> \<not> is_number s"

text \<open>The numbers that print as themselves: integers of 32 bits, and doubles whose text is read as this double.\<close>

primrec numbers_ok :: "'d NUMBERS \<Rightarrow> 'd SEXPR \<Rightarrow> bool" where
  "numbers_ok D (SEXPR_LIST n k cs) \<longleftrightarrow> list_all (\<lambda>b. b) (map (numbers_ok D) cs)"
| "numbers_ok D (SEXPR_INTEGER n v) \<longleftrightarrow> - (2 ^ 31) \<le> v \<and> v < 2 ^ 31"
| "numbers_ok D (SEXPR_DOUBLE n v) \<longleftrightarrow> is_number (nu_show D v) \<and> CHR ''.'' \<in> set (nu_show D v) \<and> nu_strtod D (nu_show D v) = v"
| "numbers_ok D (SEXPR_STRING n s) \<longleftrightarrow> True"
| "numbers_ok D (SEXPR_SYMBOL n s) \<longleftrightarrow> True"

lemma number_char_plain: "number_char c \<Longrightarrow> \<not> is_delimiter c \<and> c \<noteq> dquote"
  by (auto simp: number_char_def is_digit_def is_delimiter_def whitespaceCharacters_def char_defs)

lemma is_number_plain:
  assumes "is_number a" "a \<noteq> []"
  shows "list_all (\<lambda>c. \<not> is_delimiter c) a" "hd a \<noteq> dquote"
proof -
  obtain c a' where c: "a = c # a'" using assms(2) by (cases a) auto
  then have "(number_char c \<or> c = CHR ''-'') \<and> list_all number_char a'" using assms(1) by (auto simp: is_number_def)
  moreover have "\<not> is_delimiter (CHR ''-'')" "CHR ''-'' \<noteq> dquote" by (auto simp: is_delimiter_def whitespaceCharacters_def char_defs)
  ultimately show "list_all (\<lambda>c. \<not> is_delimiter c) a" "hd a \<noteq> dquote"
    using number_char_plain unfolding c by (auto simp: list_all_iff)
qed

lemma dec_first: "hd (dec n) = CHR ''0'' \<Longrightarrow> n < 10"
proof (induction n rule: dec.induct)
  case (1 n)
  show ?case
  proof (cases "n < 10")
    case False
    then have "dec n = dec (n div 10) @ [char_of (48 + n mod 10)]" by (simp add: dec.simps)
    then have "hd (dec (n div 10)) = CHR ''0''" using 1(2) dec_digits [of "n div 10"] by simp
    then have "n div 10 < 10" using 1(1) False by blast
    then have "dec (n div 10) = [char_of (48 + n div 10)]" by (simp add: dec.simps)
    then have "(char_of (48 + n div 10) :: char) = CHR ''0''" using \<open>hd (dec (n div 10)) = _\<close> by simp
    then have "of_char (char_of (48 + n div 10) :: char) = (48 :: nat)" by simp
    then have "n div 10 = 0" using \<open>n div 10 < 10\<close> by simp
    then show ?thesis by simp
  qed simp
qed

lemma digit_value_nat: "digit_value c = int (of_char c) - 48"
  by (simp add: digit_value_def of_nat_of_char)

lemma digit_range: "is_digit c \<Longrightarrow> 0 \<le> digit_value c \<and> digit_value c < 10"
  by (auto simp: is_digit_def digit_value_nat)

lemma digits_in_base_dec: "digits_in_base 10 (dec n) = int n"
proof -
  have "takeWhile (\<lambda>c. digit_value c < 10) (dec n) = dec n"
    using dec_digits [of n] digit_range by (simp add: takeWhile_eq_all_conv)
  then have "digits_in_base 10 (dec n) = foldl (\<lambda>v c. 10 * v + digit_value c) 0 (dec n)" by (simp only: digits_in_base_def)
  then show ?thesis using dec_value [of n] by (simp add: digit_value_nat)
qed

lemma digits_of_dec: "(if dec n \<noteq> [] \<and> hd (dec n) = CHR ''0'' then digits_in_base 8 (dec n) else digits_in_base 10 (dec n)) = int n"
proof (cases "hd (dec n) = CHR ''0''")
  case True
  then have n: "n < 10" by (rule dec_first)
  have d: "dec n = [char_of (48 + n)]" by (subst dec.simps) (simp add: n)
  then have "of_char (char_of (48 + n) :: char) = (48 :: nat)" using True by simp
  then have "n = 0" using n by simp
  moreover have "dec 0 = ''0''" "digits_in_base 8 ''0'' = 0" by code_simp+
  ultimately show ?thesis by simp
next
  case False
  then show ?thesis by (simp add: digits_in_base_dec)
qed

lemma not_minus_dec: "hd (dec n) \<noteq> CHR ''-''" "dec n \<noteq> []"
  using dec_digits [of n] by (cases "dec n"; auto simp: is_digit_def)+

lemma strtoll0_show_int:
  assumes "- (2 ^ 63) \<le> v" "v < 2 ^ 63"
  shows "strtoll0 (show_int v) = v"
proof (cases "v < 0")
  case True
  then show ?thesis using assms unfolding strtoll0_def show_int_def Let_def
    by (simp only: if_True list.sel list.distinct not_False_eq_True simp_thms digits_of_dec)
next
  case False
  have "(dec (nat v) \<noteq> [] \<and> hd (dec (nat v)) = CHR ''-'') = False" using not_minus_dec [of "nat v"] by simp
  then show ?thesis using assms False unfolding strtoll0_def show_int_def Let_def by (simp only: if_False digits_of_dec)
qed

lemma show_int_number: "is_number (show_int v)" "CHR ''.'' \<notin> set (show_int v)" "show_int v \<noteq> []"
proof -
  have D: "list_all number_char (dec n)" "CHR ''.'' \<notin> set (dec n)" for n
    using dec_digits [of n] by (auto simp: list_all_iff number_char_def is_digit_def)
  show "is_number (show_int v)" using D not_minus_dec(2) by (auto simp: is_number_def show_int_def)
  show "CHR ''.'' \<notin> set (show_int v)" using D by (auto simp: show_int_def)
  show "show_int v \<noteq> []" using not_minus_dec(2) by (auto simp: show_int_def)
qed

lemma quoted_loop_append: "quoted_loop x = Some (s, r) \<Longrightarrow> quoted_loop (x @ y) = Some (s, r @ y)"
proof (induction x arbitrary: s r rule: quoted_loop.induct)
  case (2 ch it)
  show ?case using "2.prems" "2.IH"(1) "2.IH"(2) by (fastforce split: if_splits list.splits)
qed simp

definition pad :: "'d SEXPR \<Rightarrow> nat \<Rightarrow> string" where
  "pad t aLevel = (if IsList t then (if aLevel \<noteq> 0 then [newline] else []) @ replicate (aLevel * 2) CHR '' '' else [])"

definition body :: "'d NUMBERS \<Rightarrow> 'd SEXPR \<Rightarrow> nat \<Rightarrow> string" where
  "body D t aLevel =
    (case t of SEXPR_LIST n k cs \<Rightarrow> CHR ''('' # join_children (map (\<lambda>t. SEXPR_AsString D t (aLevel + 1)) cs) @ '')''
     | _ \<Rightarrow> SEXPR_AsString D t aLevel)"

lemma pad_body: "SEXPR_AsString D t aLevel = pad t aLevel @ body D t aLevel"
  by (cases t) (simp_all add: pad_def body_def comp_def)

lemma pad_blank: "set (pad t aLevel) \<subseteq> set whitespaceCharacters"
  by (auto simp: pad_def whitespaceCharacters_def)

lemma plain_start: "list_all (\<lambda>c. \<not> is_delimiter c) a \<Longrightarrow> a \<noteq> [] \<Longrightarrow> starts_item (a @ x)"
  by (cases a) (auto simp: starts_item_def is_delimiter_def)

lemma number_text:
  assumes "is_number a" "a \<noteq> []"
  shows "list_all (\<lambda>c. \<not> is_delimiter c) a" "hd a \<noteq> dquote" "starts_item (a @ x)"
  using is_number_plain [OF assms] plain_start assms(2) by auto

definition follows :: "'d SEXPR \<Rightarrow> string \<Rightarrow> bool" where
  "follows t rest \<longleftrightarrow> IsList t \<or> IsString t \<or> (rest \<noteq> [] \<and> is_delimiter (hd rest))"

definition reads_back :: "'d NUMBERS \<Rightarrow> 'd SEXPR \<Rightarrow> bool" where
  "reads_back D t \<longleftrightarrow> (\<forall>aLevel rest line. follows t rest \<longrightarrow> starts_item (body D t aLevel @ rest) \<and>
     (\<exists>t' line'. yields D (body D t aLevel @ rest) line t' rest line' \<and> bare t' = bare t))"

lemma reads_back_children:
  assumes "\<forall>c\<in>set cs. reads_back D c"
  shows "\<exists>cs' line'. yields_children D (join_children (map (\<lambda>t. SEXPR_AsString D t aLevel) cs) @ CHR '')'' # rest) line acc (acc @ cs') rest line' \<and>
    map bare cs' = map bare cs"
  using assms
proof (induction cs arbitrary: acc line)
  case Nil
  then show ?case using children_end [of D rest line acc] by auto
next
  case (Cons c cs)
  define tail' where "tail' = (if cs = [] then CHR '')'' # rest else CHR '' '' # join_children (map (\<lambda>t. SEXPR_AsString D t aLevel) cs) @ CHR '')'' # rest)"
  have printed: "join_children (map (\<lambda>t. SEXPR_AsString D t aLevel) (c # cs)) @ CHR '')'' # rest = pad c aLevel @ body D c aLevel @ tail'"
    by (cases cs) (simp_all add: tail'_def pad_body [of D c])
  have f: "follows c tail'" by (auto simp: follows_def tail'_def is_delimiter_def whitespaceCharacters_def)
  have "reads_back D c" using Cons.prems by simp
  then have start: "starts_item (body D c aLevel @ tail')" and
    item: "\<And>line. \<exists>t' line'. yields D (body D c aLevel @ tail') line t' tail' line' \<and> bare t' = bare c"
    using f unfolding reads_back_def by blast+
  have tail_children: "\<exists>cs' line'. yields_children D tail' line acc (acc @ cs') rest line' \<and> map bare cs' = map bare cs" for acc line
  proof (cases "cs = []")
    case True
    then show ?thesis using children_end [of D rest line acc] by (auto simp: tail'_def)
  next
    case False
    obtain cs' line' where c': "yields_children D (join_children (map (\<lambda>t. SEXPR_AsString D t aLevel) cs) @ CHR '')'' # rest) line acc (acc @ cs') rest line'"
      "map bare cs' = map bare cs" using Cons.IH [of line acc] Cons.prems by auto
    obtain n where n: "parse_children D n (join_children (map (\<lambda>t. SEXPR_AsString D t aLevel) cs) @ CHR '')'' # rest) line acc = Some (Inr (acc @ cs', rest, line'))"
      using c'(1) by (auto simp: yields_children_def)
    have "CHR '' '' \<in> set whitespaceCharacters" "CHR '' '' \<noteq> newline" by (simp_all add: whitespaceCharacters_def newline_def)
    then have "yields_children D tail' line acc (acc @ cs') rest line'"
      using n False by (intro yields_childrenI [of D "Suc n"]) (simp add: tail'_def)
    then show ?thesis using c'(2) by blast
  qed
  have after: "\<exists>cs' line'. yields_children D (body D c aLevel @ tail') line acc (acc @ cs') rest line' \<and> map bare cs' = map bare (c # cs)" for line
  proof -
    obtain t' l' where t': "yields D (body D c aLevel @ tail') line t' tail' l'" "bare t' = bare c" using item by blast
    obtain cs' l'' where cs': "yields_children D tail' l' (acc @ [t']) ((acc @ [t']) @ cs') rest l''" "map bare cs' = map bare cs"
      using tail_children by blast
    show ?thesis using children_item [OF start t'(1) cs'(1)] t'(2) cs'(2) by (intro exI [of _ "t' # cs'"] exI [of _ l'']) simp
  qed
  obtain cs' l where "yields_children D (body D c aLevel @ tail') (line + length (filter (\<lambda>c. c = newline) (pad c aLevel))) acc (acc @ cs') rest l"
    "map bare cs' = map bare (c # cs)" using after by blast
  then show ?case unfolding printed using children_blanks [OF pad_blank] by blast
qed

lemma reads_back_atom:
  assumes "list_all (\<lambda>c. \<not> is_delimiter c) a" "a \<noteq> []" "hd a \<noteq> dquote"
    "\<And>aLevel. body D t aLevel = a" "\<not> IsList t" "\<not> IsString t" "\<And>line. bare (atom_of D a line) = bare t"
  shows "reads_back D t"
  unfolding reads_back_def assms(4)
proof (intro allI impI conjI)
  fix rest line assume "follows t rest"
  then have "rest \<noteq> []" "is_delimiter (hd rest)" using assms(5,6) by (auto simp: follows_def)
  from yields_atom [OF assms(1-3) this] show "\<exists>t' line'. yields D (a @ rest) line t' rest line' \<and> bare t' = bare t"
    using assms(7) by blast
  show "starts_item (a @ rest)" by (rule plain_start [OF assms(1,2)])
qed

lemma reads_back_all: "syntax_ok t \<Longrightarrow> numbers_ok D t \<Longrightarrow> reads_back D t"
proof (induction t)
  case (SEXPR_LIST n k cs)
  have children: "\<forall>c\<in>set cs. reads_back D c" using SEXPR_LIST by (auto simp: list_all_iff)
  show ?case unfolding reads_back_def
  proof (intro allI impI conjI)
    fix aLevel rest line
    obtain cs' line' where c': "yields_children D (join_children (map (\<lambda>t. SEXPR_AsString D t (aLevel + 1)) cs) @ CHR '')'' # rest) line [] ([] @ cs') rest line'"
      "map bare cs' = map bare cs" using reads_back_children [OF children, of "aLevel + 1" rest line "[]"] by blast
    then show "\<exists>t' line'. yields D (body D (SEXPR_LIST n k cs) aLevel @ rest) line t' rest line' \<and> bare t' = bare (SEXPR_LIST n k cs)"
      using yields_list [of D _ line cs' rest line'] by (intro exI [of _ "SEXPR_LIST line 0 cs'"] exI [of _ line']) (simp add: body_def)
    show "starts_item (body D (SEXPR_LIST n k cs) aLevel @ rest)"
      by (simp add: body_def starts_item_def paren_plain)
  qed
next
  case (SEXPR_INTEGER n v)
  have "strtoll0 (show_int v) = v" using SEXPR_INTEGER by (intro strtoll0_show_int) auto
  moreover have "to_int32 v = v" using SEXPR_INTEGER by (intro to_int32_id) auto
  ultimately show ?case
    by (intro reads_back_atom [of "show_int v"] number_text [OF show_int_number(1,3)] show_int_number(3))
      (simp_all add: body_def atom_of_def show_int_number)
next
  case (SEXPR_DOUBLE n v)
  then have v: "is_number (nu_show D v)" "CHR ''.'' \<in> set (nu_show D v)" "nu_strtod D (nu_show D v) = v" "nu_show D v \<noteq> []" by auto
  then show ?case
    by (intro reads_back_atom [of "nu_show D v"] number_text [OF v(1,4)]) (simp_all add: body_def atom_of_def)
next
  case (SEXPR_STRING n s)
  then have q: "quoted_loop (s @ dquote # rest) = Some (s, rest)" for rest
    using quoted_loop_append [of "s @ [dquote]" s "[]" rest] by simp
  show ?case unfolding reads_back_def
  proof (intro allI impI conjI)
    fix aLevel rest line
    have "yields D (body D (SEXPR_STRING n s) aLevel @ rest) line (SEXPR_STRING line s) rest line"
      using yields_string [OF q, of D rest line] by (simp add: body_def)
    then show "\<exists>t' line'. yields D (body D (SEXPR_STRING n s) aLevel @ rest) line t' rest line' \<and> bare t' = bare (SEXPR_STRING n s)"
      by (intro exI [of _ "SEXPR_STRING line s"] exI [of _ line]) simp
    show "starts_item (body D (SEXPR_STRING n s) aLevel @ rest)" by (simp add: body_def starts_item_def paren_plain)
  qed
next
  case (SEXPR_SYMBOL n s)
  then show ?case by (intro reads_back_atom [of s]) (simp_all add: body_def atom_of_def)
qed

lemma Parse_yields: "yields D s line t rest line' \<Longrightarrow> Parse D s line = Some (Inr (Some t, line'))"
proof -
  assume "yields D s line t rest line'"
  then obtain n where n: "parseString D n s line = Some (Inr (Some t, rest, line'))" by (auto simp: yields_def)
  obtain r where "parseString D (2 * length s + 1) s line = Some r" using parse_total [where it = s and n = "2 * length s + 1"] by blast
  moreover then have "r = Inr (Some t, rest, line')"
    using n parse_mono(1) [of D _ s line _ "n + (2 * length s + 1)"] by (metis le_add1 le_add2 option.inject)
  ultimately show ?thesis by (simp add: Parse_def del: parseString.simps)
qed

lemma Parse_printed:
  assumes "syntax_ok t" "numbers_ok D t" "IsList t \<or> IsString t"
  shows "\<exists>t' line'. Parse D (SEXPR_AsString D t 0) line = Some (Inr (Some t', line')) \<and> bare t' = bare t"
proof -
  have "follows t []" using assms(3) by (auto simp: follows_def)
  then obtain t' line' where "yields D (body D t 0 @ []) line t' [] line'" "bare t' = bare t"
    using reads_back_all [OF assms(1,2)] unfolding reads_back_def by blast
  moreover have "SEXPR_AsString D t 0 = body D t 0" by (simp add: pad_body pad_def)
  ultimately show ?thesis using Parse_yields [of D "body D t 0" line t' "[]" line'] by auto
qed

subsection \<open>What the parser makes\<close>

lemma quoted_loop_ok: "quoted_loop x = Some (s, r) \<Longrightarrow> quoted_loop (s @ [dquote]) = Some (s, [])"
proof (induction x arbitrary: s r rule: quoted_loop.induct)
  case (2 ch it)
  have "bslash \<noteq> dquote" by (simp add: char_defs)
  then show ?case using "2.prems" "2.IH"(1) "2.IH"(2) by (fastforce split: if_splits list.splits)
qed simp

lemma digits_in_base_nonneg:
  assumes "0 \<le> b" "\<forall>c\<in>set s. 0 \<le> digit_value c"
  shows "0 \<le> digits_in_base b s"
proof -
  have "\<forall>c\<in>set t. 0 \<le> digit_value c \<Longrightarrow> 0 \<le> v \<Longrightarrow> 0 \<le> foldl (\<lambda>v c. b * v + digit_value c) v t" for v t
  proof (induction t arbitrary: v)
    case (Cons c t)
    then show ?case using Cons.IH [of "b * v + digit_value c"] mult_nonneg_nonneg [OF assms(1) Cons.prems(2)] by simp
  qed simp
  moreover have "\<forall>c\<in>set (takeWhile (\<lambda>c. digit_value c < b) s). 0 \<le> digit_value c" using assms(2) by (auto dest: set_takeWhileD)
  ultimately show ?thesis unfolding digits_in_base_def by blast
qed

lemma strtoll0_bounds:
  assumes "is_number s" "CHR ''.'' \<notin> set s"
  shows "- (2 ^ 63) \<le> strtoll0 s \<and> strtoll0 s < 2 ^ 63"
proof -
  define neg where "neg = (s \<noteq> [] \<and> hd s = CHR ''-'')"
  define t where "t = (if neg then tl s else s)"
  define v where "v = (if t \<noteq> [] \<and> hd t = CHR ''0'' then digits_in_base 8 t else digits_in_base 10 t)"
  have m: "\<not> number_char (CHR ''-'')" by (simp add: number_char_def is_digit_def)
  then have "list_all number_char t" using assms(1) unfolding is_number_def t_def neg_def
    by (cases s) (auto simp: list_all_iff)
  moreover have "CHR ''.'' \<notin> set t" using assms(2) by (cases s) (auto simp: t_def)
  ultimately have "\<forall>c\<in>set t. is_digit c" by (auto simp: list_all_iff number_char_def)
  then have "\<forall>c\<in>set t. 0 \<le> digit_value c" using digit_range by blast
  then have v: "0 \<le> v" unfolding v_def using digits_in_base_nonneg [of 8 t] digits_in_base_nonneg [of 10 t] by simp
  have "strtoll0 s = (if neg then max (- v) (- (2 ^ 63)) else min v (2 ^ 63 - 1))"
    by (simp only: strtoll0_def Let_def neg_def t_def v_def)
  then show ?thesis using v by auto
qed

lemma atom_of_ok:
  assumes "it = ch # rest" "\<not> is_delimiter ch" "ch \<noteq> dquote"
  shows "syntax_ok (atom_of D (takeWhile (\<lambda>c. \<not> is_delimiter c) it) line)"
proof -
  define tmp where "tmp = takeWhile (\<lambda>c. \<not> is_delimiter c) it"
  have tmp: "list_all (\<lambda>c. \<not> is_delimiter c) tmp" by (auto simp: tmp_def list_all_iff dest: set_takeWhileD)
  have "tmp \<noteq> []" "hd tmp \<noteq> dquote" using assms by (auto simp: tmp_def)
  moreover have "- (2 ^ 63) \<le> strtoll0 tmp \<and> strtoll0 tmp < 2 ^ 63" if "is_number tmp" "CHR ''.'' \<notin> set tmp"
    by (rule strtoll0_bounds [OF that])
  ultimately show ?thesis unfolding tmp_def [symmetric] using tmp by (simp add: atom_of_def)
qed

lemma parse_wellformed:
  "(parseString D n it line = Some (Inr (Some t, rest, l)) \<longrightarrow> syntax_ok t) \<and>
   (parse_children D n it line cs = Some (Inr (cs', rest, l)) \<longrightarrow> list_all syntax_ok cs \<longrightarrow> list_all syntax_ok cs')"
proof (induction n arbitrary: it line cs t cs' rest l)
  case (Suc n)
  have tree: "syntax_ok t" if a: "parseString D (Suc n) it line = Some (Inr (Some t, rest, l))"
  proof (cases it)
    case (Cons ch r)
    define line' where "line' = (if ch = newline then line + 1 else line)"
    consider (ws) "ch \<in> set whitespaceCharacters"
      | (paren) "ch = CHR ''(''" "ch \<notin> set whitespaceCharacters"
      | (close) "ch = CHR '')''" "ch \<notin> set whitespaceCharacters"
      | (quoted) "ch = dquote" "ch \<notin> set whitespaceCharacters" "ch \<noteq> CHR ''(''" "ch \<noteq> CHR '')''"
      | (atom) "\<not> is_delimiter ch" "ch \<noteq> dquote"
      using delimiter_parts(4) by blast
    then show ?thesis
    proof cases
      case ws
      then show ?thesis using a Suc.IH [of r line'] by (simp add: Cons line'_def)
    next
      case paren
      then obtain cs where "parse_children D n r line [] = Some (Inr (cs, rest, l))" "t = SEXPR_LIST line 0 cs"
        using a by (auto simp: Cons paren_plain Let_def split: option.splits sum.splits)
      moreover have "list_all syntax_ok ([] :: 'a SEXPR list)" by simp
      ultimately have "list_all syntax_ok cs" "t = SEXPR_LIST line 0 cs" using Suc.IH by blast+
      then show ?thesis by (simp add: list_all_iff)
    next
      case close
      then show ?thesis using a by (simp add: Cons paren_plain Let_def)
    next
      case quoted
      then obtain s where "quoted_loop r = Some (s, rest)" "t = SEXPR_STRING line s"
        using a by (auto simp: Cons paren_plain Let_def split: option.splits)
      then show ?thesis using quoted_loop_ok by simp
    next
      case atom
      then have "ch \<notin> set whitespaceCharacters" "ch \<noteq> CHR ''(''" "ch \<noteq> CHR '')''" using delimiter_parts by blast+
      then have "t = atom_of D (takeWhile (\<lambda>c. \<not> is_delimiter c) it) line'"
        using a atom unfolding Cons by (auto simp: Let_def line'_def simp del: takeWhile.simps dropWhile.simps split: if_splits)
      then show ?thesis using atom_of_ok [OF Cons atom] by simp
    qed
  qed (use a in simp)
  have children: "list_all syntax_ok cs'"
    if a: "parse_children D (Suc n) it line cs = Some (Inr (cs', rest, l))" "list_all syntax_ok cs"
  proof (cases it)
    case (Cons ch r)
    define line' where "line' = (if ch = newline then line + 1 else line)"
    consider (close) "ch = CHR '')''" | (ws) "ch \<noteq> CHR '')''" "ch \<in> set whitespaceCharacters"
      | (item) "ch \<noteq> CHR '')''" "ch \<notin> set whitespaceCharacters" by blast
    then show ?thesis
    proof cases
      case close
      then show ?thesis using a by (simp add: Cons)
    next
      case ws
      then show ?thesis using a Suc.IH by (auto simp: Cons line'_def split: if_splits)
    next
      case item
      then obtain x rest' l' where x: "parseString D n it line' = Some (Inr (Some x, rest', l'))"
        "parse_children D n rest' l' (cs @ [x]) = Some (Inr (cs', rest, l))"
        using a by (auto simp: Cons line'_def Let_def split: option.splits sum.splits)
      have "syntax_ok x" using Suc.IH x(1) by blast
      then have "list_all syntax_ok (cs @ [x])" using a(2) by simp
      then show ?thesis using Suc.IH x(2) by blast
    qed
  qed (use a in simp)
  show ?case using tree children by blast
qed simp

subsection \<open>Scanning what was added\<close>

text \<open>The argument of \<open>Scan\<close> that reads what an argument of \<open>AddChildren\<close> writes, and what it then holds.\<close>

fun scanner_of :: "'d CHILDREN_ARG \<Rightarrow> (SCAN_ARG \<times> 'd SCANNED) option" where
  "scanner_of (C_INT v) = Some (S_LONGINT, Wrote_Long v)"
| "scanner_of (C_LONGINT v) = Some (S_LONGINT, Wrote_Long v)"
| "scanner_of (C_DOUBLE v) = Some (S_DOUBLE, Wrote_Double v)"
| "scanner_of (C_STRING s) = Some (S_STRING, Wrote_String s)"
| "scanner_of (C_SEXPR_STRING symbol s) = Some (S_SEXPR_STRING symbol, Wrote_String s)"
| "scanner_of (C_SEXPR_ATOM t) = None"

lemma scan_arg_child: "scanner_of a = Some (arg, w) \<Longrightarrow> scan_arg D arg (arg_child a) = Inr (Some w)"
  by (cases a) auto

lemma doAddChildren_list: "doAddChildren args (SEXPR_LIST n k cs) = Inr (SEXPR_LIST n k (cs @ map arg_child args))"
  by (induction args arbitrary: cs) auto

lemma scan_loop_added:
  assumes "map scanner_of args = map Some scans" "t = SEXPR_LIST n k (cs @ map arg_child args)" "i = int (length cs)"
  shows "scan_loop D t (map fst scans) i written = Inr (i + int (length args), written @ map snd scans)"
  using assms
proof (induction args arbitrary: cs scans i written)
  case (Cons a args)
  then obtain arg w scans' where s: "scans = (arg, w) # scans'" "scanner_of a = Some (arg, w)" "map scanner_of args = map Some scans'"
    by (cases scans) auto
  have "GetChild t i = Inr (arg_child a)" using Cons.prems by (simp add: nth_append)
  then show ?case
    using Cons.IH [of scans' "cs @ [arg_child a]" "i + 1" "written @ [w]"] Cons.prems s scan_arg_child [OF s(2)] by simp
qed simp

text \<open>The parser returns a null pointer just for blanks, and for a parenthesis that closes nothing.\<close>

lemma parse_null:
  "parseString D n it line = Some (Inr (t, rest, l)) \<Longrightarrow>
   t = None \<longleftrightarrow> (case dropWhile (\<lambda>c. c \<in> set whitespaceCharacters) it of [] \<Rightarrow> True | c # _ \<Rightarrow> c = CHR '')'')"
proof (induction n arbitrary: it line)
  case (Suc n)
  show ?case
  proof (cases it)
    case (Cons ch r)
    show ?thesis
    proof (cases "ch \<in> set whitespaceCharacters")
      case True
      then show ?thesis using Suc Cons by (auto simp: Let_def)
    next
      case ch: False
      show ?thesis
      proof (cases "ch = CHR '')''")
        case True
        then have "t = None" using Suc.prems ch by (simp add: Cons paren_plain Let_def)
        then show ?thesis using True ch by (simp add: Cons)
      next
        case False
        then have "starts_item it" using ch by (simp add: starts_item_def Cons)
        moreover have "tree_result it (Inr (t, rest, l))"
        proof -
          have "\<exists>x. parseString D (Suc n + 2 * length it + 1) it line = Some x \<and> tree_result it x" by (rule parse_enough) simp
          moreover have "parseString D (Suc n + 2 * length it + 1) it line = Some (Inr (t, rest, l))"
            by (rule parse_mono(1) [OF Suc.prems]) simp
          ultimately show ?thesis by (metis option.inject)
        qed
        ultimately show ?thesis using ch False by (simp add: Cons)
      qed
    qed
  qed (use Suc.prems in simp)
qed simp

subsection \<open>Properties\<close>

text \<open>
  C25: The parser returns for every text, nested however deeply, and in one of three ways: with a tree,
  with a null pointer exactly if the first character that is no blank is missing or closes a list, or
  with one of its two \<open>PARSE_EXCEPTION\<close>s. No null child is ever added to a list.
\<close>

theorem Parse_returns:
  "case Parse D s line of None \<Rightarrow> False
   | Some (Inl e) \<Rightarrow> e \<in> {PARSE_EXCEPTION ''missing closing quote'', PARSE_EXCEPTION ''format error''}
   | Some (Inr (t, line')) \<Rightarrow>
       t = None \<longleftrightarrow> (case dropWhile (\<lambda>c. c \<in> set whitespaceCharacters) s of [] \<Rightarrow> True | c # _ \<Rightarrow> c = CHR '')'')"
proof -
  obtain r where r: "parseString D (2 * length s + 1) s line = Some r" "tree_result s r"
    using parse_total [where it = s and n = "2 * length s + 1"] by blast
  show ?thesis
  proof (cases r)
    case (Inl e)
    then show ?thesis using r by (simp add: Parse_def parse_errors_def del: parseString.simps)
  next
    case (Inr x)
    obtain t rest l where x: "x = (t, rest, l)" by (cases x)
    have "t = None \<longleftrightarrow> (case dropWhile (\<lambda>c. c \<in> set whitespaceCharacters) s of [] \<Rightarrow> True | c # _ \<Rightarrow> c = CHR '')'')"
      using r(1) unfolding Inr x by (rule parse_null)
    then show ?thesis using r(1) by (simp add: Parse_def Inr x del: parseString.simps)
  qed
qed

text \<open>
  C26: What the parser makes is well formed: at every depth, symbols are not empty, hold no blank or
  parenthesis, do not start with a quote and do not read as numbers, strings hold no quote without a
  backslash, and integers fit into 64 bits.
\<close>

theorem Parse_wellformed:
  assumes "Parse D s line = Some (Inr (Some t, line'))"
  shows "syntax_ok t"
  using assms parse_wellformed [of D "2 * length s + 1" s line t _ line']
  by (auto simp: Parse_def simp del: parseString.simps split: option.splits sum.splits)

text \<open>Doubles in the examples are their own text.\<close>

definition D0 :: "string NUMBERS" where
  "D0 = \<lparr>nu_strtod = (\<lambda>s. s), nu_show = (\<lambda>s. s), nu_of_int = show_int, nu_float = (\<lambda>s. s)\<rparr>"

definition net_text :: string where
  "net_text = ''(net -12 ('' @ [dquote] @ ''a b'' @ [dquote] @ '' 2.50) )''"

definition net_tree :: "string SEXPR" where
  "net_tree = SEXPR_LIST 1 0 [SEXPR_SYMBOL 1 ''net'', SEXPR_INTEGER 1 (- 12),
     SEXPR_LIST 1 0 [SEXPR_STRING 1 ''a b'', SEXPR_DOUBLE 1 ''2.50'']]"

lemma net_parsed: "Parse D0 net_text 1 = Some (Inr (Some net_tree, 1))"
  by code_simp

theorem Parse_wellformed_witness: "syntax_ok net_tree"
  by (rule Parse_wellformed [OF net_parsed])

text \<open>
  C4: What \<open>AsString\<close> prints is read back: for a well-formed list or string whose integers have 32 bits
  and whose doubles print as text with a point that reads as the same double, parsing the printed text,
  with its line breaks and indentation, gives the same tree at other lines of the text.
\<close>

theorem Parse_AsString:
  assumes "syntax_ok t" "numbers_ok D t" "IsList t \<or> IsString t"
  shows "\<exists>t' line'. Parse D (SEXPR_AsString D t 0) line = Some (Inr (Some t', line')) \<and> bare t' = bare t"
  by (rule Parse_printed [OF assms])

theorem Parse_AsString_witness:
  "\<exists>t' line'. Parse D0 (SEXPR_AsString D0 net_tree 0) 1 = Some (Inr (Some t', line')) \<and> bare t' = bare net_tree"
  by (rule Parse_AsString) code_simp+

text \<open>
  \<open>Scan\<close> with the matching arguments reads from a list what \<open>AddChildren\<close> added to it: it counts them all
  and writes the same values, in order.
\<close>

theorem Scan_AddChildren:
  assumes "map scanner_of args = map Some scans"
  shows "\<exists>t. doAddChildren args (SEXPR_LIST n k []) = Inr t \<and>
    doScan D t (map fst scans) = Inr (int (length args), map snd scans)"
  using scan_loop_added [OF assms, of "SEXPR_LIST n k (map arg_child args)" n k "[]" 0 D "[]"]
  by (simp add: doAddChildren_list doScan_def)

theorem Scan_AddChildren_witness:
  "\<exists>t. doAddChildren [C_SEXPR_STRING True ''at'', C_LONGINT 5, C_DOUBLE ''1.5'', C_STRING ''x''] (SEXPR_LIST 1 0 []) = Inr t \<and>
    doScan D0 t (map fst [(S_SEXPR_STRING True, Wrote_String ''at''), (S_LONGINT, Wrote_Long 5), (S_DOUBLE, Wrote_Double ''1.5''),
        (S_STRING, Wrote_String ''x'')]) =
      Inr (int (length [C_SEXPR_STRING True ''at'', C_LONGINT 5, C_DOUBLE ''1.5'', C_STRING ''x'']),
        map snd [(S_SEXPR_STRING True, Wrote_String ''at''), (S_LONGINT, Wrote_Long 5), (S_DOUBLE, Wrote_Double ''1.5''),
        (S_STRING, Wrote_String ''x'')])"
  by (rule Scan_AddChildren) simp

subsection \<open>Examples\<close>

text \<open>A leading zero makes an integer octal, and \<open>09\<close> is 0.\<close>

lemma Parse_octal:
  "Parse D0 ''(010 09)'' 1 = Some (Inr (Some (SEXPR_LIST 1 0 [SEXPR_INTEGER 1 8, SEXPR_INTEGER 1 0]), 1))"
  by code_simp

text \<open>An atom at the end of the text is an error, a list that is not closed is not.\<close>

lemma Parse_ends:
  "Parse D0 ''net'' 1 = Some (Inl (PARSE_EXCEPTION ''format error''))"
  "Parse D0 ''(net '' 1 = Some (Inr (Some (SEXPR_LIST 1 0 [SEXPR_SYMBOL 1 ''net'']), 1))"
  by code_simp+

text \<open>Line ends inside quotes are not counted.\<close>

lemma Parse_lines:
  "map_option (\<lambda>r. case r of Inl _ \<Rightarrow> 0 | Inr (_, line) \<Rightarrow> line) (Parse D0 ([dquote, newline, newline, dquote]) 1) = Some 1"
  by code_simp

text \<open>Integers are printed with 32 bits.\<close>

lemma AsString_cuts: "SEXPR_AsString D0 (SEXPR_INTEGER 1 (2 ^ 32 + 7)) 0 = ''7''"
  by code_simp

text \<open>A quote in a string is printed as it is: the text is not read back.\<close>

lemma AsString_quote:
  "Parse D0 (SEXPR_AsString D0 (SEXPR_LIST 1 0 [SEXPR_STRING 1 (''a'' @ [dquote])]) 0) 1 = Some (Inl (PARSE_EXCEPTION ''missing closing quote''))"
  by code_simp

text \<open>The stream operator for text lets a symbol through its own check and then asks it for a string.\<close>

lemma in_string_symbol:
  "in_string (SEXPR_LIST 1 0 [SEXPR_SYMBOL 1 ''net''] :: string SEXPR) = Inl (INVALID_TYPE_EXCEPTION ''SEXPR is not a string type!'')"
  by code_simp

text \<open>\<open>Scan\<close> with a pointer to a 32-bit integer writes a double there.\<close>

lemma doScan_int:
  "doScan D0 (SEXPR_LIST 1 0 [SEXPR_INTEGER 1 7]) [S_INT] = Inr (1, [Wrote_Double ''7''])"
  by code_simp

end
