(* ===== verification/Dsn_Lexer.thy ===== *)
theory Dsn_Lexer
  imports Strings
begin

text \<open>
  \<open>common/dsnlexer.cpp\<close>, the token reader under the board, schematic and library formats, with the line readers
  and the output formatter of \<open>common/richio.cpp\<close>. The buffer from \<open>start\<close> to \<open>limit\<close> is the string \<open>cur_line\<close>, the
  pointer \<open>next\<close> an index into it; what a reader has not read yet is \<open>unread\<close>, the top of the stack of readers
  the first of a list. Exceptions are values; \<open>Lex_Undefined\<close> is a read through a pointer that points nowhere.
\<close>

subsection \<open>Tokens\<close>

definition DSN_NONE :: int where "DSN_NONE = - 11"
definition DSN_COMMENT :: int where "DSN_COMMENT = - 10"
definition DSN_STRING_QUOTE :: int where "DSN_STRING_QUOTE = - 9"
definition DSN_QUOTE_DEF :: int where "DSN_QUOTE_DEF = - 8"
definition DSN_DASH :: int where "DSN_DASH = - 7"
definition DSN_SYMBOL :: int where "DSN_SYMBOL = - 6"
definition DSN_NUMBER :: int where "DSN_NUMBER = - 5"
definition DSN_RIGHT :: int where "DSN_RIGHT = - 4"
definition DSN_LEFT :: int where "DSN_LEFT = - 3"
definition DSN_STRING :: int where "DSN_STRING = - 2"
definition DSN_EOF :: int where "DSN_EOF = - 1"

lemmas DSN_defs = DSN_NONE_def DSN_COMMENT_def DSN_STRING_QUOTE_def DSN_QUOTE_DEF_def DSN_DASH_def DSN_SYMBOL_def
  DSN_NUMBER_def DSN_RIGHT_def DSN_LEFT_def DSN_STRING_def DSN_EOF_def

text \<open>A parse error has its text, the line number and the offset.\<close>

datatype LEX_ERROR = PARSE_ERROR string nat nat | IO_ERROR string | Lex_Undefined

subsection \<open>Line readers\<close>

record LINE_READER =
  unread :: string
  m_lineNum :: nat
  m_maxLineLength :: int
  from_file :: bool

definition first_line :: "string \<Rightarrow> string" where
  "first_line s = takeWhile (\<lambda>c. c \<noteq> newline) s @ take 1 (dropWhile (\<lambda>c. c \<noteq> newline) s)"

text \<open>
  \<open>ReadLine\<close> of a reader of a file and of one of a string: both leave out nothing, but draw the limit of the
  length differently.
\<close>

definition ReadLine :: "LINE_READER \<Rightarrow> LEX_ERROR + string \<times> LINE_READER" where
  "ReadLine r =
    (let l = first_line (unread r);
         r' = r\<lparr>unread := drop (length l) (unread r), m_lineNum := m_lineNum r + 1\<rparr>
     in if from_file r then
          (if int (length l) > m_maxLineLength r \<or> (int (length l) = m_maxLineLength r \<and> (l = [] \<or> last l \<noteq> newline))
           then Inl (IO_ERROR ''Maximum line length exceeded'') else Inr (l, r'))
        else
          (if l \<noteq> [] \<and> int (length l) \<ge> m_maxLineLength r then Inl (IO_ERROR ''Line length exceeded'') else Inr (l, r')))"

definition STRING_LINE_READER :: "string \<Rightarrow> LINE_READER" where
  "STRING_LINE_READER aString = \<lparr>unread = aString, m_lineNum = 0, m_maxLineLength = 1000000, from_file = False\<rparr>"

definition FILE_LINE_READER :: "string \<Rightarrow> nat \<Rightarrow> int \<Rightarrow> LINE_READER" where
  "FILE_LINE_READER contents aStartingLineNumber aMaxLineLength =
    \<lparr>unread = contents, m_lineNum = aStartingLineNumber, m_maxLineLength = aMaxLineLength, from_file = True\<rparr>"

subsection \<open>The lexer\<close>

record LEXER =
  specctraMode :: bool
  stringDelimiter :: char
  space_in_quoted_tokens :: bool
  commentsAreTokens :: bool
  prevTok :: int
  curTok :: int
  curText :: string
  curOffset :: nat
  cur_line :: string
  next_pos :: nat
  next_loose :: bool
  readers :: "LINE_READER list"
  keyword_table :: "string list"
  keywordsLookup :: "(string \<times> int) list"

definition DSNLEXER :: "string list \<Rightarrow> (string \<times> int) list \<Rightarrow> LINE_READER option \<Rightarrow> LEXER" where
  "DSNLEXER aKeywordTable aKeywordMap aLineReader =
    \<lparr>specctraMode = False, stringDelimiter = dquote, space_in_quoted_tokens = False, commentsAreTokens = False,
     prevTok = DSN_NONE, curTok = DSN_NONE, curText = [], curOffset = 0, cur_line = [], next_pos = 0, next_loose = False,
     readers = (case aLineReader of None \<Rightarrow> [] | Some r \<Rightarrow> [r]), keyword_table = aKeywordTable, keywordsLookup = aKeywordMap\<rparr>"

definition SetSpecctraMode :: "bool \<Rightarrow> LEXER \<Rightarrow> LEXER" where
  "SetSpecctraMode aMode L =
    (if aMode then L\<lparr>specctraMode := True, space_in_quoted_tokens := True\<rparr>
     else L\<lparr>specctraMode := False, space_in_quoted_tokens := False, stringDelimiter := dquote\<rparr>)"

definition SetStringDelimiter :: "char \<Rightarrow> LEXER \<Rightarrow> char \<times> LEXER" where
  "SetStringDelimiter d L = (stringDelimiter L, if specctraMode L then L\<lparr>stringDelimiter := d\<rparr> else L)"

definition SetSpaceInQuotedTokens :: "bool \<Rightarrow> LEXER \<Rightarrow> bool \<times> LEXER" where
  "SetSpaceInQuotedTokens val L = (space_in_quoted_tokens L, if specctraMode L then L\<lparr>space_in_quoted_tokens := val\<rparr> else L)"

definition SetCommentsAreTokens :: "bool \<Rightarrow> LEXER \<Rightarrow> bool \<times> LEXER" where
  "SetCommentsAreTokens val L = (commentsAreTokens L, L\<lparr>commentsAreTokens := val\<rparr>)"

definition InitParserState :: "LEXER \<Rightarrow> LEXER" where
  "InitParserState L = L\<lparr>curTok := DSN_NONE, prevTok := DSN_NONE, commentsAreTokens := False, curOffset := 0\<rparr>"

text \<open>Both lexers have the same reader when \<open>same\<close> says so: readers are compared by address.\<close>

definition SyncLineReaderWith :: "bool \<Rightarrow> LEXER \<Rightarrow> LEXER \<Rightarrow> LEXER \<times> bool" where
  "SyncLineReaderWith same aLexer L =
    (if \<not> same then (L, False)
     else (L\<lparr>cur_line := cur_line aLexer, next_pos := next_pos aLexer, next_loose := next_loose aLexer,
             curText := curText aLexer, curOffset := curOffset aLexer, readers := readers aLexer\<rparr>, True))"

definition PushReader :: "LINE_READER \<Rightarrow> LEXER \<Rightarrow> LEXER" where
  "PushReader aLineReader L = L\<lparr>readers := aLineReader # readers L, cur_line := [], next_pos := 0, next_loose := False\<rparr>"

text \<open>With the last reader gone, \<open>start\<close> and \<open>limit\<close> are the dummy buffer and \<open>next\<close> stays where it was.\<close>

definition PopReader :: "LEXER \<Rightarrow> LINE_READER option \<times> LEXER" where
  "PopReader L =
    (case readers L of [] \<Rightarrow> (None, L)
     | [r] \<Rightarrow> (Some r, L\<lparr>readers := [], cur_line := [], next_loose := True\<rparr>)
     | r # s # rs \<Rightarrow> (Some r, L\<lparr>readers := s # rs, cur_line := [], next_pos := 0, next_loose := False\<rparr>))"

definition CurLineNumber :: "LEXER \<Rightarrow> nat option" where
  "CurLineNumber L = (case readers L of [] \<Rightarrow> None | r # _ \<Rightarrow> Some (m_lineNum r))"

definition CurOffset :: "LEXER \<Rightarrow> nat" where "CurOffset L = curOffset L + 1"

text \<open>\<open>THROW_PARSE_ERROR\<close> asks the reader for its source, line and number.\<close>

definition throw_at :: "LEXER \<Rightarrow> string \<Rightarrow> nat \<Rightarrow> LEX_ERROR" where
  "throw_at L msg offset = (case CurLineNumber L of None \<Rightarrow> Lex_Undefined | Some n \<Rightarrow> PARSE_ERROR msg n offset)"

definition findToken :: "LEXER \<Rightarrow> string \<Rightarrow> int" where
  "findToken L tok = (case map_of (keywordsLookup L) tok of Some t \<Rightarrow> t | None \<Rightarrow> DSN_SYMBOL)"

definition GetCurStrAsToken :: "LEXER \<Rightarrow> int" where "GetCurStrAsToken L = findToken L (curText L)"

definition Syntax :: "int \<Rightarrow> string" where
  "Syntax aTok =
    (if aTok = DSN_NONE then ''NONE'' else if aTok = DSN_STRING_QUOTE then ''string_quote''
     else if aTok = DSN_QUOTE_DEF then ''quoted text delimiter'' else if aTok = DSN_DASH then ''-''
     else if aTok = DSN_SYMBOL then ''symbol'' else if aTok = DSN_NUMBER then ''number''
     else if aTok = DSN_RIGHT then '')'' else if aTok = DSN_LEFT then ''(''
     else if aTok = DSN_STRING then ''quoted string'' else if aTok = DSN_EOF then ''end of input'' else ''???'')"

definition GetTokenText :: "LEXER \<Rightarrow> int \<Rightarrow> string" where
  "GetTokenText L aTok =
    (if aTok < 0 then Syntax aTok else if aTok < int (length (keyword_table L)) then keyword_table L ! nat aTok else ''token too big'')"

definition GetTokenString :: "LEXER \<Rightarrow> int \<Rightarrow> string" where
  "GetTokenString L aTok = [squote] @ GetTokenText L aTok @ [squote]"

definition lexer_IsSymbol :: "int \<Rightarrow> bool" where
  "lexer_IsSymbol aTok \<longleftrightarrow> aTok = DSN_SYMBOL \<or> aTok = DSN_STRING \<or> aTok \<ge> 0"

subsection \<open>Characters and numbers\<close>

definition isSpace :: "char \<Rightarrow> bool" where
  "isSpace cc \<longleftrightarrow> cc = CHR '' '' \<or> cc = newline \<or> cc = creturn \<or> cc = tab \<or> cc = CHR 0x00"

definition isSep :: "char \<Rightarrow> bool" where
  "isSep cc \<longleftrightarrow> isSpace cc \<or> cc = CHR ''('' \<or> cc = CHR '')''"

definition skip_sign :: "string \<Rightarrow> string" where
  "skip_sign s = (if s \<noteq> [] \<and> (hd s = CHR ''-'' \<or> hd s = CHR ''+'') then tl s else s)"

definition isNumber :: "string \<Rightarrow> bool" where
  "isNumber s =
    (let cp = skip_sign s;
         d1 = takeWhile is_digit cp; cp = dropWhile is_digit cp;
         point = (cp \<noteq> [] \<and> hd cp = CHR ''.'');
         d2 = (if point then takeWhile is_digit (tl cp) else []);
         cp = (if point then dropWhile is_digit (tl cp) else cp);
         sawNumber = (d1 \<noteq> [] \<or> d2 \<noteq> [])
     in if sawNumber \<and> cp \<noteq> [] \<and> (hd cp = CHR ''E'' \<or> hd cp = CHR ''e'') then
          (let cp = skip_sign (tl cp) in takeWhile is_digit cp \<noteq> [] \<and> dropWhile is_digit cp = [])
        else sawNumber \<and> cp = [])"

definition isxdigit :: "char \<Rightarrow> bool" where
  "isxdigit c \<longleftrightarrow> is_digit c \<or> (97 \<le> (of_char c :: nat) \<and> (of_char c :: nat) \<le> 102) \<or> (65 \<le> (of_char c :: nat) \<and> (of_char c :: nat) \<le> 70)"

definition xdigit_value :: "char \<Rightarrow> nat" where
  "xdigit_value c = (if is_digit c then of_char c - 48 else if (of_char c :: nat) \<ge> 97 then of_char c - 87 else of_char c - 55)"

definition is_octal :: "char \<Rightarrow> bool" where
  "is_octal c \<longleftrightarrow> 48 \<le> (of_char c :: nat) \<and> (of_char c :: nat) \<le> 55"

text \<open>\<open>(char) strtoul( tbuf, nullptr, base )\<close>.\<close>

definition digits_char :: "nat \<Rightarrow> string \<Rightarrow> char" where
  "digits_char base ds = char_of (foldl (\<lambda>v c. base * v + xdigit_value c) 0 ds mod 256)"

subsection \<open>Reading a token\<close>

text \<open>
  The character an escape sequence stands for, and what follows it: \<open>d\<close> is the character behind the
  backslash and \<open>t\<close> what comes then. A sequence that is none of those known is a backslash and \<open>d\<close> is read again.
\<close>

definition escape_sequence :: "char \<Rightarrow> string \<Rightarrow> char \<times> string" where
  "escape_sequence d t =
    (if d = dquote \<or> d = bslash then (d, t)
     else if d = CHR ''a'' then (CHR 0x07, t)
     else if d = CHR ''b'' then (CHR 0x08, t)
     else if d = CHR ''f'' then (CHR 0x0C, t)
     else if d = CHR ''n'' then (newline, t)
     else if d = CHR ''r'' then (creturn, t)
     else if d = CHR ''t'' then (tab, t)
     else if d = CHR ''v'' then (CHR 0x0B, t)
     else if d = CHR ''x'' then
       (let tbuf = takeWhile isxdigit (take 2 t)
        in (if tbuf \<noteq> [] then digits_char 16 tbuf else CHR ''x'', drop (length tbuf) t))
     else
       (let tbuf = takeWhile is_octal (take 3 (d # t))
        in (if tbuf \<noteq> [] then digits_char 8 tbuf else bslash, drop (length tbuf) (d # t))))"

lemma escape_sequence_length: "length (snd (escape_sequence d t)) \<le> length t + 1"
  by (auto simp: escape_sequence_def Let_def)

text \<open>
  The loop over a quoted text, from the character behind the opening quote: what it stands for and what
  follows the closing quote, or, when the line ends before, what was read so far.
\<close>

function unquote :: "string \<Rightarrow> string \<Rightarrow> string + string \<times> string" where
  "unquote got [] = Inl got"
| "unquote got (c # head) =
    (if c = bslash then
       (case head of [] \<Rightarrow> Inl got
        | d # t \<Rightarrow> unquote (got @ [fst (escape_sequence d t)]) (snd (escape_sequence d t)))
     else if c = dquote then Inr (got, head)
     else unquote (got @ [c]) head)"
  by pat_completeness auto
termination
proof (relation "measure (\<lambda>(a, s). length s)", simp_all, goal_cases)
  case (1 c head d t)
  then show ?case using escape_sequence_length by (simp add: le_imp_less_Suc)
qed

definition isStringTerminator :: "LEXER \<Rightarrow> char \<Rightarrow> bool" where
  "isStringTerminator L cc \<longleftrightarrow> (\<not> space_in_quoted_tokens L \<and> cc = CHR '' '') \<or> cc = stringDelimiter L"

definition delimiter_error :: string where
  "delimiter_error = ''String delimiter must be a single character of '' @ [squote] @ '', '' @ [dquote] @ '', or $''"

text \<open>The exit of \<open>NextTok\<close>: \<open>cur\<close> and \<open>head\<close> are indices into the line.\<close>

definition exit_token :: "int \<Rightarrow> string \<Rightarrow> nat \<Rightarrow> nat \<Rightarrow> LEXER \<Rightarrow> int \<times> LEXER" where
  "exit_token tok t cur head L = (tok, L\<lparr>curTok := tok, curText := t, curOffset := cur, next_pos := head\<rparr>)"

definition plain_token :: "nat \<Rightarrow> LEXER \<Rightarrow> int \<times> LEXER" where
  "plain_token cur L =
    (let w = takeWhile (\<lambda>c. \<not> isSep c) (drop cur (cur_line L));
         tok = (if isNumber w then DSN_NUMBER
                else if specctraMode L \<and> w = ''string_quote'' then DSN_STRING_QUOTE else findToken L w)
     in exit_token tok w cur (cur + length w) L)"

definition specctra_token :: "nat \<Rightarrow> LEXER \<Rightarrow> LEX_ERROR + int \<times> LEXER" where
  "specctra_token cur L =
    (let c = cur_line L ! cur; after = drop (cur + 1) (cur_line L) in
     if c = CHR ''-'' \<and> cur > 0 \<and> \<not> isSpace (cur_line L ! (cur - 1)) then Inr (exit_token DSN_DASH [c] cur (cur + 1) L)
     else if prevTok L = DSN_STRING_QUOTE then
       (if c \<noteq> squote \<and> c \<noteq> CHR ''$'' \<and> c \<noteq> dquote then Inl (throw_at L delimiter_error (CurOffset L))
        else if after \<noteq> [] \<and> \<not> isSep (hd after) then Inl (throw_at L delimiter_error (CurOffset L))
        else Inr (exit_token DSN_QUOTE_DEF [c] cur (cur + 1) L))
     else if c = stringDelimiter L then
       (let w = takeWhile (\<lambda>c. \<not> isStringTerminator L c) after in
        if length w = length after then Inl (throw_at L ''Un-terminated delimited string'' (CurOffset L))
        else Inr (exit_token DSN_STRING w (cur + 1) (cur + 1 + length w + 1) L))
     else Inr (plain_token cur L))"

definition token_at :: "nat \<Rightarrow> LEXER \<Rightarrow> LEX_ERROR + int \<times> LEXER" where
  "token_at cur L =
    (let c = cur_line L ! cur in
     if c = CHR ''('' then Inr (exit_token DSN_LEFT [c] cur (cur + 1) L)
     else if c = CHR '')'' then Inr (exit_token DSN_RIGHT [c] cur (cur + 1) L)
     else if \<not> specctraMode L then
       (if c = stringDelimiter L then
          (case unquote [] (drop (cur + 1) (cur_line L)) of
             Inl t \<Rightarrow> Inl (throw_at L ''Un-terminated delimited string'' (cur + 1 + length t))
           | Inr (t, rest) \<Rightarrow> Inr (exit_token DSN_STRING t (cur + 1) (length (cur_line L) - length rest) L))
        else Inr (plain_token cur L))
     else specctra_token cur L)"

text \<open>The loop at \<open>L_read\<close>: lines are read until one has a token, or is a comment that counts, or there is none.\<close>

datatype FOUND = At_End | At_Comment string | At_Token string nat

lemma first_line_shorter: "first_line s \<noteq> [] \<Longrightarrow> length (drop (length (first_line s)) s) < length s"
  by (cases s) (auto simp: first_line_def)

lemma ReadLine_shorter: "ReadLine r = Inr (l, r') \<Longrightarrow> l \<noteq> [] \<Longrightarrow> length (unread r') < length (unread r)"
  using first_line_shorter [of "unread r"] by (auto simp: ReadLine_def Let_def split: if_splits)

function read_lines :: "bool \<Rightarrow> LINE_READER \<Rightarrow> LEX_ERROR + FOUND \<times> LINE_READER" where
  "read_lines comments r =
    (case ReadLine r of Inl e \<Rightarrow> Inl e
     | Inr (line, r') \<Rightarrow>
         if line = [] then Inr (At_End, r')
         else
           (let cur = length (takeWhile isSpace line) in
            if cur < length line \<and> line ! cur = CHR ''#'' then
              (if comments then Inr (At_Comment (rev (dropWhile (\<lambda>c. c = newline \<or> c = creturn) (rev line))), r')
               else read_lines comments r')
            else if cur \<ge> length line then read_lines comments r'
            else Inr (At_Token line cur, r')))"
  by pat_completeness auto
termination
  by (relation "measure (\<lambda>(c, r). length (unread r))") (auto intro: ReadLine_shorter)

declare read_lines.simps [simp del]

definition at_end :: "LEXER \<Rightarrow> int \<times> LEXER" where
  "at_end L = (DSN_EOF, L\<lparr>curTok := DSN_EOF, curOffset := 0\<rparr>)"

definition read_token :: "LEXER \<Rightarrow> LEX_ERROR + int \<times> LEXER" where
  "read_token L =
    (case readers L of [] \<Rightarrow> Inr (at_end L)
     | r # rs \<Rightarrow>
        (case read_lines (commentsAreTokens L) r of Inl e \<Rightarrow> Inl e
         | Inr (At_End, r') \<Rightarrow> Inr (at_end (L\<lparr>readers := r' # rs, cur_line := []\<rparr>))
         | Inr (At_Comment t, r') \<Rightarrow> Inr (exit_token DSN_COMMENT t 0 (length t) (L\<lparr>readers := r' # rs, cur_line := t\<rparr>))
         | Inr (At_Token line cur, r') \<Rightarrow> token_at cur (L\<lparr>readers := r' # rs, cur_line := line\<rparr>)))"

definition NextTok :: "LEXER \<Rightarrow> LEX_ERROR + int \<times> LEXER" where
  "NextTok L0 =
    (let L = L0\<lparr>prevTok := curTok L0\<rparr> in
     if curTok L = DSN_EOF then Inr (DSN_EOF, L\<lparr>curOffset := next_pos L\<rparr>)
     else if next_loose L then Inl Lex_Undefined
     else
       (let cur = next_pos L + length (takeWhile isSpace (drop (next_pos L) (cur_line L))) in
        if cur < length (cur_line L) then token_at cur L else read_token L))"

subsection \<open>What a parser asks for\<close>

definition Expecting :: "LEXER \<Rightarrow> int \<Rightarrow> LEX_ERROR" where
  "Expecting L aTok = throw_at L (''Expecting '' @ GetTokenString L aTok) (CurOffset L)"

definition Expecting_text :: "LEXER \<Rightarrow> string \<Rightarrow> LEX_ERROR" where
  "Expecting_text L t = throw_at L (''Expecting '' @ [squote] @ t @ [squote]) (CurOffset L)"

definition Unexpected :: "LEXER \<Rightarrow> int \<Rightarrow> LEX_ERROR" where
  "Unexpected L aTok = throw_at L (''Unexpected '' @ GetTokenString L aTok) (CurOffset L)"

definition Unexpected_text :: "LEXER \<Rightarrow> string \<Rightarrow> LEX_ERROR" where
  "Unexpected_text L t = throw_at L (''Unexpected '' @ [squote] @ t @ [squote]) (CurOffset L)"

definition Duplicate :: "LEXER \<Rightarrow> int \<Rightarrow> LEX_ERROR" where
  "Duplicate L aTok = throw_at L (GetTokenString L aTok @ '' is a duplicate'') (CurOffset L)"

text \<open>The next token if it is one of those asked for, an error otherwise.\<close>

definition need :: "(int \<Rightarrow> bool) \<Rightarrow> (LEXER \<Rightarrow> LEX_ERROR) \<Rightarrow> LEXER \<Rightarrow> LEX_ERROR + int \<times> LEXER" where
  "need ok err L =
    (case NextTok L of Inl e \<Rightarrow> Inl e | Inr (tok, L') \<Rightarrow> if ok tok then Inr (tok, L') else Inl (err L'))"

definition NeedLEFT :: "LEXER \<Rightarrow> LEX_ERROR + int \<times> LEXER" where
  "NeedLEFT = need (\<lambda>tok. tok = DSN_LEFT) (\<lambda>L. Expecting L DSN_LEFT)"

definition NeedRIGHT :: "LEXER \<Rightarrow> LEX_ERROR + int \<times> LEXER" where
  "NeedRIGHT = need (\<lambda>tok. tok = DSN_RIGHT) (\<lambda>L. Expecting L DSN_RIGHT)"

definition NeedSYMBOL :: "LEXER \<Rightarrow> LEX_ERROR + int \<times> LEXER" where
  "NeedSYMBOL = need lexer_IsSymbol (\<lambda>L. Expecting L DSN_SYMBOL)"

definition NeedSYMBOLorNUMBER :: "LEXER \<Rightarrow> LEX_ERROR + int \<times> LEXER" where
  "NeedSYMBOLorNUMBER = need (\<lambda>tok. lexer_IsSymbol tok \<or> tok = DSN_NUMBER) (\<lambda>L. Expecting_text L ''a symbol or number'')"

definition NeedNUMBER :: "string \<Rightarrow> LEXER \<Rightarrow> LEX_ERROR + int \<times> LEXER" where
  "NeedNUMBER aExpectation =
    need (\<lambda>tok. tok = DSN_NUMBER) (\<lambda>L. throw_at L (''need a number for '' @ [squote] @ aExpectation @ [squote]) (CurOffset L))"

text \<open>The comments up to the first token that is none; every comment comes from a line of its own.\<close>

partial_function (option) comment_lines :: "LEXER \<Rightarrow> string list \<Rightarrow> (LEX_ERROR + string list \<times> LEXER) option" where
  "comment_lines L found =
    (case NextTok L of Inl e \<Rightarrow> Some (Inl e)
     | Inr (tok, L') \<Rightarrow> if tok = DSN_COMMENT then comment_lines L' (found @ [curText L']) else Some (Inr (found, L')))"

definition ReadCommentLines :: "LEXER \<Rightarrow> (LEX_ERROR + string list option \<times> LEXER) option" where
  "ReadCommentLines L =
    (let (cmt_setting, L) = SetCommentsAreTokens True L in
     case comment_lines L [] of None \<Rightarrow> None | Some (Inl e) \<Rightarrow> Some (Inl e)
     | Some (Inr (found, L)) \<Rightarrow> Some (Inr (if found = [] then None else Some found, snd (SetCommentsAreTokens cmt_setting L))))"

declare comment_lines.simps [code]

subsection \<open>The output formatter\<close>

definition quote_one :: "char \<Rightarrow> string" where
  "quote_one c =
    (if c = newline then [bslash, CHR ''n''] else if c = creturn then [bslash, CHR ''r'']
     else if c = bslash then [bslash, bslash] else if c = dquote then [bslash, dquote] else [c])"

definition Quotes :: "string \<Rightarrow> string" where
  "Quotes aWrapee = [dquote] @ concat (map quote_one aWrapee) @ [dquote]"

text \<open>The bytes of a \<open>wxString\<close> in UTF-8 are passed as a C string.\<close>

definition Quotew :: "string \<Rightarrow> string" where
  "Quotew utf8 = Quotes (takeWhile (\<lambda>c. c \<noteq> CHR 0x00) utf8)"

definition quoteThese :: string where "quoteThese = tab # '' ()%{}''"

fun quote_loop :: "bool \<Rightarrow> string \<Rightarrow> bool" where
  "quote_loop isFirst [] = False"
| "quote_loop isFirst (c # wrapee) =
    (if c \<in> set quoteThese then True else if \<not> isFirst \<and> c = CHR ''-'' then True else quote_loop False wrapee)"

definition GetQuoteChar :: "string \<Rightarrow> string \<Rightarrow> string" where
  "GetQuoteChar wrapee quote_char =
    (if wrapee \<noteq> [] \<and> hd wrapee = CHR ''#'' then quote_char
     else if wrapee = [] then quote_char
     else if quote_loop True wrapee then quote_char else [])"

text \<open>\<open>Print\<close> to a formatter that collects its output in a string, after the formatting.\<close>

definition formatter_Print :: "nat \<Rightarrow> string \<Rightarrow> string \<Rightarrow> string \<times> int" where
  "formatter_Print nestLevel formatted out =
    (out @ concat (replicate nestLevel ''  '') @ formatted, int (2 * nestLevel + length formatted))"

definition StripUseless :: "string \<Rightarrow> string" where
  "StripUseless m_mystring =
    filter (\<lambda>c. \<not> (c = CHR '' '' \<or> c = tab \<or> c = newline \<or> c = creturn \<or> c = CHR 0x0B \<or> c = CHR 0x0C) \<and> c \<noteq> CHR '')'' \<and> c \<noteq> CHR ''('' \<and> c \<noteq> dquote) m_mystring"

text \<open>The loop that writes to a stream which takes \<open>counts\<close> bytes at a time.\<close>

fun stream_write :: "string \<Rightarrow> nat \<Rightarrow> nat list \<Rightarrow> string \<Rightarrow> string" where
  "stream_write aOutBuf so_far [] os = os"
| "stream_write aOutBuf so_far (lastWrite # counts) os =
    (if so_far < length aOutBuf then stream_write aOutBuf (so_far + lastWrite) counts (os @ take lastWrite aOutBuf) else os)"

end
