(* ===== verification/Dsn_Props.thy ===== *)
theory Dsn_Props
  imports Dsn_Lexer
begin

text \<open>
  Properties of the token reader. What a lexer has not returned yet is one text, the rest of its line and what
  its reader has not read: every token comes off the front of it.
\<close>

subsection \<open>Numbers\<close>

lemma skip_sign_split: "\<exists>g. s = g @ skip_sign s \<and> (g = [] \<or> g = ''-'' \<or> g = ''+'')"
  by (cases s) (auto simp: skip_sign_def)

definition digits :: "string \<Rightarrow> bool" where "digits ds \<longleftrightarrow> list_all is_digit ds"

text \<open>The grammar of numbers: a sign, digits with at most one point, an exponent.\<close>

definition number_grammar :: "string \<Rightarrow> bool" where
  "number_grammar s \<longleftrightarrow>
    (\<exists>sign ip fp ex. s = sign @ ip @ fp @ ex \<and> sign \<in> {[], ''-'', ''+''} \<and> digits ip \<and>
       (fp = [] \<or> (\<exists>ds. fp = CHR ''.'' # ds \<and> digits ds)) \<and> (ip \<noteq> [] \<or> length fp > 1) \<and>
       (ex = [] \<or> (\<exists>e es ds. ex = e # es @ ds \<and> e \<in> {CHR ''E'', CHR ''e''} \<and> es \<in> {[], ''-'', ''+''} \<and> digits ds \<and> ds \<noteq> [])))"

lemma take_digits:
  assumes "digits ds" "rest = [] \<or> \<not> is_digit (hd rest)"
  shows "takeWhile is_digit (ds @ rest) = ds" "dropWhile is_digit (ds @ rest) = rest"
  using assms by (cases rest; auto simp: digits_def list_all_iff takeWhile_append dropWhile_append)+

lemma digits_takeWhile: "digits (takeWhile is_digit s)"
  by (auto simp: digits_def list_all_iff dest: set_takeWhileD)

lemma not_digits [simp]:
  "\<not> is_digit (CHR ''.'')" "\<not> is_digit (CHR ''E'')" "\<not> is_digit (CHR ''e'')" "\<not> is_digit (CHR ''-'')" "\<not> is_digit (CHR ''+'')"
  by (simp_all add: is_digit_def)

lemma digits_first: "digits ds \<Longrightarrow> ds \<noteq> [] \<Longrightarrow> is_digit (hd ds)"
  by (cases ds) (auto simp: digits_def)

lemma skip_sign_digits:
  assumes "sign \<in> {[], ''-'', ''+''}" "s = [] \<or> hd s \<noteq> CHR ''-'' \<and> hd s \<noteq> CHR ''+''"
  shows "skip_sign (sign @ s) = s"
  using assms by (auto simp: skip_sign_def)

lemma isNumber_grammar: "isNumber s \<longleftrightarrow> number_grammar s"
proof
  assume n: "isNumber s"
  obtain sign where sign: "s = sign @ skip_sign s" "sign \<in> {[], ''-'', ''+''}" using skip_sign_split [of s] by auto
  define cp where "cp = skip_sign s"
  define ip where "ip = takeWhile is_digit cp"
  define c1 where "c1 = dropWhile is_digit cp"
  define point where "point = (c1 \<noteq> [] \<and> hd c1 = CHR ''.'')"
  define d2 where "d2 = (if point then takeWhile is_digit (tl c1) else [])"
  define c2 where "c2 = (if point then dropWhile is_digit (tl c1) else c1)"
  define fp where "fp = (if point then CHR ''.'' # d2 else [])"
  have "cp = ip @ c1" by (simp add: ip_def c1_def)
  moreover have "c1 = fp @ c2"
  proof (cases point)
    case True
    then have "c1 = CHR ''.'' # tl c1" by (simp add: point_def) (metis list.collapse)
    moreover have "tl c1 = d2 @ c2" using True by (simp add: d2_def c2_def)
    ultimately show ?thesis using True by (simp add: fp_def)
  qed (simp add: fp_def c2_def)
  ultimately have cp: "cp = ip @ fp @ c2" by simp
  have ip: "digits ip" "digits d2" by (simp_all add: ip_def d2_def digits_takeWhile) (simp add: digits_def)
  have n': "if (ip \<noteq> [] \<or> d2 \<noteq> []) \<and> c2 \<noteq> [] \<and> (hd c2 = CHR ''E'' \<or> hd c2 = CHR ''e'')
      then takeWhile is_digit (skip_sign (tl c2)) \<noteq> [] \<and> dropWhile is_digit (skip_sign (tl c2)) = []
      else (ip \<noteq> [] \<or> d2 \<noteq> []) \<and> c2 = []"
    using n unfolding isNumber_def Let_def cp_def [symmetric] ip_def [symmetric] c1_def [symmetric] point_def [symmetric]
      d2_def [symmetric] c2_def [symmetric] .
  have ex: "c2 = [] \<or> (\<exists>e es ds. c2 = e # es @ ds \<and> e \<in> {CHR ''E'', CHR ''e''} \<and> es \<in> {[], ''-'', ''+''} \<and> digits ds \<and> ds \<noteq> [])"
  proof (cases "c2 = []")
    case False
    then have e: "hd c2 \<in> {CHR ''E'', CHR ''e''}" "takeWhile is_digit (skip_sign (tl c2)) \<noteq> []" "dropWhile is_digit (skip_sign (tl c2)) = []"
      using n' by (auto split: if_splits)
    obtain es where es: "tl c2 = es @ skip_sign (tl c2)" "es \<in> {[], ''-'', ''+''}" using skip_sign_split [of "tl c2"] by auto
    have "digits (skip_sign (tl c2))" using e(3) by (auto simp: digits_def list_all_iff dropWhile_eq_Nil_conv)
    moreover have "skip_sign (tl c2) \<noteq> []" using e(2) by auto
    moreover have "c2 = hd c2 # es @ skip_sign (tl c2)" using False es(1) by (metis list.collapse)
    ultimately show ?thesis using e(1) es(2) by blast
  qed simp
  have "ip \<noteq> [] \<or> length fp > 1" using n' by (auto simp: fp_def d2_def split: if_splits)
  moreover have "fp = [] \<or> (\<exists>ds. fp = CHR ''.'' # ds \<and> digits ds)" using ip(2) by (simp add: fp_def)
  moreover have "s = sign @ ip @ fp @ c2" using sign(1) cp by (simp add: cp_def)
  ultimately show "number_grammar s" unfolding number_grammar_def using sign(2) ip(1) ex by blast
next
  assume "number_grammar s"
  then obtain sign ip fp ex where s: "s = sign @ ip @ fp @ ex" "sign \<in> {[], ''-'', ''+''}" "digits ip"
    "fp = [] \<or> (\<exists>ds. fp = CHR ''.'' # ds \<and> digits ds)" "ip \<noteq> [] \<or> length fp > 1"
    "ex = [] \<or> (\<exists>e es ds. ex = e # es @ ds \<and> e \<in> {CHR ''E'', CHR ''e''} \<and> es \<in> {[], ''-'', ''+''} \<and> digits ds \<and> ds \<noteq> [])"
    unfolding number_grammar_def by blast
  have hex: "ex = [] \<or> \<not> is_digit (hd ex) \<and> hd ex \<noteq> CHR ''.'' \<and> (hd ex = CHR ''E'' \<or> hd ex = CHR ''e'')" using s(6) by auto
  have first: "ip @ fp @ ex = [] \<or> hd (ip @ fp @ ex) \<noteq> CHR ''-'' \<and> hd (ip @ fp @ ex) \<noteq> CHR ''+''"
  proof (cases "ip = []")
    case True
    then show ?thesis using s(4,5) by auto
  next
    case False
    then have "is_digit (hd ip)" by (rule digits_first [OF s(3)])
    then show ?thesis using False by (auto simp: hd_append)
  qed
  have cp: "skip_sign s = ip @ fp @ ex" unfolding s(1) by (rule skip_sign_digits [OF s(2) first])
  have c1: "takeWhile is_digit (ip @ fp @ ex) = ip" "dropWhile is_digit (ip @ fp @ ex) = fp @ ex"
    using take_digits [OF s(3), of "fp @ ex"] s(4) hex by auto
  have tail': "takeWhile is_digit (skip_sign (tl ex)) \<noteq> [] \<and> dropWhile is_digit (skip_sign (tl ex)) = []" if "ex \<noteq> []"
  proof -
    obtain e es ds where e: "ex = e # es @ ds" "es \<in> {[], ''-'', ''+''}" "digits ds" "ds \<noteq> []" using s(6) \<open>ex \<noteq> []\<close> by auto
    have "is_digit (hd ds)" by (rule digits_first [OF e(3,4)])
    then have "hd ds \<noteq> CHR ''-'' \<and> hd ds \<noteq> CHR ''+''" by (metis not_digits(4,5))
    then have "skip_sign (tl ex) = ds" using skip_sign_digits [OF e(2), of ds] e(1) by simp
    moreover have "takeWhile is_digit ds = ds" "dropWhile is_digit ds = []" using take_digits [OF e(3), of "[]"] by (metis append_Nil2)+
    ultimately show ?thesis using e(4) by (simp only: simp_thms not_False_eq_True)
  qed
  show "isNumber s"
  proof (cases "fp = []")
    case True
    then show ?thesis using s(5) hex tail' unfolding isNumber_def Let_def cp c1 by auto
  next
    case False
    then obtain ds where ds: "fp = CHR ''.'' # ds" "digits ds" using s(4) by auto
    have "ex = [] \<or> \<not> is_digit (hd ex)" using hex by blast
    note tw = take_digits [OF ds(2) this]
    have some: "ip \<noteq> [] \<or> ds \<noteq> []" using s(5) ds(1) by auto
    have c2: "dropWhile is_digit (ip @ fp @ ex) = CHR ''.'' # (ds @ ex)" using c1(2) ds(1) by simp
    have val: "isNumber s = (if (ip \<noteq> [] \<or> ds \<noteq> []) \<and> ex \<noteq> [] \<and> (hd ex = CHR ''E'' \<or> hd ex = CHR ''e'')
        then takeWhile is_digit (skip_sign (tl ex)) \<noteq> [] \<and> dropWhile is_digit (skip_sign (tl ex)) = []
        else (ip \<noteq> [] \<or> ds \<noteq> []) \<and> ex = [])"
      unfolding isNumber_def Let_def cp c1(1) c2 by (simp only: list.sel list.distinct not_False_eq_True simp_thms if_True tw)
    show ?thesis
    proof (cases "ex = []")
      case True
      show ?thesis unfolding val using some True by simp
    next
      case False
      then have e: "(ip \<noteq> [] \<or> ds \<noteq> []) \<and> ex \<noteq> [] \<and> (hd ex = CHR ''E'' \<or> hd ex = CHR ''e'')" using hex some by blast
      show ?thesis unfolding val if_P [OF e] by (rule tail' [OF False])
    qed
  qed
qed

subsection \<open>Quoting\<close>

lemma quote_one_no_line: "newline \<notin> set (concat (map quote_one s))"
  by (auto simp: quote_one_def char_defs)

lemma unquote_plain:
  "c \<noteq> bslash \<Longrightarrow> c \<noteq> dquote \<Longrightarrow> unquote acc (c # s) = unquote (acc @ [c]) s"
  by simp

lemma unquote_escapes:
  "unquote acc (bslash # bslash # s) = unquote (acc @ [bslash]) s"
  "unquote acc (bslash # dquote # s) = unquote (acc @ [dquote]) s"
  "unquote acc (bslash # CHR ''n'' # s) = unquote (acc @ [newline]) s"
  "unquote acc (bslash # CHR ''r'' # s) = unquote (acc @ [creturn]) s"
  by (simp_all add: char_defs escape_sequence_def)

lemma unquote_quoted: "unquote acc (concat (map quote_one s) @ dquote # rest) = Inr (acc @ s, rest)"
proof (induction s arbitrary: acc)
  case Nil
  show ?case by (simp add: char_defs)
next
  case (Cons c s)
  have "unquote acc (quote_one c @ t) = unquote (acc @ [c]) t" for t
    unfolding quote_one_def using unquote_plain [of c acc t] unquote_escapes [of acc t]
    by (simp del: unquote.simps)
  then show ?case using Cons.IH [of "acc @ [c]"] by (simp del: unquote.simps)
qed

subsection \<open>The text that is left\<close>

definition remaining :: "LEXER \<Rightarrow> string" where
  "remaining L = drop (next_pos L) (cur_line L) @ (case readers L of [] \<Rightarrow> [] | r # _ \<Rightarrow> unread r)"

text \<open>A lexer in the mode of the program's own files, between two tokens.\<close>

definition line_whole :: "string \<Rightarrow> LINE_READER \<Rightarrow> bool" where
  "line_whole d r \<longleftrightarrow> unread r \<noteq> [] \<longrightarrow> d = [] \<or> last d = newline"

definition plain_lexer :: "LEXER \<Rightarrow> bool" where
  "plain_lexer L \<longleftrightarrow> \<not> specctraMode L \<and> stringDelimiter L = dquote \<and> \<not> commentsAreTokens L \<and> \<not> next_loose L \<and>
    curTok L \<noteq> DSN_EOF \<and> (case readers L of [] \<Rightarrow> False
      | r # _ \<Rightarrow> int (length (unread r)) < m_maxLineLength r \<and> line_whole (drop (next_pos L) (cur_line L)) r)"

definition spaces :: "string \<Rightarrow> bool" where "spaces w \<longleftrightarrow> list_all isSpace w"

lemma first_line_split:
  "s = first_line s @ drop (length (first_line s)) s"
  "newline \<in> set s \<Longrightarrow> \<exists>x. first_line s = x @ [newline] \<and> newline \<notin> set x"
  "newline \<notin> set s \<Longrightarrow> first_line s = s"
proof -
  show "s = first_line s @ drop (length (first_line s)) s"
    unfolding first_line_def by (metis append_take_drop_id append_eq_conv_conj append_assoc takeWhile_dropWhile_id)
  show "newline \<in> set s \<Longrightarrow> \<exists>x. first_line s = x @ [newline] \<and> newline \<notin> set x"
  proof -
    assume "newline \<in> set s"
    then obtain a b where "s = a @ newline # b" "newline \<notin> set a" by (meson split_list_first)
    then have "first_line s = a @ [newline]" by (auto simp: first_line_def takeWhile_append dropWhile_append)
    then show ?thesis using \<open>newline \<notin> set a\<close> by blast
  qed
  show "newline \<notin> set s \<Longrightarrow> first_line s = s" by (induction s) (auto simp: first_line_def)
qed

lemma ReadLine_short:
  assumes "int (length (unread r)) < m_maxLineLength r"
  shows "ReadLine r = Inr (first_line (unread r), r\<lparr>unread := drop (length (first_line (unread r))) (unread r), m_lineNum := m_lineNum r + 1\<rparr>)"
proof -
  have "length (first_line (unread r)) \<le> length (unread r)" using first_line_split(1) [of "unread r"] by (metis length_append le_add1)
  then show ?thesis using assms by (auto simp: ReadLine_def Let_def)
qed

lemma first_line_empty: "first_line s = [] \<longleftrightarrow> s = []"
  by (cases s) (auto simp: first_line_def)

lemma isSpace_newline [simp]: "isSpace newline" by (simp add: isSpace_def)

lemma read_lines_end:
  "spaces (unread r) \<Longrightarrow> int (length (unread r)) < m_maxLineLength r \<Longrightarrow>
    \<exists>r'. read_lines False r = Inr (At_End, r')"
proof (induction "length (unread r)" arbitrary: r rule: less_induct)
  case less
  define l where "l = first_line (unread r)"
  define r' where "r' = r\<lparr>unread := drop (length l) (unread r), m_lineNum := m_lineNum r + 1\<rparr>"
  have R: "ReadLine r = Inr (l, r')" using ReadLine_short [OF less.prems(2)] by (simp add: l_def r'_def)
  show ?case
  proof (cases "l = []")
    case True
    then show ?thesis using R by (subst read_lines.simps) simp
  next
    case False
    have "unread r = l @ unread r'" using first_line_split(1) [of "unread r"] by (simp add: l_def r'_def)
    then have sp: "list_all isSpace l" "spaces (unread r')" using less.prems(1) by (auto simp: spaces_def)
    then have tw: "takeWhile isSpace l = l" by (simp add: list_all_iff takeWhile_eq_all_conv)
    have "read_lines False r = read_lines False r'" using R False by (subst read_lines.simps) (simp add: Let_def tw)
    moreover have "length (unread r') < length (unread r)" by (rule ReadLine_shorter [OF R False])
    moreover have "m_maxLineLength r' = m_maxLineLength r" by (simp add: r'_def)
    ultimately show ?thesis using less.hyps [of r'] sp(2) less.prems(2) by simp
  qed
qed

lemma read_lines_token:
  "unread r = w @ t \<Longrightarrow> spaces w \<Longrightarrow> t \<noteq> [] \<Longrightarrow> \<not> isSpace (hd t) \<Longrightarrow> hd t \<noteq> CHR ''#'' \<Longrightarrow> int (length (unread r)) < m_maxLineLength r \<Longrightarrow>
    \<exists>line cur r'. read_lines False r = Inr (At_Token line cur, r') \<and> cur < length line \<and> drop cur line @ unread r' = t \<and>
      line_whole (drop cur line) r' \<and> int (length (unread r')) < m_maxLineLength r'"
proof (induction "length (unread r)" arbitrary: r w rule: less_induct)
  case less
  define l where "l = first_line (unread r)"
  define r' where "r' = r\<lparr>unread := drop (length l) (unread r), m_lineNum := m_lineNum r + 1\<rparr>"
  have R: "ReadLine r = Inr (l, r')" using ReadLine_short [OF less.prems(6)] by (simp add: l_def r'_def)
  have split: "unread r = l @ unread r'" using first_line_split(1) [of "unread r"] by (simp add: l_def r'_def)
  have l: "l \<noteq> []" using less.prems(1,3) by (simp add: l_def first_line_empty)
  have m: "int (length (unread r')) < m_maxLineLength r'" using ReadLine_shorter [OF R l] less.prems(6) by (simp add: r'_def)
  have hash: "CHR ''#'' \<notin> set w" using less.prems(2) by (auto simp: spaces_def list_all_iff isSpace_def char_defs)
  show ?case
  proof (cases "length l \<le> length w")
    case True
    then obtain w' where w: "w = l @ w'" "unread r' = w' @ t"
      using split less.prems(1) by (metis append_eq_append_conv_if append_take_drop_id)
    then have sp: "list_all isSpace l" "spaces w'" using less.prems(2) by (auto simp: spaces_def)
    then have tw: "takeWhile isSpace l = l" by (simp add: list_all_iff takeWhile_eq_all_conv)
    have "read_lines False r = read_lines False r'" using R l by (subst read_lines.simps) (simp add: Let_def tw)
    moreover have "length (unread r') < length (unread r)" by (rule ReadLine_shorter [OF R l])
    ultimately show ?thesis using less.hyps [of r' w'] w(2) sp(2) less.prems(3-5) m by simp
  next
    case False
    then obtain x where x: "l = w @ x" "x @ unread r' = t" "x \<noteq> []"
      using split less.prems(1) by (metis append_eq_append_conv_if append_take_drop_id le_refl drop_eq_Nil append_Nil2 nat_le_linear)
    have hx: "\<not> isSpace (hd x)" "hd x \<noteq> CHR ''#''" using x(2,3) less.prems(4,5) by auto
    then have tw: "takeWhile isSpace l = w" using less.prems(2) x(1,3) by (cases x) (auto simp: spaces_def list_all_iff takeWhile_append)
    have at: "l ! length w = hd x" "length w < length l" using x(1,3) by (auto simp: nth_append hd_conv_nth)
    have "read_lines False r = Inr (At_Token l (length w), r')"
      using R l at hx(2) by (subst read_lines.simps) (simp add: Let_def tw)
    moreover have "line_whole (drop (length w) l) r'"
    proof -
      have "last l = newline" if "unread r' \<noteq> []"
      proof -
        have "newline \<in> set (unread r)"
        proof (rule ccontr)
          assume "newline \<notin> set (unread r)"
          then have "l = unread r" using first_line_split(3) by (simp add: l_def)
          then show False using split that by simp
        qed
        then show ?thesis using first_line_split(2) [of "unread r"] by (auto simp: l_def)
      qed
      then show ?thesis using x(1,3) by (auto simp: line_whole_def)
    qed
    ultimately show ?thesis using at(2) x(1,2) m by (intro exI [of _ l] exI [of _ "length w"] exI [of _ r']) simp
  qed
qed

subsection \<open>One token\<close>

definition at_token :: "LEXER \<Rightarrow> nat \<Rightarrow> string \<Rightarrow> bool" where
  "at_token L cur t \<longleftrightarrow> cur < length (cur_line L) \<and> (\<exists>r rs. readers L = r # rs \<and> drop cur (cur_line L) @ unread r = t \<and>
     line_whole (drop cur (cur_line L)) r \<and> int (length (unread r)) < m_maxLineLength r) \<and>
     \<not> specctraMode L \<and> stringDelimiter L = dquote \<and> \<not> commentsAreTokens L \<and> \<not> next_loose L"

lemma NextTok_at:
  assumes L: "plain_lexer L" and t: "remaining L = w @ t" "spaces w" "t \<noteq> []" "\<not> isSpace (hd t)" "hd t \<noteq> CHR ''#''"
  shows "\<exists>L' cur. NextTok L = token_at cur L' \<and> at_token L' cur t \<and> keywordsLookup L' = keywordsLookup L"
proof -
  obtain r rs where r: "readers L = r # rs" "int (length (unread r)) < m_maxLineLength r" "line_whole (drop (next_pos L) (cur_line L)) r"
    using L by (auto simp: plain_lexer_def split: list.splits)
  define d where "d = drop (next_pos L) (cur_line L)"
  define L1 where "L1 = L\<lparr>prevTok := curTok L\<rparr>"
  define cur where "cur = next_pos L + length (takeWhile isSpace d)"
  have du: "d @ unread r = w @ t" using t(1) r(1) by (simp add: remaining_def d_def)
  have N: "NextTok L = (if cur < length (cur_line L) then token_at cur L1 else read_token L1)"
    using L by (simp add: NextTok_def Let_def plain_lexer_def L1_def cur_def d_def)
  show ?thesis
  proof (cases "length d \<le> length w")
    case True
    then obtain w' where w: "w = d @ w'" "unread r = w' @ t"
      using du by (metis append_eq_append_conv_if append_take_drop_id)
    then have sp: "list_all isSpace d" "spaces w'" using t(2) by (auto simp: spaces_def)
    then have tw: "takeWhile isSpace d = d" by (simp add: list_all_iff takeWhile_eq_all_conv)
    have "\<not> cur < length (cur_line L)" unfolding cur_def tw by (simp add: d_def)
    then have N': "NextTok L = read_token L1" using N by simp
    obtain line cur' r' where x: "read_lines False r = Inr (At_Token line cur', r')" "cur' < length line" "drop cur' line @ unread r' = t"
      "line_whole (drop cur' line) r'" "int (length (unread r')) < m_maxLineLength r'"
      using read_lines_token [OF w(2) sp(2) t(3-5) r(2)] by blast
    have "read_token L1 = token_at cur' (L1\<lparr>readers := r' # rs, cur_line := line\<rparr>)"
      using L r(1) x(1) by (simp add: read_token_def L1_def plain_lexer_def)
    moreover have "at_token (L1\<lparr>readers := r' # rs, cur_line := line\<rparr>) cur' t"
      using L x by (simp add: at_token_def L1_def plain_lexer_def)
    ultimately show ?thesis using N' by (intro exI [of _ "L1\<lparr>readers := r' # rs, cur_line := line\<rparr>"] exI [of _ cur']) (simp add: L1_def)
  next
    case False
    then obtain x where x: "d = w @ x" "x @ unread r = t" "x \<noteq> []"
      using du by (metis append_eq_append_conv_if append_take_drop_id le_refl drop_eq_Nil append_Nil2 nat_le_linear)
    then have "\<not> isSpace (hd x)" using t(4) by auto
    then have "takeWhile isSpace d = w" using t(2) x(1,3) by (cases x) (auto simp: spaces_def list_all_iff takeWhile_append)
    then have c: "cur = next_pos L + length w" by (simp add: cur_def)
    have "length d = length w + length x" by (simp add: x(1))
    moreover have "length d = length (cur_line L) - next_pos L" by (simp add: d_def)
    ultimately have "cur < length (cur_line L)" using c x(3) by (cases x) auto
    moreover have "drop cur (cur_line L) = x"
    proof -
      have "drop cur (cur_line L) = drop (length w) d" by (simp add: c d_def add.commute)
      then show ?thesis by (simp add: x(1))
    qed
    moreover have "line_whole x r" using r(3) x(1,3) by (auto simp: line_whole_def d_def [symmetric])
    ultimately have "at_token L1 cur t" using L r x by (simp add: at_token_def L1_def plain_lexer_def)
    then show ?thesis using N \<open>cur < _\<close> by (intro exI [of _ L1] exI [of _ cur]) (simp add: L1_def)
  qed
qed

lemma NextTok_end:
  assumes L: "plain_lexer L" and w: "spaces (remaining L)"
  shows "\<exists>L'. NextTok L = Inr (DSN_EOF, L')"
proof -
  obtain r rs where r: "readers L = r # rs" "int (length (unread r)) < m_maxLineLength r" using L by (auto simp: plain_lexer_def split: list.splits)
  define d where "d = drop (next_pos L) (cur_line L)"
  have sp: "list_all isSpace d" "spaces (unread r)" using w r(1) by (auto simp: remaining_def spaces_def d_def)
  then have tw: "takeWhile isSpace d = d" by (simp add: list_all_iff takeWhile_eq_all_conv)
  obtain r' where "read_lines False r = Inr (At_End, r')" using read_lines_end [OF sp(2) r(2)] by blast
  moreover have "\<not> next_pos L + length (takeWhile isSpace d) < length (cur_line L)" unfolding tw by (simp add: d_def)
  ultimately show ?thesis using L r(1) by (simp add: NextTok_def Let_def plain_lexer_def d_def read_token_def at_end_def)
qed

text \<open>After a token that leaves the rest \<open>x\<close> of the line, the lexer stands in front of it.\<close>

lemma exit_plain:
  assumes a: "at_token L cur t" and tok: "tok \<noteq> DSN_EOF" and x: "drop head (cur_line L) = x" "\<exists>y. drop cur (cur_line L) = y @ x"
  shows "exit_token tok u c head L = (tok, snd (exit_token tok u c head L))" "plain_lexer (snd (exit_token tok u c head L))"
    "remaining (snd (exit_token tok u c head L)) = x @ (case readers L of [] \<Rightarrow> [] | r # _ \<Rightarrow> unread r)"
    "curText (snd (exit_token tok u c head L)) = u" "keywordsLookup (snd (exit_token tok u c head L)) = keywordsLookup L"
proof -
  obtain r rs where r: "readers L = r # rs" "line_whole (drop cur (cur_line L)) r" "int (length (unread r)) < m_maxLineLength r"
    using a by (auto simp: at_token_def)
  have "line_whole x r" using r(2) x(2) by (cases "x = []") (auto simp: line_whole_def)
  then show "plain_lexer (snd (exit_token tok u c head L))" using a tok r x(1) by (simp add: plain_lexer_def exit_token_def at_token_def)
qed (use x in \<open>simp_all add: exit_token_def remaining_def\<close>)

lemma exit_gives:
  assumes "token_at cur L = Inr (exit_token tok u c head L)" "at_token L cur t" "tok \<noteq> DSN_EOF"
    "drop cur (cur_line L) = y @ x" "drop head (cur_line L) = x" "readers L = r # rs" "x @ unread r = rest"
  shows "\<exists>L'. token_at cur L = Inr (tok, L') \<and> plain_lexer L' \<and> remaining L' = rest \<and> curText L' = u \<and> keywordsLookup L' = keywordsLookup L"
proof -
  have "\<exists>y. drop cur (cur_line L) = y @ x" using assms(4) by blast
  note X = exit_plain [OF assms(2,3,5) this, of u c]
  show ?thesis using X(1,2,3,4,5) assms(1,6,7) by (intro exI [of _ "snd (exit_token tok u c head L)"]) simp
qed

subsection \<open>A text of tokens\<close>

datatype TEXT_ITEM = Open | Close | Quoted string | Word string

fun item_text :: "TEXT_ITEM \<Rightarrow> string" where
  "item_text Open = ''(''"
| "item_text Close = '')''"
| "item_text (Quoted s) = Quotes s"
| "item_text (Word w) = w"

fun item_token :: "(string \<times> int) list \<Rightarrow> TEXT_ITEM \<Rightarrow> int \<times> string" where
  "item_token kw Open = (DSN_LEFT, ''('')"
| "item_token kw Close = (DSN_RIGHT, '')'')"
| "item_token kw (Quoted s) = (DSN_STRING, s)"
| "item_token kw (Word w) = (if isNumber w then DSN_NUMBER else case map_of kw w of Some t \<Rightarrow> t | None \<Rightarrow> DSN_SYMBOL, w)"

text \<open>Words are symbols and numbers: not empty, without separators, not taken for a quoted text or a comment.\<close>

fun item_ok :: "TEXT_ITEM \<Rightarrow> bool" where
  "item_ok (Word w) \<longleftrightarrow> w \<noteq> [] \<and> list_all (\<lambda>c. \<not> isSep c) w \<and> hd w \<noteq> dquote \<and> hd w \<noteq> CHR ''#''"
| "item_ok i \<longleftrightarrow> True"

definition ends_word :: "TEXT_ITEM \<Rightarrow> string \<Rightarrow> bool" where
  "ends_word i rest \<longleftrightarrow> (case i of Word w \<Rightarrow> rest = [] \<or> isSep (hd rest) | _ \<Rightarrow> True)"

lemma sep_plain:
  "\<not> isSep c \<Longrightarrow> \<not> isSpace c \<and> c \<noteq> CHR ''('' \<and> c \<noteq> CHR '')''" "isSep (CHR ''('')" "isSep (CHR '')'')" "\<not> isSpace (CHR ''('')"
  "\<not> isSpace (CHR '')'')" "\<not> isSpace dquote" "dquote \<noteq> CHR ''#''" "dquote \<noteq> CHR ''(''" "dquote \<noteq> CHR '')''" "isSep newline"
  by (auto simp: isSep_def isSpace_def char_defs)

lemma item_first:
  assumes "item_ok i"
  shows "item_text i \<noteq> []" "\<not> isSpace (hd (item_text i))" "hd (item_text i) \<noteq> CHR ''#''"
  using assms sep_plain by (cases i; auto simp: Quotes_def list_all_iff)+

definition keeps_kw :: "LEXER \<Rightarrow> LEXER \<Rightarrow> bool" where
  "keeps_kw L L' \<longleftrightarrow> keywordsLookup L' = keywordsLookup L"

definition EOF_free :: "(string \<times> int) list \<Rightarrow> bool" where
  "EOF_free kw \<longleftrightarrow> (\<forall>(k, t)\<in>set kw. t \<noteq> DSN_EOF)"

lemma token_at_item:
  assumes a: "at_token L cur (item_text i @ rest)" and i: "item_ok i" "ends_word i rest" and kw: "EOF_free (keywordsLookup L)"
  shows "\<exists>L'. token_at cur L = Inr (fst (item_token (keywordsLookup L) i), L') \<and> plain_lexer L' \<and> remaining L' = rest \<and>
    curText L' = snd (item_token (keywordsLookup L) i) \<and> keywordsLookup L' = keywordsLookup L"
proof -
  obtain r rs where r: "readers L = r # rs" "drop cur (cur_line L) @ unread r = item_text i @ rest"
    "line_whole (drop cur (cur_line L)) r" "cur < length (cur_line L)" using a by (auto simp: at_token_def)
  define D where "D = drop cur (cur_line L)"
  have D: "D \<noteq> []" "D @ unread r = item_text i @ rest" using r(2,4) by (simp_all add: D_def)
  have c: "cur_line L ! cur = hd (item_text i)"
  proof -
    have "hd D = cur_line L ! cur" using r(4) by (simp add: D_def hd_drop_conv_nth)
    moreover have "hd D = hd (item_text i)" using D item_first(1) [OF i(1)] by (metis hd_append2)
    ultimately show ?thesis by simp
  qed
  have tl: "drop (cur + 1) (cur_line L) = tl D" by (simp add: D_def drop_Suc tl_drop)
  have mode: "\<not> specctraMode L" "stringDelimiter L = dquote" using a by (auto simp: at_token_def)
  have whole: "unread r \<noteq> [] \<Longrightarrow> last D = newline" using r(3) D(1) by (auto simp: line_whole_def D_def)
  have inside: "\<exists>x. D = item_text i @ x \<and> x @ unread r = rest" if n: "newline \<notin> set (item_text i)"
  proof (cases "length (item_text i) \<le> length D")
    case True
    then show ?thesis using D(2) by (metis append_eq_append_conv_if append_take_drop_id)
  next
    case False
    then obtain y where "item_text i = D @ y" "unread r = y @ rest" "y \<noteq> []"
      using D(2) by (metis append_eq_append_conv_if append_take_drop_id append_Nil2 le_refl nat_le_linear)
    then have "last D = newline" "set D \<subseteq> set (item_text i)" using whole by auto
    then show ?thesis using n D(1) last_in_set [OF D(1)] by auto
  qed
  show ?thesis
  proof (cases i)
    case Open
    have e: "token_at cur L = Inr (exit_token DSN_LEFT ''('' cur (cur + 1) L)" using c by (simp add: token_at_def Open)
    have d: "drop cur (cur_line L) = ''('' @ tl D" "tl D @ unread r = rest" using D by (cases D; simp add: Open D_def)+
    have "DSN_LEFT \<noteq> DSN_EOF" by (simp add: DSN_defs)
    from exit_gives [OF e a this d(1) tl r(1) d(2)] show ?thesis by (simp add: Open)
  next
    case Close
    have e: "token_at cur L = Inr (exit_token DSN_RIGHT '')'' cur (cur + 1) L)" using c by (simp add: token_at_def Close)
    have d: "drop cur (cur_line L) = '')'' @ tl D" "tl D @ unread r = rest" using D by (cases D; simp add: Close D_def)+
    have "DSN_RIGHT \<noteq> DSN_EOF" by (simp add: DSN_defs)
    from exit_gives [OF e a this d(1) tl r(1) d(2)] show ?thesis by (simp add: Close)
  next
    case (Quoted s)
    have "newline \<notin> set (item_text i)" using quote_one_no_line [of s] by (auto simp: Quoted Quotes_def char_defs)
    then obtain x where x: "D = item_text i @ x" "x @ unread r = rest" using inside by blast
    define head where "head = length (cur_line L) - length x"
    have U: "unquote [] (tl D) = Inr (s, x)" using unquote_quoted [of "[]" s x] by (simp add: x(1) Quoted Quotes_def del: unquote.simps)
    have "cur_line L = take cur (cur_line L) @ D" by (simp add: D_def)
    then have h: "drop head (cur_line L) = x" unfolding head_def by (metis x(1) append_assoc append_eq_conv_conj diff_add_inverse2 length_append)
    have "token_at cur L = Inr (exit_token DSN_STRING s (cur + 1) head L)"
      using U c mode sep_plain unfolding token_at_def Let_def tl by (simp add: Quoted Quotes_def head_def)
    from exit_gives [OF this a _ _ h r(1) x(2)] show ?thesis using x(1) by (simp add: Quoted DSN_defs D_def [symmetric])
  next
    case (Word w)
    have w: "w \<noteq> []" "\<forall>c\<in>set w. \<not> isSep c" "hd w \<noteq> dquote" using i(1) by (auto simp: Word list_all_iff)
    then have "newline \<notin> set (item_text i)" using sep_plain(10) by (auto simp: Word)
    then obtain x where x: "D = w @ x" "x @ unread r = rest" using inside by (auto simp: Word)
    have "x = [] \<or> isSep (hd x)" using i(2) x(2) by (cases x) (auto simp: ends_word_def Word)
    then have tw: "takeWhile (\<lambda>c. \<not> isSep c) D = w" using w(2) x(1) by (cases x) (auto simp: takeWhile_append)
    define tok where "tok = (if isNumber w then DSN_NUMBER else findToken L w)"
    have tok: "tok \<noteq> DSN_EOF" using kw by (auto simp: tok_def findToken_def EOF_free_def DSN_defs split: option.splits dest: map_of_SomeD)
    have "hd w \<in> set w" using w(1) by simp
    then have hw: "hd w \<noteq> CHR ''(''" "hd w \<noteq> CHR '')''" using w(2) sep_plain(1) by blast+
    have e: "token_at cur L = Inr (exit_token tok w cur (cur + length w) L)"
      using c mode hw w(3) tw unfolding token_at_def Let_def plain_token_def by (simp add: Word D_def [symmetric] tok_def)
    have h: "drop (cur + length w) (cur_line L) = x"
    proof -
      have "drop (cur + length w) (cur_line L) = drop (length w) D" by (simp add: D_def add.commute)
      then show ?thesis by (simp add: x(1))
    qed
    have d: "drop cur (cur_line L) = w @ x" using x(1) by (simp add: D_def)
    have "tok = fst (item_token (keywordsLookup L) i)" "w = snd (item_token (keywordsLookup L) i)"
      by (simp_all add: Word tok_def findToken_def)
    with exit_gives [OF e a tok d h r(1) x(2)] show ?thesis by simp
  qed
qed

text \<open>All tokens with their texts up to the end, in at most as many steps as the number says.\<close>

fun lex_all :: "nat \<Rightarrow> LEXER \<Rightarrow> (LEX_ERROR + (int \<times> string) list) option" where
  "lex_all 0 L = None"
| "lex_all (Suc n) L =
    (case NextTok L of Inl e \<Rightarrow> Some (Inl e)
     | Inr (tok, L') \<Rightarrow>
         if tok = DSN_EOF then Some (Inr [])
         else (case lex_all n L' of None \<Rightarrow> None | Some (Inl e) \<Rightarrow> Some (Inl e)
           | Some (Inr l) \<Rightarrow> Some (Inr ((tok, curText L') # l))))"

text \<open>Items, each with the blanks and line ends behind it; a word is followed by such, by a parenthesis, or the end.\<close>

fun items_text :: "(TEXT_ITEM \<times> string) list \<Rightarrow> string" where
  "items_text [] = []"
| "items_text ((i, w) # l) = item_text i @ w @ items_text l"

fun separated :: "(TEXT_ITEM \<times> string) list \<Rightarrow> bool" where
  "separated [] \<longleftrightarrow> True"
| "separated ((i, w) # l) \<longleftrightarrow> item_ok i \<and> spaces w \<and>
    (w = [] \<longrightarrow> (case i of Word _ \<Rightarrow> l = [] \<or> fst (hd l) = Open \<or> fst (hd l) = Close | _ \<Rightarrow> True)) \<and> separated l"

lemma items_text_first:
  "separated l \<Longrightarrow> l \<noteq> [] \<Longrightarrow> items_text l \<noteq> [] \<and> \<not> isSpace (hd (items_text l)) \<and> hd (items_text l) \<noteq> CHR ''#''"
  using item_first [of "fst (hd l)"] by (cases l) auto

lemma separated_ends: "separated ((i, w) # l) \<Longrightarrow> ends_word i (w @ items_text l)"
proof (cases i)
  case (Word x)
  assume s: "separated ((i, w) # l)"
  show ?thesis
  proof (cases w)
    case Nil
    then have "l = [] \<or> fst (hd l) = Open \<or> fst (hd l) = Close" using s Word by auto
    then show ?thesis using Nil Word sep_plain(2,3) by (cases l) (auto simp: ends_word_def)
  next
    case (Cons c w')
    then have "isSpace c" using s by (simp add: spaces_def)
    then show ?thesis using Cons Word by (simp add: ends_word_def isSep_def)
  qed
qed (simp_all add: ends_word_def)

lemma item_token_not_EOF: "EOF_free kw \<Longrightarrow> fst (item_token kw i) \<noteq> DSN_EOF"
  by (cases i) (auto simp: DSN_defs EOF_free_def split: option.splits dest!: map_of_SomeD)

lemma lex_all_items:
  "plain_lexer L \<Longrightarrow> remaining L = w0 @ items_text l \<Longrightarrow> spaces w0 \<Longrightarrow> separated l \<Longrightarrow> EOF_free (keywordsLookup L) \<Longrightarrow> length l < n \<Longrightarrow>
    lex_all n L = Some (Inr (map (\<lambda>x. item_token (keywordsLookup L) (fst x)) l))"
proof (induction l arbitrary: n L w0)
  case Nil
  then obtain L' where "NextTok L = Inr (DSN_EOF, L')" using NextTok_end [of L] by auto
  then show ?case using Nil by (cases n) auto
next
  case (Cons x l)
  obtain i w where x: "x = (i, w)" by (cases x)
  have t: "remaining L = w0 @ (item_text i @ w @ items_text l)" using Cons.prems(2) by (simp add: x)
  have i: "item_ok i" "ends_word i (w @ items_text l)" using Cons.prems(4) separated_ends by (auto simp: x)
  have first: "item_text i @ w @ items_text l \<noteq> []" "\<not> isSpace (hd (item_text i @ w @ items_text l))"
    "hd (item_text i @ w @ items_text l) \<noteq> CHR ''#''" using item_first [OF i(1)] by simp_all
  obtain L1 cur where L1: "NextTok L = token_at cur L1" "at_token L1 cur (item_text i @ w @ items_text l)" "keywordsLookup L1 = keywordsLookup L"
    using NextTok_at [OF Cons.prems(1) t Cons.prems(3) first] by blast
  obtain L' where L': "token_at cur L1 = Inr (fst (item_token (keywordsLookup L) i), L')" "plain_lexer L'" "remaining L' = w @ items_text l"
    "curText L' = snd (item_token (keywordsLookup L) i)" "keywordsLookup L' = keywordsLookup L"
    using token_at_item [OF L1(2) i] Cons.prems(5) L1(3) by auto
  obtain m where n: "n = Suc m" "length l < m" using Cons.prems(6) by (cases n) auto
  have "lex_all m L' = Some (Inr (map (\<lambda>x. item_token (keywordsLookup L') (fst x)) l))"
    using Cons.IH [OF L'(2,3)] Cons.prems(4,5) n(2) by (auto simp: x L'(5))
  then show ?case using L1(1) L'(1,4,5) item_token_not_EOF [OF Cons.prems(5), of i] by (simp add: n(1) x)
qed

lemma fresh_plain:
  assumes "length t < 1000000"
  shows "plain_lexer (DSNLEXER kt kw (Some (STRING_LINE_READER t)))" "remaining (DSNLEXER kt kw (Some (STRING_LINE_READER t))) = t"
    "keywordsLookup (DSNLEXER kt kw (Some (STRING_LINE_READER t))) = kw"
  using assms by (simp_all add: plain_lexer_def DSNLEXER_def STRING_LINE_READER_def remaining_def line_whole_def DSN_defs)

subsection \<open>Progress\<close>

text \<open>Every token but the end takes at least one character off the text that is left.\<close>

lemma unquote_shorter: "unquote acc s = Inr (t, r) \<Longrightarrow> length r < length s"
proof (induction acc s arbitrary: t r rule: unquote.induct)
  case (2 acc c head)
  show ?case
  proof (cases "c = bslash")
    case True
    then obtain d u where h: "head = d # u" using "2.prems" by (cases head) auto
    then show ?thesis using True "2.prems" "2.IH"(1) [OF True h, of t r] escape_sequence_length [of d u] by simp
  next
    case False
    then show ?thesis using "2.prems" "2.IH"(2) by (cases "c = dquote") fastforce+
  qed
qed simp

lemma exit_token_simps [simp]:
  "cur_line (snd (exit_token tok t cur head L)) = cur_line L" "readers (snd (exit_token tok t cur head L)) = readers L"
  "next_pos (snd (exit_token tok t cur head L)) = head" "fst (exit_token tok t cur head L) = tok"
  by (simp_all add: exit_token_def)

lemma token_at_head:
  assumes "token_at cur L = Inr x" "cur < length (cur_line L)" "\<not> isSpace (cur_line L ! cur)"
  shows "cur < next_pos (snd x) \<and> cur_line (snd x) = cur_line L \<and> readers (snd x) = readers L"
proof -
  have word: "cur < next_pos (snd (plain_token cur L)) \<and> cur_line (snd (plain_token cur L)) = cur_line L \<and> readers (snd (plain_token cur L)) = readers L"
    if "cur_line L ! cur \<noteq> CHR ''(''" "cur_line L ! cur \<noteq> CHR '')''"
  proof -
    have "drop cur (cur_line L) = cur_line L ! cur # drop (cur + 1) (cur_line L)" using assms(2) by (simp add: Cons_nth_drop_Suc)
    then have "takeWhile (\<lambda>c. \<not> isSep c) (drop cur (cur_line L)) \<noteq> []" using that assms(3) by (simp add: isSep_def)
    then show ?thesis by (simp add: plain_token_def Let_def)
  qed
  have quoted: "cur < length (cur_line L) - length rest" if "unquote [] (drop (cur + 1) (cur_line L)) = Inr (t, rest)" for t rest
    using unquote_shorter [OF that] by simp
  consider (paren) "cur_line L ! cur = CHR ''('' \<or> cur_line L ! cur = CHR '')''"
    | (plain) "cur_line L ! cur \<noteq> CHR ''(''" "cur_line L ! cur \<noteq> CHR '')''" "\<not> specctraMode L"
    | (specctra) "cur_line L ! cur \<noteq> CHR ''(''" "cur_line L ! cur \<noteq> CHR '')''" "specctraMode L" by blast
  then show ?thesis
  proof cases
    case paren
    then show ?thesis using assms(1) by (auto simp: token_at_def)
  next
    case plain
    show ?thesis
    proof (cases "cur_line L ! cur = stringDelimiter L")
      case True
      then show ?thesis using assms(1) plain quoted by (auto simp: token_at_def split: sum.splits)
    next
      case False
      then have "x = plain_token cur L" using assms(1) plain by (simp add: token_at_def)
      then show ?thesis using word plain by simp
    qed
  next
    case specctra
    then have s: "specctra_token cur L = Inr x" using assms(1) by (simp add: token_at_def)
    show ?thesis using s word [OF specctra(1,2)] by (auto simp: specctra_token_def Let_def split: if_splits)
  qed
qed

lemma read_lines_shorter:
  "read_lines comments r = Inr (f, r') \<Longrightarrow>
    (case f of At_End \<Rightarrow> True | At_Comment t \<Rightarrow> length (unread r') < length (unread r)
     | At_Token line cur \<Rightarrow> cur < length line \<and> \<not> isSpace (line ! cur) \<and> length line + length (unread r') \<le> length (unread r))"
proof (induction comments r rule: read_lines.induct)
  case (1 comments r)
  show ?case
  proof (cases "ReadLine r")
    case (Inl e)
    then show ?thesis using "1.prems" by (simp add: read_lines.simps)
  next
    case (Inr x)
    obtain line r1 where x: "x = (line, r1)" by (cases x)
    note R = Inr [unfolded x]
    define cur where "cur = length (takeWhile isSpace line)"
    have nonspace: "\<not> isSpace (line ! cur)" if "cur < length line" using that unfolding cur_def by (rule nth_length_takeWhile)
    have shorter: "length line + length (unread r1) \<le> length (unread r)"
    proof -
      have "unread r = line @ unread r1" using R first_line_split(1) [of "unread r"] by (auto simp: ReadLine_def Let_def split: if_splits)
      then show ?thesis by simp
    qed
    have IH: "read_lines comments r1 = Inr (f, r') \<Longrightarrow> line \<noteq> [] \<Longrightarrow> (comments \<longrightarrow> \<not> (cur < length line \<and> line ! cur = CHR ''#'')) \<Longrightarrow>
        (cur < length line \<longrightarrow> line ! cur = CHR ''#'') \<Longrightarrow> (case f of At_End \<Rightarrow> True | At_Comment t \<Rightarrow> length (unread r') < length (unread r)
     | At_Token line cur \<Rightarrow> cur < length line \<and> \<not> isSpace (line ! cur) \<and> length line + length (unread r') \<le> length (unread r))"
    proof -
      assume a: "read_lines comments r1 = Inr (f, r')" "line \<noteq> []" "comments \<longrightarrow> \<not> (cur < length line \<and> line ! cur = CHR ''#'')"
        "cur < length line \<longrightarrow> line ! cur = CHR ''#''"
      have "case f of At_End \<Rightarrow> True | At_Comment t \<Rightarrow> length (unread r') < length (unread r1)
          | At_Token line cur \<Rightarrow> cur < length line \<and> \<not> isSpace (line ! cur) \<and> length line + length (unread r') \<le> length (unread r1)"
      proof (cases "cur < length line \<and> line ! cur = CHR ''#''")
        case True
        then show ?thesis using "1.IH"(1) [OF R refl a(2) cur_def] a by (auto simp: cur_def)
      next
        case False
        then show ?thesis using "1.IH"(2) [OF R refl a(2) cur_def False] a by (auto simp: cur_def)
      qed
      then show "(case f of At_End \<Rightarrow> True | At_Comment t \<Rightarrow> length (unread r') < length (unread r)
     | At_Token line cur \<Rightarrow> cur < length line \<and> \<not> isSpace (line ! cur) \<and> length line + length (unread r') \<le> length (unread r))" using shorter by (cases f) auto
    qed
    have step: "read_lines comments r = (if line = [] then Inr (At_End, r1)
         else if cur < length line \<and> line ! cur = CHR ''#'' then
              (if comments then Inr (At_Comment (rev (dropWhile (\<lambda>c. c = newline \<or> c = creturn) (rev line))), r1) else read_lines comments r1)
            else if cur \<ge> length line then read_lines comments r1 else Inr (At_Token line cur, r1))"
      by (subst read_lines.simps) (simp add: R cur_def Let_def)
    show ?thesis using "1.prems" IH nonspace shorter unfolding step by (auto split: if_splits)
  qed
qed

lemma NextTok_progress:
  assumes "NextTok L = Inr (tok, L')" "tok \<noteq> DSN_EOF" "curTok L \<noteq> DSN_EOF"
  shows "length (remaining L') < length (remaining L)"
proof -
  define L1 where "L1 = L\<lparr>prevTok := curTok L\<rparr>"
  define cur where "cur = next_pos L + length (takeWhile isSpace (drop (next_pos L) (cur_line L)))"
  have N: "(if cur < length (cur_line L) then token_at cur L1 else read_token L1) = Inr (tok, L')"
    using assms by (auto simp: NextTok_def Let_def L1_def cur_def split: if_splits)
  show ?thesis
  proof (cases "cur < length (cur_line L)")
    case True
    have "\<not> isSpace (cur_line L ! cur)"
      using True nth_length_takeWhile [of isSpace "drop (next_pos L) (cur_line L)"] unfolding cur_def by (simp add: nth_drop)
    then have "cur < next_pos L' \<and> cur_line L' = cur_line L \<and> readers L' = readers L"
      using N True token_at_head [of cur L1 "(tok, L')"] by (simp add: L1_def)
    moreover have "next_pos L \<le> cur" by (simp add: cur_def)
    moreover define u where "u = length (case readers L of [] \<Rightarrow> [] | r # x \<Rightarrow> unread r)"
    ultimately show ?thesis using True unfolding remaining_def by (simp flip: u_def) linarith
  next
    case False
    then have R: "read_token L1 = Inr (tok, L')" using N by simp
    then obtain r rs where r: "readers L = r # rs" using assms(2) by (cases "readers L") (auto simp: read_token_def L1_def at_end_def)
    obtain f r' where f: "read_lines (commentsAreTokens L) r = Inr (f, r')"
      using R r by (cases "read_lines (commentsAreTokens L) r") (auto simp: read_token_def L1_def)
    show ?thesis
    proof (cases f)
      case At_End
      then show ?thesis using R r f assms(2) by (simp add: read_token_def L1_def at_end_def)
    next
      case (At_Comment t)
      then show ?thesis using R r f read_lines_shorter [OF f]
        by (auto simp: read_token_def L1_def exit_token_def remaining_def)
    next
      case (At_Token line c)
      note S = read_lines_shorter [OF f, unfolded At_Token FOUND.case]
      have "token_at c (L1\<lparr>readers := r' # rs, cur_line := line\<rparr>) = Inr (tok, L')"
        using R r f At_Token by (simp add: read_token_def L1_def)
      then have "c < next_pos L' \<and> cur_line L' = line \<and> readers L' = r' # rs"
        using token_at_head [of c "L1\<lparr>readers := r' # rs, cur_line := line\<rparr>" "(tok, L')"] S by simp
      then show ?thesis using S r by (simp add: remaining_def) linarith
    qed
  qed
qed

lemma NextTok_curTok: "NextTok L = Inr (tok, L') \<Longrightarrow> curTok L' = tok"
  by (auto simp: NextTok_def Let_def read_token_def at_end_def token_at_def specctra_token_def plain_token_def exit_token_def
      split: if_splits list.splits sum.splits FOUND.splits)

lemma lex_all_ends:
  "curTok L \<noteq> DSN_EOF \<Longrightarrow> length (remaining L) < n \<Longrightarrow> \<exists>r. lex_all n L = Some r"
proof (induction n arbitrary: L)
  case (Suc n)
  show ?case
  proof (cases "NextTok L")
    case (Inl e)
    then show ?thesis by simp
  next
    case (Inr x)
    obtain tok L' where x: "x = (tok, L')" by (cases x)
    show ?thesis
    proof (cases "tok = DSN_EOF")
      case True
      then show ?thesis by (simp add: Inr x)
    next
      case False
      have "\<exists>r. lex_all n L' = Some r"
        using Suc.IH [of L'] NextTok_curTok [of L tok L'] NextTok_progress [of L tok L'] Inr x False Suc.prems by auto
      then show ?thesis by (auto simp: Inr x False split: sum.splits)
    qed
  qed
qed simp

subsection \<open>The properties\<close>

text \<open>
  C5: A text of parentheses, quoted texts, symbols and numbers, with any blanks and line ends between them, is
  read as exactly these tokens with exactly these texts: what \<open>Quotes\<close> writes of any text, with its quotes,
  backslashes and line ends, comes back as a string token that holds the text, words become numbers, keywords or
  symbols, and the end follows the last token.
\<close>

theorem NextTok_reads_items:
  assumes "separated l" "spaces w" "length (w @ items_text l) < 1000000" "EOF_free kw"
  shows "lex_all (length l + 1) (DSNLEXER table kw (Some (STRING_LINE_READER (w @ items_text l)))) =
    Some (Inr (map (\<lambda>x. item_token kw (fst x)) l))"
proof -
  let ?L = "DSNLEXER table kw (Some (STRING_LINE_READER (w @ items_text l)))"
  have kw: "keywordsLookup ?L = kw" by (simp add: DSNLEXER_def)
  have "EOF_free (keywordsLookup ?L)" using assms(4) by (simp only: kw)
  then have "lex_all (length l + 1) ?L = Some (Inr (map (\<lambda>x. item_token (keywordsLookup ?L) (fst x)) l))"
    by (rule lex_all_items [OF fresh_plain(1) [OF assms(3)] fresh_plain(2) [OF assms(3)] assms(2,1)]) simp
  then show ?thesis by (simp only: kw)
qed

theorem NextTok_reads_items_witness:
  "lex_all 7 (DSNLEXER [] [(''net'', 3)] (Some (STRING_LINE_READER
      (''  '' @ items_text [(Open, []), (Word ''net'', '' ''), (Word ''-1.5e3'', [newline]), (Quoted [CHR ''a'', dquote, newline], []), (Word ''x'', []), (Close, [])])))) =
    Some (Inr [(DSN_LEFT, ''(''), (3, ''net''), (DSN_NUMBER, ''-1.5e3''), (DSN_STRING, [CHR ''a'', dquote, newline]), (DSN_SYMBOL, ''x''), (DSN_RIGHT, '')'')])"
proof -
  let ?l = "[(Open, []), (Word ''net'', '' ''), (Word ''-1.5e3'', [newline]), (Quoted [CHR ''a'', dquote, newline], []), (Word ''x'', []), (Close, [])]"
  have hyps: "separated ?l" "spaces ''  ''" "length (''  '' @ items_text ?l) < 1000000" "EOF_free [(''net'', 3)]"
    by (code_simp, code_simp, simp add: Quotes_def quote_one_def, code_simp)
  have out: "map (\<lambda>x. item_token [(''net'', 3)] (fst x)) ?l =
    [(DSN_LEFT, ''(''), (3, ''net''), (DSN_NUMBER, ''-1.5e3''), (DSN_STRING, [CHR ''a'', dquote, newline]), (DSN_SYMBOL, ''x''), (DSN_RIGHT, '')'')]"
    by code_simp
  have len: "length ?l + 1 = 7" by simp
  show ?thesis using NextTok_reads_items [OF hyps, of "[]"] unfolding out len .
qed

text \<open>The word scan of \<open>isNumber\<close> accepts exactly the words of the grammar of numbers.\<close>

theorem isNumber_accepts_grammar: "isNumber s \<longleftrightarrow> number_grammar s"
  by (rule isNumber_grammar)

text \<open>
  C31: Reading to the end needs at most one step more than there are characters left: whatever the text, the mode
  and the stack of readers, \<open>NextTok\<close> gives the end of the file or an error after so many calls.
\<close>

theorem NextTok_reaches_end:
  assumes "curTok L \<noteq> DSN_EOF"
  shows "\<exists>r. lex_all (length (remaining L) + 1) L = Some r"
  by (rule lex_all_ends [OF assms]) simp

theorem NextTok_reaches_end_witness:
  "\<exists>r. lex_all (length (remaining (DSNLEXER [] [] (Some (STRING_LINE_READER ''(a (b''))) ) + 1) (DSNLEXER [] [] (Some (STRING_LINE_READER ''(a (b''))) = Some r"
  by (rule NextTok_reaches_end) (simp add: DSNLEXER_def DSN_defs)

subsection \<open>Where the reader differs from what its comments say\<close>

text \<open>The comment of \<open>isNumber\<close> gives a pattern with at least one digit behind the point.\<close>

lemma isNumber_point_only: "isNumber ''5.'' \<and> isNumber ''+5.E3''" by code_simp

text \<open>A comment token has no line end, although \<open>SetCommentsAreTokens\<close> is said to keep it.\<close>

lemma comment_without_line_end:
  "map_option (map_sum id (map snd)) (lex_all 3 (snd (SetCommentsAreTokens True
      (DSNLEXER [] [] (Some (STRING_LINE_READER (''# hello'' @ [newline] @ ''a''))))))) = Some (Inr [''# hello'', ''a''])"
  by code_simp

text \<open>After the last reader was popped the lexer reads through a pointer into a buffer that is gone.\<close>

lemma PopReader_last_undefined:
  "NextTok (snd (PopReader (DSNLEXER [] [] (Some (STRING_LINE_READER ''a''))))) = Inl Lex_Undefined"
  by code_simp

text \<open>A text that holds a quote is left without quotes around it, and is not read back as it was written.\<close>

lemma GetQuoteChar_misses_quote:
  "GetQuoteChar [dquote, CHR ''a''] [dquote] = [] \<and>
   lex_all 3 (DSNLEXER [] [] (Some (STRING_LINE_READER [dquote, CHR ''a'']))) = Some (Inl (PARSE_ERROR ''Un-terminated delimited string'' 1 2))"
  by code_simp

text \<open>When the stream takes less than it is given, \<open>write\<close> begins again at the start of the buffer.\<close>

lemma stream_write_partial: "stream_write ''abcd'' 0 [2, 2] [] = ''abab''" by code_simp

text \<open>Two words with nothing between them but a quote: the quote inside a word is part of it.\<close>

lemma quote_inside_word:
  "lex_all 4 (DSNLEXER [] [] (Some (STRING_LINE_READER [CHR ''a'', dquote, CHR ''b'', dquote]))) =
    Some (Inr [(DSN_SYMBOL, [CHR ''a'', dquote, CHR ''b'', dquote])])"
  by code_simp

end
