(* ===== verification/Libeval.thy ===== *)
theory Libeval
  imports Strings
begin

text \<open>
  \<open>common/libeval_compiler/libeval_compiler.cpp\<close>, the compiler of the expressions in design rules: tokenizer and
  lexer, the tree the grammar's actions build, the generation of code with its own stack of nodes, and the stack
  machine that runs the code. Floating-point arithmetic, units, and the items and functions of an editor
  (\<open>CreateVarRef\<close> and \<open>CreateFuncCall\<close> are virtual) are parameters. A value computed when it is first asked for is
  the value it will have.
\<close>

subsection \<open>Operations\<close>

datatype OP =
  TR_UNDEFINED | TR_NUMBER | TR_IDENTIFIER | TR_ASSIGN | TR_STRUCT_REF | TR_STRING | TR_UNIT | TR_ARG_LIST | TR_NULL
| TR_OP_MUL | TR_OP_DIV | TR_OP_ADD | TR_OP_SUB | TR_OP_LESS | TR_OP_GREATER | TR_OP_LESS_EQUAL | TR_OP_GREATER_EQUAL
| TR_OP_EQUAL | TR_OP_NOT_EQUAL | TR_OP_BOOL_AND | TR_OP_BOOL_OR | TR_OP_BOOL_NOT
| TR_OP_FUNC_CALL | TR_OP_METHOD_CALL | TR_UOP_PUSH_VAR | TR_UOP_PUSH_VALUE

fun op_code :: "OP \<Rightarrow> int" where
  "op_code TR_UNDEFINED = 0" | "op_code TR_NUMBER = 1" | "op_code TR_IDENTIFIER = 2" | "op_code TR_ASSIGN = 3"
| "op_code TR_STRUCT_REF = 4" | "op_code TR_STRING = 5" | "op_code TR_UNIT = 6" | "op_code TR_ARG_LIST = 7" | "op_code TR_NULL = 8"
| "op_code TR_OP_MUL = 0x201" | "op_code TR_OP_DIV = 0x202" | "op_code TR_OP_ADD = 0x203" | "op_code TR_OP_SUB = 0x204"
| "op_code TR_OP_LESS = 0x205" | "op_code TR_OP_GREATER = 0x206" | "op_code TR_OP_LESS_EQUAL = 0x207"
| "op_code TR_OP_GREATER_EQUAL = 0x208" | "op_code TR_OP_EQUAL = 0x209" | "op_code TR_OP_NOT_EQUAL = 0x20a"
| "op_code TR_OP_BOOL_AND = 0x20b" | "op_code TR_OP_BOOL_OR = 0x20c" | "op_code TR_OP_BOOL_NOT = 0x100"
| "op_code TR_OP_FUNC_CALL = 24" | "op_code TR_OP_METHOD_CALL = 25" | "op_code TR_UOP_PUSH_VAR = 1" | "op_code TR_UOP_PUSH_VALUE = 2"

text \<open>The tests of the bits \<open>TR_OP_BINARY_MASK\<close> and \<open>TR_OP_UNARY_MASK\<close>.\<close>

definition is_binary :: "OP \<Rightarrow> bool" where "is_binary m_op \<longleftrightarrow> op_code m_op div 0x200 mod 2 = 1"
definition is_unary :: "OP \<Rightarrow> bool" where "is_unary m_op \<longleftrightarrow> op_code m_op div 0x100 mod 2 = 1"

definition formatOpName :: "OP \<Rightarrow> string" where
  "formatOpName op1 =
    (case op1 of TR_OP_MUL \<Rightarrow> ''MUL'' | TR_OP_DIV \<Rightarrow> ''DIV'' | TR_OP_ADD \<Rightarrow> ''ADD'' | TR_OP_SUB \<Rightarrow> ''SUB'' | TR_OP_LESS \<Rightarrow> ''LESS''
     | TR_OP_GREATER \<Rightarrow> ''GREATER'' | TR_OP_LESS_EQUAL \<Rightarrow> ''LESS_EQUAL'' | TR_OP_GREATER_EQUAL \<Rightarrow> ''GREATER_EQUAL''
     | TR_OP_EQUAL \<Rightarrow> ''EQUAL'' | TR_OP_NOT_EQUAL \<Rightarrow> ''NEQUAL'' | TR_OP_BOOL_AND \<Rightarrow> ''AND'' | TR_OP_BOOL_OR \<Rightarrow> ''OR''
     | TR_OP_BOOL_NOT \<Rightarrow> ''NOT'' | _ \<Rightarrow> ''???'')"

subsection \<open>Values\<close>

text \<open>Arithmetic of \<open>double\<close>, and how a number is printed in a message.\<close>

record 'd DOUBLES =
  d_zero :: 'd
  d_one :: 'd
  d_add :: "'d \<Rightarrow> 'd \<Rightarrow> 'd"
  d_sub :: "'d \<Rightarrow> 'd \<Rightarrow> 'd"
  d_mul :: "'d \<Rightarrow> 'd \<Rightarrow> 'd"
  d_div :: "'d \<Rightarrow> 'd \<Rightarrow> 'd"
  d_le :: "'d \<Rightarrow> 'd \<Rightarrow> bool"
  d_less :: "'d \<Rightarrow> 'd \<Rightarrow> bool"
  d_eq :: "'d \<Rightarrow> 'd \<Rightarrow> bool"
  d_show :: "'d \<Rightarrow> string"

datatype VAR_TYPE_T = VT_STRING | VT_NUMERIC | VT_UNDEFINED | VT_PARSE_ERROR

record 'd VALUE =
  m_type :: VAR_TYPE_T
  m_valueDbl :: 'd
  m_valueStr :: string
  m_stringIsWildcard :: bool
  m_deferredDbl :: "'d option"
  m_deferredStr :: "string option"

definition VALUE_undefined :: "'d DOUBLES \<Rightarrow> 'd VALUE" where
  "VALUE_undefined D = \<lparr>m_type = VT_UNDEFINED, m_valueDbl = d_zero D, m_valueStr = [], m_stringIsWildcard = False,
     m_deferredDbl = None, m_deferredStr = None\<rparr>"

definition VALUE_str :: "'d DOUBLES \<Rightarrow> string \<Rightarrow> bool \<Rightarrow> 'd VALUE" where
  "VALUE_str D aStr aIsWildcard = (VALUE_undefined D)\<lparr>m_type := VT_STRING, m_valueStr := aStr, m_stringIsWildcard := aIsWildcard\<rparr>"

definition VALUE_num :: "'d DOUBLES \<Rightarrow> 'd \<Rightarrow> 'd VALUE" where
  "VALUE_num D aVal = (VALUE_undefined D)\<lparr>m_type := VT_NUMERIC, m_valueDbl := aVal\<rparr>"

definition AsDouble :: "'d VALUE \<Rightarrow> 'd" where
  "AsDouble v = (case m_deferredDbl v of Some d \<Rightarrow> d | None \<Rightarrow> m_valueDbl v)"

definition VALUE_AsString :: "'d VALUE \<Rightarrow> string" where
  "VALUE_AsString v = (case m_deferredStr v of Some s \<Rightarrow> s | None \<Rightarrow> m_valueStr v)"

definition Set_double :: "'d \<Rightarrow> 'd VALUE \<Rightarrow> 'd VALUE" where
  "Set_double aValue v = v\<lparr>m_type := VT_NUMERIC, m_valueDbl := aValue\<rparr>"

definition SetDeferredEval_double :: "'d \<Rightarrow> 'd VALUE \<Rightarrow> 'd VALUE" where
  "SetDeferredEval_double aLambda v = v\<lparr>m_type := VT_NUMERIC, m_deferredDbl := Some aLambda\<rparr>"

definition SetDeferredEval_str :: "string \<Rightarrow> 'd VALUE \<Rightarrow> 'd VALUE" where
  "SetDeferredEval_str aLambda v = v\<lparr>m_type := VT_STRING, m_deferredStr := Some aLambda\<rparr>"

definition Set_str :: "string \<Rightarrow> 'd VALUE \<Rightarrow> 'd VALUE" where
  "Set_str aValue v = v\<lparr>m_type := VT_STRING, m_valueStr := aValue\<rparr>"

definition Set_value :: "'d VALUE \<Rightarrow> 'd VALUE \<Rightarrow> 'd VALUE" where
  "Set_value val v =
    (let v = v\<lparr>m_type := m_type val, m_valueDbl := m_valueDbl val\<rparr>
     in if m_type val = VT_STRING then v\<lparr>m_valueStr := m_valueStr val\<rparr> else v)"

text \<open>The comparison with a wild card always returns (\<open>String_Props\<close>); strings are compared ignoring case.\<close>

definition VALUE_EqualTo :: "'d DOUBLES \<Rightarrow> 'd VALUE \<Rightarrow> 'd VALUE \<Rightarrow> bool" where
  "VALUE_EqualTo D a b =
    (if m_type a = VT_UNDEFINED \<or> m_type b = VT_UNDEFINED then False
     else if m_type a = VT_NUMERIC \<and> m_type b = VT_NUMERIC then d_eq D (AsDouble a) (AsDouble b)
     else if m_type a = VT_STRING \<and> m_type b = VT_STRING then
       (if m_stringIsWildcard b then WildCompareString (VALUE_AsString b) (VALUE_AsString a) False = Some True
        else map toupper (VALUE_AsString a) = map toupper (VALUE_AsString b))
     else False)"

definition VALUE_NotEqualTo :: "'d DOUBLES \<Rightarrow> 'd VALUE \<Rightarrow> 'd VALUE \<Rightarrow> bool" where
  "VALUE_NotEqualTo D a b =
    (if m_type a = VT_UNDEFINED \<or> m_type b = VT_UNDEFINED then False else \<not> VALUE_EqualTo D a b)"

subsection \<open>The context of a run\<close>

text \<open>
  The stack holds pointers, which may be null, the top first; \<open>m_stackPtr\<close> is its length. A context derived from
  it adds the items the expression is about. Beyond a hundred values a push writes behind the array; that is
  \<open>Overrun\<close>, and \<open>Thrown\<close> an exception.
\<close>

record ('d, 'i) CONTEXT =
  m_stack :: "'d VALUE option list"
  has_callback :: bool
  messages :: "string list"
  m_items :: 'i

datatype 'a OUTCOME = Done 'a | Thrown 'a | Overrun

definition Push :: "'d VALUE option \<Rightarrow> ('d, 'i) CONTEXT \<Rightarrow> ('d, 'i) CONTEXT OUTCOME" where
  "Push v ctx = (if length (m_stack ctx) < 100 then Done (ctx\<lparr>m_stack := v # m_stack ctx\<rparr>) else Overrun)"

definition ReportError :: "string \<Rightarrow> ('d, 'i) CONTEXT \<Rightarrow> ('d, 'i) CONTEXT" where
  "ReportError aErrorMsg ctx = (if has_callback ctx then ctx\<lparr>messages := messages ctx @ [aErrorMsg]\<rparr> else ctx)"

definition Pop :: "'d DOUBLES \<Rightarrow> ('d, 'i) CONTEXT \<Rightarrow> 'd VALUE option \<times> ('d, 'i) CONTEXT" where
  "Pop D ctx =
    (case m_stack ctx of [] \<Rightarrow> (Some (VALUE_undefined D), ReportError ''Malformed expression'' ctx)
     | v # st \<Rightarrow> (v, ctx\<lparr>m_stack := st\<rparr>))"

definition CONTEXT_SP :: "('d, 'i) CONTEXT \<Rightarrow> nat" where "CONTEXT_SP ctx = length (m_stack ctx)"

subsection \<open>Code\<close>

text \<open>A reference to a property of an item; a function, given the reference it is called on.\<close>

record ('d, 'i) VAR_REF =
  vr_type :: VAR_TYPE_T
  vr_value :: "'i \<Rightarrow> 'd VALUE option"

type_synonym ('d, 'i) FUNC = "('d, 'i) CONTEXT \<Rightarrow> ('d, 'i) VAR_REF option \<Rightarrow> ('d, 'i) CONTEXT OUTCOME"

record ('d, 'i) UOP =
  m_op :: OP
  m_func :: "('d, 'i) FUNC option"
  m_ref :: "('d, 'i) VAR_REF option"
  m_value :: "'d VALUE option"

definition arg_double :: "'d DOUBLES \<Rightarrow> 'd VALUE option \<Rightarrow> 'd" where
  "arg_double D arg = (case arg of Some v \<Rightarrow> AsDouble v | None \<Rightarrow> d_zero D)"

text \<open>The message about two operands of different types, if there is one.\<close>

definition type_mismatch :: "'d DOUBLES \<Rightarrow> 'd VALUE option \<Rightarrow> 'd VALUE option \<Rightarrow> string list" where
  "type_mismatch D arg1 arg2 =
    (case (arg1, arg2) of (Some v1, Some v2) \<Rightarrow>
       (if m_type v1 = VT_STRING \<and> m_type v2 = VT_NUMERIC
        then [''Type mismatch between '' @ [squote] @ VALUE_AsString v1 @ [squote] @ '' and '' @ d_show D (AsDouble v2)]
        else if m_type v1 = VT_NUMERIC \<and> m_type v2 = VT_STRING
        then [''Type mismatch between '' @ d_show D (AsDouble v1) @ '' and '' @ [squote] @ VALUE_AsString v2 @ [squote]]
        else [])
     | _ \<Rightarrow> [])"

definition truth :: "'d DOUBLES \<Rightarrow> bool \<Rightarrow> 'd" where
  "truth D b = (if b then d_one D else d_zero D)"

definition nonzero :: "'d DOUBLES \<Rightarrow> 'd \<Rightarrow> bool" where
  "nonzero D x \<longleftrightarrow> \<not> d_eq D x (d_zero D)"

text \<open>Two null pointers are equal, a null pointer and another one are not.\<close>

definition binary_result :: "'d DOUBLES \<Rightarrow> OP \<Rightarrow> 'd VALUE option \<Rightarrow> 'd VALUE option \<Rightarrow> 'd" where
  "binary_result D op1 arg1 arg2 =
    (let a = arg_double D arg1; b = arg_double D arg2 in
     case op1 of
       TR_OP_ADD \<Rightarrow> d_add D a b | TR_OP_SUB \<Rightarrow> d_sub D a b | TR_OP_MUL \<Rightarrow> d_mul D a b | TR_OP_DIV \<Rightarrow> d_div D a b
     | TR_OP_LESS_EQUAL \<Rightarrow> truth D (d_le D a b) | TR_OP_GREATER_EQUAL \<Rightarrow> truth D (d_le D b a)
     | TR_OP_LESS \<Rightarrow> truth D (d_less D a b) | TR_OP_GREATER \<Rightarrow> truth D (d_less D b a)
     | TR_OP_EQUAL \<Rightarrow>
         (case (arg1, arg2) of (Some v1, Some v2) \<Rightarrow>
            truth D (if m_type v2 = VT_UNDEFINED then VALUE_EqualTo D v2 v1 else VALUE_EqualTo D v1 v2)
          | _ \<Rightarrow> truth D (arg1 = None \<and> arg2 = None))
     | TR_OP_NOT_EQUAL \<Rightarrow>
         (case (arg1, arg2) of (Some v1, Some v2) \<Rightarrow>
            truth D (if m_type v2 = VT_UNDEFINED then VALUE_NotEqualTo D v2 v1 else VALUE_NotEqualTo D v1 v2)
          | _ \<Rightarrow> truth D (\<not> (arg1 = None \<and> arg2 = None)))
     | TR_OP_BOOL_AND \<Rightarrow> truth D (nonzero D a \<and> nonzero D b)
     | TR_OP_BOOL_OR \<Rightarrow> truth D (nonzero D a \<or> nonzero D b)
     | _ \<Rightarrow> d_zero D)"

definition unary_result :: "'d DOUBLES \<Rightarrow> OP \<Rightarrow> 'd VALUE option \<Rightarrow> 'd" where
  "unary_result D op1 arg1 =
    (case op1 of TR_OP_BOOL_NOT \<Rightarrow> truth D (\<not> nonzero D (arg_double D arg1)) | _ \<Rightarrow> truth D (nonzero D (arg_double D arg1)))"

definition Exec :: "'d DOUBLES \<Rightarrow> ('d, 'i) UOP \<Rightarrow> ('d, 'i) CONTEXT \<Rightarrow> ('d, 'i) CONTEXT OUTCOME" where
  "Exec D u ctx =
    (if m_op u = TR_UOP_PUSH_VAR then
       Push (case m_ref u of Some r \<Rightarrow> vr_value r (m_items ctx) | None \<Rightarrow> Some (VALUE_undefined D)) ctx
     else if m_op u = TR_UOP_PUSH_VALUE then Push (m_value u) ctx
     else if m_op u = TR_OP_METHOD_CALL then (case m_func u of None \<Rightarrow> Thrown ctx | Some f \<Rightarrow> f ctx (m_ref u))
     else if is_binary (m_op u) then
       (let (arg2, ctx) = Pop D ctx; (arg1, ctx) = Pop D ctx;
            ctx = (if has_callback ctx then fold ReportError (type_mismatch D arg1 arg2) ctx else ctx)
        in Push (Some (VALUE_num D (binary_result D (m_op u) arg1 arg2))) ctx)
     else if is_unary (m_op u) then
       (let (arg1, ctx) = Pop D ctx in Push (Some (VALUE_num D (unary_result D (m_op u) arg1))) ctx)
     else Done ctx)"

fun exec_all :: "'d DOUBLES \<Rightarrow> ('d, 'i) UOP list \<Rightarrow> ('d, 'i) CONTEXT \<Rightarrow> ('d, 'i) CONTEXT OUTCOME" where
  "exec_all D [] ctx = Done ctx"
| "exec_all D (u # code) ctx = (case Exec D u ctx of Done ctx' \<Rightarrow> exec_all D code ctx' | Thrown ctx' \<Rightarrow> Thrown ctx' | Overrun \<Rightarrow> Overrun)"

text \<open>A rule that fails gives the number 0.\<close>

definition UCODE_Run :: "'d DOUBLES \<Rightarrow> ('d, 'i) UOP list \<Rightarrow> ('d, 'i) CONTEXT \<Rightarrow> ('d VALUE option \<times> ('d, 'i) CONTEXT) OUTCOME" where
  "UCODE_Run D m_ucode ctx =
    (case exec_all D m_ucode ctx of Overrun \<Rightarrow> Overrun
     | Thrown ctx' \<Rightarrow> Done (Some (VALUE_num D (d_zero D)), ctx')
     | Done ctx' \<Rightarrow>
         (if CONTEXT_SP ctx' = 1 then (let (v, ctx'') = Pop D ctx' in Done (v, ctx''))
          else Done (Some (VALUE_num D (d_zero D)), ctx')))"

subsection \<open>The tree\<close>

datatype TREE_NODE =
  NODE (nd_op: OP) (nd_str: "string option") (nd_idx: int) (srcPos: int) (leaf0: "TREE_NODE option") (leaf1: "TREE_NODE option")

definition newNode :: "int \<Rightarrow> OP \<Rightarrow> string option \<Rightarrow> int \<Rightarrow> TREE_NODE" where
  "newNode sourcePos op1 str idx = NODE op1 str idx sourcePos None None"

text \<open>The actions of the grammar; \<open>sourcePos\<close> is the position of the lexer when they run.\<close>

definition nt_value :: "int \<Rightarrow> string \<Rightarrow> TREE_NODE" where
  "nt_value sourcePos s = newNode sourcePos TR_NUMBER (Some s) 0"

definition nt_value_unit :: "int \<Rightarrow> string \<Rightarrow> int \<Rightarrow> TREE_NODE" where
  "nt_value_unit sourcePos s idx = NODE TR_NUMBER (Some s) 0 sourcePos (Some (newNode sourcePos TR_UNIT None idx)) None"

definition nt_string :: "int \<Rightarrow> string \<Rightarrow> TREE_NODE" where
  "nt_string sourcePos s = newNode sourcePos TR_STRING (Some s) 0"

definition nt_identifier :: "int \<Rightarrow> string \<Rightarrow> TREE_NODE" where
  "nt_identifier sourcePos s = newNode sourcePos TR_IDENTIFIER (Some s) 0"

text \<open>Comma, dot and the binary operators.\<close>

definition nt_pair :: "int \<Rightarrow> OP \<Rightarrow> TREE_NODE \<Rightarrow> TREE_NODE \<Rightarrow> TREE_NODE" where
  "nt_pair sourcePos op1 b c = NODE op1 None 0 sourcePos (Some b) (Some c)"

definition nt_not :: "int \<Rightarrow> TREE_NODE \<Rightarrow> TREE_NODE" where
  "nt_not sourcePos b = NODE TR_OP_BOOL_NOT None 0 sourcePos (Some b) None"

text \<open>A sign plus, and parentheses.\<close>

definition nt_copy :: "int \<Rightarrow> TREE_NODE \<Rightarrow> TREE_NODE" where
  "nt_copy sourcePos b = NODE (nd_op b) (nd_str b) (nd_idx b) sourcePos (leaf0 b) (leaf1 b)"

definition nt_minus :: "int \<Rightarrow> TREE_NODE \<Rightarrow> TREE_NODE" where
  "nt_minus sourcePos b = NODE TR_OP_SUB None 0 sourcePos (Some (newNode sourcePos TR_NUMBER None 0)) (Some b)"

definition nt_call :: "int \<Rightarrow> string \<Rightarrow> TREE_NODE \<Rightarrow> TREE_NODE" where
  "nt_call sourcePos f b = NODE TR_OP_FUNC_CALL None 0 sourcePos (Some (newNode sourcePos TR_IDENTIFIER (Some f) 0)) (Some b)"

definition nt_call_none :: "int \<Rightarrow> string \<Rightarrow> TREE_NODE" where
  "nt_call_none sourcePos f = nt_call sourcePos f (newNode sourcePos TR_NULL None 0)"

definition pair_ops :: "OP list" where
  "pair_ops = [TR_ARG_LIST, TR_STRUCT_REF, TR_OP_LESS, TR_OP_GREATER, TR_OP_LESS_EQUAL, TR_OP_GREATER_EQUAL, TR_OP_NOT_EQUAL,
     TR_OP_EQUAL, TR_OP_BOOL_AND, TR_OP_BOOL_OR, TR_OP_ADD, TR_OP_SUB, TR_OP_MUL, TR_OP_DIV]"

text \<open>The trees these actions build.\<close>

inductive parsed :: "TREE_NODE \<Rightarrow> bool" where
  p_value: "parsed (nt_value pos s)"
| p_unit: "parsed (nt_value_unit pos s idx)"
| p_str: "parsed (nt_string pos s)"
| p_identifier: "parsed (nt_identifier pos s)"
| p_pair: "op1 \<in> set pair_ops \<Longrightarrow> parsed b \<Longrightarrow> parsed c \<Longrightarrow> parsed (nt_pair pos op1 b c)"
| p_negation: "parsed b \<Longrightarrow> parsed (nt_not pos b)"
| p_copy: "parsed b \<Longrightarrow> parsed (nt_copy pos b)"
| p_minus: "parsed b \<Longrightarrow> parsed (nt_minus pos b)"
| p_call: "parsed b \<Longrightarrow> parsed (nt_call pos f b)"
| p_call_none: "parsed (nt_call_none pos f)"

subsection \<open>Tokens\<close>

record TOKENIZER =
  tz_str :: string
  tz_pos :: nat

definition tz_GetChar :: "TOKENIZER \<Rightarrow> char" where
  "tz_GetChar z = (if tz_pos z \<ge> length (tz_str z) then CHR 0x00 else tz_str z ! tz_pos z)"

definition tz_Done :: "TOKENIZER \<Rightarrow> bool" where "tz_Done z \<longleftrightarrow> tz_pos z \<ge> length (tz_str z)"

definition tz_NextChar :: "nat \<Rightarrow> TOKENIZER \<Rightarrow> TOKENIZER" where
  "tz_NextChar aAdvance z = z\<lparr>tz_pos := tz_pos z + aAdvance\<rparr>"

text \<open>The text up to the closing quote and what stands from there on.\<close>

fun string_loop :: "string \<Rightarrow> string \<times> string" where
  "string_loop [] = ([], [])"
| "string_loop (c # r) =
    (if c = squote then ([], c # r)
     else if c = bslash \<and> r \<noteq> [] \<and> hd r = squote then apfst (Cons squote) (string_loop (tl r))
     else apfst (Cons c) (string_loop r))"

definition tz_GetString :: "TOKENIZER \<Rightarrow> string \<times> TOKENIZER" where
  "tz_GetString z =
    (let ahead = drop (tz_pos z) (tz_str z); (rv, rest) = string_loop ahead
     in (rv, tz_NextChar (length ahead - length rest + 1) z))"

definition tz_GetChars :: "(char \<Rightarrow> bool) \<Rightarrow> TOKENIZER \<Rightarrow> string" where
  "tz_GetChars cond z = takeWhile cond (drop (tz_pos z) (tz_str z))"

definition tz_MatchAhead :: "string \<Rightarrow> (char \<Rightarrow> bool) \<Rightarrow> TOKENIZER \<Rightarrow> bool" where
  "tz_MatchAhead m stopCond z =
    (let ahead = drop (tz_pos z) (tz_str z) in
     take (length m) ahead = m \<and> (length ahead = length m \<or> stopCond (ahead ! length m)))"

datatype G_TOKEN =
  G_ENDS | G_VALUE | G_UNIT | G_STRING | G_IDENTIFIER | G_EQUAL | G_NOT_EQUAL | G_LESS_EQUAL_THAN | G_GREATER_EQUAL_THAN
| G_BOOL_AND | G_BOOL_OR | G_PLUS | G_BOOL_NOT | G_MINUS | G_MULT | G_DIVIDE | G_LESS_THAN | G_GREATER_THAN
| G_PARENL | G_PARENR | G_SEMCOL | G_STRUCT_REF | G_COMMA

record T_TOKEN =
  tk_token :: G_TOKEN
  tk_str :: "string option"
  tk_idx :: int

datatype COMPILATION_STAGE = CST_PARSE | CST_CODEGEN | CST_RUNTIME

record COMPILER =
  m_tokenizer :: TOKENIZER
  in_string :: bool
  m_sourcePos :: int
  m_parseFinished :: bool
  m_errorStatus :: "(COMPILATION_STAGE \<times> string \<times> int) list"
  m_tree :: "TREE_NODE option"

definition reportError :: "COMPILATION_STAGE \<Rightarrow> string \<Rightarrow> int \<Rightarrow> COMPILER \<Rightarrow> COMPILER" where
  "reportError stage aErrorMsg aPos c =
    c\<lparr>m_errorStatus := m_errorStatus c @ [(stage, aErrorMsg, if aPos = - 1 then m_sourcePos c else aPos)]\<rparr>"

definition is_alpha :: "char \<Rightarrow> bool" where
  "is_alpha c \<longleftrightarrow> (97 \<le> (of_char c :: nat) \<and> (of_char c :: nat) \<le> 122) \<or> (65 \<le> (of_char c :: nat) \<and> (of_char c :: nat) \<le> 90)"

definition is_alnum :: "char \<Rightarrow> bool" where "is_alnum c \<longleftrightarrow> is_alpha c \<or> is_digit c"

definition isDecimalSeparator :: "char \<Rightarrow> bool" where "isDecimalSeparator ch \<longleftrightarrow> ch = CHR ''.'' \<or> ch = CHR '',''"

text \<open>\<open>extractNumber\<close>: the characters it takes; \<open>haveSeparator\<close> holds once there was one.\<close>

fun number_chars :: "bool \<Rightarrow> string \<Rightarrow> string" where
  "number_chars haveSeparator [] = []"
| "number_chars haveSeparator (ch # r) =
    (if isDecimalSeparator ch \<and> haveSeparator then []
     else ch # (if r \<noteq> [] \<and> (is_digit (hd r) \<or> isDecimalSeparator (hd r))
                then number_chars (haveSeparator \<or> isDecimalSeparator ch) r else []))"

definition extractNumber :: "TOKENIZER \<Rightarrow> string \<times> TOKENIZER" where
  "extractNumber z =
    (let current = number_chars False (drop (tz_pos z) (tz_str z))
     in (map (\<lambda>ch. if isDecimalSeparator ch then CHR ''.'' else ch) current, tz_NextChar (length current) z))"

fun resolveUnits :: "string list \<Rightarrow> int \<Rightarrow> TOKENIZER \<Rightarrow> (int \<times> TOKENIZER) option" where
  "resolveUnits [] unitId z = None"
| "resolveUnits (unitName # us) unitId z =
    (if tz_MatchAhead unitName (\<lambda>c. \<not> is_alnum c) z then Some (unitId, tz_NextChar (length unitName) z)
     else resolveUnits us (unitId + 1) z)"

definition two_chars :: "(string \<times> char \<times> G_TOKEN) list" where
  "two_chars = [(''=='', CHR ''='', G_EQUAL), (''!='', CHR ''='', G_NOT_EQUAL), (''<='', CHR ''='', G_LESS_EQUAL_THAN),
     (''>='', CHR ''='', G_GREATER_EQUAL_THAN), (''&&'', CHR ''&'', G_BOOL_AND), (''||'', CHR ''|'', G_BOOL_OR)]"

definition one_char :: "char \<Rightarrow> G_TOKEN option" where
  "one_char = map_of [(CHR ''+'', G_PLUS), (CHR ''!'', G_BOOL_NOT), (CHR ''-'', G_MINUS), (CHR ''*'', G_MULT), (CHR ''/'', G_DIVIDE),
     (CHR ''<'', G_LESS_THAN), (CHR ''>'', G_GREATER_THAN), (CHR ''('', G_PARENL), (CHR '')'', G_PARENR), (CHR '';'', G_SEMCOL),
     (CHR ''.'', G_STRUCT_REF), (CHR '','', G_COMMA)]"

definition no_token :: T_TOKEN where "no_token = \<lparr>tk_token = G_ENDS, tk_str = None, tk_idx = - 1\<rparr>"

text \<open>The first of the operators of two characters that is there and not followed by its last character once more.\<close>

definition find_two :: "TOKENIZER \<Rightarrow> G_TOKEN option" where
  "find_two z = map_option (\<lambda>(m, e, t). t) (find (\<lambda>(m, e, t). tz_MatchAhead m (\<lambda>c. c \<noteq> e) z) two_chars)"

text \<open>The choice by the first character behind the blanks; \<open>None\<close> stands for the answer false, when a string comes next.\<close>

definition lex_char :: "string list \<Rightarrow> char \<Rightarrow> COMPILER \<Rightarrow> T_TOKEN option \<times> COMPILER" where
  "lex_char units ch c =
    (let z = m_tokenizer c in
     if ch = CHR 0x00 then (Some no_token, c)
     else if is_digit ch then
       (let (current, z') = extractNumber z in (Some \<lparr>tk_token = G_VALUE, tk_str = Some current, tk_idx = - 1\<rparr>, c\<lparr>m_tokenizer := z'\<rparr>))
     else
       (case resolveUnits units 0 z of
          Some (convertFrom, z') \<Rightarrow> (Some \<lparr>tk_token = G_UNIT, tk_str = None, tk_idx = convertFrom\<rparr>, c\<lparr>m_tokenizer := z'\<rparr>)
        | None \<Rightarrow>
            if ch = squote then (None, c\<lparr>in_string := True, m_tokenizer := tz_NextChar 1 z\<rparr>)
            else if is_alpha ch \<or> ch = CHR ''_'' then
              (let current = tz_GetChars (\<lambda>c. is_alnum c \<or> c = CHR ''_'') z
               in (Some \<lparr>tk_token = G_IDENTIFIER, tk_str = Some current, tk_idx = - 1\<rparr>, c\<lparr>m_tokenizer := tz_NextChar (length current) z\<rparr>))
            else
              (case find_two z of
                 Some t \<Rightarrow> (Some (no_token\<lparr>tk_token := t\<rparr>), c\<lparr>m_tokenizer := tz_NextChar 2 z\<rparr>)
               | None \<Rightarrow>
                   (let c' = c\<lparr>m_tokenizer := tz_NextChar 1 z\<rparr> in
                    case one_char ch of Some t \<Rightarrow> (Some (no_token\<lparr>tk_token := t\<rparr>), c')
                    | None \<Rightarrow> (Some no_token, reportError CST_PARSE (''Unrecognized character '' @ [squote, ch, squote]) (- 1) c')))))"

definition lexDefault :: "string list \<Rightarrow> COMPILER \<Rightarrow> T_TOKEN option \<times> COMPILER" where
  "lexDefault units c =
    (if tz_Done (m_tokenizer c) then (Some no_token, c)
     else
       (let z = m_tokenizer c; z = tz_NextChar (length (tz_GetChars (\<lambda>ch. ch = CHR '' '') z)) z
        in lex_char units (tz_GetChar z) (c\<lparr>m_tokenizer := z\<rparr>)))"

definition lexString :: "COMPILER \<Rightarrow> T_TOKEN \<times> COMPILER" where
  "lexString c =
    (let (s, z) = tz_GetString (m_tokenizer c)
     in (\<lparr>tk_token = G_STRING, tk_str = Some s, tk_idx = 0\<rparr>, c\<lparr>m_tokenizer := z, in_string := False\<rparr>))"

definition getToken :: "string list \<Rightarrow> COMPILER \<Rightarrow> T_TOKEN \<times> COMPILER" where
  "getToken units c =
    (if in_string c then lexString c
     else (case lexDefault units c of (Some t, c') \<Rightarrow> (t, c') | (None, c') \<Rightarrow> lexString c'))"

subsection \<open>Generating code\<close>

text \<open>What the editor provides: its items and functions, its units, and numbers from text.\<close>

record ('d, 'i) EDITOR =
  CreateVarRef :: "string \<Rightarrow> string \<Rightarrow> ('d, 'i) VAR_REF option"
  CreateFuncCall :: "string \<Rightarrow> ('d, 'i) FUNC option"
  supported_units :: "string list"
  units_message :: string
  unit_Convert :: "string \<Rightarrow> int \<Rightarrow> 'd"
  DoubleValueFromString :: "string \<Rightarrow> 'd"

text \<open>
  A node is named by the way to it from the root, the second leaf being \<open>True\<close>. Marks and code of the nodes stand
  beside the tree; \<open>g_pre\<close> is the context of the trial calls.
\<close>

type_synonym ADDR = "bool list"

fun node_at :: "TREE_NODE \<Rightarrow> ADDR \<Rightarrow> TREE_NODE option" where
  "node_at t [] = Some t"
| "node_at t (b # p) = (case (if b then leaf1 t else leaf0 t) of None \<Rightarrow> None | Some s \<Rightarrow> node_at s p)"

record ('d, 'i) GEN =
  g_stack :: "ADDR list"
  g_visited :: "ADDR set"
  g_uops :: "ADDR \<Rightarrow> ('d, 'i) UOP option"
  g_code :: "('d, 'i) UOP list"
  g_comp :: COMPILER
  g_pre :: "('d, 'i) CONTEXT"

definition formatNode :: "TREE_NODE \<Rightarrow> string" where
  "formatNode node = (case nd_str node of Some s \<Rightarrow> s | None \<Rightarrow> [])"

definition gen_error :: "string \<Rightarrow> int \<Rightarrow> ('d, 'i) GEN \<Rightarrow> ('d, 'i) GEN" where
  "gen_error msg pos G = G\<lparr>g_comp := reportError CST_CODEGEN msg pos (g_comp G)\<rparr>"

definition visit :: "ADDR list \<Rightarrow> ('d, 'i) GEN \<Rightarrow> ('d, 'i) GEN" where
  "visit ps G = G\<lparr>g_visited := g_visited G \<union> set ps\<rparr>"

definition SetUop :: "ADDR \<Rightarrow> ('d, 'i) UOP \<Rightarrow> ('d, 'i) GEN \<Rightarrow> ('d, 'i) GEN" where
  "SetUop p u G = G\<lparr>g_uops := (g_uops G)(p := Some u)\<rparr>"

definition UOP_value :: "'d VALUE \<Rightarrow> ('d, 'i) UOP" where
  "UOP_value v = \<lparr>m_op = TR_UOP_PUSH_VALUE, m_func = None, m_ref = None, m_value = Some v\<rparr>"

definition UOP_ref :: "OP \<Rightarrow> ('d, 'i) VAR_REF option \<Rightarrow> ('d, 'i) UOP" where
  "UOP_ref op1 vref = \<lparr>m_op = op1, m_func = None, m_ref = vref, m_value = None\<rparr>"

definition UOP_call :: "('d, 'i) FUNC option \<Rightarrow> ('d, 'i) VAR_REF option \<Rightarrow> ('d, 'i) UOP" where
  "UOP_call func vref = \<lparr>m_op = TR_OP_METHOD_CALL, m_func = func, m_ref = vref, m_value = None\<rparr>"

text \<open>The arguments, found from the last one on: \<open>n\<close> is the node at \<open>q\<close>.\<close>

fun squash_loop :: "ADDR \<Rightarrow> TREE_NODE \<Rightarrow> ADDR list" where
  "squash_loop q (NODE op1 s i pos l0 l1) =
    (case l1 of None \<Rightarrow> [] | Some _ \<Rightarrow> [q @ [True]]) @
    (case l0 of None \<Rightarrow> []
     | Some m \<Rightarrow> if nd_op m = TR_ARG_LIST then squash_loop (q @ [False]) m else [q @ [False]])"

definition squashParamList :: "ADDR \<Rightarrow> TREE_NODE \<Rightarrow> ADDR list" where
  "squashParamList q root = rev (if nd_op root \<noteq> TR_ARG_LIST \<and> nd_op root \<noteq> TR_NULL then [q] else squash_loop q root)"

fun push_all :: "'d VALUE list \<Rightarrow> ('d, 'i) CONTEXT \<Rightarrow> ('d, 'i) CONTEXT OUTCOME" where
  "push_all [] ctx = Done ctx"
| "push_all (v # vs) ctx = (case Push (Some v) ctx of Done ctx' \<Rightarrow> push_all vs ctx' | r \<Rightarrow> r)"

text \<open>
  The trial call: the arguments are pushed as texts, what the function reports is returned. \<open>None\<close>, here and in what
  follows, is a write behind the stack or a read through a null pointer.
\<close>

definition preflight :: "'d DOUBLES \<Rightarrow> ('d, 'i) FUNC \<Rightarrow> ('d, 'i) VAR_REF option \<Rightarrow> string list \<Rightarrow> ('d, 'i) CONTEXT \<Rightarrow>
    (string list \<times> ('d, 'i) CONTEXT) option" where
  "preflight D func vref params ctx =
    (case push_all (map (\<lambda>s. Set_str s (VALUE_undefined D)) params) ctx of
       Done ctx1 \<Rightarrow>
         (case func (ctx1\<lparr>has_callback := True, messages := []\<rparr>) vref of
            Done ctx2 \<Rightarrow> (let ctx3 = snd (Pop D ctx2) in Some (messages ctx3, ctx3\<lparr>messages := []\<rparr>))
          | Thrown ctx2 \<Rightarrow> Some (messages ctx2, ctx2\<lparr>messages := []\<rparr>)
          | Overrun \<Rightarrow> None)
     | _ \<Rightarrow> None)"

definition unrecognized :: "string \<Rightarrow> string \<Rightarrow> string" where
  "unrecognized what name = ''Unrecognized '' @ what @ '' '' @ [squote] @ name @ [squote]"

text \<open>The end of the loop's body for a node that is done.\<close>

definition gen_finish :: "ADDR \<Rightarrow> ADDR list \<Rightarrow> ('d, 'i) GEN \<Rightarrow> ('d, 'i) GEN" where
  "gen_finish p rest G =
    G\<lparr>g_visited := insert p (g_visited G), g_code := g_code G @ (case g_uops G p of Some u \<Rightarrow> [u] | None \<Rightarrow> []),
      g_uops := (g_uops G)(p := None), g_stack := rest\<rparr>"

definition item_error :: "TREE_NODE \<Rightarrow> ('d, 'i) VAR_REF option \<Rightarrow> ('d, 'i) GEN \<Rightarrow> ('d, 'i) GEN" where
  "item_error node vref G =
    (case vref of None \<Rightarrow> gen_error (unrecognized ''item'' (formatNode node)) (srcPos node - int (length (formatNode node))) G
     | Some _ \<Rightarrow> G)"

text \<open>A call of a function of an item: \<open>obj\<close> and \<open>fcall\<close> are the leaves.\<close>

definition gen_method :: "'d DOUBLES \<Rightarrow> ('d, 'i) EDITOR \<Rightarrow> TREE_NODE \<Rightarrow> ADDR \<Rightarrow> ADDR list \<Rightarrow> TREE_NODE \<Rightarrow> TREE_NODE \<Rightarrow> ('d, 'i) GEN \<Rightarrow> ('d, 'i) GEN option" where
  "gen_method D E t p rest obj fcall G =
    (case (leaf0 fcall, leaf1 fcall) of
       (Some fname, Some args) \<Rightarrow>
         (let vref = CreateVarRef E (formatNode obj) [];
              G1 = item_error obj vref G;
              func = CreateFuncCall E (formatNode fname);
              params = squashParamList (p @ [True, True]) args;
              G2 = (case func of None \<Rightarrow> gen_error (unrecognized ''function'' (formatNode fname)) (srcPos obj + 1) G1 | Some f \<Rightarrow> G1)
          in case (case func of None \<Rightarrow> Some G2
                   | Some f \<Rightarrow>
                       (case preflight D f vref (map (\<lambda>q. formatNode (the (node_at t q))) params) (g_pre G2) of None \<Rightarrow> None
                        | Some (msgs, pre) \<Rightarrow> Some (fold (\<lambda>m. gen_error m (srcPos args - 1)) msgs (G2\<lparr>g_pre := pre\<rparr>)))) of
               None \<Rightarrow> None
             | Some G3 \<Rightarrow>
                 Some (SetUop (p @ [True]) (UOP_call func vref)
                   ((visit [p @ [False], p @ [True], p @ [True, False], p @ [True, True]] G3)\<lparr>g_stack := rev params @ [p @ [True]] @ rest\<rparr>)))
     | _ \<Rightarrow> None)"

definition gen_struct_ref :: "'d DOUBLES \<Rightarrow> ('d, 'i) EDITOR \<Rightarrow> TREE_NODE \<Rightarrow> ADDR \<Rightarrow> ADDR list \<Rightarrow> TREE_NODE \<Rightarrow> ('d, 'i) GEN \<Rightarrow> ('d, 'i) GEN option" where
  "gen_struct_ref D E t p rest node G =
    (case (leaf0 node, leaf1 node) of
       (Some obj, Some fld) \<Rightarrow>
         (let zero = SetUop p (UOP_value (VALUE_num D (d_zero D))); seen = visit [p @ [False], p @ [True]];
              itemName = formatNode obj; propName = formatNode fld; propPos = srcPos fld - int (length propName) in
          if nd_op obj \<noteq> TR_IDENTIFIER then
            Some (gen_finish p rest (zero (seen (gen_error ''Unknown parent of property''
              (srcPos obj - (case nd_str obj of Some s \<Rightarrow> int (length s) | None \<Rightarrow> 0)) G))))
          else if nd_op fld = TR_IDENTIFIER then
            (let vref = CreateVarRef E itemName propName;
                 G1 = (case vref of None \<Rightarrow> item_error obj vref G
                       | Some r \<Rightarrow> if vr_type r = VT_PARSE_ERROR then gen_error (unrecognized ''property'' propName) propPos G else G)
             in Some (gen_finish p rest (SetUop p (UOP_ref TR_UOP_PUSH_VAR vref) (seen G1))))
          else if nd_op fld = TR_OP_FUNC_CALL then gen_method D E t p rest obj fld G
          else
            (let G1 = item_error obj (CreateVarRef E itemName propName) G
             in Some (gen_finish p rest (zero (seen (gen_error (unrecognized ''property'' propName) (srcPos obj + 1) G1))))))
     | _ \<Rightarrow> None)"

definition gen_number :: "'d DOUBLES \<Rightarrow> ('d, 'i) EDITOR \<Rightarrow> TREE_NODE \<Rightarrow> ('d, 'i) GEN \<Rightarrow> 'd \<times> ('d, 'i) GEN" where
  "gen_number D E node G =
    (case nd_str node of None \<Rightarrow> (d_zero D, G)
     | Some s \<Rightarrow>
         (case leaf0 node of
            Some (NODE TR_UNIT x idx pos l0 l1) \<Rightarrow>
              (unit_Convert E s idx,
               if supported_units E = [] then gen_error (''Unexpected units for '' @ [squote] @ s @ [squote]) (srcPos node) G else G)
          | _ \<Rightarrow>
              (DoubleValueFromString E s,
               if units_message E \<noteq> [] then gen_error (''Missing units for '' @ [squote] @ s @ [squote] @ ''| ('' @ units_message E @ '')'') (srcPos node) G
               else G)))"

text \<open>Any other node: its code is set, and it is done once its leaves were visited.\<close>

definition gen_default :: "ADDR \<Rightarrow> ADDR list \<Rightarrow> TREE_NODE \<Rightarrow> ('d, 'i) GEN \<Rightarrow> ('d, 'i) GEN" where
  "gen_default p rest node G =
    (let G1 = SetUop p (UOP_ref (nd_op node) None) G;
         todo0 = (leaf0 node \<noteq> None \<and> p @ [False] \<notin> g_visited G1); todo1 = (leaf1 node \<noteq> None \<and> p @ [True] \<notin> g_visited G1)
     in if todo0 then (visit [p @ [False]] G1)\<lparr>g_stack := (p @ [False]) # p # rest\<rparr>
        else if todo1 then (visit [p @ [True]] G1)\<lparr>g_stack := (p @ [True]) # p # rest\<rparr>
        else gen_finish p rest G1)"

definition gen_step :: "'d DOUBLES \<Rightarrow> ('d, 'i) EDITOR \<Rightarrow> TREE_NODE \<Rightarrow> ADDR \<Rightarrow> ADDR list \<Rightarrow> ('d, 'i) GEN \<Rightarrow> ('d, 'i) GEN option" where
  "gen_step D E t p rest G =
    (case node_at t p of None \<Rightarrow> None
     | Some node \<Rightarrow>
         (case nd_op node of
            TR_OP_FUNC_CALL \<Rightarrow>
              Some (gen_finish p rest (case g_uops G p of None \<Rightarrow> gen_error ''Unknown parent of function parameters'' (srcPos node) G | Some u \<Rightarrow> G))
          | TR_STRUCT_REF \<Rightarrow> gen_struct_ref D E t p rest node G
          | TR_NUMBER \<Rightarrow> (let (v, G1) = gen_number D E node G in Some (gen_finish p rest (SetUop p (UOP_value (VALUE_num D v)) G1)))
          | TR_STRING \<Rightarrow>
              (let s = formatNode node; isWildcard = (CHR ''?'' \<in> set s \<or> CHR ''*'' \<in> set s)
               in Some (gen_finish p rest (SetUop p (UOP_value (VALUE_str D s isWildcard)) G)))
          | TR_IDENTIFIER \<Rightarrow>
              (let vref = CreateVarRef E (formatNode node) []
               in Some (gen_finish p rest (SetUop p (UOP_ref TR_UOP_PUSH_VAR vref) (item_error node vref G))))
          | _ \<Rightarrow> Some (gen_default p rest node G)))"

partial_function (option) gen_loop :: "'d DOUBLES \<Rightarrow> ('d, 'i) EDITOR \<Rightarrow> TREE_NODE \<Rightarrow> ('d, 'i) GEN \<Rightarrow> ('d, 'i) GEN option" where
  "gen_loop D E t G =
    (case g_stack G of [] \<Rightarrow> Some G
     | p # rest \<Rightarrow> (case gen_step D E t p rest G of None \<Rightarrow> None | Some G' \<Rightarrow> gen_loop D E t G'))"

declare gen_loop.simps [code]

text \<open>\<open>prepareTree\<close> takes all marks away; no node has code of its own yet.\<close>

definition generateUCode :: "'d DOUBLES \<Rightarrow> ('d, 'i) EDITOR \<Rightarrow> ('d, 'i) UOP list \<Rightarrow> ('d, 'i) CONTEXT \<Rightarrow> COMPILER \<Rightarrow>
    (('d, 'i) UOP list \<times> ('d, 'i) CONTEXT \<times> COMPILER) option" where
  "generateUCode D E aCode aPreflightContext c =
    (case m_tree c of None \<Rightarrow> Some (aCode @ [UOP_value (VALUE_num D (d_one D))], aPreflightContext, c)
     | Some t \<Rightarrow>
         map_option (\<lambda>G. (g_code G, g_pre G, g_comp G))
           (gen_loop D E t \<lparr>g_stack = [[]], g_visited = {}, g_uops = (\<lambda>p. None), g_code = aCode, g_comp = c, g_pre = aPreflightContext\<rparr>))"

subsection \<open>Compiling a text\<close>

text \<open>
  The parser is generated from the grammar: a parameter that takes a token, or nothing when it is reset, and the
  position, and has actions run. \<open>newString\<close> leaves errors of an earlier text pending, as the code does.
\<close>

datatype PARSE_EVENT = Set_root TREE_NODE | Parse_error string | Parse_ok

type_synonym 'p PARSER = "'p \<Rightarrow> T_TOKEN option \<Rightarrow> int \<Rightarrow> 'p \<times> PARSE_EVENT list"

fun parse_event :: "PARSE_EVENT \<Rightarrow> COMPILER \<Rightarrow> COMPILER" where
  "parse_event (Set_root t) c = c\<lparr>m_tree := Some t\<rparr>"
| "parse_event (Parse_error s) c = reportError CST_PARSE s (- 1) c"
| "parse_event Parse_ok c = c\<lparr>m_parseFinished := True\<rparr>"

definition newString :: "string \<Rightarrow> COMPILER \<Rightarrow> COMPILER" where
  "newString aString c =
    c\<lparr>m_tree := None, in_string := False, m_tokenizer := \<lparr>tz_str = aString, tz_pos = 0\<rparr>, m_parseFinished := False\<rparr>"

text \<open>The loop over the tokens: whether it ended without an error, the parser and the compiler.\<close>

partial_function (option) feed_parser :: "'p PARSER \<Rightarrow> string list \<Rightarrow> 'p \<Rightarrow> COMPILER \<Rightarrow> (bool \<times> 'p \<times> COMPILER) option" where
  "feed_parser Parse units m_parser c =
    (let c = c\<lparr>m_sourcePos := int (tz_pos (m_tokenizer c))\<rparr>; (tok, c) = getToken units c;
         (m_parser, evs) = Parse m_parser (Some tok) (m_sourcePos c); c = fold parse_event evs c
     in if m_errorStatus c \<noteq> [] then Some (False, m_parser, c)
        else if m_parseFinished c \<or> tk_token tok = G_ENDS then
          (let (m_parser, evs) = Parse m_parser None (m_sourcePos c) in Some (True, m_parser, fold parse_event evs c))
        else feed_parser Parse units m_parser c)"

declare feed_parser.simps [code]

definition Compile :: "'p PARSER \<Rightarrow> 'd DOUBLES \<Rightarrow> ('d, 'i) EDITOR \<Rightarrow> string \<Rightarrow> ('d, 'i) UOP list \<Rightarrow> ('d, 'i) CONTEXT \<Rightarrow> 'p \<times> COMPILER \<Rightarrow>
    (bool \<times> ('d, 'i) UOP list \<times> ('d, 'i) CONTEXT \<times> 'p \<times> COMPILER) option" where
  "Compile Parse D E aString aCode aPreflightContext st =
    (let (m_parser, c) = st; c = newString aString c in
     case (if aString = [] then Some (True, m_parser, c\<lparr>m_parseFinished := True\<rparr>) else feed_parser Parse (supported_units E) m_parser c) of
       None \<Rightarrow> None
     | Some (False, m_parser, c) \<Rightarrow> Some (False, aCode, aPreflightContext, m_parser, c)
     | Some (True, m_parser, c) \<Rightarrow>
         (case generateUCode D E aCode aPreflightContext c of None \<Rightarrow> None
          | Some (code, pre, c) \<Rightarrow> Some (True, code, pre, m_parser, c)))"

definition COMPILER_new :: COMPILER where
  "COMPILER_new = \<lparr>m_tokenizer = \<lparr>tz_str = [], tz_pos = 0\<rparr>, in_string = False, m_sourcePos = 0, m_parseFinished = False,
     m_errorStatus = [], m_tree = None\<rparr>"

end
