(* ===== verification/Libeval_Lex.thy ===== *)
theory Libeval_Lex
  imports Libeval
begin

text \<open>
  Properties of the lexer of rule expressions: every token but the last takes characters off the text, so that a
  text is fed to the parser in finitely many steps; a text made of items is read as these items.
\<close>

subsection \<open>Progress\<close>

lemma resolveUnits_pos: "resolveUnits us n z = Some (i, z') \<Longrightarrow> [] \<notin> set us \<Longrightarrow> tz_str z' = tz_str z \<and> tz_pos z < tz_pos z'"
  by (induction us n z rule: resolveUnits.induct) (auto simp: tz_NextChar_def split: if_splits)

lemma number_chars_nonempty: "number_chars False (ch # r) \<noteq> []"
  by simp

text \<open>What a step of the lexer does to the compiler's state.\<close>

definition lex_moves :: "COMPILER \<Rightarrow> COMPILER \<Rightarrow> bool" where
  "lex_moves c c' \<longleftrightarrow> tz_str (m_tokenizer c') = tz_str (m_tokenizer c) \<and> tz_pos (m_tokenizer c) < tz_pos (m_tokenizer c') \<and>
    m_errorStatus c' = m_errorStatus c"

lemma lex_char_moves:
  assumes "lex_char units (tz_GetChar (m_tokenizer c)) c = (r, c')" "[] \<notin> set units" "\<not> in_string c"
  shows "(case r of None \<Rightarrow> lex_moves c c' \<and> in_string c' | Some t \<Rightarrow> \<not> in_string c' \<and> (tk_token t \<noteq> G_ENDS \<longrightarrow> lex_moves c c'))"
proof -
  have ahead: "drop (tz_pos (m_tokenizer c)) (tz_str (m_tokenizer c)) =
      tz_GetChar (m_tokenizer c) # drop (tz_pos (m_tokenizer c) + 1) (tz_str (m_tokenizer c))" if "tz_GetChar (m_tokenizer c) \<noteq> CHR 0x00"
    using that by (cases "tz_pos (m_tokenizer c) < length (tz_str (m_tokenizer c))") (simp_all add: tz_GetChar_def Cons_nth_drop_Suc)
  show ?thesis
    using assms ahead
    by (auto simp: lex_char_def lex_moves_def Let_def extractNumber_def tz_NextChar_def tz_GetChars_def no_token_def reportError_def is_alnum_def
        dest!: resolveUnits_pos split: if_splits option.splits)
qed

lemma lexDefault_moves:
  assumes "lexDefault units c = (r, c')" "[] \<notin> set units" "\<not> in_string c"
  shows "(case r of None \<Rightarrow> lex_moves c c' \<and> in_string c' | Some t \<Rightarrow> \<not> in_string c' \<and> (tk_token t \<noteq> G_ENDS \<longrightarrow> lex_moves c c')) \<and>
    (r = None \<or> tk_token (the r) \<noteq> G_ENDS \<longrightarrow> tz_pos (m_tokenizer c) < length (tz_str (m_tokenizer c)))"
proof (cases "tz_Done (m_tokenizer c)")
  case True
  then show ?thesis using assms by (auto simp: lexDefault_def no_token_def)
next
  case False
  define z where "z = tz_NextChar (length (tz_GetChars (\<lambda>ch. ch = CHR '' '') (m_tokenizer c))) (m_tokenizer c)"
  have l: "lex_char units (tz_GetChar (m_tokenizer (c\<lparr>m_tokenizer := z\<rparr>))) (c\<lparr>m_tokenizer := z\<rparr>) = (r, c')"
    using assms(1) False by (simp add: lexDefault_def Let_def z_def)
  have "lex_moves c c'" if "lex_moves (c\<lparr>m_tokenizer := z\<rparr>) c'" using that by (auto simp: lex_moves_def z_def tz_NextChar_def)
  then show ?thesis using lex_char_moves [OF l assms(2)] assms(3) False by (auto simp: tz_Done_def split: option.splits)
qed

lemma getToken_moves:
  assumes "getToken units c = (t, c')" "[] \<notin> set units" "\<not> in_string c"
  shows "\<not> in_string c' \<and> (tk_token t \<noteq> G_ENDS \<longrightarrow> lex_moves c c' \<and> tz_pos (m_tokenizer c) < length (tz_str (m_tokenizer c)))"
proof -
  obtain r c1 where L: "lexDefault units c = (r, c1)" by (cases "lexDefault units c")
  note M = lexDefault_moves [OF L assms(2,3)]
  show ?thesis
  proof (cases r)
    case None
    then have t: "lexString c1 = (t, c')" using assms(1,3) L by (simp add: getToken_def)
    then have "lex_moves c1 c' \<and> \<not> in_string c'"
      by (auto simp: lexString_def lex_moves_def tz_GetString_def tz_NextChar_def Let_def split: prod.splits)
    then show ?thesis using M None by (auto simp: lex_moves_def)
  next
    case (Some x)
    then show ?thesis using assms(1,3) L M by (simp add: getToken_def)
  qed
qed

lemma parse_events_keep [simp]:
  "m_tokenizer (fold parse_event evs c) = m_tokenizer c" "in_string (fold parse_event evs c) = in_string c"
proof (induction evs arbitrary: c)
  case (Cons e evs)
  {
    case 1
    then show ?case using Cons by (cases e) (simp_all add: reportError_def)
  next
    case 2
    then show ?case using Cons by (cases e) (simp_all add: reportError_def)
  }
qed simp_all

lemma feed_parser_returns:
  "[] \<notin> set units \<Longrightarrow> \<not> in_string c \<Longrightarrow> \<exists>r. feed_parser Parse units p c = Some r"
proof (induction "length (tz_str (m_tokenizer c)) - tz_pos (m_tokenizer c)" arbitrary: c p rule: less_induct)
  case less
  define c1 where "c1 = c\<lparr>m_sourcePos := int (tz_pos (m_tokenizer c))\<rparr>"
  obtain t c2 where T: "getToken units c1 = (t, c2)" by (cases "getToken units c1")
  obtain p' evs where P: "Parse p (Some t) (m_sourcePos c2) = (p', evs)" by (cases "Parse p (Some t) (m_sourcePos c2)")
  define c3 where "c3 = fold parse_event evs c2"
  have S: "feed_parser Parse units p c =
      (if m_errorStatus c3 \<noteq> [] then Some (False, p', c3)
       else if m_parseFinished c3 \<or> tk_token t = G_ENDS then (let (q, evs) = Parse p' None (m_sourcePos c3) in Some (True, q, fold parse_event evs c3))
       else feed_parser Parse units p' c3)"
    by (subst feed_parser.simps) (simp add: c1_def [symmetric] T P c3_def Let_def)
  show ?case
  proof (cases "m_errorStatus c3 \<noteq> [] \<or> m_parseFinished c3 \<or> tk_token t = G_ENDS")
    case True
    then show ?thesis unfolding S by (auto simp: split_beta)
  next
    case False
    have m: "\<not> in_string c2" "lex_moves c1 c2" "tz_pos (m_tokenizer c1) < length (tz_str (m_tokenizer c1))"
      using getToken_moves [OF T less.prems(1)] less.prems(2) False by (simp_all add: c1_def)
    have "\<exists>r. feed_parser Parse units p' c3 = Some r"
      using m less.prems(1) by (intro less.hyps) (auto simp: c3_def c1_def lex_moves_def)
    then show ?thesis unfolding S using False by simp
  qed
qed

subsection \<open>Items\<close>

text \<open>A text is a list of items with blanks behind each; a unit is given by its number in the list.\<close>

datatype RULE_ITEM = Number string | Text string | Name string | Unit nat | Operator G_TOKEN

definition quote_text :: "string \<Rightarrow> string" where
  "quote_text s = concat (map (\<lambda>c. if c = squote then [bslash, squote] else [c]) s)"

text \<open>How operators are written.\<close>

definition operators :: "(G_TOKEN \<times> string) list" where
  "operators = map (\<lambda>(m, e, t). (t, m)) two_chars @
    [(G_PLUS, ''+''), (G_BOOL_NOT, ''!''), (G_MINUS, ''-''), (G_MULT, ''*''), (G_DIVIDE, ''/''), (G_LESS_THAN, ''<''),
     (G_GREATER_THAN, ''>''), (G_PARENL, ''(''), (G_PARENR, '')''), (G_SEMCOL, '';''), (G_STRUCT_REF, ''.''), (G_COMMA, '','')]"

definition op_text :: "G_TOKEN \<Rightarrow> string" where
  "op_text t = (case map_of operators t of Some s \<Rightarrow> s | None \<Rightarrow> [])"

fun rule_item_text :: "string list \<Rightarrow> RULE_ITEM \<Rightarrow> string" where
  "rule_item_text units (Number s) = s"
| "rule_item_text units (Text s) = squote # quote_text s @ [squote]"
| "rule_item_text units (Name w) = w"
| "rule_item_text units (Unit n) = units ! n"
| "rule_item_text units (Operator t) = op_text t"

fun rule_item_token :: "RULE_ITEM \<Rightarrow> T_TOKEN" where
  "rule_item_token (Number s) = \<lparr>tk_token = G_VALUE, tk_str = Some (map (\<lambda>ch. if isDecimalSeparator ch then CHR ''.'' else ch) s), tk_idx = - 1\<rparr>"
| "rule_item_token (Text s) = \<lparr>tk_token = G_STRING, tk_str = Some s, tk_idx = 0\<rparr>"
| "rule_item_token (Name w) = \<lparr>tk_token = G_IDENTIFIER, tk_str = Some w, tk_idx = - 1\<rparr>"
| "rule_item_token (Unit n) = \<lparr>tk_token = G_UNIT, tk_str = None, tk_idx = int n\<rparr>"
| "rule_item_token (Operator t) = \<lparr>tk_token = t, tk_str = None, tk_idx = - 1\<rparr>"

text \<open>
  Numbers are digits with at most one separator; a text does not end with a backslash; a name is no unit, and does
  not begin with one that an underscore follows.
\<close>

fun rule_item_ok :: "string list \<Rightarrow> RULE_ITEM \<Rightarrow> bool" where
  "rule_item_ok units (Number s) \<longleftrightarrow> s \<noteq> [] \<and> is_digit (hd s) \<and> number_chars False s = s"
| "rule_item_ok units (Text s) \<longleftrightarrow> s = [] \<or> last s \<noteq> bslash"
| "rule_item_ok units (Name w) \<longleftrightarrow> w \<noteq> [] \<and> (is_alpha (hd w) \<or> hd w = CHR ''_'') \<and> list_all (\<lambda>c. is_alnum c \<or> c = CHR ''_'') w \<and>
    takeWhile is_alnum w \<notin> set units"
| "rule_item_ok units (Unit n) \<longleftrightarrow> n < length units"
| "rule_item_ok units (Operator t) \<longleftrightarrow> t \<in> fst ` set operators"

definition units_ok :: "string list \<Rightarrow> bool" where
  "units_ok units \<longleftrightarrow> distinct units \<and> list_all (\<lambda>u. u \<noteq> [] \<and> list_all is_alnum u \<and> \<not> is_digit (hd u)) units"

lemma quote_text_Cons [simp]:
  "quote_text [] = []" "quote_text (c # s) = (if c = squote then bslash # squote # quote_text s else c # quote_text s)"
  by (simp_all add: quote_text_def)

lemma string_loop_quote:
  "s = [] \<or> last s \<noteq> bslash \<Longrightarrow> string_loop (quote_text s @ squote # r) = (s, squote # r)"
proof (induction s)
  case (Cons c s)
  have IH: "string_loop (quote_text s @ squote # r) = (s, squote # r)" using Cons by (auto split: if_splits)
  show ?case
  proof (cases "c = squote")
    case True
    then show ?thesis using IH by (simp add: char_defs)
  next
    case False
    have "\<not> (c = bslash \<and> hd (quote_text s @ squote # r) = squote)"
    proof (cases s)
      case Nil
      then show ?thesis using Cons.prems by auto
    next
      case (Cons d s')
      then show ?thesis by (auto simp: char_defs)
    qed
    then show ?thesis using IH False by auto
  qed
qed simp

lemma alnum_prefix:
  assumes "list_all is_alnum u"
  shows "tz_MatchAhead u (\<lambda>c. \<not> is_alnum c) z \<longleftrightarrow> u = takeWhile is_alnum (drop (tz_pos z) (tz_str z))"
proof -
  define a where "a = drop (tz_pos z) (tz_str z)"
  have "take (length u) a = u \<and> (length a = length u \<or> \<not> is_alnum (a ! length u)) \<longleftrightarrow> u = takeWhile is_alnum a"
  proof
    assume l: "take (length u) a = u \<and> (length a = length u \<or> \<not> is_alnum (a ! length u))"
    then have a: "a = u @ drop (length u) a" by (metis append_take_drop_id)
    have "drop (length u) a = [] \<or> \<not> is_alnum (hd (drop (length u) a))" using l by (cases "length u < length a") (auto simp: hd_drop_conv_nth)
    then have "takeWhile is_alnum (drop (length u) a) = []" by (cases "drop (length u) a") auto
    moreover have "takeWhile is_alnum (u @ drop (length u) a) = u @ takeWhile is_alnum (drop (length u) a)"
      using assms by (simp add: takeWhile_append2 list_all_iff)
    ultimately show "u = takeWhile is_alnum a" using a by simp
  next
    assume u: "u = takeWhile is_alnum a"
    have "length (takeWhile is_alnum a) = length a \<or> \<not> is_alnum (a ! length (takeWhile is_alnum a))"
      using nth_length_takeWhile [of is_alnum a] length_takeWhile_le [of is_alnum a] by (cases "length (takeWhile is_alnum a) < length a") auto
    then show "take (length u) a = u \<and> (length a = length u \<or> \<not> is_alnum (a ! length u))"
      unfolding u using takeWhile_eq_take [of is_alnum a] by auto
  qed
  then show ?thesis by (simp add: tz_MatchAhead_def a_def Let_def)
qed

lemma resolveUnits_none:
  assumes "takeWhile is_alnum (drop (tz_pos z) (tz_str z)) \<notin> set us" "list_all (list_all is_alnum) us"
  shows "resolveUnits us n z = None"
  using assms by (induction us n z rule: resolveUnits.induct) (auto simp: alnum_prefix)

lemma resolveUnits_some:
  assumes "takeWhile is_alnum (drop (tz_pos z) (tz_str z)) = us ! k" "k < length us" "distinct us" "list_all (list_all is_alnum) us"
  shows "resolveUnits us n z = Some (n + int k, tz_NextChar (length (us ! k)) z)"
  using assms
proof (induction us arbitrary: n k)
  case (Cons u us)
  show ?case
  proof (cases k)
    case 0
    then show ?thesis using Cons.prems by (simp add: alnum_prefix)
  next
    case (Suc j)
    have "us ! j \<in> set us" using Cons.prems(2) Suc by simp
    then have "us ! j \<noteq> u" using Cons.prems(3) by auto
    then show ?thesis using Cons.IH [of j "n + 1"] Cons.prems Suc by (simp add: alnum_prefix)
  qed
qed simp

definition blanks :: "string \<Rightarrow> bool" where "blanks w \<longleftrightarrow> list_all (\<lambda>c. c = CHR '' '') w"

subsection \<open>One item\<close>

abbreviation ahead :: "COMPILER \<Rightarrow> string" where
  "ahead c \<equiv> drop (tz_pos (m_tokenizer c)) (tz_str (m_tokenizer c))"

definition ends :: "string \<Rightarrow> bool" where "ends rest \<longleftrightarrow> rest = [] \<or> hd rest = CHR '' ''"

lemma tz_GetChar_ahead: "drop (tz_pos z) (tz_str z) = ch # r \<Longrightarrow> tz_GetChar z = ch"
  by (cases "tz_pos z < length (tz_str z)") (auto simp: tz_GetChar_def Cons_nth_drop_Suc [symmetric])

lemma NextChar_ahead: "drop (tz_pos (tz_NextChar n z)) (tz_str (tz_NextChar n z)) = drop n (drop (tz_pos z) (tz_str z))"
  by (simp add: tz_NextChar_def add.commute)

lemma number_chars_append:
  "number_chars b s = s \<Longrightarrow> s \<noteq> [] \<Longrightarrow> ends rest \<Longrightarrow> number_chars b (s @ rest) = s"
proof (induction b s rule: number_chars.induct)
  case (2 b ch r)
  show ?case
  proof (cases r)
    case Nil
    have "rest \<noteq> [] \<Longrightarrow> \<not> is_digit (hd rest) \<and> \<not> isDecimalSeparator (hd rest)"
      using 2(4) by (auto simp: ends_def is_digit_def isDecimalSeparator_def)
    then show ?thesis using 2(2) Nil by (auto split: if_splits)
  next
    case (Cons d r')
    then show ?thesis using 2 by (auto split: if_splits)
  qed
qed simp

lemma takeWhile_ends:
  assumes "list_all P w" "ends rest" "\<not> P (CHR '' '')"
  shows "takeWhile P (w @ rest) = w"
  using assms by (cases rest) (auto simp: ends_def list_all_iff takeWhile_append2)

lemma takeWhile_within:
  assumes "ends rest" "\<not> P (CHR '' '')"
  shows "takeWhile P (w @ rest) = takeWhile P w"
  using assms by (induction w) (auto simp: ends_def intro: list.exhaust [of rest])

lemma not_alnum [simp]: "\<not> is_alnum (CHR '' '')" "\<not> is_alnum squote" "\<not> is_alpha (CHR '' '')" "\<not> is_digit squote" "\<not> is_alpha squote"
  by (simp_all add: is_alnum_def is_alpha_def is_digit_def char_defs)

lemma units_okD:
  assumes "units_ok units"
  shows "list_all (list_all is_alnum) units" "[] \<notin> set units" "distinct units"
  using assms by (auto simp: units_ok_def list_all_iff)

lemma lex_number:
  assumes "rule_item_ok units (Number s)" "ahead c = s @ rest" "ends rest"
  shows "lex_char units (hd s) c = (Some (rule_item_token (Number s)), c\<lparr>m_tokenizer := tz_NextChar (length s) (m_tokenizer c)\<rparr>)"
proof -
  have "number_chars False (ahead c) = s" unfolding assms(2) using assms(1,3) by (intro number_chars_append) auto
  moreover have "hd s \<noteq> CHR 0x00" using assms(1) by (auto simp: is_digit_def)
  ultimately show ?thesis using assms(1) by (simp add: lex_char_def extractNumber_def Let_def)
qed

lemma lex_name:
  assumes "rule_item_ok units (Name w)" "units_ok units" "ahead c = w @ rest" "ends rest"
  shows "lex_char units (hd w) c = (Some (rule_item_token (Name w)), c\<lparr>m_tokenizer := tz_NextChar (length w) (m_tokenizer c)\<rparr>)"
proof -
  have "takeWhile is_alnum (ahead c) = takeWhile is_alnum w" unfolding assms(3) by (rule takeWhile_within [OF assms(4)]) simp
  then have u: "resolveUnits units 0 (m_tokenizer c) = None" using assms(1) units_okD(1) [OF assms(2)] by (intro resolveUnits_none) auto
  have g: "tz_GetChars (\<lambda>c. is_alnum c \<or> c = CHR ''_'') (m_tokenizer c) = w"
    unfolding tz_GetChars_def assms(3) using assms(1,4) by (intro takeWhile_ends) auto
  have h: "hd w \<noteq> CHR 0x00" "\<not> is_digit (hd w)" "hd w \<noteq> squote" using assms(1) by (auto simp: is_alpha_def is_digit_def char_defs)
  show ?thesis using assms(1) by (simp add: lex_char_def Let_def h u g)
qed

lemma lex_unit:
  assumes "rule_item_ok units (Unit n)" "units_ok units" "ahead c = units ! n @ rest" "ends rest"
  shows "lex_char units (hd (units ! n)) c = (Some (rule_item_token (Unit n)), c\<lparr>m_tokenizer := tz_NextChar (length (units ! n)) (m_tokenizer c)\<rparr>)"
proof -
  have n: "n < length units" using assms(1) by simp
  have u: "list_all is_alnum (units ! n)" "units ! n \<noteq> []" "\<not> is_digit (hd (units ! n))"
    using assms(2) n by (auto simp: units_ok_def list_all_length)
  have "takeWhile is_alnum (ahead c) = units ! n" unfolding assms(3) by (rule takeWhile_ends [OF u(1) assms(4)]) simp
  then have r: "resolveUnits units 0 (m_tokenizer c) = Some (int n, tz_NextChar (length (units ! n)) (m_tokenizer c))"
    using resolveUnits_some [of "m_tokenizer c" units n 0] n units_okD [OF assms(2)] by simp
  have "is_alnum (hd (units ! n))" using u(1,2) by (cases "units ! n") auto
  then have "hd (units ! n) \<noteq> CHR 0x00" by (auto simp: is_alnum_def is_alpha_def is_digit_def)
  then show ?thesis using u(3) by (simp add: lex_char_def Let_def r)
qed

lemma no_unit_here:
  assumes "units_ok units" "ahead c = ch # r" "\<not> is_alnum ch"
  shows "resolveUnits units 0 (m_tokenizer c) = None"
  using assms(2,3) units_okD [OF assms(1)] by (intro resolveUnits_none) auto

lemma match_two:
  assumes "drop (tz_pos z) (tz_str z) = x"
  shows "tz_MatchAhead [p, q] stop z \<longleftrightarrow> (case x of a # b # r \<Rightarrow> a = p \<and> b = q \<and> (r = [] \<or> stop (hd r)) | _ \<Rightarrow> False)"
  unfolding tz_MatchAhead_def assms by (cases x rule: remdups_adj.cases; cases "drop 2 x") (auto simp: Let_def)

text \<open>The operators of two characters, read off the text ahead.\<close>

lemma find_two_ahead:
  assumes "drop (tz_pos z) (tz_str z) = x"
  shows "find_two z = (case x of a # b # r \<Rightarrow>
      map_option (\<lambda>(m, e, t). t) (find (\<lambda>(m, e, t). m = [a, b] \<and> (r = [] \<or> hd r \<noteq> e)) two_chars) | _ \<Rightarrow> None)"
  by (cases x rule: remdups_adj.cases) (auto simp: find_two_def two_chars_def match_two [OF assms])

lemma op_texts:
  "op_text G_EQUAL = ''==''" "op_text G_NOT_EQUAL = ''!=''" "op_text G_LESS_EQUAL_THAN = ''<=''" "op_text G_GREATER_EQUAL_THAN = ''>=''"
  "op_text G_BOOL_AND = ''&&''" "op_text G_BOOL_OR = ''||''" "op_text G_PLUS = ''+''" "op_text G_BOOL_NOT = ''!''" "op_text G_MINUS = ''-''"
  "op_text G_MULT = ''*''" "op_text G_DIVIDE = ''/''" "op_text G_LESS_THAN = ''<''" "op_text G_GREATER_THAN = ''>''" "op_text G_PARENL = ''(''"
  "op_text G_PARENR = '')''" "op_text G_SEMCOL = '';''" "op_text G_STRUCT_REF = ''.''" "op_text G_COMMA = '',''"
  by code_simp+

lemma find_two_op:
  assumes "t \<in> fst ` set operators" "drop (tz_pos z) (tz_str z) = op_text t @ rest" "ends rest"
  shows "find_two z = (if length (op_text t) = 2 then Some t else None)"
proof -
  have r: "rest = [] \<or> (\<exists>r. rest = CHR '' '' # r)" using assms(3) by (cases rest) (auto simp: ends_def)
  have t: "t \<in> {G_EQUAL, G_NOT_EQUAL, G_LESS_EQUAL_THAN, G_GREATER_EQUAL_THAN, G_BOOL_AND, G_BOOL_OR, G_PLUS, G_BOOL_NOT, G_MINUS, G_MULT,
      G_DIVIDE, G_LESS_THAN, G_GREATER_THAN, G_PARENL, G_PARENR, G_SEMCOL, G_STRUCT_REF, G_COMMA}"
    using assms(1) by (auto simp: operators_def two_chars_def)
  show ?thesis unfolding find_two_ahead [OF assms(2)] using t r by (elim insertE emptyE disjE exE) (simp_all add: op_texts two_chars_def)
qed

lemma lex_operator:
  assumes "rule_item_ok units (Operator t)" "units_ok units" "ahead c = op_text t @ rest" "ends rest"
  shows "lex_char units (hd (op_text t)) c = (Some (rule_item_token (Operator t)), c\<lparr>m_tokenizer := tz_NextChar (length (op_text t)) (m_tokenizer c)\<rparr>)"
proof -
  define z where "z = m_tokenizer c"
  define ch where "ch = hd (op_text t)"
  have t: "t \<in> {G_EQUAL, G_NOT_EQUAL, G_LESS_EQUAL_THAN, G_GREATER_EQUAL_THAN, G_BOOL_AND, G_BOOL_OR, G_PLUS, G_BOOL_NOT, G_MINUS, G_MULT,
      G_DIVIDE, G_LESS_THAN, G_GREATER_THAN, G_PARENL, G_PARENR, G_SEMCOL, G_STRUCT_REF, G_COMMA}"
    using assms(1) by (auto simp: operators_def two_chars_def)
  have a: "drop (tz_pos z) (tz_str z) = op_text t @ rest" using assms(3) by (simp add: z_def)
  have ch: "ch \<noteq> CHR 0x00" "\<not> is_alnum ch" "ch \<noteq> squote" "ch \<noteq> CHR ''_''" "op_text t = ch # tl (op_text t)"
    using t by (auto simp: ch_def op_texts is_alnum_def is_alpha_def is_digit_def char_defs)
  have two: "find_two z = (if length (op_text t) = 2 then Some t else None)"
    using assms(1,4) a by (intro find_two_op) auto
  have one: "length (op_text t) \<noteq> 2 \<Longrightarrow> one_char ch = Some t \<and> length (op_text t) = 1"
    using t by (auto simp: ch_def one_char_def op_texts)
  have u: "resolveUnits units 0 z = None" unfolding z_def
    by (rule no_unit_here [OF assms(2) _ ch(2), of c "tl (op_text t) @ rest"]) (metis assms(3) ch(5) append_Cons)
  have "\<not> is_digit ch" "\<not> is_alpha ch" using ch(2) by (simp_all add: is_alnum_def)
  then show ?thesis using ch two one u unfolding ch_def [symmetric]
    by (cases "length (op_text t) = 2") (simp_all add: lex_char_def Let_def z_def [symmetric] no_token_def)
qed

subsection \<open>A text of items\<close>

lemma lexDefault_blanks:
  assumes "ahead c = w @ x" "blanks w" "x \<noteq> []" "hd x \<noteq> CHR '' ''"
  shows "lexDefault units c = lex_char units (hd x) (c\<lparr>m_tokenizer := tz_NextChar (length w) (m_tokenizer c)\<rparr>)"
    "ahead (c\<lparr>m_tokenizer := tz_NextChar (length w) (m_tokenizer c)\<rparr>) = x"
proof -
  have "tz_GetChars (\<lambda>ch. ch = CHR '' '') (m_tokenizer c) = w"
    unfolding tz_GetChars_def assms(1) using assms(2-4) by (cases x) (auto simp: blanks_def list_all_iff takeWhile_append2)
  moreover have "\<not> tz_Done (m_tokenizer c)" using assms(1,3) by (auto simp: tz_Done_def)
  moreover show a: "ahead (c\<lparr>m_tokenizer := tz_NextChar (length w) (m_tokenizer c)\<rparr>) = x" using assms(1) by (simp add: NextChar_ahead)
  moreover have "tz_GetChar (tz_NextChar (length w) (m_tokenizer c)) = hd x"
    using a assms(3) by (intro tz_GetChar_ahead [of _ _ "tl x"]) simp
  ultimately show "lexDefault units c = lex_char units (hd x) (c\<lparr>m_tokenizer := tz_NextChar (length w) (m_tokenizer c)\<rparr>)"
    by (simp add: lexDefault_def Let_def)
qed

lemma rule_item_first:
  assumes "rule_item_ok units i" "units_ok units"
  shows "rule_item_text units i \<noteq> [] \<and> hd (rule_item_text units i) \<noteq> CHR '' ''"
proof (cases i)
  case (Unit n)
  then have "units ! n \<noteq> [] \<and> list_all is_alnum (units ! n)" using assms by (auto simp: units_ok_def list_all_length)
  then show ?thesis using Unit by (cases "units ! n") auto
next
  case (Operator t)
  then have "t \<in> fst ` set operators" using assms(1) by simp
  then have t: "t \<in> {G_EQUAL, G_NOT_EQUAL, G_LESS_EQUAL_THAN, G_GREATER_EQUAL_THAN, G_BOOL_AND, G_BOOL_OR, G_PLUS, G_BOOL_NOT, G_MINUS, G_MULT,
      G_DIVIDE, G_LESS_THAN, G_GREATER_THAN, G_PARENL, G_PARENR, G_SEMCOL, G_STRUCT_REF, G_COMMA}"
    by (auto simp: operators_def two_chars_def)
  then show ?thesis using Operator by (auto simp: op_texts)
qed (use assms in \<open>auto simp: is_digit_def is_alpha_def char_defs\<close>)

lemma getToken_item:
  assumes "rule_item_ok units i" "units_ok units" "\<not> in_string c" "ahead c = w @ rule_item_text units i @ rest" "blanks w" "ends rest"
  shows "\<exists>c'. getToken units c = (rule_item_token i, c') \<and> ahead c' = rest \<and> \<not> in_string c'"
proof -
  define c1 where "c1 = c\<lparr>m_tokenizer := tz_NextChar (length w) (m_tokenizer c)\<rparr>"
  have f: "rule_item_text units i \<noteq> []" "hd (rule_item_text units i) \<noteq> CHR '' ''" using rule_item_first [OF assms(1,2)] by simp_all
  have L: "lexDefault units c = lex_char units (hd (rule_item_text units i)) c1" and a: "ahead c1 = rule_item_text units i @ rest"
    using lexDefault_blanks [OF assms(4,5)] f by (simp_all add: c1_def)
  have word: ?thesis
    if "lex_char units (hd (rule_item_text units i)) c1 = (Some (rule_item_token i), c1\<lparr>m_tokenizer := tz_NextChar (length (rule_item_text units i)) (m_tokenizer c1)\<rparr>)"
    using that L a assms(3) by (simp add: getToken_def NextChar_ahead c1_def)
  show ?thesis
  proof (cases i)
    case (Number s)
    then show ?thesis using lex_number [of units s c1 rest] assms(1,6) a by (intro word) simp
  next
    case (Name x)
    then show ?thesis using lex_name [of units x c1 rest] assms(1,2,6) a by (intro word) simp
  next
    case (Unit n)
    then show ?thesis using lex_unit [of units n c1 rest] assms(1,2,6) a by (intro word) simp
  next
    case (Operator t)
    then show ?thesis using lex_operator [of units t c1 rest] assms(1,2,6) a by (intro word) simp
  next
    case (Text s)
    define c2 where "c2 = c1\<lparr>in_string := True, m_tokenizer := tz_NextChar 1 (m_tokenizer c1)\<rparr>"
    have a1: "ahead c1 = squote # quote_text s @ squote # rest" using a Text by simp
    have u: "resolveUnits units 0 (m_tokenizer c1) = None" by (rule no_unit_here [OF assms(2) a1]) simp
    have "lex_char units squote c1 = (None, c2)" using u by (simp add: lex_char_def Let_def c2_def) (simp add: char_defs)
    then have T: "getToken units c = lexString c2" using L Text assms(3) by (simp add: getToken_def)
    have a2: "ahead c2 = quote_text s @ squote # rest" using a1 by (simp add: c2_def NextChar_ahead)
    have g: "tz_GetString (m_tokenizer c2) = (s, tz_NextChar (length (quote_text s) + 1) (m_tokenizer c2))"
      unfolding tz_GetString_def Let_def a2 using string_loop_quote [of s rest] assms(1) Text by simp
    have "drop (length (quote_text s) + 1) (ahead c2) = rest" unfolding a2 by simp
    then show ?thesis using T g Text by (simp add: lexString_def NextChar_ahead)
  qed
qed

text \<open>All tokens up to the end, in at most so many steps.\<close>

fun all_tokens :: "nat \<Rightarrow> string list \<Rightarrow> COMPILER \<Rightarrow> T_TOKEN list" where
  "all_tokens 0 units c = []"
| "all_tokens (Suc n) units c =
    (let (t, c') = getToken units c in if tk_token t = G_ENDS then [t] else t # all_tokens n units c')"

definition rule_text :: "string list \<Rightarrow> (RULE_ITEM \<times> string) list \<Rightarrow> string" where
  "rule_text units l = concat (map (\<lambda>(i, w). rule_item_text units i @ w) l)"

definition rule_ok :: "string list \<Rightarrow> (RULE_ITEM \<times> string) list \<Rightarrow> bool" where
  "rule_ok units l \<longleftrightarrow> list_all (\<lambda>(i, w). rule_item_ok units i \<and> blanks w \<and> w \<noteq> []) l"

lemma getToken_end:
  assumes "ahead c = w" "blanks w" "\<not> in_string c"
  shows "fst (getToken units c) = no_token"
proof (cases "tz_Done (m_tokenizer c)")
  case True
  then show ?thesis using assms(3) by (simp add: getToken_def lexDefault_def)
next
  case False
  have "tz_GetChars (\<lambda>ch. ch = CHR '' '') (m_tokenizer c) = w"
    unfolding tz_GetChars_def assms(1) using assms(2) by (simp add: blanks_def list_all_iff takeWhile_eq_all_conv)
  moreover have "length (tz_str (m_tokenizer c)) \<le> tz_pos (m_tokenizer c) + length w" using assms(1) by auto
  ultimately have "tz_GetChar (tz_NextChar (length (tz_GetChars (\<lambda>ch. ch = CHR '' '') (m_tokenizer c))) (m_tokenizer c)) = CHR 0x00"
    by (simp add: tz_GetChar_def tz_NextChar_def)
  then show ?thesis using False assms(3) by (simp add: getToken_def lexDefault_def Let_def lex_char_def)
qed

lemma rule_item_token_not_end: "rule_item_ok units i \<Longrightarrow> tk_token (rule_item_token i) \<noteq> G_ENDS"
  by (cases i) (auto simp: operators_def two_chars_def)

lemma all_tokens_items:
  "rule_ok units l \<Longrightarrow> units_ok units \<Longrightarrow> \<not> in_string c \<Longrightarrow> ahead c = w @ rule_text units l \<Longrightarrow> blanks w \<Longrightarrow>
    all_tokens (Suc (length l)) units c = map (\<lambda>x. rule_item_token (fst x)) l @ [no_token]"
proof (induction l arbitrary: c w)
  case Nil
  then show ?case using getToken_end [of c w units] by (simp add: rule_text_def split_beta no_token_def)
next
  case (Cons x l)
  obtain i v where x: "x = (i, v)" by (cases x)
  have i: "rule_item_ok units i" "blanks v" "v \<noteq> []" "rule_ok units l" using Cons.prems(1) by (simp_all add: x rule_ok_def)
  have t: "ahead c = w @ rule_item_text units i @ v @ rule_text units l" using Cons.prems(4) by (simp add: rule_text_def x)
  have "ends (v @ rule_text units l)" using i(2,3) by (cases v) (simp_all add: ends_def blanks_def)
  then obtain c' where c': "getToken units c = (rule_item_token i, c')" "ahead c' = v @ rule_text units l" "\<not> in_string c'"
    using getToken_item [OF i(1) Cons.prems(2,3) t Cons.prems(5)] by blast
  then show ?case using Cons.IH [OF i(4) Cons.prems(2) c'(3,2) i(2)] rule_item_token_not_end [OF i(1)] by (simp add: x)
qed

subsection \<open>The properties\<close>

text \<open>
  C10: The text of a list of items, with one blank or more behind each, is read as exactly these items, whatever
  the editor's units are: numbers with the decimal point of the locale, texts with the quotes in them, names, units
  by their number, operators, and then the end.
\<close>

theorem getToken_reads_rule:
  assumes "rule_ok units l" "units_ok units" "blanks w"
  shows "all_tokens (length l + 1) units (newString (w @ rule_text units l) c) = map (\<lambda>x. rule_item_token (fst x)) l @ [no_token]"
  using all_tokens_items [OF assms(1,2), of "newString (w @ rule_text units l) c" w] assms(3) by (simp add: newString_def)

definition rule_example :: "(RULE_ITEM \<times> string) list" where
  "rule_example = [(Name ''A'', '' ''), (Operator G_STRUCT_REF, '' ''), (Name ''Width'', ''  ''), (Operator G_GREATER_EQUAL_THAN, '' ''),
    (Number ''0,25'', '' ''), (Unit 1, '' ''), (Operator G_BOOL_AND, '' ''), (Text [CHR ''a'', squote], '' '')]"

theorem getToken_reads_rule_witness:
  "map tk_token (all_tokens 9 [''mil'', ''mm''] (newString (rule_text [''mil'', ''mm''] rule_example) COMPILER_new)) =
    [G_IDENTIFIER, G_STRUCT_REF, G_IDENTIFIER, G_GREATER_EQUAL_THAN, G_VALUE, G_UNIT, G_BOOL_AND, G_STRING, G_ENDS]"
proof -
  have hyps: "rule_ok [''mil'', ''mm''] rule_example" "units_ok [''mil'', ''mm'']" "blanks []" by code_simp+
  have n: "length rule_example + 1 = 9" by (simp add: rule_example_def)
  have out: "map tk_token (map (\<lambda>x. rule_item_token (fst x)) rule_example @ [no_token]) =
    [G_IDENTIFIER, G_STRUCT_REF, G_IDENTIFIER, G_GREATER_EQUAL_THAN, G_VALUE, G_UNIT, G_BOOL_AND, G_STRING, G_ENDS]" by code_simp
  show ?thesis using getToken_reads_rule [OF hyps, of COMPILER_new] unfolding n out [symmetric] append_Nil by (rule arg_cong)
qed

text \<open>
  C34: Compiling ends: whatever the generated parser answers, a text is fed to it in finitely many steps, also when
  it has characters that belong to no token, as long as no unit has an empty name.
\<close>

theorem feed_parser_ends:
  assumes "[] \<notin> set units"
  shows "\<exists>r. feed_parser Parse units m_parser (newString aString c) = Some r"
  by (rule feed_parser_returns [OF assms]) (simp add: newString_def)

theorem feed_parser_ends_witness:
  "\<exists>r. feed_parser (\<lambda>p t pos. (p, [])) [''mm''] (0 :: nat) (newString ''a$ 1mm'' COMPILER_new) = Some r"
  by (rule feed_parser_ends) simp

subsection \<open>Texts that are read otherwise than they look\<close>

text \<open>The comma between two arguments is taken for the decimal separator of one number.\<close>

lemma comma_in_number:
  "map tk_str (all_tokens 5 [] (newString ''f(1,2)'' COMPILER_new)) = [Some ''f'', None, Some ''1.2'', None, None]"
  by code_simp

text \<open>A unit followed by an underscore is split off a name.\<close>

lemma unit_in_name:
  "map tk_token (all_tokens 3 [''mm''] (newString ''mm_x'' COMPILER_new)) = [G_UNIT, G_IDENTIFIER, G_ENDS]"
  by code_simp

text \<open>A backslash before the closing quote takes it into the text, and no error is reported when the quote is missing.\<close>

lemma string_without_end:
  "all_tokens 3 [] (newString [squote, CHR ''a'', bslash, squote] COMPILER_new) =
    [\<lparr>tk_token = G_STRING, tk_str = Some [CHR ''a'', squote], tk_idx = 0\<rparr>, no_token]"
  by code_simp

text \<open>An error stays pending: a compiler that failed once rejects every text.\<close>

lemma errors_stay:
  "m_errorStatus c \<noteq> [] \<Longrightarrow> m_errorStatus (snd (getToken units c)) \<noteq> []" "m_errorStatus c \<noteq> [] \<Longrightarrow> m_errorStatus (fold parse_event evs c) \<noteq> []"
proof -
  show "m_errorStatus c \<noteq> [] \<Longrightarrow> m_errorStatus (snd (getToken units c)) \<noteq> []"
    by (auto simp: getToken_def lexDefault_def lex_char_def lexString_def Let_def reportError_def split: prod.split option.split if_split)
  show "m_errorStatus c \<noteq> [] \<Longrightarrow> m_errorStatus (fold parse_event evs c) \<noteq> []"
  proof (induction evs arbitrary: c)
    case (Cons e evs)
    have "m_errorStatus (parse_event e c) \<noteq> []" using Cons.prems by (cases e) (simp_all add: reportError_def)
    then show ?case using Cons.IH by simp
  qed simp
qed

lemma Compile_after_error:
  assumes "m_errorStatus c \<noteq> []" "aString \<noteq> []"
  shows "map_option fst (Compile Parse D E aString aCode pre (m_parser, c)) = Some False"
proof -
  define c1 where "c1 = newString aString c"
  define c2 where "c2 = snd (getToken (supported_units E) (c1\<lparr>m_sourcePos := int (tz_pos (m_tokenizer c1))\<rparr>))"
  have e: "m_errorStatus c2 \<noteq> []" unfolding c2_def by (rule errors_stay(1)) (use assms(1) in \<open>simp add: c1_def newString_def\<close>)
  have "\<exists>p c'. feed_parser Parse (supported_units E) m_parser c1 = Some (False, p, c')"
    using errors_stay(2) [OF e] by (subst feed_parser.simps) (simp add: split_beta Let_def c2_def)
  then show ?thesis using assms(2) by (auto simp: Compile_def Let_def c1_def)
qed

end
