(* ===== verification/Libeval_Props.thy ===== *)
theory Libeval_Props
  imports Libeval
begin

text \<open>
  Properties of the compiler of rule expressions. The reference of the code generation is a recursive function over
  the tree, without a stack of nodes and without marks; the reference of a run is the value of an expression.
\<close>

subsection \<open>Generating code by recursion\<close>

fun args_loop :: "TREE_NODE \<Rightarrow> TREE_NODE list" where
  "args_loop (NODE op1 s i pos l0 l1) =
    (case l1 of None \<Rightarrow> [] | Some x \<Rightarrow> [x]) @
    (case l0 of None \<Rightarrow> [] | Some m \<Rightarrow> if nd_op m = TR_ARG_LIST then args_loop m else [m])"

lemma leaf1_size: "leaf1 t = Some x \<Longrightarrow> Suc (size x) \<le> size t"
  by (cases t) auto

text \<open>The arguments from the last to the first.\<close>

definition args_rev :: "TREE_NODE \<Rightarrow> TREE_NODE list" where
  "args_rev root = (if nd_op root \<noteq> TR_ARG_LIST \<and> nd_op root \<noteq> TR_NULL then [root] else args_loop root)"

lemma args_loop_size: "size_list size (args_loop t) \<le> size t"
proof (induction t rule: args_loop.induct)
  case (1 op1 s i pos l0 l1)
  then show ?case by (cases l1; cases l0) (auto split: if_splits)
qed

lemma args_rev_size: "size_list size (args_rev t) \<le> Suc (size t)"
  using args_loop_size [of t] by (simp add: args_rev_def)

definition emit :: "('d, 'i) UOP \<Rightarrow> ('d, 'i) GEN \<Rightarrow> ('d, 'i) GEN" where
  "emit u G = G\<lparr>g_code := g_code G @ [u]\<rparr>"

text \<open>What a call reports before its arguments are compiled.\<close>

definition call_reports :: "'d DOUBLES \<Rightarrow> ('d, 'i) EDITOR \<Rightarrow> TREE_NODE \<Rightarrow> TREE_NODE \<Rightarrow> TREE_NODE \<Rightarrow> ('d, 'i) GEN \<Rightarrow> ('d, 'i) GEN option" where
  "call_reports D E obj fname args G =
    (let vref = CreateVarRef E (formatNode obj) []; G1 = item_error obj vref G in
     case CreateFuncCall E (formatNode fname) of
       None \<Rightarrow> Some (gen_error (unrecognized ''function'' (formatNode fname)) (srcPos obj + 1) G1)
     | Some f \<Rightarrow>
         (case preflight D f vref (map formatNode (rev (args_rev args))) (g_pre G1) of None \<Rightarrow> None
          | Some (msgs, pre) \<Rightarrow> Some (fold (\<lambda>m. gen_error m (srcPos args - 1)) msgs (G1\<lparr>g_pre := pre\<rparr>))))"

text \<open>A reference to a property, or what stands behind the dot and is none.\<close>

definition field_code :: "'d DOUBLES \<Rightarrow> ('d, 'i) EDITOR \<Rightarrow> TREE_NODE \<Rightarrow> TREE_NODE \<Rightarrow> ('d, 'i) GEN \<Rightarrow> ('d, 'i) GEN" where
  "field_code D E obj fld G =
    (let itemName = formatNode obj; propName = formatNode fld; vref = CreateVarRef E itemName propName;
         zero = emit (UOP_value (VALUE_num D (d_zero D)))
     in if nd_op obj \<noteq> TR_IDENTIFIER then
          zero (gen_error ''Unknown parent of property'' (srcPos obj - (case nd_str obj of Some s \<Rightarrow> int (length s) | None \<Rightarrow> 0)) G)
        else if nd_op fld = TR_IDENTIFIER then
          emit (UOP_ref TR_UOP_PUSH_VAR vref)
            (case vref of None \<Rightarrow> item_error obj vref G
             | Some r \<Rightarrow> if vr_type r = VT_PARSE_ERROR then gen_error (unrecognized ''property'' propName) (srcPos fld - int (length propName)) G else G)
        else zero (gen_error (unrecognized ''property'' propName) (srcPos obj + 1) (item_error obj vref G)))"

text \<open>Nodes that are done at once.\<close>

definition leaf_code :: "'d DOUBLES \<Rightarrow> ('d, 'i) EDITOR \<Rightarrow> TREE_NODE \<Rightarrow> ('d, 'i) GEN \<Rightarrow> ('d, 'i) GEN" where
  "leaf_code D E node G =
    (case nd_op node of
       TR_NUMBER \<Rightarrow> (let (v, G1) = gen_number D E node G in emit (UOP_value (VALUE_num D v)) G1)
     | TR_STRING \<Rightarrow> emit (UOP_value (VALUE_str D (formatNode node) (CHR ''?'' \<in> set (formatNode node) \<or> CHR ''*'' \<in> set (formatNode node)))) G
     | TR_IDENTIFIER \<Rightarrow>
         emit (UOP_ref TR_UOP_PUSH_VAR (CreateVarRef E (formatNode node) [])) (item_error node (CreateVarRef E (formatNode node) []) G)
     | _ \<Rightarrow> gen_error ''Unknown parent of function parameters'' (srcPos node) G)"

function compile :: "'d DOUBLES \<Rightarrow> ('d, 'i) EDITOR \<Rightarrow> TREE_NODE \<Rightarrow> ('d, 'i) GEN \<Rightarrow> ('d, 'i) GEN option"
  and compile_all :: "'d DOUBLES \<Rightarrow> ('d, 'i) EDITOR \<Rightarrow> TREE_NODE list \<Rightarrow> ('d, 'i) GEN \<Rightarrow> ('d, 'i) GEN option" where
  "compile D E (NODE op1 s i pos l0 l1) G =
    (if op1 \<in> {TR_OP_FUNC_CALL, TR_NUMBER, TR_STRING, TR_IDENTIFIER} then Some (leaf_code D E (NODE op1 s i pos l0 l1) G)
     else if op1 = TR_STRUCT_REF then
       (case (l0, l1) of
          (Some obj, Some fld) \<Rightarrow>
            (if nd_op obj = TR_IDENTIFIER \<and> nd_op fld = TR_OP_FUNC_CALL then
               (case (leaf0 fld, leaf1 fld) of
                  (Some fname, Some args) \<Rightarrow>
                    (case call_reports D E obj fname args G of None \<Rightarrow> None
                     | Some G1 \<Rightarrow>
                         (case compile_all D E (args_rev args) G1 of None \<Rightarrow> None
                          | Some G2 \<Rightarrow> Some (emit (UOP_call (CreateFuncCall E (formatNode fname)) (CreateVarRef E (formatNode obj) [])) G2)))
                | _ \<Rightarrow> None)
             else Some (field_code D E obj fld G))
        | _ \<Rightarrow> None)
     else
       (case compile_all D E (case l0 of None \<Rightarrow> [] | Some x \<Rightarrow> [x]) G of None \<Rightarrow> None
        | Some G1 \<Rightarrow>
            (case compile_all D E (case l1 of None \<Rightarrow> [] | Some x \<Rightarrow> [x]) G1 of None \<Rightarrow> None
             | Some G2 \<Rightarrow> Some (emit (UOP_ref op1 None) G2))))"
| "compile_all D E [] G = Some G"
| "compile_all D E (t # ts) G = (case compile D E t G of None \<Rightarrow> None | Some G' \<Rightarrow> compile_all D E ts G')"
  by pat_completeness auto
termination
proof (relation "measure (case_sum (\<lambda>(D, E, t, G). size t) (\<lambda>(D, E, ts, G). size_list size ts))", simp_all, goal_cases)
  case 1
  then show ?case by (auto simp: less_Suc_eq_le intro!: order_trans [OF args_rev_size] dest!: sym [of "Some _"] leaf1_size)
next
  case 2
  then show ?case by (auto split: option.split)
next
  case 3
  then show ?case by (auto split: option.split)
qed

subsection \<open>The marks below a node\<close>

text \<open>Nothing below \<open>p\<close> is marked and no node from \<open>p\<close> on has code.\<close>

definition fresh_below :: "ADDR \<Rightarrow> ADDR set \<Rightarrow> ('d, 'i) GEN \<Rightarrow> bool" where
  "fresh_below p V G \<longleftrightarrow> (\<forall>q. g_uops G (p @ q) = None) \<and> (\<forall>q. q \<noteq> [] \<longrightarrow> p @ q \<notin> V)"

definition below :: "ADDR \<Rightarrow> ADDR set" where "below p = {p @ q |q. True}"

lemma below_simps [simp]: "p \<in> below p" "p @ q \<in> below p"
  by (auto simp: below_def)

lemma below_child: "below (p @ q) \<subseteq> below p"
  by (auto simp: below_def)

lemma below_apart [simp]: "below (p @ [True]) \<inter> below (p @ [False]) = {}"
  by (auto simp: below_def)

text \<open>What changes of a state but its stack and marks.\<close>

definition at_stack :: "ADDR list \<Rightarrow> ADDR set \<Rightarrow> ('d, 'i) GEN \<Rightarrow> ('d, 'i) GEN" where
  "at_stack st V G = G\<lparr>g_stack := st, g_visited := V\<rparr>"

lemma at_stack_simps [simp]:
  "g_stack (at_stack st V G) = st" "g_visited (at_stack st V G) = V" "g_uops (at_stack st V G) = g_uops G"
  "at_stack st V (at_stack st' V' G) = at_stack st V G" "g_pre (at_stack st V G) = g_pre G" "g_code (at_stack st V G) = g_code G"
  "g_comp (at_stack st V G) = g_comp G"
  by (simp_all add: at_stack_def)

lemma gen_error_simps [simp]:
  "g_stack (gen_error m pos G) = g_stack G" "g_visited (gen_error m pos G) = g_visited G" "g_uops (gen_error m pos G) = g_uops G"
  "g_pre (gen_error m pos G) = g_pre G" "g_code (gen_error m pos G) = g_code G"
  "gen_error m pos (at_stack st V G) = at_stack st V (gen_error m pos G)"
  by (simp_all add: gen_error_def at_stack_def)

lemma item_error_simps [simp]:
  "g_stack (item_error n v G) = g_stack G" "g_visited (item_error n v G) = g_visited G" "g_uops (item_error n v G) = g_uops G"
  "g_pre (item_error n v G) = g_pre G" "g_code (item_error n v G) = g_code G"
  "item_error n v (at_stack st V G) = at_stack st V (item_error n v G)"
  by (simp_all add: item_error_def split: option.split)

lemma emit_simps [simp]:
  "g_stack (emit u G) = g_stack G" "g_visited (emit u G) = g_visited G" "g_uops (emit u G) = g_uops G" "g_pre (emit u G) = g_pre G"
  "g_code (emit u G) = g_code G @ [u]" "emit u (at_stack st V G) = at_stack st V (emit u G)"
  by (simp_all add: emit_def at_stack_def)

lemma fold_errors [simp]:
  "g_uops (fold (\<lambda>m. gen_error m pos) ms G) = g_uops G" "g_code (fold (\<lambda>m. gen_error m pos) ms G) = g_code G"
  "fold (\<lambda>m. gen_error m pos) ms (at_stack st V G) = at_stack st V (fold (\<lambda>m. gen_error m pos) ms G)"
  by (induction ms arbitrary: G) simp_all

text \<open>A node that is done emits the code it was given.\<close>

lemma finish_set [simp]:
  assumes "g_uops G p = None"
  shows "gen_finish p rest (SetUop p u (at_stack st V G)) = at_stack rest (insert p V) (emit u G)"
proof -
  have "(g_uops G)(p := None) = g_uops G" using assms by (simp add: fun_upd_idem)
  then show ?thesis by (simp add: gen_finish_def SetUop_def at_stack_def emit_def)
qed

lemma finish_none [simp]:
  assumes "g_uops G p = None"
  shows "gen_finish p rest (at_stack st V G) = at_stack rest (insert p V) G"
proof -
  have "(g_uops G)(p := None) = g_uops G" using assms by (simp add: fun_upd_idem)
  then show ?thesis by (simp add: gen_finish_def at_stack_def assms)
qed

lemma visit_at_stack [simp]: "visit ps (at_stack st V G) = at_stack st (V \<union> set ps) G"
  by (simp add: visit_def at_stack_def)

lemma at_stack_update [simp]:
  "(at_stack st V G)\<lparr>g_stack := st'\<rparr> = at_stack st' V G" "(at_stack st V G)\<lparr>g_pre := pre\<rparr> = at_stack st V (G\<lparr>g_pre := pre\<rparr>)"
  by (simp_all add: at_stack_def)

lemma gen_number_at_stack [simp]:
  "gen_number D E n (at_stack st V G) = (fst (gen_number D E n G), at_stack st V (snd (gen_number D E n G)))"
  "g_uops (snd (gen_number D E n G)) = g_uops G" "g_code (snd (gen_number D E n G)) = g_code G"
  by (simp_all add: gen_number_def split: option.split TREE_NODE.split OP.split)

lemma gen_loop_step: "gen_loop D E t (at_stack (p # rest) V G) =
    (case gen_step D E t p rest (at_stack (p # rest) V G) of None \<Rightarrow> None | Some G' \<Rightarrow> gen_loop D E t G')"
  by (subst gen_loop.simps) simp

text \<open>One node that is done at once.\<close>

lemma gen_step_leaf:
  assumes "node_at t p = Some (NODE op1 s i pos l0 l1)" "op1 \<in> {TR_OP_FUNC_CALL, TR_NUMBER, TR_STRING, TR_IDENTIFIER}" "g_uops G p = None"
  shows "gen_step D E t p rest (at_stack (p # rest) V G) = Some (at_stack rest (insert p V) (leaf_code D E (NODE op1 s i pos l0 l1) G))"
  using assms by (auto simp: gen_step_def leaf_code_def Let_def split: prod.split)

lemma gen_step_field:
  assumes "node_at t p = Some (NODE TR_STRUCT_REF s i pos (Some obj) (Some fld))" "g_uops G p = None"
    "\<not> (nd_op obj = TR_IDENTIFIER \<and> nd_op fld = TR_OP_FUNC_CALL)"
  shows "gen_step D E t p rest (at_stack (p # rest) V G) =
    Some (at_stack rest (insert p (V \<union> {p @ [False], p @ [True]})) (field_code D E obj fld G))"
  using assms by (auto simp: gen_step_def gen_struct_ref_def field_code_def Let_def split: option.split)

subsection \<open>The loop does what the recursion does\<close>

definition with_uops :: "(ADDR \<Rightarrow> ('d, 'i) UOP option) \<Rightarrow> ('d, 'i) GEN \<Rightarrow> ('d, 'i) GEN" where
  "with_uops U G = G\<lparr>g_uops := U\<rparr>"

lemma with_uops_simps [simp]:
  "g_uops (with_uops U G) = U" "g_pre (with_uops U G) = g_pre G" "g_code (with_uops U G) = g_code G" "with_uops (g_uops G) G = G"
  "with_uops U (with_uops U' G) = with_uops U G" "SetUop p u G = with_uops ((g_uops G)(p := Some u)) G"
  "at_stack st V (with_uops U G) = with_uops U (at_stack st V G)"
  by (simp_all add: with_uops_def SetUop_def at_stack_def)

lemma with_uops_ops [simp]:
  "gen_error m pos (with_uops U G) = with_uops U (gen_error m pos G)" "item_error n v (with_uops U G) = with_uops U (item_error n v G)"
  "emit u (with_uops U G) = with_uops U (emit u G)" "(with_uops U G)\<lparr>g_pre := pre\<rparr> = with_uops U (G\<lparr>g_pre := pre\<rparr>)"
  by (simp_all add: with_uops_def gen_error_def item_error_def emit_def split: option.split)

lemma with_uops_fold [simp]: "fold (\<lambda>m. gen_error m pos) ms (with_uops U G) = with_uops U (fold (\<lambda>m. gen_error m pos) ms G)"
  by (induction ms arbitrary: G) simp_all

lemma with_uops_number [simp]:
  "gen_number D E n (with_uops U G) = (fst (gen_number D E n G), with_uops U (snd (gen_number D E n G)))"
  by (simp add: gen_number_def split: option.split TREE_NODE.split OP.split)

lemma with_uops_leaf [simp]: "leaf_code D E n (with_uops U G) = with_uops U (leaf_code D E n G)"
  by (cases "nd_op n") (simp_all add: leaf_code_def split_beta)

lemma with_uops_field [simp]: "field_code D E x y (with_uops U G) = with_uops U (field_code D E x y G)"
  by (simp add: field_code_def Let_def split: option.split)

lemma with_uops_call [simp]: "call_reports D E x y z (with_uops U G) = map_option (with_uops U) (call_reports D E x y z G)"
  by (auto simp: call_reports_def Let_def split: option.split)

lemma compile_with_uops:
  "compile D E n (with_uops U G) = map_option (with_uops U) (compile D E n G)"
  "compile_all D E ns (with_uops U G) = map_option (with_uops U) (compile_all D E ns G)"
proof (induction D E n G and D E ns G rule: compile_compile_all.induct)
  case (1 D E op1 s i pos l0 l1 G)
  show ?case
  proof (cases "op1 \<in> {TR_OP_FUNC_CALL, TR_NUMBER, TR_STRING, TR_IDENTIFIER}")
    case False
    then show ?thesis using 1 by (auto split: option.split)
  qed simp
qed (auto split: option.split)

lemma compile_keeps_uops: "compile D E n G = Some G' \<Longrightarrow> g_uops G' = g_uops G"
  using compile_with_uops(1) [of D E n "g_uops G" G] by simp (metis with_uops_simps(1))

lemma compile_all_keeps_uops: "compile_all D E ns G = Some G' \<Longrightarrow> g_uops G' = g_uops G"
  using compile_with_uops(2) [of D E ns "g_uops G" G] by simp (metis with_uops_simps(1))

text \<open>The loop, with the node at \<open>p\<close> on the top, comes to what is below it in the state of the recursion.\<close>

definition loop_does :: "'d DOUBLES \<Rightarrow> ('d, 'i) EDITOR \<Rightarrow> TREE_NODE \<Rightarrow> ADDR list \<Rightarrow> ADDR \<Rightarrow> ADDR set \<Rightarrow> ('d, 'i) GEN \<Rightarrow>
    ('d, 'i) GEN option \<Rightarrow> bool" where
  "loop_does D E t todo p V G out \<longleftrightarrow>
    (\<forall>rest. \<exists>W. W \<subseteq> below p \<and>
       gen_loop D E t (at_stack (todo @ rest) V G) = (case out of None \<Rightarrow> None | Some G' \<Rightarrow> gen_loop D E t (at_stack rest (V \<union> W) G')))"

definition node_ok :: "'d DOUBLES \<Rightarrow> ('d, 'i) EDITOR \<Rightarrow> TREE_NODE \<Rightarrow> TREE_NODE \<Rightarrow> bool" where
  "node_ok D E t n \<longleftrightarrow> (\<forall>p V G. node_at t p = Some n \<longrightarrow> fresh_below p V G \<longrightarrow> loop_does D E t [p] p V G (compile D E n G))"

lemma node_ok_loop: "node_ok D E t n \<Longrightarrow> node_at t p = Some n \<Longrightarrow> fresh_below p V G \<Longrightarrow> loop_does D E t [p] p V G (compile D E n G)"
  by (simp add: node_ok_def)

lemma node_at_append: "node_at t (p @ q) = (case node_at t p of None \<Rightarrow> None | Some n \<Rightarrow> node_at n q)"
  by (induction t p rule: node_at.induct) (auto split: option.split)

lemma loop_does_append:
  assumes "loop_does D E t todo p V G out" "p = q @ r" "\<And>G' W. out = Some G' \<Longrightarrow> W \<subseteq> below p \<Longrightarrow> loop_does D E t todo' q (V \<union> W) G' (out' G')"
  shows "loop_does D E t (todo @ todo') q V G (case out of None \<Rightarrow> None | Some G' \<Rightarrow> out' G')"
  unfolding loop_does_def
proof
  fix rest
  obtain W where W: "W \<subseteq> below p"
    "gen_loop D E t (at_stack (todo @ todo' @ rest) V G) = (case out of None \<Rightarrow> None | Some G' \<Rightarrow> gen_loop D E t (at_stack (todo' @ rest) (V \<union> W) G'))"
    using assms(1) unfolding loop_does_def by blast
  have sub: "below p \<subseteq> below q" unfolding assms(2) by (rule below_child)
  show "\<exists>W. W \<subseteq> below q \<and> gen_loop D E t (at_stack ((todo @ todo') @ rest) V G) =
      (case case out of None \<Rightarrow> None | Some G' \<Rightarrow> out' G' of None \<Rightarrow> None | Some G' \<Rightarrow> gen_loop D E t (at_stack rest (V \<union> W) G'))"
  proof (cases out)
    case None
    then show ?thesis using W(2) by (intro exI [of _ "{}"]) simp
  next
    case (Some G')
    obtain W' where W': "W' \<subseteq> below q"
      "gen_loop D E t (at_stack (todo' @ rest) (V \<union> W) G') = (case out' G' of None \<Rightarrow> None | Some G' \<Rightarrow> gen_loop D E t (at_stack rest (V \<union> W \<union> W') G'))"
      using assms(3) [OF Some W(1)] unfolding loop_does_def by blast
    have "W \<union> W' \<subseteq> below q" using W(1) W'(1) sub by blast
    then show ?thesis using W(2) W'(2) Some by (intro exI [of _ "W \<union> W'"]) (auto simp: Un_assoc split: option.split)
  qed
qed

lemma compile_all_single [simp]: "compile_all D E [x] G = compile D E x G"
  by (simp split: option.split)

lemma loop_does_lift: "loop_does D E t todo (q @ r) V G out \<Longrightarrow> loop_does D E t todo q V G out"
  unfolding loop_does_def using below_child [of q r] by (meson order_trans)

lemma loop_does_nil [simp]: "loop_does D E t [] p V G (Some G)"
  unfolding loop_does_def by (intro allI exI [of _ "{}"]) simp

lemma fresh_child:
  assumes "fresh_below q V G" "g_uops G' = g_uops G" "W \<subseteq> below (q @ [\<not> b])"
  shows "fresh_below (q @ [b]) (V \<union> W) G'"
  using assms by (auto simp: fresh_below_def below_def)

lemma fresh_child_self: "fresh_below q V G \<Longrightarrow> fresh_below (q @ [b]) V G"
  using fresh_child [of q V G G "{}" b] by simp

lemma loop_args_ok:
  assumes "\<And>n. size n \<le> size root \<Longrightarrow> node_ok D E t n" "node_at t q = Some root" "fresh_below q V G"
  shows "loop_does D E t (squash_loop q root) q V G (compile_all D E (args_loop root) G)"
  using assms
proof (induction root arbitrary: q V G rule: args_loop.induct)
  case (1 op1 s i pos l0 l1)
  define todo0 where "todo0 = (case l0 of None \<Rightarrow> [] | Some m \<Rightarrow> if nd_op m = TR_ARG_LIST then squash_loop (q @ [False]) m else [q @ [False]])"
  define out0 where "out0 = (case l0 of None \<Rightarrow> [] | Some m \<Rightarrow> if nd_op m = TR_ARG_LIST then args_loop m else [m])"
  have first: "loop_does D E t todo0 q (V \<union> W) G' (compile_all D E out0 G')" if "g_uops G' = g_uops G" "W \<subseteq> below (q @ [True])" for G' W
  proof (cases l0)
    case None
    then show ?thesis by (simp add: todo0_def out0_def)
  next
    case (Some m)
    have at: "node_at t (q @ [False]) = Some m" using "1.prems"(2) Some by (simp add: node_at_append)
    have fresh: "fresh_below (q @ [False]) (V \<union> W) G'" using fresh_child [OF "1.prems"(3) that(1), of W False] that(2) by simp
    have "loop_does D E t todo0 (q @ [False]) (V \<union> W) G' (compile_all D E out0 G')"
    proof (cases "nd_op m = TR_ARG_LIST")
      case True
      have ok: "node_ok D E t n" if "size n \<le> size m" for n using that "1.prems"(1) [of n] Some by simp
      show ?thesis using "1.IH" [OF Some True ok at fresh] Some True by (simp add: todo0_def out0_def)
    next
      case False
      have "node_ok D E t m" using "1.prems"(1) [of m] Some by simp
      then show ?thesis using at fresh Some False by (simp add: todo0_def out0_def node_ok_def del: compile_all.simps)
    qed
    then show ?thesis by (rule loop_does_lift)
  qed
  show ?case
  proof (cases l1)
    case None
    then show ?thesis using first [of G "{}"] by (simp add: todo0_def out0_def)
  next
    case (Some x)
    have at: "node_at t (q @ [True]) = Some x" using "1.prems"(2) Some by (simp add: node_at_append)
    have x: "loop_does D E t [q @ [True]] (q @ [True]) V G (compile D E x G)"
      using "1.prems"(1) [of x] Some at fresh_child_self [OF "1.prems"(3)] by (simp add: node_ok_def)
    have "loop_does D E t ([q @ [True]] @ todo0) q V G (case compile D E x G of None \<Rightarrow> None | Some G' \<Rightarrow> compile_all D E out0 G')"
      by (rule loop_does_append [OF x refl]) (auto intro: first compile_keeps_uops)
    then show ?thesis unfolding todo0_def out0_def by (simp add: Some)
  qed
qed

lemma args_ok:
  assumes "\<And>n. size n \<le> size root \<Longrightarrow> node_ok D E t n" "node_at t q = Some root" "fresh_below q V G"
  shows "loop_does D E t (rev (squashParamList q root)) q V G (compile_all D E (args_rev root) G)"
proof (cases "nd_op root \<noteq> TR_ARG_LIST \<and> nd_op root \<noteq> TR_NULL")
  case True
  have e: "rev (squashParamList q root) = [q]" "args_rev root = [root]" using True by (simp_all add: squashParamList_def args_rev_def)
  show ?thesis using assms unfolding e compile_all_single by (simp add: node_ok_def)
next
  case False
  then have e: "rev (squashParamList q root) = squash_loop q root" "args_rev root = args_loop root" by (auto simp add: squashParamList_def args_rev_def)
  show ?thesis unfolding e by (rule loop_args_ok [OF assms])
qed

lemma leaf_ok:
  fixes D :: "'d DOUBLES" and E :: "('d, 'i) EDITOR"
  assumes "op1 \<in> {TR_OP_FUNC_CALL, TR_NUMBER, TR_STRING, TR_IDENTIFIER}"
  shows "node_ok D E t (NODE op1 s i pos l0 l1)"
  unfolding node_ok_def loop_does_def
proof (intro allI impI)
  fix p V rest and G :: "('d, 'i) GEN"
  assume a: "node_at t p = Some (NODE op1 s i pos l0 l1)" "fresh_below p V G"
  have u: "g_uops G p = None" using a(2) unfolding fresh_below_def by (metis append_Nil2)
  have c: "compile D E (NODE op1 s i pos l0 l1) G = Some (leaf_code D E (NODE op1 s i pos l0 l1) G)" using assms by simp
  show "\<exists>W. W \<subseteq> below p \<and> gen_loop D E t (at_stack ([p] @ rest) V G) =
      (case compile D E (NODE op1 s i pos l0 l1) G of None \<Rightarrow> None | Some G' \<Rightarrow> gen_loop D E t (at_stack rest (V \<union> W) G'))"
    unfolding c using gen_step_leaf [OF a(1) assms u] by (intro exI [of _ "{p}"]) (simp add: gen_loop_step)
qed

lemma gen_step_default:
  assumes "node_at t p = Some (NODE op1 s i pos l0 l1)" "op1 \<notin> {TR_OP_FUNC_CALL, TR_NUMBER, TR_STRING, TR_IDENTIFIER, TR_STRUCT_REF}"
  shows "gen_step D E t p rest (at_stack (p # rest) V G) =
    Some (if l0 \<noteq> None \<and> p @ [False] \<notin> V
          then at_stack ((p @ [False]) # p # rest) (insert (p @ [False]) V) (with_uops ((g_uops G)(p := Some (UOP_ref op1 None))) G)
          else if l1 \<noteq> None \<and> p @ [True] \<notin> V
          then at_stack ((p @ [True]) # p # rest) (insert (p @ [True]) V) (with_uops ((g_uops G)(p := Some (UOP_ref op1 None))) G)
          else at_stack rest (insert p V) (emit (UOP_ref op1 None) (with_uops ((g_uops G)(p := None)) G)))"
proof -
  have d: "gen_step D E t p rest (at_stack (p # rest) V G) = Some (gen_default p rest (NODE op1 s i pos l0 l1) (at_stack (p # rest) V G))"
    using assms by (cases op1) (simp_all only: gen_step_def option.case TREE_NODE.sel OP.case, simp_all)
  show ?thesis unfolding d by (simp add: gen_default_def Let_def SetUop_def visit_def gen_finish_def emit_def at_stack_def with_uops_def)
qed

lemma with_uops_set: "with_uops U (with_uops U' G) = with_uops U G" by simp

definition opt_list :: "'a option \<Rightarrow> 'a list" where "opt_list l = (case l of None \<Rightarrow> [] | Some x \<Rightarrow> [x])"

lemma opt_list_simps [simp]: "opt_list None = []" "opt_list (Some x) = [x]"
  by (simp_all add: opt_list_def)

lemma fresh_marked: "fresh_below (p @ [b]) V G \<Longrightarrow> fresh_below (p @ [b]) (insert (p @ [b]) V) (with_uops ((g_uops G)(p := u)) G)"
  by (auto simp: fresh_below_def)

lemma loop_default_done:
  assumes "node_at t p = Some (NODE op1 s i pos l0 l1)" "op1 \<notin> {TR_OP_FUNC_CALL, TR_NUMBER, TR_STRING, TR_IDENTIFIER, TR_STRUCT_REF}"
    "l0 = None \<or> p @ [False] \<in> V" "l1 = None \<or> p @ [True] \<in> V"
  shows "gen_loop D E t (at_stack (p # rest) V G) =
    gen_loop D E t (at_stack rest (insert p V) (emit (UOP_ref op1 None) (with_uops ((g_uops G)(p := None)) G)))"
  unfolding gen_loop_step [of D E t p rest V G] gen_step_default [OF assms(1,2)] using assms(3,4) by auto

lemma loop_default_first:
  assumes "node_at t p = Some (NODE op1 s i pos (Some x) l1)" "op1 \<notin> {TR_OP_FUNC_CALL, TR_NUMBER, TR_STRING, TR_IDENTIFIER, TR_STRUCT_REF}"
    "p @ [False] \<notin> V"
  shows "gen_loop D E t (at_stack (p # rest) V G) =
    gen_loop D E t (at_stack ((p @ [False]) # p # rest) (insert (p @ [False]) V) (with_uops ((g_uops G)(p := Some (UOP_ref op1 None))) G))"
  unfolding gen_loop_step [of D E t p rest V G] gen_step_default [OF assms(1,2)] using assms(3) by (simp del: with_uops_simps)

lemma loop_default_second:
  assumes "node_at t p = Some (NODE op1 s i pos l0 (Some x))" "op1 \<notin> {TR_OP_FUNC_CALL, TR_NUMBER, TR_STRING, TR_IDENTIFIER, TR_STRUCT_REF}"
    "l0 = None \<or> p @ [False] \<in> V" "p @ [True] \<notin> V"
  shows "gen_loop D E t (at_stack (p # rest) V G) =
    gen_loop D E t (at_stack ((p @ [True]) # p # rest) (insert (p @ [True]) V) (with_uops ((g_uops G)(p := Some (UOP_ref op1 None))) G))"
  unfolding gen_loop_step [of D E t p rest V G] gen_step_default [OF assms(1,2)] using assms(3,4) by (auto simp del: with_uops_simps)

lemma default_last:
  fixes D :: "'d DOUBLES" and E :: "('d, 'i) EDITOR" and H :: "('d, 'i) GEN"
  assumes at: "node_at t p = Some (NODE op1 s i pos l0 l1)" and op: "op1 \<notin> {TR_OP_FUNC_CALL, TR_NUMBER, TR_STRING, TR_IDENTIFIER, TR_STRUCT_REF}"
    and l0: "l0 = None \<or> p @ [False] \<in> V" and l1: "\<And>x. l1 = Some x \<Longrightarrow> node_ok D E t x" and fresh: "fresh_below (p @ [True]) V H" "p @ [True] \<notin> V"
  shows "loop_does D E t [p] p V H
    (case compile_all D E (opt_list l1) (with_uops ((g_uops H)(p := None)) H) of None \<Rightarrow> None | Some G2 \<Rightarrow> Some (emit (UOP_ref op1 None) G2))"
proof (cases l1)
  case None
  show ?thesis unfolding loop_does_def
    using loop_default_done [OF at op l0, of D E _ H] None by (intro allI exI [of _ "{p}"]) simp
next
  case (Some x)
  define U where "U = (g_uops H)(p := Some (UOP_ref op1 None))"
  have U: "U(p := None) = (g_uops H)(p := None)" by (simp add: U_def)
  have at_x: "node_at t (p @ [True]) = Some x" using at Some by (simp add: node_at_append)
  have x: "loop_does D E t [p @ [True]] (p @ [True]) (insert (p @ [True]) V) (with_uops U H) (map_option (with_uops U) (compile D E x H))"
    unfolding U_def compile_with_uops [symmetric] by (rule node_ok_loop [OF l1 [OF Some] at_x fresh_marked [OF fresh(1)]])
  show ?thesis unfolding loop_does_def
  proof
    fix rest
    obtain W where W: "W \<subseteq> below (p @ [True])"
      "gen_loop D E t (at_stack ((p @ [True]) # p # rest) (insert (p @ [True]) V) (with_uops U H)) =
        (case map_option (with_uops U) (compile D E x H) of None \<Rightarrow> None | Some G' \<Rightarrow> gen_loop D E t (at_stack (p # rest) (insert (p @ [True]) V \<union> W) G'))"
      using x [unfolded loop_does_def, rule_format, of "p # rest"] by auto
    have first: "gen_loop D E t (at_stack (p # rest) V H) =
        (case compile D E x H of None \<Rightarrow> None | Some G1 \<Rightarrow> gen_loop D E t (at_stack (p # rest) (insert (p @ [True]) V \<union> W) (with_uops U G1)))"
      unfolding loop_default_second [OF at [unfolded Some] op l0 fresh(2)] U_def [symmetric] W(2) by (simp split: option.split)
    have last: "gen_loop D E t (at_stack (p # rest) (insert (p @ [True]) V \<union> W) (with_uops U G1)) =
        gen_loop D E t (at_stack rest (insert p (insert (p @ [True]) V \<union> W)) (emit (UOP_ref op1 None) (with_uops ((g_uops H)(p := None)) G1)))" for G1
    proof -
      have m: "l0 = None \<or> p @ [False] \<in> insert (p @ [True]) V \<union> W" "l1 = None \<or> p @ [True] \<in> insert (p @ [True]) V \<union> W" using l0 by auto
      show ?thesis unfolding loop_default_done [OF at op m] by (simp add: U)
    qed
    have "insert p (insert (p @ [True]) W) \<subseteq> below p" using W(1) below_child [of p "[True]"] by auto
    then show "\<exists>W. W \<subseteq> below p \<and> gen_loop D E t (at_stack ([p] @ rest) V H) =
        (case case compile_all D E (opt_list l1) (with_uops ((g_uops H)(p := None)) H) of None \<Rightarrow> None | Some G2 \<Rightarrow> Some (emit (UOP_ref op1 None) G2)
          of None \<Rightarrow> None | Some G' \<Rightarrow> gen_loop D E t (at_stack rest (V \<union> W) G'))"
      using first last unfolding Some opt_list_simps compile_all_single compile_with_uops
      by (intro exI [of _ "insert p (insert (p @ [True]) W)"], cases "compile D E x H") simp_all
  qed
qed

lemma default_ok:
  fixes D :: "'d DOUBLES" and E :: "('d, 'i) EDITOR"
  assumes op: "op1 \<notin> {TR_OP_FUNC_CALL, TR_NUMBER, TR_STRING, TR_IDENTIFIER, TR_STRUCT_REF}"
    and l0: "\<And>x. l0 = Some x \<Longrightarrow> node_ok D E t x" and l1: "\<And>x. l1 = Some x \<Longrightarrow> node_ok D E t x"
  shows "node_ok D E t (NODE op1 s i pos l0 l1)"
  unfolding node_ok_def
proof (intro allI impI)
  fix p V and G :: "('d, 'i) GEN"
  assume at: "node_at t p = Some (NODE op1 s i pos l0 l1)" and fresh: "fresh_below p V G"
  let ?u = "UOP_ref op1 None"
  have none: "g_uops G p = None" using fresh unfolding fresh_below_def by (metis append_Nil2)
  have C: "compile D E (NODE op1 s i pos l0 l1) G = (case compile_all D E (opt_list l0) G of None \<Rightarrow> None
      | Some G1 \<Rightarrow> (case compile_all D E (opt_list l1) G1 of None \<Rightarrow> None | Some G2 \<Rightarrow> Some (emit ?u G2)))"
    unfolding opt_list_def using op by simp
  show "loop_does D E t [p] p V G (compile D E (NODE op1 s i pos l0 l1) G)"
  proof (cases l0)
    case None
    have "p @ [True] \<notin> V" using fresh by (auto simp: fresh_below_def)
    then show ?thesis using default_last [OF at op _ l1 fresh_child_self [OF fresh]] None none unfolding C
      by (simp add: fun_upd_idem)
  next
    case (Some x)
    define U where "U = (g_uops G)(p := Some ?u)"
    have at_x: "node_at t (p @ [False]) = Some x" using at Some by (simp add: node_at_append)
    have x: "loop_does D E t [p @ [False]] (p @ [False]) (insert (p @ [False]) V) (with_uops U G) (map_option (with_uops U) (compile D E x G))"
      unfolding U_def compile_with_uops [symmetric] by (rule node_ok_loop [OF l0 [OF Some] at_x fresh_marked [OF fresh_child_self [OF fresh]]])
    show ?thesis unfolding loop_does_def
    proof
      fix rest
      obtain W where W: "W \<subseteq> below (p @ [False])"
        "gen_loop D E t (at_stack ((p @ [False]) # p # rest) (insert (p @ [False]) V) (with_uops U G)) =
          (case map_option (with_uops U) (compile D E x G) of None \<Rightarrow> None | Some G' \<Rightarrow> gen_loop D E t (at_stack (p # rest) (insert (p @ [False]) V \<union> W) G'))"
        using x [unfolded loop_does_def, rule_format, of "p # rest"] by auto
      have unseen: "p @ [False] \<notin> V" using fresh by (auto simp: fresh_below_def)
      have first: "gen_loop D E t (at_stack (p # rest) V G) =
          (case compile D E x G of None \<Rightarrow> None | Some G1 \<Rightarrow> gen_loop D E t (at_stack (p # rest) (insert (p @ [False]) V \<union> W) (with_uops U G1)))"
        unfolding loop_default_first [OF at [unfolded Some] op unseen] U_def [symmetric] W(2) by (simp split: option.split)
      show "\<exists>W. W \<subseteq> below p \<and> gen_loop D E t (at_stack ([p] @ rest) V G) =
          (case compile D E (NODE op1 s i pos l0 l1) G of None \<Rightarrow> None | Some G' \<Rightarrow> gen_loop D E t (at_stack rest (V \<union> W) G'))"
      proof (cases "compile D E x G")
        case None
        have c: "compile D E (NODE op1 s i pos l0 l1) G = None"
          using None by (subst C) (simp add: \<open>l0 = Some x\<close>)
        show ?thesis unfolding c using first None by (intro exI [of _ "{p}"]) simp
      next
        case (Some G1)
        have keep: "g_uops G1 = g_uops G" using compile_keeps_uops [OF Some] .
        define V2 where "V2 = insert (p @ [False]) V \<union> W"
        have sub: "insert (p @ [False]) W \<subseteq> below p" using W(1) below_child [of p "[False]"] by auto
        have f2: "fresh_below (p @ [True]) V2 (with_uops U G1)" "p @ [True] \<notin> V2"
          using fresh W(1) by (auto simp: fresh_below_def below_def V2_def U_def)
        have "(g_uops (with_uops U G1))(p := None) = g_uops G1" using none keep by (simp add: U_def fun_upd_idem)
        then have "loop_does D E t [p] p V2 (with_uops U G1)
            (case compile_all D E (opt_list l1) G1 of None \<Rightarrow> None | Some G2 \<Rightarrow> Some (emit ?u G2))"
          using default_last [OF at op _ l1 f2] by (simp add: V2_def)
        then obtain W2 where W2: "W2 \<subseteq> below p" "gen_loop D E t (at_stack (p # rest) V2 (with_uops U G1)) =
            (case case compile_all D E (opt_list l1) G1 of None \<Rightarrow> None | Some G2 \<Rightarrow> Some (emit ?u G2) of None \<Rightarrow> None
              | Some G' \<Rightarrow> gen_loop D E t (at_stack rest (V2 \<union> W2) G'))"
          unfolding loop_does_def by (metis append_Cons append_Nil)
        have V2: "V2 \<union> W2 = V \<union> (insert (p @ [False]) W \<union> W2)" by (auto simp: V2_def)
        have c: "compile D E (NODE op1 s i pos l0 l1) G = (case compile_all D E (opt_list l1) G1 of None \<Rightarrow> None | Some G2 \<Rightarrow> Some (emit ?u G2))"
          using Some by (subst C) (simp add: \<open>l0 = Some x\<close>)
        show ?thesis unfolding c using first W2 sub Some unfolding V2 [symmetric] V2_def [symmetric]
          by (intro exI [of _ "insert (p @ [False]) W \<union> W2"]) (simp add: V2 split: option.split)
      qed
    qed
  qed
qed

lemma field_ok:
  fixes D :: "'d DOUBLES" and E :: "('d, 'i) EDITOR"
  assumes "\<not> (nd_op obj = TR_IDENTIFIER \<and> nd_op fld = TR_OP_FUNC_CALL)"
  shows "node_ok D E t (NODE TR_STRUCT_REF s i pos (Some obj) (Some fld))"
  unfolding node_ok_def loop_does_def
proof (intro allI impI)
  fix p V rest and G :: "('d, 'i) GEN"
  let ?n = "NODE TR_STRUCT_REF s i pos (Some obj) (Some fld)"
  assume a: "node_at t p = Some ?n" "fresh_below p V G"
  have u: "g_uops G p = None" using a(2) unfolding fresh_below_def by (metis append_Nil2)
  have c: "compile D E ?n G = Some (field_code D E obj fld G)" using assms by auto
  show "\<exists>W. W \<subseteq> below p \<and> gen_loop D E t (at_stack ([p] @ rest) V G) =
      (case compile D E ?n G of None \<Rightarrow> None | Some G' \<Rightarrow> gen_loop D E t (at_stack rest (V \<union> W) G'))"
    unfolding c using gen_step_field [OF a(1) u assms, of D E rest V]
    by (intro exI [of _ "{p, p @ [False], p @ [True]}"]) (simp add: gen_loop_step Un_commute)
qed

lemma bad_ref_ok:
  fixes D :: "'d DOUBLES" and E :: "('d, 'i) EDITOR"
  assumes "l0 = None \<or> l1 = None"
  shows "node_ok D E t (NODE TR_STRUCT_REF s i pos l0 l1)"
  unfolding node_ok_def loop_does_def
proof (intro allI impI)
  fix p V rest and G :: "('d, 'i) GEN"
  let ?n = "NODE TR_STRUCT_REF s i pos l0 l1"
  assume a: "node_at t p = Some ?n"
  have c: "compile D E ?n G = None" using assms by (cases l0; cases l1) auto
  have "gen_step D E t p rest (at_stack (p # rest) V G) = None" using a assms by (auto simp: gen_step_def gen_struct_ref_def split: option.split)
  then show "\<exists>W. W \<subseteq> below p \<and> gen_loop D E t (at_stack ([p] @ rest) V G) =
      (case compile D E ?n G of None \<Rightarrow> None | Some G' \<Rightarrow> gen_loop D E t (at_stack rest (V \<union> W) G'))"
    unfolding c by (intro exI [of _ "{p}"]) (simp add: gen_loop_step)
qed

text \<open>A call: the trial call and its reports, then the arguments from the last to the first, then the call itself.\<close>

lemma squash_names:
  "node_at t q = Some root \<Longrightarrow> map (\<lambda>q. formatNode (the (node_at t q))) (squash_loop q root) = map formatNode (args_loop root)"
proof (induction root arbitrary: q rule: args_loop.induct)
  case (1 op1 s i pos l0 l1)
  then show ?case by (auto simp: node_at_append split: option.split)
qed

lemma param_names:
  "node_at t q = Some root \<Longrightarrow> map (\<lambda>q. formatNode (the (node_at t q))) (squashParamList q root) = map formatNode (rev (args_rev root))"
  by (simp add: squashParamList_def args_rev_def squash_names flip: rev_map)

lemma gen_step_call:
  assumes "node_at t p = Some (NODE TR_STRUCT_REF s i pos (Some obj) (Some fcall))" "nd_op obj = TR_IDENTIFIER" "nd_op fcall = TR_OP_FUNC_CALL"
    "leaf0 fcall = Some fname" "leaf1 fcall = Some args"
  shows "gen_step D E t p rest (at_stack (p # rest) V G) =
    (case call_reports D E obj fname args G of None \<Rightarrow> None
     | Some G1 \<Rightarrow> Some (at_stack (rev (squashParamList (p @ [True, True]) args) @ (p @ [True]) # rest)
         (V \<union> {p @ [False], p @ [True], p @ [True, False], p @ [True, True]})
         (with_uops ((g_uops G1)(p @ [True] := Some (UOP_call (CreateFuncCall E (formatNode fname)) (CreateVarRef E (formatNode obj) [])))) G1)))"
proof -
  have at: "node_at t (p @ [True, True]) = Some args" using assms by (simp add: node_at_append)
  have names: "map (\<lambda>q. formatNode (the (node_at t q))) (squashParamList (p @ [True, True]) args) = map formatNode (rev (args_rev args))"
    by (rule param_names [OF at])
  have step: "gen_step D E t p rest (at_stack (p # rest) V G) = gen_method D E t p rest obj fcall (at_stack (p # rest) V G)"
    using assms by (simp add: gen_step_def gen_struct_ref_def Let_def)
  show ?thesis unfolding step gen_method_def call_reports_def Let_def assms(4,5) option.case prod.case names
    by (simp split: option.split add: names del: rev_map)
qed

lemma call_reports_keeps: "call_reports D E obj fname args G = Some G1 \<Longrightarrow> g_uops G1 = g_uops G"
  by (auto simp: call_reports_def Let_def split: option.splits)

lemma call_ok:
  fixes D :: "'d DOUBLES" and E :: "('d, 'i) EDITOR"
  assumes ops: "nd_op obj = TR_IDENTIFIER" "nd_op fcall = TR_OP_FUNC_CALL" and leaves: "leaf0 fcall = Some fname" "leaf1 fcall = Some args"
    and IH: "\<And>n. size n \<le> size args \<Longrightarrow> node_ok D E t n"
  shows "node_ok D E t (NODE TR_STRUCT_REF s i pos (Some obj) (Some fcall))"
  unfolding node_ok_def loop_does_def
proof (intro allI impI)
  fix p V rest and G :: "('d, 'i) GEN"
  let ?n = "NODE TR_STRUCT_REF s i pos (Some obj) (Some fcall)"
  let ?u = "UOP_call (CreateFuncCall E (formatNode fname)) (CreateVarRef E (formatNode obj) [])"
  let ?q = "p @ [True, True]"
  assume at: "node_at t p = Some ?n" and fresh: "fresh_below p V G"
  have C: "compile D E ?n G = (case call_reports D E obj fname args G of None \<Rightarrow> None
      | Some G1 \<Rightarrow> (case compile_all D E (args_rev args) G1 of None \<Rightarrow> None | Some G2 \<Rightarrow> Some (emit ?u G2)))"
    using ops leaves by simp
  note step = gen_step_call [OF at ops leaves, of D E rest V G]
  show "\<exists>W. W \<subseteq> below p \<and> gen_loop D E t (at_stack ([p] @ rest) V G) =
      (case compile D E ?n G of None \<Rightarrow> None | Some G' \<Rightarrow> gen_loop D E t (at_stack rest (V \<union> W) G'))"
  proof (cases "call_reports D E obj fname args G")
    case None
    then show ?thesis unfolding C using step by (intro exI [of _ "{}"]) (simp add: gen_loop_step)
  next
    case (Some G1)
    define M where "M = {p @ [False], p @ [True], p @ [True, False], ?q}"
    define U where "U = (g_uops G1)(p @ [True] := Some ?u)"
    have keep: "g_uops G1 = g_uops G" by (rule call_reports_keeps [OF Some])
    have first: "gen_loop D E t (at_stack (p # rest) V G) =
        gen_loop D E t (at_stack (rev (squashParamList ?q args) @ (p @ [True]) # rest) (V \<union> M) (with_uops U G1))"
      unfolding gen_loop_step [of D E t p rest V G] step Some M_def U_def by (simp del: with_uops_simps)
    have at_q: "node_at t ?q = Some args" "node_at t (p @ [True]) = Some fcall" using at leaves by (simp_all add: node_at_append)
    have fr: "fresh_below ?q (V \<union> M) (with_uops U G1)" using fresh keep by (auto simp: fresh_below_def M_def U_def)
    have A: "loop_does D E t (rev (squashParamList ?q args)) ?q (V \<union> M) (with_uops U G1) (map_option (with_uops U) (compile_all D E (args_rev args) G1))"
      unfolding compile_with_uops [symmetric] by (rule args_ok [OF _ at_q(1) fr]) (rule IH)
    obtain W where W: "W \<subseteq> below ?q"
      "gen_loop D E t (at_stack (rev (squashParamList ?q args) @ (p @ [True]) # rest) (V \<union> M) (with_uops U G1)) =
        (case map_option (with_uops U) (compile_all D E (args_rev args) G1) of None \<Rightarrow> None
         | Some G' \<Rightarrow> gen_loop D E t (at_stack ((p @ [True]) # rest) (V \<union> M \<union> W) G'))"
      using A [unfolded loop_does_def, rule_format, of "(p @ [True]) # rest"] by blast
    have sub: "insert (p @ [True]) (M \<union> W) \<subseteq> below p" using W(1) below_child [of p "[True, True]"] by (auto simp: M_def)
    show ?thesis
    proof (cases "compile_all D E (args_rev args) G1")
      case None
      have c: "compile D E ?n G = None" using None by (subst C) (simp add: Some)
      show ?thesis unfolding c using first W(2) None by (intro exI [of _ "{}"]) simp
    next
      case (Some G2)
      have keep2: "g_uops G2 = g_uops G" using compile_all_keeps_uops [OF Some] keep by simp
      have none: "g_uops G (p @ [True]) = None" using fresh by (simp add: fresh_below_def)
      have c: "compile D E ?n G = Some (emit ?u G2)" using Some by (subst C) (simp add: \<open>call_reports D E obj fname args G = Some G1\<close>)
      have "gen_step D E t (p @ [True]) rest (at_stack ((p @ [True]) # rest) (V \<union> M \<union> W) (with_uops U G2)) =
          Some (gen_finish (p @ [True]) rest (at_stack ((p @ [True]) # rest) (V \<union> M \<union> W) (with_uops U G2)))"
        using at_q(2) ops(2) by (simp add: gen_step_def U_def)
      also have "gen_finish (p @ [True]) rest (at_stack ((p @ [True]) # rest) (V \<union> M \<union> W) (with_uops U G2)) =
          at_stack rest (insert (p @ [True]) (V \<union> M \<union> W)) (emit ?u (with_uops (U(p @ [True] := None)) G2))"
        by (simp add: gen_finish_def U_def at_stack_def emit_def with_uops_def)
      also have "with_uops (U(p @ [True] := None)) G2 = G2" using none keep keep2 by (metis U_def fun_upd_idem fun_upd_upd with_uops_simps(4))
      finally have last: "gen_loop D E t (at_stack ((p @ [True]) # rest) (V \<union> M \<union> W) (with_uops U G2)) =
          gen_loop D E t (at_stack rest (insert (p @ [True]) (V \<union> M \<union> W)) (emit ?u G2))"
        unfolding gen_loop_step [of D E t "p @ [True]" rest] by simp
      have V: "insert (p @ [True]) (V \<union> M \<union> W) = V \<union> insert (p @ [True]) (M \<union> W)" by auto
      show ?thesis unfolding c using first W(2) last sub Some unfolding V by (intro exI [of _ "insert (p @ [True]) (M \<union> W)"]) simp
    qed
  qed
qed

lemma bad_call_ok:
  fixes D :: "'d DOUBLES" and E :: "('d, 'i) EDITOR"
  assumes "nd_op obj = TR_IDENTIFIER" "nd_op fcall = TR_OP_FUNC_CALL" "leaf0 fcall = None \<or> leaf1 fcall = None"
  shows "node_ok D E t (NODE TR_STRUCT_REF s i pos (Some obj) (Some fcall))"
  unfolding node_ok_def loop_does_def
proof (intro allI impI)
  fix p V rest and G :: "('d, 'i) GEN"
  let ?n = "NODE TR_STRUCT_REF s i pos (Some obj) (Some fcall)"
  assume a: "node_at t p = Some ?n"
  have c: "compile D E ?n G = None" using assms by (cases "leaf0 fcall"; cases "leaf1 fcall") auto
  have "gen_step D E t p rest (at_stack (p # rest) V G) = None"
    using a assms by (auto simp: gen_step_def gen_struct_ref_def gen_method_def Let_def split: option.split)
  then show "\<exists>W. W \<subseteq> below p \<and> gen_loop D E t (at_stack ([p] @ rest) V G) =
      (case compile D E ?n G of None \<Rightarrow> None | Some G' \<Rightarrow> gen_loop D E t (at_stack rest (V \<union> W) G'))"
    unfolding c by (intro exI [of _ "{}"]) (simp add: gen_loop_step)
qed

lemma every_node_ok: "node_ok D E t n"
proof (induction n rule: measure_induct_rule [of size])
  case (less n)
  obtain op1 s i pos l0 l1 where n: "n = NODE op1 s i pos l0 l1" by (cases n)
  have IH: "\<And>x. l0 = Some x \<Longrightarrow> node_ok D E t x" "\<And>x. l1 = Some x \<Longrightarrow> node_ok D E t x" using less by (simp_all add: n)
  show ?case
  proof (cases "op1 \<in> {TR_OP_FUNC_CALL, TR_NUMBER, TR_STRING, TR_IDENTIFIER}")
    case True
    then show ?thesis unfolding n by (rule leaf_ok)
  next
    case False
    show ?thesis
    proof (cases "op1 = TR_STRUCT_REF")
      case False
      then show ?thesis unfolding n using \<open>op1 \<notin> _\<close> IH by (intro default_ok) auto
    next
      case True
      show ?thesis
      proof (cases "l0 = None \<or> l1 = None")
        case True
        then show ?thesis unfolding n \<open>op1 = TR_STRUCT_REF\<close> by (rule bad_ref_ok)
      next
        case False
        then obtain obj fld where l: "l0 = Some obj" "l1 = Some fld" by auto
        show ?thesis
        proof (cases "nd_op obj = TR_IDENTIFIER \<and> nd_op fld = TR_OP_FUNC_CALL")
          case False
          then show ?thesis unfolding n \<open>op1 = TR_STRUCT_REF\<close> l by (rule field_ok)
        next
          case ops: True
          show ?thesis
          proof (cases "leaf0 fld = None \<or> leaf1 fld = None")
            case True
            then show ?thesis unfolding n \<open>op1 = TR_STRUCT_REF\<close> l using ops by (intro bad_call_ok) auto
          next
            case False
            then obtain fname args where a: "leaf0 fld = Some fname" "leaf1 fld = Some args" by auto
            have "size args < size n" using leaf1_size [OF a(2)] by (simp add: n l)
            then have "node_ok D E t m" if "size m \<le> size args" for m using less that by simp
            then show ?thesis unfolding n \<open>op1 = TR_STRUCT_REF\<close> l using ops a by (intro call_ok) auto
          qed
        qed
      qed
    qed
  qed
qed

text \<open>The state the recursion begins with.\<close>

definition gen_start :: "('d, 'i) UOP list \<Rightarrow> ('d, 'i) CONTEXT \<Rightarrow> COMPILER \<Rightarrow> ('d, 'i) GEN" where
  "gen_start aCode pre c = \<lparr>g_stack = [[]], g_visited = {}, g_uops = (\<lambda>p. None), g_code = aCode, g_comp = c, g_pre = pre\<rparr>"

lemma gen_loop_compile:
  "\<exists>V. gen_loop D E t (gen_start aCode pre c) = map_option (at_stack [] V) (compile D E t (gen_start aCode pre c))"
proof -
  let ?G = "gen_start aCode pre c"
  have s: "at_stack [[]] {} ?G = ?G" by (simp add: at_stack_def gen_start_def)
  have "fresh_below [] {} ?G" by (simp add: fresh_below_def gen_start_def)
  then have "loop_does D E t [[]] [] {} ?G (compile D E t ?G)" by (intro node_ok_loop [OF every_node_ok]) simp_all
  then obtain W where "gen_loop D E t (at_stack ([[]] @ []) {} ?G) = (case compile D E t ?G of None \<Rightarrow> None | Some G' \<Rightarrow> gen_loop D E t (at_stack [] ({} \<union> W) G'))"
    unfolding loop_does_def by blast
  then have "gen_loop D E t ?G = (case compile D E t ?G of None \<Rightarrow> None | Some G' \<Rightarrow> gen_loop D E t (at_stack [] W G'))" by (simp add: s split: option.split_asm option.split)
  moreover have "gen_loop D E t (at_stack [] W G') = Some (at_stack [] W G')" for G' by (subst gen_loop.simps) simp
  ultimately show ?thesis by (intro exI [of _ W]) (auto split: option.split)
qed

lemma generateUCode_compile:
  assumes "m_tree c = Some t"
  shows "generateUCode D E aCode pre c = map_option (\<lambda>G. (g_code G, g_pre G, g_comp G)) (compile D E t (gen_start aCode pre c))"
proof -
  obtain V where V: "gen_loop D E t (gen_start aCode pre c) = map_option (at_stack [] V) (compile D E t (gen_start aCode pre c))"
    using gen_loop_compile by blast
  show ?thesis unfolding generateUCode_def assms option.case gen_start_def [symmetric] V
    by (simp add: option.map_comp comp_def)
qed

text \<open>
  C9: The loop with its own stack of nodes, marks and code kept at the nodes generates, for any tree, the code that
  the recursion over the tree does, with the same reports in the same order and the same trial calls; where the
  recursion is defined the loop ends.
\<close>

theorem generateUCode_recursion:
  "generateUCode D E aCode pre (c\<lparr>m_tree := Some t\<rparr>) =
    map_option (\<lambda>G. (g_code G, g_pre G, g_comp G)) (compile D E t (gen_start aCode pre (c\<lparr>m_tree := Some t\<rparr>)))"
  by (rule generateUCode_compile) simp

text \<open>The trees of the grammar have the leaves the code reads, so that without functions code is always generated.\<close>

fun tree_ok :: "TREE_NODE \<Rightarrow> bool" where
  "tree_ok (NODE op1 s i pos l0 l1) \<longleftrightarrow>
    (op1 \<in> {TR_STRUCT_REF, TR_OP_FUNC_CALL} \<longrightarrow> l0 \<noteq> None \<and> l1 \<noteq> None) \<and>
    (case l0 of None \<Rightarrow> True | Some x \<Rightarrow> tree_ok x) \<and> (case l1 of None \<Rightarrow> True | Some x \<Rightarrow> tree_ok x)"

lemma parsed_tree_ok: "parsed t \<Longrightarrow> tree_ok t"
proof (induction rule: parsed.induct)
  case (p_copy b pos)
  show ?case using p_copy.IH by (cases b rule: TREE_NODE.exhaust) (simp add: nt_copy_def)
qed (simp_all add: nt_value_def nt_value_unit_def nt_string_def nt_identifier_def nt_pair_def nt_not_def nt_minus_def nt_call_def nt_call_none_def newNode_def)

lemma tree_ok_args: "tree_ok t \<Longrightarrow> n \<in> set (args_rev t) \<Longrightarrow> tree_ok n"
proof -
  have "tree_ok t \<Longrightarrow> n \<in> set (args_loop t) \<Longrightarrow> tree_ok n"
    by (induction t rule: args_loop.induct) (auto split: option.splits if_splits)
  then show "tree_ok t \<Longrightarrow> n \<in> set (args_rev t) \<Longrightarrow> tree_ok n" by (auto simp: args_rev_def split: if_splits)
qed

lemma compile_defined:
  "tree_ok n \<Longrightarrow> (\<And>s. CreateFuncCall E s = None) \<Longrightarrow> \<exists>G'. compile D E n G = Some G'"
  "(\<And>n. n \<in> set ns \<Longrightarrow> tree_ok n) \<Longrightarrow> (\<And>s. CreateFuncCall E s = None) \<Longrightarrow> \<exists>G'. compile_all D E ns G = Some G'"
proof (induction D E n G and D E ns G rule: compile_compile_all.induct)
  case (1 D E op1 s i pos l0 l1 G)
  note IH = 1
  show ?case
  proof (cases "op1 \<in> {TR_OP_FUNC_CALL, TR_NUMBER, TR_STRING, TR_IDENTIFIER}")
    case other: False
    show ?thesis
    proof (cases "op1 = TR_STRUCT_REF")
      case True
      obtain obj fld where l: "l0 = Some obj" "l1 = Some fld" using IH(4) True by auto
      show ?thesis
      proof (cases "nd_op obj = TR_IDENTIFIER \<and> nd_op fld = TR_OP_FUNC_CALL")
        case ops: True
        have "tree_ok fld" using IH(4) l by simp
        then obtain fname args where a: "leaf0 fld = Some fname" "leaf1 fld = Some args" "tree_ok args" using ops by (cases fld) auto
        obtain G1 where G1: "call_reports D E obj fname args G = Some G1" using IH(5) by (simp add: call_reports_def Let_def)
        obtain G2 where "compile_all D E (args_rev args) G1 = Some G2"
          using IH(1) [OF other True refl l ops refl a(1,2) G1] tree_ok_args [OF a(3)] IH(5) by auto
        then show ?thesis using True l ops a G1 by simp
      qed (use True l in auto)
    next
      case False
      obtain G1 where G1: "compile_all D E (opt_list l0) G = Some G1"
        using IH(2) [OF other False, folded opt_list_def] IH(4,5) by (cases l0) auto
      obtain G2 where "compile_all D E (opt_list l1) G1 = Some G2"
        using IH(3) [OF other False, folded opt_list_def, OF G1] IH(4,5) by (cases l1) auto
      then show ?thesis using other False G1 by (simp add: opt_list_def)
    qed
  qed simp
next
  case (3 D E t ts G)
  obtain G1 where G1: "compile D E t G = Some G1" using 3 by auto
  then show ?case using 3 by auto
qed simp

lemma generateUCode_defined:
  assumes "parsed t" "m_tree c = Some t" "\<And>s. CreateFuncCall E s = None"
  shows "\<exists>r. generateUCode D E aCode pre c = Some r"
  using compile_defined(1) [OF parsed_tree_ok [OF assms(1)], of E D "gen_start aCode pre c"] assms(3) unfolding generateUCode_compile [OF assms(2)] by auto

end
