(* ===== verification/Libeval_Run.thy ===== *)
theory Libeval_Run
  imports Libeval_Props
begin

text \<open>
  What the generated code computes. An expression is what a tree means to the editor, \<open>eval\<close> its value for the items
  it is about, \<open>depth\<close> the number of values the machine has to hold for it.
\<close>

subsection \<open>Expressions\<close>

datatype (dead 'd, dead 'i) EXPR =
  E_value "'d VALUE"
| E_var "('d, 'i) VAR_REF option"
| E_op OP "('d, 'i) EXPR list"
| E_call "('d, 'i) FUNC option" "('d, 'i) VAR_REF option" "('d, 'i) EXPR list"
| E_none

lemma args_size: "n \<in> set (args_rev t) \<Longrightarrow> size n \<le> size t"
proof -
  have "n \<in> set (args_loop t) \<Longrightarrow> size n \<le> size t"
    using size_list_estimation' [of n "args_loop t" "size n" size] args_loop_size [of t] by simp
  then show "n \<in> set (args_rev t) \<Longrightarrow> size n \<le> size t" by (auto simp: args_rev_def split: if_splits)
qed

text \<open>The value of a node that is none of the operators.\<close>

definition field_expr :: "'d DOUBLES \<Rightarrow> ('d, 'i) EDITOR \<Rightarrow> TREE_NODE \<Rightarrow> TREE_NODE \<Rightarrow> ('d, 'i) EXPR" where
  "field_expr D E obj fld =
    (if nd_op obj = TR_IDENTIFIER \<and> nd_op fld = TR_IDENTIFIER then E_var (CreateVarRef E (formatNode obj) (formatNode fld))
     else E_value (VALUE_num D (d_zero D)))"

definition number_value :: "'d DOUBLES \<Rightarrow> ('d, 'i) EDITOR \<Rightarrow> TREE_NODE \<Rightarrow> 'd" where
  "number_value D E n =
    (case nd_str n of None \<Rightarrow> d_zero D
     | Some s \<Rightarrow> (case leaf0 n of Some (NODE TR_UNIT x idx pos l0 l1) \<Rightarrow> unit_Convert E s idx | _ \<Rightarrow> DoubleValueFromString E s))"

function expr_of :: "'d DOUBLES \<Rightarrow> ('d, 'i) EDITOR \<Rightarrow> TREE_NODE \<Rightarrow> ('d, 'i) EXPR" where
  "expr_of D E (NODE op1 s i pos l0 l1) =
    (if op1 = TR_OP_FUNC_CALL then E_none
     else if op1 = TR_NUMBER then E_value (VALUE_num D (number_value D E (NODE op1 s i pos l0 l1)))
     else if op1 = TR_STRING then
       (let str = formatNode (NODE op1 s i pos l0 l1) in E_value (VALUE_str D str (CHR ''?'' \<in> set str \<or> CHR ''*'' \<in> set str)))
     else if op1 = TR_IDENTIFIER then E_var (CreateVarRef E (formatNode (NODE op1 s i pos l0 l1)) [])
     else if op1 = TR_STRUCT_REF then
       (case (l0, l1) of
          (Some obj, Some fld) \<Rightarrow>
            (if nd_op obj = TR_IDENTIFIER \<and> nd_op fld = TR_OP_FUNC_CALL then
               (case (leaf0 fld, leaf1 fld) of
                  (Some fname, Some args) \<Rightarrow>
                    E_call (CreateFuncCall E (formatNode fname)) (CreateVarRef E (formatNode obj) []) (map (expr_of D E) (rev (args_rev args)))
                | _ \<Rightarrow> E_none)
             else field_expr D E obj fld)
        | _ \<Rightarrow> E_none)
     else E_op op1 (map (expr_of D E) (opt_list l0 @ opt_list l1)))"
  by pat_completeness auto
termination
proof (relation "measure (\<lambda>(D, E, t). size t)", simp_all, goal_cases)
  case 1
  then show ?case by (auto dest!: sym [of "Some _"] leaf1_size args_size)
next
  case (2 op1 l0 l1 n)
  then show ?case by (cases l0; cases l1) auto
qed

fun flatten :: "('d, 'i) EXPR \<Rightarrow> ('d, 'i) UOP list" where
  "flatten (E_value v) = [UOP_value v]"
| "flatten (E_var r) = [UOP_ref TR_UOP_PUSH_VAR r]"
| "flatten (E_op op1 es) = concat (map flatten es) @ [UOP_ref op1 None]"
| "flatten (E_call f r es) = concat (rev (map flatten es)) @ [UOP_call f r]"
| "flatten E_none = []"

lemma number_value [simp]: "fst (gen_number D E n G) = number_value D E n"
  by (simp add: gen_number_def number_value_def split: option.split TREE_NODE.split OP.split)

lemma leaf_code_flatten:
  "op1 \<in> {TR_OP_FUNC_CALL, TR_NUMBER, TR_STRING, TR_IDENTIFIER} \<Longrightarrow>
    g_code (leaf_code D E (NODE op1 s i pos l0 l1) G) = g_code G @ flatten (expr_of D E (NODE op1 s i pos l0 l1))"
  by (auto simp: leaf_code_def split_beta Let_def)

lemma field_code_flatten: "\<not> (nd_op obj = TR_IDENTIFIER \<and> nd_op fld = TR_OP_FUNC_CALL) \<Longrightarrow>
    g_code (field_code D E obj fld G) = g_code G @ flatten (field_expr D E obj fld)"
  by (auto simp: field_code_def field_expr_def Let_def split: option.split)

lemma call_reports_code: "call_reports D E obj fname args G = Some G1 \<Longrightarrow> g_code G1 = g_code G"
  by (auto simp: call_reports_def Let_def split: option.splits)

lemma compile_flatten:
  "compile D E n G = Some G' \<Longrightarrow> g_code G' = g_code G @ flatten (expr_of D E n)"
  "compile_all D E ns G = Some G' \<Longrightarrow> g_code G' = g_code G @ concat (map (\<lambda>n. flatten (expr_of D E n)) ns)"
proof (induction D E n G and D E ns G arbitrary: G' and G' rule: compile_compile_all.induct)
  case (1 D E op1 s i pos l0 l1 G)
  note IH = 1
  show ?case
  proof (cases "op1 \<in> {TR_OP_FUNC_CALL, TR_NUMBER, TR_STRING, TR_IDENTIFIER}")
    case True
    then show ?thesis using IH(4) leaf_code_flatten [OF True, of D E s i pos l0 l1 G] by auto
  next
    case other: False
    show ?thesis
    proof (cases "op1 = TR_STRUCT_REF")
      case True
      obtain obj fld where l: "l0 = Some obj" "l1 = Some fld" using IH(4) True by (auto split: option.splits)
      show ?thesis
      proof (cases "nd_op obj = TR_IDENTIFIER \<and> nd_op fld = TR_OP_FUNC_CALL")
        case False
        then show ?thesis using IH(4) True l field_code_flatten [OF False, of D E G] by auto
      next
        case ops: True
        then obtain fname args where a: "leaf0 fld = Some fname" "leaf1 fld = Some args" using IH(4) True l by (auto split: option.splits)
        obtain G1 where G1: "call_reports D E obj fname args G = Some G1" using IH(4) True l ops a by (auto split: option.splits)
        obtain G2 where G2: "compile_all D E (args_rev args) G1 = Some G2" using IH(4) True l ops a G1 by (auto split: option.splits)
        have G': "G' = emit (UOP_call (CreateFuncCall E (formatNode fname)) (CreateVarRef E (formatNode obj) [])) G2"
          using IH(4) True l ops a G1 G2 by simp
        have "g_code G2 = g_code G @ concat (map (\<lambda>n. flatten (expr_of D E n)) (args_rev args))"
          using IH(1) [OF other True refl l ops refl a G1 G2] call_reports_code [OF G1] l a by simp
        then show ?thesis using True l ops a by (simp add: G' rev_map comp_def)
      qed
    next
      case False
      obtain G1 where G1: "compile_all D E (opt_list l0) G = Some G1" using IH(4) other False by (auto simp: opt_list_def split: option.splits)
      obtain G2 where G2: "compile_all D E (opt_list l1) G1 = Some G2" using IH(4) other False G1 by (auto simp: opt_list_def split: option.splits)
      have "G' = emit (UOP_ref op1 None) G2" using IH(4) other False G1 G2 by (auto simp: opt_list_def)
      then show ?thesis using IH(2) [OF other False, folded opt_list_def, OF G1] IH(3) [OF other False, folded opt_list_def, OF G1 G2] other False
        by (simp add: comp_def)
    qed
  qed
next
  case (3 D E t ts G)
  obtain G1 where G1: "compile D E t G = Some G1" using "3.prems" by (cases "compile D E t G") simp_all
  then show ?case using "3.IH"(1) [OF G1] "3.IH"(2) [OF G1] "3.prems" by simp
qed simp

subsection \<open>The value of an expression\<close>

text \<open>What a function gives and reports, for its reference, its arguments and the items.\<close>

type_synonym ('d, 'i) MEANING =
  "('d, 'i) FUNC \<Rightarrow> ('d, 'i) VAR_REF option \<Rightarrow> 'd VALUE option list \<Rightarrow> 'i \<Rightarrow> 'd VALUE option \<times> string list"

fun eval :: "'d DOUBLES \<Rightarrow> ('d, 'i) MEANING \<Rightarrow> ('d, 'i) EXPR \<Rightarrow> 'i \<Rightarrow> 'd VALUE option" where
  "eval D M (E_value v) i = Some v"
| "eval D M (E_var r) i = (case r of Some r \<Rightarrow> vr_value r i | None \<Rightarrow> Some (VALUE_undefined D))"
| "eval D M (E_op op1 es) i =
    (let vs = map (\<lambda>e. eval D M e i) es in
     Some (VALUE_num D (if is_binary op1 then binary_result D op1 (vs ! 0) (vs ! 1) else unary_result D op1 (vs ! 0))))"
| "eval D M (E_call f r es) i = (case f of Some f \<Rightarrow> fst (M f r (map (\<lambda>e. eval D M e i) es) i) | None \<Rightarrow> None)"
| "eval D M E_none i = None"

text \<open>What is reported on the way, in the order of the code.\<close>

fun warnings :: "'d DOUBLES \<Rightarrow> ('d, 'i) MEANING \<Rightarrow> ('d, 'i) EXPR \<Rightarrow> 'i \<Rightarrow> string list" where
  "warnings D M (E_op op1 es) i =
    concat (map (\<lambda>e. warnings D M e i) es) @
    (if is_binary op1 then type_mismatch D (eval D M (es ! 0) i) (eval D M (es ! 1) i) else [])"
| "warnings D M (E_call f r es) i =
    concat (rev (map (\<lambda>e. warnings D M e i) es)) @ (case f of Some f \<Rightarrow> snd (M f r (map (\<lambda>e. eval D M e i) es) i) | None \<Rightarrow> [])"
| "warnings D M e i = []"

text \<open>The arguments wait on the stack, the last one from the beginning.\<close>

fun depth_args :: "nat list \<Rightarrow> nat" where
  "depth_args [] = 0"
| "depth_args (n # ns) = max (depth_args ns) (length ns + n)"

fun depth :: "('d, 'i) EXPR \<Rightarrow> nat" where
  "depth (E_op op1 es) = depth_args (rev (map depth es))"
| "depth (E_call f r es) = max 1 (depth_args (map depth es))"
| "depth e = 1"

text \<open>A function takes its arguments off the stack, the first one from the top, and leaves its value.\<close>

definition func_law :: "('d, 'i) MEANING \<Rightarrow> ('d, 'i) FUNC \<Rightarrow> ('d, 'i) VAR_REF option \<Rightarrow> nat \<Rightarrow> bool" where
  "func_law M f r n \<longleftrightarrow>
    (\<forall>ctx vs st. m_stack ctx = vs @ st \<longrightarrow> length vs = n \<longrightarrow> length st < 100 \<longrightarrow>
      f ctx r = Done (ctx\<lparr>m_stack := fst (M f r vs (m_items ctx)) # st,
        messages := messages ctx @ (if has_callback ctx then snd (M f r vs (m_items ctx)) else [])\<rparr>))"

text \<open>Operators have their operands, functions are there and keep the law.\<close>

fun good :: "('d, 'i) MEANING \<Rightarrow> ('d, 'i) EXPR \<Rightarrow> bool" where
  "good M (E_op op1 es) \<longleftrightarrow>
    (if is_binary op1 then length es = 2 else is_unary op1 \<and> length es = 1) \<and> (\<forall>e\<in>set es. good M e)"
| "good M (E_call f r es) \<longleftrightarrow> (case f of Some f \<Rightarrow> func_law M f r (length es) | None \<Rightarrow> False) \<and> (\<forall>e\<in>set es. good M e)"
| "good M E_none \<longleftrightarrow> False"
| "good M e \<longleftrightarrow> True"

definition with_result :: "'d VALUE option list \<Rightarrow> string list \<Rightarrow> ('d, 'i) CONTEXT \<Rightarrow> ('d, 'i) CONTEXT" where
  "with_result vs ms ctx = ctx\<lparr>m_stack := vs @ m_stack ctx, messages := messages ctx @ (if has_callback ctx then ms else [])\<rparr>"

lemma with_result_simps [simp]:
  "m_stack (with_result vs ms ctx) = vs @ m_stack ctx" "m_items (with_result vs ms ctx) = m_items ctx"
  "has_callback (with_result vs ms ctx) = has_callback ctx" "with_result [] [] ctx = ctx"
  "with_result vs ms (with_result vs' ms' ctx) = with_result (vs @ vs') (ms' @ ms) ctx"
  by (simp_all add: with_result_def)

lemma exec_all_append: "exec_all D (a @ b) ctx = (case exec_all D a ctx of Done ctx' \<Rightarrow> exec_all D b ctx' | r \<Rightarrow> r)"
  by (induction D a ctx rule: exec_all.induct) (auto split: OUTCOME.split)

lemma fold_ReportError: "has_callback ctx \<Longrightarrow> fold ReportError ms ctx = ctx\<lparr>messages := messages ctx @ ms\<rparr>"
proof (induction ms arbitrary: ctx)
  case (Cons m ms)
  then show ?case by (simp add: ReportError_def)
qed simp

lemma ops_not_special:
  "is_binary op1 \<or> is_unary op1 \<Longrightarrow> op1 \<noteq> TR_UOP_PUSH_VAR \<and> op1 \<noteq> TR_UOP_PUSH_VALUE \<and> op1 \<noteq> TR_OP_METHOD_CALL"
  by (cases op1) (simp_all add: is_binary_def is_unary_def)

lemma Exec_binary:
  assumes "is_binary op1" "m_stack ctx = v2 # v1 # st" "length st < 100"
  shows "Exec D (UOP_ref op1 None) ctx =
    Done (ctx\<lparr>m_stack := Some (VALUE_num D (binary_result D op1 v1 v2)) # st,
      messages := messages ctx @ (if has_callback ctx then type_mismatch D v1 v2 else [])\<rparr>)"
  using assms ops_not_special [of op1] by (simp add: Exec_def UOP_ref_def Pop_def Push_def fold_ReportError)

lemma Exec_unary:
  assumes "is_unary op1" "\<not> is_binary op1" "m_stack ctx = v1 # st" "length st < 100"
  shows "Exec D (UOP_ref op1 None) ctx = Done (ctx\<lparr>m_stack := Some (VALUE_num D (unary_result D op1 v1)) # st\<rparr>)"
  using assms ops_not_special [of op1] by (simp add: Exec_def UOP_ref_def Pop_def Push_def)

lemma Exec_push:
  "length (m_stack ctx) < 100 \<Longrightarrow> Exec D (UOP_value v) ctx = Done (with_result [Some v] [] ctx)"
  "length (m_stack ctx) < 100 \<Longrightarrow> Exec D (UOP_ref TR_UOP_PUSH_VAR r) ctx = Done (with_result [eval D M (E_var r) (m_items ctx)] [] ctx)"
  by (auto simp: Exec_def UOP_value_def UOP_ref_def Push_def with_result_def split: option.split)

lemma exec_args:
  assumes "\<And>e ctx. e \<in> set es \<Longrightarrow> m_items ctx = i \<Longrightarrow> length (m_stack ctx) + depth e \<le> 100 \<Longrightarrow>
      exec_all D (flatten e) ctx = Done (with_result [eval D M e i] (warnings D M e i) ctx)"
    and "m_items ctx = i" "length (m_stack ctx) + depth_args (map depth es) \<le> 100"
  shows "exec_all D (concat (rev (map flatten es))) ctx =
    Done (with_result (map (\<lambda>e. eval D M e i) es) (concat (rev (map (\<lambda>e. warnings D M e i) es))) ctx)"
  using assms
proof (induction es)
  case (Cons e es)
  have "exec_all D (concat (rev (map flatten es))) ctx =
      Done (with_result (map (\<lambda>e. eval D M e i) es) (concat (rev (map (\<lambda>e. warnings D M e i) es))) ctx)"
    using Cons by simp
  moreover have "exec_all D (flatten e) (with_result (map (\<lambda>e. eval D M e i) es) (concat (rev (map (\<lambda>e. warnings D M e i) es))) ctx) =
      Done (with_result [eval D M e i] (warnings D M e i) (with_result (map (\<lambda>e. eval D M e i) es) (concat (rev (map (\<lambda>e. warnings D M e i) es))) ctx))"
    using Cons.prems by (intro Cons.prems(1)) auto
  ultimately show ?case by (simp add: exec_all_append)
qed simp

text \<open>The operands of an operator are evaluated in the other order; the lemma is the one above for the reversed list.\<close>

lemma exec_operands:
  assumes "\<And>e ctx. e \<in> set es \<Longrightarrow> m_items ctx = i \<Longrightarrow> length (m_stack ctx) + depth e \<le> 100 \<Longrightarrow>
      exec_all D (flatten e) ctx = Done (with_result [eval D M e i] (warnings D M e i) ctx)"
    and "m_items ctx = i" "length (m_stack ctx) + depth_args (rev (map depth es)) \<le> 100"
  shows "exec_all D (concat (map flatten es)) ctx =
    Done (with_result (rev (map (\<lambda>e. eval D M e i) es)) (concat (map (\<lambda>e. warnings D M e i) es)) ctx)"
  using exec_args [of "rev es" i D M ctx] assms by (simp add: rev_map)

lemma depth_args_member: "n \<in> set ns \<Longrightarrow> n \<le> depth_args ns"
  by (induction ns) auto

lemma depth_positive: "good M e \<Longrightarrow> 0 < depth e"
proof (induction e)
  case (E_op op1 es)
  have "es \<noteq> []" using E_op.prems by (auto split: if_splits)
  then have "hd es \<in> set es" by simp
  moreover have "depth (hd es) \<le> depth_args (rev (map depth es))" using calculation by (intro depth_args_member) simp
  ultimately show ?case using E_op by force
qed auto

lemma two_elems: "length es = 2 \<Longrightarrow> \<exists>a b. es = [a, b]"
  by (metis (no_types) One_nat_def Suc_1 length_0_conv length_Suc_conv)

lemma exec_flatten:
  "good M e \<Longrightarrow> m_items ctx = i \<Longrightarrow> length (m_stack ctx) + depth e \<le> 100 \<Longrightarrow>
    exec_all D (flatten e) ctx = Done (with_result [eval D M e i] (warnings D M e i) ctx)"
proof (induction e arbitrary: ctx)
  case (E_value v)
  then show ?case by (simp add: Exec_push)
next
  case (E_var r)
  then show ?case by (simp add: Exec_push(2) [where M = M] del: eval.simps)
next
  case (E_op op1 es)
  have args: "exec_all D (concat (map flatten es)) ctx =
      Done (with_result (rev (map (\<lambda>e. eval D M e i) es)) (concat (map (\<lambda>e. warnings D M e i) es)) ctx)"
    using E_op by (intro exec_operands) auto
  then have step: "exec_all D (flatten (E_op op1 es)) ctx =
      exec_all D [UOP_ref op1 None] (with_result (rev (map (\<lambda>e. eval D M e i) es)) (concat (map (\<lambda>e. warnings D M e i) es)) ctx)"
    by (simp add: exec_all_append)
  have room: "length (m_stack ctx) < 100" using E_op.prems depth_positive [OF E_op.prems(1)] by simp
  show ?case unfolding step
  proof (cases "is_binary op1")
    case True
    then obtain a b where es: "es = [a, b]" using E_op.prems(1) two_elems [of es] by auto
    show "exec_all D [UOP_ref op1 None] (with_result (rev (map (\<lambda>e. eval D M e i) es)) (concat (map (\<lambda>e. warnings D M e i) es)) ctx) =
        Done (with_result [eval D M (E_op op1 es) i] (warnings D M (E_op op1 es) i) ctx)"
      using True room by (simp add: es with_result_def Exec_binary [OF True])
  next
    case False
    then obtain a where es: "es = [a]" and u: "is_unary op1" using E_op.prems(1) by (auto simp: length_Suc_conv)
    show "exec_all D [UOP_ref op1 None] (with_result (rev (map (\<lambda>e. eval D M e i) es)) (concat (map (\<lambda>e. warnings D M e i) es)) ctx) =
        Done (with_result [eval D M (E_op op1 es) i] (warnings D M (E_op op1 es) i) ctx)"
      using False room by (simp add: es with_result_def Exec_unary [OF u False])
  qed
next
  case (E_call f r es)
  obtain g where g: "f = Some g" "func_law M g r (length es)" using E_call.prems(1) by (auto split: option.splits)
  have args: "exec_all D (concat (rev (map flatten es))) ctx =
      Done (with_result (map (\<lambda>e. eval D M e i) es) (concat (rev (map (\<lambda>e. warnings D M e i) es))) ctx)"
    using E_call by (intro exec_args) auto
  have room: "length (m_stack ctx) < 100" using E_call.prems by simp
  have "g (with_result (map (\<lambda>e. eval D M e i) es) ms ctx) r =
      Done (with_result [fst (M g r (map (\<lambda>e. eval D M e i) es) i)] (ms @ snd (M g r (map (\<lambda>e. eval D M e i) es) i)) ctx)" for ms
    using g(2) [unfolded func_law_def, rule_format, of "with_result (map (\<lambda>e. eval D M e i) es) ms ctx" "map (\<lambda>e. eval D M e i) es" "m_stack ctx"] room E_call.prems(2)
    by (simp add: with_result_def)
  then show ?case using args by (simp add: exec_all_append g(1) UOP_call_def Exec_def)
qed simp

subsection \<open>A run that has not enough room\<close>

fun call_free :: "('d, 'i) EXPR \<Rightarrow> bool" where
  "call_free (E_op op1 es) \<longleftrightarrow> (\<forall>e\<in>set es. call_free e)"
| "call_free (E_call f r es) \<longleftrightarrow> False"
| "call_free e \<longleftrightarrow> True"

lemma exec_overrun:
  "good M e \<Longrightarrow> call_free e \<Longrightarrow> length (m_stack ctx) \<le> 100 \<Longrightarrow> 100 < length (m_stack ctx) + depth e \<Longrightarrow>
    exec_all D (flatten e) ctx = Overrun"
proof (induction e arbitrary: ctx)
  case (E_op op1 es)
  show ?case
  proof (cases "is_binary op1")
    case True
    then obtain a b where es: "es = [a, b]" using E_op.prems(1) two_elems [of es] by auto
    have parts: "good M a" "good M b" "call_free a" "call_free b" using E_op.prems True by (auto simp: es)
    show ?thesis
    proof (cases "100 < length (m_stack ctx) + depth a")
      case True
      then show ?thesis using E_op.IH [of a ctx] E_op.prems(3) parts by (simp add: es exec_all_append)
    next
      case False
      define ctx1 where "ctx1 = with_result [eval D M a (m_items ctx)] (warnings D M a (m_items ctx)) ctx"
      have "exec_all D (flatten a) ctx = Done ctx1" using exec_flatten [OF parts(1) refl, of ctx] False by (simp add: ctx1_def)
      moreover have "exec_all D (flatten b) ctx1 = Overrun"
        using E_op.IH [of b ctx1] E_op.prems(4) False parts depth_positive [OF parts(1)] by (simp add: es ctx1_def)
      ultimately show ?thesis by (simp add: es exec_all_append)
    qed
  next
    case False
    then obtain a where es: "es = [a]" using E_op.prems(1) by (auto simp: length_Suc_conv)
    show ?thesis using E_op.IH [of a ctx] E_op.prems False by (simp add: es exec_all_append)
  qed
qed (auto simp: Exec_def UOP_value_def UOP_ref_def Push_def)

subsection \<open>What is reported\<close>

abbreviation errors :: "('d, 'i) GEN \<Rightarrow> (COMPILATION_STAGE \<times> string \<times> int) list" where
  "errors G \<equiv> m_errorStatus (g_comp G)"





text \<open>Reports are only added; \<open>quiet\<close> says what holds when there were none.\<close>

definition reports :: "('d, 'i) GEN \<Rightarrow> ('d, 'i) GEN \<Rightarrow> bool \<Rightarrow> bool" where
  "reports G G' quiet \<longleftrightarrow> (\<exists>es. errors G' = errors G @ es \<and> (es = [] \<longrightarrow> quiet))"





lemma errors_emit [simp]: "g_comp (emit u G) = g_comp G"
  by (simp add: emit_def)

lemma reports_emit [simp]: "reports G (emit u G') quiet \<longleftrightarrow> reports G G' quiet"
  by (simp add: reports_def)








subsection \<open>The properties\<close>

text \<open>
  C8: What the generated code computes: when the operators have their operands, the functions keep the law of
  arguments and results and the stack is deep enough, running the code that was generated for a tree gives the value
  of the expression the tree stands for, with the reports of its operands in order, and leaves the stack empty.
\<close>

theorem generated_code_value:
  assumes "m_tree c = Some t" "generateUCode D E [] pre c = Some (code, pre', c')"
    and "good M (expr_of D E t)" "depth (expr_of D E t) \<le> 100" "m_stack ctx = []"
  shows "UCODE_Run D code ctx =
    Done (eval D M (expr_of D E t) (m_items ctx), with_result [] (warnings D M (expr_of D E t) (m_items ctx)) ctx)"
proof -
  obtain G where G: "compile D E t (gen_start [] pre c) = Some G" "g_code G = code"
    using assms(2) unfolding generateUCode_compile [OF assms(1)] by auto
  then have code: "code = flatten (expr_of D E t)" using compile_flatten(1) [OF G(1)] by (simp add: gen_start_def)
  have "exec_all D code ctx = Done (with_result [eval D M (expr_of D E t) (m_items ctx)] (warnings D M (expr_of D E t) (m_items ctx)) ctx)"
    unfolding code using assms(3-5) by (intro exec_flatten) simp_all
  then show ?thesis using assms(5) by (simp add: UCODE_Run_def CONTEXT_SP_def Pop_def with_result_def)
qed

definition ints :: "int DOUBLES" where
  "ints = \<lparr>d_zero = 0, d_one = 1, d_add = (+), d_sub = (-), d_mul = (*), d_div = (div), d_le = (\<le>), d_less = (<), d_eq = (=), d_show = (\<lambda>i. ''n'')\<rparr>"

text \<open>An editor with one number per item and a function of one argument, and the rule \<open>2 * A.w + A.f(3)\<close>.\<close>

definition inc :: "(int, int) FUNC" where
  "inc ctx r = (case m_stack ctx of v # st \<Rightarrow> Done (ctx\<lparr>m_stack := Some (VALUE_num ints (arg_double ints v + 1)) # st\<rparr>) | [] \<Rightarrow> Thrown ctx)"

definition editor :: "(int, int) EDITOR" where
  "editor = \<lparr>CreateVarRef = (\<lambda>v f. Some \<lparr>vr_type = VT_NUMERIC, vr_value = (\<lambda>i. Some (VALUE_num ints i))\<rparr>),
     CreateFuncCall = (\<lambda>f. if f = ''f'' then Some inc else None), supported_units = [], units_message = [], unit_Convert = (\<lambda>s i. 0),
     DoubleValueFromString = (\<lambda>s. int (length s))\<rparr>"

definition rule_tree :: TREE_NODE where
  "rule_tree = nt_pair 9 TR_OP_ADD (nt_pair 5 TR_OP_MUL (nt_value 1 ''12'') (nt_pair 4 TR_STRUCT_REF (nt_identifier 3 ''A'') (nt_identifier 4 ''w'')))
     (nt_pair 8 TR_STRUCT_REF (nt_identifier 6 ''A'') (nt_call 8 ''f'' (nt_value 7 ''123'')))"

definition start :: "int \<Rightarrow> (int, int) CONTEXT" where
  "start i = \<lparr>m_stack = [], has_callback = False, messages = [], m_items = i\<rparr>"

definition inc_meaning :: "(int, int) MEANING" where
  "inc_meaning f r vs i = (Some (VALUE_num ints (arg_double ints (vs ! 0) + 1)), [])"

lemma inc_law: "func_law inc_meaning inc r 1"
  by (auto simp: func_law_def inc_def inc_meaning_def length_Suc_conv)

lemma rule_expr:
  "expr_of ints editor rule_tree = E_op TR_OP_ADD
     [E_op TR_OP_MUL [E_value (VALUE_num ints 2), E_var (CreateVarRef editor ''A'' ''w'')], E_call (Some inc) (CreateVarRef editor ''A'' []) [E_value (VALUE_num ints 3)]]"
  by (simp add: rule_tree_def nt_pair_def nt_value_def nt_identifier_def nt_call_def newNode_def opt_list_def field_expr_def formatNode_def
      number_value_def editor_def args_rev_def)

lemma rule_generates: "\<exists>code pre' c'. generateUCode ints editor [] (start 0) (COMPILER_new\<lparr>m_tree := Some rule_tree\<rparr>) = Some (code, pre', c')"
  unfolding generateUCode_compile [of "COMPILER_new\<lparr>m_tree := Some rule_tree\<rparr>" rule_tree, simplified]
  by (simp add: rule_tree_def nt_pair_def nt_value_def nt_identifier_def nt_call_def newNode_def gen_start_def COMPILER_new_def start_def
      call_reports_def editor_def preflight_def Push_def Pop_def inc_def args_rev_def formatNode_def item_error_def Let_def leaf_code_def gen_number_def
      field_code_def emit_def)

theorem generated_code_value_witness:
  "\<exists>code pre' c'. generateUCode ints editor [] (start 0) (COMPILER_new\<lparr>m_tree := Some rule_tree\<rparr>) = Some (code, pre', c') \<and>
     UCODE_Run ints code (start 5) = Done (Some (VALUE_num ints 14), start 5)"
proof -
  let ?c = "COMPILER_new\<lparr>m_tree := Some rule_tree\<rparr>"
  obtain code pre' c' where g: "generateUCode ints editor [] (start 0) ?c = Some (code, pre', c')" using rule_generates by blast
  have good: "good inc_meaning (expr_of ints editor rule_tree)" unfolding rule_expr using inc_law by (simp add: is_binary_def is_unary_def)
  have depth: "depth (expr_of ints editor rule_tree) \<le> 100" unfolding rule_expr by simp
  have "UCODE_Run ints code (start 5) = Done (eval ints inc_meaning (expr_of ints editor rule_tree) (m_items (start 5)),
      with_result [] (warnings ints inc_meaning (expr_of ints editor rule_tree) (m_items (start 5))) (start 5))"
    by (rule generated_code_value [OF _ g good depth]) (simp_all add: start_def)
  moreover have "eval ints inc_meaning (expr_of ints editor rule_tree) (m_items (start 5)) = Some (VALUE_num ints 14)"
    unfolding rule_expr by (simp add: inc_meaning_def start_def editor_def is_binary_def binary_result_def arg_double_def AsDouble_def VALUE_num_def
        VALUE_undefined_def ints_def)
  moreover have "with_result [] ms (start 5) = start 5" for ms by (simp add: with_result_def start_def)
  ultimately show ?thesis using g by auto
qed

text \<open>
  C33: The bound of the stack: for an expression without calls the run writes behind the array of a hundred values
  exactly when the expression needs more than a hundred at a time; nothing in the compiler limits the depth.
\<close>

theorem UCODE_Run_overruns:
  assumes "good M e" "call_free e" "m_stack ctx = []"
  shows "UCODE_Run D (flatten e) ctx = Overrun \<longleftrightarrow> 100 < depth e"
proof (cases "100 < depth e")
  case True
  then show ?thesis using exec_overrun [OF assms(1,2), of ctx D] assms(3) by (simp add: UCODE_Run_def)
next
  case False
  then show ?thesis using exec_flatten [OF assms(1) refl, of ctx D] assms(3) by (simp add: UCODE_Run_def CONTEXT_SP_def Pop_def)
qed

fun nested :: "nat \<Rightarrow> (int, int) EXPR" where
  "nested 0 = E_value (VALUE_num ints 1)"
| "nested (Suc n) = E_op TR_OP_ADD [E_value (VALUE_num ints 1), nested n]"

lemma nested_facts: "good M (nested n) \<and> call_free (nested n) \<and> depth (nested n) = n + 1"
  by (induction n) (auto simp: is_binary_def)

theorem UCODE_Run_overruns_witness:
  "UCODE_Run ints (flatten (nested 100)) (start 0) = Overrun"
  using UCODE_Run_overruns [of inc_meaning "nested 100" "start 0" ints] nested_facts [of inc_meaning 100] by (simp add: start_def)





subsection \<open>Where the compiler does something else than it means to\<close>

text \<open>
  A function finds its first argument on the top of the stack when the rule runs, and its last one in the trial call
  while the rule is compiled.
\<close>

lemma trial_call_order:
  "length vs + length (m_stack ctx) \<le> 100 \<Longrightarrow> push_all vs ctx = Done (ctx\<lparr>m_stack := rev (map Some vs) @ m_stack ctx\<rparr>)"
  by (induction vs arbitrary: ctx) (simp_all add: Push_def)

lemma run_order:
  assumes "good M (E_call f r es)" "length (m_stack ctx) + depth (E_call f r es) \<le> 100"
  shows "exec_all D (concat (rev (map flatten es))) ctx =
    Done (with_result (map (\<lambda>e. eval D M e (m_items ctx)) es) (concat (rev (map (\<lambda>e. warnings D M e (m_items ctx)) es))) ctx)"
  using assms by (intro exec_args exec_flatten) auto

text \<open>A comma outside of a call is compiled without a report; two values are left, and the rule is false.\<close>

lemma comma_expression:
  "generateUCode ints editor [] (start 0) (COMPILER_new\<lparr>m_tree := Some (nt_pair 2 TR_ARG_LIST (nt_value 0 ''1'') (nt_value 2 ''1''))\<rparr>) =
    Some ([UOP_value (VALUE_num ints 1), UOP_value (VALUE_num ints 1), UOP_ref TR_ARG_LIST None], start 0,
      COMPILER_new\<lparr>m_tree := Some (nt_pair 2 TR_ARG_LIST (nt_value 0 ''1'') (nt_value 2 ''1''))\<rparr>)"
  unfolding generateUCode_compile [of "COMPILER_new\<lparr>m_tree := Some (nt_pair 2 TR_ARG_LIST (nt_value 0 ''1'') (nt_value 2 ''1''))\<rparr>"
      "nt_pair 2 TR_ARG_LIST (nt_value 0 ''1'') (nt_value 2 ''1'')", simplified]
  by (simp add: nt_pair_def nt_value_def newNode_def gen_start_def leaf_code_def gen_number_def editor_def emit_def)

lemma comma_runs_false:
  "UCODE_Run ints [UOP_value (VALUE_num ints 1), UOP_value (VALUE_num ints 1), UOP_ref TR_ARG_LIST None] (start 0) =
    Done (Some (VALUE_num ints 0), start 0\<lparr>m_stack := [Some (VALUE_num ints 1), Some (VALUE_num ints 1)]\<rparr>)"
  by (simp add: UCODE_Run_def Exec_def UOP_value_def UOP_ref_def Push_def start_def is_binary_def is_unary_def CONTEXT_SP_def ints_def)

end
