(* ===== verification/Conn_Items.thy ===== *)
theory Conn_Items
  imports Layers Router_World
begin

text \<open>
  The data of the connectivity of a board, \<open>pcbnew/connectivity\<close>: anchors, items and clusters
  (\<open>connectivity_items.h\<close>, \<open>connectivity_items.cpp\<close>) and the index over items (\<open>connectivity_rtree.h\<close>).

  Pointers are numbers: board items number \<open>s_brd\<close>, items of the connectivity \<open>s_itm\<close>, anchors
  \<open>s_anc\<close>. New items get the next free number; the order of the numbers is the order of the addresses
  the code compares, and no theorem on searches assumes anything of it. A board item is the record of the
  answers its accessors give; the geometry of its shape is a record of functions, \<open>GEOMETRY\<close>. A progress
  reporter is absent.
\<close>

subsection \<open>Board items as the connectivity sees them\<close>

datatype KICAD_T =
    PCB_FOOTPRINT_T | PCB_PAD_T | PCB_SHAPE_T | PCB_BITMAP_T | PCB_FIELD_T | PCB_GENERATOR_T | PCB_TEXT_T
  | PCB_TEXTBOX_T | PCB_TRACE_T | PCB_VIA_T | PCB_ARC_T | PCB_MARKER_T | PCB_DIMENSION_T | PCB_DIM_ALIGNED_T
  | PCB_DIM_LEADER_T | PCB_DIM_CENTER_T | PCB_DIM_RADIAL_T | PCB_DIM_ORTHOGONAL_T | PCB_TARGET_T | PCB_ZONE_T
  | PCB_ITEM_LIST_T | PCB_NETINFO_T | PCB_GROUP_T

datatype PAD_ATTRIB = PTH | SMD | CONN | NPTH

datatype FLASHING = DEFAULT_FLASHING | ALWAYS_FLASHED | NEVER_FLASHED

record BOARD_ITEM =
  b_type :: KICAD_T
  b_isConnected :: bool
  b_net :: int
  b_onCopper :: bool
  b_layers :: lset
  b_layer :: int
  b_topLayer :: int
  b_bottomLayer :: int
  b_start :: VECTOR2I
  b_end :: VECTOR2I
  b_position :: VECTOR2I
  b_shapePos :: VECTOR2I
  b_points :: "VECTOR2I list"
  b_attribute :: PAD_ATTRIB
  b_free :: bool
  b_filled :: bool
  b_width :: int
  b_pads :: "nat list"
  b_footprint :: "nat option"
  b_justAdded :: bool
  b_deleted :: bool
  b_outlines :: "int \<Rightarrow> VECTOR2I list list"
  b_bbox :: BOX2

text \<open>
  What the code asks of shapes: whether a point hits an item (with a margin), whether it hits the fill of a
  zone on a layer, whether a pad or via is flashed conditionally on a layer, whether it must not be
  connected to zones there, whether the shapes of two items collide on a layer, and whether a point or a
  shape touches an outline of a zone.
\<close>

record GEOMETRY =
  g_HitTest :: "nat \<Rightarrow> VECTOR2I \<Rightarrow> int \<Rightarrow> bool"
  g_HitTestFilledArea :: "nat \<Rightarrow> int \<Rightarrow> VECTOR2I \<Rightarrow> int \<Rightarrow> bool"
  g_ConditionallyFlashed :: "nat \<Rightarrow> int \<Rightarrow> bool"
  g_noZoneConnection :: "nat \<Rightarrow> int \<Rightarrow> bool"
  g_Collide :: "int \<Rightarrow> nat \<times> FLASHING \<Rightarrow> nat \<times> FLASHING \<Rightarrow> bool"
  g_ContainsPoint :: "nat \<Rightarrow> int \<Rightarrow> nat \<Rightarrow> VECTOR2I \<Rightarrow> bool"
  g_zoneCollide :: "nat \<Rightarrow> int \<Rightarrow> nat \<Rightarrow> nat \<times> FLASHING \<Rightarrow> bool"

subsection \<open>Anchors, items, clusters\<close>

record CN_ANCHOR =
  a_pos :: VECTOR2I
  a_item :: "nat option"
  a_tag :: int
  a_noline :: bool
  a_cluster :: "nat option"

text \<open>\<open>c_zone\<close> is the layer and the outline number of a \<open>CN_ZONE_LAYER\<close>, and \<open>None\<close> for other items.\<close>

record CN_ITEM =
  c_parent :: nat
  c_zone :: "(int \<times> nat) option"
  c_dirty :: bool
  c_layers :: LAYER_RANGE
  c_bbox :: BOX2
  c_connected :: "nat list"
  c_anchors :: "nat list"
  c_canChangeNet :: bool
  c_visited :: bool
  c_valid :: bool

record CN_CLUSTER =
  k_conflicting :: bool
  k_originNet :: int
  k_originPad :: "nat option"
  k_items :: "nat list"
  k_netRanks :: "int \<rightharpoonup> int"

text \<open>
  The state: the three heaps, the list of items with its index and flags (\<open>CN_LIST\<close>), and the map from
  board items, the dirty nets and the clusters kept (\<open>CN_CONNECTIVITY_ALGO\<close>). An entry of the index is an
  item with the layers and the box it was inserted with.
\<close>

type_synonym RT_ENTRY = "nat \<times> LAYER_RANGE \<times> BOX2"

record CN_STATE =
  s_brd :: "nat \<Rightarrow> BOARD_ITEM"
  s_itm :: "nat \<Rightarrow> CN_ITEM"
  s_anc :: "nat \<Rightarrow> CN_ANCHOR"
  s_newItem :: nat
  s_newAnchor :: nat
  s_items :: "nat list"
  s_dirty :: bool
  s_hasInvalid :: bool
  s_index :: "RT_ENTRY list"
  s_itemMap :: "nat \<rightharpoonup> nat list"
  s_dirtyNets :: "bool list"
  s_connClusters :: "CN_CLUSTER list"
  s_ratsnestClusters :: "CN_CLUSTER list"

definition upd_item :: "nat \<Rightarrow> (CN_ITEM \<Rightarrow> CN_ITEM) \<Rightarrow> CN_STATE \<Rightarrow> CN_STATE" where
  "upd_item p f s = s\<lparr>s_itm := (s_itm s)(p := f (s_itm s p))\<rparr>"

definition upd_anchor :: "nat \<Rightarrow> (CN_ANCHOR \<Rightarrow> CN_ANCHOR) \<Rightarrow> CN_STATE \<Rightarrow> CN_STATE" where
  "upd_anchor a f s = s\<lparr>s_anc := (s_anc s)(a := f (s_anc s a))\<rparr>"

abbreviation parent :: "CN_STATE \<Rightarrow> nat \<Rightarrow> BOARD_ITEM" where
  "parent s p \<equiv> s_brd s (c_parent (s_itm s p))"

subsection \<open>Items\<close>

definition CN_ITEM_new :: "nat \<Rightarrow> bool \<Rightarrow> CN_ITEM" where
  "CN_ITEM_new aParent aCanChangeNet =
    \<lparr>c_parent = aParent, c_zone = None, c_dirty = True, c_layers = LR_of 0 (int PCB_LAYER_ID_COUNT),
     c_bbox = BOX2_empty, c_connected = [], c_anchors = [], c_canChangeNet = aCanChangeNet,
     c_visited = False, c_valid = True\<rparr>"

definition CN_ZONE_LAYER_new :: "nat \<Rightarrow> int \<Rightarrow> nat \<Rightarrow> CN_ITEM" where
  "CN_ZONE_LAYER_new aParent aLayer aSubpolyIndex =
    (CN_ITEM_new aParent False)\<lparr>c_zone := Some (aLayer, aSubpolyIndex), c_layers := LR_of aLayer aLayer\<rparr>"

definition new_item :: "CN_ITEM \<Rightarrow> CN_STATE \<Rightarrow> nat \<times> CN_STATE" where
  "new_item c s =
    (s_newItem s, s\<lparr>s_itm := (s_itm s)(s_newItem s := c), s_newItem := Suc (s_newItem s)\<rparr>)"

definition AddAnchor :: "nat \<Rightarrow> VECTOR2I \<Rightarrow> CN_STATE \<Rightarrow> CN_STATE" where
  "AddAnchor p aPos s =
    upd_item p (\<lambda>c. c\<lparr>c_anchors := c_anchors c @ [s_newAnchor s]\<rparr>)
      (s\<lparr>s_anc := (s_anc s)(s_newAnchor s :=
            \<lparr>a_pos = aPos, a_item = Some p, a_tag = - 1, a_noline = False, a_cluster = None\<rparr>),
          s_newAnchor := Suc (s_newAnchor s)\<rparr>)"

definition SetLayers :: "nat \<Rightarrow> LAYER_RANGE \<Rightarrow> CN_STATE \<Rightarrow> CN_STATE" where
  "SetLayers p aLayers = upd_item p (\<lambda>c. c\<lparr>c_layers := aLayers\<rparr>)"

definition SetLayer :: "nat \<Rightarrow> int \<Rightarrow> CN_STATE \<Rightarrow> CN_STATE" where
  "SetLayer p aLayer = SetLayers p (LR_of aLayer aLayer)"

definition SetVisited :: "bool \<Rightarrow> nat \<Rightarrow> CN_STATE \<Rightarrow> CN_STATE" where
  "SetVisited v p = upd_item p (\<lambda>c. c\<lparr>c_visited := v\<rparr>)"

definition SetValid :: "bool \<Rightarrow> nat \<Rightarrow> CN_STATE \<Rightarrow> CN_STATE" where
  "SetValid v p = upd_item p (\<lambda>c. c\<lparr>c_valid := v\<rparr>)"

definition SetItemDirty :: "bool \<Rightarrow> nat \<Rightarrow> CN_STATE \<Rightarrow> CN_STATE" where
  "SetItemDirty v p = upd_item p (\<lambda>c. c\<lparr>c_dirty := v\<rparr>)"

definition Net :: "CN_STATE \<Rightarrow> nat \<Rightarrow> int" where
  "Net s p = (if \<not> c_valid (s_itm s p) then - 1 else b_net (parent s p))"

definition item_Layer :: "CN_STATE \<Rightarrow> nat \<Rightarrow> int" where
  "item_Layer s p = m_start (c_layers (s_itm s p))"

text \<open>\<open>BBox\<close> refreshes the box of an item that is dirty and valid.\<close>

definition item_BBox :: "nat \<Rightarrow> CN_STATE \<Rightarrow> BOX2 \<times> CN_STATE" where
  "item_BBox p s =
    (let c = s_itm s p; b = (if c_dirty c \<and> c_valid c then b_bbox (parent s p) else c_bbox c)
     in (b, upd_item p (\<lambda>c. c\<lparr>c_bbox := b\<rparr>) s))"

text \<open>\<open>Connect\<close> keeps the list of connected items sorted by address and without repetition.\<close>

definition lower_bound :: "nat list \<Rightarrow> nat \<Rightarrow> nat" where
  "lower_bound xs b = length (takeWhile (\<lambda>x. x < b) xs)"

definition connect_list :: "nat \<Rightarrow> nat list \<Rightarrow> nat list" where
  "connect_list b xs =
    (let i = lower_bound xs b in
     if i < length xs \<and> xs ! i = b then xs else vec_insert i [b] xs)"

definition Connect :: "nat \<Rightarrow> nat \<Rightarrow> CN_STATE \<Rightarrow> CN_STATE" where
  "Connect p b = upd_item p (\<lambda>c. c\<lparr>c_connected := connect_list b (c_connected c)\<rparr>)"

definition ClearConnections :: "nat \<Rightarrow> CN_STATE \<Rightarrow> CN_STATE" where
  "ClearConnections p = upd_item p (\<lambda>c. c\<lparr>c_connected := []\<rparr>)"

definition RemoveInvalidRefs :: "nat \<Rightarrow> CN_STATE \<Rightarrow> CN_STATE" where
  "RemoveInvalidRefs p s =
    upd_item p (\<lambda>c. c\<lparr>c_connected := filter (\<lambda>q. c_valid (s_itm s q)) (c_connected c)\<rparr>) s"

definition AnchorCount :: "CN_STATE \<Rightarrow> nat \<Rightarrow> nat" where
  "AnchorCount s p =
    (let c = s_itm s p; b = parent s p in
     if \<not> c_valid c then 0
     else case c_zone c of
       Some (layer, i) \<Rightarrow> if length (b_outlines b layer ! i) \<noteq> 0 then 1 else 0
     | None \<Rightarrow> if b_type b = PCB_TRACE_T \<or> b_type b = PCB_ARC_T then 2
               else if b_type b = PCB_SHAPE_T then length (c_anchors c) else 1)"

text \<open>The fall-back \<open>VECTOR2I()\<close> is the origin; the first point of an empty outline is undefined.\<close>

definition GetAnchor :: "CN_STATE \<Rightarrow> nat \<Rightarrow> nat \<Rightarrow> VECTOR2I" where
  "GetAnchor s p n =
    (let c = s_itm s p; b = parent s p in
     if \<not> c_valid c then Vec 0 0
     else case c_zone c of
       Some (layer, i) \<Rightarrow> hd (b_outlines b layer ! i)
     | None \<Rightarrow>
         if b_type b = PCB_PAD_T then b_position b
         else if b_type b = PCB_TRACE_T \<or> b_type b = PCB_ARC_T then (if n = 0 then b_start b else b_end b)
         else if b_type b = PCB_VIA_T then b_start b
         else if b_type b = PCB_SHAPE_T
         then (if n < length (c_anchors c) then a_pos (s_anc s (c_anchors c ! n)) else Vec 0 0)
         else Vec 0 0)"

fun count_valid :: "CN_STATE \<Rightarrow> nat list \<Rightarrow> nat \<Rightarrow> nat" where
  "count_valid s [] count = count"
| "count_valid s (q # qs) count =
    (let count = (if c_valid (s_itm s q) then Suc count else count) in
     if count > 1 then count else count_valid s qs count)"

definition HasSingleConnection :: "CN_STATE \<Rightarrow> nat \<Rightarrow> bool" where
  "HasSingleConnection s p \<longleftrightarrow> count_valid s (c_connected (s_itm s p)) 0 = 1"

subsection \<open>Anchors\<close>

definition anchor_Valid :: "CN_STATE \<Rightarrow> nat \<Rightarrow> bool" where
  "anchor_Valid s a = (case a_item (s_anc s a) of None \<Rightarrow> False | Some p \<Rightarrow> c_valid (s_itm s p))"

definition anchor_Dirty :: "CN_STATE \<Rightarrow> nat \<Rightarrow> bool" where
  "anchor_Dirty s a \<longleftrightarrow>
    \<not> anchor_Valid s a \<or> (case a_item (s_anc s a) of None \<Rightarrow> False | Some p \<Rightarrow> c_dirty (s_itm s p))"

definition anchor_Parent :: "CN_STATE \<Rightarrow> nat \<Rightarrow> nat option" where
  "anchor_Parent s a = map_option (\<lambda>p. c_parent (s_itm s p)) (a_item (s_anc s a))"

definition anchor_Move :: "VECTOR2I \<Rightarrow> nat \<Rightarrow> CN_STATE \<Rightarrow> CN_STATE" where
  "anchor_Move aPos a = upd_anchor a (\<lambda>x. x\<lparr>a_pos := vadd (a_pos x) aPos\<rparr>)"

definition anchor_Dist :: "(VECTOR2I \<Rightarrow> int) \<Rightarrow> CN_STATE \<Rightarrow> nat \<Rightarrow> nat \<Rightarrow> int" where
  "anchor_Dist euclid s a b = euclid (vsub (a_pos (s_anc s a)) (a_pos (s_anc s b)))"

definition hits_anchor :: "GEOMETRY \<Rightarrow> CN_STATE \<Rightarrow> VECTOR2I \<Rightarrow> int \<Rightarrow> nat \<Rightarrow> bool" where
  "hits_anchor G s pos accuracy q =
    (if b_type (parent s q) = PCB_ZONE_T
     then g_HitTestFilledArea G (c_parent (s_itm s q)) (item_Layer s q) pos accuracy
     else g_HitTest G (c_parent (s_itm s q)) pos accuracy)"

text \<open>\<open>None\<close> where the code dereferences the null item of an anchor whose item was deleted.\<close>

definition IsDangling :: "GEOMETRY \<Rightarrow> CN_STATE \<Rightarrow> nat \<Rightarrow> bool option" where
  "IsDangling G s a =
    (if a_cluster (s_anc s a) = None then Some True
     else case a_item (s_anc s a) of None \<Rightarrow> None
     | Some p \<Rightarrow>
       let b = parent s p; connected = c_connected (s_itm s p) in
       if b_type b = PCB_VIA_T then Some (length connected < 2)
       else if AnchorCount s p = 1 then Some (length connected < 1)
       else
         let accuracy =
               (if b_type b = PCB_TRACE_T \<or> b_type b = PCB_ARC_T then b_width b sdiv 2
                else if b_type b = PCB_SHAPE_T \<and> \<not> b_filled b then b_width b sdiv 2 else 0)
         in Some (length (filter (hits_anchor G s (a_pos (s_anc s a)) accuracy) connected) < 1))"

definition ConnectedItemsCount :: "GEOMETRY \<Rightarrow> CN_STATE \<Rightarrow> nat \<Rightarrow> nat option" where
  "ConnectedItemsCount G s a =
    (if a_cluster (s_anc s a) = None then Some 0
     else case a_item (s_anc s a) of None \<Rightarrow> None
     | Some p \<Rightarrow> Some (length (filter (hits_anchor G s (a_pos (s_anc s a)) 0) (c_connected (s_itm s p)))))"

subsection \<open>Clusters\<close>

definition CN_CLUSTER_new :: CN_CLUSTER where
  "CN_CLUSTER_new =
    \<lparr>k_conflicting = False, k_originNet = - 1, k_originPad = None, k_items = [], k_netRanks = Map.empty\<rparr>"

definition HasValidNet :: "CN_CLUSTER \<Rightarrow> bool" where
  "HasValidNet k \<longleftrightarrow> k_originNet k > 0"

definition IsOrphaned :: "CN_CLUSTER \<Rightarrow> bool" where
  "IsOrphaned k \<longleftrightarrow> k_originPad k = None"

definition cluster_Contains :: "CN_CLUSTER \<Rightarrow> nat \<Rightarrow> bool" where
  "cluster_Contains k p \<longleftrightarrow> p \<in> set (k_items k)"

definition cluster_Contains_parent :: "CN_STATE \<Rightarrow> CN_CLUSTER \<Rightarrow> nat \<Rightarrow> bool" where
  "cluster_Contains_parent s k b \<longleftrightarrow>
    list_ex (\<lambda>p. c_valid (s_itm s p) \<and> c_parent (s_itm s p) = b) (k_items k)"

text \<open>
  The rank of a net is the number of its pads so far. The net of the first item with a net is entered with
  rank 0 when the cluster has no origin yet; \<open>m_netRanks[m_originNet]\<close> reads 0 for a net without entry.
\<close>

definition rank_of :: "CN_CLUSTER \<Rightarrow> int \<Rightarrow> int" where
  "rank_of k n = (case k_netRanks k n of None \<Rightarrow> 0 | Some r \<Rightarrow> r)"

definition is_ranked_pad :: "CN_STATE \<Rightarrow> nat \<Rightarrow> bool" where
  "is_ranked_pad s p \<longleftrightarrow> b_type (parent s p) = PCB_PAD_T \<and> \<not> b_free (parent s p)"

definition cluster_Add :: "CN_STATE \<Rightarrow> nat \<Rightarrow> CN_CLUSTER \<Rightarrow> CN_CLUSTER" where
  "cluster_Add s item k =
    (let k = k\<lparr>k_items := k_items k @ [item]\<rparr>; netCode = Net s item in
     if netCode \<le> 0 then k
     else
       let k = (if k_originNet k \<le> 0
                then k\<lparr>k_originNet := netCode, k_netRanks := (k_netRanks k)(netCode \<mapsto> 0)\<rparr> else k)
       in if \<not> is_ranked_pad s item then k
       else
         let rank = (case k_netRanks k netCode of None \<Rightarrow> 1 | Some r \<Rightarrow> r + 1);
             k = k\<lparr>k_netRanks := (k_netRanks k)(netCode \<mapsto> rank)\<rparr>;
             k = (if k_originPad k = None \<or> rank > rank_of k (k_originNet k)
                  then k\<lparr>k_originPad := Some item, k_originNet := netCode\<rparr> else k)
         in if k_originPad k \<noteq> None \<and> netCode \<noteq> k_originNet k then k\<lparr>k_conflicting := True\<rparr> else k)"

end
