(* ===== verification/Conn_Algo.thy ===== *)
theory Conn_Algo
  imports Conn_Items
begin

text \<open>
  The list of items and the connectivity algorithm over it: \<open>connectivity_items.cpp\<close> (\<open>CN_LIST\<close>),
  \<open>connectivity_rtree.h\<close>, \<open>connectivity_algo.h\<close>, \<open>connectivity_algo.cpp\<close>.

  The R-tree is third-party code: it is the list of its entries, a query visits the entries whose box and
  layers overlap those asked for, in the order of the list. The connections of dirty items are searched by
  a thread pool in the code and one after the other here; the results are shown not to depend on the
  order. The function \<open>std::sort\<close> is a parameter, of which only is assumed that it sorts.
\<close>

subsection \<open>The index\<close>

definition rt_overlaps :: "LAYER_RANGE \<Rightarrow> BOX2 \<Rightarrow> RT_ENTRY \<Rightarrow> bool" where
  "rt_overlaps aRange aBounds = (\<lambda>(p, lr, b).
    m_start lr \<le> m_end aRange \<and> m_start aRange \<le> m_end lr \<and>
    vx (m_Pos b) \<le> GetRight aBounds \<and> vx (m_Pos aBounds) \<le> GetRight b \<and>
    vy (m_Pos b) \<le> GetBottom aBounds \<and> vy (m_Pos aBounds) \<le> GetBottom b)"

definition rt_Insert :: "nat \<Rightarrow> CN_STATE \<Rightarrow> CN_STATE" where
  "rt_Insert p s =
    (let (b, s) = item_BBox p s in s\<lparr>s_index := s_index s @ [(p, c_layers (s_itm s p), b)]\<rparr>)"

fun remove_first :: "('a \<Rightarrow> bool) \<Rightarrow> 'a list \<Rightarrow> 'a list option" where
  "remove_first P [] = None"
| "remove_first P (x # xs) = (if P x then Some xs else map_option (Cons x) (remove_first P xs))"

definition rt_Remove :: "nat \<Rightarrow> CN_STATE \<Rightarrow> CN_STATE" where
  "rt_Remove p s =
    (let (b, s) = item_BBox p s in
     case remove_first (\<lambda>e. fst e = p \<and> rt_overlaps (c_layers (s_itm s p)) b e) (s_index s) of
       Some ix \<Rightarrow> s\<lparr>s_index := ix\<rparr>
     | None \<Rightarrow>
         (case remove_first (\<lambda>e. fst e = p) (s_index s) of
            Some ix \<Rightarrow> s\<lparr>s_index := ix\<rparr> | None \<Rightarrow> s))"

definition rt_Query :: "BOX2 \<Rightarrow> LAYER_RANGE \<Rightarrow> CN_STATE \<Rightarrow> nat list" where
  "rt_Query aBounds aRange s = map fst (filter (rt_overlaps aRange aBounds) (s_index s))"

subsection \<open>The list of items\<close>

definition list_push :: "nat \<Rightarrow> CN_STATE \<Rightarrow> CN_STATE" where
  "list_push p s = s\<lparr>s_items := s_items s @ [p]\<rparr>"

definition list_SetDirty :: "bool \<Rightarrow> CN_STATE \<Rightarrow> CN_STATE" where
  "list_SetDirty d s = s\<lparr>s_dirty := d\<rparr>"

definition list_SetHasInvalid :: "bool \<Rightarrow> CN_STATE \<Rightarrow> CN_STATE" where
  "list_SetHasInvalid d s = s\<lparr>s_hasInvalid := d\<rparr>"

definition smd_layer :: "lset \<Rightarrow> int option" where
  "smd_layer lmsk = map_option int (List.find (bit lmsk) [0..<Suc (nat MAX_CU_LAYERS)])"

definition list_Add_pad :: "nat \<Rightarrow> CN_STATE \<Rightarrow> nat option \<times> CN_STATE" where
  "list_Add_pad pad s =
    (let b = s_brd s pad in
     if \<not> b_onCopper b then (None, s)
     else
       let (p, s) = new_item (CN_ITEM_new pad False) s;
           s = SetLayers p (LR_of F_Cu B_Cu) (AddAnchor p (b_shapePos b) s);
           s = (if b_attribute b \<in> {SMD, NPTH, CONN}
                then (case smd_layer (b_layers b) of Some i \<Rightarrow> SetLayer p i s | None \<Rightarrow> s) else s)
       in (Some p, list_SetDirty True (list_push p (rt_Insert p s))))"

text \<open>Tracks and arcs share this body.\<close>

definition list_Add_track :: "nat \<Rightarrow> CN_STATE \<Rightarrow> nat option \<times> CN_STATE" where
  "list_Add_track track s =
    (let b = s_brd s track;
         (p, s) = new_item (CN_ITEM_new track True) s;
         s = AddAnchor p (b_end b) (AddAnchor p (b_start b) (list_push p s))
     in (Some p, list_SetDirty True (rt_Insert p (SetLayer p (b_layer b) s))))"

definition list_Add_via :: "nat \<Rightarrow> CN_STATE \<Rightarrow> nat option \<times> CN_STATE" where
  "list_Add_via via s =
    (let b = s_brd s via;
         (p, s) = new_item (CN_ITEM_new via (\<not> b_free b)) s;
         s = AddAnchor p (b_start b) (list_push p s)
     in (Some p, list_SetDirty True (rt_Insert p (SetLayers p (LR_of (b_topLayer b) (b_bottomLayer b)) s))))"

definition list_Add_shape :: "nat \<Rightarrow> CN_STATE \<Rightarrow> nat option \<times> CN_STATE" where
  "list_Add_shape shape s =
    (let b = s_brd s shape;
         (p, s) = new_item (CN_ITEM_new shape True) s;
         s = foldl (\<lambda>s pt. AddAnchor p pt s) (list_push p s) (b_points b)
     in (Some p, list_SetDirty True (rt_Insert p (SetLayer p (b_layer b) s))))"

definition list_Add_zitem :: "nat \<Rightarrow> CN_STATE \<Rightarrow> CN_STATE" where
  "list_Add_zitem zitem s = list_SetDirty True (rt_Insert zitem (list_push zitem s))"

fun add_outlines :: "nat \<Rightarrow> int \<Rightarrow> nat \<Rightarrow> VECTOR2I list list \<Rightarrow> CN_STATE \<Rightarrow> nat list \<times> CN_STATE" where
  "add_outlines zone aLayer j [] s = ([], s)"
| "add_outlines zone aLayer j (pts # rest) s =
    (let (p, s) = new_item (CN_ZONE_LAYER_new zone aLayer j) s;
         s = list_Add_zitem p (foldl (\<lambda>s pt. AddAnchor p pt s) s pts);
         (ps, s) = add_outlines zone aLayer (Suc j) rest s
     in (p # ps, s))"

definition list_Add_zone :: "nat \<Rightarrow> int \<Rightarrow> CN_STATE \<Rightarrow> nat list \<times> CN_STATE" where
  "list_Add_zone zone aLayer s = add_outlines zone aLayer 0 (b_outlines (s_brd s zone) aLayer) s"

definition RemoveInvalidItems :: "CN_STATE \<Rightarrow> nat list \<times> CN_STATE" where
  "RemoveInvalidItems s =
    (if \<not> s_hasInvalid s then ([], s)
     else
       let garbage = filter (\<lambda>p. \<not> c_valid (s_itm s p)) (s_items s);
           s = s\<lparr>s_items := filter (\<lambda>p. c_valid (s_itm s p)) (s_items s)\<rparr>;
           s = foldl (\<lambda>s p. RemoveInvalidRefs p s) s (s_items s);
           s = foldl (\<lambda>s p. rt_Remove p s) s garbage
       in (garbage, list_SetHasInvalid False s))"

definition list_ClearDirtyFlags :: "CN_STATE \<Rightarrow> CN_STATE" where
  "list_ClearDirtyFlags s = list_SetDirty False (foldl (\<lambda>s p. SetItemDirty False p s) s (s_items s))"

text \<open>The destructor of an item leaves its anchors without an item.\<close>

definition delete_item :: "nat \<Rightarrow> CN_STATE \<Rightarrow> CN_STATE" where
  "delete_item p s = foldl (\<lambda>s a. upd_anchor a (\<lambda>x. x\<lparr>a_item := None\<rparr>) s) s (c_anchors (s_itm s p))"

definition list_Clear :: "CN_STATE \<Rightarrow> CN_STATE" where
  "list_Clear s = (foldl (\<lambda>s p. delete_item p s) s (s_items s))\<lparr>s_items := [], s_index := []\<rparr>"

subsection \<open>Dirty nets\<close>

definition MarkNetAsDirty :: "int \<Rightarrow> CN_STATE \<Rightarrow> CN_STATE" where
  "MarkNetAsDirty aNet s =
    (if aNet < 0 then s
     else
       let d = s_dirtyNets s; n = nat aNet;
           d = (if length d \<le> n
                then take (length d - 1) d @ replicate (Suc n - (length d - 1)) True else d)
       in s\<lparr>s_dirtyNets := d[n := True]\<rparr>)"

text \<open>\<open>None\<close> where the vector is read behind its end.\<close>

definition IsNetDirty :: "CN_STATE \<Rightarrow> int \<Rightarrow> bool option" where
  "IsNetDirty s aNet =
    (if aNet < 0 then Some False
     else if nat aNet < length (s_dirtyNets s) then Some (s_dirtyNets s ! nat aNet) else None)"

definition ClearDirtyFlags :: "CN_STATE \<Rightarrow> CN_STATE" where
  "ClearDirtyFlags s = s\<lparr>s_dirtyNets := map (\<lambda>_. False) (s_dirtyNets s)\<rparr>"

fun GetDirtyClusters :: "CN_STATE \<Rightarrow> CN_CLUSTER list \<Rightarrow> CN_CLUSTER list option" where
  "GetDirtyClusters s [] = Some []"
| "GetDirtyClusters s (cl # cls) =
    (case IsNetDirty s (k_originNet cl) of None \<Rightarrow> None
     | Some d \<Rightarrow> map_option (\<lambda>r. if d then cl # r else r) (GetDirtyClusters s cls))"

definition NetCount :: "CN_STATE \<Rightarrow> nat" where
  "NetCount s = length (s_dirtyNets s)"

definition markItemNetAsDirty :: "nat \<Rightarrow> CN_STATE \<Rightarrow> CN_STATE" where
  "markItemNetAsDirty aItem s =
    (let b = s_brd s aItem in
     if b_isConnected b then MarkNetAsDirty (b_net b) s
     else if b_type b = PCB_FOOTPRINT_T
     then foldl (\<lambda>s pad. MarkNetAsDirty (b_net (s_brd s pad)) s) s (b_pads b)
     else s)"

subsection \<open>Removing and adding board items\<close>

text \<open>\<open>m_itemMap[x]\<close> makes an empty entry where there is none.\<close>

definition ItemEntry :: "nat \<Rightarrow> CN_STATE \<Rightarrow> nat list \<times> CN_STATE" where
  "ItemEntry x s =
    (case s_itemMap s x of Some l \<Rightarrow> (l, s) | None \<Rightarrow> ([], s\<lparr>s_itemMap := (s_itemMap s)(x \<mapsto> [])\<rparr>))"

definition ItemExists :: "nat \<Rightarrow> CN_STATE \<Rightarrow> bool" where
  "ItemExists x s \<longleftrightarrow> s_itemMap s x \<noteq> None"

definition invalidate_entry :: "nat \<Rightarrow> CN_STATE \<Rightarrow> CN_STATE" where
  "invalidate_entry x s =
    (let (l, s) = ItemEntry x s; s = foldl (\<lambda>s p. SetValid False p s) s l
     in s\<lparr>s_itemMap := (s_itemMap s)(x := None)\<rparr>)"

definition algo_Remove :: "nat \<Rightarrow> CN_STATE \<Rightarrow> bool \<times> CN_STATE" where
  "algo_Remove aItem s =
    (let s = markItemNetAsDirty aItem s; b = s_brd s aItem in
     if b_type b = PCB_FOOTPRINT_T
     then (True, list_SetHasInvalid True (list_SetDirty True (foldl (\<lambda>s pad. invalidate_entry pad s) s (b_pads b))))
     else if b_type b \<in> {PCB_PAD_T, PCB_TRACE_T, PCB_ARC_T, PCB_VIA_T, PCB_ZONE_T, PCB_SHAPE_T}
     then (True, list_SetHasInvalid True (list_SetDirty True (invalidate_entry aItem s)))
     else (False, s))"

definition alreadyAdded :: "nat \<Rightarrow> CN_STATE \<Rightarrow> bool" where
  "alreadyAdded x s \<longleftrightarrow> (case s_itemMap s x of None \<Rightarrow> False | Some l \<Rightarrow> l \<noteq> [])"

definition algo_add :: "(nat \<Rightarrow> CN_STATE \<Rightarrow> nat option \<times> CN_STATE) \<Rightarrow> nat \<Rightarrow> CN_STATE \<Rightarrow> CN_STATE" where
  "algo_add c_Add brditem s =
    (let (item, s) = c_Add brditem s
     in s\<lparr>s_itemMap := (s_itemMap s)(brditem \<mapsto> (case item of None \<Rightarrow> [] | Some p \<Rightarrow> [p]))\<rparr>)"

text \<open>A footprint stops at its first pad that is known already, leaving the pads before it added.\<close>

fun add_pads :: "nat list \<Rightarrow> CN_STATE \<Rightarrow> bool \<times> CN_STATE" where
  "add_pads [] s = (True, s)"
| "add_pads (pad # pads) s =
    (if alreadyAdded pad s then (False, s) else add_pads pads (algo_add list_Add_pad pad s))"

definition Link :: "nat \<Rightarrow> nat \<Rightarrow> CN_STATE \<Rightarrow> CN_STATE" where
  "Link x p s = (let (l, s) = ItemEntry x s in s\<lparr>s_itemMap := (s_itemMap s)(x \<mapsto> l @ [p])\<rparr>)"

definition add_zone_layer :: "nat \<Rightarrow> int \<Rightarrow> CN_STATE \<Rightarrow> CN_STATE" where
  "add_zone_layer zone layer s =
    (let (ps, s) = list_Add_zone zone layer s in foldl (\<lambda>s p. Link zone p s) s ps)"

definition algo_Add :: "nat \<Rightarrow> CN_STATE \<Rightarrow> bool \<times> CN_STATE" where
  "algo_Add aItem s =
    (let b = s_brd s aItem;
         done = (\<lambda>s. (True, markItemNetAsDirty aItem s))
     in
     if \<not> b_onCopper b then (False, s)
     else case b_type b of
       PCB_NETINFO_T \<Rightarrow> done (MarkNetAsDirty (b_net b) s)
     | PCB_FOOTPRINT_T \<Rightarrow>
         if b_justAdded b then (False, s)
         else (case add_pads (b_pads b) s of (ok, s) \<Rightarrow> if ok then done s else (False, s))
     | PCB_PAD_T \<Rightarrow>
         if (case b_footprint b of None \<Rightarrow> False | Some fp \<Rightarrow> b_justAdded (s_brd s fp)) then (False, s)
         else if alreadyAdded aItem s then (False, s)
         else done (algo_add list_Add_pad aItem s)
     | PCB_TRACE_T \<Rightarrow>
         if alreadyAdded aItem s then (False, s) else done (algo_add list_Add_track aItem s)
     | PCB_ARC_T \<Rightarrow>
         if alreadyAdded aItem s then (False, s) else done (algo_add list_Add_track aItem s)
     | PCB_VIA_T \<Rightarrow>
         if alreadyAdded aItem s then (False, s) else done (algo_add list_Add_via aItem s)
     | PCB_SHAPE_T \<Rightarrow>
         if alreadyAdded aItem s then (False, s)
         else if \<not> IsCopperLayer (b_layer b) then (False, s)
         else done (algo_add list_Add_shape aItem s)
     | PCB_ZONE_T \<Rightarrow>
         if alreadyAdded aItem s then (False, s)
         else done (foldl (\<lambda>s layer. add_zone_layer aItem layer s)
                     (s\<lparr>s_itemMap := (s_itemMap s)(aItem \<mapsto> [])\<rparr>) (Seq (b_layers b)))
     | _ \<Rightarrow> (False, s))"

definition LocalBuild :: "nat list \<Rightarrow> CN_STATE \<Rightarrow> CN_STATE" where
  "LocalBuild aItems s =
    foldl (\<lambda>s x. if b_type (s_brd s x) \<in>
        {PCB_TRACE_T, PCB_ARC_T, PCB_VIA_T, PCB_PAD_T, PCB_FOOTPRINT_T, PCB_SHAPE_T}
      then snd (algo_Add x s) else s) s aItems"

text \<open>
  Building from a whole board: the zones' outlines on copper layers become items first, without anchors,
  then tracks, pads and shapes are added.
\<close>

definition Build_zitems :: "nat \<Rightarrow> CN_STATE \<Rightarrow> nat list \<times> CN_STATE" where
  "Build_zitems zone s =
    foldl (\<lambda>(ps, s) (layer, j). case new_item (CN_ZONE_LAYER_new zone layer j) s of (p, s) \<Rightarrow> (ps @ [p], s)) ([], s)
      (concat (map (\<lambda>layer. map (Pair layer) [0..<length (b_outlines (s_brd s zone) layer)])
        (filter IsCopperLayer (Seq (b_layers (s_brd s zone))))))"

definition Build_zone :: "nat list \<times> CN_STATE \<Rightarrow> nat \<Rightarrow> nat list \<times> CN_STATE" where
  "Build_zone = (\<lambda>(zitems, s) zone.
    if b_onCopper (s_brd s zone)
    then (case Build_zitems zone (markItemNetAsDirty zone (s\<lparr>s_itemMap := (s_itemMap s)(zone \<mapsto> [])\<rparr>)) of
            (ps, s) \<Rightarrow> (zitems @ ps, s))
    else (zitems, s))"

definition algo_Build :: "nat list \<Rightarrow> nat list \<Rightarrow> nat list \<Rightarrow> nat list \<Rightarrow> CN_STATE \<Rightarrow> CN_STATE" where
  "algo_Build zones tracks footprints drawings s =
    (let (zitems, s) = foldl Build_zone ([], s) zones;
         s = foldl (\<lambda>s p. Link (c_parent (s_itm s p)) p (list_Add_zitem p s)) s zitems;
         s = foldl (\<lambda>s tv. snd (algo_Add tv s)) s tracks;
         s = foldl (\<lambda>s fp. foldl (\<lambda>s pad. snd (algo_Add pad s)) s (b_pads (s_brd s fp))) s footprints
     in foldl (\<lambda>s d. if b_type (s_brd s d) = PCB_SHAPE_T \<and> b_onCopper (s_brd s d)
                     then snd (algo_Add d s) else s) s drawings)"

definition algo_Clear :: "CN_STATE \<Rightarrow> CN_STATE" where
  "algo_Clear s = list_Clear (s\<lparr>s_ratsnestClusters := [], s_connClusters := [], s_itemMap := Map.empty\<rparr>)"

end
