(* ===== verification/Conn_Search.thy ===== *)
theory Conn_Search
  imports Conn_Algo
begin

text \<open>
  Searching: which items touch (\<open>CN_VISITOR\<close>), which items hang together (\<open>SearchClusters\<close>), the nets that
  follow from it (\<open>PropagateNets\<close>) and the isolated islands of zones; \<open>connectivity_algo.cpp\<close>.
\<close>

subsection \<open>Connections of an item\<close>

definition connect_both :: "nat \<Rightarrow> nat \<Rightarrow> CN_STATE \<Rightarrow> CN_STATE" where
  "connect_both a b s = Connect b a (Connect a b s)"

definition ContainsPoint :: "GEOMETRY \<Rightarrow> CN_STATE \<Rightarrow> nat \<Rightarrow> VECTOR2I \<Rightarrow> bool" where
  "ContainsPoint G s z pt =
    (case c_zone (s_itm s z) of None \<Rightarrow> False
     | Some (layer, i) \<Rightarrow> g_ContainsPoint G (c_parent (s_itm s z)) layer i pt)"

definition zone_Collide :: "GEOMETRY \<Rightarrow> CN_STATE \<Rightarrow> nat \<Rightarrow> nat \<times> FLASHING \<Rightarrow> bool" where
  "zone_Collide G s z shape =
    (case c_zone (s_itm s z) of None \<Rightarrow> False
     | Some (layer, i) \<Rightarrow> g_zoneCollide G (c_parent (s_itm s z)) layer i shape)"

definition zone_layer :: "CN_STATE \<Rightarrow> nat \<Rightarrow> int" where
  "zone_layer s z = (case c_zone (s_itm s z) of None \<Rightarrow> - 1 | Some (layer, i) \<Rightarrow> layer)"

definition zone_outline :: "CN_STATE \<Rightarrow> nat \<Rightarrow> VECTOR2I list" where
  "zone_outline s z =
    (case c_zone (s_itm s z) of None \<Rightarrow> []
     | Some (layer, i) \<Rightarrow> b_outlines (parent s z) layer ! i)"

definition IsOnLayer :: "BOARD_ITEM \<Rightarrow> int \<Rightarrow> bool" where
  "IsOnLayer b aLayer \<longleftrightarrow> bit (b_layers b) (nat aLayer)"

text \<open>The first part of the check decides, the state only takes up the connection.\<close>

definition zone_item_touch :: "GEOMETRY \<Rightarrow> CN_STATE \<Rightarrow> nat \<Rightarrow> nat \<Rightarrow> bool" where
  "zone_item_touch G s aZoneLayer aItem =
    (let layer = zone_layer s aZoneLayer; i = c_parent (s_itm s aItem); b = s_brd s i in
     if \<not> IsOnLayer b layer then False
     else if b_type b \<in> {PCB_PAD_T, PCB_VIA_T} \<and> g_ConditionallyFlashed G i layer \<and> g_noZoneConnection G i layer
     then False
     else if list_ex (\<lambda>n. ContainsPoint G s aZoneLayer (GetAnchor s aItem n)) [0..<AnchorCount s aItem] then True
     else if b_type b \<in> {PCB_VIA_T, PCB_PAD_T} then zone_Collide G s aZoneLayer (i, ALWAYS_FLASHED)
     else zone_Collide G s aZoneLayer (i, DEFAULT_FLASHING))"

definition checkZoneItemConnection :: "GEOMETRY \<Rightarrow> nat \<Rightarrow> nat \<Rightarrow> CN_STATE \<Rightarrow> CN_STATE" where
  "checkZoneItemConnection G aZoneLayer aItem s =
    (if zone_item_touch G s aZoneLayer aItem then connect_both aZoneLayer aItem s else s)"

definition zone_zone_touch :: "GEOMETRY \<Rightarrow> CN_STATE \<Rightarrow> nat \<Rightarrow> BOX2 \<Rightarrow> nat \<Rightarrow> BOX2 \<Rightarrow> bool" where
  "zone_zone_touch G s a boxA b boxB \<longleftrightarrow>
    zone_layer s b = zone_layer s a \<and> BOX2_Intersects boxA boxB \<and>
    (list_ex (\<lambda>pt. BOX2_Contains boxB pt \<and> ContainsPoint G s b pt) (zone_outline s a) \<or>
     list_ex (\<lambda>pt. BOX2_Contains boxA pt \<and> ContainsPoint G s a pt) (zone_outline s b))"

definition checkZoneZoneConnection :: "GEOMETRY \<Rightarrow> nat \<Rightarrow> nat \<Rightarrow> CN_STATE \<Rightarrow> CN_STATE" where
  "checkZoneZoneConnection G a b s =
    (let (boxA, s) = item_BBox a s; (boxB, s) = item_BBox b s in
     if zone_zone_touch G s a boxA b boxB then connect_both a b s else s)"

definition flashing :: "GEOMETRY \<Rightarrow> CN_STATE \<Rightarrow> nat \<Rightarrow> int \<Rightarrow> FLASHING" where
  "flashing G s p layer =
    (if b_type (parent s p) \<in> {PCB_PAD_T, PCB_VIA_T} \<and> \<not> g_ConditionallyFlashed G (c_parent (s_itm s p)) layer
     then ALWAYS_FLASHED else NEVER_FLASHED)"

definition item_item_touch :: "GEOMETRY \<Rightarrow> CN_STATE \<Rightarrow> nat \<Rightarrow> nat \<Rightarrow> bool" where
  "item_item_touch G s a b =
    list_ex (\<lambda>layer. g_Collide G layer (c_parent (s_itm s a), flashing G s a layer)
                                      (c_parent (s_itm s b), flashing G s b layer))
      (Seq (b_layers (parent s a) AND b_layers (parent s b)))"

definition may_connect :: "CN_STATE \<Rightarrow> nat \<Rightarrow> nat \<Rightarrow> bool" where
  "may_connect s m_item aCandidate \<longleftrightarrow>
    c_valid (s_itm s aCandidate) \<and> c_valid (s_itm s m_item) \<and>
    c_parent (s_itm s aCandidate) \<noteq> c_parent (s_itm s m_item) \<and>
    (c_canChangeNet (s_itm s aCandidate) \<or> c_canChangeNet (s_itm s m_item) \<or> Net s aCandidate = Net s m_item)"

definition CN_VISITOR_visit :: "GEOMETRY \<Rightarrow> nat \<Rightarrow> nat \<Rightarrow> CN_STATE \<Rightarrow> CN_STATE" where
  "CN_VISITOR_visit G m_item aCandidate s =
    (let typeA = b_type (parent s aCandidate); typeB = b_type (parent s m_item) in
     if \<not> may_connect s m_item aCandidate then s
     else if c_dirty (s_itm s aCandidate) \<and> aCandidate < m_item then s
     else if typeA = PCB_ZONE_T \<and> typeB = PCB_ZONE_T then checkZoneZoneConnection G m_item aCandidate s
     else if typeA = PCB_ZONE_T then checkZoneItemConnection G aCandidate m_item s
     else if typeB = PCB_ZONE_T then checkZoneItemConnection G m_item aCandidate s
     else if item_item_touch G s aCandidate m_item then connect_both m_item aCandidate s
     else s)"

definition FindNearby :: "GEOMETRY \<Rightarrow> nat \<Rightarrow> CN_STATE \<Rightarrow> CN_STATE" where
  "FindNearby G aItem s =
    (let (b, s) = item_BBox aItem s
     in foldl (\<lambda>s q. CN_VISITOR_visit G aItem q s) s (rt_Query b (c_layers (s_itm s aItem)) s))"

definition searchConnections :: "GEOMETRY \<Rightarrow> CN_STATE \<Rightarrow> CN_STATE" where
  "searchConnections G s =
    (let (garbage, s) = RemoveInvalidItems s;
         s = foldl (\<lambda>s p. delete_item p s) s garbage;
         dirtyItems = filter (\<lambda>p. c_dirty (s_itm s p)) (s_items s);
         s = (if s_dirty s then foldl (\<lambda>s p. FindNearby G p s) s dirtyItems else s)
     in list_ClearDirtyFlags s)"

subsection \<open>Clusters\<close>

datatype CLUSTER_SEARCH_MODE = CSM_PROPAGATE | CSM_CONNECTIVITY_CHECK | CSM_RATSNEST

definition in_search :: "bool \<Rightarrow> KICAD_T list \<Rightarrow> int \<Rightarrow> nat option \<Rightarrow> CN_STATE \<Rightarrow> nat \<Rightarrow> bool" where
  "in_search withinAnyNet aTypes aSingleNet rootItem s p \<longleftrightarrow>
    \<not> (withinAnyNet \<and> Net s p \<le> 0) \<and> c_valid (s_itm s p) \<and>
    \<not> (aSingleNet \<ge> 0 \<and> Net s p \<noteq> aSingleNet) \<and>
    (b_type (parent s p) \<in> set aTypes \<or> rootItem = Some p)"

text \<open>The items that can be reached next; each is marked as visited when it enters the queue.\<close>

fun visit_connected :: "bool \<Rightarrow> int \<Rightarrow> nat list \<Rightarrow> CN_STATE \<Rightarrow> nat list \<times> CN_STATE" where
  "visit_connected withinAnyNet rootNet [] s = ([], s)"
| "visit_connected withinAnyNet rootNet (n # ns) s =
    (if withinAnyNet \<and> Net s n \<noteq> rootNet then visit_connected withinAnyNet rootNet ns s
     else if \<not> c_visited (s_itm s n) \<and> c_valid (s_itm s n)
     then (case visit_connected withinAnyNet rootNet ns (SetVisited True n s) of (q, s) \<Rightarrow> (n # q, s))
     else visit_connected withinAnyNet rootNet ns s)"

partial_function (option) search_cluster ::
  "bool \<Rightarrow> int \<Rightarrow> nat list \<Rightarrow> CN_CLUSTER \<Rightarrow> CN_STATE \<Rightarrow> (CN_CLUSTER \<times> CN_STATE) option" where
  "search_cluster withinAnyNet rootNet Q cluster s =
    (case Q of [] \<Rightarrow> Some (cluster, s)
     | current # Q' \<Rightarrow>
         (case visit_connected withinAnyNet rootNet (c_connected (s_itm s current)) s of (q, s') \<Rightarrow>
            search_cluster withinAnyNet rootNet (Q' @ q) (cluster_Add s current cluster) s'))"

declare search_cluster.simps [code]

text \<open>
  The outer loop on the set of items, in the order of their addresses: items visited meanwhile are erased,
  the root of a cluster is erased as visited in the next round.
\<close>

fun search_roots :: "bool \<Rightarrow> nat list \<Rightarrow> CN_STATE \<Rightarrow> (CN_CLUSTER list \<times> CN_STATE) option" where
  "search_roots withinAnyNet [] s = Some ([], s)"
| "search_roots withinAnyNet (p # item_set) s =
    (if c_visited (s_itm s p) then search_roots withinAnyNet item_set s
     else case search_cluster withinAnyNet (Net s p) [p] CN_CLUSTER_new (SetVisited True p s) of
            None \<Rightarrow> None
          | Some (cluster, s) \<Rightarrow>
              (case search_roots withinAnyNet item_set s of None \<Rightarrow> None
               | Some (clusters, s) \<Rightarrow> Some (cluster # clusters, s)))"

type_synonym CLUSTER_SORT = "CN_CLUSTER list \<Rightarrow> CN_CLUSTER list"

definition SearchClusters ::
    "GEOMETRY \<Rightarrow> CLUSTER_SORT \<Rightarrow> CLUSTER_SEARCH_MODE \<Rightarrow> KICAD_T list \<Rightarrow> int \<Rightarrow> nat option \<Rightarrow> CN_STATE \<Rightarrow>
      (CN_CLUSTER list \<times> CN_STATE) option" where
  "SearchClusters G sorter aMode aTypes aSingleNet rootItem s =
    (let withinAnyNet = (aMode \<noteq> CSM_PROPAGATE);
         s = (if s_dirty s then searchConnections G s else s);
         found = filter (in_search withinAnyNet aTypes aSingleNet rootItem s) (s_items s);
         s = foldl (\<lambda>s p. SetVisited False p s) s found
     in map_option (\<lambda>(clusters, s). (sorter clusters, s)) (search_roots withinAnyNet (sort (remdups found)) s))"

definition search_types :: "CLUSTER_SEARCH_MODE \<Rightarrow> KICAD_T list" where
  "search_types aMode =
    (if aMode = CSM_PROPAGATE
     then [PCB_TRACE_T, PCB_ARC_T, PCB_PAD_T, PCB_VIA_T, PCB_FOOTPRINT_T, PCB_SHAPE_T]
     else [PCB_TRACE_T, PCB_ARC_T, PCB_PAD_T, PCB_VIA_T, PCB_ZONE_T, PCB_FOOTPRINT_T, PCB_SHAPE_T])"

definition SearchClusters_mode ::
    "GEOMETRY \<Rightarrow> CLUSTER_SORT \<Rightarrow> CLUSTER_SEARCH_MODE \<Rightarrow> CN_STATE \<Rightarrow> (CN_CLUSTER list \<times> CN_STATE) option" where
  "SearchClusters_mode G sorter aMode = SearchClusters G sorter aMode (search_types aMode) (- 1) None"

subsection \<open>Nets follow from clusters\<close>

definition SetNetCode :: "int \<Rightarrow> nat \<Rightarrow> CN_STATE \<Rightarrow> CN_STATE" where
  "SetNetCode n b s = s\<lparr>s_brd := (s_brd s)(b := (s_brd s b)\<lparr>b_net := n\<rparr>)\<rparr>"

definition propagate_item :: "int \<Rightarrow> nat \<Rightarrow> CN_STATE \<Rightarrow> CN_STATE" where
  "propagate_item originNet p s =
    (if c_valid (s_itm s p) \<and> c_canChangeNet (s_itm s p) \<and> b_net (parent s p) \<noteq> originNet
     then SetNetCode originNet (c_parent (s_itm s p))
            (MarkNetAsDirty originNet (MarkNetAsDirty (b_net (parent s p)) s))
     else s)"

definition propagate_cluster :: "CN_CLUSTER \<Rightarrow> CN_STATE \<Rightarrow> CN_STATE" where
  "propagate_cluster k s =
    (if k_conflicting k then s
     else if HasValidNet k then foldl (\<lambda>s p. propagate_item (k_originNet k) p s) s (k_items k)
     else s)"

definition propagateConnections :: "CN_STATE \<Rightarrow> CN_STATE" where
  "propagateConnections s = foldl (\<lambda>s k. propagate_cluster k s) s (s_connClusters s)"

definition PropagateNets :: "GEOMETRY \<Rightarrow> CLUSTER_SORT \<Rightarrow> CN_STATE \<Rightarrow> CN_STATE option" where
  "PropagateNets G sorter s =
    map_option (\<lambda>(cls, s). propagateConnections (s\<lparr>s_connClusters := cls\<rparr>))
      (SearchClusters_mode G sorter CSM_PROPAGATE s)"

definition GetClusters :: "GEOMETRY \<Rightarrow> CLUSTER_SORT \<Rightarrow> CN_STATE \<Rightarrow> CN_STATE option" where
  "GetClusters G sorter s =
    map_option (\<lambda>(cls, s). s\<lparr>s_ratsnestClusters := cls\<rparr>) (SearchClusters_mode G sorter CSM_RATSNEST s)"

text \<open>
  The islands of one layer of a zone: the numbers of its outlines without a pad in their cluster, and of
  those with a single connection.
\<close>

definition island_of ::
    "CN_STATE \<Rightarrow> nat \<Rightarrow> int \<Rightarrow> CN_CLUSTER \<Rightarrow> nat list \<times> nat list \<Rightarrow> nat \<Rightarrow> nat list \<times> nat list" where
  "island_of s zone layer k = (\<lambda>(isolated, single) p.
    if c_parent (s_itm s p) = zone \<and> item_Layer s p = layer
    then (case c_zone (s_itm s p) of None \<Rightarrow> (isolated, single)
          | Some (l, i) \<Rightarrow>
              if IsOrphaned k then (isolated @ [i], single)
              else if HasSingleConnection s p then (isolated, single @ [i])
              else (isolated, single))
    else (isolated, single))"

definition layer_islands :: "CN_STATE \<Rightarrow> nat \<Rightarrow> int \<Rightarrow> nat list \<times> nat list" where
  "layer_islands s zone layer =
    (if b_outlines (s_brd s zone) layer = [] then ([], [])
     else foldl (\<lambda>acc k. foldl (island_of s zone layer k) acc (k_items k)) ([], []) (s_connClusters s))"

definition FillIsolatedIslandsMap ::
    "GEOMETRY \<Rightarrow> CLUSTER_SORT \<Rightarrow> (nat \<times> int list) list \<Rightarrow> bool \<Rightarrow> CN_STATE \<Rightarrow>
      ((nat \<times> (int \<times> nat list \<times> nat list) list) list \<times> CN_STATE) option" where
  "FillIsolatedIslandsMap G sorter aMap aConnectivityAlreadyRebuilt s =
    (let s = (if aConnectivityAlreadyRebuilt then s
              else foldl (\<lambda>s (zone, ls). snd (algo_Add zone (snd (algo_Remove zone s)))) s aMap)
     in case SearchClusters_mode G sorter CSM_CONNECTIVITY_CHECK s of None \<Rightarrow> None
        | Some (cls, s) \<Rightarrow>
            let s = s\<lparr>s_connClusters := cls\<rparr>
            in Some (map (\<lambda>(zone, ls). (zone, map (\<lambda>l. (l, layer_islands s zone l)) ls)) aMap, s))"

end
