(* ===== verification/Conn_Props.thy ===== *)
theory Conn_Props
  imports Conn_Search
begin

text \<open>
  What a search finds. A search changes only which items are marked as visited, so its states are those of
  the start with another set of visited items; the queue of a cluster is then a walk through the relation
  \<open>linked\<close>, and the clusters are the classes of this relation.
\<close>

subsection \<open>States that differ in the visited items\<close>

definition wv :: "nat set \<Rightarrow> CN_STATE \<Rightarrow> CN_STATE" where
  "wv V s = s\<lparr>s_itm := (\<lambda>p. (s_itm s p)\<lparr>c_visited := p \<in> V\<rparr>)\<rparr>"

lemma wv_itm [simp]: "s_itm (wv V s) p = (s_itm s p)\<lparr>c_visited := p \<in> V\<rparr>"
  by (simp add: wv_def)

lemma wv_frame [simp]:
  "s_brd (wv V s) = s_brd s" "s_items (wv V s) = s_items s" "s_anc (wv V s) = s_anc s"
  "s_dirty (wv V s) = s_dirty s" "s_index (wv V s) = s_index s" "s_itemMap (wv V s) = s_itemMap s"
  "s_dirtyNets (wv V s) = s_dirtyNets s" "s_hasInvalid (wv V s) = s_hasInvalid s"
  "s_newItem (wv V s) = s_newItem s" "s_newAnchor (wv V s) = s_newAnchor s"
  by (simp_all add: wv_def)

lemma wv_wv [simp]: "wv V (wv W s) = wv V s"
  by (simp add: wv_def)

lemma wv_self: "wv {p. c_visited (s_itm s p)} s = s"
  by (simp add: wv_def)

lemma SetVisited_wv [simp]:
  "SetVisited True p (wv V s) = wv (insert p V) s" "SetVisited False p (wv V s) = wv (V - {p}) s"
  by (auto simp: SetVisited_def upd_item_def wv_def fun_eq_iff intro!: arg_cong [where f = "\<lambda>x. s\<lparr>s_itm := x\<rparr>"])

lemma foldl_SetVisited_wv:
  "foldl (\<lambda>s p. SetVisited False p s) (wv V s) ps = wv (V - set ps) s"
  by (induction ps arbitrary: V) (auto simp: Diff_insert2 [symmetric] insert_Diff_if intro!: arg_cong [where f = "\<lambda>V. wv V s"])

lemma Net_wv [simp]: "Net (wv V s) p = Net s p"
  by (simp add: Net_def)

lemma is_ranked_pad_wv [simp]: "is_ranked_pad (wv V s) p = is_ranked_pad s p"
  by (simp add: is_ranked_pad_def)

lemma cluster_Add_wv [simp]: "cluster_Add (wv V s) = cluster_Add s"
  unfolding cluster_Add_def Net_wv is_ranked_pad_wv by (rule refl)

lemma in_search_wv [simp]: "in_search any ts n r (wv V s) = in_search any ts n r s"
  by (intro ext) (simp add: in_search_def)

subsection \<open>A cluster is what the walk from its root reaches\<close>

abbreviation visit_ok :: "bool \<Rightarrow> int \<Rightarrow> CN_STATE \<Rightarrow> nat \<Rightarrow> bool" where
  "visit_ok any net s n \<equiv> c_valid (s_itm s n) \<and> (any \<longrightarrow> Net s n = net)"

abbreviation conn :: "CN_STATE \<Rightarrow> nat \<Rightarrow> nat list" where
  "conn s p \<equiv> c_connected (s_itm s p)"

definition walk :: "bool \<Rightarrow> int \<Rightarrow> CN_STATE \<Rightarrow> (nat \<times> nat) set" where
  "walk any net s = {(u, v). v \<in> set (conn s u) \<and> visit_ok any net s v}"

lemma visit_connected_wv:
  "\<exists>q. visit_connected any net ns (wv V s) = (q, wv (V \<union> set q) s) \<and>
    set q = {n \<in> set ns. visit_ok any net s n \<and> n \<notin> V} \<and> distinct q"
proof (induction ns arbitrary: V)
  case (Cons n ns)
  show ?case
  proof (cases "visit_ok any net s n \<and> n \<notin> V")
    case True
    obtain q where q: "visit_connected any net ns (wv (insert n V) s) = (q, wv (insert n V \<union> set q) s)"
      "set q = {m \<in> set ns. visit_ok any net s m \<and> m \<notin> insert n V}" "distinct q"
      using Cons.IH [of "insert n V"] by blast
    have run: "visit_connected any net (n # ns) (wv V s) = (n # q, wv (V \<union> set (n # q)) s)"
      using True q(1) by auto
    have "set (n # q) = {m \<in> set (n # ns). visit_ok any net s m \<and> m \<notin> V}" "distinct (n # q)"
      using True q(2,3) by auto
    with run show ?thesis by blast
  next
    case False
    obtain q where q: "visit_connected any net ns (wv V s) = (q, wv (V \<union> set q) s)"
      "set q = {m \<in> set ns. visit_ok any net s m \<and> m \<notin> V}" "distinct q"
      using Cons.IH [of V] by blast
    have run: "visit_connected any net (n # ns) (wv V s) = (q, wv (V \<union> set q) s)"
      using False q(1) by auto
    have "set q = {m \<in> set (n # ns). visit_ok any net s m \<and> m \<notin> V}" using False q(2) by auto
    with run q(3) show ?thesis by blast
  qed
qed simp

lemma search_cluster_walk:
  assumes U: "finite U" "\<And>p. p \<in> U \<Longrightarrow> set (conn s p) \<subseteq> U"
    and Q: "set Q \<subseteq> U" "distinct Q" "set Q \<subseteq> V"
  shows "\<exists>vs. search_cluster any net Q k (wv V s) =
      Some (foldl (\<lambda>k p. cluster_Add s p k) k vs, wv (V \<union> set vs) s) \<and>
    distinct vs \<and> set Q \<subseteq> set vs \<and> set vs \<inter> V = set Q \<and> set vs \<subseteq> U \<and>
    (\<forall>v\<in>set vs. walk any net s `` {v} \<subseteq> V \<union> set vs) \<and>
    set vs \<subseteq> (walk any net s)\<^sup>* `` set Q"
  using Q
proof (induction "card (U - V) + length Q" arbitrary: Q k V rule: less_induct)
  case less
  show ?case
  proof (cases Q)
    case Nil
    then show ?thesis by (intro exI [of _ "[]"]) (simp add: search_cluster.simps)
  next
    case (Cons p Q')
    obtain q where q: "visit_connected any net (conn s p) (wv V s) = (q, wv (V \<union> set q) s)"
      "set q = {n \<in> set (conn s p). visit_ok any net s n \<and> n \<notin> V}" "distinct q"
      using visit_connected_wv by blast
    have pU: "p \<in> U" "p \<in> V" using less.prems Cons by auto
    have qU: "set q \<subseteq> U - V" using q(2) U(2) [OF pU(1)] by auto
    have card: "card (U - V) = card (U - (V \<union> set q)) + length q"
    proof -
      have "U - (V \<union> set q) = (U - V) - set q" by auto
      then show ?thesis
        using card_Diff_subset [of "set q" "U - V"] qU distinct_card [OF q(3)] card_mono [of "U - V" "set q"] U(1)
        by simp
    qed
    have m: "card (U - (V \<union> set q)) + length (Q' @ q) < card (U - V) + length Q"
      using card Cons by simp
    have pr: "set (Q' @ q) \<subseteq> U" "distinct (Q' @ q)" "set (Q' @ q) \<subseteq> V \<union> set q"
      using less.prems Cons qU q(3) by auto
    obtain vs where vs: "search_cluster any net (Q' @ q) (cluster_Add s p k) (wv (V \<union> set q) s) =
          Some (foldl (\<lambda>k p. cluster_Add s p k) (cluster_Add s p k) vs, wv (V \<union> set q \<union> set vs) s)"
      "distinct vs" "set (Q' @ q) \<subseteq> set vs" "set vs \<inter> (V \<union> set q) = set (Q' @ q)" "set vs \<subseteq> U"
      "\<forall>v\<in>set vs. walk any net s `` {v} \<subseteq> V \<union> set q \<union> set vs"
      "set vs \<subseteq> (walk any net s)\<^sup>* `` set (Q' @ q)"
      using less.hyps [OF m pr] by blast
    have pvs: "p \<notin> set vs" using vs(4) pU(2) pr(2) less.prems(2) Cons qU by auto
    have run: "search_cluster any net Q k (wv V s) =
        Some (foldl (\<lambda>k p. cluster_Add s p k) k (p # vs), wv (V \<union> set (p # vs)) s)"
    proof -
      have "V \<union> set q \<union> set vs = V \<union> set (p # vs)" using vs(3) pU(2) by auto
      then show ?thesis using vs(1) Cons q(1) by (subst search_cluster.simps) simp
    qed
    have "walk any net s `` {p} \<subseteq> V \<union> set q" using q(2) by (auto simp: walk_def)
    then have cl: "\<forall>v\<in>set (p # vs). walk any net s `` {v} \<subseteq> V \<union> set (p # vs)"
      using vs(3,6) by (simp add: subset_iff) blast
    have "set q \<subseteq> walk any net s `` {p}" using q(2) by (auto simp: walk_def)
    then have "(walk any net s)\<^sup>* `` set (Q' @ q) \<subseteq> (walk any net s)\<^sup>* `` set Q"
      using Cons by (auto intro: converse_rtrancl_into_rtrancl)
    then have re: "set (p # vs) \<subseteq> (walk any net s)\<^sup>* `` set Q" using vs(7) Cons by auto
    have "set (p # vs) \<inter> V = set Q"
      using vs(4) Cons pU(2) qU less.prems(3) by auto
    then show ?thesis using run cl re vs(2,3,5) pvs pU(1) Cons by (intro exI [of _ "p # vs"]) auto
  qed
qed

subsection \<open>The clusters are the classes of the linked items\<close>

definition linked :: "bool \<Rightarrow> CN_STATE \<Rightarrow> (nat \<times> nat) set" where
  "linked any s = {(u, v). u \<in> set (s_items s) \<and> v \<in> set (s_items s) \<and>
    c_valid (s_itm s u) \<and> c_valid (s_itm s v) \<and> v \<in> set (conn s u) \<and>
    (any \<longrightarrow> Net s u = Net s v)}"

lemma linked_wv [simp]: "linked any (wv V s) = linked any s"
  by (simp add: linked_def)

definition links_closed :: "CN_STATE \<Rightarrow> bool" where
  "links_closed s \<longleftrightarrow> (\<forall>p\<in>set (s_items s). set (conn s p) \<subseteq> set (s_items s))"

lemma links_closedD: "links_closed s \<Longrightarrow> p \<in> set (s_items s) \<Longrightarrow> set (conn s p) \<subseteq> set (s_items s)"
  by (simp add: links_closed_def)

lemma walk_linked:
  assumes cl: "links_closed s" and r: "r \<in> set (s_items s)" "c_valid (s_itm s r)"
  shows "(walk any (Net s r) s)\<^sup>* `` {r} = (linked any s)\<^sup>* `` {r}"
proof -
  have 1: "(r, v) \<in> (linked any s)\<^sup>* \<and> v \<in> set (s_items s) \<and> c_valid (s_itm s v) \<and> (any \<longrightarrow> Net s v = Net s r)"
    if "(r, v) \<in> (walk any (Net s r) s)\<^sup>*" for v
    using that
  proof induction
    case (step u v)
    then have "v \<in> set (s_items s)" using links_closedD [OF cl] by (auto simp: walk_def)
    with step show ?case by (auto simp: walk_def linked_def intro: rtrancl_into_rtrancl)
  qed (simp add: r)
  have 2: "(r, v) \<in> (walk any (Net s r) s)\<^sup>* \<and> (any \<longrightarrow> Net s v = Net s r)"
    if "(r, v) \<in> (linked any s)\<^sup>*" for v
    using that by induction (auto simp: walk_def linked_def intro: rtrancl_into_rtrancl)
  show ?thesis using 1 2 by blast
qed

lemma linked_star_net: "(u, v) \<in> (linked True s)\<^sup>* \<Longrightarrow> Net s v = Net s u"
  by (induction rule: rtrancl_induct) (auto simp: linked_def)

lemma linked_star_valid: "(u, v) \<in> (linked any s)\<^sup>* \<Longrightarrow> c_valid (s_itm s u) \<Longrightarrow> c_valid (s_itm s v)"
  by (induction rule: rtrancl_induct) (auto simp: linked_def)

lemma k_items_Add [simp]: "k_items (cluster_Add s p k) = k_items k @ [p]"
  by (simp add: cluster_Add_def Let_def)

lemma k_items_fold [simp]: "k_items (foldl (\<lambda>k p. cluster_Add s p k) k vs) = k_items k @ vs"
  by (induction vs arbitrary: k) simp_all

lemma k_items_new [simp]: "k_items CN_CLUSTER_new = []"
  by (simp add: CN_CLUSTER_new_def)

abbreviation cluster_of :: "CN_STATE \<Rightarrow> nat list \<Rightarrow> CN_CLUSTER" where
  "cluster_of s vs \<equiv> foldl (\<lambda>k p. cluster_Add s p k) CN_CLUSTER_new vs"

definition undisturbed :: "bool \<Rightarrow> CN_STATE \<Rightarrow> nat set \<Rightarrow> nat set \<Rightarrow> bool" where
  "undisturbed any s R V \<longleftrightarrow>
    (\<forall>u\<in>(linked any s)\<^sup>* `` R. \<forall>v. (u, v) \<in> linked any s \<longrightarrow> (u \<in> V \<longleftrightarrow> v \<in> V))"

lemma search_cluster_class:
  assumes cl: "links_closed s"
    and r: "r \<in> set (s_items s)" "c_valid (s_itm s r)" "r \<notin> V" and V: "undisturbed any s {r} V"
  obtains vs where "search_cluster any (Net s r) [r] CN_CLUSTER_new (wv (insert r V) s) =
      Some (cluster_of s vs, wv (V \<union> set vs) s)"
    "distinct vs" "set vs = (linked any s)\<^sup>* `` {r}" "set vs \<inter> V = {}"
proof -
  have "set [r] \<subseteq> set (s_items s)" "distinct [r]" "set [r] \<subseteq> insert r V" using r by auto
  from search_cluster_walk [OF finite_set links_closedD [OF cl] this, of any "Net s r" CN_CLUSTER_new] obtain vs where
    vs: "search_cluster any (Net s r) [r] CN_CLUSTER_new (wv (insert r V) s) =
        Some (cluster_of s vs, wv (insert r V \<union> set vs) s)"
      "distinct vs" "r \<in> set vs" "set vs \<inter> insert r V = {r}"
      "\<forall>v\<in>set vs. walk any (Net s r) s `` {v} \<subseteq> insert r V \<union> set vs"
      "set vs \<subseteq> (walk any (Net s r) s)\<^sup>* `` {r}" by auto
  have d: "set vs \<inter> V = {}" using vs(4) r(3) by auto
  have sub: "set vs \<subseteq> (linked any s)\<^sup>* `` {r}" using vs(6) walk_linked [OF cl r(1,2)] by blast
  have "v \<in> set vs \<and> (any \<longrightarrow> Net s v = Net s r)" if "(r, v) \<in> (linked any s)\<^sup>*" for v
    using that
  proof induction
    case (step u v)
    have uv: "(u, v) \<in> walk any (Net s r) s" using step.hyps(2) step.IH by (auto simp: walk_def linked_def)
    have "u \<notin> V" using step.IH d by blast
    then have "v \<notin> V" using V step.hyps unfolding undisturbed_def by blast
    moreover have "v \<in> insert r V \<union> set vs" using uv vs(5) step.IH by blast
    ultimately have "v \<in> set vs" using vs(3) by blast
    then show ?case using step.IH step.hyps(2) by (auto simp: linked_def)
  qed (simp add: vs(3))
  then have "set vs = (linked any s)\<^sup>* `` {r}" using sub by blast
  moreover have "insert r V \<union> set vs = V \<union> set vs" using vs(3) by auto
  ultimately show ?thesis using that vs(1,2) d by simp
qed

lemma search_roots_classes:
  assumes cl: "links_closed s" and sy: "sym (linked any s)"
    and R: "set R \<subseteq> set (s_items s)" "\<And>r. r \<in> set R \<Longrightarrow> c_valid (s_itm s r)" "undisturbed any s (set R) V"
  shows "\<exists>cls. search_roots any R (wv V s) = Some (cls, wv (V \<union> (\<Union>k\<in>set cls. set (k_items k))) s) \<and>
    (\<forall>k\<in>set cls. \<exists>r\<in>set R. set (k_items k) = (linked any s)\<^sup>* `` {r} \<and> k = cluster_of s (k_items k)) \<and>
    distinct (concat (map k_items cls)) \<and> set (concat (map k_items cls)) \<inter> V = {} \<and>
    set R \<subseteq> V \<union> set (concat (map k_items cls))"
  using R
proof (induction R arbitrary: V)
  case (Cons r R)
  have tail: "undisturbed any s (set R) V" using Cons.prems(3) by (auto simp: undisturbed_def)
  show ?case
  proof (cases "r \<in> V")
    case True
    obtain cls where cls: "search_roots any R (wv V s) = Some (cls, wv (V \<union> (\<Union>k\<in>set cls. set (k_items k))) s)"
      "\<forall>k\<in>set cls. \<exists>r\<in>set R. set (k_items k) = (linked any s)\<^sup>* `` {r} \<and> k = cluster_of s (k_items k)"
      "distinct (concat (map k_items cls))" "set (concat (map k_items cls)) \<inter> V = {}"
      "set R \<subseteq> V \<union> set (concat (map k_items cls))"
      using Cons.IH [OF _ _ tail] Cons.prems(1,2) by fastforce
    then show ?thesis using True by (intro exI [of _ cls]) auto
  next
    case False
    have und: "undisturbed any s {r} V" using Cons.prems(3) by (auto simp: undisturbed_def)
    have rU: "r \<in> set (s_items s)" "c_valid (s_itm s r)" using Cons.prems(1,2) by simp_all
    obtain vs where vs: "search_cluster any (Net s r) [r] CN_CLUSTER_new (wv (insert r V) s) =
        Some (cluster_of s vs, wv (V \<union> set vs) s)"
      "distinct vs" "set vs = (linked any s)\<^sup>* `` {r}" "set vs \<inter> V = {}"
      using search_cluster_class [OF cl rU False und] by blast
    have vl: "u \<in> set vs \<longleftrightarrow> v \<in> set vs" if "(u, v) \<in> linked any s" for u v
      using that symD [OF sy that] unfolding vs(3) by (auto intro: rtrancl_into_rtrancl)
    have tail': "undisturbed any s (set R) (V \<union> set vs)"
      using tail vl unfolding undisturbed_def by blast
    obtain cls where cls: "search_roots any R (wv (V \<union> set vs) s) =
          Some (cls, wv (V \<union> set vs \<union> (\<Union>k\<in>set cls. set (k_items k))) s)"
      "\<forall>k\<in>set cls. \<exists>r\<in>set R. set (k_items k) = (linked any s)\<^sup>* `` {r} \<and> k = cluster_of s (k_items k)"
      "distinct (concat (map k_items cls))" "set (concat (map k_items cls)) \<inter> (V \<union> set vs) = {}"
      "set R \<subseteq> V \<union> set vs \<union> set (concat (map k_items cls))"
      using Cons.IH [OF _ _ tail'] Cons.prems(1,2) by fastforce
    have run: "search_roots any (r # R) (wv V s) =
        Some (cluster_of s vs # cls, wv (V \<union> (\<Union>k\<in>set (cluster_of s vs # cls). set (k_items k))) s)"
      using False vs(1) cls(1) by (simp add: Un_assoc)
    have "r \<in> set vs" unfolding vs(3) by simp
    moreover have "\<forall>k\<in>set (cluster_of s vs # cls).
        \<exists>r\<in>set (r # R). set (k_items k) = (linked any s)\<^sup>* `` {r} \<and> k = cluster_of s (k_items k)"
      using cls(2) vs(3) by simp
    moreover have "distinct (concat (map k_items (cluster_of s vs # cls)))"
      using cls(3,4) vs(2) by auto
    moreover have "set (concat (map k_items (cluster_of s vs # cls))) \<inter> V = {}" using cls(4) vs(4) by auto
    moreover have "set (r # R) \<subseteq> V \<union> set (concat (map k_items (cluster_of s vs # cls)))"
      using cls(5) \<open>r \<in> set vs\<close> by auto
    ultimately show ?thesis using run by blast
  qed
qed simp

end
