(* ===== verification/Conn_Inv.thy ===== *)
theory Conn_Inv
  imports Conn_Props "HOL-Library.Multiset"
begin

text \<open>
  The invariant of the connectivity: the items of the list have numbers given out before, their lists of
  connected items are sorted, stay within the list and are mutual; the index has one entry for each item;
  invalid items wait for their removal only when the list says so; and the map leads from every board item
  to its valid items. Every operation keeps it.
\<close>

subsection \<open>Lists of connected items\<close>

lemma connect_list_Cons:
  "connect_list b (x # xs) =
    (if x < b then x # connect_list b xs else if x = b then x # xs else b # x # xs)"
  by (auto simp: connect_list_def lower_bound_def Let_def vec_insert_def)

lemma connect_list_Nil: "connect_list b [] = [b]"
  by (simp add: connect_list_def lower_bound_def vec_insert_def)

lemma set_connect_list: "set (connect_list b xs) = insert b (set xs)"
  by (induction xs) (auto simp: connect_list_Cons connect_list_Nil)

lemma sorted_connect_list: "sorted_wrt (<) xs \<Longrightarrow> sorted_wrt (<) (connect_list b xs)"
  by (induction xs) (auto simp: connect_list_Cons connect_list_Nil set_connect_list)

subsection \<open>The invariant\<close>

abbreviation its :: "CN_STATE \<Rightarrow> nat set" where "its s \<equiv> set (s_items s)"

abbreviation valid :: "CN_STATE \<Rightarrow> nat \<Rightarrow> bool" where "valid s p \<equiv> c_valid (s_itm s p)"

abbreviation par :: "CN_STATE \<Rightarrow> nat \<Rightarrow> nat" where "par s p \<equiv> c_parent (s_itm s p)"

definition links_inv :: "CN_STATE \<Rightarrow> bool" where
  "links_inv s \<longleftrightarrow> distinct (s_items s) \<and> mset (map fst (s_index s)) = mset (s_items s) \<and>
    (\<forall>p\<in>its s. p < s_newItem s \<and> sorted_wrt (<) (conn s p) \<and> set (conn s p) \<subseteq> its s) \<and>
    (\<forall>p\<in>its s. \<forall>q\<in>its s. q \<in> set (conn s p) \<longrightarrow> p \<in> set (conn s q))"

definition map_inv :: "nat set \<Rightarrow> CN_STATE \<Rightarrow> bool" where
  "map_inv E s \<longleftrightarrow>
    (\<forall>p\<in>its s. valid s p \<longrightarrow> p \<in> E \<or> (\<exists>l. s_itemMap s (par s p) = Some l \<and> p \<in> set l))"

definition flag_inv :: "CN_STATE \<Rightarrow> bool" where
  "flag_inv s \<longleftrightarrow> s_hasInvalid s \<or> (\<forall>p\<in>its s. valid s p)"

definition CN_inv :: "CN_STATE \<Rightarrow> bool" where
  "CN_inv s \<longleftrightarrow> links_inv s \<and> map_inv {} s \<and> flag_inv s"

definition same_links :: "CN_STATE \<Rightarrow> CN_STATE \<Rightarrow> bool" where
  "same_links s s' \<longleftrightarrow> s_items s' = s_items s \<and> s_newItem s' = s_newItem s \<and>
    s_hasInvalid s' = s_hasInvalid s \<and> map fst (s_index s') = map fst (s_index s) \<and>
    s_itemMap s' = s_itemMap s \<and>
    (\<forall>p. conn s' p = conn s p \<and> valid s' p = valid s p \<and> par s' p = par s p)"

lemma same_links_refl [simp]: "same_links s s"
  by (simp add: same_links_def)

lemma same_links_trans [trans]: "same_links s s' \<Longrightarrow> same_links s' s'' \<Longrightarrow> same_links s s''"
  by (simp add: same_links_def)

lemma same_links_foldl: "(\<And>s x. same_links s (f s x)) \<Longrightarrow> same_links s (foldl f s xs)"
  by (induction xs arbitrary: s) (simp, metis foldl_Cons same_links_trans)

lemma same_links_inv:
  assumes "same_links s s'"
  shows "links_inv s' = links_inv s" "map_inv E s' = map_inv E s" "flag_inv s' = flag_inv s" "CN_inv s' = CN_inv s"
  using assms unfolding CN_inv_def same_links_def links_inv_def map_inv_def flag_inv_def by auto

lemma same_links_upd_item:
  "(\<And>c. c_connected (f c) = c_connected c \<and> c_valid (f c) = c_valid c \<and> c_parent (f c) = c_parent c) \<Longrightarrow>
    same_links s (upd_item p f s)"
  by (simp add: same_links_def upd_item_def)

lemma same_links_ops [simp]:
  "same_links s (SetLayers p lr s)" "same_links s (SetLayer p l s)" "same_links s (SetVisited v p s)"
  "same_links s (SetItemDirty v p s)" "same_links s (snd (item_BBox p s))" "same_links s (upd_anchor a g s)"
  "same_links s (MarkNetAsDirty n s)" "same_links s (SetNetCode n b s)" "same_links s (list_SetDirty d s)"
  "same_links s (AddAnchor p pt s)"
  by (simp_all add: SetLayers_def SetLayer_def SetVisited_def SetItemDirty_def item_BBox_def Let_def
      same_links_upd_item upd_anchor_def MarkNetAsDirty_def SetNetCode_def list_SetDirty_def)
    (simp_all add: same_links_def AddAnchor_def upd_item_def)

lemma same_links_wv [simp]: "same_links s (wv V s)"
  by (simp add: same_links_def)

lemma same_links_mark [simp]: "same_links s (markItemNetAsDirty x s)"
  by (simp add: markItemNetAsDirty_def Let_def same_links_foldl)

lemma same_links_delete [simp]: "same_links s (delete_item p s)"
  by (simp add: delete_item_def same_links_foldl)

lemma same_links_clear [simp]: "same_links s (list_ClearDirtyFlags s)"
proof -
  have "same_links s (foldl (\<lambda>s p. SetItemDirty False p s) s (s_items s))" by (rule same_links_foldl) simp
  then show ?thesis unfolding list_ClearDirtyFlags_def by (rule same_links_trans) simp
qed

subsection \<open>Searching for connections\<close>

lemma links_inv_D:
  assumes "links_inv s"
  shows "distinct (s_items s)" "mset (map fst (s_index s)) = mset (s_items s)"
    "\<And>p. p \<in> its s \<Longrightarrow> p < s_newItem s" "\<And>p. p \<in> its s \<Longrightarrow> sorted_wrt (<) (conn s p)"
    "\<And>p q. p \<in> its s \<Longrightarrow> q \<in> set (conn s p) \<Longrightarrow> q \<in> its s"
    "\<And>p q. p \<in> its s \<Longrightarrow> q \<in> set (conn s p) \<Longrightarrow> p \<in> set (conn s q)"
  using assms unfolding links_inv_def by (blast+)

lemma links_inv_closed: "links_inv s \<Longrightarrow> links_closed s"
  by (auto simp: links_inv_def links_closed_def)

lemma sym_linked: "links_inv s \<Longrightarrow> sym (linked any s)"
  unfolding sym_def linked_def using links_inv_D(6) by fastforce

lemma connect_both_frame [simp]:
  "s_items (connect_both a b s) = s_items s" "s_newItem (connect_both a b s) = s_newItem s"
  "s_hasInvalid (connect_both a b s) = s_hasInvalid s" "s_index (connect_both a b s) = s_index s"
  "s_itemMap (connect_both a b s) = s_itemMap s" "valid (connect_both a b s) p = valid s p"
  "par (connect_both a b s) p = par s p" "s_brd (connect_both a b s) = s_brd s"
  "s_dirtyNets (connect_both a b s) = s_dirtyNets s" "s_dirty (connect_both a b s) = s_dirty s"
  by (simp_all add: connect_both_def Connect_def upd_item_def)

lemma conn_connect_both:
  "a \<noteq> b \<Longrightarrow> conn (connect_both a b s) p =
    (if p = a then connect_list b (conn s a) else if p = b then connect_list a (conn s b) else conn s p)"
  by (simp add: connect_both_def Connect_def upd_item_def)

lemma links_inv_connect:
  assumes inv: "links_inv s" and ab: "a \<in> its s" "b \<in> its s" "a \<noteq> b"
  shows "links_inv (connect_both a b s)"
  unfolding links_inv_def
proof (intro conjI ballI impI)
  note D = links_inv_D [OF inv]
  show "distinct (s_items (connect_both a b s))" using D(1) by simp
  show "mset (map fst (s_index (connect_both a b s))) = mset (s_items (connect_both a b s))" using D(2) by simp
  fix p assume p: "p \<in> its (connect_both a b s)"
  show "p < s_newItem (connect_both a b s)" using p D(3) by simp
  show "sorted_wrt (<) (conn (connect_both a b s) p)"
    using p D(4) ab by (simp add: conn_connect_both sorted_connect_list)
  show "set (conn (connect_both a b s) p) \<subseteq> its (connect_both a b s)"
    using p D(5) ab by (auto simp: conn_connect_both set_connect_list)
  fix q assume "q \<in> its (connect_both a b s)" "q \<in> set (conn (connect_both a b s) p)"
  moreover have "q \<in> set (conn s p) \<Longrightarrow> p \<in> set (conn s q)" using D(6) [of p q] p by simp
  ultimately show "p \<in> set (conn (connect_both a b s) q)"
    using ab(3) by (auto simp: conn_connect_both set_connect_list split: if_splits)
qed

text \<open>A visit changes nothing the invariant speaks of, or connects the two items.\<close>

abbreviation boxed :: "nat \<Rightarrow> nat \<Rightarrow> CN_STATE \<Rightarrow> CN_STATE" where
  "boxed m q s \<equiv> snd (item_BBox q (snd (item_BBox m s)))"

lemma same_links_boxed [simp]: "same_links s (boxed m q s)"
  by (rule same_links_trans [of _ "snd (item_BBox m s)"]) simp_all

lemma checkZoneZone_if:
  "checkZoneZoneConnection G a b s =
    (if zone_zone_touch G (boxed a b s) a (fst (item_BBox a s)) b (fst (item_BBox b (snd (item_BBox a s))))
     then connect_both a b (boxed a b s) else boxed a b s)"
  unfolding checkZoneZoneConnection_def Let_def by (simp split: prod.split)

lemma visit_forms:
  assumes "P s" "P (boxed m q s)"
    "may_connect s m q \<Longrightarrow> P (connect_both m q s)" "may_connect s m q \<Longrightarrow> P (connect_both q m s)"
    "may_connect s m q \<Longrightarrow> P (connect_both m q (boxed m q s))"
  shows "P (CN_VISITOR_visit G m q s)"
proof -
  have ifP: "(c \<Longrightarrow> P a) \<Longrightarrow> (\<not> c \<Longrightarrow> P b) \<Longrightarrow> P (if c then a else b)" for c a b by simp
  show ?thesis
    unfolding CN_VISITOR_visit_def Let_def checkZoneZone_if checkZoneItemConnection_def
    by (intro ifP) (rule assms(1,2) | rule assms(3-5), simp only: not_not)+
qed

lemma visit_inv:
  assumes inv: "links_inv s" and mq: "m \<in> its s" "q \<in> its s"
  shows "links_inv (CN_VISITOR_visit G m q s) \<and> s_items (CN_VISITOR_visit G m q s) = s_items s"
proof -
  have keep: "links_inv s' \<and> s_items s' = s_items s" if "same_links s s'" for s'
    using inv that same_links_inv(1) [OF that] by (simp add: same_links_def)
  have ne: "m \<noteq> q" if "may_connect s m q" using that by (auto simp: may_connect_def)
  have b: "links_inv (boxed m q s) \<and> s_items (boxed m q s) = s_items s" by (rule keep) simp
  show ?thesis
    by (rule visit_forms) (use inv mq ne b links_inv_connect in simp_all)
qed

text \<open>
  What a search for connections leaves alone: the items and what they are, the map, the nets.
\<close>

definition same_items :: "CN_STATE \<Rightarrow> CN_STATE \<Rightarrow> bool" where
  "same_items s s' \<longleftrightarrow> s_items s' = s_items s \<and> s_newItem s' = s_newItem s \<and>
    s_hasInvalid s' = s_hasInvalid s \<and> s_itemMap s' = s_itemMap s \<and> s_brd s' = s_brd s \<and>
    s_dirtyNets s' = s_dirtyNets s \<and> map fst (s_index s') = map fst (s_index s) \<and>
    (\<forall>p. valid s' p = valid s p \<and> par s' p = par s p \<and> c_dirty (s_itm s' p) = c_dirty (s_itm s p) \<and>
      c_canChangeNet (s_itm s' p) = c_canChangeNet (s_itm s p) \<and> c_zone (s_itm s' p) = c_zone (s_itm s p) \<and>
      c_visited (s_itm s' p) = c_visited (s_itm s p))"

lemma same_items_refl [simp]: "same_items s s"
  by (simp add: same_items_def)

lemma same_items_trans: "same_items s s' \<Longrightarrow> same_items s' s'' \<Longrightarrow> same_items s s''"
  by (simp add: same_items_def)

lemma same_items_foldl: "(\<And>s x. same_items s (f s x)) \<Longrightarrow> same_items s (foldl f s xs)"
  by (induction xs arbitrary: s) (simp, metis foldl_Cons same_items_trans)

lemma same_items_inv: "same_items s s' \<Longrightarrow> map_inv E s' = map_inv E s" "same_items s s' \<Longrightarrow> flag_inv s' = flag_inv s"
  by (auto simp: same_items_def map_inv_def flag_inv_def)

lemma same_items_Net: "same_items s s' \<Longrightarrow> Net s' p = Net s p"
  by (simp add: same_items_def Net_def)

lemma same_items_BBox [simp]: "same_items s (snd (item_BBox p s))"
  by (simp add: same_items_def item_BBox_def Let_def upd_item_def)

lemma same_items_connect: "same_items s s' \<Longrightarrow> same_items s (connect_both a b s')"
  by (simp add: same_items_def connect_both_def Connect_def upd_item_def)

lemma same_items_visit [simp]: "same_items s (CN_VISITOR_visit G m q s)"
proof -
  have b: "same_items s (boxed m q s)" by (rule same_items_trans [of _ "snd (item_BBox m s)"]) simp_all
  show ?thesis by (rule visit_forms) (simp_all add: b same_items_connect)
qed

lemma FindNearby_eq:
  "FindNearby G p s =
    foldl (\<lambda>s q. CN_VISITOR_visit G p q s) (snd (item_BBox p s))
      (rt_Query (fst (item_BBox p s)) (c_layers (s_itm s p)) s)"
  by (simp add: FindNearby_def case_prod_beta item_BBox_def Let_def upd_item_def rt_Query_def)

lemma same_items_FindNearby [simp]: "same_items s (FindNearby G p s)"
  unfolding FindNearby_eq by (rule same_items_trans [OF same_items_BBox same_items_foldl]) simp

lemma visits_inv:
  assumes "links_inv s" "m \<in> its s" "set qs \<subseteq> its s"
  shows "links_inv (foldl (\<lambda>s q. CN_VISITOR_visit G m q s) s qs) \<and>
    s_items (foldl (\<lambda>s q. CN_VISITOR_visit G m q s) s qs) = s_items s"
  using assms
proof (induction qs arbitrary: s)
  case (Cons q qs)
  have "links_inv (CN_VISITOR_visit G m q s) \<and> s_items (CN_VISITOR_visit G m q s) = s_items s"
    using Cons.prems by (intro visit_inv) simp_all
  then show ?case using Cons.IH [of "CN_VISITOR_visit G m q s"] Cons.prems by simp
qed simp

lemma rt_Query_items: "links_inv s \<Longrightarrow> set (rt_Query b lr s) \<subseteq> its s"
proof -
  assume "links_inv s"
  from links_inv_D(2) [OF this] have "fst ` set (s_index s) = its s" by (metis set_mset_mset set_map)
  moreover have "set (rt_Query b lr s) \<subseteq> fst ` set (s_index s)" by (auto simp: rt_Query_def)
  ultimately show ?thesis by simp
qed

lemma FindNearby_inv:
  assumes "links_inv s" "p \<in> its s"
  shows "links_inv (FindNearby G p s)"
proof -
  have b: "same_links s (snd (item_BBox p s))" by simp
  have "links_inv (snd (item_BBox p s))" "s_items (snd (item_BBox p s)) = s_items s"
    using assms(1) same_links_inv(1) [OF b] b by (simp_all add: same_links_def)
  then show ?thesis
    unfolding FindNearby_eq using visits_inv [of _ p] rt_Query_items [OF assms(1)] assms(2) by auto
qed

lemma FindNearby_all_inv:
  assumes "links_inv s" "set ps \<subseteq> its s"
  shows "links_inv (foldl (\<lambda>s p. FindNearby G p s) s ps)"
  using assms
proof (induction ps arbitrary: s)
  case (Cons p ps)
  have "s_items (FindNearby G p s) = s_items s" using same_items_FindNearby by (simp add: same_items_def)
  then show ?case using Cons FindNearby_inv by simp
qed simp

subsection \<open>Removing invalid items\<close>

lemma remove_first_None: "remove_first P xs = None \<longleftrightarrow> (\<forall>e\<in>set xs. \<not> P e)"
  by (induction xs) auto

lemma remove_first_Some:
  "remove_first P xs = Some ys \<Longrightarrow> \<exists>as e bs. xs = as @ e # bs \<and> P e \<and> ys = as @ bs"
proof (induction xs arbitrary: ys)
  case (Cons x xs)
  show ?case
  proof (cases "P x")
    case True
    then show ?thesis using Cons.prems by (intro exI [of _ "[]"]) auto
  next
    case False
    then obtain zs where zs: "remove_first P xs = Some zs" "ys = x # zs" using Cons.prems by auto
    obtain as e bs where "xs = as @ e # bs" "P e" "zs = as @ bs" using Cons.IH [OF zs(1)] by blast
    then show ?thesis using zs(2) by (intro exI [of _ "x # as"]) auto
  qed
qed simp

lemma remove_first_ids:
  assumes P: "\<And>e. P e \<Longrightarrow> fst e = p" and d: "distinct (map fst xs)" and r: "remove_first P xs = Some ys"
  shows "map fst ys = remove1 p (map fst xs)"
proof -
  obtain as e bs where "xs = as @ e # bs" "P e" "ys = as @ bs" using remove_first_Some [OF r] by blast
  then show ?thesis using P [of e] d by (auto simp: remove1_append)
qed

lemma rt_Remove_ids:
  assumes "distinct (map fst (s_index s))"
  shows "map fst (s_index (rt_Remove p s)) = remove1 p (map fst (s_index s))"
proof -
  obtain b s' where bs: "item_BBox p s = (b, s')" by fastforce
  have ix: "s_index s' = s_index s" using bs by (auto simp: item_BBox_def Let_def upd_item_def)
  let ?P = "\<lambda>e. fst e = p \<and> rt_overlaps (c_layers (s_itm s' p)) b e"
  show ?thesis
  proof (cases "remove_first ?P (s_index s)")
    case (Some ys)
    then have "map fst ys = remove1 p (map fst (s_index s))" by (rule remove_first_ids [OF _ assms, rotated]) simp
    then show ?thesis using Some by (simp add: rt_Remove_def bs ix)
  next
    case None
    note outer = this
    show ?thesis
    proof (cases "remove_first (\<lambda>e. fst e = p) (s_index s)")
      case (Some ys)
      then have "map fst ys = remove1 p (map fst (s_index s))" by (rule remove_first_ids [OF _ assms, rotated])
      then show ?thesis using Some outer by (simp add: rt_Remove_def bs ix)
    next
      case None
      then have "p \<notin> set (map fst (s_index s))" by (auto simp: remove_first_None)
      then show ?thesis using None outer by (simp add: rt_Remove_def bs ix remove1_idem)
    qed
  qed
qed

lemma rt_Remove_frame [simp]:
  "s_items (rt_Remove p s) = s_items s" "s_newItem (rt_Remove p s) = s_newItem s"
  "s_itemMap (rt_Remove p s) = s_itemMap s" "s_brd (rt_Remove p s) = s_brd s"
  "s_dirtyNets (rt_Remove p s) = s_dirtyNets s" "s_hasInvalid (rt_Remove p s) = s_hasInvalid s"
  "conn (rt_Remove p s) q = conn s q" "valid (rt_Remove p s) q = valid s q" "par (rt_Remove p s) q = par s q"
  by (simp_all add: rt_Remove_def item_BBox_def Let_def upd_item_def split: option.split)

lemma rt_Remove_all_ids:
  "distinct (map fst (s_index s)) \<Longrightarrow>
    mset (map fst (s_index (foldl (\<lambda>s p. rt_Remove p s) s ps))) = mset (map fst (s_index s)) - mset ps"
proof (induction ps arbitrary: s)
  case (Cons p ps)
  have "map fst (s_index (rt_Remove p s)) = remove1 p (map fst (s_index s))" using Cons.prems by (rule rt_Remove_ids)
  moreover have "mset (remove1 p (map fst (s_index s))) = mset (map fst (s_index s)) - {#p#}" by simp
  ultimately have "mset (map fst (s_index (rt_Remove p s))) = mset (map fst (s_index s)) - {#p#}"
    "distinct (map fst (s_index (rt_Remove p s)))" using Cons.prems by (simp_all only: distinct_remove1)
  then show ?case using Cons.IH [of "rt_Remove p s"] by simp
qed simp

lemma RemoveInvalidRefs_frame [simp]:
  "s_items (RemoveInvalidRefs p s) = s_items s" "s_newItem (RemoveInvalidRefs p s) = s_newItem s"
  "s_itemMap (RemoveInvalidRefs p s) = s_itemMap s" "s_index (RemoveInvalidRefs p s) = s_index s"
  "s_brd (RemoveInvalidRefs p s) = s_brd s" "s_dirtyNets (RemoveInvalidRefs p s) = s_dirtyNets s"
  "valid (RemoveInvalidRefs p s) q = valid s q" "par (RemoveInvalidRefs p s) q = par s q"
  "conn (RemoveInvalidRefs p s) q = (if q = p then filter (valid s) (conn s q) else conn s q)"
  by (simp_all add: RemoveInvalidRefs_def upd_item_def)

lemma foldl_frame: "(\<And>s p. g (f s p) = g s) \<Longrightarrow> g (foldl f s ps) = g s"
  by (induction ps arbitrary: s) simp_all

lemma conn_RemoveInvalidRefs:
  "conn (foldl (\<lambda>s p. RemoveInvalidRefs p s) s ps) q = (if q \<in> set ps then filter (valid s) (conn s q) else conn s q)"
proof (induction ps arbitrary: s)
  case (Cons p ps)
  have "valid (RemoveInvalidRefs p s) = valid s" by (rule ext) simp
  then show ?case using Cons.IH [of "RemoveInvalidRefs p s"] by (auto simp: filter_id_conv)
qed simp

lemma foldl_rt_Remove_frame [simp]:
  "s_items (foldl (\<lambda>s p. rt_Remove p s) s ps) = s_items s" "s_newItem (foldl (\<lambda>s p. rt_Remove p s) s ps) = s_newItem s"
  "s_itemMap (foldl (\<lambda>s p. rt_Remove p s) s ps) = s_itemMap s" "s_brd (foldl (\<lambda>s p. rt_Remove p s) s ps) = s_brd s"
  "s_dirtyNets (foldl (\<lambda>s p. rt_Remove p s) s ps) = s_dirtyNets s"
  "conn (foldl (\<lambda>s p. rt_Remove p s) s ps) q = conn s q" "valid (foldl (\<lambda>s p. rt_Remove p s) s ps) q = valid s q"
  "par (foldl (\<lambda>s p. rt_Remove p s) s ps) q = par s q"
  by (induction ps arbitrary: s) simp_all

lemma foldl_RemoveInvalidRefs_frame [simp]:
  "s_items (foldl (\<lambda>s p. RemoveInvalidRefs p s) s ps) = s_items s"
  "s_newItem (foldl (\<lambda>s p. RemoveInvalidRefs p s) s ps) = s_newItem s"
  "s_itemMap (foldl (\<lambda>s p. RemoveInvalidRefs p s) s ps) = s_itemMap s"
  "s_brd (foldl (\<lambda>s p. RemoveInvalidRefs p s) s ps) = s_brd s"
  "s_dirtyNets (foldl (\<lambda>s p. RemoveInvalidRefs p s) s ps) = s_dirtyNets s"
  "s_index (foldl (\<lambda>s p. RemoveInvalidRefs p s) s ps) = s_index s"
  "valid (foldl (\<lambda>s p. RemoveInvalidRefs p s) s ps) q = valid s q"
  "par (foldl (\<lambda>s p. RemoveInvalidRefs p s) s ps) q = par s q"
  by (induction ps arbitrary: s) simp_all

definition cleaned :: "CN_STATE \<Rightarrow> CN_STATE \<Rightarrow> bool" where
  "cleaned s s' \<longleftrightarrow> s_items s' = filter (valid s) (s_items s) \<and> s_newItem s' = s_newItem s \<and>
    s_itemMap s' = s_itemMap s \<and> s_brd s' = s_brd s \<and> s_dirtyNets s' = s_dirtyNets s \<and>
    mset (map fst (s_index s')) = mset (s_items s') \<and>
    (\<forall>p. valid s' p = valid s p \<and> par s' p = par s p) \<and>
    (\<forall>p\<in>its s'. conn s' p = filter (valid s) (conn s p))"

lemma cleaned_RemoveInvalidItems:
  assumes inv: "links_inv s" and fl: "flag_inv s"
  shows "cleaned s (snd (RemoveInvalidItems s))" "flag_inv (snd (RemoveInvalidItems s))"
proof -
  note D = links_inv_D [OF inv]
  have d: "distinct (map fst (s_index s))" using D(1,2) by (metis mset_eq_imp_distinct_iff)
  have m: "mset (s_items s) - mset (filter (\<lambda>p. \<not> valid s p) (s_items s)) = mset (filter (valid s) (s_items s))"
    by (metis add_diff_cancel_right' mset_filter multiset_partition)
  show "cleaned s (snd (RemoveInvalidItems s))"
  proof (cases "s_hasInvalid s")
    case True
    then show ?thesis
      using rt_Remove_all_ids d D(2) m
      by (simp add: cleaned_def RemoveInvalidItems_def Let_def list_SetHasInvalid_def conn_RemoveInvalidRefs)
  next
    case False
    then have v: "\<forall>p\<in>its s. valid s p" using fl by (simp add: flag_inv_def)
    then have "filter (valid s) (s_items s) = s_items s" by (simp add: filter_id_conv)
    moreover have "filter (valid s) (conn s p) = conn s p" if "p \<in> its s" for p
      using v D(5) [OF that] by (simp add: filter_id_conv)
    ultimately show ?thesis using False D(2) by (simp add: cleaned_def RemoveInvalidItems_def)
  qed
  show "flag_inv (snd (RemoveInvalidItems s))"
    using fl by (cases "s_hasInvalid s") (auto simp: RemoveInvalidItems_def Let_def list_SetHasInvalid_def flag_inv_def)
qed

lemma cleaned_inv:
  assumes c: "cleaned s s'" and inv: "links_inv s"
  shows "links_inv s'" "map_inv E s \<Longrightarrow> map_inv E s'"
proof -
  note D = links_inv_D [OF inv]
  have it: "its s' = {p \<in> its s. valid s p}" using c by (auto simp: cleaned_def)
  have cn: "conn s' p = filter (valid s) (conn s p)" if "p \<in> its s'" for p using c that by (simp add: cleaned_def)
  show "links_inv s'"
    unfolding links_inv_def
  proof (intro conjI ballI impI)
    show "distinct (s_items s')" "mset (map fst (s_index s')) = mset (s_items s')"
      using c D(1) by (simp_all add: cleaned_def)
    fix p assume p: "p \<in> its s'"
    show "p < s_newItem s'" using p it D(3) c by (simp add: cleaned_def)
    show "sorted_wrt (<) (conn s' p)" using cn [OF p] D(4) p it by (simp add: sorted_wrt_filter)
    show "set (conn s' p) \<subseteq> its s'" using cn [OF p] D(5) [of p] p it by auto
    fix q assume q: "q \<in> its s'" "q \<in> set (conn s' p)"
    then show "p \<in> set (conn s' q)" using cn [OF p] cn [OF q(1)] D(6) [of p q] p it by simp
  qed
  show "map_inv E s \<Longrightarrow> map_inv E s'" using c it by (simp add: cleaned_def map_inv_def)
qed

definition searched :: "GEOMETRY \<Rightarrow> CN_STATE \<Rightarrow> CN_STATE" where
  "searched G s =
    (let s' = foldl (\<lambda>s p. delete_item p s) (snd (RemoveInvalidItems s)) (fst (RemoveInvalidItems s))
     in if s_dirty s' then foldl (\<lambda>s p. FindNearby G p s) s' (filter (\<lambda>p. c_dirty (s_itm s' p)) (s_items s')) else s')"

lemma searchConnections_eq: "searchConnections G s = list_ClearDirtyFlags (searched G s)"
  by (simp add: searchConnections_def searched_def Let_def case_prod_beta)

lemma same_links_delete_all: "same_links s (foldl (\<lambda>s p. delete_item p s) s ps)"
  by (rule same_links_foldl) simp

theorem searchConnections_inv: "CN_inv s \<Longrightarrow> CN_inv (searchConnections G s)"
proof -
  assume inv: "CN_inv s"
  define s1 where "s1 = snd (RemoveInvalidItems s)"
  define s2 where "s2 = foldl (\<lambda>s p. delete_item p s) s1 (fst (RemoveInvalidItems s))"
  have "CN_inv s1"
    using inv cleaned_RemoveInvalidItems [of s] cleaned_inv [of s s1] unfolding s1_def CN_inv_def by blast
  then have 2: "CN_inv s2" using same_links_inv(4) [OF same_links_delete_all] unfolding s2_def by simp
  have "CN_inv (foldl (\<lambda>s p. FindNearby G p s) s2 (filter (\<lambda>p. c_dirty (s_itm s2 p)) (s_items s2)))" (is "CN_inv ?s3")
  proof -
    have "same_items s2 ?s3" by (rule same_items_foldl) simp
    moreover have "links_inv ?s3" using 2 by (intro FindNearby_all_inv) (auto simp: CN_inv_def)
    ultimately show ?thesis using 2 same_items_inv unfolding CN_inv_def by simp
  qed
  then have "CN_inv (searched G s)" using 2 unfolding searched_def s1_def s2_def Let_def by simp
  then show ?thesis unfolding searchConnections_eq using same_links_inv(4) [OF same_links_clear] by simp
qed

subsection \<open>Adding items\<close>

text \<open>The state after a new item \<open>p\<close> of board item \<open>x\<close> was put into the list.\<close>

definition added :: "nat \<Rightarrow> nat \<Rightarrow> CN_STATE \<Rightarrow> CN_STATE \<Rightarrow> bool" where
  "added x p s s' \<longleftrightarrow> p \<notin> its s \<and> p < s_newItem s' \<and> s_newItem s \<le> s_newItem s' \<and>
    s_items s' = s_items s @ [p] \<and> map fst (s_index s') = map fst (s_index s) @ [p] \<and>
    s_hasInvalid s' = s_hasInvalid s \<and> s_itemMap s' = s_itemMap s \<and>
    s_brd s' = s_brd s \<and> s_dirtyNets s' = s_dirtyNets s \<and>
    conn s' p = [] \<and> valid s' p \<and> par s' p = x \<and>
    (\<forall>q\<in>its s. conn s' q = conn s q \<and> valid s' q = valid s q \<and> par s' q = par s q)"

lemma AddAnchor_frame [simp]:
  "s_items (AddAnchor p pt s) = s_items s" "s_newItem (AddAnchor p pt s) = s_newItem s"
  "s_itemMap (AddAnchor p pt s) = s_itemMap s" "s_brd (AddAnchor p pt s) = s_brd s"
  "s_dirtyNets (AddAnchor p pt s) = s_dirtyNets s" "s_index (AddAnchor p pt s) = s_index s"
  "s_hasInvalid (AddAnchor p pt s) = s_hasInvalid s"
  "valid (AddAnchor p pt s) q = valid s q" "par (AddAnchor p pt s) q = par s q" "conn (AddAnchor p pt s) q = conn s q"
  by (simp_all add: AddAnchor_def upd_item_def)

lemma AddAnchors_frame [simp]:
  "s_items (foldl (\<lambda>s pt. AddAnchor p pt s) s pts) = s_items s"
  "s_newItem (foldl (\<lambda>s pt. AddAnchor p pt s) s pts) = s_newItem s"
  "s_itemMap (foldl (\<lambda>s pt. AddAnchor p pt s) s pts) = s_itemMap s"
  "s_brd (foldl (\<lambda>s pt. AddAnchor p pt s) s pts) = s_brd s"
  "s_dirtyNets (foldl (\<lambda>s pt. AddAnchor p pt s) s pts) = s_dirtyNets s"
  "s_index (foldl (\<lambda>s pt. AddAnchor p pt s) s pts) = s_index s"
  "s_hasInvalid (foldl (\<lambda>s pt. AddAnchor p pt s) s pts) = s_hasInvalid s"
  "valid (foldl (\<lambda>s pt. AddAnchor p pt s) s pts) q = valid s q"
  "par (foldl (\<lambda>s pt. AddAnchor p pt s) s pts) q = par s q"
  "conn (foldl (\<lambda>s pt. AddAnchor p pt s) s pts) q = conn s q"
  by (induction pts arbitrary: s) simp_all

lemmas adding_defs = new_item_def list_push_def list_SetDirty_def rt_Insert_def item_BBox_def Let_def
  SetLayers_def SetLayer_def upd_item_def CN_ITEM_new_def CN_ZONE_LAYER_new_def

lemma fresh_item: "links_inv s \<Longrightarrow> s_newItem s \<notin> its s"
  using links_inv_D(3) by blast

lemma added_track: "links_inv s \<Longrightarrow> added x (s_newItem s) s (snd (list_Add_track x s))"
  using fresh_item [of s] by (auto simp: added_def list_Add_track_def adding_defs)

lemma added_via: "links_inv s \<Longrightarrow> added x (s_newItem s) s (snd (list_Add_via x s))"
  using fresh_item [of s] by (auto simp: added_def list_Add_via_def adding_defs)

lemma added_shape: "links_inv s \<Longrightarrow> added x (s_newItem s) s (snd (list_Add_shape x s))"
  using fresh_item [of s] by (auto simp: added_def list_Add_shape_def adding_defs)

lemma added_pad: "links_inv s \<Longrightarrow> b_onCopper (s_brd s x) \<Longrightarrow> added x (s_newItem s) s (snd (list_Add_pad x s))"
  using fresh_item [of s] by (auto simp: added_def list_Add_pad_def adding_defs split: option.splits)

lemma fst_list_Add:
  "fst (list_Add_track x s) = Some (s_newItem s)" "fst (list_Add_via x s) = Some (s_newItem s)"
  "fst (list_Add_shape x s) = Some (s_newItem s)"
  "fst (list_Add_pad x s) = (if b_onCopper (s_brd s x) then Some (s_newItem s) else None)"
  by (simp_all add: list_Add_track_def list_Add_via_def list_Add_shape_def list_Add_pad_def new_item_def Let_def)

lemma added_links:
  assumes "added x p s s'" "links_inv s"
  shows "links_inv s'" "flag_inv s \<Longrightarrow> flag_inv s'" "map_inv E s \<Longrightarrow> map_inv (insert p E) s'"
proof -
  note D = links_inv_D [OF assms(2)]
  have A: "p \<notin> its s" "p < s_newItem s'" "s_newItem s \<le> s_newItem s'" "s_items s' = s_items s @ [p]"
    "map fst (s_index s') = map fst (s_index s) @ [p]" "conn s' p = []" "valid s' p"
    "s_itemMap s' = s_itemMap s" "s_hasInvalid s' = s_hasInvalid s"
    "\<And>q. q \<in> its s \<Longrightarrow> conn s' q = conn s q \<and> valid s' q = valid s q \<and> par s' q = par s q"
    using assms(1) unfolding added_def by blast+
  show "links_inv s'"
    unfolding links_inv_def
  proof (intro conjI ballI impI)
    show "distinct (s_items s')" using A(1,4) D(1) by simp
    show "mset (map fst (s_index s')) = mset (s_items s')" using A(4,5) D(2) by simp
    fix q assume q: "q \<in> its s'"
    show "q < s_newItem s'" using q A(2,3,4) D(3) by fastforce
    show "sorted_wrt (<) (conn s' q)" using q A(4,6,10) D(4) by fastforce
    show "set (conn s' q) \<subseteq> its s'" using q A(4,6,10) D(5) by fastforce
    fix r assume r: "r \<in> its s'" "r \<in> set (conn s' q)"
    then have "q \<in> its s" using q A(4,6) by auto
    then have "r \<in> set (conn s q)" "r \<in> its s" using r(2) A(10) D(5) by auto
    then show "q \<in> set (conn s' r)" using D(6) [OF \<open>q \<in> its s\<close>] A(10) by simp
  qed
  show "flag_inv s \<Longrightarrow> flag_inv s'" using A(4,7,9,10) by (auto simp: flag_inv_def)
  show "map_inv E s \<Longrightarrow> map_inv (insert p E) s'" using A(4,8,10) by (auto simp: map_inv_def)
qed

lemma no_valid_item:
  assumes "map_inv E s" "\<not> alreadyAdded x s" "p \<in> its s" "valid s p" "p \<notin> E"
  shows "par s p \<noteq> x"
  using assms by (auto simp: map_inv_def alreadyAdded_def split: option.splits)

lemma algo_add_inv:
  assumes inv: "CN_inv s" and new: "\<not> alreadyAdded x s"
    and add: "fst (f x s) = Some (s_newItem s) \<and> added x (s_newItem s) s (snd (f x s)) \<or> f x s = (None, s)"
  shows "CN_inv (algo_add f x s)"
proof -
  have l: "links_inv s" and m: "map_inv {} s" and fl: "flag_inv s" using inv by (simp_all add: CN_inv_def)
  define i where "i = fst (f x s)"
  define s' where "s' = snd (f x s)"
  define e where "e = (case i of None \<Rightarrow> [] | Some p \<Rightarrow> [p])"
  have eq: "algo_add f x s = s'\<lparr>s_itemMap := (s_itemMap s')(x \<mapsto> e)\<rparr>"
    by (simp add: algo_add_def case_prod_beta s'_def i_def e_def)
  have other: "par s p \<noteq> x" if "p \<in> its s" "valid s p" for p using no_valid_item [OF m new that] by simp
  show ?thesis
  proof (cases "f x s = (None, s)")
    case True
    then have "s' = s" by (simp add: s'_def)
    then show ?thesis using l m fl other unfolding eq CN_inv_def by (auto simp: links_inv_def map_inv_def flag_inv_def)
  next
    case False
    then have a: "i = Some (s_newItem s)" "added x (s_newItem s) s s'" using add by (simp_all add: i_def s'_def)
    have "links_inv s'" "flag_inv s'" using added_links [OF a(2) l] fl by simp_all
    moreover have "map_inv {} (algo_add f x s)"
    proof -
      have "p = s_newItem s \<and> par s' p = x \<or> p \<in> its s \<and> par s' p = par s p \<and> valid s p"
        if "p \<in> its s'" "valid s' p" for p using that a(2) by (auto simp: added_def)
      then show ?thesis
        using m other a unfolding eq map_inv_def by (auto simp: e_def added_def)
    qed
    ultimately show ?thesis unfolding eq CN_inv_def by (simp add: links_inv_def flag_inv_def)
  qed
qed

lemma algo_add_item_inv:
  assumes "CN_inv s" "\<not> alreadyAdded x s"
  shows "CN_inv (algo_add list_Add_track x s)" "CN_inv (algo_add list_Add_via x s)"
    "CN_inv (algo_add list_Add_shape x s)" "CN_inv (algo_add list_Add_pad x s)"
proof -
  have l: "links_inv s" using assms(1) by (simp add: CN_inv_def)
  have "list_Add_pad x s = (None, s)" if "\<not> b_onCopper (s_brd s x)" using that by (simp add: list_Add_pad_def)
  then show "CN_inv (algo_add list_Add_track x s)" "CN_inv (algo_add list_Add_via x s)"
    "CN_inv (algo_add list_Add_shape x s)" "CN_inv (algo_add list_Add_pad x s)"
    using fst_list_Add [of x s] added_track [OF l, of x] added_via [OF l, of x] added_shape [OF l, of x]
      added_pad [OF l, of x]
    by (intro algo_add_inv [OF assms]; fastforce)+
qed

lemma add_pads_inv: "CN_inv s \<Longrightarrow> CN_inv (snd (add_pads pads s))"
  by (induction pads arbitrary: s) (simp_all add: algo_add_item_inv)

text \<open>The outlines of a zone are put into the list first and linked to the zone after.\<close>

lemma list_Add_zitem_added:
  assumes "p \<notin> its s" "p < s_newItem s" "conn s p = []" "valid s p"
  shows "added (par s p) p s (list_Add_zitem p s)"
  using assms by (auto simp: added_def list_Add_zitem_def adding_defs)

lemma AddAnchors_links: "same_links s (foldl (\<lambda>s pt. AddAnchor p pt s) s pts)"
  by (rule same_links_foldl) simp

lemma new_item_frame:
  assumes "links_inv s"
  shows "links_inv (snd (new_item c s))" "map_inv E s \<Longrightarrow> map_inv E (snd (new_item c s))"
    "flag_inv s \<Longrightarrow> flag_inv (snd (new_item c s))"
proof -
  have n: "p \<noteq> s_newItem s" if "p \<in> its s" for p using that fresh_item [OF assms] by auto
  show "links_inv (snd (new_item c s))"
    using assms n links_inv_D(3) [OF assms] unfolding links_inv_def new_item_def by (auto simp: less_Suc_eq)
  show "map_inv E s \<Longrightarrow> map_inv E (snd (new_item c s))" "flag_inv s \<Longrightarrow> flag_inv (snd (new_item c s))"
    using n by (auto simp: map_inv_def flag_inv_def new_item_def)
qed

lemma outline_inv:
  assumes l: "links_inv s" "map_inv E s" "flag_inv s" and p: "p = s_newItem s"
    and s': "s' = list_Add_zitem p (foldl (\<lambda>s pt. AddAnchor p pt s) (snd (new_item (CN_ZONE_LAYER_new zone layer j) s)) pts)"
  shows "links_inv s'" "map_inv (insert p E) s'" "flag_inv s'" "s_itemMap s' = s_itemMap s" "p \<in> its s'"
    "par s' p = zone" "p < s_newItem s'" "its s \<subseteq> its s'" "\<forall>q\<in>its s. par s' q = par s q"
    "s_brd s' = s_brd s"
proof -
  let ?s1 = "snd (new_item (CN_ZONE_LAYER_new zone layer j) s)"
  let ?s2 = "foldl (\<lambda>s pt. AddAnchor p pt s) ?s1 pts"
  have pn: "p \<notin> its s" using fresh_item [OF l(1)] p by simp
  have 1: "links_inv ?s1" "map_inv E ?s1" "flag_inv ?s1" using new_item_frame l by simp_all
  have 2: "links_inv ?s2" "map_inv E ?s2" "flag_inv ?s2" using 1 same_links_inv [OF AddAnchors_links] by simp_all
  have 3: "its ?s2 = its s" "p < s_newItem ?s2" "conn ?s2 p = []" "valid ?s2 p" "par ?s2 p = zone"
    "s_itemMap ?s2 = s_itemMap s" "s_brd ?s2 = s_brd s" "\<forall>q\<in>its s. par ?s2 q = par s q"
    using p pn by (auto simp: new_item_def CN_ZONE_LAYER_new_def CN_ITEM_new_def)
  have a: "added zone p ?s2 s'" using list_Add_zitem_added [of p ?s2] 3 pn s' by simp
  show "links_inv s'" "map_inv (insert p E) s'" "flag_inv s'" using added_links [OF a 2(1)] 2 by simp_all
  show "s_itemMap s' = s_itemMap s" "p \<in> its s'" "par s' p = zone" "p < s_newItem s'" "its s \<subseteq> its s'"
    "\<forall>q\<in>its s. par s' q = par s q" "s_brd s' = s_brd s"
    using a 3 by (auto simp: added_def)
qed

lemma add_outlines_inv:
  assumes "links_inv s" "map_inv E s" "flag_inv s"
  shows "links_inv (snd (add_outlines zone layer j ptss s)) \<and>
    map_inv (E \<union> set (fst (add_outlines zone layer j ptss s))) (snd (add_outlines zone layer j ptss s)) \<and>
    flag_inv (snd (add_outlines zone layer j ptss s)) \<and>
    s_itemMap (snd (add_outlines zone layer j ptss s)) = s_itemMap s \<and>
    its s \<subseteq> its (snd (add_outlines zone layer j ptss s)) \<and>
    (\<forall>p\<in>its s. par (snd (add_outlines zone layer j ptss s)) p = par s p) \<and>
    set (fst (add_outlines zone layer j ptss s)) \<subseteq> its (snd (add_outlines zone layer j ptss s)) \<and>
    (\<forall>p\<in>set (fst (add_outlines zone layer j ptss s)). par (snd (add_outlines zone layer j ptss s)) p = zone)"
  using assms
proof (induction ptss arbitrary: j s E)
  case (Cons pts ptss)
  define p where "p = s_newItem s"
  define s' where "s' = list_Add_zitem p (foldl (\<lambda>s pt. AddAnchor p pt s) (snd (new_item (CN_ZONE_LAYER_new zone layer j) s)) pts)"
  note O = outline_inv [OF Cons.prems p_def s'_def]
  define r where "r = add_outlines zone layer (Suc j) ptss s'"
  have "new_item (CN_ZONE_LAYER_new zone layer j) s = (p, snd (new_item (CN_ZONE_LAYER_new zone layer j) s))"
    by (simp add: new_item_def p_def)
  then have eq: "add_outlines zone layer j (pts # ptss) s = (p # fst r, snd r)"
    by (simp add: s'_def r_def case_prod_beta Let_def p_def new_item_def)
  have "links_inv (snd r) \<and> map_inv (insert p E \<union> set (fst r)) (snd r) \<and> flag_inv (snd r) \<and>
    s_itemMap (snd r) = s_itemMap s' \<and> its s' \<subseteq> its (snd r) \<and> (\<forall>p\<in>its s'. par (snd r) p = par s' p) \<and>
    set (fst r) \<subseteq> its (snd r) \<and> (\<forall>p\<in>set (fst r). par (snd r) p = zone)"
    using Cons.IH [OF O(1) O(2) O(3), of "Suc j"] unfolding r_def [symmetric] by simp
  then show ?case using O(4-9) unfolding eq by (simp add: subset_iff)
qed auto

lemma Link_eq:
  "Link x p s = s\<lparr>s_itemMap := (s_itemMap s)(x \<mapsto> (case s_itemMap s x of None \<Rightarrow> [] | Some l \<Rightarrow> l) @ [p])\<rparr>"
  by (simp add: Link_def ItemEntry_def split: option.split)

lemma Link_inv:
  assumes "links_inv s" "map_inv (insert p E) s" "flag_inv s" "par s p = x"
  shows "links_inv (Link x p s)" "map_inv E (Link x p s)" "flag_inv (Link x p s)"
proof -
  show "links_inv (Link x p s)" "flag_inv (Link x p s)"
    using assms(1,3) by (simp_all add: Link_eq links_inv_def flag_inv_def)
  show "map_inv E (Link x p s)"
    using assms(2,4) by (cases "s_itemMap s x") (auto simp: Link_eq map_inv_def)
qed

lemma Links_inv:
  assumes "links_inv s" "map_inv (E \<union> set ps) s" "flag_inv s" "\<forall>p\<in>set ps. par s p = x"
  shows "links_inv (foldl (\<lambda>s p. Link x p s) s ps) \<and> map_inv E (foldl (\<lambda>s p. Link x p s) s ps) \<and>
    flag_inv (foldl (\<lambda>s p. Link x p s) s ps)"
  using assms
proof (induction ps arbitrary: s)
  case (Cons p ps)
  have "map_inv (insert p (E \<union> set ps)) s" "par s p = x" using Cons.prems by simp_all
  note L = Link_inv [OF Cons.prems(1) this(1) Cons.prems(3) this(2)]
  have "par (Link x p s) q = par s q" for q by (simp add: Link_eq)
  then show ?case using Cons.IH [OF L] Cons.prems(4) by simp
qed simp

lemma add_zone_layer_inv: "CN_inv s \<Longrightarrow> CN_inv (add_zone_layer zone layer s)"
  using add_outlines_inv [of s "{}"] Links_inv [of _ "{}"]
  by (simp add: add_zone_layer_def list_Add_zone_def case_prod_beta CN_inv_def)

lemma CN_inv_foldl: "CN_inv s \<Longrightarrow> (\<And>s x. CN_inv s \<Longrightarrow> CN_inv (f s x)) \<Longrightarrow> CN_inv (foldl f s xs)"
  by (induction xs arbitrary: s) simp_all

lemma new_entry_inv:
  assumes "CN_inv s" "\<not> alreadyAdded x s"
  shows "CN_inv (s\<lparr>s_itemMap := (s_itemMap s)(x \<mapsto> [])\<rparr>)"
proof -
  have "map_inv {} s" using assms(1) by (simp add: CN_inv_def)
  then have "par s p \<noteq> x" if "p \<in> its s" "valid s p" for p using no_valid_item that assms(2) by blast
  then show ?thesis using assms(1) by (auto simp: CN_inv_def links_inv_def map_inv_def flag_inv_def)
qed

lemma mark_inv: "CN_inv (markItemNetAsDirty x s) = CN_inv s"
  using same_links_inv(4) [OF same_links_mark] by simp

theorem algo_Add_inv: "CN_inv s \<Longrightarrow> CN_inv (snd (algo_Add x s))"
proof -
  assume inv: "CN_inv s"
  have net: "CN_inv (MarkNetAsDirty n s)" for n using inv same_links_inv(4) [of s "MarkNetAsDirty n s"] by simp
  have pads: "CN_inv (snd (add_pads ps s))" for ps using inv by (rule add_pads_inv)
  have zone: "CN_inv (foldl (\<lambda>s layer. add_zone_layer x layer s) (s\<lparr>s_itemMap := (s_itemMap s)(x \<mapsto> [])\<rparr>) ls)"
    if "\<not> alreadyAdded x s" for ls
    using new_entry_inv [OF inv that] add_zone_layer_inv by (rule CN_inv_foldl)
  show ?thesis
    using inv net pads zone algo_add_item_inv [OF inv]
    by (cases "b_type (s_brd s x)") (auto simp: algo_Add_def Let_def mark_inv case_prod_beta split: option.splits)
qed

subsection \<open>Removing board items\<close>

lemma SetValid_all:
  "conn (foldl (\<lambda>s p. SetValid False p s) s l) q = conn s q" "par (foldl (\<lambda>s p. SetValid False p s) s l) q = par s q"
  "valid (foldl (\<lambda>s p. SetValid False p s) s l) q = (valid s q \<and> q \<notin> set l)"
  "s_items (foldl (\<lambda>s p. SetValid False p s) s l) = s_items s"
  "s_newItem (foldl (\<lambda>s p. SetValid False p s) s l) = s_newItem s"
  "s_index (foldl (\<lambda>s p. SetValid False p s) s l) = s_index s"
  "s_itemMap (foldl (\<lambda>s p. SetValid False p s) s l) = s_itemMap s"
  "s_brd (foldl (\<lambda>s p. SetValid False p s) s l) = s_brd s"
  "s_dirtyNets (foldl (\<lambda>s p. SetValid False p s) s l) = s_dirtyNets s"
  by (induction l arbitrary: s) (auto simp: SetValid_def upd_item_def)

definition entry_of :: "nat \<Rightarrow> CN_STATE \<Rightarrow> nat list" where
  "entry_of x s = (case s_itemMap s x of None \<Rightarrow> [] | Some l \<Rightarrow> l)"

lemma invalidate_entry_eq:
  "invalidate_entry x s =
    (foldl (\<lambda>s p. SetValid False p s) s (entry_of x s))\<lparr>s_itemMap := (s_itemMap s)(x := None)\<rparr>"
proof (cases "s_itemMap s x")
  case None
  then have "(s_itemMap s)(x := None) = s_itemMap s" by auto
  then show ?thesis using None by (simp add: invalidate_entry_def ItemEntry_def entry_of_def)
next
  case (Some l)
  then show ?thesis by (simp add: invalidate_entry_def ItemEntry_def entry_of_def SetValid_all)
qed

lemma invalidate_entry_inv:
  assumes "links_inv s" "map_inv E s"
  shows "links_inv (invalidate_entry x s)" "map_inv E (invalidate_entry x s)"
    "\<And>p. p \<in> its s \<Longrightarrow> p \<notin> E \<Longrightarrow> valid (invalidate_entry x s) p = (valid s p \<and> p \<notin> set (entry_of x s))"
    "s_items (invalidate_entry x s) = s_items s" "par (invalidate_entry x s) p = par s p"
    "s_brd (invalidate_entry x s) = s_brd s"
proof -
  show "links_inv (invalidate_entry x s)"
    using assms(1) by (simp add: invalidate_entry_eq SetValid_all links_inv_def)
  show "map_inv E (invalidate_entry x s)"
    using assms(2) by (cases "s_itemMap s x") (auto simp: invalidate_entry_eq SetValid_all map_inv_def entry_of_def)
qed (simp_all add: invalidate_entry_eq SetValid_all)

lemma invalidate_all_inv:
  assumes "links_inv s" "map_inv {} s"
  shows "links_inv (foldl (\<lambda>s x. invalidate_entry x s) s xs) \<and> map_inv {} (foldl (\<lambda>s x. invalidate_entry x s) s xs)"
  using assms by (induction xs arbitrary: s) (simp_all add: invalidate_entry_inv)

theorem algo_Remove_inv: "CN_inv s \<Longrightarrow> CN_inv (snd (algo_Remove x s))"
proof -
  assume inv: "CN_inv s"
  define s1 where "s1 = markItemNetAsDirty x s"
  have i1: "CN_inv s1" using inv by (simp add: s1_def mark_inv)
  have fin: "CN_inv (list_SetHasInvalid True (list_SetDirty True s'))" if "links_inv s'" "map_inv {} s'" for s'
    using that
    by (simp add: CN_inv_def links_inv_def map_inv_def flag_inv_def list_SetHasInvalid_def list_SetDirty_def)
  have l: "links_inv s1" "map_inv {} s1" using i1 by (simp_all add: CN_inv_def)
  note a = invalidate_all_inv [OF l, of "b_pads (s_brd s1 x)"] and b = invalidate_entry_inv(1,2) [OF l, of x]
  show ?thesis using i1 fin a b by (simp add: algo_Remove_def Let_def s1_def [symmetric])
qed

subsection \<open>Searches and the operations on them\<close>

definition made_in :: "CN_STATE \<Rightarrow> CN_CLUSTER \<Rightarrow> bool" where
  "made_in s k \<longleftrightarrow> k = cluster_of s (k_items k) \<and> set (k_items k) \<subseteq> its s \<and> k_items k \<noteq> []"

lemma search_roots_returns:
  assumes cl: "links_closed s" and R: "set R \<subseteq> its s"
  shows "\<exists>cls V'. search_roots any R (wv V s) = Some (cls, wv V' s) \<and> V \<subseteq> V' \<and>
    (\<forall>k\<in>set cls. made_in s k) \<and>
    distinct (concat (map k_items cls)) \<and> set (concat (map k_items cls)) \<inter> V = {}"
  using R
proof (induction R arbitrary: V)
  case (Cons r R)
  show ?case
  proof (cases "r \<in> V")
    case True
    then show ?thesis using Cons.IH [of V] Cons.prems by simp
  next
    case False
    have Q: "set [r] \<subseteq> its s" "distinct [r]" "set [r] \<subseteq> insert r V" using Cons.prems by auto
    obtain vs where vs: "search_cluster any (Net s r) [r] CN_CLUSTER_new (wv (insert r V) s) =
        Some (cluster_of s vs, wv (insert r V \<union> set vs) s)" "distinct vs" "r \<in> set vs" "set vs \<inter> insert r V = {r}"
        "set vs \<subseteq> its s"
      using search_cluster_walk [OF finite_set links_closedD [OF cl] Q, of any "Net s r" CN_CLUSTER_new] by auto
    obtain cls V' where cls: "search_roots any R (wv (insert r V \<union> set vs) s) = Some (cls, wv V' s)"
      "insert r V \<union> set vs \<subseteq> V'"
      "\<forall>k\<in>set cls. made_in s k"
      "distinct (concat (map k_items cls))" "set (concat (map k_items cls)) \<inter> (insert r V \<union> set vs) = {}"
      using Cons.IH [of "insert r V \<union> set vs"] Cons.prems by auto
    have run: "search_roots any (r # R) (wv V s) = Some (cluster_of s vs # cls, wv V' s)"
      using False vs(1) cls(1) by simp
    have "\<forall>k\<in>set (cluster_of s vs # cls). made_in s k"
      using cls(3) vs(3,5) by (auto simp: made_in_def)
    moreover have "distinct (concat (map k_items (cluster_of s vs # cls)))" using cls(4,5) vs(2) by auto
    moreover have "set (concat (map k_items (cluster_of s vs # cls))) \<inter> V = {}" using cls(5) vs(4) False by auto
    ultimately show ?thesis using run cls(2) by blast
  qed
qed (auto intro!: exI [of _ "[]"])

definition search_state :: "GEOMETRY \<Rightarrow> CN_STATE \<Rightarrow> CN_STATE" where
  "search_state G s = (if s_dirty s then searchConnections G s else s)"

definition search_found ::
    "GEOMETRY \<Rightarrow> CLUSTER_SEARCH_MODE \<Rightarrow> KICAD_T list \<Rightarrow> int \<Rightarrow> nat option \<Rightarrow> CN_STATE \<Rightarrow> nat set" where
  "search_found G mode ts net r s =
    {p \<in> its (search_state G s). in_search (mode \<noteq> CSM_PROPAGATE) ts net r (search_state G s) p}"

definition stale :: "CN_STATE \<Rightarrow> nat set" where
  "stale s = {p. c_visited (s_itm s p)}"

lemma SearchClusters_eq:
  "SearchClusters G sorter mode ts net r s =
    (let s1 = search_state G s; found = filter (in_search (mode \<noteq> CSM_PROPAGATE) ts net r s1) (s_items s1)
     in map_option (\<lambda>(cls, s). (sorter cls, s))
          (search_roots (mode \<noteq> CSM_PROPAGATE) (sort (remdups found)) (wv (stale s1 - set found) s1)))"
proof -
  have "foldl (\<lambda>s p. SetVisited False p s) s1 ps = wv (stale s1 - set ps) s1" for s1 ps
    using foldl_SetVisited_wv [of "stale s1" s1 ps] wv_self [of s1] by (simp add: stale_def)
  then show ?thesis by (simp add: SearchClusters_def Let_def search_state_def)
qed

lemma search_state_inv: "CN_inv s \<Longrightarrow> CN_inv (search_state G s)"
  by (simp add: search_state_def searchConnections_inv)

definition permutes_list :: "('a list \<Rightarrow> 'a list) \<Rightarrow> bool" where
  "permutes_list f \<longleftrightarrow> (\<forall>xs. mset (f xs) = mset xs)"

lemma mset_concat_map: "mset (concat (map g xs)) = \<Sum>\<^sub># (image_mset (\<lambda>x. mset (g x)) (mset xs))"
  by (induction xs) simp_all

lemma permutes_listD:
  assumes "permutes_list f"
  shows "set (f xs) = set xs" "distinct (concat (map g (f xs))) = distinct (concat (map g xs))"
proof -
  have m: "mset (f xs) = mset xs" using assms by (simp add: permutes_list_def)
  then show "set (f xs) = set xs" by (metis set_mset_mset)
  have "mset (concat (map g (f xs))) = mset (concat (map g xs))"
    unfolding mset_concat_map m ..
  then show "distinct (concat (map g (f xs))) = distinct (concat (map g xs))" by (rule mset_eq_imp_distinct_iff)
qed

text \<open>A search returns; its clusters consist of different items of the list.\<close>

lemma SearchClusters_returns:
  assumes inv: "CN_inv s" and so: "permutes_list sorter"
  obtains cls V where "SearchClusters G sorter mode ts net r s = Some (cls, wv V (search_state G s))"
    "\<forall>k\<in>set cls. made_in (search_state G s) k"
    "distinct (concat (map k_items cls))"
proof -
  define s1 where "s1 = search_state G s"
  define found where "found = filter (in_search (mode \<noteq> CSM_PROPAGATE) ts net r s1) (s_items s1)"
  have cl: "links_closed s1"
    using search_state_inv [OF inv] unfolding s1_def CN_inv_def by (blast intro: links_inv_closed)
  have R: "set (sort (remdups found)) \<subseteq> its s1" by (auto simp: found_def)
  obtain cls V' where c:
    "search_roots (mode \<noteq> CSM_PROPAGATE) (sort (remdups found)) (wv (stale s1 - set found) s1) = Some (cls, wv V' s1)"
    "\<forall>k\<in>set cls. made_in s1 k"
    "distinct (concat (map k_items cls))"
    using search_roots_returns [OF cl R] by blast
  have run: "SearchClusters G sorter mode ts net r s = Some (sorter cls, wv V' s1)"
    unfolding SearchClusters_eq Let_def s1_def [symmetric] found_def [symmetric] c(1) by simp
  have "\<forall>k\<in>set (sorter cls). made_in s1 k"
    using c(2) unfolding permutes_listD(1) [OF so] .
  moreover have "distinct (concat (map k_items (sorter cls)))" using c(3) permutes_listD(2) [OF so] by blast
  ultimately show ?thesis using that [of "sorter cls" V'] run unfolding s1_def by blast
qed

lemma SearchClusters_state:
  assumes "CN_inv s" "permutes_list sorter"
  shows "\<exists>cls V. SearchClusters_mode G sorter mode s = Some (cls, wv V (search_state G s))"
  unfolding SearchClusters_mode_def
  by (rule SearchClusters_returns [OF assms, of G mode "search_types mode" "- 1" None]) (intro exI)

lemma search_wv_inv: "CN_inv s \<Longrightarrow> CN_inv (wv V (search_state G s))"
  using search_state_inv [of s G] same_links_inv(4) [OF same_links_wv] by simp

lemma propagate_same_links: "same_links s (propagateConnections s)"
proof -
  have "same_links s (propagate_item n p s)" for n p s
  proof -
    have "same_links s (MarkNetAsDirty n (MarkNetAsDirty (b_net (parent s p)) s))"
      by (rule same_links_trans [of _ "MarkNetAsDirty (b_net (parent s p)) s"]) simp_all
    then have "same_links s (SetNetCode n (par s p) (MarkNetAsDirty n (MarkNetAsDirty (b_net (parent s p)) s)))"
      by (rule same_links_trans) simp
    then show ?thesis by (simp add: propagate_item_def)
  qed
  then have "same_links s (propagate_cluster k s)" for k s
    by (simp add: propagate_cluster_def same_links_foldl)
  then show ?thesis unfolding propagateConnections_def by (rule same_links_foldl)
qed

lemma CN_inv_clusters [simp]:
  "CN_inv (s\<lparr>s_connClusters := cls\<rparr>) = CN_inv s" "CN_inv (s\<lparr>s_ratsnestClusters := cls\<rparr>) = CN_inv s"
  by (simp_all add: CN_inv_def links_inv_def map_inv_def flag_inv_def)

lemma PropagateNets_inv:
  assumes "CN_inv s" "permutes_list sorter"
  shows "\<exists>s'. PropagateNets G sorter s = Some s' \<and> CN_inv s'"
proof -
  obtain cls V where "SearchClusters_mode G sorter CSM_PROPAGATE s = Some (cls, wv V (search_state G s))"
    using SearchClusters_state [OF assms] by blast
  moreover have "CN_inv (wv V (search_state G s))" using search_wv_inv [OF assms(1)] .
  ultimately show ?thesis
    using same_links_inv(4) [OF propagate_same_links] by (simp add: PropagateNets_def)
qed

lemma GetClusters_inv:
  assumes "CN_inv s" "permutes_list sorter"
  shows "\<exists>s'. GetClusters G sorter s = Some s' \<and> CN_inv s'"
proof -
  obtain cls V where "SearchClusters_mode G sorter CSM_RATSNEST s = Some (cls, wv V (search_state G s))"
    using SearchClusters_state [OF assms] by blast
  moreover have "CN_inv (wv V (search_state G s))" using search_wv_inv [OF assms(1)] .
  ultimately show ?thesis by (simp add: GetClusters_def)
qed

lemma FillIsolatedIslandsMap_inv:
  assumes inv: "CN_inv s" and so: "permutes_list sorter"
  shows "\<exists>r s'. FillIsolatedIslandsMap G sorter m rebuilt s = Some (r, s') \<and> CN_inv s'"
proof -
  define s1 where "s1 = (if rebuilt then s else foldl (\<lambda>s (zone, ls). snd (algo_Add zone (snd (algo_Remove zone s)))) s m)"
  have 1: "CN_inv s1"
    unfolding s1_def using inv by (auto intro!: CN_inv_foldl algo_Add_inv algo_Remove_inv split: prod.split)
  obtain cls V where "SearchClusters_mode G sorter CSM_CONNECTIVITY_CHECK s1 = Some (cls, wv V (search_state G s1))"
    using SearchClusters_state [OF 1 so] by blast
  moreover have "CN_inv (wv V (search_state G s1))" using search_wv_inv [OF 1] .
  ultimately show ?thesis unfolding FillIsolatedIslandsMap_def Let_def s1_def [symmetric] by simp
qed

lemma LocalBuild_inv: "CN_inv s \<Longrightarrow> CN_inv (LocalBuild xs s)"
  unfolding LocalBuild_def by (rule CN_inv_foldl) (simp_all add: algo_Add_inv)

lemma algo_Clear_inv: "CN_inv (algo_Clear s)"
proof -
  have "same_links s (foldl (\<lambda>s p. delete_item p s) s ps)" for s ps by (rule same_links_foldl) simp
  then show ?thesis
    by (simp add: algo_Clear_def list_Clear_def CN_inv_def links_inv_def map_inv_def flag_inv_def)
qed

end
