(* ===== verification/Conn_Nets.thy ===== *)
theory Conn_Nets
  imports Conn_Inv
begin

text \<open>
  Nets of clusters, what propagation does to them, dirty nets, and what is left of a removed board item.
\<close>

subsection \<open>The net of a cluster\<close>

definition rank_pads :: "CN_STATE \<Rightarrow> nat list \<Rightarrow> nat list" where
  "rank_pads s vs = filter (\<lambda>p. Net s p > 0 \<and> is_ranked_pad s p) vs"

definition net_count :: "CN_STATE \<Rightarrow> nat list \<Rightarrow> int \<Rightarrow> nat" where
  "net_count s vs n = length (filter (\<lambda>p. Net s p = n) (rank_pads s vs))"

lemma net_count_pos: "net_count s vs n > 0 \<longleftrightarrow> (\<exists>p\<in>set (rank_pads s vs). Net s p = n)"
  by (auto simp: net_count_def filter_empty_conv)

lemma net_count_snoc:
  "net_count s (vs @ [p]) n = net_count s vs n + (if Net s p > 0 \<and> is_ranked_pad s p \<and> Net s p = n then 1 else 0)"
  by (simp add: net_count_def rank_pads_def)

lemma rank_pads_snoc:
  "rank_pads s (vs @ [p]) = rank_pads s vs @ (if Net s p > 0 \<and> is_ranked_pad s p then [p] else [])"
  by (simp add: rank_pads_def)

text \<open>What the fields of a cluster mean while items are added to it.\<close>

definition cluster_meaning :: "CN_STATE \<Rightarrow> nat list \<Rightarrow> CN_CLUSTER \<Rightarrow> bool" where
  "cluster_meaning s vs k \<longleftrightarrow>
    (\<forall>n. (case k_netRanks k n of None \<Rightarrow> 0 | Some r \<Rightarrow> r) = int (net_count s vs n)) \<and>
    (k_originNet k \<le> 0 \<longleftrightarrow> (\<forall>p\<in>set vs. Net s p \<le> 0)) \<and>
    (k_originNet k = - 1 \<or> k_originNet k \<in> Net s ` set vs) \<and>
    (k_originPad k = None \<longleftrightarrow> rank_pads s vs = []) \<and>
    (rank_pads s vs \<noteq> [] \<longrightarrow> (\<forall>n. net_count s vs n \<le> net_count s vs (k_originNet k))) \<and>
    (k_conflicting k \<longleftrightarrow> (\<exists>p\<in>set (rank_pads s vs). \<exists>q\<in>set (rank_pads s vs). Net s p \<noteq> Net s q))"

lemma cluster_meaning_new: "cluster_meaning s [] CN_CLUSTER_new"
  by (simp add: cluster_meaning_def CN_CLUSTER_new_def net_count_def rank_pads_def)

lemma cluster_meaning_Add:
  assumes m: "cluster_meaning s vs k"
  shows "cluster_meaning s (vs @ [p]) (cluster_Add s p k)"
proof (cases "Net s p \<le> 0")
  case True
  then have "cluster_Add s p k = k\<lparr>k_items := k_items k @ [p]\<rparr>" by (simp add: cluster_Add_def Let_def)
  then show ?thesis using m True by (auto simp: cluster_meaning_def net_count_snoc rank_pads_snoc)
next
  case pos: False
  define n where "n = Net s p"
  have M: "k_originPad k = None \<longleftrightarrow> rank_pads s vs = []"
    "rank_pads s vs \<noteq> [] \<longrightarrow> (\<forall>n. net_count s vs n \<le> net_count s vs (k_originNet k))"
    "k_conflicting k \<longleftrightarrow> (\<exists>p\<in>set (rank_pads s vs). \<exists>q\<in>set (rank_pads s vs). Net s p \<noteq> Net s q)"
    "k_originNet k \<le> 0 \<longleftrightarrow> (\<forall>p\<in>set vs. Net s p \<le> 0)"
    using m unfolding cluster_meaning_def by blast+
  define k1 where "k1 = k\<lparr>k_items := k_items k @ [p]\<rparr>"
  define k2 where "k2 = (if k_originNet k1 \<le> 0
    then k1\<lparr>k_originNet := n, k_netRanks := (k_netRanks k1)(n \<mapsto> 0)\<rparr> else k1)"
  have zero: "net_count s vs n = 0" if "k_originNet k \<le> 0"
  proof -
    have "rank_pads s vs = []" using m that by (fastforce simp: cluster_meaning_def rank_pads_def filter_empty_conv)
    then show ?thesis by (simp add: net_count_def)
  qed
  have k2: "k_conflicting k2 = k_conflicting k" "k_originPad k2 = k_originPad k"
    "k_originNet k2 = (if k_originNet k \<le> 0 then n else k_originNet k)" by (simp_all add: k2_def k1_def)
  have r2: "rank_of k2 i = int (net_count s vs i)" for i
    using m zero by (auto simp: cluster_meaning_def k2_def k1_def rank_of_def)
  have o2: "k_originNet k2 > 0" "k_originNet k2 \<in> Net s ` set (vs @ [p])"
    using m pos k2(3) by (auto simp: cluster_meaning_def n_def)
  show ?thesis
  proof (cases "is_ranked_pad s p")
    case False
    then have eq: "cluster_Add s p k = k2"
      using pos by (simp add: cluster_Add_def Let_def k2_def k1_def n_def)
    have "rank_pads s vs \<noteq> [] \<Longrightarrow> k_originNet k > 0"
      using m by (fastforce simp: cluster_meaning_def rank_pads_def filter_empty_conv)
    then have o: "rank_pads s vs \<noteq> [] \<longrightarrow> k_originNet k2 = k_originNet k" using k2(3) by auto
    have rp: "rank_pads s (vs @ [p]) = rank_pads s vs" using False by (simp add: rank_pads_snoc)
    then have nc: "net_count s (vs @ [p]) = net_count s vs" by (intro ext) (simp add: net_count_def)
    have "\<not> (\<forall>p\<in>set (vs @ [p]). Net s p \<le> 0)" "\<not> k_originNet k2 \<le> 0" using pos o2(1) by auto
    then have "(k_originNet k2 \<le> 0) = (\<forall>p\<in>set (vs @ [p]). Net s p \<le> 0)" by blast
    moreover have "k_originPad k2 = None \<longleftrightarrow> rank_pads s vs = []"
      "k_conflicting k2 \<longleftrightarrow> (\<exists>p\<in>set (rank_pads s vs). \<exists>q\<in>set (rank_pads s vs). Net s p \<noteq> Net s q)"
      "rank_pads s vs \<noteq> [] \<longrightarrow> (\<forall>n. net_count s vs n \<le> net_count s vs (k_originNet k2))"
      using m k2(1,2) o unfolding cluster_meaning_def by auto
    ultimately show ?thesis using o2(2) r2 unfolding eq cluster_meaning_def rp nc rank_of_def by blast
  next
    case pad: True
    define rank where "rank = (case k_netRanks k2 n of None \<Rightarrow> 1 | Some r \<Rightarrow> r + 1)"
    define k3 where "k3 = k2\<lparr>k_netRanks := (k_netRanks k2)(n \<mapsto> rank)\<rparr>"
    define k4 where "k4 = (if k_originPad k3 = None \<or> rank > rank_of k3 (k_originNet k3)
      then k3\<lparr>k_originPad := Some p, k_originNet := n\<rparr> else k3)"
    have eq: "cluster_Add s p k = (if n \<noteq> k_originNet k4 then k4\<lparr>k_conflicting := True\<rparr> else k4)"
    proof -
      have "k_originPad k4 \<noteq> None" by (auto simp: k4_def)
      moreover have "cluster_Add s p k = (if k_originPad k4 \<noteq> None \<and> n \<noteq> k_originNet k4
        then k4\<lparr>k_conflicting := True\<rparr> else k4)"
        unfolding cluster_Add_def Let_def
        unfolding n_def [symmetric] k1_def [symmetric] k2_def [symmetric] rank_def [symmetric] k3_def [symmetric]
          k4_def [symmetric]
        using pos pad by (simp add: n_def [symmetric])
      ultimately show ?thesis by simp
    qed
    have rank: "rank = int (net_count s vs n) + 1" using r2 [of n] by (auto simp: rank_def rank_of_def split: option.splits)
    have r3: "rank_of k3 i = int (net_count s (vs @ [p]) i)" for i
      using r2 [of i] rank pos pad by (auto simp: k3_def rank_of_def net_count_snoc n_def)
    have k3: "k_conflicting k3 = k_conflicting k" "k_originPad k3 = k_originPad k"
      "k_originNet k3 = (if k_originNet k \<le> 0 then n else k_originNet k)" by (simp_all add: k3_def k2)
    have cn: "net_count s (vs @ [p]) i = net_count s vs i + (if i = n then 1 else 0)" for i
      using pos pad by (auto simp: net_count_snoc n_def)
    have rp: "rank_pads s (vs @ [p]) = rank_pads s vs @ [p]" using pos pad by (simp add: rank_pads_snoc)
    let ?o = "k_originNet k4"
    have o4: "?o = (if k_originPad k = None \<or> rank > rank_of k3 (k_originNet k3) then n else k_originNet k3)"
      by (simp add: k4_def k3)
    have ranks4: "rank_of k4 i = int (net_count s (vs @ [p]) i)" for i using r3 [of i] by (simp add: k4_def rank_of_def)
    note none = M(1)
    have vs0: "net_count s vs i = 0" if "rank_pads s vs = []" for i using that by (simp add: net_count_def)
    have most: "net_count s (vs @ [p]) i \<le> net_count s (vs @ [p]) ?o" for i
    proof (cases "rank_pads s vs = []")
      case True
      then show ?thesis using o4 none vs0 cn by simp
    next
      case False
      then have mx: "net_count s vs i \<le> net_count s vs (k_originNet k)" for i using M(2) by blast
      have "k_originNet k > 0" using M(4) False by (force simp: rank_pads_def filter_empty_conv)
      then have o3: "k_originNet k3 = k_originNet k" by (simp add: k3)
      show ?thesis
      proof (cases "rank > rank_of k3 (k_originNet k3)")
        case True
        then have "?o = n" by (simp add: o4)
        then show ?thesis using mx [of i] True r3 [of "k_originNet k"] rank cn o3 by auto
      next
        case f: False
        then have "?o = k_originNet k" using o4 o3 False none by simp
        then show ?thesis using mx [of i] f r3 [of "k_originNet k"] rank cn o3 by auto
      qed
    qed
    have conf: "(k_conflicting k \<or> n \<noteq> ?o) \<longleftrightarrow>
        (\<exists>a\<in>set (rank_pads s vs @ [p]). \<exists>b\<in>set (rank_pads s vs @ [p]). Net s a \<noteq> Net s b)" (is "?l \<longleftrightarrow> ?r")
    proof
      assume ?l
      then show ?r
      proof
        assume "k_conflicting k"
        then show ?r unfolding M(3) set_append by blast
      next
        assume ne: "n \<noteq> ?o"
        have "net_count s (vs @ [p]) ?o \<ge> net_count s (vs @ [p]) n" by (rule most)
        then have "net_count s (vs @ [p]) ?o > 0" using cn [of n] by simp
        then obtain a where "a \<in> set (rank_pads s (vs @ [p]))" "Net s a = ?o" unfolding net_count_pos by blast
        then have "a \<in> set (rank_pads s vs @ [p])" "Net s a \<noteq> Net s p" using ne unfolding rp n_def by simp_all
        moreover have "p \<in> set (rank_pads s vs @ [p])" by simp
        ultimately show ?r by blast
      qed
    next
      assume r: ?r
      show ?l
      proof (rule ccontr)
        assume "\<not> ?l"
        then have no: "\<not> k_conflicting k" "n = ?o" by simp_all
        have same: "Net s a = Net s b" if "a \<in> set (rank_pads s vs)" "b \<in> set (rank_pads s vs)" for a b
          using no(1) that unfolding M(3) by blast
        obtain a where a: "a \<in> set (rank_pads s vs)" "Net s a \<noteq> n"
        proof (rule ccontr)
          assume "\<not> thesis"
          then have "\<forall>a\<in>set (rank_pads s vs @ [p]). Net s a = n" using that by (auto simp: n_def)
          then show False using r by metis
        qed
        have "\<not> net_count s vs n > 0" unfolding net_count_pos using same a by metis
        then have "net_count s vs n = 0" by simp
        moreover have "net_count s vs (Net s a) > 0" using a(1) net_count_pos by blast
        moreover have ne: "rank_pads s vs \<noteq> []" using a(1) by auto
        ultimately have ct: "net_count s vs n = 0" "net_count s vs (k_originNet k) > 0"
          using M(2) by (auto intro: less_le_trans)
        have "a \<in> set vs" "Net s a > 0" using a(1) by (simp_all add: rank_pads_def)
        then have "\<not> k_originNet k \<le> 0" using M(4) by force
        then have o3: "k_originNet k3 = k_originNet k" by (simp add: k3)
        have "k_originPad k \<noteq> None" using ne M(1) by simp
        then have "rank > rank_of k3 (k_originNet k) \<or> k_originNet k = n"
          using no(2) o4 unfolding o3 by (auto split: if_splits)
        then show False using ct rank r3 [of "k_originNet k"] cn [of "k_originNet k"] by (auto split: if_splits)
      qed
    qed
    have "k_originPad k4 \<noteq> None" using k3(2) by (auto simp: k4_def)
    moreover have "?o > 0" "?o \<in> Net s ` set (vs @ [p])" using o4 o2 pos k2(3) k3(3) by (auto simp: n_def)
    moreover have "k_conflicting k4 = k_conflicting k" by (simp add: k4_def k3)
    moreover have "\<not> (\<forall>p\<in>set (vs @ [p]). Net s p \<le> 0)" using pos by simp
    ultimately show ?thesis
      using most conf ranks4 unfolding eq cluster_meaning_def rp rank_of_def
      by (cases "n = k_originNet k4") simp_all
  qed
qed

lemma cluster_meaning_of: "cluster_meaning s vs (cluster_of s vs)"
proof -
  have "cluster_meaning s (us @ vs) (foldl (\<lambda>k p. cluster_Add s p k) k vs)" if "cluster_meaning s us k" for us k
    using that
  proof (induction vs arbitrary: us k)
    case (Cons v vs)
    show ?case using Cons.IH [OF cluster_meaning_Add [OF Cons.prems]] by simp
  qed simp
  from this [OF cluster_meaning_new] show ?thesis by simp
qed

subsection \<open>Propagation\<close>

definition net_pairs :: "CN_CLUSTER list \<Rightarrow> (int \<times> nat) list" where
  "net_pairs ks = concat (map (\<lambda>k. if \<not> k_conflicting k \<and> HasValidNet k
    then map (Pair (k_originNet k)) (k_items k) else []) ks)"

lemma propagateConnections_pairs:
  "propagateConnections s = foldl (\<lambda>s (n, p). propagate_item n p s) s (net_pairs (s_connClusters s))"
proof -
  have items: "foldl (\<lambda>s (n, p). propagate_item n p s) s (map (Pair n) ps) = foldl (\<lambda>s p. propagate_item n p s) s ps"
    for n ps s by (induction ps arbitrary: s) simp_all
  have "foldl (\<lambda>s k. propagate_cluster k s) s ks = foldl (\<lambda>s (n, p). propagate_item n p s) s (net_pairs ks)" for ks
    by (induction ks arbitrary: s) (simp_all add: net_pairs_def propagate_cluster_def items)
  then show ?thesis by (simp add: propagateConnections_def)
qed

definition changeable :: "CN_STATE \<Rightarrow> nat \<Rightarrow> bool" where
  "changeable s p \<longleftrightarrow> valid s p \<and> c_canChangeNet (s_itm s p)"

definition own_parents :: "CN_STATE \<Rightarrow> bool" where
  "own_parents s \<longleftrightarrow> (\<forall>p\<in>its s. \<forall>q\<in>its s. changeable s p \<and> par s p = par s q \<longrightarrow> p = q)"

definition is_dirty :: "CN_STATE \<Rightarrow> int \<Rightarrow> bool" where
  "is_dirty s n \<longleftrightarrow> n < 0 \<or> IsNetDirty s n = Some True"

lemma MarkNetAsDirty_nets:
  "s_dirtyNets (MarkNetAsDirty n s) =
    (if n < 0 then s_dirtyNets s
     else (take (length (s_dirtyNets s) - (if length (s_dirtyNets s) \<le> nat n then 1 else 0)) (s_dirtyNets s) @
           replicate (if length (s_dirtyNets s) \<le> nat n then Suc (nat n) - (length (s_dirtyNets s) - 1) else 0) True)
          [nat n := True])"
  by (simp add: MarkNetAsDirty_def Let_def)

lemma MarkNetAsDirty_dirty: "is_dirty (MarkNetAsDirty n s) n"
  by (auto simp: is_dirty_def IsNetDirty_def MarkNetAsDirty_nets)

lemma MarkNetAsDirty_length: "length (s_dirtyNets s) \<le> length (s_dirtyNets (MarkNetAsDirty n s))"
  "n < int (length (s_dirtyNets (MarkNetAsDirty n s)))"
  by (auto simp: MarkNetAsDirty_nets)

lemma MarkNetAsDirty_mono: "is_dirty s m \<Longrightarrow> is_dirty (MarkNetAsDirty n s) m"
proof (cases "m < 0 \<or> n < 0")
  case True
  then show "is_dirty s m \<Longrightarrow> ?thesis" by (auto simp: is_dirty_def IsNetDirty_def MarkNetAsDirty_nets split: if_splits)
next
  case False
  assume "is_dirty s m"
  then have m: "nat m < length (s_dirtyNets s)" "s_dirtyNets s ! nat m"
    using False by (auto simp: is_dirty_def IsNetDirty_def split: if_splits)
  have "s_dirtyNets (MarkNetAsDirty n s) ! nat m"
    using m False by (auto simp: MarkNetAsDirty_nets nth_list_update nth_append)
  moreover have "nat m < length (s_dirtyNets (MarkNetAsDirty n s))" using m(1) MarkNetAsDirty_length(1) less_le_trans by blast
  ultimately show ?thesis using False by (simp add: is_dirty_def IsNetDirty_def)
qed

lemma MarkNetAsDirty_frame [simp]:
  "s_itm (MarkNetAsDirty n s) = s_itm s" "s_brd (MarkNetAsDirty n s) = s_brd s" "s_items (MarkNetAsDirty n s) = s_items s"
  by (simp_all add: MarkNetAsDirty_def Let_def)

lemma is_dirty_SetNetCode [simp]: "is_dirty (SetNetCode n b s) m = is_dirty s m"
  by (simp add: is_dirty_def IsNetDirty_def SetNetCode_def)

lemma propagate_item_facts:
  shows "s_itm (propagate_item n p s) = s_itm s"
    "changeable s p \<Longrightarrow> b_net (s_brd (propagate_item n p s) (par s p)) = n"
    "b \<noteq> par s p \<or> \<not> changeable s p \<Longrightarrow> s_brd (propagate_item n p s) b = s_brd s b"
    "b_type (s_brd (propagate_item n p s) b) = b_type (s_brd s b)" "b_free (s_brd (propagate_item n p s) b) = b_free (s_brd s b)"
    "is_dirty s m \<Longrightarrow> is_dirty (propagate_item n p s) m"
    "b_net (s_brd (propagate_item n p s) b) \<noteq> b_net (s_brd s b) \<Longrightarrow>
      is_dirty (propagate_item n p s) (b_net (s_brd s b)) \<and> is_dirty (propagate_item n p s) (b_net (s_brd (propagate_item n p s) b))"
proof -
  show "s_itm (propagate_item n p s) = s_itm s"
    "changeable s p \<Longrightarrow> b_net (s_brd (propagate_item n p s) (par s p)) = n"
    "b \<noteq> par s p \<or> \<not> changeable s p \<Longrightarrow> s_brd (propagate_item n p s) b = s_brd s b"
    "b_type (s_brd (propagate_item n p s) b) = b_type (s_brd s b)" "b_free (s_brd (propagate_item n p s) b) = b_free (s_brd s b)"
    by (auto simp: propagate_item_def SetNetCode_def changeable_def)
  show "is_dirty s m \<Longrightarrow> is_dirty (propagate_item n p s) m"
    using MarkNetAsDirty_mono by (simp add: propagate_item_def)
  show "is_dirty (propagate_item n p s) (b_net (s_brd s b)) \<and> is_dirty (propagate_item n p s) (b_net (s_brd (propagate_item n p s) b))"
    if "b_net (s_brd (propagate_item n p s) b) \<noteq> b_net (s_brd s b)"
  proof -
    have c: "b = par s p" "valid s p \<and> c_canChangeNet (s_itm s p) \<and> b_net (parent s p) \<noteq> n"
      using that by (auto simp: propagate_item_def SetNetCode_def split: if_splits)
    have "is_dirty (MarkNetAsDirty n (MarkNetAsDirty (b_net (parent s p)) s)) (b_net (parent s p))"
      by (rule MarkNetAsDirty_mono) (rule MarkNetAsDirty_dirty)
    then show ?thesis using c MarkNetAsDirty_dirty [of n "MarkNetAsDirty (b_net (parent s p)) s"]
      by (simp add: propagate_item_def) (simp add: SetNetCode_def)
  qed
qed

lemma propagate_pairs_facts:
  fixes s :: CN_STATE and xs :: "(int \<times> nat) list"
  defines "s' \<equiv> foldl (\<lambda>s (n, p). propagate_item n p s) s xs"
  assumes "distinct (map snd xs)"
    "inj_on (par s) {p \<in> snd ` set xs. changeable s p}"
  shows "s_itm s' = s_itm s \<and> (\<forall>(n, p)\<in>set xs. changeable s p \<longrightarrow> b_net (s_brd s' (par s p)) = n) \<and>
    (\<forall>b. b \<notin> par s ` {p \<in> snd ` set xs. changeable s p} \<longrightarrow> s_brd s' b = s_brd s b) \<and>
    (\<forall>b. b_type (s_brd s' b) = b_type (s_brd s b) \<and> b_free (s_brd s' b) = b_free (s_brd s b)) \<and>
    (\<forall>m. is_dirty s m \<longrightarrow> is_dirty s' m) \<and>
    (\<forall>b. b_net (s_brd s' b) \<noteq> b_net (s_brd s b) \<longrightarrow> is_dirty s' (b_net (s_brd s b)) \<and> is_dirty s' (b_net (s_brd s' b)))"
  using assms(2,3) unfolding s'_def
proof (induction xs arbitrary: s)
  case (Cons x xs)
  obtain n p where x: "x = (n, p)" by fastforce
  define s1 where "s1 = propagate_item n p s"
  note F = propagate_item_facts [where n = n and p = p and s = s, folded s1_def]
  let ?s' = "foldl (\<lambda>s (n, p). propagate_item n p s) s1 xs"
  have ch: "changeable s1 q = changeable s q" "par s1 q = par s q" for q by (simp_all add: changeable_def F(1))
  have d: "distinct (map snd xs)" using Cons.prems(1) by simp
  have "inj_on (par s) {p \<in> snd ` set xs. changeable s p}"
    using Cons.prems(2) by (rule inj_on_subset) auto
  then have u: "inj_on (par s1) {p \<in> snd ` set xs. changeable s1 p}" unfolding ch .
  note IH = Cons.IH [OF d u]
  have np: "p \<notin> snd ` set xs" using Cons.prems(1) x by simp
  have keep: "par s p \<notin> par s ` {q \<in> snd ` set xs. changeable s q}" if "changeable s p"
  proof
    assume "par s p \<in> par s ` {q \<in> snd ` set xs. changeable s q}"
    then obtain q where "q \<in> snd ` set xs" "changeable s q" "par s p = par s q" by blast
    moreover have "p \<in> {p \<in> snd ` set (x # xs). changeable s p}" using that x by simp
    moreover have "q \<in> {p \<in> snd ` set (x # xs). changeable s p}" using calculation(1,2) by simp
    ultimately have "p = q" using inj_onD [OF Cons.prems(2), of p q] by blast
    then show False using np \<open>q \<in> snd ` set xs\<close> by simp
  qed
  have run: "foldl (\<lambda>s (n, p). propagate_item n p s) s (x # xs) = ?s'" by (simp add: x s1_def)
  have 1: "b_net (s_brd ?s' (par s p)) = n" if "changeable s p"
  proof -
    have "s_brd ?s' (par s p) = s_brd s1 (par s p)" using IH keep [OF that] unfolding ch by blast
    then show ?thesis using F(2) [OF that] by simp
  qed
  have 2: "s_brd ?s' b = s_brd s b" if "b \<notin> par s ` {q \<in> snd ` set (x # xs). changeable s q}" for b
  proof -
    have "b \<notin> par s1 ` {q \<in> snd ` set xs. changeable s1 q}" using that unfolding ch by auto
    then have "s_brd ?s' b = s_brd s1 b" using IH by blast
    moreover have "b \<noteq> par s p \<or> \<not> changeable s p" using that x by auto
    ultimately show ?thesis using F(3) by simp
  qed
  have 3: "is_dirty ?s' (b_net (s_brd s b)) \<and> is_dirty ?s' (b_net (s_brd ?s' b))"
    if "b_net (s_brd ?s' b) \<noteq> b_net (s_brd s b)" for b
  proof -
    have mono: "is_dirty ?s' m" if "is_dirty s1 m" for m using IH that by blast
    have late: "is_dirty ?s' (b_net (s_brd s1 b)) \<and> is_dirty ?s' (b_net (s_brd ?s' b))"
      if "b_net (s_brd ?s' b) \<noteq> b_net (s_brd s1 b)" using IH that by blast
    show ?thesis
    proof (cases "b_net (s_brd s1 b) = b_net (s_brd s b)")
      case True
      then show ?thesis using late that by simp
    next
      case False
      then have e: "is_dirty ?s' (b_net (s_brd s b))" "is_dirty ?s' (b_net (s_brd s1 b))" using F(7) mono by simp_all
      then show ?thesis using late by (cases "b_net (s_brd ?s' b) = b_net (s_brd s1 b)") simp_all
    qed
  qed
  have 4: "\<forall>(n, p)\<in>set xs. changeable s p \<longrightarrow> b_net (s_brd ?s' (par s p)) = n" using IH unfolding ch by blast
  have 5: "s_itm ?s' = s_itm s" using IH F(1) by simp
  have 6: "\<forall>b. b_type (s_brd ?s' b) = b_type (s_brd s b) \<and> b_free (s_brd ?s' b) = b_free (s_brd s b)"
    using IH unfolding F(4,5) by blast
  have 7: "\<forall>m. is_dirty s m \<longrightarrow> is_dirty ?s' m" using IH F(6) by blast
  have 8: "\<forall>(n, p)\<in>set (x # xs). changeable s p \<longrightarrow> b_net (s_brd ?s' (par s p)) = n"
    using 1 4 by (simp add: x)
  show ?case unfolding run using 2 3 5 6 7 8 by blast
qed simp

lemma net_pairs_snd: "set (map snd (net_pairs ks)) \<subseteq> (\<Union>k\<in>set ks. set (k_items k))"
  by (auto simp: net_pairs_def split: if_splits)

lemma net_pairs_distinct: "distinct (concat (map k_items ks)) \<Longrightarrow> distinct (map snd (net_pairs ks))"
proof (induction ks)
  case (Cons k ks)
  have s: "set (map snd (net_pairs ks)) \<subseteq> (\<Union>k\<in>set ks. set (k_items k))" by (rule net_pairs_snd)
  have c: "net_pairs (k # ks) =
    (if \<not> k_conflicting k \<and> HasValidNet k then map (Pair (k_originNet k)) (k_items k) else []) @ net_pairs ks"
    by (simp add: net_pairs_def)
  have "distinct (map snd (net_pairs ks))" using Cons by simp
  moreover have "set (k_items k) \<inter> set (map snd (net_pairs ks)) = {}" using Cons.prems s by fastforce
  ultimately show ?case using Cons.prems unfolding c by (simp add: comp_def image_image)
qed (simp add: net_pairs_def)

lemma own_parents_inj:
  assumes "own_parents s" "A \<subseteq> its s"
  shows "inj_on (par s) {p \<in> A. changeable s p}"
proof (rule inj_onI)
  fix p q assume "p \<in> {p \<in> A. changeable s p}" "q \<in> {p \<in> A. changeable s p}" "par s p = par s q"
  then have "p \<in> its s" "q \<in> its s" "changeable s p" "par s p = par s q" using assms(2) by auto
  then show "p = q" using assms(1) unfolding own_parents_def by blast
qed

text \<open>
  The outcome of a propagation: clusters of the state before, whose nets all items that can change have taken.
\<close>

lemma propagate_clusters:
  assumes s: "s_connClusters s = cls" and made: "\<forall>k\<in>set cls. made_in s k"
    and d: "distinct (concat (map k_items cls))" and own: "own_parents s"
  defines "s' \<equiv> propagateConnections s"
  shows "s_itm s' = s_itm s"
    "\<And>k p. k \<in> set cls \<Longrightarrow> \<not> k_conflicting k \<Longrightarrow> HasValidNet k \<Longrightarrow> p \<in> set (k_items k) \<Longrightarrow> changeable s p \<Longrightarrow>
      Net s' p = k_originNet k"
    "\<And>b. (\<And>k p. k \<in> set cls \<Longrightarrow> \<not> k_conflicting k \<Longrightarrow> HasValidNet k \<Longrightarrow> p \<in> set (k_items k) \<Longrightarrow> changeable s p \<Longrightarrow>
      par s p \<noteq> b) \<Longrightarrow> s_brd s' b = s_brd s b"
    "\<And>b. b_type (s_brd s' b) = b_type (s_brd s b) \<and> b_free (s_brd s' b) = b_free (s_brd s b)"
    "\<And>b. b_net (s_brd s' b) \<noteq> b_net (s_brd s b) \<Longrightarrow>
      is_dirty s' (b_net (s_brd s b)) \<and> is_dirty s' (b_net (s_brd s' b))"
    "\<And>m. is_dirty s m \<Longrightarrow> is_dirty s' m"
proof -
  have sub: "snd ` set (net_pairs cls) \<subseteq> its s"
    using net_pairs_snd [of cls] made by (auto simp: made_in_def)
  note F = propagate_pairs_facts [OF net_pairs_distinct [OF d] own_parents_inj [OF own sub],
      folded s, folded propagateConnections_pairs, folded s'_def, unfolded s]
  show it: "s_itm s' = s_itm s" using F by blast
  show "b_type (s_brd s' b) = b_type (s_brd s b) \<and> b_free (s_brd s' b) = b_free (s_brd s b)" for b using F by blast
  show "is_dirty s m \<Longrightarrow> is_dirty s' m" for m using F by blast
  show "b_net (s_brd s' b) \<noteq> b_net (s_brd s b) \<Longrightarrow>
      is_dirty s' (b_net (s_brd s b)) \<and> is_dirty s' (b_net (s_brd s' b))" for b using F by blast
  show "Net s' p = k_originNet k"
    if "k \<in> set cls" "\<not> k_conflicting k" "HasValidNet k" "p \<in> set (k_items k)" "changeable s p" for k p
  proof -
    have "(k_originNet k, p) \<in> set (net_pairs cls)" using that by (auto simp: net_pairs_def)
    then have "b_net (s_brd s' (par s p)) = k_originNet k" using F that(5) by blast
    then show ?thesis using that(5) by (simp add: Net_def it changeable_def)
  qed
  show "s_brd s' b = s_brd s b"
    if "\<And>k p. k \<in> set cls \<Longrightarrow> \<not> k_conflicting k \<Longrightarrow> HasValidNet k \<Longrightarrow> p \<in> set (k_items k) \<Longrightarrow> changeable s p \<Longrightarrow>
      par s p \<noteq> b" for b
  proof -
    have "b \<notin> par s ` {p \<in> snd ` set (net_pairs cls). changeable s p}"
      using that by (fastforce simp: net_pairs_def split: if_splits)
    then show ?thesis using F by blast
  qed
qed

text \<open>In a cluster without conflict every pad with a rank has the net of the cluster.\<close>

lemma ranked_pad_net:
  assumes "\<not> k_conflicting (cluster_of s vs)" "p \<in> set (rank_pads s vs)"
  shows "Net s p = k_originNet (cluster_of s vs)"
proof -
  define k where "k = cluster_of s vs"
  have k: "cluster_meaning s vs k" "\<not> k_conflicting k" using cluster_meaning_of assms(1) by (simp_all add: k_def)
  have same: "Net s q = Net s p" if "q \<in> set (rank_pads s vs)" for q
    using k that assms(2) unfolding cluster_meaning_def by blast
  have "rank_pads s vs \<noteq> []" using assms(2) by auto
  then have m: "net_count s vs n \<le> net_count s vs (k_originNet k)" for n
    using k(1) unfolding cluster_meaning_def by blast
  have "net_count s vs (Net s p) > 0" using assms(2) net_count_pos by blast
  then have "net_count s vs (k_originNet k) > 0" using m less_le_trans by blast
  then obtain q where "q \<in> set (rank_pads s vs)" "Net s q = k_originNet k" unfolding net_count_pos by blast
  then show ?thesis using same unfolding k_def by simp
qed

subsection \<open>Dirty nets\<close>

definition nets_ok :: "CN_STATE \<Rightarrow> bool" where
  "nets_ok s \<longleftrightarrow> (\<forall>p\<in>its s. valid s p \<longrightarrow> Net s p < int (NetCount s))"

lemma IsNetDirty_Some: "n < int (NetCount s) \<Longrightarrow> IsNetDirty s n \<noteq> None"
  by (auto simp: IsNetDirty_def NetCount_def)

lemma GetDirtyClusters_Some:
  "\<forall>k\<in>set cls. k_originNet k < int (NetCount s) \<Longrightarrow> GetDirtyClusters s cls \<noteq> None"
  by (induction cls) (use IsNetDirty_Some in \<open>auto split: option.splits\<close>)

lemma cluster_net_in_range:
  assumes "nets_ok s" "made_in s k"
  shows "k_originNet k < int (NetCount s)"
proof -
  have "k_originNet k = - 1 \<or> k_originNet k \<in> Net s ` set (k_items k)"
    using cluster_meaning_of [of s "k_items k"] assms(2) unfolding cluster_meaning_def made_in_def by metis
  moreover have "Net s p < int (NetCount s)" if "p \<in> set (k_items k)" for p
  proof (cases "valid s p")
    case True
    then show ?thesis using assms that by (auto simp: nets_ok_def made_in_def)
  qed (simp add: Net_def)
  ultimately show ?thesis by auto
qed

subsection \<open>What a search for connections leaves\<close>

lemma searchConnections_frame:
  assumes inv: "CN_inv s"
  shows "s_items (searchConnections G s) = filter (valid s) (s_items s)"
    "s_itemMap (searchConnections G s) = s_itemMap s"
    "valid (searchConnections G s) p = valid s p" "par (searchConnections G s) p = par s p"
proof -
  define s1 where "s1 = snd (RemoveInvalidItems s)"
  define s2 where "s2 = foldl (\<lambda>s p. delete_item p s) s1 (fst (RemoveInvalidItems s))"
  have c: "cleaned s s1"
    using inv cleaned_RemoveInvalidItems [of s] unfolding s1_def CN_inv_def by blast
  have 2: "same_links s1 s2" unfolding s2_def by (rule same_links_delete_all)
  have "same_items s2 (searched G s)"
    unfolding searched_def s1_def [symmetric] s2_def [symmetric] Let_def by (simp add: same_items_foldl)
  moreover have "same_links (searched G s) (searchConnections G s)" unfolding searchConnections_eq by simp
  ultimately show "s_items (searchConnections G s) = filter (valid s) (s_items s)"
    "s_itemMap (searchConnections G s) = s_itemMap s"
    "valid (searchConnections G s) p = valid s p" "par (searchConnections G s) p = par s p"
    using c 2 by (simp_all add: cleaned_def same_links_def same_items_def)
qed

lemma itemMap_invalidate [simp]: "s_itemMap (invalidate_entry x s) = (s_itemMap s)(x := None)"
  by (simp add: invalidate_entry_eq)

lemma itemMap_invalidate_all:
  "x \<in> set xs \<or> s_itemMap s x = None \<Longrightarrow> s_itemMap (foldl (\<lambda>s x. invalidate_entry x s) s xs) x = None"
  by (induction xs arbitrary: s) auto

definition removed_parents :: "CN_STATE \<Rightarrow> nat \<Rightarrow> nat set" where
  "removed_parents s x = (if b_type (s_brd s x) = PCB_FOOTPRINT_T then set (b_pads (s_brd s x)) else {x})"

lemma s_brd_mark [simp]: "s_brd (markItemNetAsDirty x s) = s_brd s"
proof -
  have "s_brd (foldl (\<lambda>s pad. MarkNetAsDirty (b_net (s_brd s pad)) s) s ps) = s_brd s" for ps s
    by (induction ps arbitrary: s) simp_all
  then show ?thesis by (simp add: markItemNetAsDirty_def Let_def)
qed

lemma algo_Remove_map:
  "fst (algo_Remove x s) \<Longrightarrow> y \<in> removed_parents s x \<Longrightarrow> s_itemMap (snd (algo_Remove x s)) y = None"
  using itemMap_invalidate_all [of y "b_pads (s_brd s x)" "markItemNetAsDirty x s"]
  by (auto simp: algo_Remove_def Let_def removed_parents_def list_SetHasInvalid_def list_SetDirty_def split: if_splits)

end
