(* ===== verification/Conn_Thms.thy ===== *)
theory Conn_Thms
  imports Conn_Nets
begin

text \<open>
  The properties of the connectivity with their witnesses, on a small board: a pad of net 1 that touches a
  track of net 2, which touches a second track without net, and a pad of net 3 apart.
\<close>

subsection \<open>A board to try the operations on\<close>

definition ex_item :: BOARD_ITEM where
  "ex_item = \<lparr>b_type = PCB_TRACE_T, b_isConnected = True, b_net = 0, b_onCopper = True, b_layers = 1, b_layer = 0,
    b_topLayer = 0, b_bottomLayer = 31, b_start = Vec 0 0, b_end = Vec 0 0, b_position = Vec 0 0,
    b_shapePos = Vec 0 0, b_points = [], b_attribute = SMD, b_free = False, b_filled = False, b_width = 2,
    b_pads = [], b_footprint = None, b_justAdded = False, b_deleted = False, b_outlines = (\<lambda>_. []),
    b_bbox = \<lparr>m_Pos = Vec 0 0, m_Size = Vec 10 10, m_init = True\<rparr>\<rparr>"

definition ex_board :: "nat \<Rightarrow> BOARD_ITEM" where
  "ex_board = (\<lambda>_. ex_item)(0 := ex_item\<lparr>b_type := PCB_PAD_T, b_net := 1\<rparr>, 1 := ex_item\<lparr>b_net := 2\<rparr>,
    2 := ex_item\<lparr>b_net := 0\<rparr>, 3 := ex_item\<lparr>b_type := PCB_PAD_T, b_net := 3\<rparr>)"

definition ex_geometry :: GEOMETRY where
  "ex_geometry = \<lparr>g_HitTest = (\<lambda>_ _ _. False), g_HitTestFilledArea = (\<lambda>_ _ _ _. False),
    g_ConditionallyFlashed = (\<lambda>_ _. False), g_noZoneConnection = (\<lambda>_ _. False),
    g_Collide = (\<lambda>l a b. {fst a, fst b} \<in> {{0, 1}, {1, 2}}),
    g_ContainsPoint = (\<lambda>_ _ _ _. False), g_zoneCollide = (\<lambda>_ _ _ _. False)\<rparr>"

definition CN_STATE_new :: "(nat \<Rightarrow> BOARD_ITEM) \<Rightarrow> CN_STATE" where
  "CN_STATE_new brd = \<lparr>s_brd = brd, s_itm = (\<lambda>_. CN_ITEM_new 0 False),
    s_anc = (\<lambda>_. \<lparr>a_pos = Vec 0 0, a_item = None, a_tag = - 1, a_noline = False, a_cluster = None\<rparr>),
    s_newItem = 0, s_newAnchor = 0, s_items = [], s_dirty = False, s_hasInvalid = False, s_index = [],
    s_itemMap = Map.empty, s_dirtyNets = [], s_connClusters = [], s_ratsnestClusters = []\<rparr>"

lemma CN_inv_new: "CN_inv (CN_STATE_new brd)"
  by (simp add: CN_inv_def CN_STATE_new_def links_inv_def map_inv_def flag_inv_def)

definition ex_cn :: "nat \<Rightarrow> nat list \<Rightarrow> bool \<Rightarrow> CN_ITEM" where
  "ex_cn p links can = (CN_ITEM_new p can)\<lparr>c_connected := links, c_dirty := False, c_layers := LR_of 0 0,
    c_bbox := b_bbox ex_item\<rparr>"

definition ex_state :: CN_STATE where
  "ex_state = (CN_STATE_new ex_board)\<lparr>
    s_itm := (\<lambda>_. CN_ITEM_new 0 False)(0 := ex_cn 0 [1] False, 1 := ex_cn 1 [0, 2] True, 2 := ex_cn 2 [1] True,
      3 := ex_cn 3 [] False),
    s_newItem := 4, s_items := [0, 1, 2, 3],
    s_index := map (\<lambda>p. (p, LR_of 0 0, b_bbox ex_item)) [0, 1, 2, 3],
    s_itemMap := [0 \<mapsto> [0], 1 \<mapsto> [1], 2 \<mapsto> [2], 3 \<mapsto> [3]], s_dirtyNets := [True, True, True, True]\<rparr>"

lemmas ex_defs = ex_state_def CN_STATE_new_def ex_cn_def CN_ITEM_new_def ex_board_def ex_item_def

lemma CN_inv_ex: "CN_inv ex_state"
  by (simp add: CN_inv_def links_inv_def map_inv_def flag_inv_def ex_defs)

lemma stale_ex: "stale ex_state = {}"
  by (auto simp: stale_def ex_defs)

definition ex_clusters :: "CLUSTER_SEARCH_MODE \<Rightarrow> (nat list \<times> int \<times> bool) list" where
  "ex_clusters mode = (case SearchClusters_mode ex_geometry (sort_key k_originNet) mode ex_state of
     None \<Rightarrow> [] | Some (cls, s) \<Rightarrow> map (\<lambda>k. (k_items k, k_originNet k, k_conflicting k)) cls)"

lemma ex_clusters_propagate: "ex_clusters CSM_PROPAGATE = [([0, 1, 2], 1, False), ([3], 3, False)]"
  by code_simp

subsection \<open>Searching for clusters\<close>

lemma visited_searchConnections: "c_visited (s_itm (searchConnections G s) p) = c_visited (s_itm s p)"
proof -
  have 1: "c_visited (s_itm (snd (RemoveInvalidItems s)) p) = c_visited (s_itm s p)"
  proof -
    have "c_visited (s_itm (foldl (\<lambda>s p. RemoveInvalidRefs p s) s ps) p) = c_visited (s_itm s p)" for s ps
      by (induction ps arbitrary: s) (simp_all add: RemoveInvalidRefs_def upd_item_def)
    moreover have "c_visited (s_itm (foldl (\<lambda>s p. rt_Remove p s) s ps) p) = c_visited (s_itm s p)" for s ps
      by (induction ps arbitrary: s)
        (simp_all add: rt_Remove_def item_BBox_def Let_def upd_item_def split: option.split)
    ultimately show ?thesis by (simp add: RemoveInvalidItems_def Let_def list_SetHasInvalid_def)
  qed
  have 2: "c_visited (s_itm (foldl (\<lambda>s p. delete_item p s) s ps) p) = c_visited (s_itm s p)" for s ps
  proof -
    have "s_itm (foldl (\<lambda>s a. upd_anchor a g s) s as) = s_itm s" for g s as
      by (induction as arbitrary: s) (simp_all add: upd_anchor_def)
    then show ?thesis by (induction ps arbitrary: s) (simp_all add: delete_item_def)
  qed
  have 3: "c_visited (s_itm (searched G s) p) = c_visited (s_itm s p)"
  proof -
    define s2 where "s2 = foldl (\<lambda>s p. delete_item p s) (snd (RemoveInvalidItems s)) (fst (RemoveInvalidItems s))"
    have "same_items s2 (searched G s)"
      unfolding searched_def s2_def [symmetric] Let_def by (simp add: same_items_foldl)
    then show ?thesis using 1 2 by (simp add: same_items_def s2_def)
  qed
  have 4: "c_visited (s_itm (foldl (\<lambda>s p. SetItemDirty False p s) s ps) p) = c_visited (s_itm s p)" for s ps
    by (induction ps arbitrary: s) (simp_all add: SetItemDirty_def upd_item_def)
  show ?thesis using 3 4 by (simp add: searchConnections_eq list_ClearDirtyFlags_def list_SetDirty_def)
qed

lemma stale_search_state: "stale (search_state G s) = stale s"
  by (simp add: stale_def search_state_def visited_searchConnections)

text \<open>
  C6: a search for clusters returns and partitions the items it is asked for: every cluster is the class of
  one of them under being connected by valid items (of the same net, unless nets are propagated), every
  item asked for is in a cluster, and no item is in two or twice in one. This holds when no item outside
  of the search that could be reached carries a mark of an earlier search.
\<close>

theorem SearchClusters_components:
  assumes inv: "CN_inv s" and so: "permutes_list sorter"
    and fresh: "(linked (mode \<noteq> CSM_PROPAGATE) (search_state G s))\<^sup>* `` search_found G mode ts net r s \<inter> stale s
      \<subseteq> search_found G mode ts net r s"
  shows "\<exists>cls s'. SearchClusters G sorter mode ts net r s = Some (cls, s') \<and>
    (\<forall>k\<in>set cls. \<exists>p\<in>search_found G mode ts net r s.
      set (k_items k) = (linked (mode \<noteq> CSM_PROPAGATE) (search_state G s))\<^sup>* `` {p}) \<and>
    (\<forall>p\<in>search_found G mode ts net r s. \<exists>k\<in>set cls. p \<in> set (k_items k)) \<and>
    distinct (concat (map k_items cls))"
proof -
  define s1 where "s1 = search_state G s"
  define any where "any = (mode \<noteq> CSM_PROPAGATE)"
  define found where "found = filter (in_search any ts net r s1) (s_items s1)"
  have f: "set found = search_found G mode ts net r s" by (simp add: found_def search_found_def s1_def any_def)
  have i: "links_inv s1" using search_state_inv [OF inv] by (simp add: s1_def CN_inv_def)
  let ?V = "stale s1 - set found" and ?R = "sort (remdups found)"
  have R: "set ?R \<subseteq> its s1" "\<And>p. p \<in> set ?R \<Longrightarrow> valid s1 p" by (auto simp: found_def in_search_def)
  have "(linked any s1)\<^sup>* `` set ?R \<inter> ?V = {}"
    using fresh by (auto simp: f stale_search_state s1_def any_def)
  moreover have "v \<in> (linked any s1)\<^sup>* `` set ?R" if "u \<in> (linked any s1)\<^sup>* `` set ?R" "(u, v) \<in> linked any s1" for u v
    using that by (auto intro: rtrancl_into_rtrancl)
  ultimately have und: "undisturbed any s1 (set ?R) ?V" unfolding undisturbed_def by blast
  have "\<exists>cls. search_roots any ?R (wv ?V s1) = Some (cls, wv (?V \<union> (\<Union>k\<in>set cls. set (k_items k))) s1) \<and>
    (\<forall>k\<in>set cls. \<exists>r\<in>set ?R. set (k_items k) = (linked any s1)\<^sup>* `` {r} \<and> k = cluster_of s1 (k_items k)) \<and>
    distinct (concat (map k_items cls)) \<and> set (concat (map k_items cls)) \<inter> ?V = {} \<and>
    set ?R \<subseteq> ?V \<union> set (concat (map k_items cls))"
    by (rule search_roots_classes [OF links_inv_closed [OF i] sym_linked [OF i] R(1) R(2) und])
  then obtain cls where X: "search_roots any ?R (wv ?V s1) = Some (cls, wv (?V \<union> (\<Union>k\<in>set cls. set (k_items k))) s1) \<and>
    (\<forall>k\<in>set cls. \<exists>r\<in>set ?R. set (k_items k) = (linked any s1)\<^sup>* `` {r} \<and> k = cluster_of s1 (k_items k)) \<and>
    distinct (concat (map k_items cls)) \<and> set (concat (map k_items cls)) \<inter> ?V = {} \<and>
    set ?R \<subseteq> ?V \<union> set (concat (map k_items cls))" by (rule exE)
  note c = X [THEN conjunct1] X [THEN conjunct2, THEN conjunct1] X [THEN conjunct2, THEN conjunct2, THEN conjunct1]
    X [THEN conjunct2, THEN conjunct2, THEN conjunct2, THEN conjunct2]
  have run: "SearchClusters G sorter mode ts net r s = Some (sorter cls, wv (?V \<union> (\<Union>k\<in>set cls. set (k_items k))) s1)"
    unfolding SearchClusters_eq Let_def s1_def [symmetric] any_def [symmetric] found_def [symmetric] c(1) by simp
  have cov: "\<exists>k\<in>set cls. p \<in> set (k_items k)" if "p \<in> set found" for p using that c(4) by auto
  have cl: "\<forall>k\<in>set cls. \<exists>p\<in>set found. set (k_items k) = (linked any s1)\<^sup>* `` {p}"
  proof
    fix k assume "k \<in> set cls"
    with c(2) obtain r where "r \<in> set ?R" "set (k_items k) = (linked any s1)\<^sup>* `` {r}" by meson
    then show "\<exists>p\<in>set found. set (k_items k) = (linked any s1)\<^sup>* `` {p}" by auto
  qed
  have "distinct (concat (map k_items (sorter cls)))" using c(3) permutes_listD(2) [OF so] by blast
  moreover have "set (sorter cls) = set cls" by (rule permutes_listD(1) [OF so])
  ultimately show ?thesis
    using run cov cl unfolding f any_def [symmetric] s1_def [symmetric] by (intro exI [of _ "sorter cls"] exI conjI) simp_all
qed

lemma permutes_sort_key: "permutes_list (sort_key f)"
  by (simp add: permutes_list_def)

theorem SearchClusters_components_witness:
  "\<exists>cls s'. SearchClusters ex_geometry (sort_key k_originNet) CSM_RATSNEST (search_types CSM_RATSNEST) (- 1) None ex_state
      = Some (cls, s') \<and>
    (\<forall>k\<in>set cls. \<exists>p\<in>search_found ex_geometry CSM_RATSNEST (search_types CSM_RATSNEST) (- 1) None ex_state.
      set (k_items k) = (linked (CSM_RATSNEST \<noteq> CSM_PROPAGATE) (search_state ex_geometry ex_state))\<^sup>* `` {p}) \<and>
    (\<forall>p\<in>search_found ex_geometry CSM_RATSNEST (search_types CSM_RATSNEST) (- 1) None ex_state.
      \<exists>k\<in>set cls. p \<in> set (k_items k)) \<and>
    distinct (concat (map k_items cls))"
  by (rule SearchClusters_components) (simp_all add: CN_inv_ex permutes_sort_key stale_ex)

text \<open>
  Marks of an earlier search are taken back only on the items a search asks for: the second of two searches
  for pads does not pass through the tracks the first one has visited.
\<close>

definition two_searches :: "nat list list \<times> nat list list" where
  "two_searches =
    (case SearchClusters ex_geometry (sort_key k_originNet) CSM_PROPAGATE [PCB_PAD_T] (- 1) None ex_state of
       None \<Rightarrow> ([], [])
     | Some (a, s) \<Rightarrow>
        (case SearchClusters ex_geometry (sort_key k_originNet) CSM_PROPAGATE [PCB_PAD_T] (- 1) None s of
           None \<Rightarrow> ([], []) | Some (b, s) \<Rightarrow> (map k_items a, map k_items b)))"

lemma SearchClusters_stale_marks: "two_searches = ([[0, 1, 2], [3]], [[0], [3]])"
  by code_simp

subsection \<open>The invariant\<close>

text \<open>
  C7: every operation of the connectivity returns and keeps its invariant: adding and removing board items,
  building from a list of items, searching for connections, propagating nets, the clusters of the ratsnest
  and the search for islands.
\<close>

theorem connectivity_invariant:
  assumes "CN_inv s" "permutes_list sorter"
  shows "CN_inv (snd (algo_Add x s)) \<and> CN_inv (snd (algo_Remove x s)) \<and> CN_inv (LocalBuild xs s) \<and>
    CN_inv (searchConnections G s) \<and> (\<exists>s'. PropagateNets G sorter s = Some s' \<and> CN_inv s') \<and>
    (\<exists>s'. GetClusters G sorter s = Some s' \<and> CN_inv s') \<and>
    (\<exists>r s'. FillIsolatedIslandsMap G sorter m rebuilt s = Some (r, s') \<and> CN_inv s')"
  by (intro conjI algo_Add_inv algo_Remove_inv LocalBuild_inv searchConnections_inv PropagateNets_inv GetClusters_inv
      FillIsolatedIslandsMap_inv assms)

theorem connectivity_invariant_witness:
  "CN_inv (snd (algo_Add 4 ex_state)) \<and> CN_inv (snd (algo_Remove 4 ex_state)) \<and> CN_inv (LocalBuild [5] ex_state) \<and>
    CN_inv (searchConnections ex_geometry ex_state) \<and>
    (\<exists>s'. PropagateNets ex_geometry (sort_key k_originNet) ex_state = Some s' \<and> CN_inv s') \<and>
    (\<exists>s'. GetClusters ex_geometry (sort_key k_originNet) ex_state = Some s' \<and> CN_inv s') \<and>
    (\<exists>r s'. FillIsolatedIslandsMap ex_geometry (sort_key k_originNet) [(1, [0])] False ex_state = Some (r, s') \<and> CN_inv s')"
  by (rule connectivity_invariant [OF CN_inv_ex permutes_sort_key])

text \<open>
  C11: after a board item was removed and the connections were searched, no item of the list belongs to it,
  or to a pad of it if it is a footprint, and the items that are left refer to items of the list only,
  mutually: none of their lists points to an item that was deleted.
\<close>

theorem algo_Remove_forgets:
  fixes G :: GEOMETRY and s :: CN_STATE
  assumes inv: "CN_inv s" and ok: "fst (algo_Remove x s)"
  defines "s' \<equiv> searchConnections G (snd (algo_Remove x s))"
  shows "\<forall>p\<in>set (s_items s'). c_valid (s_itm s' p) \<and> c_parent (s_itm s' p) \<notin> removed_parents s x \<and>
    (\<forall>q\<in>set (c_connected (s_itm s' p)). q \<in> set (s_items s') \<and> p \<in> set (c_connected (s_itm s' q)))"
proof
  define s1 where "s1 = snd (algo_Remove x s)"
  have 1: "CN_inv s1" unfolding s1_def using inv by (rule algo_Remove_inv)
  note F = searchConnections_frame [OF 1, of G, folded s'_def [folded s1_def]]
  have 2: "CN_inv s'" unfolding s'_def s1_def [symmetric] using 1 by (rule searchConnections_inv)
  fix p assume p: "p \<in> set (s_items s')"
  then have v: "valid s' p" using F by simp
  have "\<exists>l. s_itemMap s' (par s' p) = Some l" using 2 p v by (auto simp: CN_inv_def map_inv_def)
  moreover have "s_itemMap s' y = None" if "y \<in> removed_parents s x" for y
    using algo_Remove_map [OF ok that] F(2) by (simp add: s1_def)
  ultimately have "par s' p \<notin> removed_parents s x" by fastforce
  then show "c_valid (s_itm s' p) \<and> c_parent (s_itm s' p) \<notin> removed_parents s x \<and>
      (\<forall>q\<in>set (c_connected (s_itm s' p)). q \<in> set (s_items s') \<and> p \<in> set (c_connected (s_itm s' q)))"
    using v p links_inv_D(5,6) [of s'] 2 unfolding CN_inv_def by blast
qed

theorem algo_Remove_forgets_witness:
  "\<exists>p\<in>set (s_items (searchConnections ex_geometry (snd (algo_Remove 1 ex_state)))).
    c_valid (s_itm (searchConnections ex_geometry (snd (algo_Remove 1 ex_state))) p) \<and>
    c_parent (s_itm (searchConnections ex_geometry (snd (algo_Remove 1 ex_state))) p) \<notin> removed_parents ex_state 1 \<and>
    (\<forall>q\<in>set (c_connected (s_itm (searchConnections ex_geometry (snd (algo_Remove 1 ex_state))) p)).
      q \<in> set (s_items (searchConnections ex_geometry (snd (algo_Remove 1 ex_state)))) \<and>
      p \<in> set (c_connected (s_itm (searchConnections ex_geometry (snd (algo_Remove 1 ex_state))) q)))"
proof -
  have ok: "fst (algo_Remove 1 ex_state)" by code_simp
  have "2 \<in> set (filter (valid (snd (algo_Remove 1 ex_state))) (s_items (snd (algo_Remove 1 ex_state))))" by code_simp
  then have "2 \<in> set (s_items (searchConnections ex_geometry (snd (algo_Remove 1 ex_state))))"
    using searchConnections_frame(1) [OF algo_Remove_inv [OF CN_inv_ex], of ex_geometry 1] by simp
  then show ?thesis using algo_Remove_forgets [OF CN_inv_ex ok, of ex_geometry] by blast
qed

subsection \<open>Nets\<close>

text \<open>
  C12: of the items put into a cluster, in any order: it is orphaned iff none of them is a pad with a net that
  counts; it has a valid net iff one of them has a net; it is conflicting iff two of its pads have different
  nets; and if it has pads, its net is one that most of its pads have.
\<close>

theorem cluster_net:
  "let k = cluster_of s vs; pads = filter (\<lambda>p. Net s p > 0 \<and> is_ranked_pad s p) vs;
       count = (\<lambda>n. length (filter (\<lambda>p. Net s p = n) pads)) in
    k_items k = vs \<and> (IsOrphaned k \<longleftrightarrow> pads = []) \<and> (HasValidNet k \<longleftrightarrow> (\<exists>p\<in>set vs. Net s p > 0)) \<and>
    (k_conflicting k \<longleftrightarrow> (\<exists>p\<in>set pads. \<exists>q\<in>set pads. Net s p \<noteq> Net s q)) \<and>
    (pads \<noteq> [] \<longrightarrow> (\<forall>n. count n \<le> count (k_originNet k)))"
proof -
  define k where "k = cluster_of s vs"
  have m: "cluster_meaning s vs k" unfolding k_def by (rule cluster_meaning_of)
  have i: "k_items k = vs" by (simp add: k_def)
  have "IsOrphaned k \<longleftrightarrow> rank_pads s vs = []" using m unfolding cluster_meaning_def IsOrphaned_def by blast
  moreover have "k_originNet k \<le> 0 \<longleftrightarrow> (\<forall>p\<in>set vs. Net s p \<le> 0)" using m unfolding cluster_meaning_def by blast
  then have "HasValidNet k \<longleftrightarrow> (\<exists>p\<in>set vs. Net s p > 0)" unfolding HasValidNet_def by force
  moreover have "k_conflicting k \<longleftrightarrow> (\<exists>p\<in>set (rank_pads s vs). \<exists>q\<in>set (rank_pads s vs). Net s p \<noteq> Net s q)"
    using m unfolding cluster_meaning_def by blast
  moreover have "rank_pads s vs \<noteq> [] \<longrightarrow> (\<forall>n. net_count s vs n \<le> net_count s vs (k_originNet k))"
    using m unfolding cluster_meaning_def by blast
  ultimately show ?thesis
    unfolding Let_def k_def [symmetric] rank_pads_def [symmetric] net_count_def [symmetric] using i by blast
qed

theorem cluster_net_witness:
  "let k = cluster_of ex_state [3, 1, 0]; pads = filter (\<lambda>p. Net ex_state p > 0 \<and> is_ranked_pad ex_state p) [3, 1, 0];
       count = (\<lambda>n. length (filter (\<lambda>p. Net ex_state p = n) pads)) in
    k_items k = [3, 1, 0] \<and> (IsOrphaned k \<longleftrightarrow> pads = []) \<and>
    (HasValidNet k \<longleftrightarrow> (\<exists>p\<in>set [3, 1, 0]. Net ex_state p > 0)) \<and>
    (k_conflicting k \<longleftrightarrow> (\<exists>p\<in>set pads. \<exists>q\<in>set pads. Net ex_state p \<noteq> Net ex_state q)) \<and>
    (pads \<noteq> [] \<longrightarrow> (\<forall>n. count n \<le> count (k_originNet k)))"
  by (rule cluster_net)

lemma searchConnections_board:
  assumes "CN_inv s"
  shows "s_brd (searchConnections G s) = s_brd s \<and> s_dirtyNets (searchConnections G s) = s_dirtyNets s"
proof -
  define s1 where "s1 = snd (RemoveInvalidItems s)"
  define s2 where "s2 = foldl (\<lambda>s p. delete_item p s) s1 (fst (RemoveInvalidItems s))"
  have 1: "s_brd s1 = s_brd s" "s_dirtyNets s1 = s_dirtyNets s"
    using assms cleaned_RemoveInvalidItems [of s] by (simp_all add: s1_def CN_inv_def cleaned_def)
  have "s_brd (foldl (\<lambda>s a. upd_anchor a g s) s as) = s_brd s \<and>
    s_dirtyNets (foldl (\<lambda>s a. upd_anchor a g s) s as) = s_dirtyNets s" for g s as
    by (induction as arbitrary: s) (simp_all add: upd_anchor_def)
  then have "s_brd (foldl (\<lambda>s p. delete_item p s) s ps) = s_brd s \<and>
    s_dirtyNets (foldl (\<lambda>s p. delete_item p s) s ps) = s_dirtyNets s" for s ps
    by (induction ps arbitrary: s) (simp_all add: delete_item_def)
  then have 2: "s_brd s2 = s_brd s1" "s_dirtyNets s2 = s_dirtyNets s1" by (simp_all add: s2_def)
  have "same_items s2 (searched G s)"
    unfolding searched_def s1_def [symmetric] s2_def [symmetric] Let_def by (simp add: same_items_foldl)
  moreover have "s_brd (foldl (\<lambda>s p. SetItemDirty False p s) s ps) = s_brd s \<and>
      s_dirtyNets (foldl (\<lambda>s p. SetItemDirty False p s) s ps) = s_dirtyNets s" for s ps
    by (induction ps arbitrary: s) (simp_all add: SetItemDirty_def upd_item_def)
  ultimately show ?thesis
    using 1 2 by (simp add: searchConnections_eq list_ClearDirtyFlags_def list_SetDirty_def same_items_def)
qed

lemma search_state_board:
  "CN_inv s \<Longrightarrow> s_brd (search_state G s) = s_brd s" "CN_inv s \<Longrightarrow> s_dirtyNets (search_state G s) = s_dirtyNets s"
  using searchConnections_board by (simp_all add: search_state_def)

lemma own_parents_wv: "own_parents (wv V s) = own_parents s"
  by (simp add: own_parents_def changeable_def)

lemma made_in_wv: "made_in (wv V s) k = made_in s k"
  by (simp add: made_in_def)

text \<open>The two halves of what propagation does, on a state whose clusters a search has made.\<close>

lemma propagate_pad_net:
  assumes c: "s_connClusters s = cls" and made: "\<forall>k\<in>set cls. made_in s k"
    and d: "distinct (concat (map k_items cls))" and own: "own_parents s"
    and k: "k \<in> set cls" "\<not> k_conflicting k" "HasValidNet k" "p \<in> set (k_items k)"
    and p: "is_ranked_pad (propagateConnections s) p" "Net (propagateConnections s) p > 0"
  shows "Net (propagateConnections s) p = k_originNet k"
proof -
  note P = propagate_clusters [OF c made d own]
  show ?thesis
  proof (cases "changeable s p")
    case True
    then show ?thesis using P(2) k by blast
  next
    case False
    have mk: "made_in s k" using made k(1) by blast
    then have pi: "p \<in> its s" using k(4) by (auto simp: made_in_def)
    have "par s q \<noteq> par s p" if "l \<in> set cls" "q \<in> set (k_items l)" "changeable s q" for l q
    proof
      assume "par s q = par s p"
      moreover have "q \<in> its s" using made that(1,2) by (auto simp: made_in_def)
      ultimately have "q = p" using own pi that(3) unfolding own_parents_def by blast
      then show False using False that(3) by simp
    qed
    then have "s_brd (propagateConnections s) (par s p) = s_brd s (par s p)" using P(3) by blast
    then have n: "Net (propagateConnections s) p = Net s p" using P(1) by (simp add: Net_def)
    have "k_conflicting (cluster_of s (k_items k)) = k_conflicting k" "k_originNet (cluster_of s (k_items k)) = k_originNet k"
      using mk unfolding made_in_def by metis+
    moreover have "is_ranked_pad s p" using p(1) P(1,4) by (simp add: is_ranked_pad_def)
    then have "p \<in> set (rank_pads s (k_items k))" using k(4) p n by (simp add: rank_pads_def)
    ultimately show ?thesis using ranked_pad_net [of s "k_items k" p] k(2) n by simp
  qed
qed

lemma propagate_keeps_clusters: "s_connClusters (propagateConnections s) = s_connClusters s"
proof -
  have m: "s_connClusters (MarkNetAsDirty n s) = s_connClusters s" for n s by (simp add: MarkNetAsDirty_def Let_def)
  have p: "s_connClusters (propagate_item n p s) = s_connClusters s" for n p s
    by (simp add: propagate_item_def SetNetCode_def m)
  have "s_connClusters (foldl (\<lambda>s (n, p). propagate_item n p s) s xs) = s_connClusters s" for s xs
    by (induction xs arbitrary: s) (auto simp: p)
  then show ?thesis by (simp add: propagateConnections_pairs)
qed

text \<open>
  C13: when an item that may change its net is the only one of its board item, propagation of nets returns,
  and in every cluster without conflict and with a net all items that may change their net, and all pads with a net, have the net of the cluster afterwards. The net of a board
  item changes only if it has an item in such a cluster that may change it, and then its old net and its new
  one are marked as dirty.
\<close>

theorem PropagateNets_nets:
  assumes inv: "CN_inv s" and so: "permutes_list sorter" and own: "own_parents (search_state G s)"
  shows "\<exists>s'. PropagateNets G sorter s = Some s' \<and>
    (\<forall>k\<in>set (s_connClusters s'). \<not> k_conflicting k \<and> HasValidNet k \<longrightarrow>
      (\<forall>p\<in>set (k_items k). changeable s' p \<or> is_ranked_pad s' p \<and> Net s' p > 0 \<longrightarrow> Net s' p = k_originNet k)) \<and>
    (\<forall>b. b_net (s_brd s' b) \<noteq> b_net (s_brd s b) \<longrightarrow>
      (\<exists>k\<in>set (s_connClusters s'). \<not> k_conflicting k \<and> HasValidNet k \<and>
        (\<exists>p\<in>set (k_items k). changeable s' p \<and> c_parent (s_itm s' p) = b)) \<and>
      is_dirty s' (b_net (s_brd s b)) \<and> is_dirty s' (b_net (s_brd s' b)))"
proof -
  define s1 where "s1 = search_state G s"
  obtain cls V where c: "SearchClusters G sorter CSM_PROPAGATE (search_types CSM_PROPAGATE) (- 1) None s = Some (cls, wv V s1)"
    "\<forall>k\<in>set cls. made_in s1 k" "distinct (concat (map k_items cls))"
    using SearchClusters_returns [OF inv so] unfolding s1_def by metis
  define s2 where "s2 = wv V s1\<lparr>s_connClusters := cls\<rparr>"
  have f: "c_parent (s_itm s2 p) = par s1 p" "changeable s2 p = changeable s1 p" "s_connClusters s2 = cls"
    "Net s2 p = Net s1 p" "is_ranked_pad s2 p = is_ranked_pad s1 p" for p
    by (simp_all add: s2_def changeable_def Net_def is_ranked_pad_def wv_def)
  have b2: "s_brd s2 = s_brd s" using search_state_board(1) [OF inv] by (simp add: s2_def s1_def wv_def)
  have made: "\<forall>k\<in>set cls. made_in s2 k"
  proof
    fix k assume "k \<in> set cls"
    with c(2) have "made_in s1 k" by blast
    moreover have "cluster_Add s2 = cluster_Add s1" unfolding cluster_Add_def f(4,5) by (rule refl)
    ultimately show "made_in s2 k" by (simp add: made_in_def s2_def wv_def)
  qed
  have own2: "own_parents s2" using own unfolding own_parents_def f by (simp add: s2_def wv_def s1_def)
  define s' where "s' = propagateConnections s2"
  note P = propagate_clusters [OF f(3) made c(3) own2, folded s'_def]
  note pads = propagate_pad_net [OF f(3) made c(3) own2, folded s'_def]
  have run: "PropagateNets G sorter s = Some s'"
    using c(1) by (simp add: PropagateNets_def SearchClusters_mode_def s'_def s2_def wv_def)
  have cc: "s_connClusters s' = cls" by (simp add: s'_def propagate_keeps_clusters f(3))
  have ch: "changeable s' p = changeable s2 p" "par s' p = par s2 p" for p using P(1) by (simp_all add: changeable_def)
  have chg: "\<exists>k\<in>set cls. \<not> k_conflicting k \<and> HasValidNet k \<and> (\<exists>p\<in>set (k_items k). changeable s' p \<and> par s' p = b)"
    if "b_net (s_brd s' b) \<noteq> b_net (s_brd s b)" for b
  proof (rule ccontr)
    assume "\<not> ?thesis"
    then have "s_brd s' b = s_brd s2 b" using P(3) [of b] unfolding ch by blast
    then show False using that b2 by simp
  qed
  show ?thesis
    by (intro exI [of _ s'] conjI run ballI allI impI; (elim conjE disjE)?)
      (use P(2,5) pads chg b2 in \<open>simp_all add: cc ch\<close>)
qed

lemma own_parents_ex: "own_parents ex_state"
  by (simp add: own_parents_def changeable_def ex_defs)

theorem PropagateNets_nets_witness:
  "\<exists>s'. PropagateNets ex_geometry (sort_key k_originNet) ex_state = Some s' \<and>
    (\<forall>k\<in>set (s_connClusters s'). \<not> k_conflicting k \<and> HasValidNet k \<longrightarrow>
      (\<forall>p\<in>set (k_items k). changeable s' p \<or> is_ranked_pad s' p \<and> Net s' p > 0 \<longrightarrow> Net s' p = k_originNet k)) \<and>
    (\<forall>b. b_net (s_brd s' b) \<noteq> b_net (s_brd ex_state b) \<longrightarrow>
      (\<exists>k\<in>set (s_connClusters s'). \<not> k_conflicting k \<and> HasValidNet k \<and>
        (\<exists>p\<in>set (k_items k). changeable s' p \<and> c_parent (s_itm s' p) = b)) \<and>
      is_dirty s' (b_net (s_brd ex_state b)) \<and> is_dirty s' (b_net (s_brd s' b)))"
proof -
  have "own_parents (search_state ex_geometry ex_state)"
    using own_parents_ex by (simp add: search_state_def ex_state_def CN_STATE_new_def)
  from PropagateNets_nets [OF CN_inv_ex permutes_sort_key this] show ?thesis .
qed

text \<open>
  C14: no flag of a dirty net is read behind the end of the vector: when the nets of all valid items have
  flags, this is so after the clusters of the ratsnest were found, and then the dirty ones among them can be
  told.
\<close>

theorem GetDirtyClusters_in_range:
  assumes inv: "CN_inv s" and so: "permutes_list sorter" and nets: "nets_ok s"
  shows "\<exists>s'. GetClusters G sorter s = Some s' \<and> nets_ok s' \<and>
    (\<forall>k\<in>set (s_ratsnestClusters s'). IsNetDirty s' (k_originNet k) \<noteq> None) \<and>
    GetDirtyClusters s' (s_ratsnestClusters s') \<noteq> None"
proof -
  define s1 where "s1 = search_state G s"
  obtain cls V where c: "SearchClusters G sorter CSM_RATSNEST (search_types CSM_RATSNEST) (- 1) None s = Some (cls, wv V s1)"
    "\<forall>k\<in>set cls. made_in s1 k"
    using SearchClusters_returns [OF inv so] unfolding s1_def by metis
  have n1: "nets_ok s1"
  proof (cases "s_dirty s")
    case True
    then have e: "s1 = searchConnections G s" by (simp add: s1_def search_state_def)
    have "Net s1 p = Net s p" for p
      unfolding e Net_def using searchConnections_frame(3,4) [OF inv] searchConnections_board [OF inv] by simp
    then show ?thesis
      using nets searchConnections_frame(1,3) [OF inv, of G] searchConnections_board [OF inv, of G]
      by (simp add: nets_ok_def e NetCount_def)
  qed (use nets in \<open>simp add: s1_def search_state_def\<close>)
  let ?s' = "wv V s1\<lparr>s_ratsnestClusters := cls\<rparr>"
  have N: "Net ?s' p = Net s1 p" for p by (simp add: Net_def wv_def)
  have run: "GetClusters G sorter s = Some ?s'" using c(1) by (simp add: GetClusters_def SearchClusters_mode_def)
  have "nets_ok ?s'" using n1 unfolding nets_ok_def N by (simp add: NetCount_def wv_def)
  moreover have r: "k_originNet k < int (NetCount ?s')" if "k \<in> set cls" for k
    using cluster_net_in_range [OF n1] c(2) that by (simp add: NetCount_def wv_def)
  ultimately show ?thesis
    using run IsNetDirty_Some GetDirtyClusters_Some [of cls ?s'] by (intro exI [of _ ?s']) simp
qed

lemma nets_ok_ex: "nets_ok ex_state"
  by (simp add: nets_ok_def Net_def NetCount_def ex_defs)

theorem GetDirtyClusters_in_range_witness:
  "\<exists>s'. GetClusters ex_geometry (sort_key k_originNet) ex_state = Some s' \<and> nets_ok s' \<and>
    (\<forall>k\<in>set (s_ratsnestClusters s'). IsNetDirty s' (k_originNet k) \<noteq> None) \<and>
    GetDirtyClusters s' (s_ratsnestClusters s') \<noteq> None"
  by (rule GetDirtyClusters_in_range [OF CN_inv_ex permutes_sort_key nets_ok_ex])

text \<open>
  A footprint one of whose pads is known already is left with the pads before it in the list and their nets
  not marked: the flag of such a net is then read behind the end of the vector.
\<close>

definition ex_footprint :: "nat \<Rightarrow> BOARD_ITEM" where
  "ex_footprint = (\<lambda>_. ex_item)(0 := ex_item\<lparr>b_type := PCB_FOOTPRINT_T, b_isConnected := False, b_pads := [1, 2]\<rparr>,
    1 := ex_item\<lparr>b_type := PCB_PAD_T, b_net := 5\<rparr>, 2 := ex_item\<lparr>b_type := PCB_PAD_T, b_net := 1\<rparr>)"

definition half_added :: "bool \<times> nat list \<times> bool option" where
  "half_added = (let (ok, s) = algo_Add 0 ((CN_STATE_new ex_footprint)\<lparr>
      s_itm := (\<lambda>_. CN_ITEM_new 2 False), s_newItem := 1, s_items := [0], s_index := [(0, LR_of 0 0, b_bbox ex_item)],
      s_itemMap := [2 \<mapsto> [0]], s_dirtyNets := [True, True]\<rparr>)
    in (ok, s_items s, IsNetDirty s 5))"

lemma Add_footprint_half: "half_added = (False, [0, 1], None)"
  by code_simp

text \<open>Marking a net behind the end of the vector marks the last net it held again.\<close>

lemma MarkNetAsDirty_marks_last:
  "s_dirtyNets (MarkNetAsDirty 3 (ex_state\<lparr>s_dirtyNets := [False, False]\<rparr>)) = [False, True, True, True]"
  by (simp add: MarkNetAsDirty_def eval_nat_numeral)

end
