(* ===== verification/Spec2Isabelle.thy ===== *)
theory Spec2Isabelle
  imports Layers Inside_Props Query_Props String_Props Arrays Bus_Names Router_Props Poly_Props Sexpr_Props Dsn_Props Libeval_Lex Libeval_Run Conn_Thms
begin

text \<open>
  A verification library for KiCad, the electronics design suite: schematic editor, board editor,
  viewers and calculators over shared libraries. What is modelled is the logic the editors share
  (layers and layer sets, the integer geometry kernel, chains of segments and arcs, the text
  utilities, sets of polygons, the trees of the file formats) and the store of items the interactive
  router works on.

  \<^bold>\<open>Theories and code.\<close>
  \<^item> \<open>Kicad_Prelude\<close>: collections of rules, list surgery as \<open>std::vector\<close> does it (\<open>vec_insert\<close>,
    \<open>vec_erase\<close>), 32-bit integers (\<open>to_int32\<close>) and rounding to \<open>double\<close> (\<open>to_double\<close>), and three interfaces: \<open>involution_on\<close> (an operation that undoes itself on the states
    it keeps), \<open>text_codec\<close> (a writer with its reader), \<open>hull_accumulator\<close> (growing a region item by
    item). Each is interpreted on the model of the code that provides it.
  \<^item> \<open>Layers\<close>: \<open>include/layer_ids.h\<close>, \<open>common/lset.cpp\<close>. A layer is an \<open>int\<close> of the enum, \<open>LSET\<close> (a
    \<open>std::bitset\<close>) a 60-bit word, \<open>LSEQ\<close> a list.
  \<^item> \<open>Geometry\<close>: \<open>libs/kimath\<close>, vectors, rounding division, integer square root, segments
    (\<open>geometry/seg.cpp\<close>) and the segment predicates of \<open>trigo.cpp\<close>. The reference is the set
    \<open>seg_points\<close> of the real points of a segment.
  \<^item> \<open>Boxes\<close>: \<open>math/box2.h\<close>. The reference is the set of grid points, or of real points, of a box.
  \<^item> \<open>Line_Chain\<close>, \<open>Chain_Props\<close>: \<open>geometry/shape_line_chain.h\<close> and \<open>.cpp\<close>, the state of
    \<open>SHAPE_LINE_CHAIN\<close> (a record of points, pairs of arc numbers, arcs, closed flag, width and cached
    box) and every operation that edits it; \<open>chain_made\<close> is the inductive set of the chains these
    operations can build, \<open>chain_ok\<close> its invariant.
  \<^item> \<open>Chain_Queries\<close>: the queries of \<open>shape_line_chain.cpp\<close>, sides, intersections, distances, \<open>Simplify\<close>.
    \<open>Inside_Props\<close>: the incremental test of the tracker counts the edges a ray crosses where their sides are \<open>sharp\<close> in
    \<open>double\<close>, the rounding test agrees with it. \<open>Query_Props\<close>: simplification, collisions, self-intersection.
  \<^item> \<open>Poly_Set\<close>, \<open>Poly_Props\<close>: \<open>geometry/shape_poly_set.h\<close> and \<open>.cpp\<close>. The reference is the list
    \<open>all_points\<close> of the vertices, contour by contour; the interface \<open>vertex_editor\<close> of a vertex list that
    is edited by index has the chain and the set of polygons as its two providers. For edits of whatever number, errors
    included, it is the nested list \<open>shapes_of\<close>.
  \<^item> \<open>Sexpr\<close>, \<open>Sexpr_Props\<close>: \<open>libs/sexpr\<close>, the trees with their checked accessors, parser, printer, and the
    reading and building of lists. Errors are values of a sum.
  \<^item> \<open>Dsn_Lexer\<close>, \<open>Dsn_Props\<close>: \<open>common/dsnlexer.cpp\<close>, \<open>common/richio.cpp\<close>, the reader of tokens that the parsers of
    boards, schematics and libraries stand on, its line readers, and the formatter that writes. The reference of a text
    is a list of items (\<open>items_text\<close>), \<open>number_grammar\<close> that of numbers; what is left to read is \<open>remaining\<close>.
  \<^item> \<open>Libeval\<close>, \<open>Libeval_Lex\<close>, \<open>Libeval_Props\<close>, \<open>Libeval_Run\<close>: \<open>common/libeval_compiler\<close>, the compiler of the expressions
    in design rules. The record \<open>GEN\<close> is the state of the loop that generates code, nodes being named by the way to
    them; its reference is the recursive \<open>compile\<close>. The context \<open>CONTEXT\<close> of the stack machine runs the code; its
    reference is \<open>eval\<close>, the value of the expression a tree stands for. The grammar's actions are \<open>nt_pair\<close> and its
    like, the parser generated from them is a parameter.
  \<^item> \<open>Conn_Items\<close>, \<open>Conn_Algo\<close>, \<open>Conn_Search\<close>: \<open>pcbnew/connectivity\<close>, which items of a board hang together. The record
    \<open>CN_STATE\<close> holds the heaps of board items, items and anchors, the list of items with its index, and the dirty
    nets. \<open>Conn_Props\<close>: a search for clusters is a walk through the relation \<open>linked\<close>. \<open>Conn_Inv\<close>: the invariant
    \<open>CN_inv\<close> of mutual, sorted lists of connected items, kept by every operation. \<open>Conn_Nets\<close>: what the fields of a
    cluster mean, and propagation. \<open>Conn_Thms\<close>: the properties on a small board.
  \<^item> \<open>Strings\<close>, \<open>String_Props\<close>: \<open>common/string_utils.cpp\<close>, escaping, quoting, comparison of names,
    wild cards, splitting.
  \<^item> \<open>Arrays\<close>: \<open>common/array_axis.cpp\<close>, \<open>common/array_options.cpp\<close>, \<open>pcbnew/array_pad_number_provider.cpp\<close>,
    the numbers of the items of an array. The interface \<open>numbering\<close> asks for numbers that are there and
    differ up to a bound; the search for a free number is proved in it.
  \<^item> \<open>Bus_Names\<close>: the bus labels of \<open>common/project/net_settings.cpp\<close>.
  \<^item> \<open>Router_World\<close>: \<open>pcbnew/router\<close>, \<open>pns_item.h\<close>, \<open>pns_layerset.h\<close>, \<open>pns_joint.h\<close>, \<open>pns_index.cpp\<close>,
    \<open>pns_node.cpp\<close>. Pointers are numbers into one record \<open>WORLD\<close> that holds the items and nodes, which
    nodes live and which items were freed. \<open>Router_Joints\<close>: when the joints of a node link exactly a set
    of items (\<open>exact\<close>), and an index lists each item under its layers and net (\<open>index_ok\<close>).
    \<open>Router_Items\<close>: an operation of a node is a change of joints and a change of items that do not
    touch each other. \<open>Router_Tree\<close>: deleting branches. \<open>Router_Commit\<close>: the invariant \<open>world_ok\<close> of the
    worlds a router can make (\<open>world_made\<close>) and the items a branch shows (\<open>visible\<close>).
    \<open>Router_Branches\<close>: the joints a branch looks at, its own or the root's, link what it shows. The
    interfaces \<open>joint_links\<close> and \<open>joint_store\<close> say what linking one item and taking one off promise;
    adding and removing are proved once in them, for the root and for branches.
    \<open>Router_Props\<close>: the properties; the interface \<open>set_editor\<close> of a state that is edited like a set.

  The chain calls the boxes (its cached bounding box) and the segments (which segment a point is on),
  the boxes call the segments (a line through a box), sets of polygons consist of chains. The router uses vectors and boxes; its placers
  make a branch, add and remove items there, and commit one of their branches to the root. The connectivity uses
  layer sets, layer ranges and boxes.

  \<^bold>\<open>Conventions.\<close> A function that reads outside of its vectors, dereferences nothing or may not
  return gives \<open>None\<close>. Loops of the code that walk over a list are recursive functions with a
  termination proof; the walks of \<open>Slice\<close>, \<open>ShapeCount\<close> and the wild-card comparison and the walk of a cluster, whose end is
  not evident, are partial functions, and that they return is proved. Three functions have fuel. Reading all tokens (\<open>lex_all\<close>) takes a step
  for every character at most. The parser of S-expressions takes
  at most two steps for every character, so that twice the length of the text and one is enough. The deletion of
  branches goes from a node to nodes allocated after it, so that the number of nodes is enough. All are
  proved. Assertions do nothing in a release build and are left out, but the joint that is looked
  up for a via to be removed is dereferenced, so that a missing one gives \<open>None\<close>. Floating-point values are parameters: the first guess
  of \<open>isqrt\<close>, the middle points and polylines of arcs. The determinant of the point-inside tracker is computed as in the
  code, with two rounded products. Coordinates are unbounded integers, with the
  bounds below which 32- and 64-bit arithmetic agree proved separately where products are formed; the differences of
  \<open>SEG::NearestPoint\<close> and of the tracker wrap at 32 bits as in the code, and what is proved of them is for coordinates
  below \<open>2 ^ 30\<close> (\<open>in_board\<close>). Numbers read from text are accumulated in an \<open>int\<close>; an overflow, which has no meaning in the
  language, gives \<open>None\<close>. The numbers of arrays wrap at 32 bits. The conversions between UTF-8 and text and the locale are those
  of the library: the first are parameters (\<open>WX_CONV\<close>), the second is taken to be "C".

  \<^bold>\<open>Theorems.\<close> Layer sets: flipping is the image under flipping a layer; the text form reads back;
  the orders are complete. Geometry: intersection, nearest point and rounding are exact with respect
  to the real plane; boxes are their sets of points. Chains: the invariant for every reachable
  chain; conversion, removal, reversal and slicing do what they should to every arc and point, and
  return; a ray crosses the outline an odd number of times from the points inside; simplifying leaves
  vertices out and moves none; what collides with a point is pinned down, with the band around a closed chain. Polygon sets: the numberings are inverse, edits are edits of nested lists and fail when those do,
  the iterator visits every vertex, deleting keeps the triangulation. S-expressions: the parser returns
  for every text, makes well-formed trees and reads back what is printed. Tokens: a text of items is read as these
  items, numbers are those of the grammar, reading ends. Rule expressions: a text is read as its items and fed to the
  parser in finitely many steps; the code computes the value of the expression within the stack it needs; names that are
  not found are reported. Connectivity: clusters are the classes of the connected items, a cluster has the net of most
  of its pads, items that may change their net take it, a removed item leaves no reference behind. Text: unescaping undoes escaping, quoted text reads back, the bounded reader stays in its
  buffer, the wild-card loop ends and decides the usual meaning, names with numbers that fit are totally
  ordered. Arrays: a number reads back as its index, the search for a free one ends. Bus labels: what a
  vector and a group name. Router: a branch is a view that adding, removing and branching change as a set; a removal always
  finds the joint it needs; committing
  one makes the root that set, with exact joints and without a freed item; deleting branches ends.
  Beside the theorems stand evaluated examples of inputs on which the code does something
  else than it means to.

  \<^bold>\<open>Not modelled.\<close> The user interface, the canvases, plotters and the 3D viewer (graphics libraries);
  floating-point geometry (arcs, rotations, fillets), polygon Boolean operations (a third-party
  library), the file parsers and importers, the design-rule checker, the zone filler and the router's
  collision queries and search. A world of the router changes its root only while it has no branches,
  as the router does, and frees branches all at once; edge exclusions and the rule resolver of a node
  are left out. Also left out: the ratsnest and the queries on the connectivity, the identifiers of libraries, the
  numbering of symbols, the assembly of lines from joints, the macro evaluator of the Gerber viewer.
\<close>

end
